(* ===== verification/Prelude.thy ===== *)
theory Prelude
  imports Main "HOL-Library.Word" "HOL-Library.Signed_Division"
begin

text \<open>
  Shared vocabulary of the development: bytes and byte strings, the bit
  numbering of network prefixes (bit 0 is the most significant bit of octet 0),
  results of fallible code as a sum with the error on the left, and the generic
  facts on lists, words and options the component theories use.
\<close>

unbundle bit_operations_syntax

named_theorems byte_simps
named_theorems net_simps
named_theorems wf_intros

type_synonym byte = "8 word"
type_synonym bytes = "8 word list"

subsection \<open>Results of fallible code\<close>

fun result_bind :: "'e + 'a \<Rightarrow> ('a \<Rightarrow> 'e + 'b) \<Rightarrow> 'e + 'b" where
  "result_bind (Inl e) f = Inl e"
| "result_bind (Inr x) f = f x"

fun is_ok :: "'e + 'a \<Rightarrow> bool" where
  "is_ok (Inl e) = False"
| "is_ok (Inr x) = True"

lemma is_ok_iff: "is_ok r \<longleftrightarrow> (\<exists>x. r = Inr x)"
  by (cases r) simp_all

lemma result_bind_Inr_iff:
  "result_bind r f = Inr y \<longleftrightarrow> (\<exists>x. r = Inr x \<and> f x = Inr y)"
  by (cases r) simp_all

lemma result_bind_Inl_iff:
  "result_bind r f = Inl e \<longleftrightarrow> r = Inl e \<or> (\<exists>x. r = Inr x \<and> f x = Inl e)"
  by (cases r) simp_all

subsection \<open>Bits of octet strings, most significant bit first\<close>

definition bit_pos :: "nat \<Rightarrow> nat \<times> nat" where
  "bit_pos k = (k div 8, 7 - k mod 8)"

definition getbit :: "bytes \<Rightarrow> nat \<Rightarrow> bool" where
  "getbit xs k = bit (xs ! (k div 8)) (7 - k mod 8)"

lemma bit_pos_eq_iff: "bit_pos k = bit_pos l \<longleftrightarrow> k = l"
proof
  assume eq: "bit_pos k = bit_pos l"
  have "k div 8 = l div 8" "7 - k mod 8 = 7 - l mod 8"
    using eq by (simp_all add: bit_pos_def)
  moreover have "k mod 8 \<le> 7" "l mod 8 \<le> 7" by presburger+
  ultimately have "k div 8 = l div 8" "k mod 8 = l mod 8" by linarith+
  then show "k = l" by (metis mod_div_mult_eq)
qed simp

lemma bit_byte_lt: "bit w j \<Longrightarrow> j < 8" for w :: byte
  using bit_imp_le_length[of w j] by simp

lemma mod_Suc_eq_octet: "j < 8 \<Longrightarrow> 7 - (8 * i + 7 - j) mod 8 = j" for i j :: nat
proof -
  assume j: "j < 8"
  have eq: "8 * i + 7 - j = (7 - j) + i * 8" using j by simp
  have "(8 * i + 7 - j) mod 8 = 7 - j" unfolding eq mod_mult_self1 by simp
  then show ?thesis using j by simp
qed

text \<open>Octet strings of 16 octets are determined by their 128 bits.\<close>

lemma bytes_eq_by_bits:
  assumes len: "length xs = length ys"
    and bits: "\<And>k. k < 8 * length xs \<Longrightarrow> getbit xs k = getbit ys k"
  shows "xs = ys"
proof (rule nth_equalityI)
  show "length xs = length ys" by (rule len)
next
  fix i assume i: "i < length xs"
  show "xs ! i = ys ! i"
  proof (rule bit_word_eqI)
    fix j assume "j < LENGTH(8)"
    then have j: "j < 8" by simp
    define k where "k = 8 * i + (7 - j)"
    have "k < 8 * length xs" using i j by (simp add: k_def)
    moreover have "k div 8 = i" "7 - k mod 8 = j" using j by (simp_all add: k_def mod_Suc_eq_octet)
    ultimately show "bit (xs ! i) j = bit (ys ! i) j"
      using bits[of k] by (simp add: getbit_def)
  qed
qed

lemma bit_byte_power [byte_simps]:
  "bit ((2::byte) ^ j) n \<longleftrightarrow> n = j \<and> j < 8"
  by (auto simp: bit_exp_iff)

text \<open>Writing one bit of one octet changes that bit only.\<close>

lemma getbit_update_or:
  assumes "k < 8 * length xs" "length xs \<le> 16" "l < 8 * length xs"
  shows "getbit (xs[k div 8 := xs ! (k div 8) OR (v AND push_bit (7 - k mod 8) 1)]) l
         = (getbit xs l \<or> l = k \<and> bit v (7 - k mod 8))"
proof -
  have kd: "k div 8 < length xs" using assms by (simp add: div_less_iff_less_mult)
  show ?thesis
  proof (cases "l div 8 = k div 8")
    case True
    have "7 - l mod 8 = 7 - k mod 8 \<longleftrightarrow> l = k"
      using True bit_pos_eq_iff[of l k] by (simp add: bit_pos_def)
    then show ?thesis using True kd
      by (auto simp: getbit_def bit_or_iff bit_and_iff bit_byte_power push_bit_eq_mult)
  next
    case False
    then show ?thesis by (auto simp: getbit_def)
  qed
qed

lemma getbit_set:
  assumes "k < 8 * length xs" "length xs \<le> 16" "l < 8 * length xs"
  shows "getbit (xs[k div 8 := xs ! (k div 8) OR push_bit (7 - k mod 8) 1]) l
         = (getbit xs l \<or> l = k)"
proof -
  have "7 - k mod 8 < LENGTH(8)" by simp
  then have "bit (- 1 :: byte) (7 - k mod 8)" by simp
  then show ?thesis using getbit_update_or[OF assms, of "- 1"] by simp
qed

lemma getbit_clear:
  assumes "k < 8 * length xs" "l < 8 * length xs"
  shows "getbit (xs[k div 8 := xs ! (k div 8) AND NOT (push_bit (7 - k mod 8) 1)]) l
         = (getbit xs l \<and> l \<noteq> k)"
proof -
  have kd: "k div 8 < length xs" using assms by (simp add: div_less_iff_less_mult)
  show ?thesis
  proof (cases "l div 8 = k div 8")
    case True
    have "7 - l mod 8 = 7 - k mod 8 \<longleftrightarrow> l = k"
      using True bit_pos_eq_iff[of l k] by (simp add: bit_pos_def)
    then show ?thesis using True kd
      by (auto simp: getbit_def bit_and_iff bit_not_iff bit_byte_power push_bit_eq_mult
               dest: bit_imp_le_length)
  next
    case False
    then show ?thesis by (auto simp: getbit_def)
  qed
qed

lemma getbit_replicate_zero [byte_simps]:
  "k < 8 * n \<Longrightarrow> \<not> getbit (replicate n 0) k"
  by (simp add: getbit_def div_less_iff_less_mult)

subsection \<open>Four octets of a 32 bit word\<close>

definition join4 :: "byte \<Rightarrow> byte \<Rightarrow> byte \<Rightarrow> byte \<Rightarrow> 32 word" where
  "join4 a b c d = push_bit 24 (ucast a) OR push_bit 16 (ucast b) OR push_bit 8 (ucast c) OR ucast d"

definition octet :: "nat \<Rightarrow> 32 word \<Rightarrow> byte" where
  "octet k w = ucast (drop_bit (8 * k) w)"

lemma octet_join4 [simp]:
  "octet 3 (join4 a b c d) = a" "octet 2 (join4 a b c d) = b"
  "octet 1 (join4 a b c d) = c" "octet 0 (join4 a b c d) = d"
  unfolding join4_def octet_def
  by (rule bit_word_eqI; auto simp: bit_simps dest: bit_imp_le_length)+

lemmas octet_join4_Suc [simp] = octet_join4(3)[unfolded One_nat_def]

lemma join4_octet [simp]: "join4 (octet 3 t) (octet 2 t) (octet 1 t) (octet 0 t) = t"
proof (rule bit_word_eqI)
  fix n assume "n < LENGTH(32)"
  then consider "n < 8" | "8 \<le> n" "n < 16" | "16 \<le> n" "n < 24" | "24 \<le> n" "n < 32"
    by fastforce
  then show "bit (join4 (octet 3 t) (octet 2 t) (octet 1 t) (octet 0 t)) n = bit t n"
    by cases (simp_all add: join4_def octet_def bit_simps, auto)
qed

lemmas join4_octet_Suc [simp] = join4_octet[unfolded One_nat_def]

lemma join4_sum: "push_bit 24 (ucast (a::byte)) + push_bit 16 (ucast (b::byte)) + push_bit 8 (ucast (c::byte)) + ucast (d::byte)
  = join4 a b c d"
proof -
  have b: "bit (ucast (a::byte) :: 32 word) n \<longleftrightarrow> n < 8 \<and> bit a n" for a n
    by (auto simp: bit_simps dest: bit_imp_le_length)
  have 1: "push_bit 24 (ucast a) + push_bit 16 (ucast b :: 32 word) = push_bit 24 (ucast a) OR push_bit 16 (ucast b)"
    by (rule disjunctive_add) (auto simp: bit_push_bit_iff b)
  have 2: "(push_bit 24 (ucast a) OR push_bit 16 (ucast b)) + push_bit 8 (ucast c :: 32 word) = (push_bit 24 (ucast a) OR push_bit 16 (ucast b)) OR push_bit 8 (ucast c)"
    by (rule disjunctive_add) (auto simp: bit_push_bit_iff bit_or_iff b)
  have 3: "(push_bit 24 (ucast a) OR push_bit 16 (ucast b) OR push_bit 8 (ucast c)) + (ucast d :: 32 word) = (push_bit 24 (ucast a) OR push_bit 16 (ucast b) OR push_bit 8 (ucast c)) OR ucast d"
    by (rule disjunctive_add) (auto simp: bit_push_bit_iff bit_or_iff b)
  show ?thesis by (simp add: 1 2 3 or.assoc join4_def)
qed

lemma ucast_and_ff: "(ucast ((x :: 32 word) AND 0xff) :: byte) = ucast x"
proof -
  have e: "(0xff :: 32 word) = Bit_Operations.mask 8" by (simp add: mask_eq_exp_minus_1)
  show ?thesis unfolding e by (rule bit_word_eqI) (auto simp: bit_simps)
qed

end
