(* ===== verification/SocleBuffer.thy ===== *)
theory SocleBuffer
  imports Prelude "HOL-Library.Monad_Syntax"
begin

text \<open>
  The byte buffer of the socle library, which is not part of the repository:
  the operations the sources call are the fields of a record, a parameter of
  every definition that reads a packet.  \<open>buffer_ok\<close> states what its
  documentation promises: the typed reads give the octets in host (little
  endian) order and raise out_of_range (\<^term>\<open>None\<close>) when they would leave the
  buffer.  \<open>sb_mem\<close> is the memory behind \<open>data()\<close>, which a raw pointer may read
  past the end of the buffer.
\<close>

subsection \<open>Network and host byte order\<close>

definition be16 :: "byte \<Rightarrow> byte \<Rightarrow> 16 word" where
  "be16 a b = push_bit 8 (ucast a) OR ucast b"

definition ntohs :: "16 word \<Rightarrow> 16 word" where
  "ntohs w = be16 (ucast w) (ucast (drop_bit 8 w))"

definition htons :: "16 word \<Rightarrow> 16 word" where
  "htons w = ntohs w"

definition ntohl :: "32 word \<Rightarrow> 32 word" where
  "ntohl w = join4 (octet 0 w) (octet 1 w) (octet 2 w) (octet 3 w)"

definition hi8 :: "16 word \<Rightarrow> byte" where "hi8 w = ucast (drop_bit 8 w)"
definition lo8 :: "16 word \<Rightarrow> byte" where "lo8 w = ucast w"

lemma hi8_be16 [simp]: "hi8 (be16 a b) = a"
  unfolding hi8_def be16_def
  by (rule bit_word_eqI) (auto simp: bit_simps dest: bit_imp_le_length)

lemma lo8_be16 [simp]: "lo8 (be16 a b) = b"
  unfolding lo8_def be16_def
  by (rule bit_word_eqI) (auto simp: bit_simps dest: bit_imp_le_length)

lemma be16_hi8_lo8 [simp]: "be16 (hi8 w) (lo8 w) = w"
proof (rule bit_word_eqI)
  fix n assume "n < LENGTH(16)"
  then consider "n < 8" | "8 \<le> n" "n < 16" by fastforce
  then show "bit (be16 (hi8 w) (lo8 w)) n = bit w n"
    by cases (simp_all add: be16_def hi8_def lo8_def bit_simps, auto)
qed

lemma ntohs_eq: "ntohs w = be16 (lo8 w) (hi8 w)"
  by (simp add: ntohs_def lo8_def hi8_def)

lemma ntohs_be16 [simp]: "ntohs (be16 a b) = be16 b a"
  by (simp add: ntohs_eq)

lemma ntohs_ntohs [simp]: "ntohs (ntohs w) = w"
  by (simp add: ntohs_eq)

lemma ntohl_join4 [simp]: "ntohl (join4 a b c d) = join4 d c b a"
  by (simp add: ntohl_def)

subsection \<open>The interface\<close>

record sbuf =
  sb_size :: nat
  sb_mem :: "nat \<Rightarrow> byte"
  sb_get8 :: "nat \<Rightarrow> byte option"
  sb_get16 :: "nat \<Rightarrow> 16 word option"
  sb_get32 :: "nat \<Rightarrow> 32 word option"
  sb_view :: "nat \<Rightarrow> nat \<Rightarrow> bytes option"

definition mem_range :: "(nat \<Rightarrow> byte) \<Rightarrow> nat \<Rightarrow> nat \<Rightarrow> bytes" where
  "mem_range m off len = map m [off..<off + len]"

definition buffer_ok :: "sbuf \<Rightarrow> bool" where
  "buffer_ok b \<longleftrightarrow>
     (\<forall>i. sb_get8 b i = (if i < sb_size b then Some (sb_mem b i) else None))
   \<and> (\<forall>i. sb_get16 b i = (if i + 2 \<le> sb_size b then Some (be16 (sb_mem b (i + 1)) (sb_mem b i)) else None))
   \<and> (\<forall>i. sb_get32 b i = (if i + 4 \<le> sb_size b
             then Some (join4 (sb_mem b (i + 3)) (sb_mem b (i + 2)) (sb_mem b (i + 1)) (sb_mem b i)) else None))
   \<and> (\<forall>i n. sb_view b i n = (if i + n \<le> sb_size b then Some (mem_range (sb_mem b) i n) else None))"

lemma buffer_ok_get:
  assumes "buffer_ok b"
  shows "sb_get8 b i = (if i < sb_size b then Some (sb_mem b i) else None)"
    and "sb_get16 b i = (if i + 2 \<le> sb_size b then Some (be16 (sb_mem b (i + 1)) (sb_mem b i)) else None)"
    and "sb_get32 b i = (if i + 4 \<le> sb_size b
             then Some (join4 (sb_mem b (i + 3)) (sb_mem b (i + 2)) (sb_mem b (i + 1)) (sb_mem b i)) else None)"
    and "sb_view b i n = (if i + n \<le> sb_size b then Some (mem_range (sb_mem b) i n) else None)"
  using assms by (simp_all only: buffer_ok_def)

text \<open>A buffer over a list of octets, followed by zero octets in memory.\<close>

definition list_mem :: "bytes \<Rightarrow> nat \<Rightarrow> byte" where
  "list_mem bs i = (if i < length bs then bs ! i else 0)"

definition buffer_of :: "bytes \<Rightarrow> sbuf" where
  "buffer_of bs = \<lparr>sb_size = length bs, sb_mem = list_mem bs,
     sb_get8 = (\<lambda>i. if i < length bs then Some (list_mem bs i) else None),
     sb_get16 = (\<lambda>i. if i + 2 \<le> length bs then Some (be16 (list_mem bs (i + 1)) (list_mem bs i)) else None),
     sb_get32 = (\<lambda>i. if i + 4 \<le> length bs
        then Some (join4 (list_mem bs (i + 3)) (list_mem bs (i + 2)) (list_mem bs (i + 1)) (list_mem bs i)) else None),
     sb_view = (\<lambda>i n. if i + n \<le> length bs then Some (mem_range (list_mem bs) i n) else None)\<rparr>"

lemma buffer_of_ok [simp]: "buffer_ok (buffer_of bs)"
  by (simp add: buffer_ok_def buffer_of_def)

lemma buffer_of_sel [simp]:
  "sb_size (buffer_of bs) = length bs" "sb_mem (buffer_of bs) = list_mem bs"
  by (simp_all add: buffer_of_def)

lemma mem_range_nth: "i < n \<Longrightarrow> mem_range m off n ! i = m (off + i)"
  by (simp add: mem_range_def)

lemma length_mem_range [simp]: "length (mem_range m off n) = n"
  by (simp add: mem_range_def)

lemma mem_range_cong:
  "(\<And>i. off \<le> i \<Longrightarrow> i < off + n \<Longrightarrow> m i = m' i) \<Longrightarrow> mem_range m off n = mem_range m' off n"
  by (auto simp: mem_range_def)

lemma mem_range_list:
  "off + n \<le> length bs \<Longrightarrow> mem_range (list_mem bs) off n = take n (drop off bs)"
  by (rule nth_equalityI) (simp_all add: mem_range_nth list_mem_def)

subsection \<open>Octets as characters\<close>

definition chr :: "byte \<Rightarrow> char" where "chr b = char_of (unat b)"
definition ord :: "char \<Rightarrow> byte" where "ord c = of_nat (of_char c)"

definition chars :: "bytes \<Rightarrow> string" where "chars bs = map chr bs"

lemma chr_ord [simp]: "chr (ord c) = c"
proof -
  have "of_char c < (256 :: nat)" by simp
  then have "take_bit 8 (of_char c :: nat) = of_char c" by (simp add: take_bit_nat_eq_self)
  then have "unat (of_nat (of_char c) :: byte) = of_char c" by (simp add: unsigned_of_nat del: of_nat_of_char)
  then show ?thesis by (simp add: chr_def ord_def)
qed

lemma chars_map_ord [simp]: "chars (map ord s) = s"
  by (simp add: chars_def comp_def)

end
