(* ===== verification/CText.thy ===== *)
theory CText
  imports Prelude
begin

text \<open>
  Characters, decimal and hexadecimal numbers of the C library as the sources use them:
  classification of characters, the conversions \<open>strtoul\<close>, \<open>strtol\<close> and \<open>std::stoi\<close>, and the
  number formats of \<open>printf\<close>.
\<close>

text \<open>A string that is passed as a pointer to its characters ends at the first zero character.\<close>

definition c_str :: "string \<Rightarrow> string" where
  "c_str s = takeWhile (\<lambda>c. c \<noteq> CHR 0x00) s"

subsection \<open>Characters\<close>

definition isspace :: "char \<Rightarrow> bool" where
  "isspace c \<longleftrightarrow> c \<in> {CHR 0x20, CHR 0x09, CHR 0x0A, CHR 0x0B, CHR 0x0C, CHR 0x0D}"

definition isdigit :: "char \<Rightarrow> bool" where
  "isdigit c \<longleftrightarrow> of_char c \<ge> (48 :: int) \<and> of_char c \<le> (57 :: int)"

definition tolower :: "char \<Rightarrow> char" where
  "tolower c = (if of_char c \<ge> (65 :: nat) \<and> of_char c \<le> (90 :: nat) then char_of (of_char c + 32 :: nat) else c)"

text \<open>The value of a digit in bases up to 36; 99 for other characters.\<close>

definition digit_of :: "char \<Rightarrow> int" where
  "digit_of c =
     (let n = of_char c :: int in
      if 48 \<le> n \<and> n \<le> 57 then n - 48
      else if 97 \<le> n \<and> n \<le> 122 then n - 87
      else if 65 \<le> n \<and> n \<le> 90 then n - 55
      else 99)"

definition isxdigit :: "char \<Rightarrow> bool" where
  "isxdigit c \<longleftrightarrow> digit_of c < 16"

subsection \<open>Printing\<close>

definition digit_char :: "nat \<Rightarrow> char" where
  "digit_char d = char_of (48 + d)"

fun dec :: "nat \<Rightarrow> string" where
  "dec n = (if n < 10 then [digit_char n] else dec (n div 10) @ [digit_char (n mod 10)])"

declare dec.simps [simp del]

definition dec_int :: "int \<Rightarrow> string" where
  "dec_int i = (if i < 0 then CHR ''-'' # dec (nat (- i)) else dec (nat i))"

fun hex :: "nat \<Rightarrow> string" where
  "hex n = (if n < 16 then [if n < 10 then digit_char n else char_of (87 + n)]
            else hex (n div 16) @ (if n mod 16 < 10 then [digit_char (n mod 16)] else [char_of (87 + n mod 16)]))"

declare hex.simps [simp del]

text \<open>The format \<open>%.4x\<close>.\<close>

definition hex4 :: "nat \<Rightarrow> string" where
  "hex4 n = replicate (4 - length (hex n)) (CHR ''0'') @ hex n"

subsection \<open>Reading\<close>

fun digits_value :: "int \<Rightarrow> string \<Rightarrow> int" where
  "digits_value acc [] = acc"
| "digits_value acc (c # cs) = digits_value (10 * acc + (of_char c - 48)) cs"

text \<open>\<open>std::stoi\<close>: white space, an optional sign, digits; the rest is ignored. It throws when there
  is no digit and when the value does not fit an \<open>int\<close>.\<close>

datatype std_error = invalid_argument | out_of_range

definition stoi :: "string \<Rightarrow> std_error + int" where
  "stoi s =
     (let s = dropWhile isspace s;
          neg = (s \<noteq> [] \<and> hd s = CHR ''-'');
          s = (if s \<noteq> [] \<and> (hd s = CHR ''-'' \<or> hd s = CHR ''+'') then tl s else s);
          ds = takeWhile isdigit s
      in if ds = [] then Inl invalid_argument
         else let v = (if neg then - digits_value 0 ds else digits_value 0 ds)
              in if v < - (2 ^ 31) \<or> v > 2 ^ 31 - 1 then Inl out_of_range else Inr v)"

fun number_of :: "int \<Rightarrow> int \<Rightarrow> string \<Rightarrow> int" where
  "number_of base acc [] = acc"
| "number_of base acc (c # cs) = number_of base (base * acc + digit_of c) cs"

text \<open>Sign, prefix and digits of a number: sign, value, rest; \<^term>\<open>None\<close> when there is no digit.\<close>

definition scan_number :: "int \<Rightarrow> string \<Rightarrow> (bool \<times> int \<times> string) option" where
  "scan_number base str =
     (let s = dropWhile isspace str;
          neg = (s \<noteq> [] \<and> hd s = CHR ''-'');
          s = (if s \<noteq> [] \<and> (hd s = CHR ''-'' \<or> hd s = CHR ''+'') then tl s else s);
          s = (if base = 16 \<and> length s > 2 \<and> s ! 0 = CHR ''0'' \<and> tolower (s ! 1) = CHR ''x'' \<and> isxdigit (s ! 2)
               then drop 2 s else s);
          ds = takeWhile (\<lambda>c. digit_of c < base) s
      in if ds = [] then None else Some (neg, number_of base 0 ds, drop (length ds) s))"

text \<open>\<open>strtoul\<close> on 64 bit: the value and the rest of the string. A minus sign negates modulo
  $2^{64}$; a number that is too large gives the largest value.\<close>

definition strtoul :: "int \<Rightarrow> string \<Rightarrow> int \<times> string" where
  "strtoul base str = (case scan_number base str of
     None \<Rightarrow> (0, str)
   | Some (neg, v, rest) \<Rightarrow>
       (if v > 2 ^ 64 - 1 then 2 ^ 64 - 1 else if neg then (- v) mod 2 ^ 64 else v, rest))"

definition strtol :: "int \<Rightarrow> string \<Rightarrow> int" where
  "strtol base str = (case scan_number base str of
     None \<Rightarrow> 0
   | Some (neg, v, rest) \<Rightarrow> max (- (2 ^ 63)) (min (2 ^ 63 - 1) (if neg then - v else v)))"

text \<open>Conversion of a \<open>long\<close> to \<open>int\<close>.\<close>

definition to_int32 :: "int \<Rightarrow> int" where
  "to_int32 v = (v + 2 ^ 31) mod 2 ^ 32 - 2 ^ 31"

section \<open>Facts\<close>

lemma digit_char_table:
  "list_all (\<lambda>d. let c = digit_char d in digit_of c = int d \<and> \<not> isspace c \<and> isdigit c \<and> isxdigit c
     \<and> c \<notin> set ''-+.:/xXat'' \<and> tolower c = c) [0..<10]"
  by code_simp

lemma digit_char_facts:
  assumes "d < 10"
  shows "digit_of (digit_char d) = int d" "\<not> isspace (digit_char d)" "isdigit (digit_char d)" "isxdigit (digit_char d)"
    "digit_char d \<notin> set ''-+.:/xXat''" "tolower (digit_char d) = digit_char d"
  using digit_char_table assms by (simp_all add: list_all_iff Let_def)

lemmas digit_of_digit_char = digit_char_facts(1)

lemma number_of_append: "number_of b acc (xs @ ys) = number_of b (number_of b acc xs) ys"
  by (induction xs arbitrary: acc) simp_all

lemma dec_digits: "c \<in> set (dec n) \<Longrightarrow> \<exists>d<10. c = digit_char d"
proof (induction n rule: dec.induct)
  case (1 n)
  then show ?case by (subst (asm) dec.simps) (auto split: if_splits intro: exI[of _ "n mod 10"])
qed

lemma dec_not_Nil [simp]: "dec n \<noteq> []"
  by (subst dec.simps) simp

lemma number_of_dec: "number_of 10 0 (dec n) = int n"
proof (induction n rule: dec.induct)
  case (1 n)
  then show ?case
    by (subst dec.simps) (auto simp: number_of_append digit_of_digit_char zmod_int zdiv_int)
qed

text \<open>A run of digits: what printing a number produces.\<close>

definition digits :: "string \<Rightarrow> bool" where
  "digits ds \<longleftrightarrow> ds \<noteq> [] \<and> (\<forall>c\<in>set ds. \<exists>d<10. c = digit_char d)"

lemma digits_dec [simp]: "digits (dec n)"
  using dec_digits by (auto simp: digits_def)

lemma digitsD:
  assumes "digits ds" "c \<in> set ds"
  shows "0 \<le> digit_of c" "digit_of c < 10" "\<not> isspace c" "isdigit c" "isxdigit c" "c \<notin> set ''-+.:/xXat''" "tolower c = c"
  using assms digit_char_facts unfolding digits_def by fastforce+

lemma takeWhile_digits:
  assumes "\<forall>c\<in>set ds. P c" "rest = [] \<or> \<not> P (hd rest)"
  shows "takeWhile P (ds @ rest) = ds"
  using assms by (cases rest) (simp_all add: takeWhile_tail)

lemma scan_number_digits:
  assumes "digits ds" "rest = [] \<or> 10 \<le> digit_of (hd rest)"
  shows "scan_number 10 (ds @ rest) = Some (False, number_of 10 0 ds, rest)"
proof -
  obtain c cs where ds: "ds = c # cs" using assms(1) by (cases ds) (auto simp: digits_def)
  have c: "\<not> isspace c" "c \<noteq> CHR ''-''" "c \<noteq> CHR ''+''" using digitsD[OF assms(1), of c] ds by auto
  have t: "takeWhile (\<lambda>c. digit_of c < 10) (ds @ rest) = ds"
    by (rule takeWhile_digits) (use digitsD[OF assms(1)] assms(2) in auto)
  have "dropWhile isspace (ds @ rest) = ds @ rest" using c ds by simp
  then show ?thesis using t c ds by (simp add: scan_number_def Let_def)
qed

lemma strtoul_dec:
  assumes "int n < 2 ^ 64" "rest = [] \<or> 10 \<le> digit_of (hd rest)"
  shows "strtoul 10 (dec n @ rest) = (int n, rest)"
  using scan_number_digits[OF digits_dec assms(2), of n] assms(1) by (simp add: strtoul_def number_of_dec)

lemma strtol_dec:
  assumes "int n < 2 ^ 63" "rest = [] \<or> 10 \<le> digit_of (hd rest)"
  shows "strtol 10 (dec n @ rest) = int n"
  using scan_number_digits[OF digits_dec assms(2), of n] assms(1) by (simp add: strtol_def number_of_dec)

lemma hd_dec: "hd (dec n) = CHR ''0'' \<longleftrightarrow> n = 0"
proof (induction n rule: dec.induct)
  case (1 n)
  have z: "d < 10 \<Longrightarrow> digit_char d = CHR ''0'' \<longleftrightarrow> d = 0" for d
  proof -
    assume "d < 10"
    then have "digit_of (digit_char d) = int d" by (rule digit_char_facts)
    moreover have "digit_of (CHR ''0'') = 0" "digit_char 0 = CHR ''0''" by code_simp+
    ultimately show ?thesis by auto
  qed
  show ?case
  proof (cases "n < 10")
    case True
    then show ?thesis using z by (subst dec.simps) simp
  next
    case False
    then show ?thesis using 1 by (subst dec.simps) (auto simp: div_eq_0_iff)
  qed
qed

lemma c_str_plain: "CHR 0x00 \<notin> set s \<Longrightarrow> c_str s = s"
  by (induction s) (auto simp: c_str_def)

lemma dec_zero: "dec 0 = ''0''"
  by code_simp

lemma length_dec_byte: "n < 256 \<Longrightarrow> length (dec n) \<le> 3"
  by (simp add: dec.simps)

end
