(* ===== verification/Cidr.thy ===== *)
theory Cidr
  imports Prelude
begin

text \<open>
  The CIDR block library (src/ext/libcidr/cidr.cpp): the block structure, the
  derived addresses (network, broadcast, first and last host), containment,
  equality, prefix length, super- and subnets and the conversions to and from
  socket addresses.  A null pointer is \<^term>\<open>None\<close>; a failure is the value of
  errno on the left of a sum.  The nested loops over octet \<open>i\<close> and bit
  \<open>j = 7 \<dots> 0\<close> run over the explicit list of the pairs they visit.
  Memory allocation always succeeds in the model.
\<close>

subsection \<open>Data\<close>

datatype errno = ERR_NONE | EFAULT | EPROTO | EINVAL | ENOENT | EPROTOTYPE

record cidr =
  c_version :: int
  c_addr :: bytes
  c_mask :: bytes
  c_proto :: int

definition CIDR_NOPROTO :: int where "CIDR_NOPROTO = 0"
definition CIDR_IPV4 :: int where "CIDR_IPV4 = 2"
definition CIDR_IPV6 :: int where "CIDR_IPV6 = 10"

lemmas cidr_proto_defs = CIDR_NOPROTO_def CIDR_IPV4_def CIDR_IPV6_def

definition cidr_alloc :: cidr where
  "cidr_alloc = \<lparr>c_version = 0, c_addr = replicate 16 0, c_mask = replicate 16 0, c_proto = 0\<rparr>"

text \<open>The pairs (octet, bit) a nested loop visits from octet \<open>i0\<close>, and from the
  bit \<open>j\<close> of octet \<open>i\<close> on.\<close>

definition octet_bits :: "nat \<Rightarrow> nat \<Rightarrow> (nat \<times> nat) list" where
  "octet_bits i j = map (\<lambda>b. (i, b)) (rev [0..<Suc j])"

definition bits_after :: "nat \<Rightarrow> (nat \<times> nat) list" where
  "bits_after i0 = concat (map (\<lambda>i. octet_bits i 7) [i0..<16])"

definition bits_from :: "nat \<Rightarrow> nat \<Rightarrow> (nat \<times> nat) list" where
  "bits_from i j = (if i < 16 then octet_bits i j @ bits_after (Suc i) else [])"

text \<open>Copy address bits into the result until the first host bit; the positions
  not visited are returned with the copied octets.\<close>

fun copy_net_bits :: "(nat \<times> nat) list \<Rightarrow> bytes \<Rightarrow> bytes \<Rightarrow> bytes \<Rightarrow> bytes \<times> (nat \<times> nat) list" where
  "copy_net_bits [] addr msk acc = (acc, [])"
| "copy_net_bits ((i, j) # ps) addr msk acc =
     (if (msk ! i) AND push_bit j 1 = 0 then (acc, (i, j) # ps)
      else copy_net_bits ps addr msk (acc[i := acc ! i OR ((addr ! i) AND push_bit j 1)]))"

fun set_bits :: "(nat \<times> nat) list \<Rightarrow> bytes \<Rightarrow> bytes" where
  "set_bits [] acc = acc"
| "set_bits ((i, j) # ps) acc = set_bits ps (acc[i := acc ! i OR push_bit j 1])"

fun clear_bits :: "(nat \<times> nat) list \<Rightarrow> bytes \<Rightarrow> bytes" where
  "clear_bits [] acc = acc"
| "clear_bits ((i, j) # ps) acc = clear_bits ps (acc[i := acc ! i AND NOT (push_bit j 1)])"

subsection \<open>Derived addresses\<close>

definition cidr_addr_network :: "cidr option \<Rightarrow> errno + cidr" where
  "cidr_addr_network a = (case a of None \<Rightarrow> Inl EFAULT
     | Some addr \<Rightarrow>
        let toret = cidr_alloc\<lparr>c_proto := c_proto addr, c_mask := c_mask addr\<rparr>;
            (acc, _) = copy_net_bits (bits_after 0) (c_addr addr) (c_mask addr) (c_addr toret)
        in Inr (toret\<lparr>c_addr := acc\<rparr>))"

definition cidr_addr_broadcast :: "cidr option \<Rightarrow> errno + cidr" where
  "cidr_addr_broadcast a = (case a of None \<Rightarrow> Inl EFAULT
     | Some addr \<Rightarrow>
        let toret = cidr_alloc\<lparr>c_proto := c_proto addr, c_mask := c_mask addr\<rparr>;
            (acc, rest) = copy_net_bits (bits_after 0) (c_addr addr) (c_mask addr) (c_addr toret)
        in Inr (toret\<lparr>c_addr := set_bits rest acc\<rparr>))"

definition cidr_addr_hostmin :: "cidr option \<Rightarrow> errno + cidr" where
  "cidr_addr_hostmin a = (case cidr_addr_network a of Inl e \<Rightarrow> Inl e
     | Inr toret \<Rightarrow>
        if c_mask toret ! 15 = 0xff then Inr toret
        else if c_mask toret ! 15 = 0xfe then Inr toret
        else Inr (toret\<lparr>c_addr := (c_addr toret)[15 := c_addr toret ! 15 OR 1]\<rparr>))"

definition cidr_addr_hostmax :: "cidr option \<Rightarrow> errno + cidr" where
  "cidr_addr_hostmax a = (case cidr_addr_broadcast a of Inl e \<Rightarrow> Inl e
     | Inr toret \<Rightarrow>
        if c_mask toret ! 15 = 0xff then Inr toret
        else if c_mask toret ! 15 = 0xfe then Inr toret
        else Inr (toret\<lparr>c_addr := (c_addr toret)[15 := c_addr toret ! 15 AND 0xfe]\<rparr>))"

subsection \<open>Prefix length\<close>

fun pflen_loop :: "(nat \<times> nat) list \<Rightarrow> bytes \<Rightarrow> bool \<Rightarrow> int \<Rightarrow> errno + int" where
  "pflen_loop [] msk foundnmh pflen = Inr pflen"
| "pflen_loop ((i, j) # ps) msk foundnmh pflen =
     (if (msk ! i) AND push_bit j 1 \<noteq> 0
      then (if foundnmh then Inl EINVAL else pflen_loop ps msk foundnmh (pflen + 1))
      else pflen_loop ps msk True pflen)"

definition cidr_get_pflen :: "cidr option \<Rightarrow> errno + int" where
  "cidr_get_pflen b = (case b of None \<Rightarrow> Inl EFAULT
     | Some block \<Rightarrow>
        if c_proto block = CIDR_IPV4 then pflen_loop (bits_after 12) (c_mask block) False 0
        else if c_proto block = CIDR_IPV6 then pflen_loop (bits_after 0) (c_mask block) False 0
        else Inl ENOENT)"

text \<open>The C return value: -1 on any error.\<close>

definition ret_int :: "errno + int \<Rightarrow> int" where
  "ret_int r = (case r of Inl _ \<Rightarrow> - 1 | Inr n \<Rightarrow> n)"

definition cidr_get_addr :: "cidr option \<Rightarrow> errno + bytes" where
  "cidr_get_addr a = (case a of None \<Rightarrow> Inl EFAULT | Some addr \<Rightarrow> Inr (c_addr addr))"

definition cidr_get_mask :: "cidr option \<Rightarrow> errno + bytes" where
  "cidr_get_mask a = (case a of None \<Rightarrow> Inl EFAULT | Some addr \<Rightarrow> Inr (c_mask addr))"

definition cidr_get_proto :: "cidr option \<Rightarrow> errno + int" where
  "cidr_get_proto a = (case a of None \<Rightarrow> Inl EFAULT | Some addr \<Rightarrow> Inr (c_proto addr))"

subsection \<open>Comparison\<close>

fun same_bits :: "nat list \<Rightarrow> bytes \<Rightarrow> bytes \<Rightarrow> bool" where
  "same_bits [] big little = True"
| "same_bits (i # is) big little =
     (let oct = i div 8; b = 7 - i mod 8 in
      if (big ! oct) AND push_bit b 1 \<noteq> (little ! oct) AND push_bit b 1 then False
      else same_bits is big little)"

definition cidr_contains :: "cidr option \<Rightarrow> cidr option \<Rightarrow> errno + int" where
  "cidr_contains b l = (case (b, l) of
     (Some big, Some little) \<Rightarrow>
        if c_proto big \<noteq> c_proto little then Inl EPROTO
        else if c_proto big \<noteq> CIDR_IPV4 \<and> c_proto big \<noteq> CIDR_IPV6 then Inl EINVAL
        else
          let pflen = ret_int (cidr_get_pflen (Some big)) in
          if ret_int (cidr_get_pflen (Some little)) < pflen then Inl ERR_NONE
          else
            let (i, pflen) = (if c_proto big = CIDR_IPV4 then (96, pflen + 96) else (0, pflen)) in
            if same_bits [i..<nat pflen] (c_addr big) (c_addr little) then Inr 0 else Inl ERR_NONE
   | _ \<Rightarrow> Inl EFAULT)"

fun cidr_equals_loop :: "nat list \<Rightarrow> cidr \<Rightarrow> cidr \<Rightarrow> int" where
  "cidr_equals_loop [] one two = 0"
| "cidr_equals_loop (i # is) one two =
     (if c_addr one ! i \<noteq> c_addr two ! i then - 1
      else if c_mask one ! i \<noteq> c_mask two ! i then - 1
      else cidr_equals_loop is one two)"

definition cidr_equals :: "cidr \<Rightarrow> cidr \<Rightarrow> int" where
  "cidr_equals one two =
     (if c_proto one \<noteq> c_proto two then - 1
      else cidr_equals_loop [(if c_proto one = CIDR_IPV4 then 12 else 0)..<16] one two)"

subsection \<open>Socket addresses\<close>

text \<open>\<open>s_addr\<close> is given in network byte order; on the little endian hosts the
  program runs on, \<open>htonl\<close> and \<open>ntohl\<close> reverse the four octets.\<close>

definition htonl :: "32 word \<Rightarrow> 32 word" where
  "htonl w = join4 (octet 0 w) (octet 1 w) (octet 2 w) (octet 3 w)"

definition cidr_to_inaddr :: "cidr option \<Rightarrow> errno + 32 word" where
  "cidr_to_inaddr a = (case a of None \<Rightarrow> Inl EFAULT
     | Some addr \<Rightarrow>
        if c_proto addr \<noteq> CIDR_IPV4 then Inl EPROTOTYPE
        else Inr (htonl (push_bit 24 (ucast (c_addr addr ! 12)) + push_bit 16 (ucast (c_addr addr ! 13))
                         + push_bit 8 (ucast (c_addr addr ! 14)) + ucast (c_addr addr ! 15))))"

definition cidr_from_inaddr :: "32 word option \<Rightarrow> errno + cidr" where
  "cidr_from_inaddr u = (case u of None \<Rightarrow> Inl EFAULT
     | Some s_addr \<Rightarrow>
        let taddr = htonl s_addr in
        Inr (cidr_alloc\<lparr>c_proto := CIDR_IPV4,
               c_addr := replicate 10 0 @ replicate 2 0xff @
                 [ucast (drop_bit 24 taddr AND 0xff), ucast (drop_bit 16 taddr AND 0xff),
                  ucast (drop_bit 8 taddr AND 0xff), ucast (taddr AND 0xff)],
               c_mask := replicate 12 0xff @ replicate 4 0xff\<rparr>))"

definition cidr_to_in6addr :: "cidr option \<Rightarrow> errno + bytes" where
  "cidr_to_in6addr a = (case a of None \<Rightarrow> Inl EFAULT
     | Some addr \<Rightarrow>
        if c_proto addr \<noteq> CIDR_IPV6 \<and> c_proto addr \<noteq> CIDR_IPV4 then Inl EPROTOTYPE
        else Inr (map (\<lambda>i. c_addr addr ! i) [0..<16]))"

definition cidr_from_in6addr :: "bytes option \<Rightarrow> errno + cidr" where
  "cidr_from_in6addr u = (case u of None \<Rightarrow> Inl EFAULT
     | Some s6 \<Rightarrow>
        Inr (cidr_alloc\<lparr>c_proto := CIDR_IPV6, c_addr := map (\<lambda>i. s6 ! i) [0..<16],
                        c_mask := replicate 16 0xff\<rparr>))"

definition cidr_dup :: "cidr \<Rightarrow> cidr" where
  "cidr_dup src = src"

definition cidr_is_v4mapped :: "cidr \<Rightarrow> int" where
  "cidr_is_v4mapped addr =
     (if c_proto addr \<noteq> CIDR_IPV6 then - 1
      else if \<not> list_all (\<lambda>i. c_addr addr ! i = 0) [0..<10] then - 1
      else if \<not> list_all (\<lambda>i. c_addr addr ! i = 0xff) [10..<12] then - 1
      else 0)"

subsection \<open>Supernets and subnets\<close>

definition cidr_net_supernet :: "cidr option \<Rightarrow> errno + cidr" where
  "cidr_net_supernet a = (case a of None \<Rightarrow> Inl EFAULT
     | Some addr \<Rightarrow>
        let pflen = ret_int (cidr_get_pflen (Some addr)) in
        if pflen = 0 then Inl ERR_NONE
        else
          let toret = cidr_dup addr;
              pflen = (if c_proto toret = CIDR_IPV4 then pflen + 96 else pflen) - 1;
              i = nat (pflen sdiv 8);
              j = nat (7 - pflen smod 8)
          in Inr (toret\<lparr>c_mask := (c_mask toret)[i := c_mask toret ! i AND NOT (push_bit j 1)],
                        c_addr := clear_bits (bits_from i j) (c_addr toret)\<rparr>))"

definition cidr_net_subnets :: "cidr option \<Rightarrow> errno + (cidr \<times> cidr)" where
  "cidr_net_subnets a = (case a of None \<Rightarrow> Inl EFAULT
     | Some addr \<Rightarrow>
        let pflen = ret_int (cidr_get_pflen (Some addr)) in
        if (c_proto addr = CIDR_IPV4 \<and> pflen = 32) \<or> (c_proto addr = CIDR_IPV6 \<and> pflen = 128)
        then Inl ERR_NONE
        else (case cidr_addr_network (Some addr) of Inl e \<Rightarrow> Inl e
          | Inr net \<Rightarrow>
             let pflen = (if c_proto net = CIDR_IPV4 then pflen + 96 else pflen);
                 i = nat (pflen sdiv 8);
                 j = nat (7 - pflen smod 8);
                 kid0 = net\<lparr>c_mask := (c_mask net)[i := c_mask net ! i OR push_bit j 1]\<rparr>;
                 kid1 = (cidr_dup kid0)\<lparr>c_addr := (c_addr kid0)[i := c_addr kid0 ! i OR push_bit j 1]\<rparr>
             in Inr (kid0, kid1)))"


subsection \<open>Block sizes\<close>

text \<open>The tables of decimal strings of the powers of two, and of the powers of
  two minus two with the host counts of /32 and /31 blocks special-cased.\<close>

definition cidr_pow2 :: "string list" where
  "cidr_pow2 = [
    ''1'', ''2'', ''4'', ''8'', ''16'', ''32'', ''64'', ''128'', ''256'', ''512'', ''1,024'', ''2,048'', 
    ''4,096'', ''8,192'', ''16,384'', ''32,768'', ''65,536'', ''131,072'', ''262,144'', ''524,288'', 
    ''1,048,576'', ''2,097,152'', ''4,194,304'', ''8,388,608'', ''16,777,216'', ''33,554,432'', 
    ''67,108,864'', ''134,217,728'', ''268,435,456'', ''536,870,912'', ''1,073,741,824'', ''2,147,483,648'', 
    ''4,294,967,296'', ''8,589,934,592'', ''17,179,869,184'', ''34,359,738,368'', ''68,719,476,736'', 
    ''137,438,953,472'', ''274,877,906,944'', ''549,755,813,888'', ''1,099,511,627,776'', 
    ''2,199,023,255,552'', ''4,398,046,511,104'', ''8,796,093,022,208'', ''17,592,186,044,416'', 
    ''35,184,372,088,832'', ''70,368,744,177,664'', ''140,737,488,355,328'', ''281,474,976,710,656'', 
    ''562,949,953,421,312'', ''1,125,899,906,842,624'', ''2,251,799,813,685,248'', ''4,503,599,627,370,496'', 
    ''9,007,199,254,740,992'', ''18,014,398,509,481,984'', ''36,028,797,018,963,968'', 
    ''72,057,594,037,927,936'', ''144,115,188,075,855,872'', ''288,230,376,151,711,744'', 
    ''576,460,752,303,423,488'', ''1,152,921,504,606,846,976'', ''2,305,843,009,213,693,952'', 
    ''4,611,686,018,427,387,904'', ''9,223,372,036,854,775,808'', ''18,446,744,073,709,551,616'', 
    ''36,893,488,147,419,103,232'', ''73,786,976,294,838,206,464'', ''147,573,952,589,676,412,928'', 
    ''295,147,905,179,352,825,856'', ''590,295,810,358,705,651,712'', ''1,180,591,620,717,411,303,424'', 
    ''2,361,183,241,434,822,606,848'', ''4,722,366,482,869,645,213,696'', ''9,444,732,965,739,290,427,392'', 
    ''18,889,465,931,478,580,854,784'', ''37,778,931,862,957,161,709,568'', 
    ''75,557,863,725,914,323,419,136'', ''151,115,727,451,828,646,838,272'', 
    ''302,231,454,903,657,293,676,544'', ''604,462,909,807,314,587,353,088'', 
    ''1,208,925,819,614,629,174,706,176'', ''2,417,851,639,229,258,349,412,352'', 
    ''4,835,703,278,458,516,698,824,704'', ''9,671,406,556,917,033,397,649,408'', 
    ''19,342,813,113,834,066,795,298,816'', ''38,685,626,227,668,133,590,597,632'', 
    ''77,371,252,455,336,267,181,195,264'', ''154,742,504,910,672,534,362,390,528'', 
    ''309,485,009,821,345,068,724,781,056'', ''618,970,019,642,690,137,449,562,112'', 
    ''1,237,940,039,285,380,274,899,124,224'', ''2,475,880,078,570,760,549,798,248,448'', 
    ''4,951,760,157,141,521,099,596,496,896'', ''9,903,520,314,283,042,199,192,993,792'', 
    ''19,807,040,628,566,084,398,385,987,584'', ''39,614,081,257,132,168,796,771,975,168'', 
    ''79,228,162,514,264,337,593,543,950,336'', ''158,456,325,028,528,675,187,087,900,672'', 
    ''316,912,650,057,057,350,374,175,801,344'', ''633,825,300,114,114,700,748,351,602,688'', 
    ''1,267,650,600,228,229,401,496,703,205,376'', ''2,535,301,200,456,458,802,993,406,410,752'', 
    ''5,070,602,400,912,917,605,986,812,821,504'', ''10,141,204,801,825,835,211,973,625,643,008'', 
    ''20,282,409,603,651,670,423,947,251,286,016'', ''40,564,819,207,303,340,847,894,502,572,032'', 
    ''81,129,638,414,606,681,695,789,005,144,064'', ''162,259,276,829,213,363,391,578,010,288,128'', 
    ''324,518,553,658,426,726,783,156,020,576,256'', ''649,037,107,316,853,453,566,312,041,152,512'', 
    ''1,298,074,214,633,706,907,132,624,082,305,024'', ''2,596,148,429,267,413,814,265,248,164,610,048'', 
    ''5,192,296,858,534,827,628,530,496,329,220,096'', ''10,384,593,717,069,655,257,060,992,658,440,192'', 
    ''20,769,187,434,139,310,514,121,985,316,880,384'', ''41,538,374,868,278,621,028,243,970,633,760,768'', 
    ''83,076,749,736,557,242,056,487,941,267,521,536'', ''166,153,499,473,114,484,112,975,882,535,043,072'', 
    ''332,306,998,946,228,968,225,951,765,070,086,144'', ''664,613,997,892,457,936,451,903,530,140,172,288'', 
    ''1,329,227,995,784,915,872,903,807,060,280,344,576'', 
    ''2,658,455,991,569,831,745,807,614,120,560,689,152'', 
    ''5,316,911,983,139,663,491,615,228,241,121,378,304'', 
    ''10,633,823,966,279,326,983,230,456,482,242,756,608'', 
    ''21,267,647,932,558,653,966,460,912,964,485,513,216'', 
    ''42,535,295,865,117,307,932,921,825,928,971,026,432'', 
    ''85,070,591,730,234,615,865,843,651,857,942,052,864'', 
    ''170,141,183,460,469,231,731,687,303,715,884,105,728'', 
    ''340,282,366,920,938,463,463,374,607,431,768,211,456'']"

definition cidr_pow2m2 :: "string list" where
  "cidr_pow2m2 = [
    ''1'', ''2'', ''2'', ''6'', ''14'', ''30'', ''62'', ''126'', ''254'', ''510'', ''1,022'', ''2,046'', 
    ''4,094'', ''8,190'', ''16,382'', ''32,766'', ''65,534'', ''131,070'', ''262,142'', ''524,286'', 
    ''1,048,574'', ''2,097,150'', ''4,194,302'', ''8,388,606'', ''16,777,214'', ''33,554,430'', 
    ''67,108,862'', ''134,217,726'', ''268,435,454'', ''536,870,910'', ''1,073,741,822'', ''2,147,483,646'', 
    ''4,294,967,294'', ''8,589,934,590'', ''17,179,869,182'', ''34,359,738,366'', ''68,719,476,734'', 
    ''137,438,953,470'', ''274,877,906,942'', ''549,755,813,886'', ''1,099,511,627,774'', 
    ''2,199,023,255,550'', ''4,398,046,511,102'', ''8,796,093,022,206'', ''17,592,186,044,414'', 
    ''35,184,372,088,830'', ''70,368,744,177,662'', ''140,737,488,355,326'', ''281,474,976,710,654'', 
    ''562,949,953,421,310'', ''1,125,899,906,842,622'', ''2,251,799,813,685,246'', ''4,503,599,627,370,494'', 
    ''9,007,199,254,740,990'', ''18,014,398,509,481,982'', ''36,028,797,018,963,966'', 
    ''72,057,594,037,927,934'', ''144,115,188,075,855,870'', ''288,230,376,151,711,742'', 
    ''576,460,752,303,423,486'', ''1,152,921,504,606,846,974'', ''2,305,843,009,213,693,950'', 
    ''4,611,686,018,427,387,902'', ''9,223,372,036,854,775,806'', ''18,446,744,073,709,551,614'', 
    ''36,893,488,147,419,103,230'', ''73,786,976,294,838,206,462'', ''147,573,952,589,676,412,926'', 
    ''295,147,905,179,352,825,854'', ''590,295,810,358,705,651,710'', ''1,180,591,620,717,411,303,422'', 
    ''2,361,183,241,434,822,606,846'', ''4,722,366,482,869,645,213,694'', ''9,444,732,965,739,290,427,390'', 
    ''18,889,465,931,478,580,854,782'', ''37,778,931,862,957,161,709,566'', 
    ''75,557,863,725,914,323,419,134'', ''151,115,727,451,828,646,838,270'', 
    ''302,231,454,903,657,293,676,542'', ''604,462,909,807,314,587,353,086'', 
    ''1,208,925,819,614,629,174,706,174'', ''2,417,851,639,229,258,349,412,350'', 
    ''4,835,703,278,458,516,698,824,702'', ''9,671,406,556,917,033,397,649,406'', 
    ''19,342,813,113,834,066,795,298,814'', ''38,685,626,227,668,133,590,597,630'', 
    ''77,371,252,455,336,267,181,195,262'', ''154,742,504,910,672,534,362,390,526'', 
    ''309,485,009,821,345,068,724,781,054'', ''618,970,019,642,690,137,449,562,110'', 
    ''1,237,940,039,285,380,274,899,124,222'', ''2,475,880,078,570,760,549,798,248,446'', 
    ''4,951,760,157,141,521,099,596,496,894'', ''9,903,520,314,283,042,199,192,993,790'', 
    ''19,807,040,628,566,084,398,385,987,582'', ''39,614,081,257,132,168,796,771,975,166'', 
    ''79,228,162,514,264,337,593,543,950,334'', ''158,456,325,028,528,675,187,087,900,670'', 
    ''316,912,650,057,057,350,374,175,801,342'', ''633,825,300,114,114,700,748,351,602,686'', 
    ''1,267,650,600,228,229,401,496,703,205,374'', ''2,535,301,200,456,458,802,993,406,410,750'', 
    ''5,070,602,400,912,917,605,986,812,821,502'', ''10,141,204,801,825,835,211,973,625,643,006'', 
    ''20,282,409,603,651,670,423,947,251,286,014'', ''40,564,819,207,303,340,847,894,502,572,030'', 
    ''81,129,638,414,606,681,695,789,005,144,062'', ''162,259,276,829,213,363,391,578,010,288,126'', 
    ''324,518,553,658,426,726,783,156,020,576,254'', ''649,037,107,316,853,453,566,312,041,152,510'', 
    ''1,298,074,214,633,706,907,132,624,082,305,022'', ''2,596,148,429,267,413,814,265,248,164,610,046'', 
    ''5,192,296,858,534,827,628,530,496,329,220,094'', ''10,384,593,717,069,655,257,060,992,658,440,190'', 
    ''20,769,187,434,139,310,514,121,985,316,880,382'', ''41,538,374,868,278,621,028,243,970,633,760,766'', 
    ''83,076,749,736,557,242,056,487,941,267,521,534'', ''166,153,499,473,114,484,112,975,882,535,043,070'', 
    ''332,306,998,946,228,968,225,951,765,070,086,142'', ''664,613,997,892,457,936,451,903,530,140,172,286'', 
    ''1,329,227,995,784,915,872,903,807,060,280,344,574'', 
    ''2,658,455,991,569,831,745,807,614,120,560,689,150'', 
    ''5,316,911,983,139,663,491,615,228,241,121,378,302'', 
    ''10,633,823,966,279,326,983,230,456,482,242,756,606'', 
    ''21,267,647,932,558,653,966,460,912,964,485,513,214'', 
    ''42,535,295,865,117,307,932,921,825,928,971,026,430'', 
    ''85,070,591,730,234,615,865,843,651,857,942,052,862'', 
    ''170,141,183,460,469,231,731,687,303,715,884,105,726'', 
    ''340,282,366,920,938,463,463,374,607,431,768,211,454'']"

definition cidr_numaddr_pflen :: "int \<Rightarrow> errno + string" where
  "cidr_numaddr_pflen pflen =
     (if pflen < 0 \<or> pflen > 128 then Inl EINVAL else Inr (cidr_pow2 ! nat (128 - pflen)))"

definition cidr_numaddr :: "cidr option \<Rightarrow> errno + string" where
  "cidr_numaddr a = (case a of None \<Rightarrow> Inl EFAULT
     | Some addr \<Rightarrow>
        let pflen = ret_int (cidr_get_pflen (Some addr));
            pflen = (if c_proto addr = CIDR_IPV4 then pflen + 96 else pflen)
        in cidr_numaddr_pflen pflen)"

definition cidr_numhost_pflen :: "int \<Rightarrow> errno + string" where
  "cidr_numhost_pflen pflen =
     (if pflen < 0 \<or> pflen > 128 then Inl EINVAL else Inr (cidr_pow2m2 ! nat (128 - pflen)))"

definition cidr_numhost :: "cidr option \<Rightarrow> errno + string" where
  "cidr_numhost a = (case a of None \<Rightarrow> Inl EFAULT
     | Some addr \<Rightarrow>
        let pflen = ret_int (cidr_get_pflen (Some addr));
            pflen = (if c_proto addr = CIDR_IPV4 then pflen + 96 else pflen)
        in cidr_numhost_pflen pflen)"

section \<open>Loop facts\<close>

lemma octet_bits_tail:
  assumes r: "r < 8"
  shows "octet_bits i (7 - r) = map bit_pos [8 * i + r..<8 * i + 8]"
proof (rule nth_equalityI)
  show "length (octet_bits i (7 - r)) = length (map bit_pos [8 * i + r..<8 * i + 8])"
    using r by (simp add: octet_bits_def)
next
  fix k assume "k < length (octet_bits i (7 - r))"
  then have k: "k < 8 - r" using r by (simp add: octet_bits_def)
  have "octet_bits i (7 - r) ! k = (i, 7 - r - k)"
    using k r by (simp add: octet_bits_def rev_nth del: upt_Suc)
  moreover have "bit_pos (8 * i + (r + k)) = (i, 7 - r - k)"
    using k by (simp add: bit_pos_def del: add_Suc_right)
  ultimately show "octet_bits i (7 - r) ! k = map bit_pos [8 * i + r..<8 * i + 8] ! k"
    using k r by (simp add: add.assoc)
qed

lemma octet_bits_eq: "octet_bits i 7 = map bit_pos [8 * i..<8 * i + 8]"
  using octet_bits_tail[of 0 i] by simp

lemma bits_after_eq: "i0 \<le> 16 \<Longrightarrow> bits_after i0 = map bit_pos [8 * i0..<128]"
proof (induction "16 - i0" arbitrary: i0)
  case 0
  then show ?case by (simp add: bits_after_def)
next
  case (Suc n)
  then have lt: "i0 < 16" by simp
  have "bits_after i0 = octet_bits i0 7 @ bits_after (Suc i0)"
    using lt by (simp add: bits_after_def upt_conv_Cons)
  also have "\<dots> = map bit_pos ([8 * i0..<8 * i0 + 8] @ [8 * i0 + 8..<128])"
    using Suc by (simp add: octet_bits_eq add.commute)
  also have "[8 * i0..<8 * i0 + 8] @ [8 * i0 + 8..<128] = [8 * i0..<128]"
    using lt upt_add_eq_append[of "8 * i0" "8 * i0 + 8" "128 - (8 * i0 + 8)"] by simp
  finally show ?case .
qed

lemma bits_from_eq:
  assumes "k < 128"
  shows "bits_from (k div 8) (7 - k mod 8) = map bit_pos [k..<128]"
proof -
  define i where "i = k div 8"
  define r where "r = k mod 8"
  have k: "k = 8 * i + r" and r: "r < 8" and i: "i < 16"
    using assms by (simp_all add: i_def r_def div_less_iff_less_mult)
  have "bits_from i (7 - r) = map bit_pos ([8 * i + r..<8 * i + 8] @ [8 * i + 8..<128])"
    using i bits_after_eq[of "Suc i"] by (simp add: bits_from_def octet_bits_tail[OF r] add.commute)
  also have "[8 * i + r..<8 * i + 8] @ [8 * i + 8..<128] = [8 * i + r..<128]"
    using i r upt_add_eq_append[of "8 * i + r" "8 * i + 8" "128 - (8 * i + 8)"] by simp
  finally show ?thesis by (simp add: i_def r_def)
qed

lemma and_bit_eq_0_iff [net_simps]:
  "w AND 2 ^ j = 0 \<longleftrightarrow> \<not> bit w j" for w :: byte
  by (auto simp: bit_eq_iff[of "w AND 2 ^ j"] bit_and_iff bit_byte_power dest: bit_byte_lt)

lemma and_bit_eq_iff [net_simps]:
  "v AND 2 ^ j = w AND 2 ^ j \<longleftrightarrow> (bit v j \<longleftrightarrow> bit w j)" for v w :: byte
  by (auto simp: bit_eq_iff[of "v AND 2 ^ j"] bit_and_iff bit_byte_power dest: bit_byte_lt)

lemma copy_net_bits_spec:
  assumes "k0 \<le> 128" "length acc = 16"
  shows "\<exists>p acc'. copy_net_bits (map bit_pos [k0..<128]) addr msk acc = (acc', map bit_pos [p..<128])
     \<and> k0 \<le> p \<and> p \<le> 128 \<and> (\<forall>k. k0 \<le> k \<and> k < p \<longrightarrow> getbit msk k)
     \<and> (p < 128 \<longrightarrow> \<not> getbit msk p) \<and> length acc' = 16
     \<and> (\<forall>l<128. getbit acc' l = (getbit acc l \<or> k0 \<le> l \<and> l < p \<and> getbit addr l))"
  using assms
proof (induction "128 - k0" arbitrary: k0 acc)
  case 0
  then show ?case by (intro exI[of _ 128] exI[of _ acc]) auto
next
  case (Suc n)
  then have lt: "k0 < 128" by simp
  have ups: "[k0..<128] = k0 # [Suc k0..<128]" using lt by (simp add: upt_conv_Cons)
  show ?case
  proof (cases "getbit msk k0")
    case False
    then show ?thesis using lt Suc.prems
      by (intro exI[of _ k0] exI[of _ acc])
         (auto simp: ups bit_pos_def getbit_def net_simps)
  next
    case True
    define acc1 where
      "acc1 = acc[k0 div 8 := acc ! (k0 div 8) OR ((addr ! (k0 div 8)) AND push_bit (7 - k0 mod 8) 1)]"
    have len1: "length acc1 = 16" using Suc.prems by (simp add: acc1_def)
    have bits1: "getbit acc1 l = (getbit acc l \<or> l = k0 \<and> getbit addr k0)" if "l < 128" for l
      using getbit_update_or[of k0 acc l "addr ! (k0 div 8)"] that lt Suc.prems
      by (simp add: acc1_def getbit_def)
    obtain p acc' where IH:
      "copy_net_bits (map bit_pos [Suc k0..<128]) addr msk acc1 = (acc', map bit_pos [p..<128])"
      "Suc k0 \<le> p" "p \<le> 128" "\<forall>k. Suc k0 \<le> k \<and> k < p \<longrightarrow> getbit msk k"
      "p < 128 \<longrightarrow> \<not> getbit msk p" "length acc' = 16"
      "\<forall>l<128. getbit acc' l = (getbit acc1 l \<or> Suc k0 \<le> l \<and> l < p \<and> getbit addr l)"
    proof -
      have "n = 128 - Suc k0" "Suc k0 \<le> 128" using Suc.hyps(2) lt by simp_all
      from Suc.hyps(1)[OF this len1] that show ?thesis by blast
    qed
    have "copy_net_bits (map bit_pos [k0..<128]) addr msk acc = (acc', map bit_pos [p..<128])"
      using True IH(1) by (simp add: ups bit_pos_def[of k0] net_simps getbit_def acc1_def)
    moreover have "\<forall>k. k0 \<le> k \<and> k < p \<longrightarrow> getbit msk k"
      using IH(4) True by (metis Suc_leI le_neq_implies_less)
    moreover have "\<forall>l<128. getbit acc' l = (getbit acc l \<or> k0 \<le> l \<and> l < p \<and> getbit addr l)"
      using IH(2,7) bits1 by (auto simp: Suc_le_eq)
    ultimately show ?thesis using IH by (intro exI[of _ p] exI[of _ acc']) auto
  qed
qed

lemma set_bits_spec:
  assumes "p \<le> 128" "length acc = 16"
  shows "length (set_bits (map bit_pos [p..<128]) acc) = 16
    \<and> (\<forall>l<128. getbit (set_bits (map bit_pos [p..<128]) acc) l = (getbit acc l \<or> p \<le> l))"
  using assms
proof (induction "128 - p" arbitrary: p acc)
  case (Suc n)
  then have lt: "p < 128" by simp
  have ups: "[p..<128] = p # [Suc p..<128]" using lt by (simp add: upt_conv_Cons)
  let ?acc1 = "acc[p div 8 := acc ! (p div 8) OR push_bit (7 - p mod 8) 1]"
  have "\<forall>l<128. getbit ?acc1 l = (getbit acc l \<or> l = p)"
    using getbit_set[of p acc] lt Suc.prems by simp
  then show ?case using Suc.hyps(1)[of "Suc p" ?acc1] Suc.hyps(2) Suc.prems lt
    by (auto simp: ups bit_pos_def[of p] Suc_le_eq)
qed simp

lemma clear_bits_spec:
  assumes "p \<le> 128" "length acc = 16"
  shows "length (clear_bits (map bit_pos [p..<128]) acc) = 16
    \<and> (\<forall>l<128. getbit (clear_bits (map bit_pos [p..<128]) acc) l = (getbit acc l \<and> l < p))"
  using assms
proof (induction "128 - p" arbitrary: p acc)
  case (Suc n)
  then have lt: "p < 128" by simp
  have ups: "[p..<128] = p # [Suc p..<128]" using lt by (simp add: upt_conv_Cons)
  let ?acc1 = "acc[p div 8 := acc ! (p div 8) AND NOT (push_bit (7 - p mod 8) 1)]"
  have "\<forall>l<128. getbit ?acc1 l = (getbit acc l \<and> l \<noteq> p)"
    using getbit_clear[of p acc] lt Suc.prems by simp
  then show ?case using Suc.hyps(1)[of "Suc p" ?acc1] Suc.hyps(2) Suc.prems lt
    by (auto simp: ups bit_pos_def[of p] less_Suc_eq)
qed simp

lemma same_bits_iff: "same_bits is big little \<longleftrightarrow> (\<forall>i\<in>set is. getbit big i = getbit little i)"
  by (induction "is") (auto simp: Let_def net_simps getbit_def)

text \<open>After a host bit the loop succeeds only if no network bit follows.\<close>

lemma pflen_loop_found:
  "pflen_loop (map bit_pos ks) msk True n = (if \<exists>k\<in>set ks. getbit msk k then Inl EINVAL else Inr n)"
  by (induction ks) (auto simp: bit_pos_def net_simps getbit_def)

lemma pflen_loop_iff:
  assumes "a \<le> b"
  shows "pflen_loop (map bit_pos [a..<b]) msk False n = Inr m
    \<longleftrightarrow> (\<exists>p. a \<le> p \<and> p \<le> b \<and> m = n + int (p - a) \<and> (\<forall>k. a \<le> k \<and> k < b \<longrightarrow> (getbit msk k \<longleftrightarrow> k < p)))"
  using assms
proof (induction "b - a" arbitrary: a n)
  case 0
  then show ?case by auto
next
  case (Suc d)
  then have lt: "a < b" by simp
  have ups: "[a..<b] = a # [Suc a..<b]" using lt by (simp add: upt_conv_Cons)
  show ?case
  proof (cases "getbit msk a")
    case True
    then have "pflen_loop (map bit_pos [a..<b]) msk False n
        = pflen_loop (map bit_pos [Suc a..<b]) msk False (n + 1)"
      by (simp add: ups bit_pos_def[of a] net_simps getbit_def)
    also have "\<dots> = Inr m \<longleftrightarrow> (\<exists>p. Suc a \<le> p \<and> p \<le> b \<and> m = n + 1 + int (p - Suc a)
         \<and> (\<forall>k. Suc a \<le> k \<and> k < b \<longrightarrow> (getbit msk k \<longleftrightarrow> k < p)))"
      using Suc.hyps(1)[of "Suc a" "n + 1"] Suc.hyps(2) lt by simp
    also have "\<dots> \<longleftrightarrow> (\<exists>p. a \<le> p \<and> p \<le> b \<and> m = n + int (p - a)
         \<and> (\<forall>k. a \<le> k \<and> k < b \<longrightarrow> (getbit msk k \<longleftrightarrow> k < p)))" (is "?L \<longleftrightarrow> ?R")
    proof
      assume ?L
      then obtain p where p: "Suc a \<le> p" "p \<le> b" "m = n + 1 + int (p - Suc a)"
        "\<forall>k. Suc a \<le> k \<and> k < b \<longrightarrow> (getbit msk k \<longleftrightarrow> k < p)" by blast
      have "\<forall>k. a \<le> k \<and> k < b \<longrightarrow> (getbit msk k \<longleftrightarrow> k < p)"
        using p(1,4) True by (metis Suc_le_eq le_neq_implies_less)
      then show ?R using p by (intro exI[of _ p]) auto
    next
      assume ?R
      then obtain p where p: "a \<le> p" "p \<le> b" "m = n + int (p - a)"
        "\<forall>k. a \<le> k \<and> k < b \<longrightarrow> (getbit msk k \<longleftrightarrow> k < p)" by blast
      have "a < p" using p(4) True lt by blast
      then show ?L using p by (intro exI[of _ p]) auto
    qed
    finally show ?thesis .
  next
    case False
    then have "pflen_loop (map bit_pos [a..<b]) msk False n
        = pflen_loop (map bit_pos [Suc a..<b]) msk True n"
      by (simp add: ups bit_pos_def[of a] net_simps getbit_def)
    then have "pflen_loop (map bit_pos [a..<b]) msk False n = Inr m
        \<longleftrightarrow> m = n \<and> (\<forall>k. a \<le> k \<and> k < b \<longrightarrow> \<not> getbit msk k)"
      using False by (auto simp: pflen_loop_found Suc_le_eq nat_less_le)
    also have "\<dots> \<longleftrightarrow> (\<exists>p. a \<le> p \<and> p \<le> b \<and> m = n + int (p - a)
         \<and> (\<forall>k. a \<le> k \<and> k < b \<longrightarrow> (getbit msk k \<longleftrightarrow> k < p)))"
      using False lt by (metis add_0_right diff_self_eq_0 int_ops(1) le_eq_less_or_eq linorder_not_less order_refl)
    finally show ?thesis .
  qed
qed


section \<open>Blocks as sets of addresses\<close>

text \<open>The well-formed structures: sixteen octets of address and mask, a known
  protocol, and for IPv4 the v4-mapped head (ten zero octets, two 0xff octets)
  under an all-ones mask, which every constructor of the library writes.\<close>

definition v4_mapped_head :: bytes where
  "v4_mapped_head = replicate 10 0 @ replicate 2 0xff"

definition wf_cidr :: "cidr \<Rightarrow> bool" where
  "wf_cidr c \<longleftrightarrow> length (c_addr c) = 16 \<and> length (c_mask c) = 16
     \<and> (c_proto c = CIDR_IPV4 \<or> c_proto c = CIDR_IPV6)
     \<and> (c_proto c = CIDR_IPV4 \<longrightarrow>
          take 12 (c_addr c) = v4_mapped_head \<and> take 12 (c_mask c) = replicate 12 0xff)"

definition base_bit :: "cidr \<Rightarrow> nat" where
  "base_bit c = (if c_proto c = CIDR_IPV4 then 96 else 0)"

text \<open>The mask has exactly the first \<open>p\<close> of its 128 bits set.\<close>

definition prefix_mask :: "cidr \<Rightarrow> nat \<Rightarrow> bool" where
  "prefix_mask c p \<longleftrightarrow> base_bit c \<le> p \<and> p \<le> 128 \<and> (\<forall>k<128. getbit (c_mask c) k \<longleftrightarrow> k < p)"

definition valid_block :: "cidr \<Rightarrow> bool" where
  "valid_block c \<longleftrightarrow> wf_cidr c \<and> is_ok (cidr_get_pflen (Some c))"

definition in_block :: "bytes \<Rightarrow> cidr \<Rightarrow> bool" where
  "in_block x c \<longleftrightarrow> length x = 16 \<and> list_all (\<lambda>k. getbit (c_mask c) k \<longrightarrow> getbit x k = getbit (c_addr c) k) [0..<128]"

lemma in_block_iff:
  "in_block x c \<longleftrightarrow> length x = 16 \<and> (\<forall>k<128. getbit (c_mask c) k \<longrightarrow> getbit x k = getbit (c_addr c) k)"
  by (auto simp: in_block_def list_all_iff)

lemma getbit_take:
  assumes "k < 8 * n" "8 * n \<le> 8 * length xs"
  shows "getbit (take n xs) k = getbit xs k"
  using assms by (simp add: getbit_def div_less_iff_less_mult)

lemma getbit_ones: "k < 8 * n \<Longrightarrow> getbit (replicate n 0xff) k"
proof -
  assume "k < 8 * n"
  then have "k div 8 < n" by (simp add: div_less_iff_less_mult)
  moreover have "bit (0xff::byte) j" if "j < 8" for j
  proof -
    have eq: "(0xff::byte) = Bit_Operations.mask 8" by (simp add: mask_eq_exp_minus_1)
    show ?thesis unfolding eq bit_mask_iff using that by simp
  qed
  ultimately show ?thesis by (simp add: getbit_def)
qed

lemma wf_head_mask:
  assumes "wf_cidr c" "k < base_bit c"
  shows "getbit (c_mask c) k"
  using assms getbit_take[of k 12 "c_mask c"] getbit_ones[of k 12]
  by (auto simp: wf_cidr_def base_bit_def split: if_splits)

lemma wf_head_addr:
  assumes "wf_cidr c" "wf_cidr d" "c_proto c = c_proto d" "k < base_bit c"
  shows "getbit (c_addr c) k = getbit (c_addr d) k"
  using assms getbit_take[of k 12 "c_addr c"] getbit_take[of k 12 "c_addr d"]
  by (auto simp: wf_cidr_def base_bit_def split: if_splits)

lemma take12_bits:
  assumes "length xs = 16" "length ys = 16"
  shows "take 12 xs = take 12 ys \<longleftrightarrow> (\<forall>k<96. getbit xs k = getbit ys k)"
proof
  assume eq: "take 12 xs = take 12 ys"
  show "\<forall>k<96. getbit xs k = getbit ys k"
    using getbit_take[of _ 12 xs] getbit_take[of _ 12 ys] eq assms by fastforce
next
  assume "\<forall>k<96. getbit xs k = getbit ys k"
  then show "take 12 xs = take 12 ys"
    using getbit_take[of _ 12 xs] getbit_take[of _ 12 ys] assms
    by (intro bytes_eq_by_bits) auto
qed

text \<open>Structures that agree with a well-formed one on the v4 head are well formed.\<close>

lemma wf_cidr_same_head:
  assumes "wf_cidr c" "c_proto d = c_proto c" "length (c_addr d) = 16" "length (c_mask d) = 16"
    and "\<And>k. k < base_bit c \<Longrightarrow> getbit (c_addr d) k = getbit (c_addr c) k"
    and "\<And>k. k < base_bit c \<Longrightarrow> getbit (c_mask d) k = getbit (c_mask c) k"
  shows "wf_cidr d"
  using assms take12_bits[of "c_addr d" "c_addr c"] take12_bits[of "c_mask d" "c_mask c"]
  by (auto simp: wf_cidr_def base_bit_def split: if_splits)

lemma pflen_eq_loop:
  assumes "wf_cidr c"
  shows "cidr_get_pflen (Some c) = pflen_loop (map bit_pos [base_bit c..<128]) (c_mask c) False 0"
  using assms
  by (auto simp: cidr_get_pflen_def wf_cidr_def base_bit_def bits_after_eq cidr_proto_defs)

lemma pflen_iff:
  assumes "wf_cidr c"
  shows "cidr_get_pflen (Some c) = Inr m \<longleftrightarrow> (\<exists>p. prefix_mask c p \<and> m = int (p - base_bit c))"
proof -
  have b: "base_bit c \<le> 128" by (simp add: base_bit_def)
  have "(\<forall>k. base_bit c \<le> k \<and> k < 128 \<longrightarrow> (getbit (c_mask c) k \<longleftrightarrow> k < p)) \<longleftrightarrow>
        (\<forall>k<128. getbit (c_mask c) k \<longleftrightarrow> k < p)" if "base_bit c \<le> p" for p
    using wf_head_mask[OF assms] that by (meson leI le_trans less_le_trans)
  then show ?thesis
    unfolding pflen_eq_loop[OF assms] pflen_loop_iff[OF b] prefix_mask_def by auto
qed

lemma valid_block_iff: "valid_block c \<longleftrightarrow> wf_cidr c \<and> (\<exists>p. prefix_mask c p)"
  by (auto simp: valid_block_def is_ok_iff pflen_iff)

lemma valid_blockE:
  assumes "valid_block c"
  obtains p where "wf_cidr c" "prefix_mask c p" "cidr_get_pflen (Some c) = Inr (int (p - base_bit c))"
  using assms by (auto simp: valid_block_iff pflen_iff)

lemma prefix_mask_unique: "prefix_mask c p \<Longrightarrow> prefix_mask c q \<Longrightarrow> p = q"
  unfolding prefix_mask_def by (metis le_neq_implies_less less_le_trans nat_neq_iff)

text \<open>The loop of the derived addresses stops at the prefix length.\<close>

lemma copy_net_bits_prefix:
  assumes "wf_cidr c" "prefix_mask c p"
  obtains acc where
    "copy_net_bits (bits_after 0) (c_addr c) (c_mask c) (replicate 16 0) = (acc, map bit_pos [p..<128])"
    "length acc = 16" "\<And>l. l < 128 \<Longrightarrow> getbit acc l = (l < p \<and> getbit (c_addr c) l)"
proof -
  obtain q acc where q:
    "copy_net_bits (bits_after 0) (c_addr c) (c_mask c) (replicate 16 0) = (acc, map bit_pos [q..<128])"
    "q \<le> 128" "\<forall>k<q. getbit (c_mask c) k" "q < 128 \<longrightarrow> \<not> getbit (c_mask c) q" "length acc = 16"
    "\<forall>l<128. getbit acc l = (getbit (replicate 16 0) l \<or> l < q \<and> getbit (c_addr c) l)"
    using copy_net_bits_spec[of 0 "replicate 16 0" "c_addr c" "c_mask c"] bits_after_eq[of 0] by auto
  have "q = p"
    using q(2-4) assms(2) unfolding prefix_mask_def
    by (metis le_neq_implies_less less_le_trans nat_neq_iff)
  then show thesis using q that getbit_replicate_zero[of _ 16] by simp
qed

lemma wf_cidr_same_prefix:
  assumes "wf_cidr c" "prefix_mask c p" "c_proto d = c_proto c" "c_mask d = c_mask c"
    and "length (c_addr d) = 16" "\<And>l. l < p \<Longrightarrow> getbit (c_addr d) l = getbit (c_addr c) l"
  shows "wf_cidr d"
proof (rule wf_cidr_same_head[OF assms(1,3,5)])
  show "length (c_mask d) = 16" using assms(1,4) by (simp add: wf_cidr_def)
  show "getbit (c_addr d) k = getbit (c_addr c) k" if "k < base_bit c" for k
    using that assms(2,6) by (simp add: prefix_mask_def)
  show "getbit (c_mask d) k = getbit (c_mask c) k" if "k < base_bit c" for k
    using assms(4) by simp
qed

lemma network_spec:
  assumes "wf_cidr c" "prefix_mask c p"
  obtains n where "cidr_addr_network (Some c) = Inr n" "wf_cidr n" "c_proto n = c_proto c"
    "c_mask n = c_mask c" "\<And>l. l < 128 \<Longrightarrow> getbit (c_addr n) l = (l < p \<and> getbit (c_addr c) l)"
proof -
  obtain acc where acc:
    "copy_net_bits (bits_after 0) (c_addr c) (c_mask c) (replicate 16 0) = (acc, map bit_pos [p..<128])"
    "length acc = 16" "\<And>l. l < 128 \<Longrightarrow> getbit acc l = (l < p \<and> getbit (c_addr c) l)"
    using copy_net_bits_prefix[OF assms] by blast
  let ?n = "cidr_alloc\<lparr>c_proto := c_proto c, c_mask := c_mask c, c_addr := acc\<rparr>"
  have "cidr_addr_network (Some c) = Inr ?n"
    using acc(1) by (simp add: cidr_addr_network_def cidr_alloc_def Let_def)
  moreover have "wf_cidr ?n"
    by (rule wf_cidr_same_prefix[OF assms]) (use acc assms(2) in \<open>simp_all add: prefix_mask_def\<close>)
  ultimately show thesis using acc(3) by (intro that[of ?n]) simp_all
qed

lemma broadcast_spec:
  assumes "wf_cidr c" "prefix_mask c p"
  obtains n where "cidr_addr_broadcast (Some c) = Inr n" "wf_cidr n" "c_proto n = c_proto c"
    "c_mask n = c_mask c" "\<And>l. l < 128 \<Longrightarrow> getbit (c_addr n) l = (l < p \<longrightarrow> getbit (c_addr c) l)"
proof -
  obtain acc where acc:
    "copy_net_bits (bits_after 0) (c_addr c) (c_mask c) (replicate 16 0) = (acc, map bit_pos [p..<128])"
    "length acc = 16" "\<And>l. l < 128 \<Longrightarrow> getbit acc l = (l < p \<and> getbit (c_addr c) l)"
    using copy_net_bits_prefix[OF assms] by blast
  let ?a = "set_bits (map bit_pos [p..<128]) acc"
  let ?n = "cidr_alloc\<lparr>c_proto := c_proto c, c_mask := c_mask c, c_addr := ?a\<rparr>"
  have p: "p \<le> 128" using assms by (simp add: prefix_mask_def)
  have a: "length ?a = 16" "\<And>l. l < 128 \<Longrightarrow> getbit ?a l = (l < p \<longrightarrow> getbit (c_addr c) l)"
    using set_bits_spec[OF p acc(2)] acc(3) by auto
  have "cidr_addr_broadcast (Some c) = Inr ?n"
    using acc(1) by (simp add: cidr_addr_broadcast_def cidr_alloc_def Let_def)
  moreover have "wf_cidr ?n"
    by (rule wf_cidr_same_prefix[OF assms]) (use a p in simp_all)
  ultimately show thesis using a(2) by (intro that[of ?n]) simp_all
qed


subsection \<open>Containment is inclusion of address sets\<close>

lemma contains_bits:
  assumes "wf_cidr b" "prefix_mask b p" "wf_cidr l" "prefix_mask l q" "c_proto b = c_proto l"
  shows "cidr_contains (Some b) (Some l) = Inr 0
    \<longleftrightarrow> p \<le> q \<and> (\<forall>k<p. getbit (c_addr b) k = getbit (c_addr l) k)"
proof -
  have bp: "base_bit b \<le> p" "base_bit l \<le> q" "base_bit b = base_bit l"
    using assms by (simp_all add: prefix_mask_def base_bit_def)
  have pf: "ret_int (cidr_get_pflen (Some b)) = int (p - base_bit b)"
           "ret_int (cidr_get_pflen (Some l)) = int (q - base_bit b)"
    using pflen_iff[OF assms(1)] pflen_iff[OF assms(3)] assms(2,4) bp(3)
    by (metis ret_int_def sum.simps(6))+
  have lt: "(int (q - base_bit b) < int (p - base_bit b)) = (q < p)" using bp by linarith
  have rng: "(\<forall>k\<in>{base_bit b..<p}. getbit (c_addr b) k = getbit (c_addr l) k)
      \<longleftrightarrow> (\<forall>k<p. getbit (c_addr b) k = getbit (c_addr l) k)"
    using wf_head_addr[OF assms(1,3,5)] by (meson atLeastLessThan_iff leI)
  have "cidr_contains (Some b) (Some l) = Inr 0
    \<longleftrightarrow> \<not> q < p \<and> same_bits [base_bit b..<p] (c_addr b) (c_addr l)"
  proof (cases "c_proto b = CIDR_IPV4")
    case True
    then have "base_bit b = 96" by (simp add: base_bit_def)
    then have "nat (int (p - base_bit b) + 96) = p" using bp by linarith
    then show ?thesis using True assms(5) \<open>base_bit b = 96\<close>
      unfolding cidr_contains_def using lt by (simp add: pf Let_def)
  next
    case False
    then have "base_bit b = 0" "c_proto b = CIDR_IPV6"
      using assms(1) by (auto simp: base_bit_def wf_cidr_def)
    then show ?thesis using False assms(5) lt
      unfolding cidr_contains_def by (simp add: pf Let_def)
  qed
  then show ?thesis unfolding same_bits_iff using rng by (auto simp: not_less)
qed

text \<open>Flipping a host bit of a member gives another member.\<close>

definition flip_bit :: "nat \<Rightarrow> bytes \<Rightarrow> bytes" where
  "flip_bit k x = (if getbit x k then x[k div 8 := x ! (k div 8) AND NOT (push_bit (7 - k mod 8) 1)]
                   else x[k div 8 := x ! (k div 8) OR push_bit (7 - k mod 8) 1])"

lemma getbit_flip:
  assumes "length x = 16" "k < 128" "l < 128"
  shows "getbit (flip_bit k x) l = (if l = k then \<not> getbit x k else getbit x l)"
  using getbit_set[of k x l] getbit_clear[of k x l] assms by (auto simp: flip_bit_def)

lemma length_flip [simp]: "length (flip_bit k x) = length x"
  by (simp add: flip_bit_def)

lemma own_addr_in_block: "wf_cidr c \<Longrightarrow> in_block (c_addr c) c"
  by (simp add: in_block_iff wf_cidr_def)

lemma in_block_prefix:
  assumes "prefix_mask c p"
  shows "in_block x c \<longleftrightarrow> length x = 16 \<and> (\<forall>k<p. getbit x k = getbit (c_addr c) k)"
  using assms unfolding in_block_iff prefix_mask_def by (meson less_le_trans)

lemma block_subset_iff:
  assumes "wf_cidr b" "prefix_mask b p" "wf_cidr l" "prefix_mask l q"
  shows "(\<forall>x. in_block x l \<longrightarrow> in_block x b) \<longleftrightarrow> p \<le> q \<and> (\<forall>k<p. getbit (c_addr b) k = getbit (c_addr l) k)"
    (is "?L \<longleftrightarrow> ?R")
proof
  assume L: ?L
  then have "in_block (c_addr l) b" using own_addr_in_block assms(3) by blast
  then have same: "\<forall>k<p. getbit (c_addr l) k = getbit (c_addr b) k"
    using in_block_prefix[OF assms(2)] by blast
  have len: "length (c_addr l) = 16" using assms(3) by (simp add: wf_cidr_def)
  have "p \<le> q"
  proof (rule ccontr)
    assume "\<not> p \<le> q"
    then have lt: "q < p" "q < 128" using assms(2) by (auto simp: prefix_mask_def)
    let ?x = "flip_bit q (c_addr l)"
    have "in_block ?x l"
      using in_block_prefix[OF assms(4)] getbit_flip[OF len lt(2)] lt len by simp
    then have "in_block ?x b" using L by blast
    then show False
      using in_block_prefix[OF assms(2)] getbit_flip[OF len lt(2) lt(2)] same lt by auto
  qed
  then show ?R using same by simp
next
  assume ?R
  then show ?L using in_block_prefix[OF assms(2)] in_block_prefix[OF assms(4)] by simp
qed

lemma contains_block:
  assumes "valid_block b" "valid_block l" "c_proto b = c_proto l"
  shows "cidr_contains (Some b) (Some l) = Inr 0 \<longleftrightarrow> (\<forall>x. in_block x l \<longrightarrow> in_block x b)"
proof -
  obtain p where p: "wf_cidr b" "prefix_mask b p" using assms(1) by (rule valid_blockE)
  obtain q where q: "wf_cidr l" "prefix_mask l q" using assms(2) by (rule valid_blockE)
  show ?thesis
    using contains_bits[OF p q assms(3)] block_subset_iff[OF p q] by simp
qed


subsection \<open>Supernets and subnets\<close>

lemma sdiv_nat: "nat (int k sdiv 8) = k div 8" "nat (7 - int k smod 8) = 7 - k mod 8"
proof -
  have "int k sdiv 8 = int (k div 8)"
    by (cases "k = 0") (simp_all add: signed_divide_int_def zdiv_int)
  then show "nat (int k sdiv 8) = k div 8" by simp
  have "int k smod 8 = int (k mod 8)"
    by (cases "k = 0") (simp_all add: signed_modulo_int_def signed_divide_int_def zmod_int minus_div_mult_eq_mod)
  then show "nat (7 - int k smod 8) = 7 - k mod 8" by simp
qed

lemma pflen_ret:
  assumes "wf_cidr c" "prefix_mask c p"
  shows "ret_int (cidr_get_pflen (Some c)) = int (p - base_bit c)"
proof -
  have "cidr_get_pflen (Some c) = Inr (int (p - base_bit c))"
    using pflen_iff[OF assms(1)] assms(2) by blast
  then show ?thesis by (simp add: ret_int_def)
qed

lemma pflen_total:
  assumes "wf_cidr c" "prefix_mask c p"
  shows "(if c_proto c = CIDR_IPV4 then ret_int (cidr_get_pflen (Some c)) + 96
          else ret_int (cidr_get_pflen (Some c))) = int p"
  using pflen_ret[OF assms] assms(2) by (auto simp: prefix_mask_def base_bit_def)

lemma supernet_spec:
  assumes wf: "wf_cidr c" and pm: "prefix_mask c p" and lt: "base_bit c < p"
  obtains s where "cidr_net_supernet (Some c) = Inr s" "wf_cidr s" "c_proto s = c_proto c"
    "prefix_mask s (p - 1)" "\<And>l. l < 128 \<Longrightarrow> getbit (c_addr s) l = (l < p - 1 \<and> getbit (c_addr c) l)"
proof -
  obtain k where k: "p = Suc k" using lt by (cases p) auto
  have k128: "k < 128" using pm k by (simp add: prefix_mask_def)
  have len: "length (c_addr c) = 16" "length (c_mask c) = 16" using wf by (simp_all add: wf_cidr_def)
  let ?m = "(c_mask c)[k div 8 := c_mask c ! (k div 8) AND NOT (push_bit (7 - k mod 8) 1)]"
  let ?a = "clear_bits (map bit_pos [k..<128]) (c_addr c)"
  let ?s = "c\<lparr>c_mask := ?m, c_addr := ?a\<rparr>"
  have nz: "ret_int (cidr_get_pflen (Some c)) \<noteq> 0" using pflen_ret[OF wf pm] lt by simp
  have "cidr_net_supernet (Some c) = Inr ?s"
    using nz pflen_total[OF wf pm] k
    by (simp add: cidr_net_supernet_def Let_def cidr_dup_def sdiv_nat bits_from_eq[OF k128] split del: if_split)
  moreover have bits: "length ?a = 16" "\<And>l. l < 128 \<Longrightarrow> getbit ?a l = (l < k \<and> getbit (c_addr c) l)"
    using clear_bits_spec[of k "c_addr c"] k128 len by auto
  moreover have mb: "getbit ?m l = (l < k)" if "l < 128" for l
    using getbit_clear[of k "c_mask c" l] that k128 len pm k by (auto simp: prefix_mask_def)
  moreover have "wf_cidr ?s"
    using len k lt bits mb wf_head_mask[OF wf] k128
    by (intro wf_cidr_same_head[OF wf]) (auto simp: base_bit_def split: if_splits)
  moreover have "prefix_mask ?s k"
    using mb k128 lt k by (auto simp: prefix_mask_def base_bit_def split: if_splits)
  ultimately show thesis using k by (intro that[of ?s]) simp_all
qed

lemma subnets_spec:
  assumes wf: "wf_cidr c" and pm: "prefix_mask c p" and lt: "p < 128"
  obtains s0 s1 where "cidr_net_subnets (Some c) = Inr (s0, s1)" "wf_cidr s0" "wf_cidr s1"
    "c_proto s0 = c_proto c" "c_proto s1 = c_proto c" "prefix_mask s0 (Suc p)" "prefix_mask s1 (Suc p)"
    "\<And>l. l < 128 \<Longrightarrow> getbit (c_addr s0) l = (l < p \<and> getbit (c_addr c) l)"
    "\<And>l. l < 128 \<Longrightarrow> getbit (c_addr s1) l = (l < p \<and> getbit (c_addr c) l \<or> l = p)"
proof -
  obtain n where n: "cidr_addr_network (Some c) = Inr n" "wf_cidr n" "c_proto n = c_proto c"
    "c_mask n = c_mask c" "\<And>l. l < 128 \<Longrightarrow> getbit (c_addr n) l = (l < p \<and> getbit (c_addr c) l)"
    using network_spec[OF wf pm] by blast
  have len: "length (c_addr n) = 16" "length (c_mask n) = 16" using n(2) by (simp_all add: wf_cidr_def)
  let ?m = "(c_mask n)[p div 8 := c_mask n ! (p div 8) OR push_bit (7 - p mod 8) 1]"
  let ?a = "(c_addr n)[p div 8 := c_addr n ! (p div 8) OR push_bit (7 - p mod 8) 1]"
  let ?s0 = "n\<lparr>c_mask := ?m\<rparr>" let ?s1 = "n\<lparr>c_mask := ?m, c_addr := ?a\<rparr>"
  have base: "base_bit c \<le> p" "base_bit n = base_bit c"
    using pm n(3) by (simp_all add: prefix_mask_def base_bit_def)
  have ng: "\<not> ((c_proto c = CIDR_IPV4 \<and> ret_int (cidr_get_pflen (Some c)) = 32)
         \<or> (c_proto c = CIDR_IPV6 \<and> ret_int (cidr_get_pflen (Some c)) = 128))"
    using pflen_ret[OF wf pm] lt by (auto simp: base_bit_def cidr_proto_defs)
  have "cidr_net_subnets (Some c) = Inr (?s0, ?s1)"
    unfolding cidr_net_subnets_def option.case Let_def if_not_P[OF ng] n(1) sum.case n(3)
      pflen_total[OF wf pm] sdiv_nat cidr_dup_def by simp
  moreover have mb: "getbit ?m l = (l < Suc p)" if "l < 128" for l
    using getbit_set[of p "c_mask n" l] that len lt pm n(4) by (auto simp: prefix_mask_def)
  moreover have ab: "getbit ?a l = (l < p \<and> getbit (c_addr c) l \<or> l = p)" if "l < 128" for l
    using getbit_set[of p "c_addr n" l] that len lt n(5) by auto
  moreover have "wf_cidr ?s0"
    using len mb base wf_head_mask[OF n(2)] lt
    by (intro wf_cidr_same_head[OF n(2)]) auto
  moreover have "wf_cidr ?s1"
    using len mb ab n(5) base wf_head_mask[OF n(2)] lt
    by (intro wf_cidr_same_head[OF n(2)]) auto
  moreover have "prefix_mask ?s0 (Suc p)" "prefix_mask ?s1 (Suc p)"
    using mb base lt by (auto simp: prefix_mask_def base_bit_def)
  ultimately show thesis using n(3,5) by (intro that[of ?s0 ?s1]) simp_all
qed

lemma block_eq_subnets:
  assumes "wf_cidr c" "prefix_mask c p" "p < 128" "cidr_net_subnets (Some c) = Inr (s0, s1)"
  shows "in_block x c \<longleftrightarrow> in_block x s0 \<or> in_block x s1" "\<not> (in_block x s0 \<and> in_block x s1)"
proof -
  obtain t0 t1 where t: "cidr_net_subnets (Some c) = Inr (t0, t1)"
    "prefix_mask t0 (Suc p)" "prefix_mask t1 (Suc p)"
    "\<And>l. l < 128 \<Longrightarrow> getbit (c_addr t0) l = (l < p \<and> getbit (c_addr c) l)"
    "\<And>l. l < 128 \<Longrightarrow> getbit (c_addr t1) l = (l < p \<and> getbit (c_addr c) l \<or> l = p)"
    using subnets_spec[OF assms(1-3)] by metis
  have eq: "s0 = t0" "s1 = t1" using t(1) assms(4) by simp_all
  note m = in_block_prefix[OF assms(2)] in_block_prefix[OF t(2)] in_block_prefix[OF t(3)]
  show "in_block x c \<longleftrightarrow> in_block x s0 \<or> in_block x s1"
    unfolding eq m using t(4,5) assms(3) by (auto simp: less_Suc_eq)
  show "\<not> (in_block x s0 \<and> in_block x s1)"
    unfolding eq m using t(4,5) assms(3) by auto
qed

subsection \<open>Comparison and conversion\<close>

lemma cidr_equals_loop_iff:
  "cidr_equals_loop is c d = 0 \<longleftrightarrow> (\<forall>i\<in>set is. c_addr c ! i = c_addr d ! i \<and> c_mask c ! i = c_mask d ! i)"
  by (induction "is") auto

lemma drop12_nth:
  assumes "length xs = 16" "length ys = 16" "take 12 xs = take 12 ys"
    and "\<forall>i\<in>set [12..<16]. xs ! i = ys ! i"
  shows "xs = ys"
proof (rule nth_equalityI)
  fix i assume i: "i < length xs"
  show "xs ! i = ys ! i"
  proof (cases "i < 12")
    case True
    then show ?thesis using assms(3) by (metis nth_take)
  next
    case False
    then have "i \<in> set [12..<16]" using i assms(1) by (simp del: upt_rec_numeral)
    then show ?thesis by (rule bspec[OF assms(4)])
  qed
qed (use assms in simp)

lemma cidr_equals_iff:
  assumes "wf_cidr c" "wf_cidr d"
  shows "cidr_equals c d = 0 \<longleftrightarrow> c_proto c = c_proto d \<and> c_addr c = c_addr d \<and> c_mask c = c_mask d"
proof (cases "c_proto c = c_proto d")
  case False
  then show ?thesis by (simp add: cidr_equals_def)
next
  case True
  have len: "length (c_addr c) = 16" "length (c_addr d) = 16" "length (c_mask c) = 16" "length (c_mask d) = 16"
    using assms by (simp_all add: wf_cidr_def)
  show ?thesis
  proof (cases "c_proto c = CIDR_IPV4")
    case v4: True
    have "take 12 (c_addr c) = take 12 (c_addr d)" "take 12 (c_mask c) = take 12 (c_mask d)"
      using assms True v4 by (simp_all add: wf_cidr_def)
    then show ?thesis
      using drop12_nth[of "c_addr c" "c_addr d"] drop12_nth[of "c_mask c" "c_mask d"] len True v4
      by (auto simp: cidr_equals_def cidr_equals_loop_iff simp del: upt_rec_numeral)
  next
    case False
    have "(\<forall>i\<in>{0..<16}. xs ! i = ys ! i) \<longleftrightarrow> xs = ys" if "length xs = 16" "length ys = 16" for xs ys :: bytes
      using that by (auto intro: nth_equalityI)
    then show ?thesis using False True len
      by (simp add: cidr_equals_def cidr_equals_loop_iff ball_conj_distrib)
  qed
qed

lemma htonl_htonl [simp]: "htonl (htonl w) = w"
  by (simp add: htonl_def)

lemma from_inaddr_eq:
  "cidr_from_inaddr (Some w) = Inr (cidr_alloc\<lparr>c_proto := CIDR_IPV4,
     c_addr := v4_mapped_head @ [octet 3 (htonl w), octet 2 (htonl w), octet 1 (htonl w), octet 0 (htonl w)],
     c_mask := replicate 16 0xff\<rparr>)"
proof -
  have "replicate 12 0xff @ replicate 4 0xff = replicate 16 (0xff::byte)"
    by (simp add: replicate_add[symmetric])
  then show ?thesis
    by (simp add: cidr_from_inaddr_def Let_def ucast_and_ff octet_def v4_mapped_head_def)
qed

lemma v4_octets:
  "c_addr c = v4_mapped_head @ [a, b, d, e] \<Longrightarrow>
   c_addr c ! 12 = a \<and> c_addr c ! 13 = b \<and> c_addr c ! 14 = d \<and> c_addr c ! 15 = e"
  by (simp add: v4_mapped_head_def nth_append)

lemma wf_v4_addr:
  assumes "wf_cidr c" "c_proto c = CIDR_IPV4"
  obtains a b d e where "c_addr c = v4_mapped_head @ [a, b, d, e]"
proof -
  have len: "length (c_addr c) = 16" "take 12 (c_addr c) = v4_mapped_head"
    using assms by (simp_all add: wf_cidr_def)
  have "\<exists>a b d e. xs = [a, b, d, e]" if "length xs = 4" for xs :: bytes
    using that by (auto simp: numeral_eq_Suc length_Suc_conv)
  moreover have "length (drop 12 (c_addr c)) = 4" using len by simp
  ultimately obtain a b d e where "drop 12 (c_addr c) = [a, b, d, e]" by blast
  then show thesis using that len(2) append_take_drop_id[of 12 "c_addr c"] by metis
qed

lemma to_inaddr_eq:
  assumes "c_proto c = CIDR_IPV4" "c_addr c = v4_mapped_head @ [a, b, d, e]"
  shows "cidr_to_inaddr (Some c) = Inr (htonl (join4 a b d e))"
  using assms v4_octets[OF assms(2)] by (simp add: cidr_to_inaddr_def join4_sum)

section \<open>The number of addresses of a block\<close>

text \<open>Decimal value of a string with thousands separators.\<close>

definition decimal_value :: "string \<Rightarrow> int" where
  "decimal_value s = foldl (\<lambda>n c. if c = CHR '','' then n else 10 * n + (of_char c - 48)) 0 s"

lemma pow2_table: "map decimal_value cidr_pow2 = map (\<lambda>k. 2 ^ k) [0..<129]"
  by code_simp

lemma pow2m2_table: "map decimal_value cidr_pow2m2 = [1, 2] @ map (\<lambda>k. 2 ^ k - 2) [2..<129]"
  by code_simp

lemma numaddr_value:
  assumes "p \<le> 128"
  shows "\<exists>s. cidr_numaddr_pflen (int p) = Inr s \<and> decimal_value s = 2 ^ (128 - p)"
proof -
  have len: "length cidr_pow2 = 129" using arg_cong[OF pow2_table, of length] by simp
  have "decimal_value (cidr_pow2 ! (128 - p)) = map decimal_value cidr_pow2 ! (128 - p)"
    using len by simp
  also have "\<dots> = 2 ^ (128 - p)"
    unfolding pow2_table by (subst nth_map) (simp_all del: upt_rec_numeral)
  moreover have "nat (128 - int p) = 128 - p" by simp
  ultimately show ?thesis using assms by (auto simp: cidr_numaddr_pflen_def)
qed

definition bytes_of_bits :: "(nat \<Rightarrow> bool) \<Rightarrow> bytes" where
  "bytes_of_bits f = map (\<lambda>i. horner_sum of_bool 2 (map (\<lambda>j. f (8 * i + (7 - j))) [0..<8])) [0..<16]"

lemma getbit_bytes_of_bits: "k < 128 \<Longrightarrow> getbit (bytes_of_bits f) k = f k"
proof -
  assume k: "k < 128"
  have "k div 8 < 16" using k by (simp add: div_less_iff_less_mult)
  then have "bytes_of_bits f ! (k div 8)
      = horner_sum of_bool 2 (map (\<lambda>j. f (8 * (k div 8) + (7 - j))) [0..<8])"
    by (simp add: bytes_of_bits_def del: upt_rec_numeral)
  moreover have "8 * (k div 8) + (7 - (7 - k mod 8)) = k" by simp
  ultimately show ?thesis
    by (simp add: getbit_def bit_horner_sum_bit_word_iff less_Suc_eq_le[of _ 7, simplified] del: upt_rec_numeral)
qed

lemma length_bytes_of_bits [simp]: "length (bytes_of_bits f) = 16"
  by (simp add: bytes_of_bits_def)

lemma card_block:
  assumes "wf_cidr c" "prefix_mask c p"
  shows "card {x. in_block x c} = 2 ^ (128 - p)"
proof -
  let ?h = "\<lambda>x. {k \<in> {p..<128}. getbit x k}"
  let ?g = "\<lambda>S. bytes_of_bits (\<lambda>k. if k < p then getbit (c_addr c) k else k \<in> S)"
  have p: "p \<le> 128" using assms(2) by (simp add: prefix_mask_def)
  have "bij_betw ?h {x. in_block x c} (Pow {p..<128})"
  proof (rule bij_betw_byWitness[where f' = ?g])
    show "\<forall>x\<in>{x. in_block x c}. ?g (?h x) = x"
    proof (intro ballI bytes_eq_by_bits)
      fix x assume "x \<in> {x. in_block x c}"
      then have x: "length x = 16" "\<forall>k<p. getbit x k = getbit (c_addr c) k"
        using in_block_prefix[OF assms(2)] by auto
      show "length (?g (?h x)) = length x" using x by simp
      show "getbit (?g (?h x)) k = getbit x k" if "k < 8 * length (?g (?h x))" for k
        using that x(2) by (simp add: getbit_bytes_of_bits)
    qed
    show "\<forall>S\<in>Pow {p..<128}. ?h (?g S) = S"
      by (auto simp: getbit_bytes_of_bits)
    show "?h ` {x. in_block x c} \<subseteq> Pow {p..<128}" by auto
    show "?g ` Pow {p..<128} \<subseteq> {x. in_block x c}"
      using in_block_prefix[OF assms(2)] p by (auto simp: getbit_bytes_of_bits)
  qed
  then have "card {x. in_block x c} = card (Pow {p..<128})" by (rule bij_betw_same_card)
  also have "\<dots> = 2 ^ (128 - p)" by (simp add: card_Pow)
  finally show ?thesis .
qed

section \<open>The interface the policy engine uses\<close>

text \<open>Containment tests over blocks, as clients see them: a family test, a
  membership predicate and the law that containment is inclusion.\<close>

locale block_inclusion =
  fixes contains :: "'c \<Rightarrow> 'c \<Rightarrow> bool"
    and member :: "'a \<Rightarrow> 'c \<Rightarrow> bool"
    and valid :: "'c \<Rightarrow> bool"
    and family :: "'c \<Rightarrow> int"
  assumes contains_family: "contains b l \<Longrightarrow> family b = family l"
    and contains_iff: "valid b \<Longrightarrow> valid l \<Longrightarrow> family b = family l \<Longrightarrow>
          contains b l \<longleftrightarrow> (\<forall>x. member x l \<longrightarrow> member x b)"
begin

lemma contains_refl: "valid b \<Longrightarrow> contains b b"
  by (simp add: contains_iff)

lemma contains_trans:
  assumes "valid a" "valid b" "valid c" "contains a b" "contains b c"
  shows "contains a c"
  using assms contains_family[OF assms(4)] contains_family[OF assms(5)]
    contains_iff[of a b] contains_iff[of b c] contains_iff[of a c] by auto

lemma member_mono:
  "valid b \<Longrightarrow> valid l \<Longrightarrow> contains b l \<Longrightarrow> member x l \<Longrightarrow> member x b"
  using contains_iff contains_family by blast

end

definition block_contains :: "cidr \<Rightarrow> cidr \<Rightarrow> bool" where
  "block_contains b l \<longleftrightarrow> cidr_contains (Some b) (Some l) = Inr 0"

lemma contains_family_error:
  "c_proto b \<noteq> c_proto l \<Longrightarrow> cidr_contains (Some b) (Some l) = Inl EPROTO"
  by (simp add: cidr_contains_def)

lemma block_contains_family: "block_contains b l \<Longrightarrow> c_proto b = c_proto l"
  using contains_family_error[of b l] by (auto simp: block_contains_def)

interpretation cidr_blocks: block_inclusion block_contains in_block valid_block c_proto
proof unfold_locales
  show "c_proto b = c_proto l" if "block_contains b l" for b l
    using that by (rule block_contains_family)
  show "block_contains b l \<longleftrightarrow> (\<forall>x. in_block x l \<longrightarrow> in_block x b)"
    if "valid_block b" "valid_block l" "c_proto b = c_proto l" for b l
    using contains_block[OF that] by (simp add: block_contains_def)
qed


section \<open>Properties\<close>

text \<open>Concrete IPv4 blocks in the layout the constructors write.\<close>

definition v4_block :: "byte \<Rightarrow> byte \<Rightarrow> byte \<Rightarrow> byte \<Rightarrow> bytes \<Rightarrow> cidr" where
  "v4_block a b c d m = \<lparr>c_version = 0, c_addr = v4_mapped_head @ [a, b, c, d],
     c_mask = replicate 12 0xff @ m, c_proto = CIDR_IPV4\<rparr>"

lemma valid_block_examples:
  "valid_block (v4_block 192 168 0 0 [0xff, 0xff, 0, 0])"
  "valid_block (v4_block 192 168 7 1 [0xff, 0xff, 0xff, 0])"
  by code_simp+

text \<open>C1: cidr_contains returns 0 exactly when every address of the second
  block is an address of the first, for two blocks of one family whose masks
  are contiguous.\<close>

theorem cidr_contains_is_inclusion:
  assumes "valid_block b" "valid_block l" "c_proto b = c_proto l"
  shows "cidr_contains (Some b) (Some l) = Inr 0 \<longleftrightarrow> (\<forall>x. in_block x l \<longrightarrow> in_block x b)"
  using cidr_blocks.contains_iff[OF assms] by (simp add: block_contains_def)

theorem cidr_contains_is_inclusion_witness:
  "cidr_contains (Some (v4_block 192 168 0 0 [0xff, 0xff, 0, 0])) (Some (v4_block 192 168 7 1 [0xff, 0xff, 0xff, 0])) = Inr 0
   \<longleftrightarrow> (\<forall>x. in_block x (v4_block 192 168 7 1 [0xff, 0xff, 0xff, 0])
            \<longrightarrow> in_block x (v4_block 192 168 0 0 [0xff, 0xff, 0, 0]))"
  by (rule cidr_contains_is_inclusion) (simp_all add: valid_block_examples, simp add: v4_block_def)

text \<open>The network and broadcast addresses of a block are addresses of it, and
  the bitwise least and greatest of all its addresses.\<close>

theorem network_broadcast_extremes:
  assumes "valid_block c"
  shows "\<exists>n b. cidr_addr_network (Some c) = Inr n \<and> cidr_addr_broadcast (Some c) = Inr b
    \<and> in_block (c_addr n) c \<and> in_block (c_addr b) c
    \<and> (\<forall>x k. in_block x c \<and> k < 128 \<longrightarrow>
         (getbit (c_addr n) k \<longrightarrow> getbit x k) \<and> (getbit x k \<longrightarrow> getbit (c_addr b) k))"
proof -
  obtain p where p: "wf_cidr c" "prefix_mask c p" using assms by (rule valid_blockE)
  obtain n where n: "cidr_addr_network (Some c) = Inr n" "wf_cidr n"
    "\<And>l. l < 128 \<Longrightarrow> getbit (c_addr n) l = (l < p \<and> getbit (c_addr c) l)"
    using network_spec[OF p] by metis
  obtain b where b: "cidr_addr_broadcast (Some c) = Inr b" "wf_cidr b"
    "\<And>l. l < 128 \<Longrightarrow> getbit (c_addr b) l = (l < p \<longrightarrow> getbit (c_addr c) l)"
    using broadcast_spec[OF p] by metis
  have p128: "p \<le> 128" using p(2) by (simp add: prefix_mask_def)
  have "in_block (c_addr n) c" "in_block (c_addr b) c"
    using in_block_prefix[OF p(2)] n b p128 by (simp_all add: wf_cidr_def)
  then show ?thesis using n b in_block_prefix[OF p(2)] by auto
qed

theorem network_broadcast_extremes_witness:
  "\<exists>n b. cidr_addr_network (Some (v4_block 192 168 7 1 [0xff, 0xff, 0xff, 0])) = Inr n
    \<and> cidr_addr_broadcast (Some (v4_block 192 168 7 1 [0xff, 0xff, 0xff, 0])) = Inr b
    \<and> in_block (c_addr n) (v4_block 192 168 7 1 [0xff, 0xff, 0xff, 0])
    \<and> in_block (c_addr b) (v4_block 192 168 7 1 [0xff, 0xff, 0xff, 0])"
  using network_broadcast_extremes[OF valid_block_examples(2)] by blast

text \<open>Splitting a block that is not a single host gives two well-formed blocks,
  disjoint from one another, whose union is the block.\<close>

theorem subnets_partition:
  assumes "valid_block c" "cidr_net_subnets (Some c) = Inr (s0, s1)"
  shows "valid_block s0 \<and> valid_block s1
    \<and> {x. in_block x c} = {x. in_block x s0} \<union> {x. in_block x s1}
    \<and> {x. in_block x s0} \<inter> {x. in_block x s1} = {}"
proof -
  obtain p where p: "wf_cidr c" "prefix_mask c p" using assms(1) by (rule valid_blockE)
  have "p \<noteq> 128"
  proof
    assume "p = 128"
    then have "cidr_net_subnets (Some c) = Inl ERR_NONE"
      using pflen_ret[OF p] p(1)
      by (auto simp: cidr_net_subnets_def wf_cidr_def base_bit_def split: if_splits)
    then show False using assms(2) by simp
  qed
  then have lt: "p < 128" using p(2) by (simp add: prefix_mask_def)
  show ?thesis
    using subnets_spec[OF p lt] block_eq_subnets[OF p lt assms(2)] assms(2)
    by (auto simp: valid_block_iff)
qed

theorem subnets_partition_witness:
  "\<exists>s0 s1. cidr_net_subnets (Some (v4_block 192 168 7 1 [0xff, 0xff, 0xff, 0])) = Inr (s0, s1)
    \<and> {x. in_block x s0} \<inter> {x. in_block x s1} = {}"
proof -
  have "is_ok (cidr_net_subnets (Some (v4_block 192 168 7 1 [0xff, 0xff, 0xff, 0])))" by code_simp
  then obtain s0 s1 where "cidr_net_subnets (Some (v4_block 192 168 7 1 [0xff, 0xff, 0xff, 0])) = Inr (s0, s1)"
    by (auto simp: is_ok_iff)
  then show ?thesis using subnets_partition[OF valid_block_examples(2)] by blast
qed

text \<open>The supernet of a block that is not a /0 is the block one bit shorter: it is
  well formed, its prefix length is one less, and it contains the block.\<close>

theorem supernet_contains:
  assumes "valid_block c" "cidr_get_pflen (Some c) = Inr n" "n \<noteq> 0"
  shows "\<exists>s. cidr_net_supernet (Some c) = Inr s \<and> valid_block s
    \<and> cidr_get_pflen (Some s) = Inr (n - 1) \<and> cidr_contains (Some s) (Some c) = Inr 0"
proof -
  obtain p where p: "wf_cidr c" "prefix_mask c p" "cidr_get_pflen (Some c) = Inr (int (p - base_bit c))"
    using assms(1) by (rule valid_blockE)
  have n: "n = int (p - base_bit c)" using p(3) assms(2) by simp
  have lt: "base_bit c < p" using n assms(3) by simp
  obtain s where s: "cidr_net_supernet (Some c) = Inr s" "wf_cidr s" "c_proto s = c_proto c"
    "prefix_mask s (p - 1)" "\<And>l. l < 128 \<Longrightarrow> getbit (c_addr s) l = (l < p - 1 \<and> getbit (c_addr c) l)"
    using supernet_spec[OF p(1,2) lt] by metis
  have "base_bit s = base_bit c" using s(3) by (simp add: base_bit_def)
  then have pf: "cidr_get_pflen (Some s) = Inr (n - 1)"
    using pflen_iff[OF s(2), of "n - 1"] s(4) n lt by auto
  have "cidr_contains (Some s) (Some c) = Inr 0"
    using contains_bits[OF s(2,4) p(1,2) s(3)] s(5) p(2) by (auto simp: prefix_mask_def)
  then show ?thesis using s pf by (auto simp: valid_block_iff)
qed

theorem supernet_contains_witness:
  "\<exists>s. cidr_net_supernet (Some (v4_block 192 168 7 1 [0xff, 0xff, 0xff, 0])) = Inr s
    \<and> cidr_get_pflen (Some s) = Inr 23"
proof -
  have "cidr_get_pflen (Some (v4_block 192 168 7 1 [0xff, 0xff, 0xff, 0])) = Inr 24" by code_simp
  then show ?thesis using supernet_contains[OF valid_block_examples(2), of 24] by auto
qed

text \<open>The string cidr_numaddr returns for a block is the decimal number of its
  addresses.\<close>

theorem numaddr_is_cardinality:
  assumes "valid_block c"
  shows "\<exists>s. cidr_numaddr (Some c) = Inr s \<and> decimal_value s = int (card {x. in_block x c})"
proof -
  obtain p where p: "wf_cidr c" "prefix_mask c p" using assms by (rule valid_blockE)
  have "cidr_numaddr (Some c) = cidr_numaddr_pflen (int p)"
    unfolding cidr_numaddr_def option.case Let_def pflen_total[OF p] ..
  then show ?thesis using numaddr_value[of p] card_block[OF p] p(2) by (simp add: prefix_mask_def)
qed

theorem numaddr_is_cardinality_witness:
  "\<exists>s. cidr_numaddr (Some (v4_block 192 168 7 1 [0xff, 0xff, 0xff, 0])) = Inr s
    \<and> decimal_value s = int (card {x. in_block x (v4_block 192 168 7 1 [0xff, 0xff, 0xff, 0])})"
  by (rule numaddr_is_cardinality[OF valid_block_examples(2)])

text \<open>A socket address survives the trip through a block, and a well-formed
  IPv4 block survives the trip through a socket address up to its mask.\<close>

theorem inaddr_roundtrip:
  "(\<forall>w. \<exists>c. cidr_from_inaddr (Some w) = Inr c \<and> wf_cidr c \<and> cidr_to_inaddr (Some c) = Inr w)
   \<and> (\<forall>c. wf_cidr c \<and> c_proto c = CIDR_IPV4 \<longrightarrow>
        (\<exists>w d. cidr_to_inaddr (Some c) = Inr w \<and> cidr_from_inaddr (Some w) = Inr d
           \<and> c_addr d = c_addr c \<and> c_proto d = c_proto c))"
proof (intro conjI allI impI)
  fix w
  let ?c = "cidr_alloc\<lparr>c_proto := CIDR_IPV4,
     c_addr := v4_mapped_head @ [octet 3 (htonl w), octet 2 (htonl w), octet 1 (htonl w), octet 0 (htonl w)],
     c_mask := replicate 16 0xff\<rparr>"
  have "cidr_to_inaddr (Some ?c) = Inr w"
    by (subst to_inaddr_eq) (simp_all, simp add: htonl_def)
  moreover have "wf_cidr ?c" by (simp add: wf_cidr_def v4_mapped_head_def)
  ultimately show "\<exists>c. cidr_from_inaddr (Some w) = Inr c \<and> wf_cidr c \<and> cidr_to_inaddr (Some c) = Inr w"
    using from_inaddr_eq by blast
next
  fix c assume c: "wf_cidr c \<and> c_proto c = CIDR_IPV4"
  then obtain a b d e where "c_addr c = v4_mapped_head @ [a, b, d, e]" using wf_v4_addr by blast
  then show "\<exists>w d. cidr_to_inaddr (Some c) = Inr w \<and> cidr_from_inaddr (Some w) = Inr d
           \<and> c_addr d = c_addr c \<and> c_proto d = c_proto c"
    using c to_inaddr_eq[of c a b d e] from_inaddr_eq[of "htonl (join4 a b d e)"] by simp
qed

theorem inaddr_roundtrip_witness:
  "\<exists>w d. cidr_to_inaddr (Some (v4_block 192 168 7 1 [0xff, 0xff, 0xff, 0])) = Inr w
     \<and> cidr_from_inaddr (Some w) = Inr d
     \<and> c_addr d = c_addr (v4_block 192 168 7 1 [0xff, 0xff, 0xff, 0])"
  using inaddr_roundtrip valid_block_examples(2)[unfolded valid_block_iff]
  by (metis cidr.select_convs(4) v4_block_def)

end
