(* ===== verification/Dns.thy ===== *)
theory Dns
  imports SocleBuffer CText Cidr
begin

text \<open>
  The DNS packet code (src/inspect/dns.hpp, src/inspect/dns.cpp): record types,
  the packet classes, the name readers, the request generator, the parser
  \<open>DNS_Packet::load\<close> and the answer accessors.  An out_of_range
  exception in the parser is \<^term>\<open>Inl p\<close> with the packet as far as it was
  filled; the loops carry the counters of the source.  Offsets are natural
  numbers: a packet is far shorter than the range of \<open>unsigned int\<close>.
\<close>

subsection \<open>Record types\<close>

datatype DNS_Record_Type = UNKNOWN | A | NS | CNAME | SOA | TXT | AAAA | OPT

fun record_code :: "DNS_Record_Type \<Rightarrow> 16 word" where
  "record_code UNKNOWN = 0"
| "record_code A = 1"
| "record_code NS = 2"
| "record_code CNAME = 5"
| "record_code SOA = 6"
| "record_code TXT = 16"
| "record_code AAAA = 28"
| "record_code OPT = 41"

definition dns_record_type_str :: "16 word \<Rightarrow> string" where
  "dns_record_type_str a =
     (if a = record_code A then ''A''
      else if a = record_code NS then ''NS''
      else if a = record_code AAAA then ''AAAA''
      else if a = record_code CNAME then ''CNAME''
      else if a = record_code TXT then ''TXT''
      else if a = record_code OPT then ''OPT''
      else if a = record_code SOA then ''SOA''
      else ''unknown'')"

subsection \<open>Packets\<close>

record dns_question =
  rec_str :: string
  rec_type :: "16 word"
  rec_class :: "16 word"

definition empty_question :: dns_question where
  "empty_question = \<lparr>rec_str = [], rec_type = 0, rec_class = 0\<rparr>"

record dns_answer =
  da_qname :: string
  da_name :: "16 word"
  da_type :: "16 word"
  da_class :: "16 word"
  da_ttl :: "32 word"
  da_datalen :: "16 word"
  da_data :: bytes

record dns_packet =
  dp_id :: "16 word"
  dp_flags :: "16 word"
  dp_questions :: "16 word"
  dp_answers :: "16 word"
  dp_authorities :: "16 word"
  dp_additionals :: "16 word"
  dp_questions_list :: "dns_question list"
  dp_answers_list :: "dns_answer list"
  dp_authorities_list :: "dns_answer list"
  dp_additionals_list :: "dns_answer list"
  dp_answer_ttl_idx :: "nat list"
  dp_loaded_at :: int

definition empty_packet :: dns_packet where
  "empty_packet = \<lparr>dp_id = 0, dp_flags = 0, dp_questions = 0, dp_answers = 0, dp_authorities = 0,
     dp_additionals = 0, dp_questions_list = [], dp_answers_list = [], dp_authorities_list = [],
     dp_additionals_list = [], dp_answer_ttl_idx = [], dp_loaded_at = 0\<rparr>"

definition DNS_HEADER_SZ :: nat where "DNS_HEADER_SZ = 12"
definition DNS_REQUEST_OVERHEAD :: nat where "DNS_REQUEST_OVERHEAD = 17"

text \<open>Name constructed at offset \<open>off\<close> of the memory of a packet of size \<open>sz\<close>.\<close>

fun construct_qname :: "(nat \<Rightarrow> byte) \<Rightarrow> nat \<Rightarrow> nat \<Rightarrow> nat \<Rightarrow> string" where
  "construct_qname m sz 0 off = []"
| "construct_qname m sz (Suc loopmax) off =
     (if off \<ge> sz \<or> m off = 0 then []
      else if m off < 0xC0 then
        let part_size = unat (m off);
            remaining_data = int sz - int (off + 1 + part_size);
            (part_size, remaining_data) =
              (if remaining_data < 0 then (sz - (off + 1), 0) else (part_size, remaining_data));
            to_ret = chars (mem_range m (off + 1) part_size)
        in if remaining_data > 0 then
             let ret = construct_qname m sz loopmax (off + 1 + part_size)
             in if ret \<noteq> [] then to_ret @ ''.'' @ ret else to_ret
           else to_ret
      else
        let step_index = unat (m off) - 0xC0;
            data_index = unat (m (off + 1)) + step_index
        in construct_qname m sz loopmax data_index)"

text \<open>Octets up to a zero octet or the limit, and how many there are.\<close>

fun scan_label :: "(nat \<Rightarrow> byte) \<Rightarrow> nat \<Rightarrow> nat \<Rightarrow> nat \<times> bytes" where
  "scan_label m pos 0 = (0, [])"
| "scan_label m pos (Suc n) =
     (if m pos = 0 then (0, [])
      else let (k, lab) = scan_label m (pos + 1) n in (Suc k, m pos # lab))"

definition skip_qname :: "(nat \<Rightarrow> byte) \<Rightarrow> nat \<Rightarrow> nat \<Rightarrow> nat \<times> string" where
  "skip_qname m ptr maxlen =
     (if m ptr = 0 then (1, [])
      else if m ptr < 0xC0 then let (xi, lab) = scan_label m ptr maxlen in (xi + 1, chars lab)
      else (2, []))"

subsection \<open>The parser\<close>

fun read_or_throw :: "'a option \<Rightarrow> 'e \<Rightarrow> ('a \<Rightarrow> 'e + 'b) \<Rightarrow> 'e + 'b" where
  "read_or_throw None e f = Inl e"
| "read_or_throw (Some x) e f = f x"

lemma read_or_throw_cong [fundef_cong]:
  "r = r' \<Longrightarrow> e = e' \<Longrightarrow> (\<And>x. r' = Some x \<Longrightarrow> f x = f' x) \<Longrightarrow> read_or_throw r e f = read_or_throw r' e' f'"
  by (cases r') simp_all

text \<open>The inner loop over the labels of a question: \<open>cur\<close> and \<open>mc\<close> are
  \<open>cur_mem\<close> and \<open>mem_counter\<close>, \<open>togo\<close> the questions left; the result has the
  failure flag last.\<close>

function question_loop ::
  "sbuf \<Rightarrow> nat \<Rightarrow> nat \<Rightarrow> nat \<Rightarrow> dns_question \<Rightarrow> dns_packet \<Rightarrow> dns_packet + (nat \<times> nat \<times> dns_packet \<times> bool)" where
  "question_loop src cur mc togo q p =
     (if cur < sb_size src \<and> togo > 0 then
        read_or_throw (sb_get8 src cur) p (\<lambda>fl.
          let field_len = unat fl in
          if cur + field_len \<ge> sb_size src then Inr (mc, togo, p, True)
          else if field_len = 0 then
            if cur + 5 > sb_size src then Inr (sb_size src, togo, p, True)
            else
              read_or_throw (sb_get16 src (cur + 1)) p (\<lambda>t.
              read_or_throw (sb_get16 src (cur + 1 + 2)) p (\<lambda>c.
                let q = q\<lparr>rec_type := ntohs t, rec_class := ntohs c\<rparr> in
                question_loop src cur (mc + (1 + 2 * 2)) (togo - 1) q
                  (p\<lparr>dp_questions_list := dp_questions_list p @ [q]\<rparr>)))
          else if field_len > sb_size src then Inr (sb_size src, togo, p, True)
          else if cur + 1 \<ge> sb_size src then Inr (sb_size src, togo, p, True)
          else
            let s = (if rec_str q \<noteq> [] then rec_str q @ ''.'' else rec_str q);
                t = chars (mem_range (sb_mem src) (cur + 1) field_len)
            in question_loop src (cur + (field_len + 1)) (mc + (field_len + 1)) togo (q\<lparr>rec_str := s @ t\<rparr>) p)
      else Inr (mc, togo, p, False))"
  by pat_completeness auto
termination
  by (relation "measure (\<lambda>(src, cur, mc, togo, q, p). togo + (sb_size src - cur))") auto

declare question_loop.simps [simp del]

text \<open>An inner loop that does not fail has read all questions or all octets.\<close>

lemma question_loop_done:
  "question_loop src cur mc togo q p = Inr (mc', togo', p', False) \<Longrightarrow> cur \<le> mc \<Longrightarrow>
   togo' = 0 \<or> sb_size src \<le> mc'"
proof (induction src cur mc togo q p rule: question_loop.induct)
  case (1 src cur mc togo q p)
  show ?case
  proof (cases "cur < sb_size src \<and> togo > 0")
    case False
    then show ?thesis using 1(3,4) by (subst (asm) question_loop.simps) auto
  next
    case True
    obtain fl where fl: "sb_get8 src cur = Some fl"
      using 1(3) True by (subst (asm) question_loop.simps) (cases "sb_get8 src cur", auto)
    show ?thesis
    proof (cases "unat fl = 0")
      case z: True
      show ?thesis
        using 1(3) True fl z 1(1)[OF True fl refl] 1(4)
        by (subst (asm) question_loop.simps)
           (cases "sb_get16 src (cur + 1)"; cases "sb_get16 src (cur + 1 + 2)";
            auto simp: Let_def split: if_splits)
    next
      case nz: False
      show ?thesis
        using 1(3) True fl nz 1(2)[OF True fl refl] 1(4)
        by (subst (asm) question_loop.simps) (auto simp: Let_def split: if_splits)
    qed
  qed
qed

function question_section ::
  "sbuf \<Rightarrow> nat \<Rightarrow> nat \<Rightarrow> dns_packet \<Rightarrow> dns_packet + (nat \<times> nat \<times> dns_packet \<times> bool)" where
  "question_section src mc togo p =
     (if mc < sb_size src \<and> togo > 0 then
        (case question_loop src mc mc togo empty_question p of
           Inl p \<Rightarrow> Inl p
         | Inr (mc', togo', p', failure) \<Rightarrow>
             if failure then Inr (mc', togo', p', True) else question_section src mc' togo' p')
      else Inr (mc, togo, p, False))"
  by pat_completeness auto
termination
proof (relation "measure (\<lambda>(src, mc, togo, p). if togo = 0 then 0 else sb_size src - mc)", simp, goal_cases)
  case (1 src mc togo p r mc' rest togo' rest' p' failure)
  then show ?case using question_loop_done[of src mc mc togo empty_question p mc' togo' p'] by auto
qed

declare question_section.simps [simp del]

text \<open>Payload of a record: copied when it lies inside the packet, empty otherwise.\<close>

definition record_data :: "sbuf \<Rightarrow> nat \<Rightarrow> 16 word \<Rightarrow> bytes option" where
  "record_data src off len =
     (if unat len > 0 \<and> off + unat len \<le> sb_size src then sb_view src off (unat len) else Some [])"

function answer_loop ::
  "sbuf \<Rightarrow> nat \<Rightarrow> nat \<Rightarrow> nat \<Rightarrow> dns_packet \<Rightarrow> dns_packet + (nat \<times> nat \<times> dns_packet)" where
  "answer_loop src i mc togo p =
     (if i < sb_size src \<and> togo > 0 then
        let qname = construct_qname (sb_mem src) (sb_size src) 16 mc in
        read_or_throw (sb_get16 src (i + 2)) p (\<lambda>ty.
        read_or_throw (sb_get16 src (i + 4)) p (\<lambda>cl.
        let p = p\<lparr>dp_answer_ttl_idx := dp_answer_ttl_idx p @ [i + 6]\<rparr> in
        read_or_throw (sb_get32 src (i + 6)) p (\<lambda>ttl.
        read_or_throw (sb_get32 src (i + 10)) p (\<lambda>len.
        let datalen = ntohs (ucast len) in
        read_or_throw (record_data src (i + DNS_HEADER_SZ) datalen) p (\<lambda>d.
        let inc = DNS_HEADER_SZ + unat datalen;
            a = \<lparr>da_qname = qname, da_name = 0, da_type = ntohs ty, da_class = ntohs cl,
                 da_ttl = ntohl ttl, da_datalen = datalen, da_data = d\<rparr>
        in answer_loop src (i + inc) (mc + inc) (togo - 1)
             (p\<lparr>dp_answers_list := dp_answers_list p @ [a]\<rparr>))))))
      else Inr (mc, togo, p))"
  by pat_completeness auto
termination
  by (relation "measure (\<lambda>(src, i, mc, togo, p). togo)") auto

declare answer_loop.simps [simp del]

function authority_loop ::
  "sbuf \<Rightarrow> nat \<Rightarrow> nat \<Rightarrow> nat \<Rightarrow> dns_packet \<Rightarrow> dns_packet + (nat \<times> nat \<times> dns_packet \<times> bool)" where
  "authority_loop src i mc togo p =
     (if i < sb_size src \<and> togo > 0 then
        let xi = fst (skip_qname (sb_mem src) i (sb_size src - i)) in
        read_or_throw (sb_get16 src (i + xi)) p (\<lambda>ty.
        let pre_type = ntohs ty; i = i + (xi + 2) in
        if pre_type = record_code SOA \<or> pre_type = record_code NS then
          let qname = construct_qname (sb_mem src) (sb_size src) 16 mc in
          read_or_throw (sb_get16 src i) p (\<lambda>cl.
          read_or_throw (sb_get32 src (i + 2)) p (\<lambda>ttl.
          read_or_throw (sb_get16 src (i + 6)) p (\<lambda>len.
          let datalen = ntohs len in
          read_or_throw (record_data src (i + 8) datalen) p (\<lambda>d.
          let i = i + (8 + unat datalen);
              a = \<lparr>da_qname = qname, da_name = 0, da_type = pre_type, da_class = ntohs cl,
                   da_ttl = ntohl ttl, da_datalen = datalen, da_data = d\<rparr>
          in authority_loop src i i (togo - 1)
               (p\<lparr>dp_authorities_list := dp_authorities_list p @ [a]\<rparr>)))))
        else Inr (sb_size src, togo, p, True))
      else Inr (mc, togo, p, False))"
  by pat_completeness auto
termination
  by (relation "measure (\<lambda>(src, i, mc, togo, p). togo)") auto

declare authority_loop.simps [simp del]

text \<open>The OPT pseudo record of EDNS0 is read and dropped; its length field is checked
  against the packet, and a record that leaves the packet ends the loop.\<close>

definition read_opt :: "sbuf \<Rightarrow> nat \<Rightarrow> dns_packet \<Rightarrow> dns_packet + (nat \<times> bool)" where
  "read_opt src i p =
     read_or_throw (sb_get16 src i) p (\<lambda>udp_size. let i = i + 2 in
     read_or_throw (sb_get8 src i) p (\<lambda>rcode. let i = i + 1 in
     read_or_throw (sb_get8 src i) p (\<lambda>version. let i = i + 1 in
     read_or_throw (sb_get16 src i) p (\<lambda>z. let i = i + 2 in
     read_or_throw (sb_get16 src i) p (\<lambda>len. let i = i + 2; datalen = unat (ntohs len) in
     if i + datalen \<le> sb_size src then
       if datalen > 0 then
         read_or_throw (sb_view src i datalen) p (\<lambda>_.
         read_or_throw (sb_get16 src (i + 2)) p (\<lambda>_.
         read_or_throw (sb_get16 src (i + 4)) p (\<lambda>_. Inr (i + datalen, True))))
       else Inr (i, True)
     else Inr (sb_size src, False))))))"

function additional_loop ::
  "sbuf \<Rightarrow> nat \<Rightarrow> nat \<Rightarrow> nat \<Rightarrow> dns_packet \<Rightarrow> dns_packet + (nat \<times> nat \<times> dns_packet \<times> bool)" where
  "additional_loop src i mc togo p =
     (if i < sb_size src \<and> togo > 0 then
        let xi = fst (skip_qname (sb_mem src) i (sb_size src - i)) in
        read_or_throw (sb_get16 src (i + xi)) p (\<lambda>ty.
        let pre_type = ntohs ty; i = i + (xi + 2) in
        if pre_type = record_code OPT then
          (case read_opt src i p of
             Inl p \<Rightarrow> Inl p
           | Inr (i', taken) \<Rightarrow>
               if taken then additional_loop src i' i' (togo - 1) p
               else Inr (i', togo, p, False))
        else if pre_type = record_code A \<or> pre_type = record_code AAAA \<or> pre_type = record_code TXT then
          let qname = construct_qname (sb_mem src) (sb_size src) 16 mc in
          read_or_throw (sb_get16 src i) p (\<lambda>cl. let i = i + 2;
              p = p\<lparr>dp_answer_ttl_idx := dp_answer_ttl_idx p @ [i]\<rparr> in
          read_or_throw (sb_get32 src i) p (\<lambda>ttl. let i = i + 4 in
          read_or_throw (sb_get16 src i) p (\<lambda>len. let i = i + 2; datalen = ntohs len in
          read_or_throw (record_data src i datalen) p (\<lambda>d.
          let i = (if unat datalen > 0 \<and> i + unat datalen \<le> sb_size src then i + unat datalen else i);
              a = \<lparr>da_qname = qname, da_name = 0, da_type = pre_type, da_class = ntohs cl,
                   da_ttl = ntohl ttl, da_datalen = datalen, da_data = d\<rparr>
          in additional_loop src i i (togo - 1)
               (p\<lparr>dp_additionals_list := dp_additionals_list p @ [a]\<rparr>)))))
        else Inr (sb_size src, togo, p, True))
      else Inr (mc, togo, p, False))"
  by pat_completeness auto
termination
  by (relation "measure (\<lambda>(src, i, mc, togo, p). togo)") auto

declare additional_loop.simps [simp del]

text \<open>The sections in order, each skipped after a failure or when its count is 0.\<close>

definition load_questions :: "sbuf \<Rightarrow> dns_packet \<Rightarrow> dns_packet + (nat \<times> nat \<times> dns_packet \<times> bool)" where
  "load_questions src p =
     (if dp_questions p > 0 then question_section src DNS_HEADER_SZ (unat (dp_questions p)) p
      else Inr (DNS_HEADER_SZ, 0, p, False))"

definition load_answers :: "sbuf \<Rightarrow> nat \<Rightarrow> bool \<Rightarrow> dns_packet \<Rightarrow> dns_packet + (nat \<times> nat \<times> dns_packet)" where
  "load_answers src mc failure p =
     (if \<not> failure \<and> dp_answers p > 0 then answer_loop src mc mc (unat (dp_answers p)) p
      else Inr (mc, unat (dp_answers p), p))"

definition load_authorities :: "sbuf \<Rightarrow> nat \<Rightarrow> bool \<Rightarrow> dns_packet \<Rightarrow> dns_packet + (nat \<times> nat \<times> dns_packet \<times> bool)" where
  "load_authorities src mc failure p =
     (if \<not> failure \<and> dp_authorities p > 0 then authority_loop src mc mc (unat (dp_authorities p)) p
      else Inr (mc, unat (dp_authorities p), p, failure))"

definition load_additionals :: "sbuf \<Rightarrow> nat \<Rightarrow> bool \<Rightarrow> dns_packet \<Rightarrow> dns_packet + (nat \<times> dns_packet)" where
  "load_additionals src mc failure p =
     (if \<not> failure \<and> dp_additionals p > 0 then
        (case additional_loop src mc mc (unat (dp_additionals p)) p of
           Inl p \<Rightarrow> Inl p
         | Inr (mc, _, p, _) \<Rightarrow>
             Inr (mc, p\<lparr>dp_additionals := of_nat (length (dp_additionals_list p))\<rparr>))
      else Inr (mc, p))"

definition load_header :: "sbuf \<Rightarrow> dns_packet \<Rightarrow> dns_packet + dns_packet" where
  "load_header src p =
     read_or_throw (sb_get16 src 0) p (\<lambda>w. let p = p\<lparr>dp_id := ntohs w\<rparr> in
     read_or_throw (sb_get16 src 2) p (\<lambda>w. let p = p\<lparr>dp_flags := ntohs w\<rparr> in
     read_or_throw (sb_get16 src 4) p (\<lambda>w. let p = p\<lparr>dp_questions := ntohs w\<rparr> in
     read_or_throw (sb_get16 src 6) p (\<lambda>w. let p = p\<lparr>dp_answers := ntohs w\<rparr> in
     read_or_throw (sb_get16 src 8) p (\<lambda>w. let p = p\<lparr>dp_authorities := ntohs w\<rparr> in
     read_or_throw (sb_get16 src 10) p (\<lambda>w. Inr (p\<lparr>dp_additionals := ntohs w\<rparr>)))))))"

definition load_sections :: "sbuf \<Rightarrow> dns_packet \<Rightarrow> dns_packet + (dns_packet \<times> nat option)" where
  "load_sections src p =
     result_bind (load_questions src p) (\<lambda>(mc, questions_togo, p, failure).
     result_bind (load_answers src mc failure p) (\<lambda>(mc, answers_togo, p).
     result_bind (load_authorities src mc failure p) (\<lambda>(mc, authorities_togo, p, failure).
     result_bind (load_additionals src mc failure p) (\<lambda>(mc, p).
       Inr (p, if questions_togo = 0 \<and> answers_togo = 0 \<and> authorities_togo = 0 then Some mc else None)))))"

text \<open>\<open>DNS_Packet::load\<close> at time \<open>now\<close>: the packet after it and its return value.\<close>

definition load :: "int \<Rightarrow> sbuf \<Rightarrow> dns_packet \<Rightarrow> dns_packet \<times> nat option" where
  "load now src p =
     (let p = p\<lparr>dp_loaded_at := now\<rparr> in
      if sb_size src > DNS_HEADER_SZ then
        (case result_bind (load_header src p) (load_sections src) of
           Inl p \<Rightarrow> (p, None)
         | Inr (p, r) \<Rightarrow> (p, r))
      else (p, None))"

subsection \<open>Accessors\<close>

definition question_type_0 :: "dns_packet \<Rightarrow> 16 word" where
  "question_type_0 p = (if dp_questions_list p \<noteq> [] then rec_type (dp_questions_list p ! 0) else 0)"

definition question_class_0 :: "dns_packet \<Rightarrow> 16 word" where
  "question_class_0 p = (if dp_questions_list p \<noteq> [] then rec_class (dp_questions_list p ! 0) else 0)"

text \<open>The name is formatted as a C string and ends at its first zero character.\<close>

definition question_str_0 :: "dns_packet \<Rightarrow> string" where
  "question_str_0 p =
     (if dp_questions_list p \<noteq> []
      then dns_record_type_str (question_type_0 p) @ '':'' @ c_str (rec_str (dp_questions_list p ! 0))
      else ''? '')"

text \<open>The block of an address record; a null pointer when the payload has the wrong size.\<close>

definition answer_cidr :: "dns_answer \<Rightarrow> cidr option" where
  "answer_cidr a =
     (if da_type a = record_code A \<and> length (da_data a) = 4 then
        (case cidr_from_inaddr (Some (join4 (da_data a ! 3) (da_data a ! 2) (da_data a ! 1) (da_data a ! 0))) of
           Inl _ \<Rightarrow> None | Inr c \<Rightarrow> Some c)
      else if da_type a = record_code AAAA \<and> length (da_data a) = 16 then
        (case cidr_from_in6addr (Some (da_data a)) of Inl _ \<Rightarrow> None | Inr c \<Rightarrow> Some c)
      else None)"

definition get_a_anwsers :: "dns_packet \<Rightarrow> cidr option list" where
  "get_a_anwsers p =
     map answer_cidr (filter (\<lambda>x. da_type x = record_code A \<or> da_type x = record_code AAAA) (dp_answers_list p))"

definition get_ttl :: "dns_packet \<Rightarrow> int option" where
  "get_ttl p = (if dp_answers_list p \<noteq> [] then Some (uint (da_ttl (dp_answers_list p ! 0))) else None)"

definition current_ttl :: "int \<Rightarrow> dns_packet \<Rightarrow> int option" where
  "current_ttl now p = map_option (\<lambda>ttl. dp_loaded_at p + ttl - now) (get_ttl p)"

subsection \<open>The request generator\<close>

text \<open>The writing side of the socle buffer: \<open>size(n)\<close> and \<open>set_at<uint16_t>\<close> are
  parameters; raw stores through \<open>data()\<close> are list updates.\<close>

record wbuf =
  wb_resize :: "bytes \<Rightarrow> nat \<Rightarrow> bytes"
  wb_set16 :: "bytes \<Rightarrow> nat \<Rightarrow> 16 word \<Rightarrow> bytes"

definition store16 :: "bytes \<Rightarrow> nat \<Rightarrow> 16 word \<Rightarrow> bytes" where
  "store16 b i w = b[i := lo8 w, i + 1 := hi8 w]"

definition wbuf_ok :: "wbuf \<Rightarrow> bool" where
  "wbuf_ok w \<longleftrightarrow> (\<forall>b n. length (wb_resize w b n) = n)
     \<and> (\<forall>b i v. i + 2 \<le> length b \<longrightarrow> wb_set16 w b i v = store16 b i v)"

fun query_loop :: "string \<Rightarrow> nat \<Rightarrow> nat \<Rightarrow> byte \<Rightarrow> bytes \<Rightarrow> nat \<times> byte \<times> bytes" where
  "query_loop [] i len_ptr piece_sz b = (len_ptr, piece_sz, b)"
| "query_loop (c # cs) i len_ptr piece_sz b =
     (if c = CHR ''.'' then query_loop cs (i + 1) (12 + i) 0 (b[len_ptr := piece_sz])
      else query_loop cs (i + 1) len_ptr (piece_sz + 1) (b[12 + i := ord c]))"

definition generate_dns_request ::
  "wbuf \<Rightarrow> 16 word \<Rightarrow> bytes \<Rightarrow> string \<Rightarrow> 16 word \<Rightarrow> bytes \<times> nat" where
  "generate_dns_request w ident b h t =
     (let hostname = ''.'' @ h;
          b = wb_resize w b (length hostname + DNS_REQUEST_OVERHEAD);
          b = wb_set16 w b 0 (htons ident);
          b = wb_set16 w b 2 (htons 0x0100);
          b = wb_set16 w b 4 (htons 1);
          b = wb_set16 w b 6 0;
          b = wb_set16 w b 8 0;
          b = wb_set16 w b 10 0;
          (len_ptr, piece_sz, b) = query_loop hostname 0 12 0 b;
          b = b[len_ptr := piece_sz];
          trailer = 12 + length hostname;
          b = b[trailer := 0];
          b = store16 b (trailer + 1) (htons t);
          b = store16 b (trailer + 3) (htons 1)
      in (b, length b))"

section \<open>The generated packet\<close>

definition write_at :: "bytes \<Rightarrow> nat \<Rightarrow> bytes \<Rightarrow> bytes" where
  "write_at b i xs = take i b @ xs @ drop (i + length xs) b"

lemma length_write_at [simp]: "i + length xs \<le> length b \<Longrightarrow> length (write_at b i xs) = length b"
  by (simp add: write_at_def)

lemma nth_write_at:
  assumes "i + length xs \<le> length b" "k < length b"
  shows "write_at b i xs ! k = (if i \<le> k \<and> k < i + length xs then xs ! (k - i) else b ! k)"
  using assms by (auto simp: write_at_def nth_append min_def)

lemma write_at_Nil [simp]: "write_at b i [] = b"
  by (simp add: write_at_def)

lemma write_at_Cons:
  assumes "i + Suc (length xs) \<le> length b"
  shows "write_at (b[i := x]) (Suc i) xs = write_at b i (x # xs)"
  using assms by (intro nth_equalityI) (auto simp: nth_write_at nth_list_update nth_Cons')

lemma write_at_update_before:
  assumes "k < i" "i + length xs \<le> length b"
  shows "(write_at b i xs)[k := v] = write_at (b[k := v]) i xs"
  using assms by (intro nth_equalityI) (auto simp: nth_write_at nth_list_update)

lemma write_at_append:
  assumes "i + length xs + length ys \<le> length b"
  shows "write_at (write_at b i xs) (i + length xs) ys = write_at b i (xs @ ys)"
  using assms by (intro nth_equalityI) (auto simp: nth_write_at nth_append)

fun enc_label :: "string \<Rightarrow> bytes" where
  "enc_label l = of_nat (length l) # map ord l"

definition enc_name :: "string list \<Rightarrow> bytes" where
  "enc_name ls = concat (map enc_label ls)"

definition dotted :: "string list \<Rightarrow> string" where
  "dotted ls = concat (map (\<lambda>l. CHR ''.'' # l) ls)"

lemma length_enc_name: "length (enc_name ls) = length (dotted ls)"
  by (induction ls) (simp_all add: enc_name_def dotted_def)

lemma query_loop_label:
  assumes "CHR ''.'' \<notin> set l" "12 + i + length l \<le> length b"
  shows "query_loop (l @ cs) i lp ps b
       = query_loop cs (i + length l) lp (ps + of_nat (length l)) (write_at b (12 + i) (map ord l))"
  using assms
proof (induction l arbitrary: i ps b)
  case (Cons c l)
  then show ?case using write_at_Cons[of "12 + i" "map ord l" b "ord c"] by (auto simp: add.assoc)
qed simp

text \<open>The loop with its final store, over a dotted name, writes the encoded labels.\<close>

lemma query_loop_dotted:
  assumes "\<forall>l\<in>set ls. CHR ''.'' \<notin> set l" "12 + i + length (dotted ls) \<le> length b"
    and "query_loop (dotted ls) i lp ps b = (lp', ps', b')"
  shows "b'[lp' := ps'] = write_at (b[lp := ps]) (12 + i) (enc_name ls)"
  using assms
proof (induction ls arbitrary: i lp ps b)
  case Nil
  then show ?case by (simp add: dotted_def enc_name_def)
next
  case (Cons l ls)
  let ?b1 = "b[lp := ps]"
  let ?b2 = "write_at ?b1 (12 + (i + 1)) (map ord l)"
  have d: "dotted (l # ls) = CHR ''.'' # l @ dotted ls" by (simp add: dotted_def)
  have len: "12 + (i + 1) + length l + length (dotted ls) \<le> length b"
    using Cons.prems(2) by (simp add: d)
  have "query_loop (dotted ls) (i + 1 + length l) (12 + i) (0 + of_nat (length l)) ?b2 = (lp', ps', b')"
    using Cons.prems(3) query_loop_label[of l "i + 1" ?b1 "dotted ls" "12 + i" 0] Cons.prems(1) len
    by (simp add: d)
  then have "b'[lp' := ps'] = write_at (?b2[12 + i := of_nat (length l)]) (12 + (i + 1 + length l)) (enc_name ls)"
    using Cons.IH[of "i + 1 + length l" ?b2 "12 + i" "of_nat (length l)"] Cons.prems(1) len by simp
  also have "?b2[12 + i := of_nat (length l)] = write_at ?b1 (12 + i) (enc_label l)"
    using write_at_update_before[of "12 + i" "12 + (i + 1)" "map ord l" ?b1 "of_nat (length l)"]
      write_at_Cons[of "12 + i" "map ord l" ?b1 "of_nat (length l)"] len by simp
  also have "write_at (write_at ?b1 (12 + i) (enc_label l)) (12 + (i + 1 + length l)) (enc_name ls)
      = write_at ?b1 (12 + i) (enc_label l @ enc_name ls)"
    using write_at_append[of "12 + i" "enc_label l" "enc_name ls" ?b1] len
    by (simp add: length_enc_name add.assoc)
  finally show ?case by (simp add: enc_name_def)
qed

text \<open>The whole packet of a request: header, encoded name, root label, type, class IN.\<close>

definition request_bytes :: "16 word \<Rightarrow> string list \<Rightarrow> 16 word \<Rightarrow> bytes" where
  "request_bytes ident ls t = [hi8 ident, lo8 ident, 1, 0, 0, 1, 0, 0, 0, 0, 0, 0]
     @ enc_name ls @ [0, hi8 t, lo8 t, 0, 1]"

fun join_dots :: "string list \<Rightarrow> string" where
  "join_dots [] = []"
| "join_dots [l] = l"
| "join_dots (l # l' # ls) = l @ ''.'' @ join_dots (l' # ls)"

lemma dotted_join: "ls \<noteq> [] \<Longrightarrow> dotted ls = ''.'' @ join_dots ls"
  by (induction ls rule: join_dots.induct) (simp_all add: dotted_def)

lemma hi8_htons [simp]: "hi8 (htons w) = lo8 w" "lo8 (htons w) = hi8 w"
  by (simp_all add: htons_def ntohs_eq)

lemma store16_eq_write:
  assumes "i + 2 \<le> length b"
  shows "store16 b i w = write_at b i [lo8 w, hi8 w]"
proof -
  have "write_at b i [lo8 w, hi8 w] = b[i := lo8 w, Suc i := hi8 w]"
    using assms write_at_Cons[of i "[hi8 w]" b "lo8 w"] write_at_Cons[of "Suc i" "[]" "b[i := lo8 w]" "hi8 w"]
    by simp
  then show ?thesis by (simp add: store16_def)
qed

text \<open>A known prefix extended by a write at its end.\<close>

definition known :: "bytes \<Rightarrow> nat \<Rightarrow> bytes \<Rightarrow> bool" where
  "known b n pre \<longleftrightarrow> length b = n \<and> take (length pre) b = pre"

lemma known_write:
  assumes "known b n pre" "i = length pre" "i + length xs \<le> n"
  shows "known (write_at b i xs) n (pre @ xs)"
  using assms by (simp add: known_def write_at_def)

lemma known_store16:
  assumes "known b n pre" "i = length pre" "i + 2 \<le> n"
  shows "known (store16 b i w) n (pre @ [lo8 w, hi8 w])"
  using known_write[OF assms(1,2), of "[lo8 w, hi8 w]"] assms store16_eq_write[of i b w]
  by (simp add: known_def)

lemma known_set16:
  assumes "wbuf_ok w" "known b n pre" "i = length pre" "i + 2 \<le> n"
  shows "known (wb_set16 w b i v) n (pre @ [lo8 v, hi8 v])"
  using known_store16[OF assms(2-4), of v] assms by (simp add: wbuf_ok_def known_def)

lemma known_update:
  assumes "known b n pre" "i = length pre" "i < n"
  shows "known (b[i := x]) n (pre @ [x])"
  using known_write[OF assms(1,2), of "[x]"] assms write_at_Cons[of i "[]" b x] by (simp add: known_def)

lemma known_full: "known b n bs \<Longrightarrow> length bs = n \<Longrightarrow> b = bs"
  by (auto simp: known_def)

lemma generate_bytes:
  assumes w: "wbuf_ok w" and ls: "ls \<noteq> []" "\<forall>l\<in>set ls. CHR ''.'' \<notin> set l"
  shows "generate_dns_request w ident b (join_dots ls) t
       = (request_bytes ident ls t, length (request_bytes ident ls t))"
proof -
  define n where "n = length (dotted ls) + 17"
  define b0 where "b0 = wb_resize w b n"
  define b6 where "b6 = wb_set16 w (wb_set16 w (wb_set16 w (wb_set16 w (wb_set16 w (wb_set16 w b0
      0 (htons ident)) 2 (htons 0x0100)) 4 (htons 1)) 6 0) 8 0) 10 0"
  have c: "hi8 0x100 = 1" "lo8 0x100 = 0" "hi8 1 = 0" "lo8 1 = 1" "hi8 0 = 0" "lo8 0 = 0" by code_simp+
  have k0: "known b0 n []" using w by (simp add: b0_def known_def wbuf_ok_def)
  note k1 = known_set16[OF w k0, of 0 "htons ident"]
  note k2 = known_set16[OF w k1, of 2 "htons 0x0100"]
  note k3 = known_set16[OF w k2, of 4 "htons 1"]
  note k4 = known_set16[OF w k3, of 6 0]
  note k5 = known_set16[OF w k4, of 8 0]
  note k6 = known_set16[OF w k5, of 10 0]
  let ?hdr = "[hi8 ident, lo8 ident, 1, 0, 0, 1, 0, 0, 0, 0, 0, 0]"
  have k6': "known b6 n ?hdr" unfolding b6_def using k6 by (simp add: n_def c)
  obtain lp ps b7 where q: "query_loop (dotted ls) 0 12 0 b6 = (lp, ps, b7)" by (metis prod_cases3)
  have b6: "length b6 = n" "12 + 0 + length (dotted ls) \<le> length b6"
    using k6' by (simp_all add: known_def n_def)
  have b8: "b7[lp := ps] = write_at (b6[12 := 0]) 12 (enc_name ls)"
    using query_loop_dotted[OF ls(2) b6(2) q] by simp
  have "known (b6[12 := 0]) n ?hdr" using k6' by (simp add: known_def take_update_swap[of 12])
  from known_write[OF this, of 12 "enc_name ls"]
  have k8: "known (b7[lp := ps]) n (?hdr @ enc_name ls)"
    unfolding b8 by (simp add: length_enc_name n_def)
  let ?tr = "12 + length (dotted ls)"
  note k9 = known_update[OF k8, of ?tr 0]
  note k10 = known_store16[OF k9, of "?tr + 1" "htons t"]
  note k11 = known_store16[OF k10, of "?tr + 3" "htons 1"]
  have "known (store16 (store16 ((b7[lp := ps])[?tr := 0]) (?tr + 1) (htons t)) (?tr + 3) (htons 1)) n
      (request_bytes ident ls t)"
    using k11 by (simp add: length_enc_name n_def c request_bytes_def)
  then have fin: "store16 (store16 ((b7[lp := ps])[?tr := 0]) (?tr + 1) (htons t)) (?tr + 3) (htons 1)
      = request_bytes ident ls t"
    by (rule known_full) (simp add: request_bytes_def length_enc_name n_def)
  have hn: "''.'' @ join_dots ls = dotted ls" using dotted_join[OF ls(1)] by simp
  have "generate_dns_request w ident b (join_dots ls) t
      = (let (lp, ps, b7) = query_loop (dotted ls) 0 12 0 b6;
             b = store16 (store16 ((b7[lp := ps])[?tr := 0]) (?tr + 1) (htons t)) (?tr + 3) (htons 1)
         in (b, length b))"
    unfolding generate_dns_request_def hn Let_def b6_def b0_def n_def DNS_REQUEST_OVERHEAD_def ..
  then show ?thesis by (simp only: q fin prod.case Let_def)
qed

section \<open>Parsing\<close>

text \<open>A buffer that holds given octets.\<close>

definition holds :: "sbuf \<Rightarrow> bytes \<Rightarrow> bool" where
  "holds src bs \<longleftrightarrow> buffer_ok src \<and> sb_size src = length bs \<and> (\<forall>i<length bs. sb_mem src i = bs ! i)"

lemma holds_buffer_of [simp]: "holds (buffer_of bs) bs"
  by (simp add: holds_def list_mem_def)

lemma holds_range:
  assumes "holds src bs" "off + n \<le> length bs"
  shows "mem_range (sb_mem src) off n = take n (drop off bs)"
  using assms by (intro nth_equalityI) (auto simp: mem_range_nth holds_def)

lemma holds_get:
  assumes "holds src bs"
  shows "i < length bs \<Longrightarrow> sb_get8 src i = Some (bs ! i)"
    and "i + 1 < length bs \<Longrightarrow> sb_get16 src i = Some (be16 (bs ! (i + 1)) (bs ! i))"
  using assms buffer_ok_get[of src] by (simp_all add: holds_def)

definition append_label :: "dns_question \<Rightarrow> string \<Rightarrow> dns_question" where
  "append_label q l = q\<lparr>rec_str := (if rec_str q \<noteq> [] then rec_str q @ ''.'' else rec_str q) @ l\<rparr>"

text \<open>The three steps of the label loop on octets that are present.\<close>

lemma question_loop_stop:
  "\<not> (cur < sb_size src \<and> togo > 0) \<Longrightarrow> question_loop src cur mc togo q p = Inr (mc, togo, p, False)"
  by (subst question_loop.simps) (erule if_not_P)

lemma question_loop_end:
  assumes "holds src bs" "cur + 5 \<le> length bs" "bs ! cur = 0" "togo > 0"
  shows "question_loop src cur mc togo q p =
    (let q' = q\<lparr>rec_type := be16 (bs ! (cur + 1)) (bs ! (cur + 2)), rec_class := be16 (bs ! (cur + 3)) (bs ! (cur + 4))\<rparr>
     in question_loop src cur (mc + 5) (togo - 1) q' (p\<lparr>dp_questions_list := dp_questions_list p @ [q']\<rparr>))"
proof -
  have "sb_get16 src (cur + 1) = Some (be16 (bs ! (cur + 2)) (bs ! (cur + 1)))"
       "sb_get16 src (cur + 1 + 2) = Some (be16 (bs ! (cur + 4)) (bs ! (cur + 3)))"
    using holds_get(2)[OF assms(1), of "cur + 1"] holds_get(2)[OF assms(1), of "cur + 1 + 2"] assms(2)
    by (simp_all add: numeral_eq_Suc)
  then show ?thesis using assms holds_get(1)[OF assms(1), of cur]
    by (subst question_loop.simps) (simp add: holds_def Let_def)
qed

lemma question_loop_label:
  assumes "holds src bs" "bs ! cur = of_nat (length l)" "0 < length l" "length l < 256"
    and "cur + length l + 1 < length bs" "take (length l) (drop (cur + 1) bs) = map ord l" "togo > 0"
  shows "question_loop src cur mc togo q p
       = question_loop src (cur + (length l + 1)) (mc + (length l + 1)) togo (append_label q l) p"
proof -
  have fl: "unat (of_nat (length l) :: byte) = length l"
    using assms(4) by (simp add: unsigned_of_nat take_bit_nat_eq_self)
  have "chars (mem_range (sb_mem src) (cur + 1) (length l)) = l"
    using holds_range[OF assms(1), of "cur + 1" "length l"] assms(5,6) by simp
  then show ?thesis using assms holds_get(1)[OF assms(1), of cur] fl
    by (subst question_loop.simps) (simp add: holds_def Let_def append_label_def)
qed

lemma question_loop_name:
  assumes "holds src bs" "drop cur bs = enc_name ls @ [0, a, b, c, d] @ rest"
    and "\<forall>l\<in>set ls. l \<noteq> [] \<and> length l < 256"
  shows "question_loop src cur mc 1 q p =
    Inr (mc + length (enc_name ls) + 5, 0,
      p\<lparr>dp_questions_list := dp_questions_list p @
          [(foldl append_label q ls)\<lparr>rec_type := be16 a b, rec_class := be16 c d\<rparr>]\<rparr>, False)"
  using assms(2,3)
proof (induction ls arbitrary: cur mc q)
  case Nil
  have dr: "drop cur bs = [0, a, b, c, d] @ rest" using Nil by (simp add: enc_name_def)
  have le: "cur + 5 \<le> length bs" using arg_cong[OF dr, of length] by simp
  have nth: "bs ! (cur + k) = (drop cur bs) ! k" for k using le by simp
  have "bs ! cur = 0" "bs ! (cur + 1) = a" "bs ! (cur + 2) = b" "bs ! (cur + 3) = c" "bs ! (cur + 4) = d"
    using nth[of 0] nth[of 1] nth[of 2] nth[of 3] nth[of 4] by (simp_all add: dr)
  then show ?case using question_loop_end[OF assms(1) le, of 1] question_loop_stop
    by (simp add: enc_name_def Let_def)
next
  case (Cons l ls)
  have dr: "drop cur bs = of_nat (length l) # map ord l @ enc_name ls @ [0, a, b, c, d] @ rest"
    using Cons.prems(1) by (simp add: enc_name_def)
  have le: "cur + length l + 1 < length bs" using arg_cong[OF dr, of length] by simp
  have hd: "bs ! cur = of_nat (length l)" using arg_cong[OF dr, of "\<lambda>x. x ! 0"] le by simp
  have dr1: "drop (cur + 1) bs = map ord l @ enc_name ls @ [0, a, b, c, d] @ rest"
    using arg_cong[OF dr, of "drop 1"] by (simp add: add.commute)
  have dr2: "drop (cur + (length l + 1)) bs = enc_name ls @ [0, a, b, c, d] @ rest"
    using arg_cong[OF dr, of "drop (length l + 1)"] by (simp add: add.commute)
  have "take (length l) (drop (cur + 1) bs) = map ord l" unfolding dr1 by simp
  then have "question_loop src cur mc 1 q p
      = question_loop src (cur + (length l + 1)) (mc + (length l + 1)) 1 (append_label q l) p"
    using question_loop_label[OF assms(1) hd _ _ le] Cons.prems(2) by simp
  then show ?case using Cons.IH[OF dr2] Cons.prems(2) by (simp add: enc_name_def add.assoc add.commute)
qed

lemma foldl_append_label:
  "\<forall>l\<in>set ls. l \<noteq> [] \<Longrightarrow> rec_str q = [] \<Longrightarrow> rec_str (foldl append_label q ls) = join_dots ls"
proof -
  assume ls: "\<forall>l\<in>set ls. l \<noteq> []" and q: "rec_str q = []"
  have step: "rec_str (foldl append_label r ks) = rec_str r @ dotted ks"
    if "rec_str r \<noteq> []" for r ks
    using that by (induction ks arbitrary: r) (simp_all add: append_label_def dotted_def)
  show ?thesis
  proof (cases ls)
    case (Cons l ks)
    have r: "rec_str (append_label q l) = l" using q by (simp add: append_label_def)
    have "l @ dotted ks = join_dots (l # ks)"
      using dotted_join[of "l # ks"] by (simp add: dotted_def)
    then show ?thesis using step[of "append_label q l" ks] r ls Cons by simp
  qed (simp add: q)
qed

lemma load_header_eq:
  assumes "holds src bs" "12 \<le> length bs"
  shows "load_header src p = Inr (p\<lparr>dp_id := be16 (bs ! 0) (bs ! 1), dp_flags := be16 (bs ! 2) (bs ! 3),
     dp_questions := be16 (bs ! 4) (bs ! 5), dp_answers := be16 (bs ! 6) (bs ! 7),
     dp_authorities := be16 (bs ! 8) (bs ! 9), dp_additionals := be16 (bs ! 10) (bs ! 11)\<rparr>)"
proof -
  have "sb_get16 src i = Some (be16 (bs ! (i + 1)) (bs ! i))" if "i \<le> 10" for i
    using holds_get(2)[OF assms(1), of i] that assms(2) by simp
  note g = this[of 0] this[of 2] this[of 4] this[of 6] this[of 8] this[of 10]
  show ?thesis unfolding load_header_def using g by (simp add: Let_def)
qed

lemma question_section_once:
  assumes "mc < sb_size src" "togo > 0"
    and "question_loop src mc mc togo empty_question p = Inr (mc', 0, p', False)"
  shows "question_section src mc togo p = Inr (mc', 0, p', False)"
proof -
  have "question_section src mc' 0 p' = Inr (mc', 0, p', False)"
    by (subst question_section.simps) simp
  then show ?thesis using assms by (subst question_section.simps) simp
qed

text \<open>The packet a request parses to.\<close>

definition request_packet :: "int \<Rightarrow> 16 word \<Rightarrow> string list \<Rightarrow> 16 word \<Rightarrow> dns_packet" where
  "request_packet now ident ls t = empty_packet\<lparr>dp_loaded_at := now, dp_id := ident, dp_flags := 0x0100,
     dp_questions := 1, dp_questions_list := [\<lparr>rec_str = join_dots ls, rec_type = t, rec_class = 1\<rparr>]\<rparr>"

lemma load_request:
  assumes src: "holds src (request_bytes ident ls t)" and ls: "\<forall>l\<in>set ls. l \<noteq> [] \<and> length l < 256"
  shows "load now src empty_packet = (request_packet now ident ls t, Some (sb_size src))"
proof -
  let ?bs = "request_bytes ident ls t"
  have c: "be16 0 0 = 0" "be16 0 1 = 1" "be16 1 0 = 0x100" by code_simp+
  have size: "sb_size src = length ?bs" "12 < length ?bs" "length ?bs = 12 + length (enc_name ls) + 5"
    using src by (simp_all add: holds_def request_bytes_def)
  let ?p0 = "empty_packet\<lparr>dp_loaded_at := now, dp_id := ident, dp_flags := 0x0100, dp_questions := 1\<rparr>"
  have hdr: "load_header src (empty_packet\<lparr>dp_loaded_at := now\<rparr>) = Inr ?p0"
    using load_header_eq[OF src, of "empty_packet\<lparr>dp_loaded_at := now\<rparr>"] size(2)
    by (simp add: request_bytes_def c empty_packet_def)
  have dr: "drop 12 ?bs = enc_name ls @ [0, hi8 t, lo8 t, 0, 1] @ []" by (simp add: request_bytes_def)
  have q: "foldl append_label empty_question ls \<lparr>rec_type := t, rec_class := 1\<rparr>
      = \<lparr>rec_str = join_dots ls, rec_type = t, rec_class = 1\<rparr>"
    using foldl_append_label[of ls empty_question] ls by (simp add: empty_question_def)
  have "question_loop src 12 12 1 empty_question ?p0
      = Inr (length ?bs, 0, request_packet now ident ls t, False)"
    using question_loop_name[OF src dr ls, of 12 empty_question ?p0] size(3)
    by (simp add: c q request_packet_def empty_packet_def)
  then have "load_questions src ?p0 = Inr (length ?bs, 0, request_packet now ident ls t, False)"
    using question_section_once[of 12 src 1 ?p0] size
    by (simp add: load_questions_def DNS_HEADER_SZ_def)
  then have "load_sections src ?p0 = Inr (request_packet now ident ls t, Some (length ?bs))"
    by (simp add: load_sections_def load_answers_def load_authorities_def load_additionals_def
        request_packet_def empty_packet_def)
  then show ?thesis using size(1,2) hdr by (simp add: load_def Let_def DNS_HEADER_SZ_def)
qed

text \<open>C36: The packet that generate_dns_request writes for a host name of non-empty labels,
  whatever the buffer held before, is parsed by DNS_Packet::load into exactly one question
  with that name, the requested type and class IN, and load consumes every octet.\<close>

theorem dns_request_roundtrip:
  assumes "wbuf_ok w" "ls \<noteq> []" "\<forall>l\<in>set ls. l \<noteq> [] \<and> length l < 256 \<and> CHR ''.'' \<notin> set l"
    and "generate_dns_request w ident b (join_dots ls) t = (out, n)" "holds src out"
  shows "n = length out \<and> load now src empty_packet = (request_packet now ident ls t, Some n)"
proof -
  have "out = request_bytes ident ls t" "n = length out"
    using generate_bytes[OF assms(1,2), of ident b t] assms(3,4) by auto
  then show ?thesis using load_request[of src ident ls t now] assms(3,5) by (simp add: holds_def)
qed

definition plain_wbuf :: wbuf where
  "plain_wbuf = \<lparr>wb_resize = (\<lambda>b n. take n (b @ replicate n 0)), wb_set16 = store16\<rparr>"

theorem dns_request_roundtrip_witness:
  "load 7 (buffer_of (fst (generate_dns_request plain_wbuf 0xbeef [] ''www.mag0.net'' 28))) empty_packet
   = (request_packet 7 0xbeef [''www'', ''mag0'', ''net''] 28,
      Some (snd (generate_dns_request plain_wbuf 0xbeef [] ''www.mag0.net'' 28)))"
proof -
  have "wbuf_ok plain_wbuf" by (auto simp: wbuf_ok_def plain_wbuf_def)
  then show ?thesis
    using dns_request_roundtrip[of plain_wbuf "[''www'', ''mag0'', ''net'']" "0xbeef" "[]" 28]
    by (simp add: prod_eq_iff)
qed

section \<open>What a successful parse guarantees\<close>

lemma read_or_throw_Inr:
  "read_or_throw r e f = Inr y \<longleftrightarrow> (\<exists>x. r = Some x \<and> f x = Inr y)"
  by (cases r) simp_all

lemma get32_bound: "buffer_ok src \<Longrightarrow> sb_get32 src i = Some w \<Longrightarrow> i + 4 \<le> sb_size src"
  by (simp add: buffer_ok_get split: if_splits)

lemma record_data_length:
  "buffer_ok src \<Longrightarrow> record_data src off len = Some d \<Longrightarrow> d = [] \<or> length d = unat len"
  by (auto simp: record_data_def buffer_ok_get split: if_splits)

definition answer_ok :: "dns_answer \<Rightarrow> bool" where
  "answer_ok a \<longleftrightarrow> da_data a = [] \<or> length (da_data a) = unat (da_datalen a)"

definition ttl_ok :: "sbuf \<Rightarrow> nat list \<Rightarrow> bool" where
  "ttl_ok src ks \<longleftrightarrow> (\<forall>k\<in>set ks. k + 4 \<le> sb_size src)"

text \<open>The positions are those of the TTL fields of the records, in their order.\<close>

definition ttl_fields :: "sbuf \<Rightarrow> nat list \<Rightarrow> dns_answer list \<Rightarrow> bool" where
  "ttl_fields src ks as \<longleftrightarrow> map (\<lambda>k. map_option ntohl (sb_get32 src k)) ks = map (\<lambda>a. Some (da_ttl a)) as"

lemma ttl_fields_simps [simp]:
  "ttl_fields src [] []" "ttl_fields src (k # ks) (a # as) \<longleftrightarrow> map_option ntohl (sb_get32 src k) = Some (da_ttl a) \<and> ttl_fields src ks as"
  by (simp_all add: ttl_fields_def)

lemma ttl_fields_append: "ttl_fields src ks as \<Longrightarrow> ttl_fields src js bs \<Longrightarrow> ttl_fields src (ks @ js) (as @ bs)"
  by (simp add: ttl_fields_def)

lemma answer_loop_frame:
  assumes "buffer_ok src"
  shows "answer_loop src i mc togo p = Inr (mc', togo', p') \<Longrightarrow>
    \<exists>as ks. p' = p\<lparr>dp_answers_list := dp_answers_list p @ as, dp_answer_ttl_idx := dp_answer_ttl_idx p @ ks\<rparr>
      \<and> length as + togo' = togo \<and> ttl_ok src ks \<and> mc \<le> mc' \<and> (\<forall>a\<in>set as. answer_ok a) \<and> ttl_fields src ks as"
  using assms
proof (induction src i mc togo p rule: answer_loop.induct)
  case (1 src i mc togo p)
  show ?case
  proof (cases "i < sb_size src \<and> togo > 0")
    case False
    then have "answer_loop src i mc togo p = Inr (mc, togo, p)" by (subst answer_loop.simps) (erule if_not_P)
    then show ?thesis using 1(2) by (intro exI[of _ "[]"] exI[of _ "[]"]) (auto simp: ttl_ok_def)
  next
    case True
    obtain ty cl ttl len d where r: "sb_get16 src (i + 2) = Some ty" "sb_get16 src (i + 4) = Some cl"
      "sb_get32 src (i + 6) = Some ttl" "sb_get32 src (i + 10) = Some len"
      "record_data src (i + DNS_HEADER_SZ) (ntohs (ucast len)) = Some d"
      using 1(2) True by (subst (asm) answer_loop.simps) (auto simp: read_or_throw_Inr Let_def)
    let ?inc = "DNS_HEADER_SZ + unat (ntohs (ucast len))"
    let ?a = "\<lparr>da_qname = construct_qname (sb_mem src) (sb_size src) 16 mc, da_name = 0, da_type = ntohs ty,
      da_class = ntohs cl, da_ttl = ntohl ttl, da_datalen = ntohs (ucast len), da_data = d\<rparr>"
    let ?p = "p\<lparr>dp_answer_ttl_idx := dp_answer_ttl_idx p @ [i + 6], dp_answers_list := dp_answers_list p @ [?a]\<rparr>"
    have step: "answer_loop src i mc togo p = answer_loop src (i + ?inc) (mc + ?inc) (togo - 1) ?p"
      using True r by (subst answer_loop.simps) (simp add: Let_def)
    obtain as ks where IH: "p' = ?p\<lparr>dp_answers_list := dp_answers_list ?p @ as,
        dp_answer_ttl_idx := dp_answer_ttl_idx ?p @ ks\<rparr>" "length as + togo' = togo - 1" "ttl_ok src ks"
      "mc + ?inc \<le> mc'" "\<forall>a\<in>set as. answer_ok a" "ttl_fields src ks as"
      using 1(1)[OF True refl r(1,2) refl r(3,4) refl r(5) refl refl] 1(2,3) step by auto
    have "answer_ok ?a" using record_data_length[OF 1(3) r(5)] by (auto simp: answer_ok_def)
    moreover have "ttl_ok src ((i + 6) # ks)"
      using IH(3) get32_bound[OF 1(3) r(3)] by (simp add: ttl_ok_def)
    ultimately show ?thesis using IH True r(3)
      by (intro exI[of _ "?a # as"] exI[of _ "(i + 6) # ks"]) auto
  qed
qed

lemma authority_loop_frame:
  assumes "buffer_ok src"
  shows "authority_loop src i mc togo p = Inr (mc', togo', p', f) \<Longrightarrow>
    \<exists>as. p' = p\<lparr>dp_authorities_list := dp_authorities_list p @ as\<rparr>
      \<and> length as + togo' = togo \<and> (\<forall>a\<in>set as. answer_ok a)"
  using assms
proof (induction src i mc togo p rule: authority_loop.induct)
  case (1 src i mc togo p)
  show ?case
  proof (cases "i < sb_size src \<and> togo > 0")
    case False
    then have "authority_loop src i mc togo p = Inr (mc, togo, p, False)"
      by (subst authority_loop.simps) (erule if_not_P)
    then show ?thesis using 1(2) by (intro exI[of _ "[]"]) auto
  next
    case True
    define xi where "xi = fst (skip_qname (sb_mem src) i (sb_size src - i))"
    obtain ty where ty: "sb_get16 src (i + xi) = Some ty"
      using 1(2) True by (subst (asm) authority_loop.simps) (auto simp: read_or_throw_Inr Let_def xi_def)
    show ?thesis
    proof (cases "ntohs ty = record_code SOA \<or> ntohs ty = record_code NS")
      case False
      then have "authority_loop src i mc togo p = Inr (sb_size src, togo, p, True)"
        using True ty unfolding xi_def by (subst authority_loop.simps) (simp add: Let_def)
      then show ?thesis using 1(2) by (intro exI[of _ "[]"]) auto
    next
      case soa: True
      let ?i = "i + (xi + 2)"
      obtain cl ttl len d where r: "sb_get16 src ?i = Some cl" "sb_get32 src (?i + 2) = Some ttl"
        "sb_get16 src (?i + 6) = Some len" "record_data src (?i + 8) (ntohs len) = Some d"
        using 1(2) True ty soa unfolding xi_def
        by (subst (asm) authority_loop.simps) (auto simp: read_or_throw_Inr Let_def)
      let ?j = "?i + (8 + unat (ntohs len))"
      let ?a = "\<lparr>da_qname = construct_qname (sb_mem src) (sb_size src) 16 mc, da_name = 0, da_type = ntohs ty,
        da_class = ntohs cl, da_ttl = ntohl ttl, da_datalen = ntohs len, da_data = d\<rparr>"
      let ?p = "p\<lparr>dp_authorities_list := dp_authorities_list p @ [?a]\<rparr>"
      have step: "authority_loop src i mc togo p = authority_loop src ?j ?j (togo - 1) ?p"
        using True ty soa r unfolding xi_def by (subst authority_loop.simps) (simp add: Let_def)
      obtain as where IH: "p' = ?p\<lparr>dp_authorities_list := dp_authorities_list ?p @ as\<rparr>"
        "length as + togo' = togo - 1" "\<forall>a\<in>set as. answer_ok a"
        using 1(1)[OF True xi_def ty refl refl soa refl r(1,2,3) refl r(4) refl refl] 1(2,3) step by auto
      have "answer_ok ?a" using record_data_length[OF 1(3) r(4)] by (auto simp: answer_ok_def)
      then show ?thesis using IH True by (intro exI[of _ "?a # as"]) auto
    qed
  qed
qed

definition is_addr_record :: "16 word \<Rightarrow> bool" where
  "is_addr_record t \<longleftrightarrow> t = record_code A \<or> t = record_code AAAA \<or> t = record_code TXT"

lemma additional_loop_frame:
  assumes "buffer_ok src"
  shows "additional_loop src i mc togo p = Inr (mc', togo', p', f) \<Longrightarrow>
    \<exists>as ks. p' = p\<lparr>dp_additionals_list := dp_additionals_list p @ as, dp_answer_ttl_idx := dp_answer_ttl_idx p @ ks\<rparr>
      \<and> length as + togo' \<le> togo \<and> ttl_ok src ks \<and> (\<forall>a\<in>set as. answer_ok a) \<and> ttl_fields src ks as"
  using assms
proof (induction src i mc togo p rule: additional_loop.induct)
  case (1 src i mc togo p)
  have unchanged: ?case if "additional_loop src i mc togo p = Inr (m, togo, p, g)" for m g
    using that 1(3) by (intro exI[of _ "[]"] exI[of _ "[]"]) (auto simp: ttl_ok_def)
  show ?case
  proof (cases "i < sb_size src \<and> togo > 0")
    case False
    then have "additional_loop src i mc togo p = Inr (mc, togo, p, False)"
      by (subst additional_loop.simps) (erule if_not_P)
    then show ?thesis by (rule unchanged)
  next
    case True
    define xi where "xi = fst (skip_qname (sb_mem src) i (sb_size src - i))"
    obtain ty where ty: "sb_get16 src (i + xi) = Some ty"
      using 1(3) True by (subst (asm) additional_loop.simps) (auto simp: read_or_throw_Inr Let_def xi_def)
    let ?i = "i + (xi + 2)"
    consider (opt) "ntohs ty = record_code OPT"
      | (addr) "ntohs ty \<noteq> record_code OPT" "is_addr_record (ntohs ty)"
      | (other) "ntohs ty \<noteq> record_code OPT" "\<not> is_addr_record (ntohs ty)" by blast
    then show ?thesis
    proof cases
      case other
      then have "additional_loop src i mc togo p = Inr (sb_size src, togo, p, True)"
        using True ty unfolding xi_def is_addr_record_def
        by (subst additional_loop.simps) (simp add: Let_def)
      then show ?thesis by (rule unchanged)
    next
      case opt
      obtain j taken where j: "read_opt src ?i p = Inr (j, taken)"
        using 1(3) True ty opt unfolding xi_def
        by (subst (asm) additional_loop.simps) (auto simp: Let_def split: sum.splits)
      have step: "additional_loop src i mc togo p =
          (if taken then additional_loop src j j (togo - 1) p else Inr (j, togo, p, False))"
        using True ty opt j unfolding xi_def by (subst additional_loop.simps) (simp add: Let_def)
      show ?thesis
      proof (cases taken)
        case t: True
        then show ?thesis
          using 1(1)[OF True xi_def ty refl refl opt j refl t] 1(3,4) step True by fastforce
      next
        case False
        then have "additional_loop src i mc togo p = Inr (j, togo, p, False)" using step by simp
        then show ?thesis by (rule unchanged)
      qed
    next
      case addr
      obtain cl ttl len d where r: "sb_get16 src ?i = Some cl" "sb_get32 src (?i + 2) = Some ttl"
        "sb_get16 src (?i + 2 + 4) = Some len" "record_data src (?i + 2 + 4 + 2) (ntohs len) = Some d"
        using 1(3) True ty addr unfolding xi_def is_addr_record_def
        by (subst (asm) additional_loop.simps) (auto simp: read_or_throw_Inr Let_def)
      define k where "k = ?i + 2 + 4 + 2"
      let ?j = "if unat (ntohs len) > 0 \<and> k + unat (ntohs len) \<le> sb_size src then k + unat (ntohs len) else k"
      let ?a = "\<lparr>da_qname = construct_qname (sb_mem src) (sb_size src) 16 mc, da_name = 0, da_type = ntohs ty,
        da_class = ntohs cl, da_ttl = ntohl ttl, da_datalen = ntohs len, da_data = d\<rparr>"
      let ?p = "p\<lparr>dp_answer_ttl_idx := dp_answer_ttl_idx p @ [?i + 2],
                  dp_additionals_list := dp_additionals_list p @ [?a]\<rparr>"
      have step: "additional_loop src i mc togo p = additional_loop src ?j ?j (togo - 1) ?p"
        using True ty addr r unfolding xi_def is_addr_record_def k_def
        by (subst additional_loop.simps) (simp add: Let_def)
      obtain as ks where IH: "p' = ?p\<lparr>dp_additionals_list := dp_additionals_list ?p @ as,
          dp_answer_ttl_idx := dp_answer_ttl_idx ?p @ ks\<rparr>"
        "length as + togo' \<le> togo - 1" "ttl_ok src ks" "\<forall>a\<in>set as. answer_ok a" "ttl_fields src ks as"
        using 1(2)[OF True xi_def ty refl refl addr(1) addr(2)[unfolded is_addr_record_def] refl r(1)
            refl refl r(2) refl r(3) refl refl r(4) refl refl] 1(3,4) step unfolding k_def by auto
      have "answer_ok ?a" using record_data_length[OF 1(4) r(4)] by (auto simp: answer_ok_def)
      moreover have "ttl_ok src ((?i + 2) # ks)"
        using IH(3) get32_bound[OF 1(4) r(2)] by (simp add: ttl_ok_def)
      ultimately show ?thesis using IH True r(2)
        by (intro exI[of _ "?a # as"] exI[of _ "(?i + 2) # ks"]) auto
    qed
  qed
qed

text \<open>At the root label the position does not move: the remaining questions of the header
  are all filled with the question just read.\<close>

lemma question_loop_repeat:
  assumes "buffer_ok src" "cur + 5 \<le> sb_size src" "sb_mem src cur = 0"
  shows "question_loop src cur mc togo q p =
    Inr (mc + 5 * togo, 0,
      p\<lparr>dp_questions_list := dp_questions_list p @ replicate togo
          (q\<lparr>rec_type := be16 (sb_mem src (cur + 1)) (sb_mem src (cur + 2)),
             rec_class := be16 (sb_mem src (cur + 3)) (sb_mem src (cur + 4))\<rparr>)\<rparr>, False)"
proof (induction togo arbitrary: mc q p)
  case 0
  then show ?case by (subst question_loop.simps) simp
next
  case (Suc togo)
  have g: "sb_get8 src cur = Some 0"
    "sb_get16 src (cur + 1) = Some (be16 (sb_mem src (cur + 2)) (sb_mem src (cur + 1)))"
    "sb_get16 src (cur + 1 + 2) = Some (be16 (sb_mem src (cur + 4)) (sb_mem src (cur + 3)))"
    using assms buffer_ok_get(1)[OF assms(1), of cur] buffer_ok_get(2)[OF assms(1), of "cur + 1"]
      buffer_ok_get(2)[OF assms(1), of "cur + 1 + 2"] by (simp_all add: numeral_eq_Suc)
  show ?case using Suc.IH g assms(2) by (subst question_loop.simps) (simp add: Let_def)
qed

lemma question_loop_frame:
  assumes "buffer_ok src"
  shows "\<exists>mc' togo' k q' f. question_loop src cur mc togo q p =
      Inr (mc', togo', p\<lparr>dp_questions_list := dp_questions_list p @ replicate k q'\<rparr>, f)
    \<and> k + togo' = togo \<and> (\<not> f \<longrightarrow> mc \<le> mc')"
  using assms
proof (induction src cur mc togo q p rule: question_loop.induct)
  case (1 src cur mc togo q p)
  have unchanged: ?case if "question_loop src cur mc togo q p = Inr (m, togo, p, g)" "\<not> g \<longrightarrow> mc \<le> m" for m g
    using that by (intro exI[of _ m] exI[of _ togo] exI[of _ 0]) auto
  show ?case
  proof (cases "cur < sb_size src \<and> togo > 0")
    case False
    then have "question_loop src cur mc togo q p = Inr (mc, togo, p, False)" by (rule question_loop_stop)
    then show ?thesis by (rule unchanged) simp
  next
    case True
    have fl: "sb_get8 src cur = Some (sb_mem src cur)" using buffer_ok_get(1)[OF 1(3)] True by simp
    let ?n = "unat (sb_mem src cur)"
    consider (out) "cur + ?n \<ge> sb_size src" | (zero_out) "cur + ?n < sb_size src" "?n = 0" "cur + 5 > sb_size src"
      | (zero) "?n = 0" "cur + 5 \<le> sb_size src" | (label) "cur + ?n < sb_size src" "?n \<noteq> 0" by linarith
    then show ?thesis
    proof cases
      case out
      then have "question_loop src cur mc togo q p = Inr (mc, togo, p, True)"
        using True fl by (subst question_loop.simps) simp
      then show ?thesis by (rule unchanged) simp
    next
      case zero_out
      then have "question_loop src cur mc togo q p = Inr (sb_size src, togo, p, True)"
        using True fl by (subst question_loop.simps) simp
      then show ?thesis by (rule unchanged) simp
    next
      case zero
      then have "sb_mem src cur = 0" by (simp add: unat_eq_0)
      from question_loop_repeat[OF 1(3) zero(2) this, of mc togo q p] show ?thesis
        by (intro exI[of _ "mc + 5 * togo"] exI[of _ 0] exI[of _ togo]) auto
    next
      case label
      have gt: "\<not> ?n > sb_size src" "\<not> cur + 1 \<ge> sb_size src" using label by linarith+
      let ?s = "if rec_str q \<noteq> [] then rec_str q @ ''.'' else rec_str q"
      let ?q = "q\<lparr>rec_str := ?s @ chars (mem_range (sb_mem src) (cur + 1) ?n)\<rparr>"
      have step: "question_loop src cur mc togo q p = question_loop src (cur + (?n + 1)) (mc + (?n + 1)) togo ?q p"
        using True fl label gt by (subst question_loop.simps) (simp add: Let_def)
      have ng: "\<not> sb_size src \<le> cur + ?n" using label by simp
      show ?thesis
        unfolding step using 1(2)[OF True fl refl ng label(2) gt refl refl] 1(3) by fastforce
    qed
  qed
qed

text \<open>The outer loop runs its body once.\<close>

lemma question_section_frame:
  assumes "buffer_ok src"
  shows "\<exists>mc' togo' k q' f. question_section src mc togo p =
      Inr (mc', togo', p\<lparr>dp_questions_list := dp_questions_list p @ replicate k q'\<rparr>, f)
    \<and> k + togo' = togo \<and> (\<not> f \<longrightarrow> mc \<le> mc')"
proof (cases "mc < sb_size src \<and> togo > 0")
  case False
  then have "question_section src mc togo p = Inr (mc, togo, p, False)"
    by (subst question_section.simps) (erule if_not_P)
  then show ?thesis by (intro exI[of _ mc] exI[of _ togo] exI[of _ 0]) auto
next
  case True
  obtain mc' togo' k q' f where r: "question_loop src mc mc togo empty_question p =
      Inr (mc', togo', p\<lparr>dp_questions_list := dp_questions_list p @ replicate k q'\<rparr>, f)"
    "k + togo' = togo" "\<not> f \<longrightarrow> mc \<le> mc'"
    using question_loop_frame[OF assms] by metis
  have stop: "question_section src mc' togo' r = Inr (mc', togo', r, False)"
    if "togo' = 0 \<or> sb_size src \<le> mc'" for r
    using that by (subst question_section.simps) auto
  have "question_section src mc togo p =
      Inr (mc', togo', p\<lparr>dp_questions_list := dp_questions_list p @ replicate k q'\<rparr>, f)"
  proof (cases f)
    case True
    then show ?thesis using \<open>mc < sb_size src \<and> togo > 0\<close> r(1) by (subst question_section.simps) simp
  next
    case False
    then show ?thesis
      using \<open>mc < sb_size src \<and> togo > 0\<close> r(1) stop question_loop_done[of src mc mc togo empty_question p mc' togo']
      by (subst question_section.simps) simp
  qed
  then show ?thesis using r by blast
qed

lemma load_header_frame:
  assumes "load_header src p = Inr p'"
  shows "\<exists>a b c d e f. p' = p\<lparr>dp_id := a, dp_flags := b, dp_questions := c, dp_answers := d,
    dp_authorities := e, dp_additionals := f\<rparr>
    \<and> map (\<lambda>i. map_option ntohs (sb_get16 src i)) [4, 6, 8, 10] = map Some [c, d, e, f]"
  using assms unfolding load_header_def read_or_throw_Inr Let_def by auto blast

lemma load_questions_frame:
  assumes "buffer_ok src" "load_questions src p = Inr (mc, togo, p', f)"
  shows "\<exists>k q. p' = p\<lparr>dp_questions_list := dp_questions_list p @ replicate k q\<rparr> \<and> k + togo = unat (dp_questions p)"
proof (cases "dp_questions p > 0")
  case True
  then show ?thesis
    using assms(2) question_section_frame[OF assms(1), of DNS_HEADER_SZ "unat (dp_questions p)" p]
    by (auto simp: load_questions_def)
next
  case False
  then have "dp_questions p = 0" by (simp add: word_gt_0)
  then show ?thesis using False assms(2) by (intro exI[of _ 0]) (auto simp: load_questions_def)
qed

lemma load_answers_frame:
  assumes "buffer_ok src" "load_answers src mc f p = Inr (mc', togo, p')"
  shows "\<exists>as ks. p' = p\<lparr>dp_answers_list := dp_answers_list p @ as, dp_answer_ttl_idx := dp_answer_ttl_idx p @ ks\<rparr>
    \<and> length as + togo = unat (dp_answers p) \<and> ttl_ok src ks \<and> (\<forall>a\<in>set as. answer_ok a) \<and> ttl_fields src ks as"
proof (cases "\<not> f \<and> dp_answers p > 0")
  case True
  then show ?thesis using assms answer_loop_frame[OF assms(1)] by (fastforce simp: load_answers_def)
next
  case False
  then show ?thesis using assms(2)
    by (intro exI[of _ "[]"] exI[of _ "[]"]) (auto simp: load_answers_def ttl_ok_def split: if_splits)
qed

lemma load_authorities_frame:
  assumes "buffer_ok src" "load_authorities src mc f p = Inr (mc', togo, p', f')"
  shows "\<exists>as. p' = p\<lparr>dp_authorities_list := dp_authorities_list p @ as\<rparr>
    \<and> length as + togo = unat (dp_authorities p) \<and> (\<forall>a\<in>set as. answer_ok a)"
proof (cases "\<not> f \<and> dp_authorities p > 0")
  case True
  then show ?thesis using assms authority_loop_frame[OF assms(1)] by (fastforce simp: load_authorities_def)
next
  case False
  then show ?thesis using assms(2)
    by (intro exI[of _ "[]"]) (auto simp: load_authorities_def split: if_splits)
qed

lemma load_additionals_frame:
  assumes "buffer_ok src" "load_additionals src mc f p = Inr (mc', p')"
  shows "\<exists>as ks n. p' = p\<lparr>dp_additionals_list := dp_additionals_list p @ as,
       dp_answer_ttl_idx := dp_answer_ttl_idx p @ ks, dp_additionals := n\<rparr>
    \<and> ttl_ok src ks \<and> (\<forall>a\<in>set as. answer_ok a) \<and> ttl_fields src ks as \<and> length as \<le> unat (dp_additionals p)
    \<and> (dp_additionals_list p = [] \<longrightarrow> length as \<le> unat n)"
proof (cases "\<not> f \<and> dp_additionals p > 0")
  case True
  obtain togo p1 f' where a: "additional_loop src mc mc (unat (dp_additionals p)) p = Inr (mc', togo, p1, f')"
    "p' = p1\<lparr>dp_additionals := of_nat (length (dp_additionals_list p1))\<rparr>"
    using assms(2) True by (auto simp: load_additionals_def split: sum.splits)
  obtain as ks where f: "p1 = p\<lparr>dp_additionals_list := dp_additionals_list p @ as,
      dp_answer_ttl_idx := dp_answer_ttl_idx p @ ks\<rparr>" "length as + togo \<le> unat (dp_additionals p)"
    "ttl_ok src ks" "\<forall>a\<in>set as. answer_ok a" "ttl_fields src ks as"
    using additional_loop_frame[OF assms(1) a(1)] by blast
  have "unat (dp_additionals p) < 2 ^ LENGTH(16)" by (rule unsigned_less)
  then have "length as < 2 ^ LENGTH(16)" using f(2) by linarith
  then have "unat (of_nat (length as) :: 16 word) = length as"
    by (simp add: unsigned_of_nat take_bit_nat_eq_self)
  then show ?thesis using f a(2)
    by (intro exI[of _ as] exI[of _ ks] exI[of _ "of_nat (length (dp_additionals_list p1))"]) auto
next
  case False
  then show ?thesis using assms(2)
    by (intro exI[of _ "[]"] exI[of _ "[]"] exI[of _ "dp_additionals p"])
       (auto simp: load_additionals_def ttl_ok_def split: if_splits)
qed

lemma load_success_frame:
  assumes "buffer_ok src" "load now src p = (p', Some n)"
  shows "\<exists>hid fl c d e f g k q as us ds ks1 ks2.
    p' = p\<lparr>dp_loaded_at := now, dp_id := hid, dp_flags := fl, dp_questions := c, dp_answers := d,
      dp_authorities := e, dp_additionals := f,
      dp_questions_list := dp_questions_list p @ replicate k q, dp_answers_list := dp_answers_list p @ as,
      dp_authorities_list := dp_authorities_list p @ us, dp_additionals_list := dp_additionals_list p @ ds,
      dp_answer_ttl_idx := dp_answer_ttl_idx p @ ks1 @ ks2\<rparr>
    \<and> k = unat c \<and> length as = unat d \<and> length us = unat e
    \<and> (dp_additionals_list p = [] \<longrightarrow> length ds \<le> unat f)
    \<and> ttl_ok src (ks1 @ ks2) \<and> (\<forall>a\<in>set (as @ us @ ds). answer_ok a) \<and> ttl_fields src (ks1 @ ks2) (as @ ds)
    \<and> map (\<lambda>i. map_option ntohs (sb_get16 src i)) [4, 6, 8, 10] = map Some [c, d, e, g] \<and> length ds \<le> unat g"
proof -
  obtain p0 where hdr: "load_header src (p\<lparr>dp_loaded_at := now\<rparr>) = Inr p0"
    and sec: "load_sections src p0 = Inr (p', Some n)"
    using assms(2) by (auto simp: load_def Let_def result_bind_Inr_iff split: if_splits sum.splits)
  obtain m1 m2 m3 m4 p1 p2 p3 f1 f3 where
    q: "load_questions src p0 = Inr (m1, 0, p1, f1)" and a: "load_answers src m1 f1 p1 = Inr (m2, 0, p2)"
    and u: "load_authorities src m2 f1 p2 = Inr (m3, 0, p3, f3)"
    and d: "load_additionals src m3 f3 p3 = Inr (m4, p')"
    using sec by (auto simp: load_sections_def result_bind_Inr_iff split: if_splits)
  obtain hid fl c d' e f where p0: "p0 = p\<lparr>dp_loaded_at := now, dp_id := hid, dp_flags := fl,
      dp_questions := c, dp_answers := d', dp_authorities := e, dp_additionals := f\<rparr>"
    and announced: "map (\<lambda>i. map_option ntohs (sb_get16 src i)) [4, 6, 8, 10] = map Some [c, d', e, f]"
    using load_header_frame[OF hdr] by auto
  obtain k q' where p1: "p1 = p0\<lparr>dp_questions_list := dp_questions_list p0 @ replicate k q'\<rparr>"
    "k = unat (dp_questions p0)"
    using load_questions_frame[OF assms(1) q] by auto
  obtain as ks where p2: "p2 = p1\<lparr>dp_answers_list := dp_answers_list p1 @ as,
      dp_answer_ttl_idx := dp_answer_ttl_idx p1 @ ks\<rparr>"
    "length as = unat (dp_answers p1)" "ttl_ok src ks" "\<forall>a\<in>set as. answer_ok a" "ttl_fields src ks as"
    using load_answers_frame[OF assms(1) a] by auto
  obtain us where p3: "p3 = p2\<lparr>dp_authorities_list := dp_authorities_list p2 @ us\<rparr>"
    "length us = unat (dp_authorities p2)" "\<forall>a\<in>set us. answer_ok a"
    using load_authorities_frame[OF assms(1) u] by auto
  obtain ds ks' n' where p4: "p' = p3\<lparr>dp_additionals_list := dp_additionals_list p3 @ ds,
      dp_answer_ttl_idx := dp_answer_ttl_idx p3 @ ks', dp_additionals := n'\<rparr>" "ttl_ok src ks'"
    "\<forall>a\<in>set ds. answer_ok a" "dp_additionals_list p3 = [] \<longrightarrow> length ds \<le> unat n'"
    "ttl_fields src ks' ds" "length ds \<le> unat (dp_additionals p3)"
    using load_additionals_frame[OF assms(1) d] by blast
  have "p' = p\<lparr>dp_loaded_at := now, dp_id := hid, dp_flags := fl, dp_questions := c, dp_answers := d',
      dp_authorities := e, dp_additionals := n',
      dp_questions_list := dp_questions_list p @ replicate k q', dp_answers_list := dp_answers_list p @ as,
      dp_authorities_list := dp_authorities_list p @ us, dp_additionals_list := dp_additionals_list p @ ds,
      dp_answer_ttl_idx := dp_answer_ttl_idx p @ ks @ ks'\<rparr>"
    by (simp add: p4(1) p3(1) p2(1) p1(1) p0)
  moreover have "k = unat c" using p1(2) p0 by simp
  moreover have "length as = unat d'" using p2(2) p1(1) p0 by simp
  moreover have "length us = unat e" using p3(2) p2(1) p1(1) p0 by simp
  moreover have "dp_additionals_list p = [] \<longrightarrow> length ds \<le> unat n'"
    using p4(4) by (simp add: p3(1) p2(1) p1(1) p0)
  moreover have "ttl_ok src (ks @ ks')" using p2(3) p4(2) by (auto simp: ttl_ok_def)
  moreover have "\<forall>a\<in>set (as @ us @ ds). answer_ok a" using p2(4) p3(3) p4(3) by auto
  moreover have "ttl_fields src (ks @ ks') (as @ ds)" using ttl_fields_append[OF p2(5) p4(5)] .
  moreover have "length ds \<le> unat f" using p4(6) by (simp add: p3(1) p2(1) p1(1) p0)
  ultimately show ?thesis using announced by blast
qed

text \<open>C37: When load accepts a packet into a fresh object, the question, answer and authority
  lists have exactly the lengths the header of the packet announces, and no more additional records are kept than
  it announces (and than the count the object holds afterwards).  The payload of every record is complete or empty: it is empty when
  the record has none or when its length leads out of the packet.  The positions recorded for later rewriting lie inside the packet and are,
  one for one and in this order, those of the TTL fields of the answers and of the additional records that were kept.\<close>

theorem load_success_shape:
  assumes "buffer_ok src" "load now src empty_packet = (p, Some n)"
  shows "map (\<lambda>i. map_option (unat \<circ> ntohs) (sb_get16 src i)) [4, 6, 8]
      = map Some [length (dp_questions_list p), length (dp_answers_list p), length (dp_authorities_list p)]
    \<and> (\<exists>k. map_option (unat \<circ> ntohs) (sb_get16 src 10) = Some k \<and> length (dp_additionals_list p) \<le> k)
    \<and> length (dp_questions_list p) = unat (dp_questions p)
    \<and> length (dp_answers_list p) = unat (dp_answers p)
    \<and> length (dp_authorities_list p) = unat (dp_authorities p)
    \<and> length (dp_additionals_list p) \<le> unat (dp_additionals p)
    \<and> (\<forall>a\<in>set (dp_answers_list p @ dp_authorities_list p @ dp_additionals_list p). answer_ok a)
    \<and> ttl_ok src (dp_answer_ttl_idx p)
    \<and> ttl_fields src (dp_answer_ttl_idx p) (dp_answers_list p @ dp_additionals_list p)"
  using load_success_frame[OF assms] by (auto simp: empty_packet_def ttl_ok_def)

text \<open>A response with one answer: the A record 93.184.216.34 of a.b, the name compressed.\<close>

definition sample_response :: bytes where
  "sample_response = [0, 7, 0x81, 0x80, 0, 1, 0, 1, 0, 0, 0, 0,
     1, 97, 1, 98, 0, 0, 1, 0, 1,
     0xC0, 12, 0, 1, 0, 1, 0, 0, 0, 60, 0, 4, 93, 184, 216, 34]"

lemma sample_response_loads: "snd (load 7 (buffer_of sample_response) empty_packet) = Some 37"
  by code_simp

theorem load_success_shape_witness:
  "\<exists>p. load 7 (buffer_of sample_response) empty_packet = (p, Some 37)
     \<and> length (dp_answers_list p) = unat (dp_answers p) \<and> ttl_ok (buffer_of sample_response) (dp_answer_ttl_idx p)
     \<and> ttl_fields (buffer_of sample_response) (dp_answer_ttl_idx p) (dp_answers_list p @ dp_additionals_list p)"
proof -
  obtain p where "load 7 (buffer_of sample_response) empty_packet = (p, Some 37)"
    using sample_response_loads by (metis prod.collapse)
  then show ?thesis using load_success_shape[OF buffer_of_ok] by blast
qed

text \<open>All questions of an accepted packet are equal: the label loop does not move past the
  root label of the first question, so a packet that announces several questions yields copies
  of the first one.\<close>

theorem load_questions_are_copies:
  assumes "buffer_ok src" "load now src empty_packet = (p, Some n)"
  shows "\<exists>q. dp_questions_list p = replicate (unat (dp_questions p)) q"
  using load_success_frame[OF assms] by (auto simp: empty_packet_def)

text \<open>A request with two different questions, a (type A) and b (type NS).\<close>

definition two_questions :: bytes where
  "two_questions = [0, 7, 1, 0, 0, 2, 0, 0, 0, 0, 0, 0,
     1, 97, 0, 0, 1, 0, 1, 1, 98, 0, 0, 2, 0, 1]"

theorem load_questions_are_copies_witness:
  "\<exists>p n q. load 7 (buffer_of two_questions) empty_packet = (p, Some n)
     \<and> dp_questions_list p = replicate (unat (dp_questions p)) q"
proof -
  have "snd (load 7 (buffer_of two_questions) empty_packet) = Some 24" by code_simp
  then obtain p where "load 7 (buffer_of two_questions) empty_packet = (p, Some 24)"
    by (metis prod.collapse)
  then show ?thesis using load_questions_are_copies[OF buffer_of_ok] by blast
qed

section \<open>Memory the name reader touches\<close>

text \<open>The plain label case with the clamped length.\<close>

lemma construct_qname_label:
  assumes "off < sz" "m off \<noteq> 0" "m off < 0xC0"
  shows "construct_qname m sz (Suc n) off =
    (let s = chars (mem_range m (off + 1) (min (unat (m off)) (sz - (off + 1))));
         ret = construct_qname m sz n (off + 1 + unat (m off))
     in if off + 1 + unat (m off) < sz \<and> ret \<noteq> [] then s @ ''.'' @ ret else s)"
proof -
  have "int sz - int (off + 1 + unat (m off)) < 0 \<longleftrightarrow> sz < off + 1 + unat (m off)"
       "int sz - int (off + 1 + unat (m off)) > 0 \<longleftrightarrow> off + 1 + unat (m off) < sz" by linarith+
  moreover have "min (unat (m off)) (sz - (off + 1)) =
      (if sz < off + 1 + unat (m off) then sz - (off + 1) else unat (m off))"
    using assms(1) by auto
  ultimately show ?thesis using assms
    by (cases "sz < off + 1 + unat (m off)") (simp_all add: Let_def del: of_nat_add)
qed

lemma construct_qname_pointer:
  assumes "off < sz" "\<not> m off < 0xC0"
  shows "construct_qname m sz (Suc n) off
       = construct_qname m sz n (unat (m (off + 1)) + (unat (m off) - 0xC0))"
  using assms by (auto simp: Let_def)

lemma construct_qname_empty: "sz \<le> off \<or> m off = 0 \<Longrightarrow> construct_qname m sz n off = []"
  by (cases n) auto

lemma construct_qname_agree:
  assumes "\<And>i. i \<le> sz \<Longrightarrow> m i = m' i"
  shows "construct_qname m sz n off = construct_qname m' sz n off"
proof (induction n arbitrary: off)
  case (Suc n)
  let ?k = "min (unat (m' off)) (sz - (off + 1))"
  consider "sz \<le> off \<or> m' off = 0" "sz \<le> off \<or> m off = 0"
    | "off < sz" "m' off \<noteq> 0" "m' off < 0xC0" "m off = m' off"
    | "off < sz" "\<not> m' off < 0xC0" "m off = m' off" using assms[of off] by fastforce
  then show ?case
  proof cases
    case 2
    have "mem_range m (off + 1) ?k = mem_range m' (off + 1) ?k"
      using 2(1) by (intro mem_range_cong) (simp add: assms)
    then show ?thesis
      using construct_qname_label[of off sz m n] construct_qname_label[of off sz m' n] 2 Suc by simp
  next
    case 3
    then show ?thesis
      using construct_qname_pointer[of off sz m n] construct_qname_pointer[of off sz m' n] Suc
        assms[of "off + 1"] by simp
  qed (simp add: construct_qname_empty)
qed simp

text \<open>The name reader depends on the octets of the packet and at most the one octet after
  it, whatever offset it starts at and however the pointers chain, and the name is shorter than
  192 characters per permitted step.\<close>

theorem construct_qname_bounded_reads:
  assumes "\<forall>i \<le> sz. m i = m' i"
  shows "construct_qname m sz loopmax off = construct_qname m' sz loopmax off
    \<and> length (construct_qname m sz loopmax off) \<le> 192 * loopmax"
proof -
  have "length (construct_qname m sz loopmax off) \<le> 192 * loopmax"
  proof (induction loopmax arbitrary: off)
    case (Suc n)
    consider "sz \<le> off \<or> m off = 0" | "off < sz" "m off \<noteq> 0" "m off < 0xC0" | "off < sz" "\<not> m off < 0xC0"
      by fastforce
    then show ?case
    proof cases
      case 2
      have "unat (m off) < 192" using 2(3) by (simp add: word_less_nat_alt)
      then have "min (unat (m off)) (sz - (off + 1)) \<le> 191" by simp
      then show ?thesis
        unfolding construct_qname_label[of off sz m n, OF 2(1) 2(2) 2(3)]
        using Suc[of "off + 1 + unat (m off)"] by (auto simp: Let_def chars_def)
    next
      case 3
      then show ?thesis
        using construct_qname_pointer[of off sz m n] Suc[of "unat (m (off + 1)) + (unat (m off) - 0xC0)"] by simp
    qed (simp add: construct_qname_empty)
  qed simp
  then show ?thesis using construct_qname_agree assms by blast
qed

theorem construct_qname_bounded_reads_witness:
  "construct_qname (list_mem sample_response) (length sample_response) 16 21
   = construct_qname ((list_mem sample_response)(100 := 5)) (length sample_response) 16 21
   \<and> construct_qname (list_mem sample_response) (length sample_response) 16 21 = ''a.b''"
proof
  show "construct_qname (list_mem sample_response) (length sample_response) 16 21
      = construct_qname ((list_mem sample_response)(100 := 5)) (length sample_response) 16 21"
    using construct_qname_bounded_reads[of "length sample_response" "list_mem sample_response"
        "(list_mem sample_response)(100 := 5)" 16 21] by (simp add: sample_response_def)
  show "construct_qname (list_mem sample_response) (length sample_response) 16 21 = ''a.b''" by code_simp
qed

definition addr_payload :: "dns_answer \<Rightarrow> bytes option" where
  "addr_payload r =
     (if da_type r = record_code A \<and> length (da_data r) = 4 then Some (v4_mapped_head @ da_data r)
      else if da_type r = record_code AAAA \<and> length (da_data r) = 16 then Some (da_data r)
      else None)"

lemma full_mask_host:
  assumes "wf_cidr k" "c_mask k = replicate 16 0xff"
  shows "prefix_mask k 128" "{x. in_block x k} = {c_addr k}"
proof -
  have "getbit (replicate 16 0xff) l" if "l < 128" for l
    using that by (intro getbit_ones) simp
  then show pm: "prefix_mask k 128"
    unfolding prefix_mask_def assms(2) by (simp add: base_bit_def)
  have "x = c_addr k" if x: "in_block x k" for x
  proof (rule bytes_eq_by_bits)
    have len: "length x = 16" "\<forall>l<128. getbit x l = getbit (c_addr k) l"
      using x in_block_prefix[OF pm] by blast+
    show "length x = length (c_addr k)" using len(1) assms(1) by (simp add: wf_cidr_def)
    show "getbit x l = getbit (c_addr k) l" if "l < 8 * length x" for l
      using len that by simp
  qed
  then show "{x. in_block x k} = {c_addr k}" using own_addr_in_block[OF assms(1)] by blast
qed

lemma answer_cidr_payload:
  "(case addr_payload r of
      None \<Rightarrow> answer_cidr r = None
    | Some x \<Rightarrow> \<exists>k. answer_cidr r = Some k \<and> wf_cidr k \<and> c_addr k = x \<and> c_mask k = replicate 16 0xff
        \<and> c_proto k = (if da_type r = record_code A then CIDR_IPV4 else CIDR_IPV6))"
proof -
  consider (v4) a b c d where "da_type r = record_code A" "da_data r = [a, b, c, d]"
    | (v6) "da_type r = record_code AAAA" "length (da_data r) = 16"
    | (no) "addr_payload r = None"
  proof -
    have four: "\<exists>a b c d. xs = [a, b, c, d]" if "length xs = 4" for xs :: bytes
      using that by (auto simp: numeral_eq_Suc length_Suc_conv)
    have "da_type r = record_code A \<and> length (da_data r) = 4
        \<or> da_type r = record_code AAAA \<and> length (da_data r) = 16 \<or> addr_payload r = None"
      by (simp add: addr_payload_def)
    then show thesis using v4 v6 no four[of "da_data r"] by blast
  qed
  then show ?thesis
  proof cases
    case v4
    let ?k = "cidr_alloc\<lparr>c_proto := CIDR_IPV4, c_addr := v4_mapped_head @ [a, b, c, d], c_mask := replicate 16 0xff\<rparr>"
    have "answer_cidr r = Some ?k"
      using v4 from_inaddr_eq[of "join4 d c b a"] by (simp add: answer_cidr_def htonl_def)
    moreover have "wf_cidr ?k" by (simp add: wf_cidr_def v4_mapped_head_def)
    ultimately show ?thesis using v4 by (simp add: addr_payload_def)
  next
    case v6
    let ?k = "cidr_alloc\<lparr>c_proto := CIDR_IPV6, c_addr := da_data r, c_mask := replicate 16 0xff\<rparr>"
    have "map (\<lambda>i. da_data r ! i) [0..<16] = da_data r" using v6(2) by (metis map_nth)
    then have "answer_cidr r = Some ?k" using v6 by (simp add: answer_cidr_def cidr_from_in6addr_def)
    moreover have "wf_cidr ?k" using v6(2) by (simp add: wf_cidr_def cidr_proto_defs)
    ultimately show ?thesis using v6 by (simp add: addr_payload_def)
  next
    case no
    then show ?thesis by (auto simp: addr_payload_def answer_cidr_def split: if_splits)
  qed
qed

text \<open>An address record whose payload has the size of its type denotes the block that holds
  that address and nothing else; any other record denotes no block.\<close>

theorem answer_cidr_host:
  "case addr_payload r of
     None \<Rightarrow> answer_cidr r = None
   | Some x \<Rightarrow> \<exists>k. answer_cidr r = Some k \<and> valid_block k \<and> {y. in_block y k} = {x}"
  using answer_cidr_payload[of r] full_mask_host
  by (fastforce simp: valid_block_iff split: option.splits)

end
