(* ===== verification/AddrObj.thy ===== *)
theory AddrObj
  imports Dns
begin

text \<open>
  Address objects of the policy (src/policy/addrobj.hpp, addrobj.cpp) and their
  look-up and expansion in the configuration (src/service/cfgapi/cfgapi.cpp):
  literal CIDR blocks, and domain names that match through the answers held in
  the DNS cache.  The CIDR text functions and the cache of the socle library are
  the fields of \<open>addr_env\<close>.
\<close>

datatype access_error = NullDeref | UnknownL4 | OutOfRange

record addr_env =
  ae_from_str :: "string \<Rightarrow> cidr option"
  ae_to_str :: "cidr option \<Rightarrow> string"
  ae_dns_cache :: "string \<Rightarrow> dns_packet option"

datatype addr_obj = CidrAddress "cidr option" | FqdnAddress string

subsection \<open>Matching\<close>

definition cidr_address_contains :: "cidr option \<Rightarrow> cidr option \<Rightarrow> int" where
  "cidr_address_contains c other = ret_int (cidr_contains c other)"

definition cidr_address_match :: "cidr option \<Rightarrow> cidr option \<Rightarrow> bool" where
  "cidr_address_match b c \<longleftrightarrow> cidr_address_contains b c \<ge> 0"

definition find_dns_response :: "addr_env \<Rightarrow> string \<Rightarrow> int \<Rightarrow> dns_packet option" where
  "find_dns_response env fqdn cidr_type =
     (if cidr_type = CIDR_IPV4 then ae_dns_cache env (''A:'' @ fqdn)
      else if cidr_type = CIDR_IPV6 then ae_dns_cache env (''AAAA:'' @ fqdn)
      else None)"

fun any_answer_matches :: "cidr option list \<Rightarrow> cidr option \<Rightarrow> bool" where
  "any_answer_matches [] c = False"
| "any_answer_matches (ip # ips) c = (if cidr_address_match ip c then True else any_answer_matches ips c)"

definition fqdn_address_match :: "addr_env \<Rightarrow> string \<Rightarrow> cidr option \<Rightarrow> access_error + bool" where
  "fqdn_address_match env fqdn to_match = (case to_match of
     None \<Rightarrow> Inl NullDeref
   | Some k \<Rightarrow> (case find_dns_response env fqdn (c_proto k) of
       None \<Rightarrow> Inr False
     | Some r \<Rightarrow> Inr (any_answer_matches (get_a_anwsers r) to_match)))"

fun addr_match :: "addr_env \<Rightarrow> addr_obj \<Rightarrow> cidr option \<Rightarrow> access_error + bool" where
  "addr_match env (CidrAddress b) c = Inr (cidr_address_match b c)"
| "addr_match env (FqdnAddress f) c = fqdn_address_match env f c"

subsection \<open>Look-up and expansion\<close>

type_synonym addr_db = "string \<Rightarrow> addr_obj option"

definition lookup_address :: "addr_db \<Rightarrow> string \<Rightarrow> addr_obj option" where
  "lookup_address db name = db name"

text \<open>The answers cached for a name in one family, each printed and parsed again.\<close>

definition dns_entries :: "addr_env \<Rightarrow> string \<Rightarrow> int \<Rightarrow> cidr option list" where
  "dns_entries env fqdn family = (case find_dns_response env fqdn family of
     None \<Rightarrow> []
   | Some dns \<Rightarrow> map (\<lambda>ip. ae_from_str env (ae_to_str env ip)) (get_a_anwsers dns))"

fun expand_one :: "addr_env \<Rightarrow> addr_obj \<Rightarrow> int \<Rightarrow> access_error + cidr option list" where
  "expand_one env (CidrAddress None) family =
     (if family = CIDR_IPV4 \<or> family = CIDR_IPV6 then Inl NullDeref else Inr [None])"
| "expand_one env (CidrAddress (Some c)) family =
     (if family = CIDR_IPV4 \<and> c_proto c \<noteq> CIDR_IPV4 then Inr []
      else if family = CIDR_IPV6 \<and> c_proto c \<noteq> CIDR_IPV6 then Inr []
      else Inr [Some c])"
| "expand_one env (FqdnAddress f) family =
     Inr ((if family \<noteq> CIDR_IPV6 then dns_entries env f CIDR_IPV4 else [])
        @ (if family \<noteq> CIDR_IPV4 then dns_entries env f CIDR_IPV6 else []))"

fun expand_to_cidr :: "addr_env \<Rightarrow> addr_db \<Rightarrow> string list \<Rightarrow> int \<Rightarrow> access_error + cidr option list" where
  "expand_to_cidr env db [] family = Inr []"
| "expand_to_cidr env db (n # ns) family = (case lookup_address db n of
     None \<Rightarrow> expand_to_cidr env db ns family
   | Some obj \<Rightarrow> result_bind (expand_one env obj family) (\<lambda>xs.
       result_bind (expand_to_cidr env db ns family) (\<lambda>ys. Inr (xs @ ys))))"

section \<open>Facts\<close>

lemma contains_range: "cidr_contains b l = Inr n \<Longrightarrow> n = 0"
  by (auto simp: cidr_contains_def Let_def split: option.splits if_splits prod.splits)

lemma cidr_address_match_iff: "cidr_address_match b c \<longleftrightarrow> cidr_contains b c = Inr 0"
  by (cases "cidr_contains b c")
     (auto simp: cidr_address_match_def cidr_address_contains_def ret_int_def dest: contains_range)

lemma any_answer_matches_iff: "any_answer_matches ips c \<longleftrightarrow> (\<exists>ip\<in>set ips. cidr_address_match ip c)"
  by (induction ips) auto

lemma null_block_never_matches [simp]: "\<not> cidr_address_match None c" "\<not> cidr_address_match b None"
  by (simp_all add: cidr_address_match_iff cidr_contains_def split: option.splits)

text \<open>A host block is matched exactly by the blocks its address lies in.\<close>

definition host_block :: "cidr \<Rightarrow> bool" where
  "host_block h \<longleftrightarrow> valid_block h \<and> prefix_mask h 128"

lemma host_block_single: "host_block h \<Longrightarrow> in_block x h \<longleftrightarrow> x = c_addr h"
proof
  assume h: "host_block h" and "in_block x h"
  then have x: "length x = 16" "\<forall>k<128. getbit x k = getbit (c_addr h) k"
    using in_block_prefix[of h 128] by (auto simp: host_block_def)
  show "x = c_addr h"
  proof (rule bytes_eq_by_bits)
    show "length x = length (c_addr h)" using x(1) h by (simp add: host_block_def valid_block_def wf_cidr_def)
    show "getbit x k = getbit (c_addr h) k" if "k < 8 * length x" for k using that x by simp
  qed
next
  assume "host_block h" "x = c_addr h"
  then show "in_block x h" using own_addr_in_block by (simp add: host_block_def valid_block_def)
qed

lemma cidr_match_host:
  assumes "valid_block b" "host_block h"
  shows "cidr_address_match (Some b) (Some h) \<longleftrightarrow> c_proto b = c_proto h \<and> in_block (c_addr h) b"
proof (cases "c_proto b = c_proto h")
  case True
  then show ?thesis
    using contains_block[of b h] assms host_block_single[OF assms(2)]
    by (simp add: cidr_address_match_iff host_block_def)
next
  case False
  then show ?thesis by (simp add: cidr_address_match_iff contains_family_error)
qed

lemma answer_host_block: "answer_cidr r = Some k \<Longrightarrow> host_block k"
  using answer_cidr_payload[of r] full_mask_host(1)[of k]
  by (auto simp: host_block_def valid_block_iff split: option.splits)

lemma answer_matches_host:
  assumes "host_block h" "answer_cidr r = Some k"
  shows "cidr_address_match (Some k) (Some h) \<longleftrightarrow> c_proto k = c_proto h \<and> c_addr k = c_addr h"
proof -
  have k: "host_block k" by (rule answer_host_block[OF assms(2)])
  then have "valid_block k" by (simp add: host_block_def)
  then show ?thesis
    using cidr_match_host[OF _ assms(1)] host_block_single[OF k, of "c_addr h"] by auto
qed

text \<open>A domain name object matches a host exactly when the DNS cache holds, for the name and
  the record type of the host's family, a response with an address record of that family whose
  payload is the host's address.\<close>

theorem fqdn_match_by_answers:
  assumes "host_block h"
  shows "fqdn_address_match env f (Some h) = Inr True \<longleftrightarrow>
    (\<exists>r a. find_dns_response env f (c_proto h) = Some r \<and> a \<in> set (dp_answers_list r)
       \<and> addr_payload a = Some (c_addr h)
       \<and> c_proto h = (if da_type a = record_code A then CIDR_IPV4 else CIDR_IPV6))"
proof -
  have one: "cidr_address_match (answer_cidr a) (Some h) \<longleftrightarrow>
      addr_payload a = Some (c_addr h) \<and> c_proto h = (if da_type a = record_code A then CIDR_IPV4 else CIDR_IPV6)" for a
  proof (cases "addr_payload a")
    case None
    then show ?thesis using answer_cidr_payload[of a] by simp
  next
    case (Some x)
    then obtain k where k: "answer_cidr a = Some k" "c_addr k = x"
      "c_proto k = (if da_type a = record_code A then CIDR_IPV4 else CIDR_IPV6)"
      using answer_cidr_payload[of a] by auto
    then show ?thesis using answer_matches_host[OF assms k(1)] Some by auto
  qed
  have ty: "addr_payload a = Some x \<Longrightarrow> da_type a = record_code A \<or> da_type a = record_code AAAA" for a x
    by (auto simp: addr_payload_def split: if_splits)
  show ?thesis
  proof (cases "find_dns_response env f (c_proto h)")
    case None
    then show ?thesis by (simp add: fqdn_address_match_def)
  next
    case (Some r)
    have "fqdn_address_match env f (Some h) = Inr True \<longleftrightarrow>
        (\<exists>ip\<in>set (get_a_anwsers r). cidr_address_match ip (Some h))"
      using Some by (simp add: fqdn_address_match_def any_answer_matches_iff)
    also have "\<dots> \<longleftrightarrow> (\<exists>a\<in>set (dp_answers_list r). (da_type a = record_code A \<or> da_type a = record_code AAAA)
        \<and> cidr_address_match (answer_cidr a) (Some h))"
      unfolding get_a_anwsers_def set_map set_filter by blast
    also have "\<dots> \<longleftrightarrow> (\<exists>a\<in>set (dp_answers_list r). addr_payload a = Some (c_addr h)
        \<and> c_proto h = (if da_type a = record_code A then CIDR_IPV4 else CIDR_IPV6))"
      unfolding one using ty by blast
    finally show ?thesis unfolding Some by blast
  qed
qed

definition www_answer :: dns_answer where
  "www_answer = \<lparr>da_qname = ''www'', da_name = 0, da_type = 1, da_class = 1, da_ttl = 60,
     da_datalen = 4, da_data = [93, 184, 216, 34]\<rparr>"

definition www_env :: addr_env where
  "www_env = \<lparr>ae_from_str = (\<lambda>s. None), ae_to_str = (\<lambda>c. []),
     ae_dns_cache = (\<lambda>k. if k = ''A:www'' then Some (empty_packet\<lparr>dp_answers_list := [www_answer]\<rparr>) else None)\<rparr>"

lemma v4_host_block: "host_block (v4_block a b c d [0xff, 0xff, 0xff, 0xff])"
proof -
  have m: "replicate 12 0xff @ [0xff, 0xff, 0xff, 0xff] = replicate 16 (0xff :: byte)" by code_simp
  have "wf_cidr (v4_block a b c d [0xff, 0xff, 0xff, 0xff])"
    by (simp add: wf_cidr_def v4_block_def v4_mapped_head_def)
  then show ?thesis using full_mask_host(1)[of "v4_block a b c d [0xff, 0xff, 0xff, 0xff]"] m
    by (auto simp: host_block_def valid_block_iff v4_block_def)
qed

theorem fqdn_match_by_answers_witness:
  "fqdn_address_match www_env ''www'' (Some (v4_block 93 184 216 34 [0xff, 0xff, 0xff, 0xff])) = Inr True"
proof -
  have "find_dns_response www_env ''www'' 2 = Some (empty_packet\<lparr>dp_answers_list := [www_answer]\<rparr>)"
    by (simp add: find_dns_response_def www_env_def cidr_proto_defs)
  then show ?thesis
    using fqdn_match_by_answers[OF v4_host_block, of www_env "''www''" 93 184 216 34]
    by (auto simp: v4_block_def www_answer_def addr_payload_def cidr_proto_defs)
qed

end
