(* ===== verification/Profiles.thy ===== *)
theory Profiles
  imports AddrObj
begin

text \<open>
  Security profiles (src/policy/profiles.hpp, profiles.cpp): the profile records
  that policies refer to, the capture format names, and the load balancing state
  of routing profiles.  Shared pointers to profiles are optional values.  The
  checksum of the socle library is a parameter.
\<close>

record ProfileDetection =
  det_name :: string
  det_mode :: int
  det_engines_enabled :: bool
  det_kb_enabled :: bool

record ProfileContentRule =
  pcr_match :: string
  pcr_replace :: string
  pcr_fill_length :: bool
  pcr_replace_each_nth :: int
  pcr_replace_each_counter :: int

datatype write_format = SMCAP | PCAP_SINGLE | PCAP

definition format_map :: "(write_format \<times> string) list" where
  "format_map = [(SMCAP, ''smcap''), (PCAP, ''pcap''), (PCAP_SINGLE, ''pcap_single'')]"

definition extension_map :: "(write_format \<times> string) list" where
  "extension_map = [(SMCAP, ''smcap''), (PCAP, ''pcapng''), (PCAP_SINGLE, ''pcapng'')]"

fun format_scan :: "(write_format \<times> string) list \<Rightarrow> write_format \<Rightarrow> string" where
  "format_scan [] t = []"
| "format_scan ((k, v) # rs) t = (if k = t then v else format_scan rs t)"

definition format_to_str :: "write_format \<Rightarrow> string" where
  "format_to_str t = format_scan format_map t"

definition format_to_ext :: "write_format \<Rightarrow> string" where
  "format_to_ext t = format_scan extension_map t"

definition format_to_ext_suffix :: "write_format \<Rightarrow> string \<Rightarrow> string" where
  "format_to_ext_suffix t more_suf =
     (if more_suf = [] then more_suf @ format_to_ext t else more_suf @ ''.'' @ format_to_ext t)"

fun format_find :: "(write_format \<times> string) list \<Rightarrow> string \<Rightarrow> write_format" where
  "format_find [] s = SMCAP"
| "format_find ((k, v) # rs) s = (if v = s then k else format_find rs s)"

definition format_from_str :: "string \<Rightarrow> write_format" where
  "format_from_str s = format_find format_map s"

record ProfileContent =
  cont_name :: string
  cont_write_payload :: bool
  cont_write_format :: write_format
  cont_rules :: "ProfileContentRule list"

record ProfileTls =
  tls_name :: string
  tls_inspect :: bool
  tls_allow_untrusted_issuers :: bool
  tls_allow_invalid_certs :: bool
  tls_allow_self_signed :: bool
  tls_failed_certcheck_replacement :: bool
  tls_failed_certcheck_override :: bool
  tls_failed_certcheck_override_timeout :: int
  tls_failed_certcheck_override_timeout_type :: int
  tls_mitm_cert_sni_search :: bool
  tls_mitm_cert_ip_search :: bool
  tls_use_pfs :: bool
  tls_left_use_pfs :: bool
  tls_right_use_pfs :: bool
  tls_left_disable_reuse :: bool
  tls_right_disable_reuse :: bool
  tls_ocsp_mode :: int
  tls_ocsp_stapling :: bool
  tls_ocsp_stapling_mode :: int
  tls_ct_enable :: bool
  tls_alpn_block :: bool
  tls_sni_filter_bypass :: "string list option"
  tls_sni_filter_bypass_addrobj :: "string list"
  tls_redirect_warning_ports :: "int list option"
  tls_sni_filter_use_dns_cache :: bool
  tls_sni_filter_use_dns_domain_tree :: bool
  tls_sslkeylog :: bool

text \<open>The member initialisers of the class.\<close>

definition default_tls :: "string \<Rightarrow> ProfileTls" where
  "default_tls n = \<lparr>tls_name = n, tls_inspect = False, tls_allow_untrusted_issuers = False,
     tls_allow_invalid_certs = False, tls_allow_self_signed = False,
     tls_failed_certcheck_replacement = True, tls_failed_certcheck_override = False,
     tls_failed_certcheck_override_timeout = 600, tls_failed_certcheck_override_timeout_type = 0,
     tls_mitm_cert_sni_search = True, tls_mitm_cert_ip_search = True, tls_use_pfs = True,
     tls_left_use_pfs = True, tls_right_use_pfs = True, tls_left_disable_reuse = False,
     tls_right_disable_reuse = False, tls_ocsp_mode = 0, tls_ocsp_stapling = False,
     tls_ocsp_stapling_mode = 0, tls_ct_enable = True, tls_alpn_block = False,
     tls_sni_filter_bypass = None, tls_sni_filter_bypass_addrobj = [],
     tls_redirect_warning_ports = None, tls_sni_filter_use_dns_cache = True,
     tls_sni_filter_use_dns_domain_tree = True, tls_sslkeylog = False\<rparr>"

record ProfileAlgDns =
  alg_name :: string
  alg_match_request_id :: bool
  alg_randomize_id :: bool
  alg_cached_responses :: bool

record ProfileScript =
  scr_name :: string
  scr_module_path :: string
  scr_type :: int

subsection \<open>Routing profiles\<close>

datatype lb_method = LB_RR | LB_L3 | LB_L4

record LbState =
  rr_counter :: int
  last_refresh :: int
  candidates_v4 :: "cidr option list"
  candidates_v6 :: "cidr option list"

record ProfileRouting =
  rt_name :: string
  dnat_addresses :: "string list"
  dnat_ports :: "string list"
  dnat_lb_method :: lb_method
  lb_state :: LbState

definition refresh_interval :: int where "refresh_interval = 5"

definition AF_INET :: int where "AF_INET = 2"
definition AF_INET6 :: int where "AF_INET6 = 10"

definition expand_candidates :: "addr_env \<Rightarrow> addr_db \<Rightarrow> int \<Rightarrow> string list \<Rightarrow> LbState \<Rightarrow> access_error + LbState" where
  "expand_candidates env db now addresses st =
     (if now - last_refresh st > refresh_interval then
        let st = st\<lparr>last_refresh := now\<rparr> in
        result_bind (expand_to_cidr env db addresses AF_INET) (\<lambda>update4.
        result_bind (expand_to_cidr env db addresses AF_INET6) (\<lambda>update6.
          Inr (st\<lparr>candidates_v4 := update4, candidates_v6 := update6\<rparr>)))
      else Inr st)"

definition routing_update :: "addr_env \<Rightarrow> addr_db \<Rightarrow> int \<Rightarrow> ProfileRouting \<Rightarrow> access_error + ProfileRouting" where
  "routing_update env db now p =
     result_bind (expand_candidates env db now (dnat_addresses p) (lb_state p)) (\<lambda>st.
       Inr (p\<lparr>lb_state := st\<lparr>rr_counter := rr_counter st + 1\<rparr>\<rparr>))"

definition lb_candidates :: "ProfileRouting \<Rightarrow> int \<Rightarrow> cidr option list" where
  "lb_candidates p family = (if family = CIDR_IPV6 then candidates_v6 (lb_state p) else candidates_v4 (lb_state p))"

text \<open>The counter is a signed long that the modulus converts to \<open>size_t\<close>.\<close>

definition lb_index_rr :: "ProfileRouting \<Rightarrow> nat \<Rightarrow> nat" where
  "lb_index_rr p sz = (if sz = 0 then 0 else nat (rr_counter (lb_state p) mod 2 ^ 64) mod sz)"

text \<open>Host and port of the first client and of the first server connection of a proxy.\<close>

type_synonym endpoint = "string \<times> string"

definition crc32_proxy_key :: "(string \<Rightarrow> 32 word) \<Rightarrow> endpoint option \<Rightarrow> endpoint option \<Rightarrow> bool \<Rightarrow> 32 word" where
  "crc32_proxy_key crc32 l r add_port =
     (let key = (case l of None \<Rightarrow> [] | Some (h, _) \<Rightarrow> h);
          key = (case r of None \<Rightarrow> key | Some (h, p) \<Rightarrow> key @ h @ (if add_port then p else []))
      in crc32 key)"

definition lb_index_l3 :: "(string \<Rightarrow> 32 word) \<Rightarrow> endpoint option \<Rightarrow> endpoint option \<Rightarrow> nat \<Rightarrow> nat" where
  "lb_index_l3 crc32 l r sz = (if sz = 0 then 0 else unat (crc32_proxy_key crc32 l r False) mod sz)"

text \<open>The second argument of the call is the proxy pointer itself, true for every proxy.\<close>

definition lb_index_l4 :: "(string \<Rightarrow> 32 word) \<Rightarrow> endpoint option \<Rightarrow> endpoint option \<Rightarrow> nat \<Rightarrow> nat" where
  "lb_index_l4 crc32 l r sz = (if sz = 0 then 0 else unat (crc32_proxy_key crc32 l r True) mod sz)"

subsection \<open>Profiles of a rule\<close>

record ProfileAuthFlags =
  auth_name :: string
  auth_authenticate :: bool
  auth_resolve :: bool

record ProfileList =
  profile_content :: "ProfileContent option"
  profile_detection :: "ProfileDetection option"
  profile_tls :: "ProfileTls option"
  profile_alg_dns :: "ProfileAlgDns option"
  profile_script :: "ProfileScript option"
  profile_routing :: "ProfileRouting option"

definition no_profiles :: ProfileList where
  "no_profiles = \<lparr>profile_content = None, profile_detection = None, profile_tls = None,
     profile_alg_dns = None, profile_script = None, profile_routing = None\<rparr>"

text \<open>A sub-profile of an authentication profile carries a profile list and the name of the
  group it is chosen by; an authentication profile has a list of them.\<close>

record ProfileSubAuth =
  sub_name :: string
  sub_profiles :: ProfileList

record ProfileAuth =
  pa_flags :: ProfileAuthFlags
  sub_policies :: "ProfileSubAuth list"

section \<open>Properties\<close>

text \<open>Every capture format survives the trip through its configuration name, and a name
  that is not one of the three selects smcap.\<close>

theorem capture_format_roundtrip:
  "format_from_str (format_to_str t) = t
   \<and> (s \<notin> {''smcap'', ''pcap'', ''pcap_single''} \<longrightarrow> format_from_str s = SMCAP)"
  by (cases t) (auto simp: format_from_str_def format_to_str_def format_map_def)

theorem capture_format_roundtrip_witness: "format_from_str ''pcap-ng'' = SMCAP"
  using capture_format_roundtrip[of SMCAP "''pcap-ng''"] by simp

text \<open>The three balancing methods select an index through one interface.\<close>

locale index_chooser =
  fixes pick :: "'k \<Rightarrow> nat \<Rightarrow> nat"
  assumes pick_bound: "0 < sz \<Longrightarrow> pick k sz < sz"
    and pick_none: "pick k 0 = 0"
begin

lemma chosen_member: "xs \<noteq> [] \<Longrightarrow> xs ! pick k (length xs) \<in> set xs"
  by (simp add: pick_bound)

lemma chosen_single: "pick k 1 = 0"
  using pick_bound[of 1 k] by simp

end

interpretation rr: index_chooser lb_index_rr
  by unfold_locales (simp_all add: lb_index_rr_def)

interpretation l3: index_chooser "\<lambda>(crc32, l, r). lb_index_l3 crc32 l r"
  by unfold_locales (auto simp: lb_index_l3_def split: prod.splits)

interpretation l4: index_chooser "\<lambda>(crc32, l, r). lb_index_l4 crc32 l r"
  by unfold_locales (auto simp: lb_index_l4_def split: prod.splits)

lemma routing_update_frame:
  assumes "routing_update env db now p = Inr p'"
  shows "rr_counter (lb_state p') = rr_counter (lb_state p) + 1
    \<and> dnat_addresses p' = dnat_addresses p \<and> dnat_lb_method p' = dnat_lb_method p \<and> dnat_ports p' = dnat_ports p"
  using assms by (auto simp: routing_update_def expand_candidates_def Let_def result_bind_Inr_iff split: if_splits)

text \<open>Round robin visits the candidates in order: the index after an update is the
  successor, modulo the number of candidates, of the index before it.\<close>

theorem round_robin_steps:
  assumes "routing_update env db now p = Inr p'" "0 < sz"
    and "0 \<le> rr_counter (lb_state p)" "rr_counter (lb_state p) < 2 ^ 63"
  shows "lb_index_rr p' sz = (lb_index_rr p sz + 1) mod sz"
proof -
  obtain n where n: "rr_counter (lb_state p) = int n" using assms(3) by (metis nonneg_int_cases)
  have n': "rr_counter (lb_state p') = int n + 1"
    using routing_update_frame[OF assms(1)] n by simp
  have "nat ((int n + 1) mod 2 ^ 64) = n + 1" "nat (int n mod 2 ^ 64) = n"
    using assms(4) n by simp_all
  then have "lb_index_rr p' sz = (n + 1) mod sz" "lb_index_rr p sz = n mod sz"
    using assms(2) unfolding lb_index_rr_def n n' by (simp_all add: nat_add_distrib)
  then show ?thesis by (simp add: mod_Suc_eq)
qed

definition sample_routing :: ProfileRouting where
  "sample_routing = \<lparr>rt_name = ''dnat'', dnat_addresses = [''web''], dnat_ports = [], dnat_lb_method = LB_RR,
     lb_state = \<lparr>rr_counter = 4, last_refresh = 0,
       candidates_v4 = [], candidates_v6 = []\<rparr>\<rparr>"

theorem round_robin_steps_witness:
  "\<exists>p'. routing_update www_env (\<lambda>n. if n = ''web'' then Some (FqdnAddress ''www'') else None) 3 sample_routing = Inr p'
     \<and> lb_index_rr p' 3 = 2"
proof -
  have "\<exists>p'. routing_update www_env (\<lambda>n. if n = ''web'' then Some (FqdnAddress ''www'') else None) 3 sample_routing = Inr p'"
    by (simp add: routing_update_def expand_candidates_def refresh_interval_def sample_routing_def)
  then obtain p' where "routing_update www_env (\<lambda>n. if n = ''web'' then Some (FqdnAddress ''www'') else None) 3 sample_routing = Inr p'"
    by blast
  with round_robin_steps[OF this, of 3] show ?thesis
    by (simp add: sample_routing_def lb_index_rr_def)
qed

end
