(* ===== verification/Policy.thy ===== *)
theory Policy
  imports Profiles
begin

text \<open>
  Policy rules (src/policy/policy.hpp, policy.cpp) and the first-match search of
  the rule list with its index accessors (src/service/cfgapi/cfgapi.cpp).  A rule
  is matched against the connections of a proxy; the connection attributes the
  rules read are the fields of \<open>host_cx\<close>.  An exception of a match is the left
  of the result.
\<close>

subsection \<open>Fallible loops with early exit\<close>

fun any_res :: "('a \<Rightarrow> 'e + bool) \<Rightarrow> 'a list \<Rightarrow> 'e + bool" where
  "any_res p [] = Inr False"
| "any_res p (x # xs) = result_bind (p x) (\<lambda>b. if b then Inr True else any_res p xs)"

definition and_res :: "'e + bool \<Rightarrow> 'e + bool \<Rightarrow> 'e + bool" where
  "and_res a b = result_bind a (\<lambda>x. if x then b else Inr False)"

lemma any_res_pure: "(\<And>x. x \<in> set xs \<Longrightarrow> p x = Inr (q x)) \<Longrightarrow> any_res p xs = Inr (list_ex q xs)"
  by (induction xs) auto

lemma any_res_True: "any_res p xs = Inr True \<Longrightarrow> \<exists>x\<in>set xs. p x = Inr True"
  by (induction xs) (auto simp: result_bind_Inr_iff split: if_splits)

lemma any_res_False: "any_res p xs = Inr False \<longleftrightarrow> (\<forall>x\<in>set xs. p x = Inr False)"
  by (induction xs) (auto simp: result_bind_Inr_iff split: if_splits)

lemma and_res_simps [simp]:
  "and_res (Inr True) b = b" "and_res (Inr False) b = Inr False" "and_res (Inl e) b = Inl e"
  by (simp_all add: and_res_def)

lemma and_res_True: "and_res a b = Inr True \<longleftrightarrow> a = Inr True \<and> b = Inr True"
  by (cases a) (auto simp: and_res_def)

lemma and_res_pure: "and_res (Inr x) (Inr y) = Inr (x \<and> y)"
  by (cases x) simp_all

subsection \<open>Rules\<close>

record host_cx =
  cx_host :: string
  cx_port :: string
  cx_l4 :: "int option"

record policy_env =
  pe_addr :: addr_env
  pe_safe_val :: "string \<Rightarrow> int"

definition POLICY_ACTION_DENY :: int where "POLICY_ACTION_DENY = 0"
definition POLICY_ACTION_PASS :: int where "POLICY_ACTION_PASS = 1"
definition POLICY_NAT_NONE :: int where "POLICY_NAT_NONE = 0"
definition POLICY_NAT_AUTO :: int where "POLICY_NAT_AUTO = 1"
definition POLICY_NAT_POOL :: int where "POLICY_NAT_POOL = 2"

record policy_rule =
  cnt_matches :: "32 word"
  is_disabled :: bool
  policy_name :: string
  rule_proto :: byte
  rule_src :: "addr_obj list"
  rule_src_ports :: "(int \<times> int) list"
  rule_dst :: "addr_obj list"
  rule_dst_ports :: "(int \<times> int) list"
  rule_features :: "string list"
  rule_action :: int
  rule_nat :: int
  rule_profiles :: ProfileList
  rule_auth :: "ProfileAuth option"

definition new_rule :: "string \<Rightarrow> policy_rule" where
  "new_rule n = \<lparr>cnt_matches = 0, is_disabled = False, policy_name = n, rule_proto = 0,
     rule_src = [], rule_src_ports = [], rule_dst = [], rule_dst_ports = [], rule_features = [],
     rule_action = POLICY_ACTION_PASS, rule_nat = POLICY_NAT_NONE,
     rule_profiles = no_profiles, rule_auth = None\<rparr>"

definition match_addrgrp_cx :: "policy_env \<Rightarrow> addr_obj list \<Rightarrow> host_cx \<Rightarrow> access_error + bool" where
  "match_addrgrp_cx env sources cx =
     (if sources = [] then Inr True
      else let l = ae_from_str (pe_addr env) (cx_host cx)
           in any_res (\<lambda>comp. addr_match (pe_addr env) comp l) sources)"

definition match_rangegrp_cx :: "policy_env \<Rightarrow> (int \<times> int) list \<Rightarrow> host_cx \<Rightarrow> bool" where
  "match_rangegrp_cx env ranges cx =
     (if ranges = [] then True
      else let p = pe_safe_val env (cx_port cx)
           in if p < 0 then False else list_ex (\<lambda>(a, b). p \<ge> a \<and> p \<le> b) ranges)"

definition match_rangegrp_vecx :: "policy_env \<Rightarrow> (int \<times> int) list \<Rightarrow> host_cx list \<Rightarrow> bool" where
  "match_rangegrp_vecx env ranges vecx =
     (if vecx = [] then True else list_ex (match_rangegrp_cx env ranges) vecx)"

definition match_addrgrp_vecx :: "policy_env \<Rightarrow> addr_obj list \<Rightarrow> host_cx list \<Rightarrow> access_error + bool" where
  "match_addrgrp_vecx env sources vecx =
     (if vecx = [] then Inr True else any_res (match_addrgrp_cx env sources) vecx)"

definition SOCK_STREAM :: int where "SOCK_STREAM = 1"
definition SOCK_DGRAM :: int where "SOCK_DGRAM = 2"

definition sock_2_net :: "int \<Rightarrow> int" where
  "sock_2_net sock_type = (if sock_type = SOCK_STREAM then 6 else if sock_type = SOCK_DGRAM then 17 else 0)"

definition match_proto_cx :: "int \<Rightarrow> host_cx \<Rightarrow> access_error + bool" where
  "match_proto_cx acl_proto cx = (case cx_l4 cx of
     None \<Rightarrow> Inr False
   | Some l4 \<Rightarrow> let cx_proto = sock_2_net l4 in
       if cx_proto \<noteq> 0 then Inr (acl_proto = cx_proto) else Inl UnknownL4)"

fun all_proto :: "int \<Rightarrow> host_cx list \<Rightarrow> access_error + bool" where
  "all_proto acl_proto [] = Inr True"
| "all_proto acl_proto (cx # cxs) =
     result_bind (match_proto_cx acl_proto cx) (\<lambda>b. if b then all_proto acl_proto cxs else Inr False)"

definition match_proto_vecx :: "int \<Rightarrow> host_cx list \<Rightarrow> access_error + bool" where
  "match_proto_vecx acl_proto vec_cx = (if vec_cx = [] then Inr True else all_proto acl_proto vec_cx)"

subsection \<open>Matching a rule\<close>

text \<open>The connections of a proxy: left and right sockets and their permanently
  connected counterparts.\<close>

record proxy_view =
  pv_ls :: "host_cx list"
  pv_lda :: "host_cx list"
  pv_rs :: "host_cx list"
  pv_rda :: "host_cx list"

definition proxy_checks :: "policy_env \<Rightarrow> policy_rule \<Rightarrow> proxy_view \<Rightarrow> access_error + bool" where
  "proxy_checks env r p =
     and_res (if rule_proto r \<noteq> 0
              then and_res (match_proto_vecx (uint (rule_proto r)) (pv_ls p))
                           (match_proto_vecx (uint (rule_proto r)) (pv_lda p))
              else Inr True)
    (and_res (and_res (match_addrgrp_vecx env (rule_src r) (pv_ls p)) (match_addrgrp_vecx env (rule_src r) (pv_lda p)))
    (and_res (Inr (match_rangegrp_vecx env (rule_src_ports r) (pv_ls p) \<and> match_rangegrp_vecx env (rule_src_ports r) (pv_lda p)))
    (and_res (and_res (match_addrgrp_vecx env (rule_dst r) (pv_rs p)) (match_addrgrp_vecx env (rule_dst r) (pv_rda p)))
             (Inr (match_rangegrp_vecx env (rule_dst_ports r) (pv_rs p) \<and> match_rangegrp_vecx env (rule_dst_ports r) (pv_rda p))))))"

definition match_proxy :: "policy_env \<Rightarrow> policy_rule \<Rightarrow> proxy_view option \<Rightarrow> access_error + (bool \<times> policy_rule)" where
  "match_proxy env r p =
     (if is_disabled r then Inr (False, r)
      else case p of
        None \<Rightarrow> Inr (False, r)
      | Some p \<Rightarrow> result_bind (proxy_checks env r p) (\<lambda>b.
          if b then Inr (True, r\<lparr>cnt_matches := cnt_matches r + 1\<rparr>) else Inr (False, r)))"

definition lr_checks :: "policy_env \<Rightarrow> policy_rule \<Rightarrow> host_cx list \<Rightarrow> host_cx list \<Rightarrow> access_error + bool" where
  "lr_checks env r l ri =
     and_res (if rule_proto r \<noteq> 0 then match_proto_vecx (uint (rule_proto r)) l else Inr True)
    (and_res (match_addrgrp_vecx env (rule_src r) l)
    (and_res (Inr (match_rangegrp_vecx env (rule_src_ports r) l))
    (and_res (match_addrgrp_vecx env (rule_dst r) ri)
             (Inr (match_rangegrp_vecx env (rule_dst_ports r) ri)))))"

definition match_lr :: "policy_env \<Rightarrow> policy_rule \<Rightarrow> host_cx list \<times> host_cx list \<Rightarrow> access_error + (bool \<times> policy_rule)" where
  "match_lr env r lr =
     (if is_disabled r then Inr (False, r)
      else result_bind (lr_checks env r (fst lr) (snd lr)) (\<lambda>b.
        if b then Inr (True, r\<lparr>cnt_matches := cnt_matches r + 1\<rparr>) else Inr (False, r)))"

subsection \<open>The rule list\<close>

text \<open>The search from index \<open>x\<close> on; the returned list carries the updated counters.\<close>

fun policy_search :: "('r \<Rightarrow> 'q \<Rightarrow> 'e + (bool \<times> 'r)) \<Rightarrow> int \<Rightarrow> 'r list \<Rightarrow> 'q \<Rightarrow> 'e + (int \<times> 'r list)" where
  "policy_search m x [] q = Inr (- 1, [])"
| "policy_search m x (r # rs) q =
     result_bind (m r q) (\<lambda>(b, r').
       if b then Inr (x, r' # rs)
       else result_bind (policy_search m (x + 1) rs q) (\<lambda>(n, rs'). Inr (n, r' # rs')))"

definition policy_match :: "policy_env \<Rightarrow> policy_rule list \<Rightarrow> proxy_view option \<Rightarrow> access_error + (int \<times> policy_rule list)" where
  "policy_match env rules p = policy_search (match_proxy env) 0 rules p"

definition policy_match_lr :: "policy_env \<Rightarrow> policy_rule list \<Rightarrow> host_cx list \<Rightarrow> host_cx list \<Rightarrow> access_error + (int \<times> policy_rule list)" where
  "policy_match_lr env rules l r = policy_search (match_lr env) 0 rules (l, r)"

definition policy_action :: "policy_rule list \<Rightarrow> int \<Rightarrow> int" where
  "policy_action rules index =
     (if index < 0 then - 1
      else if index < int (length rules) then rule_action (rules ! nat index)
      else POLICY_ACTION_DENY)"

definition policy_rule_at :: "policy_rule list \<Rightarrow> int \<Rightarrow> policy_rule option" where
  "policy_rule_at rules index =
     (if index < 0 then None
      else if index < int (length rules) then Some (rules ! nat index)
      else None)"

definition policy_prof_content :: "policy_rule list \<Rightarrow> int \<Rightarrow> ProfileContent option" where
  "policy_prof_content rules index =
     (if index < 0 then None
      else if index < int (length rules) then profile_content (rule_profiles (rules ! nat index)) else None)"

definition policy_prof_detection :: "policy_rule list \<Rightarrow> int \<Rightarrow> ProfileDetection option" where
  "policy_prof_detection rules index =
     (if index < 0 then None
      else if index < int (length rules) then profile_detection (rule_profiles (rules ! nat index)) else None)"

definition policy_prof_tls :: "policy_rule list \<Rightarrow> int \<Rightarrow> ProfileTls option" where
  "policy_prof_tls rules index =
     (if index < 0 then None
      else if index < int (length rules) then profile_tls (rule_profiles (rules ! nat index)) else None)"

definition policy_prof_alg_dns :: "policy_rule list \<Rightarrow> int \<Rightarrow> ProfileAlgDns option" where
  "policy_prof_alg_dns rules index =
     (if index < 0 then None
      else if index < int (length rules) then profile_alg_dns (rule_profiles (rules ! nat index)) else None)"

definition policy_prof_script :: "policy_rule list \<Rightarrow> int \<Rightarrow> ProfileScript option" where
  "policy_prof_script rules index =
     (if index < 0 then None
      else if index < int (length rules) then profile_script (rule_profiles (rules ! nat index)) else None)"

definition policy_prof_auth :: "policy_rule list \<Rightarrow> int \<Rightarrow> ProfileAuth option" where
  "policy_prof_auth rules index =
     (if index < 0 then None
      else if index < int (length rules) then rule_auth (rules ! nat index) else None)"

section \<open>First match\<close>

text \<open>What the search needs of a match function: a match bumps the rule, anything else leaves
  it alone.\<close>

locale first_match =
  fixes m :: "'r \<Rightarrow> 'q \<Rightarrow> 'e + (bool \<times> 'r)"
    and bump :: "'r \<Rightarrow> 'r"
  assumes match_frame: "m r q = Inr (b, r') \<Longrightarrow> r' = (if b then bump r else r)"
begin

lemma search_result:
  assumes "policy_search m x rs q = Inr (n, rs')"
  shows "(\<exists>i<length rs. n = x + int i \<and> m (rs ! i) q = Inr (True, bump (rs ! i))
            \<and> (\<forall>j<i. m (rs ! j) q = Inr (False, rs ! j)) \<and> rs' = rs[i := bump (rs ! i)])
       \<or> n = - 1 \<and> rs' = rs \<and> (\<forall>r\<in>set rs. m r q = Inr (False, r))"
  using assms
proof (induction rs arbitrary: x n rs')
  case (Cons r rs)
  obtain b r' where m: "m r q = Inr (b, r')" using Cons.prems by (auto simp: result_bind_Inr_iff)
  note r' = match_frame[OF m]
  show ?case
  proof (cases b)
    case True
    then show ?thesis using Cons.prems m r' by (intro disjI1 exI[of _ 0]) simp
  next
    case False
    then obtain rs'' where s: "policy_search m (x + 1) rs q = Inr (n, rs'')" "rs' = r # rs''"
      using Cons.prems m r' by (auto simp: result_bind_Inr_iff)
    from Cons.IH[OF s(1)] show ?thesis
    proof (elim disjE exE conjE)
      fix i assume i: "i < length rs" "n = x + 1 + int i" "m (rs ! i) q = Inr (True, bump (rs ! i))"
        "\<forall>j<i. m (rs ! j) q = Inr (False, rs ! j)" "rs'' = rs[i := bump (rs ! i)]"
      then show ?thesis using m r' False s(2)
        by (intro disjI1 exI[of _ "Suc i"]) (auto simp: less_Suc_eq_0_disj)
    next
      assume "n = - 1" "rs'' = rs" "\<forall>r\<in>set rs. m r q = Inr (False, r)"
      then show ?thesis using m r' False s(2) by auto
    qed
  qed
qed simp

lemma search_length: "policy_search m x rs q = Inr (n, rs') \<Longrightarrow> length rs' = length rs"
  using search_result[of x rs q n rs'] by auto

lemma search_bound: "policy_search m 0 rs q = Inr (n, rs') \<Longrightarrow> - 1 \<le> n \<and> n < int (length rs)"
  using search_result[of 0 rs q n rs'] by auto

end

definition bump_matches :: "policy_rule \<Rightarrow> policy_rule" where
  "bump_matches r = r\<lparr>cnt_matches := cnt_matches r + 1\<rparr>"

interpretation proxy_rules: first_match "match_proxy env" bump_matches for env
  by unfold_locales
     (auto simp: match_proxy_def bump_matches_def result_bind_Inr_iff split: if_splits option.splits)

interpretation lr_rules: first_match "match_lr env" bump_matches for env
  by unfold_locales
     (auto simp: match_lr_def bump_matches_def result_bind_Inr_iff split: if_splits)

text \<open>C3: The policy chosen for a proxy is the first rule that matches: the rules before it do
  not match, only its match counter moves (by one, modulo 2 to the 32), and without a matching rule the
  result is the implicit deny -1 with the rules unchanged.\<close>

theorem policy_match_is_first:
  assumes "policy_match env rules p = Inr (n, rules')"
  shows "(\<exists>i<length rules. n = int i \<and> match_proxy env (rules ! i) p = Inr (True, bump_matches (rules ! i))
            \<and> (\<forall>j<i. match_proxy env (rules ! j) p = Inr (False, rules ! j))
            \<and> rules' = rules[i := bump_matches (rules ! i)])
       \<or> n = - 1 \<and> rules' = rules \<and> (\<forall>r\<in>set rules. match_proxy env r p = Inr (False, r))"
  using proxy_rules.search_result[OF assms[unfolded policy_match_def]] by simp

text \<open>The same for the search that is given the left and right connections (the one the SOCKS
  server uses).\<close>

theorem policy_match_lr_is_first:
  assumes "policy_match_lr env rules l r = Inr (n, rules')"
  shows "(\<exists>i<length rules. n = int i \<and> match_lr env (rules ! i) (l, r) = Inr (True, bump_matches (rules ! i))
            \<and> (\<forall>j<i. match_lr env (rules ! j) (l, r) = Inr (False, rules ! j))
            \<and> rules' = rules[i := bump_matches (rules ! i)])
       \<or> n = - 1 \<and> rules' = rules \<and> (\<forall>x\<in>set rules. match_lr env x (l, r) = Inr (False, x))"
  using lr_rules.search_result[OF assms[unfolded policy_match_lr_def]] by simp

section \<open>What a rule means\<close>

fun addr_in :: "cidr \<Rightarrow> addr_obj \<Rightarrow> bool" where
  "addr_in h (CidrAddress (Some b)) = (c_proto b = c_proto h \<and> in_block (c_addr h) b)"
| "addr_in h _ = False"

fun literal_addr :: "addr_obj \<Rightarrow> bool" where
  "literal_addr (CidrAddress (Some b)) = valid_block b"
| "literal_addr _ = False"

definition port_in :: "int \<Rightarrow> (int \<times> int) list \<Rightarrow> bool" where
  "port_in p ranges \<longleftrightarrow> ranges = [] \<or> 0 \<le> p \<and> (\<exists>(a, b)\<in>set ranges. a \<le> p \<and> p \<le> b)"

text \<open>The set-level reading of a rule for one client host and one server host.\<close>

definition rule_spec :: "policy_rule \<Rightarrow> int \<Rightarrow> cidr \<Rightarrow> int \<Rightarrow> cidr \<Rightarrow> int \<Rightarrow> bool" where
  "rule_spec r l4 hl pl hr pr \<longleftrightarrow> \<not> is_disabled r
     \<and> (rule_proto r = 0 \<or> uint (rule_proto r) = sock_2_net l4)
     \<and> (rule_src r = [] \<or> list_ex (addr_in hl) (rule_src r)) \<and> port_in pl (rule_src_ports r)
     \<and> (rule_dst r = [] \<or> list_ex (addr_in hr) (rule_dst r)) \<and> port_in pr (rule_dst_ports r)"

lemma literal_match:
  "literal_addr a \<Longrightarrow> host_block h \<Longrightarrow> addr_match env a (Some h) = Inr (addr_in h a)"
  by (cases a rule: literal_addr.cases) (simp_all add: cidr_match_host)

lemma addrgrp_literal:
  assumes "\<forall>a\<in>set as. literal_addr a" "ae_from_str (pe_addr env) (cx_host cx) = Some h" "host_block h"
  shows "match_addrgrp_vecx env as [cx] = Inr (as = [] \<or> list_ex (addr_in h) as)"
proof (cases "as = []")
  case False
  have "any_res (\<lambda>comp. addr_match (pe_addr env) comp (Some h)) as = Inr (list_ex (addr_in h) as)"
    using literal_match assms by (intro any_res_pure) blast
  then show ?thesis using False assms(2)
    by (simp add: match_addrgrp_vecx_def match_addrgrp_cx_def)
qed (simp add: match_addrgrp_vecx_def match_addrgrp_cx_def)

lemma rangegrp_spec: "match_rangegrp_vecx env rs [cx] = port_in (pe_safe_val env (cx_port cx)) rs"
  by (auto simp: match_rangegrp_vecx_def match_rangegrp_cx_def port_in_def list_ex_iff Let_def split: prod.splits)

text \<open>C30: For a TCP or UDP client and server connection and a rule with literal addresses, the
  match function decides exactly the set-level meaning of the rule: enabled, protocol, addresses
  inside the listed blocks and ports inside the listed ranges, an empty list meaning any.\<close>

theorem rule_match_refines_spec:
  assumes "\<forall>a\<in>set (rule_src r) \<union> set (rule_dst r). literal_addr a"
    and "cx_l4 cl = Some l4" "sock_2_net l4 \<noteq> 0"
    and "ae_from_str (pe_addr env) (cx_host cl) = Some hl" "host_block hl"
    and "ae_from_str (pe_addr env) (cx_host cr) = Some hr" "host_block hr"
  shows "match_lr env r ([cl], [cr]) =
    (let b = rule_spec r l4 hl (pe_safe_val env (cx_port cl)) hr (pe_safe_val env (cx_port cr))
     in Inr (b, if b then bump_matches r else r))"
proof -
  have src: "match_addrgrp_vecx env (rule_src r) [cl] = Inr (rule_src r = [] \<or> list_ex (addr_in hl) (rule_src r))"
    and dst: "match_addrgrp_vecx env (rule_dst r) [cr] = Inr (rule_dst r = [] \<or> list_ex (addr_in hr) (rule_dst r))"
    using addrgrp_literal[OF _ assms(4,5)] addrgrp_literal[OF _ assms(6,7)] assms(1) by blast+
  have proto: "match_proto_vecx (uint (rule_proto r)) [cl] = Inr (uint (rule_proto r) = sock_2_net l4)"
    using assms(2,3) by (simp add: match_proto_vecx_def match_proto_cx_def Let_def)
  show ?thesis
    unfolding match_lr_def lr_checks_def fst_conv snd_conv src dst proto rangegrp_spec rule_spec_def
    by (auto simp: and_res_pure Let_def bump_matches_def)
qed

definition lan_rule :: policy_rule where
  "lan_rule = (new_rule ''lan'')\<lparr>rule_proto := 6,
     rule_src := [CidrAddress (Some (v4_block 192 168 0 0 [0xff, 0xff, 0, 0]))], rule_dst_ports := [(443, 443)]\<rparr>"

definition lan_env :: policy_env where
  "lan_env = \<lparr>pe_addr = www_env\<lparr>ae_from_str := (\<lambda>s. if s = ''192.168.7.9''
        then Some (v4_block 192 168 7 9 [0xff, 0xff, 0xff, 0xff])
        else if s = ''10.0.0.1'' then Some (v4_block 10 0 0 1 [0xff, 0xff, 0xff, 0xff]) else None)\<rparr>,
     pe_safe_val = (\<lambda>s. if s = ''443'' then 443 else - 1)\<rparr>"

theorem rule_match_refines_spec_witness:
  "match_lr lan_env lan_rule ([\<lparr>cx_host = ''192.168.7.9'', cx_port = [], cx_l4 = Some 1\<rparr>],
                              [\<lparr>cx_host = ''10.0.0.1'', cx_port = ''443'', cx_l4 = Some 1\<rparr>])
   = Inr (True, bump_matches lan_rule)"
proof -
  have in_lan: "in_block (c_addr (v4_block 192 168 7 9 [0xff, 0xff, 0xff, 0xff])) (v4_block 192 168 0 0 [0xff, 0xff, 0, 0])"
    by code_simp
  have "rule_spec lan_rule 1 (v4_block 192 168 7 9 [0xff, 0xff, 0xff, 0xff]) (- 1)
          (v4_block 10 0 0 1 [0xff, 0xff, 0xff, 0xff]) 443"
    using in_lan by (simp add: rule_spec_def lan_rule_def new_rule_def port_in_def sock_2_net_def SOCK_STREAM_def v4_block_def)
  then show ?thesis
    using rule_match_refines_spec[of lan_rule "\<lparr>cx_host = ''192.168.7.9'', cx_port = [], cx_l4 = Some 1\<rparr>" 1 lan_env
        "v4_block 192 168 7 9 [0xff, 0xff, 0xff, 0xff]" "\<lparr>cx_host = ''10.0.0.1'', cx_port = ''443'', cx_l4 = Some 1\<rparr>"
        "v4_block 10 0 0 1 [0xff, 0xff, 0xff, 0xff]"] v4_host_block valid_block_examples(1)
    by (simp add: lan_env_def sock_2_net_def SOCK_STREAM_def lan_rule_def new_rule_def)
qed

theorem policy_match_lr_is_first_witness:
  "\<exists>n rules'. policy_match_lr lan_env [new_rule ''any''] [] [] = Inr (n, rules')
     \<and> n = 0 \<and> rules' = [bump_matches (new_rule ''any'')]"
proof -
  have "policy_match_lr lan_env [new_rule ''any''] [] [] = Inr (0, [bump_matches (new_rule ''any'')])"
    by (simp add: policy_match_lr_def match_lr_def lr_checks_def match_addrgrp_vecx_def match_rangegrp_vecx_def
        new_rule_def bump_matches_def)
  from policy_match_lr_is_first[OF this] this show ?thesis by blast
qed

theorem policy_match_is_first_witness:
  "\<exists>n rules'. policy_match lan_env [new_rule ''any''] None = Inr (n, rules') \<and> n = - 1"
proof -
  have "policy_match lan_env [new_rule ''any''] None = Inr (- 1, [new_rule ''any''])"
    by (simp add: policy_match_def match_proxy_def)
  from policy_match_is_first[OF this] this show ?thesis by blast
qed

end
