(* ===== verification/Auth.thy ===== *)
theory Auth
  imports Policy "HOL-Library.AList"
begin

text \<open>
  Identities (src/shm/shmauth.hpp, shmauth.cpp; src/policy/authfactory.hpp,
  authfactory4.cpp, authfactory6.cpp): the logon records exchanged with the
  authentication back end through shared memory, the identities built from them,
  and the two tables of identities by IP address with their refresh, look-up,
  counting, removal and time-out operations.  The shared memory tables of the socle
  library are represented by what their operations return; \<open>inet_pton\<close> and
  \<open>inet_ntop\<close> are parameters.  Hash maps are association lists with distinct keys.
\<close>

subsection \<open>Logon records\<close>

definition LOGON_INFO_USERNAME_SZ :: nat where "LOGON_INFO_USERNAME_SZ = 64"
definition LOGON_INFO_GROUPS_SZ :: nat where "LOGON_INFO_GROUPS_SZ = 128"
definition LOGON_TOKEN_TOKEN_SZ :: nat where "LOGON_TOKEN_TOKEN_SZ = 64"
definition LOGON_TOKEN_URL_SZ :: nat where "LOGON_TOKEN_URL_SZ = 512"

lemmas logon_sizes = LOGON_INFO_USERNAME_SZ_def LOGON_INFO_GROUPS_SZ_def
  LOGON_TOKEN_TOKEN_SZ_def LOGON_TOKEN_URL_SZ_def

text \<open>\<open>strncpy\<close> of a C string: at most \<open>n\<close> octets, padded with zeros; reading a C string
  fails (\<^term>\<open>None\<close>) when no terminator lies in the buffer.\<close>

definition strncpy :: "bytes \<Rightarrow> nat \<Rightarrow> string \<Rightarrow> nat \<Rightarrow> bytes" where
  "strncpy b off s n = write_at b off (take n (map ord s @ replicate n 0))"

definition cstr_at :: "bytes \<Rightarrow> nat \<Rightarrow> string option" where
  "cstr_at b off = (let t = drop off b in
     if 0 \<in> set t then Some (chars (takeWhile (\<lambda>x. x \<noteq> 0) t)) else None)"

definition logon_record_size :: "nat \<Rightarrow> nat" where
  "logon_record_size addr_size = addr_size + LOGON_INFO_USERNAME_SZ + LOGON_INFO_GROUPS_SZ"

definition make_logon_info :: "(string \<Rightarrow> bytes option) \<Rightarrow> nat \<Rightarrow> string \<Rightarrow> string \<Rightarrow> string \<Rightarrow> bytes" where
  "make_logon_info inet_pton addr_size i u g =
     (let b = replicate (logon_record_size addr_size) 0;
          b = (if addr_size = 4 \<or> addr_size = 16
               then case inet_pton i of None \<Rightarrow> b | Some a \<Rightarrow> write_at b 0 a else b);
          b = strncpy b addr_size u (LOGON_INFO_USERNAME_SZ - 1)
      in strncpy b (addr_size + LOGON_INFO_USERNAME_SZ) g (LOGON_INFO_GROUPS_SZ - 1))"

definition logon_ip :: "(bytes \<Rightarrow> string) \<Rightarrow> nat \<Rightarrow> bytes \<Rightarrow> string" where
  "logon_ip inet_ntop addr_size b = inet_ntop (take addr_size b)"

definition logon_username :: "nat \<Rightarrow> bytes \<Rightarrow> string option" where
  "logon_username addr_size b = cstr_at b addr_size"

definition logon_groups :: "nat \<Rightarrow> bytes \<Rightarrow> string option" where
  "logon_groups addr_size b = cstr_at b (addr_size + LOGON_INFO_USERNAME_SZ)"

definition logon_token :: "bytes \<Rightarrow> string option" where
  "logon_token b = cstr_at b 0"

definition logon_token_url :: "bytes \<Rightarrow> string option" where
  "logon_token_url b = cstr_at b LOGON_TOKEN_TOKEN_SZ"

definition make_logon_token :: "string \<Rightarrow> string \<Rightarrow> bytes" where
  "make_logon_token number u =
     (let b = replicate (LOGON_TOKEN_TOKEN_SZ + LOGON_TOKEN_URL_SZ) 0;
          b = write_at b 0 (take (LOGON_TOKEN_TOKEN_SZ - 1) (map ord number) @ [0])
      in strncpy b LOGON_TOKEN_TOKEN_SZ u (LOGON_TOKEN_URL_SZ - 1))"

subsection \<open>Group lists\<close>

fun index_of :: "char \<Rightarrow> string \<Rightarrow> nat option" where
  "index_of c [] = None"
| "index_of c (x # xs) = (if x = c then Some 0 else map_option Suc (index_of c xs))"

definition find_from :: "char \<Rightarrow> string \<Rightarrow> nat \<Rightarrow> nat option" where
  "find_from c s i = map_option (\<lambda>k. i + k) (index_of c (drop i s))"

lemma index_of_lt: "index_of c s = Some k \<Longrightarrow> k < length s"
  by (induction s arbitrary: k) (auto split: if_splits)

lemma find_from_lt: "find_from c s i = Some p \<Longrightarrow> i \<le> p \<and> p < length s"
  by (auto simp: find_from_def dest!: index_of_lt)

text \<open>The loop of \<open>IdentityInfoType::update\<close>: \<open>pos\<close> and \<open>old_pos\<close> are equal whenever it tests.\<close>

function groups_loop :: "string \<Rightarrow> nat \<Rightarrow> string list \<Rightarrow> string list" where
  "groups_loop groups old_pos groups_vec = (case find_from (CHR ''+'') groups old_pos of
     Some pos \<Rightarrow>
       if pos > old_pos
       then groups_loop groups (pos + 1) (groups_vec @ [take (pos - old_pos) (drop old_pos groups)])
       else groups_vec @ [drop old_pos groups]
   | None \<Rightarrow> groups_vec @ [drop old_pos groups])"
  by pat_completeness auto
termination
  by (relation "measure (\<lambda>(groups, old_pos, v). length groups - old_pos)") (auto dest: find_from_lt)

declare groups_loop.simps [simp del]

definition split_groups :: "string \<Rightarrow> string list" where
  "split_groups groups = groups_loop groups 0 []"

subsection \<open>Identities\<close>

record identity_info =
  idle_timeout :: "32 word"
  created :: "32 word"
  id_ip :: string
  id_username :: string
  id_groups :: string
  groups_vec :: "string list"
  rx_bytes :: "32 word"
  tx_bytes :: "32 word"
  last_seen_at :: "32 word"
  last_seen_policy :: "32 word"
  last_logon_info :: bytes

text \<open>A new identity at time \<open>now\<close> with the configured idle time-out.\<close>

definition new_identity :: "int \<Rightarrow> int \<Rightarrow> identity_info" where
  "new_identity now global_idle_timeout = \<lparr>idle_timeout = of_int global_idle_timeout, created = of_int now,
     id_ip = [], id_username = [], id_groups = [], groups_vec = [], rx_bytes = 0, tx_bytes = 0,
     last_seen_at = of_int now, last_seen_policy = 0, last_logon_info = []\<rparr>"

definition id_touch :: "int \<Rightarrow> identity_info \<Rightarrow> identity_info" where
  "id_touch now i = i\<lparr>last_seen_at := of_int now\<rparr>"

definition i_timeout :: "int \<Rightarrow> identity_info \<Rightarrow> bool" where
  "i_timeout now i \<longleftrightarrow> now - uint (last_seen_at i) > uint (idle_timeout i)"

definition id_update :: "string \<Rightarrow> identity_info \<Rightarrow> identity_info" where
  "id_update groups i = i\<lparr>id_groups := groups, groups_vec := split_groups groups\<rparr>"

subsection \<open>The tables\<close>

text \<open>A row of the shared table with the strings its accessors return.\<close>

record logon_row =
  lr_ip :: string
  lr_username :: string
  lr_groups :: string
  lr_buffer :: bytes

text \<open>A table: the identities by address, the entries of the shared map and its last saved
  contents.\<close>

record auth_table =
  ip_map :: "(string \<times> identity_info) list"
  shm_entries :: "logon_row list"
  shm_map :: "(string \<times> logon_row) list"
  shm_saved :: "(string \<times> logon_row) list"

definition set_identity :: "logon_row \<Rightarrow> identity_info \<Rightarrow> identity_info" where
  "set_identity rt i = id_update (lr_groups rt)
     (i\<lparr>id_ip := lr_ip rt, last_logon_info := lr_buffer rt, id_username := lr_username rt\<rparr>)"

fun merge_rows :: "int \<Rightarrow> int \<Rightarrow> logon_row list \<Rightarrow> (string \<times> identity_info) list \<Rightarrow> (string \<times> identity_info) list" where
  "merge_rows now idle [] m = m"
| "merge_rows now idle (rt # rts) m = (case map_of m (lr_ip rt) of
     Some found \<Rightarrow> merge_rows now idle rts (AList.update (lr_ip rt) (set_identity rt found) m)
   | None \<Rightarrow> merge_rows now idle rts (AList.update (lr_ip rt) (set_identity rt (new_identity now idle)) m))"

text \<open>Refresh: \<open>rc\<close> is the result of acquiring the semaphore, \<open>l_ip\<close> what load returned and
  \<open>rows\<close>, \<open>rmap\<close> the entries of the shared table after it.\<close>

definition table_refresh ::
  "int \<Rightarrow> int \<Rightarrow> int \<Rightarrow> int \<Rightarrow> logon_row list \<Rightarrow> (string \<times> logon_row) list \<Rightarrow> auth_table \<Rightarrow> int \<times> auth_table" where
  "table_refresh now idle rc l_ip rows rmap t =
     (if rc \<noteq> 0 then (- 1, t)
      else
        let t = t\<lparr>shm_entries := rows, shm_map := rmap\<rparr> in
        if l_ip \<ge> 0 then
          let m = (if l_ip = 0 \<and> ip_map t \<noteq> [] then [] else ip_map t)
          in (l_ip, t\<lparr>ip_map := merge_rows now idle (shm_entries t) m\<rparr>)
        else (0, t))"

definition table_get :: "auth_table \<Rightarrow> string \<Rightarrow> identity_info option" where
  "table_get t host = map_of (ip_map t) host"

definition table_get_groups :: "auth_table \<Rightarrow> string \<Rightarrow> string list option" where
  "table_get_groups t host = map_option groups_vec (map_of (ip_map t) host)"

definition table_inc_counters :: "string \<Rightarrow> 32 word \<Rightarrow> 32 word \<Rightarrow> auth_table \<Rightarrow> bool \<times> auth_table" where
  "table_inc_counters host rx tx t = (case map_of (ip_map t) host of
     Some i \<Rightarrow> (True, t\<lparr>ip_map := AList.update host (i\<lparr>rx_bytes := rx_bytes i + rx, tx_bytes := tx_bytes i + tx\<rparr>) (ip_map t)\<rparr>)
   | None \<Rightarrow> (False, t))"

definition table_remove :: "string \<Rightarrow> auth_table \<Rightarrow> auth_table" where
  "table_remove host t = (case map_of (ip_map t) host of
     None \<Rightarrow> t
   | Some _ \<Rightarrow>
       let t = t\<lparr>ip_map := AList.delete host (ip_map t)\<rparr> in
       (case map_of (shm_map t) host of
          None \<Rightarrow> t
        | Some _ \<Rightarrow> let m = AList.delete host (shm_map t) in t\<lparr>shm_map := m, shm_saved := m\<rparr>))"

definition timed_out :: "int \<Rightarrow> auth_table \<Rightarrow> string list" where
  "timed_out now t = map fst (filter (\<lambda>(ip, i). i_timeout now i) (ip_map t))"

definition table_timeout_check :: "int \<Rightarrow> auth_table \<Rightarrow> auth_table" where
  "table_timeout_check now t = fold table_remove (timed_out now t) t"

subsection \<open>The factory\<close>

record auth_factory =
  ip4_table :: auth_table
  ip6_table :: auth_table
  global_idle_timeout :: int

definition ip4_get :: "auth_factory \<Rightarrow> string \<Rightarrow> identity_info option" where
  "ip4_get f host = table_get (ip4_table f) host"

definition ip6_get :: "auth_factory \<Rightarrow> string \<Rightarrow> identity_info option" where
  "ip6_get f host = table_get (ip6_table f) host"

definition ip4_get_groups :: "auth_factory \<Rightarrow> string \<Rightarrow> string list option" where
  "ip4_get_groups f host = table_get_groups (ip4_table f) host"

definition ip6_get_groups :: "auth_factory \<Rightarrow> string \<Rightarrow> string list option" where
  "ip6_get_groups f host = table_get_groups (ip6_table f) host"

definition ip4_remove :: "string \<Rightarrow> auth_factory \<Rightarrow> auth_factory" where
  "ip4_remove host f = f\<lparr>ip4_table := table_remove host (ip4_table f)\<rparr>"

definition ip6_remove :: "string \<Rightarrow> auth_factory \<Rightarrow> auth_factory" where
  "ip6_remove host f = f\<lparr>ip6_table := table_remove host (ip6_table f)\<rparr>"

definition ip4_inc_counters :: "string \<Rightarrow> 32 word \<Rightarrow> 32 word \<Rightarrow> auth_factory \<Rightarrow> bool \<times> auth_factory" where
  "ip4_inc_counters host rx tx f =
     (let (r, t) = table_inc_counters host rx tx (ip4_table f) in (r, f\<lparr>ip4_table := t\<rparr>))"

definition ip6_inc_counters :: "string \<Rightarrow> 32 word \<Rightarrow> 32 word \<Rightarrow> auth_factory \<Rightarrow> bool \<times> auth_factory" where
  "ip6_inc_counters host rx tx f =
     (let (r, t) = table_inc_counters host rx tx (ip6_table f) in (r, f\<lparr>ip6_table := t\<rparr>))"

definition ip4_timeout_check :: "int \<Rightarrow> auth_factory \<Rightarrow> auth_factory" where
  "ip4_timeout_check now f = f\<lparr>ip4_table := table_timeout_check now (ip4_table f)\<rparr>"

definition ip6_timeout_check :: "int \<Rightarrow> auth_factory \<Rightarrow> auth_factory" where
  "ip6_timeout_check now f = f\<lparr>ip6_table := table_timeout_check now (ip6_table f)\<rparr>"

definition shm_ip4_table_refresh ::
  "int \<Rightarrow> int \<Rightarrow> int \<Rightarrow> logon_row list \<Rightarrow> (string \<times> logon_row) list \<Rightarrow> auth_factory \<Rightarrow> int \<times> auth_factory" where
  "shm_ip4_table_refresh now rc l_ip rows rmap f =
     (let (r, t) = table_refresh now (global_idle_timeout f) rc l_ip rows rmap (ip4_table f)
      in (r, f\<lparr>ip4_table := t\<rparr>))"

definition shm_ip6_table_refresh ::
  "int \<Rightarrow> int \<Rightarrow> int \<Rightarrow> logon_row list \<Rightarrow> (string \<times> logon_row) list \<Rightarrow> auth_factory \<Rightarrow> int \<times> auth_factory" where
  "shm_ip6_table_refresh now rc l_ip rows rmap f =
     (let (r, t) = table_refresh now (global_idle_timeout f) rc l_ip rows rmap (ip6_table f)
      in (r, f\<lparr>ip6_table := t\<rparr>))"

text \<open>Refresh of the token table: the number of rows when there are new ones, else 0.\<close>

definition shm_token_table_refresh :: "int \<Rightarrow> int \<Rightarrow> int" where
  "shm_token_table_refresh rc l_tok = (if rc \<noteq> 0 then - 1 else if l_tok > 0 then l_tok else 0)"

text \<open>Counting by the family of a connection: \<open>l3\<close> is the network protocol of its
  transport, absent when the connection or the transport is.\<close>

definition ipX_inc_counters :: "int option \<Rightarrow> string \<Rightarrow> 32 word \<Rightarrow> 32 word \<Rightarrow> auth_factory \<Rightarrow> bool \<times> auth_factory" where
  "ipX_inc_counters l3 host rx tx f = (case l3 of
     None \<Rightarrow> (False, f)
   | Some l3 \<Rightarrow>
       if l3 = AF_INET6 then ip6_inc_counters host rx tx f
       else if l3 = AF_INET \<or> l3 = 0 then ip4_inc_counters host rx tx f
       else (False, f))"

section \<open>Group lists\<close>

fun join_plus :: "string list \<Rightarrow> string" where
  "join_plus [] = []"
| "join_plus [g] = g"
| "join_plus (g # h # gs) = g @ CHR ''+'' # join_plus (h # gs)"

lemma index_of_Some:
  "index_of c s = Some k \<Longrightarrow> s = take k s @ c # drop (Suc k) s \<and> c \<notin> set (take k s)"
  by (induction s arbitrary: k) (auto split: if_splits)

lemma index_of_append: "c \<notin> set a \<Longrightarrow> index_of c (a @ c # b) = Some (length a)"
  by (induction a) auto

lemma index_of_None: "index_of c s = None \<longleftrightarrow> c \<notin> set s"
  by (induction s) auto

text \<open>The loop as a recursion on the rest of the string.\<close>

function split_rest :: "string \<Rightarrow> string list" where
  "split_rest s = (case index_of (CHR ''+'') s of
     Some k \<Rightarrow> if k > 0 then take k s # split_rest (drop (Suc k) s) else [s]
   | None \<Rightarrow> [s])"
  by pat_completeness auto
termination
  by (relation "measure length") (auto dest: index_of_lt)

declare split_rest.simps [simp del]

lemma groups_loop_rest:
  "old \<le> length g \<Longrightarrow> groups_loop g old acc = acc @ split_rest (drop old g)"
proof (induction g old acc rule: groups_loop.induct)
  case (1 g old acc)
  show ?case
  proof (cases "index_of (CHR ''+'') (drop old g)")
    case None
    then have "find_from (CHR ''+'') g old = None" by (simp add: find_from_def)
    then show ?thesis using None
      by (subst groups_loop.simps) (simp add: split_rest.simps[of "drop old g"])
  next
    case (Some k)
    then have f: "find_from (CHR ''+'') g old = Some (old + k)" by (simp add: find_from_def)
    show ?thesis
    proof (cases "k > 0")
      case True
      then have "groups_loop g (old + k + 1) (acc @ [take k (drop old g)])
          = acc @ take k (drop old g) # split_rest (drop (old + k + 1) g)"
        using 1(1)[OF f] find_from_lt[OF f] by simp
      then show ?thesis using f True Some
        by (subst groups_loop.simps) (simp add: split_rest.simps[of "drop old g"] add.commute add.left_commute)
    next
      case False
      then show ?thesis using f Some
        by (subst groups_loop.simps) (simp add: split_rest.simps[of "drop old g"])
    qed
  qed
qed

lemma split_groups_rest: "split_groups g = split_rest g"
  using groups_loop_rest[of 0 g "[]"] by (simp add: split_groups_def)

lemma split_rest_ne [simp]: "split_rest s \<noteq> []"
  by (subst split_rest.simps) (auto split: option.splits)

lemma join_split_rest: "join_plus (split_rest s) = s"
proof (induction s rule: split_rest.induct)
  case (1 s)
  show ?case
  proof (cases "index_of (CHR ''+'') s")
    case None
    then show ?thesis by (subst split_rest.simps) simp
  next
    case (Some k)
    show ?thesis
    proof (cases "k > 0")
      case True
      obtain h gs where hg: "split_rest (drop (Suc k) s) = h # gs"
        using split_rest_ne by (metis neq_Nil_conv)
      have "join_plus (h # gs) = drop (Suc k) s" using 1[OF Some True] hg by simp
      then show ?thesis using Some True hg index_of_Some[OF Some]
        by (subst split_rest.simps) simp
    next
      case False
      then show ?thesis using Some by (subst split_rest.simps) simp
    qed
  qed
qed

lemma split_rest_join:
  assumes "gs \<noteq> []" "\<forall>g\<in>set gs. g \<noteq> [] \<and> CHR ''+'' \<notin> set g"
  shows "split_rest (join_plus gs) = gs"
  using assms
proof (induction gs rule: join_plus.induct)
  case (2 g)
  then show ?case by (subst split_rest.simps) (simp add: index_of_None[THEN iffD2])
next
  case (3 g h gs)
  have "index_of (CHR ''+'') (g @ CHR ''+'' # join_plus (h # gs)) = Some (length g)"
    using 3(3) by (intro index_of_append) simp
  then show ?case using 3 by (subst split_rest.simps) simp
qed simp

text \<open>Splitting a group string at the plus signs loses nothing, whatever the string: joining
  the parts gives it back; and a list of non-empty group names without plus signs is recovered
  from its joined form.\<close>

theorem groups_roundtrip:
  "join_plus (split_groups g) = g
   \<and> (gs \<noteq> [] \<and> (\<forall>x\<in>set gs. x \<noteq> [] \<and> CHR ''+'' \<notin> set x) \<longrightarrow> split_groups (join_plus gs) = gs)"
  using join_split_rest split_rest_join by (simp add: split_groups_rest)

theorem groups_roundtrip_witness: "split_groups (join_plus [''staff'', ''vpn'']) = [''staff'', ''vpn'']"
  using groups_roundtrip[of "[]" "[''staff'', ''vpn'']"] by simp

section \<open>Identity tables\<close>

definition table_inv :: "auth_table \<Rightarrow> bool" where
  "table_inv t \<longleftrightarrow> distinct (map fst (ip_map t)) \<and> distinct (map fst (shm_map t))"

text \<open>What the clients of a table of identities rely on.\<close>

locale identity_table =
  fixes get :: "'t \<Rightarrow> string \<Rightarrow> identity_info option"
    and remove :: "string \<Rightarrow> 't \<Rightarrow> 't"
    and check :: "int \<Rightarrow> 't \<Rightarrow> 't"
    and inv :: "'t \<Rightarrow> bool"
  assumes inv_remove: "inv t \<Longrightarrow> inv (remove h t)"
    and inv_check: "inv t \<Longrightarrow> inv (check now t)"
    and get_remove: "inv t \<Longrightarrow> get (remove h t) k = (if k = h then None else get t k)"
    and get_check: "inv t \<Longrightarrow> get (check now t) k =
          (case get t k of None \<Rightarrow> None | Some i \<Rightarrow> if i_timeout now i then None else Some i)"
begin

lemma check_no_expired: "inv t \<Longrightarrow> get (check now t) k = Some i \<Longrightarrow> \<not> i_timeout now i"
  by (auto simp: get_check split: option.splits if_splits)

lemma check_keeps_live: "inv t \<Longrightarrow> get t k = Some i \<Longrightarrow> \<not> i_timeout now i \<Longrightarrow> get (check now t) k = Some i"
  by (simp add: get_check)

lemma check_idem: "inv t \<Longrightarrow> get (check now (check now t)) k = get (check now t) k"
  by (auto simp: get_check inv_check split: option.splits if_splits)

lemma remove_check: "inv t \<Longrightarrow> get (remove h (check now t)) k = get (check now (remove h t)) k"
  by (simp add: get_check get_remove inv_check inv_remove)

end

lemma table_remove_inv: "table_inv t \<Longrightarrow> table_inv (table_remove h t)"
  by (auto simp: table_inv_def table_remove_def Let_def distinct_delete split: option.splits)

lemma table_get_remove: "table_get (table_remove h t) k = (if k = h then None else table_get t k)"
  by (auto simp: table_get_def table_remove_def Let_def delete_conv' split: option.splits)

lemma fold_remove_inv: "table_inv t \<Longrightarrow> table_inv (fold table_remove hs t)"
  by (induction hs arbitrary: t) (auto simp: table_remove_inv)

lemma table_get_fold_remove:
  "table_get (fold table_remove hs t) k = (if k \<in> set hs then None else table_get t k)"
  by (induction hs arbitrary: t) (auto simp: table_get_remove)

lemma timed_out_iff:
  assumes "table_inv t"
  shows "k \<in> set (timed_out now t) \<longleftrightarrow> (\<exists>i. table_get t k = Some i \<and> i_timeout now i)"
proof -
  have d: "distinct (map fst (ip_map t))" using assms by (simp add: table_inv_def)
  have "k \<in> set (timed_out now t) \<longleftrightarrow> (\<exists>i. (k, i) \<in> set (ip_map t) \<and> i_timeout now i)"
    by (force simp: timed_out_def)
  then show ?thesis using map_of_eq_Some_iff[OF d] by (simp add: table_get_def)
qed

interpretation tab: identity_table table_get table_remove table_timeout_check table_inv
proof unfold_locales
  fix t now h k assume inv: "table_inv t"
  show "table_inv (table_remove h t)" by (rule table_remove_inv[OF inv])
  show "table_inv (table_timeout_check now t)"
    unfolding table_timeout_check_def by (rule fold_remove_inv[OF inv])
  show "table_get (table_remove h t) k = (if k = h then None else table_get t k)" by (rule table_get_remove)
  show "table_get (table_timeout_check now t) k =
      (case table_get t k of None \<Rightarrow> None | Some i \<Rightarrow> if i_timeout now i then None else Some i)"
    unfolding table_timeout_check_def table_get_fold_remove
    using timed_out_iff[OF inv, of k now] by (auto split: option.splits)
qed

definition factory_inv :: "auth_factory \<Rightarrow> bool" where
  "factory_inv f \<longleftrightarrow> table_inv (ip4_table f) \<and> table_inv (ip6_table f)"

interpretation ip4: identity_table ip4_get ip4_remove ip4_timeout_check factory_inv
  by unfold_locales
     (simp_all add: factory_inv_def ip4_get_def ip4_remove_def ip4_timeout_check_def
        tab.inv_remove tab.inv_check tab.get_remove tab.get_check)

interpretation ip6: identity_table ip6_get ip6_remove ip6_timeout_check factory_inv
  by unfold_locales
     (simp_all add: factory_inv_def ip6_get_def ip6_remove_def ip6_timeout_check_def
        tab.inv_remove tab.inv_check tab.get_remove tab.get_check)

text \<open>C24: The time-out check of either table removes exactly the identities that have been idle for
  longer than their time-out, keeps the others unchanged, and does not touch the other table.\<close>

theorem timeout_check_exact:
  assumes "factory_inv f"
  shows "ip4_get (ip4_timeout_check now f) k =
      (case ip4_get f k of None \<Rightarrow> None | Some i \<Rightarrow> if now - uint (last_seen_at i) > uint (idle_timeout i) then None else Some i)
    \<and> ip6_get (ip6_timeout_check now f) k =
      (case ip6_get f k of None \<Rightarrow> None | Some i \<Rightarrow> if now - uint (last_seen_at i) > uint (idle_timeout i) then None else Some i)
    \<and> ip6_get (ip4_timeout_check now f) k = ip6_get f k \<and> ip4_get (ip6_timeout_check now f) k = ip4_get f k
    \<and> factory_inv (ip4_timeout_check now f) \<and> factory_inv (ip6_timeout_check now f)"
  using ip4.get_check[OF assms, of now k, unfolded i_timeout_def] ip6.get_check[OF assms, of now k, unfolded i_timeout_def]
    ip4.inv_check[OF assms] ip6.inv_check[OF assms]
  by (simp add: ip4_get_def ip6_get_def ip4_timeout_check_def ip6_timeout_check_def)

definition sample_identity :: identity_info where
  "sample_identity = (new_identity 1000 600)\<lparr>id_ip := ''10.0.0.5'', id_username := ''joe''\<rparr>"

definition sample_factory :: auth_factory where
  "sample_factory = \<lparr>ip4_table = \<lparr>ip_map = [(''10.0.0.5'', sample_identity)], shm_entries = [], shm_map = [], shm_saved = []\<rparr>,
     ip6_table = \<lparr>ip_map = [], shm_entries = [], shm_map = [], shm_saved = []\<rparr>, global_idle_timeout = 600\<rparr>"

theorem timeout_check_exact_witness:
  "ip4_get (ip4_timeout_check 1601 sample_factory) ''10.0.0.5'' = None
   \<and> ip4_get (ip4_timeout_check 1600 sample_factory) ''10.0.0.5'' = Some sample_identity"
proof -
  have inv: "factory_inv sample_factory" by (simp add: factory_inv_def table_inv_def sample_factory_def)
  have g: "ip4_get sample_factory ''10.0.0.5'' = Some sample_identity"
    by (simp add: ip4_get_def table_get_def sample_factory_def)
  show ?thesis
    using timeout_check_exact[OF inv, of 1601 "''10.0.0.5''"] timeout_check_exact[OF inv, of 1600 "''10.0.0.5''"] g
    by (simp add: i_timeout_def sample_identity_def new_identity_def)
qed

text \<open>Removing an address from a table takes it out of the identities and, when it was in the
  shared table too, out of the shared map and of the contents saved for the back end; every other
  entry stays.\<close>

theorem remove_synchronises_shm:
  assumes "table_get t h = Some i"
  shows "table_get (table_remove h t) h = None \<and> map_of (shm_map (table_remove h t)) h = None
    \<and> (map_of (shm_map t) h \<noteq> None \<longrightarrow> shm_saved (table_remove h t) = shm_map (table_remove h t))
    \<and> (\<forall>k. k \<noteq> h \<longrightarrow> table_get (table_remove h t) k = table_get t k
          \<and> map_of (shm_map (table_remove h t)) k = map_of (shm_map t) k)"
  using assms
  by (auto simp: table_get_def table_remove_def Let_def delete_conv' split: option.splits)

theorem remove_synchronises_shm_witness:
  "table_get (table_remove ''10.0.0.5'' (ip4_table sample_factory)) ''10.0.0.5'' = None"
  using remove_synchronises_shm[of "ip4_table sample_factory" "''10.0.0.5''" sample_identity]
  by (simp add: sample_factory_def table_get_def)

subsection \<open>Refresh\<close>

definition last_row :: "logon_row list \<Rightarrow> string \<Rightarrow> logon_row option" where
  "last_row rows k = List.find (\<lambda>r. lr_ip r = k) (rev rows)"

lemma last_row_snoc: "last_row (rt # rts) k = (case last_row rts k of None \<Rightarrow> if lr_ip rt = k then Some rt else None | Some r \<Rightarrow> Some r)"
proof -
  have "List.find P (xs @ [x]) = (case List.find P xs of None \<Rightarrow> if P x then Some x else None | Some r \<Rightarrow> Some r)"
    for P and x :: logon_row and xs
    by (induction xs) auto
  then show ?thesis by (simp add: last_row_def)
qed

lemma last_row_ip: "last_row rts k = Some r \<Longrightarrow> lr_ip r = k"
  by (induction rts) (auto simp: last_row_snoc last_row_def[of "[]"] split: option.splits if_splits)

lemma set_identity_twice: "set_identity r (set_identity r' i) = set_identity r i"
  by (simp add: set_identity_def id_update_def)

lemma map_of_merge_rows:
  "map_of (merge_rows now idle rts m) k =
    (case last_row rts k of None \<Rightarrow> map_of m k
     | Some r \<Rightarrow> Some (set_identity r (case map_of m k of None \<Rightarrow> new_identity now idle | Some i \<Rightarrow> i)))"
proof (induction rts arbitrary: m)
  case (Cons rt rts)
  then show ?case
    by (auto simp: update_conv' last_row_snoc set_identity_twice dest: last_row_ip split: option.splits)
qed (simp add: last_row_def)

lemma merge_rows_distinct: "distinct (map fst m) \<Longrightarrow> distinct (map fst (merge_rows now idle rts m))"
  by (induction rts arbitrary: m) (auto simp: distinct_update split: option.splits)

text \<open>A refresh that obtains the table gives every address listed in it the user name and groups
  of its last row, creating the identity if it is new and otherwise keeping its counters and
  times; addresses that are not listed keep their identity, except that an empty table
  flushes them all.\<close>

theorem refresh_follows_table:
  assumes "rc = 0" "0 \<le> l_ip" "table_refresh now idle rc l_ip rows rmap t = (r, t')"
  shows "r = l_ip \<and> (\<forall>k. table_get t' k = (let old = (if l_ip = 0 then None else table_get t k) in
      case last_row rows k of
        None \<Rightarrow> old
      | Some row \<Rightarrow> Some (set_identity row (case old of None \<Rightarrow> new_identity now idle | Some i \<Rightarrow> i))))"
  using assms by (auto simp: table_refresh_def Let_def table_get_def map_of_merge_rows split: option.splits if_splits)

theorem refresh_follows_table_witness:
  "\<exists>t'. table_refresh 2000 600 0 1 [\<lparr>lr_ip = ''10.0.0.5'', lr_username = ''ann'', lr_groups = ''a+b'', lr_buffer = []\<rparr>] []
      (ip4_table sample_factory) = (1, t')
    \<and> map_option id_username (table_get t' ''10.0.0.5'') = Some ''ann''
    \<and> map_option last_seen_at (table_get t' ''10.0.0.5'') = Some 1000"
proof -
  let ?rows = "[\<lparr>lr_ip = ''10.0.0.5'', lr_username = ''ann'', lr_groups = ''a+b'', lr_buffer = []\<rparr>]"
  obtain t' r where t': "table_refresh 2000 600 0 1 ?rows [] (ip4_table sample_factory) = (r, t')" by fastforce
  have g: "table_get (ip4_table sample_factory) ''10.0.0.5'' = Some sample_identity"
    by (simp add: table_get_def sample_factory_def)
  have "r = 1 \<and> table_get t' ''10.0.0.5'' = Some (set_identity (hd ?rows) sample_identity)"
    using refresh_follows_table[OF refl _ t'] g by (simp add: last_row_def)
  then show ?thesis using t'
    by (simp add: set_identity_def id_update_def sample_identity_def new_identity_def)
qed

subsection \<open>Record layout\<close>

definition padded :: "nat \<Rightarrow> string \<Rightarrow> bytes" where
  "padded n s = take n (map ord s @ replicate n 0)"

lemma length_padded [simp]: "length (padded n s) = n"
  by (simp add: padded_def)

lemma ord_zero_iff: "ord c = 0 \<longleftrightarrow> c = CHR 0x00"
proof
  assume "ord c = 0"
  then have "chr (ord c) = chr 0" by simp
  also have "chr 0 = CHR 0x00" by code_simp
  finally show "c = CHR 0x00" by simp
next
  have "ord (CHR 0x00) = 0" by code_simp
  then show "c = CHR 0x00 \<Longrightarrow> ord c = 0" by simp
qed

lemma replicate_snoc: "replicate (Suc n) x = replicate n x @ [x]"
  by (simp add: replicate_append_same)

lemma takeWhile_padded:
  assumes "CHR 0x00 \<notin> set s"
  shows "chars (takeWhile (\<lambda>x. x \<noteq> 0) (padded n s @ 0 # rest)) = take n s"
proof -
  have nz: "takeWhile (\<lambda>x. x \<noteq> 0) (map ord t @ 0 # r) = map ord t" if "CHR 0x00 \<notin> set t" for t r
    using that ord_zero_iff by (induction t) auto
  obtain r where "padded n s @ 0 # rest = map ord (take n s) @ 0 # r"
  proof (cases "n \<le> length s")
    case True
    then show thesis using that[of rest] by (simp add: padded_def take_map)
  next
    case False
    then obtain m where m: "n = length s + Suc m" by (metis less_iff_Suc_add add_Suc_right not_le)
    have "padded n s @ 0 # rest = map ord (take n s) @ 0 # (replicate m 0 @ 0 # rest)"
      by (simp add: padded_def m)
    then show thesis by (rule that)
  qed
  moreover have "CHR 0x00 \<notin> set (take n s)" using assms by (meson in_set_takeD)
  ultimately show ?thesis by (simp add: nz)
qed

lemma write_at_middle:
  "length a = i \<Longrightarrow> length old = length xs \<Longrightarrow> write_at (a @ old @ c) i xs = a @ xs @ c"
  by (simp add: write_at_def)

lemma make_logon_info_layout:
  assumes "addr_size = 4 \<or> addr_size = 16" "inet_pton i = Some a" "length a = addr_size"
  shows "make_logon_info inet_pton addr_size i u g = a @ padded 63 u @ 0 # padded 127 g @ [0]"
proof -
  have z: "replicate (addr_size + 64 + 128) (0::byte)
      = replicate addr_size 0 @ replicate 63 0 @ (0 # replicate 127 0 @ [0])"
  proof -
    have "replicate 64 (0::byte) = replicate 63 0 @ [0]" "replicate 128 (0::byte) = replicate 127 0 @ [0]"
      using replicate_snoc[of 63 "0::byte"] replicate_snoc[of 127 "0::byte"] by simp_all
    then show ?thesis by (simp only: replicate_add append_assoc append_Cons append_Nil)
  qed
  have 1: "write_at (replicate (addr_size + 64 + 128) 0) 0 a = a @ replicate 63 0 @ (0 # replicate 127 0 @ [0])"
    unfolding z using write_at_middle[of "[]" 0 "replicate addr_size 0" a] assms(3) by simp
  have 2: "write_at (a @ replicate 63 0 @ (0 # replicate 127 0 @ [0])) addr_size (padded 63 u)
      = a @ padded 63 u @ (0 # replicate 127 0 @ [0])"
    using write_at_middle[of a addr_size] assms(3) by simp
  have 3: "write_at ((a @ padded 63 u @ [0]) @ replicate 127 0 @ [0]) (addr_size + 64) (padded 127 g)
      = (a @ padded 63 u @ [0]) @ padded 127 g @ [0]"
    using write_at_middle[of "a @ padded 63 u @ [0]" "addr_size + 64"] assms(3) by simp
  show ?thesis
    using assms(1,2) 1 2 3
    by (simp add: make_logon_info_def strncpy_def logon_record_size_def logon_sizes padded_def Let_def)
qed

text \<open>The user name and the groups written into a logon record are read back, cut to 63 and 127
  characters, and the address octets are the ones inet_pton produced.\<close>

theorem logon_record_roundtrip:
  assumes "addr_size = 4 \<or> addr_size = 16" "inet_pton i = Some a" "length a = addr_size"
    and "CHR 0x00 \<notin> set u" "CHR 0x00 \<notin> set g"
  shows "let b = make_logon_info inet_pton addr_size i u g in
    length b = logon_record_size addr_size \<and> logon_username addr_size b = Some (take 63 u)
    \<and> logon_groups addr_size b = Some (take 127 g) \<and> logon_ip inet_ntop addr_size b = inet_ntop a"
proof -
  let ?b = "a @ padded 63 u @ 0 # padded 127 g @ [0]"
  have "drop addr_size ?b = padded 63 u @ 0 # padded 127 g @ [0]" using assms(3) by simp
  then have u: "logon_username addr_size ?b = Some (take 63 u)"
    using takeWhile_padded[OF assms(4), of 63] by (simp add: logon_username_def cstr_at_def Let_def)
  have "drop (addr_size + 64) ?b = padded 127 g @ 0 # []" using assms(3) by simp
  then have g: "logon_groups addr_size ?b = Some (take 127 g)"
    using takeWhile_padded[OF assms(5), of 127 "[]"]
    by (simp add: logon_groups_def cstr_at_def Let_def logon_sizes)
  have i: "logon_ip inet_ntop addr_size ?b = inet_ntop a" using assms(3) by (simp add: logon_ip_def)
  show ?thesis
    unfolding make_logon_info_layout[where inet_pton = inet_pton, OF assms(1-3)]
    using u g i assms(3) by (simp add: logon_record_size_def logon_sizes)
qed

theorem logon_record_roundtrip_witness:
  "logon_username 4 (make_logon_info (\<lambda>_. Some [10, 0, 0, 5]) 4 ''10.0.0.5'' ''joe'' ''a+b'') = Some ''joe''"
  using logon_record_roundtrip[of 4 "\<lambda>_. Some [10, 0, 0, 5]" "''10.0.0.5''" "[10, 0, 0, 5]" "''joe''" "''a+b''"]
  by (simp add: Let_def)

end
