(* ===== verification/Conn.thy ===== *)
theory Conn
  imports Policy Auth CText
begin

text \<open>
  Connections, transports and the proxy object (\<open>src/src/proxy/mitmhost.hpp\<close>,
  \<open>src/src/proxy/mitmproxy.hpp\<close>, \<open>src/src/proxy/filters/sinkhole.hpp\<close>).

  Connection objects and transports are mutable and shared: a policy applied to one transport
  writes options of its peer. They live in an explicit store and are referred to by number. The
  base classes (\<open>baseHostCX\<close>, \<open>baseCom\<close>, \<open>SSLCom\<close>, \<open>baseProxy\<close>) belong to the socle
  library; the attributes the proxy reads are fields of the records, the operations with a
  behaviour of their own are the fields of \<open>socle_env\<close>.
\<close>

section \<open>Model\<close>

subsection \<open>Transports\<close>

record ssl_cert_opt =
  allow_unknown_issuer :: bool
  allow_self_signed_chain :: bool
  allow_not_valid :: bool
  allow_self_signed :: bool
  failed_check_replacement :: bool
  failed_check_override :: bool
  failed_check_override_timeout :: int
  failed_check_override_timeout_type :: int
  mitm_cert_sni_search :: bool
  mitm_cert_ip_search :: bool
  client_cert_action :: int

record ssl_com =
  opt_bypass :: bool
  opt_cert :: ssl_cert_opt
  left_kex_dh :: bool
  right_kex_dh :: bool
  left_no_tickets :: bool
  right_no_tickets :: bool
  ocsp_mode :: int
  ocsp_stapling_enabled :: bool
  ocsp_stapling_mode :: int
  ct_enable :: bool
  alpn_block :: bool
  sni_filter_to_bypass :: "string list option"
  sslkeylog :: bool
  verify_get :: "32 word"
  verify_extended_info :: "int list"
  target_fingerprint :: string

record com_obj =
  com_l3 :: int
  com_l4 :: int
  com_ssl :: "ssl_com option"
  com_peer :: "nat option"
  com_owner :: "nat option"
  nonlocal_dst_port :: int
  nonlocal_src :: bool
  nonlocal_src_host :: string
  nonlocal_src_port :: int

subsection \<open>Connections\<close>

datatype replacetype_t = REPLACETYPE_NONE | REPLACETYPE_HTTP
datatype replaceflags_t = REPLACE_NONE | REPLACE_REDIRECT | REPLACE_BLOCK

text \<open>Inspectors attached by the profiles.\<close>

datatype inspector = DNS_Inspector bool bool bool | PythonInspector

text \<open>The HTTP request an engine has recognised.\<close>

record app_HttpRequest =
  req_request :: string
  req_uri :: string
  req_proto :: string
  req_host :: string

text \<open>\<open>h_app_is_ssl\<close> and \<open>h_original_request\<close> are read through the pointer to the application data; the first is
  \<^term>\<open>None\<close> when there are none.\<close>

record conn =
  h_mitm :: bool
  h_host :: string
  h_port :: string
  h_socket :: int
  h_com :: "nat option"
  h_peer :: "nat option"
  h_peercom :: "nat option"
  h_waiting_for_peercom :: bool
  h_io_disabled :: bool
  h_to_read :: bytes
  h_comlog :: string
  h_write_pending :: bool
  h_out :: "bytes list"
  h_shutdown :: bool
  h_close_after_write :: bool
  h_idle_delay :: int
  meter_read_bytes :: int
  meter_write_bytes :: int
  meter_read_count :: int
  meter_write_count :: int
  h_mode :: int
  opt_engines_enabled :: bool
  opt_kb_enabled :: bool
  h_inspectors :: "inspector list"
  h_matched_policy :: int
  replacement_type :: replacetype_t
  replacement_flag :: replaceflags_t
  h_app_is_ssl :: "bool option"
  h_original_request :: string
  h_http :: "app_HttpRequest option"

record hstore =
  st_cx :: "nat \<Rightarrow> conn"
  st_com :: "nat \<Rightarrow> com_obj"

definition upd_cx :: "nat \<Rightarrow> (conn \<Rightarrow> conn) \<Rightarrow> hstore \<Rightarrow> hstore" where
  "upd_cx i f st = st\<lparr>st_cx := (st_cx st)(i := f (st_cx st i))\<rparr>"

definition upd_com :: "nat \<Rightarrow> (com_obj \<Rightarrow> com_obj) \<Rightarrow> hstore \<Rightarrow> hstore" where
  "upd_com i f st = st\<lparr>st_com := (st_com st)(i := f (st_com st i))\<rparr>"

definition upd_ssl :: "nat \<Rightarrow> (ssl_com \<Rightarrow> ssl_com) \<Rightarrow> hstore \<Rightarrow> hstore" where
  "upd_ssl i f st = upd_com i (\<lambda>c. c\<lparr>com_ssl := map_option f (com_ssl c)\<rparr>) st"

text \<open>What rule matching sees of a connection.\<close>

definition view_cx :: "hstore \<Rightarrow> nat \<Rightarrow> host_cx" where
  "view_cx st i = \<lparr>cx_host = h_host (st_cx st i), cx_port = h_port (st_cx st i),
     cx_l4 = map_option (\<lambda>k. com_l4 (st_com st k)) (h_com (st_cx st i))\<rparr>"

text \<open>The network protocol of a connection as the authentication code reads it.\<close>

definition cx_af :: "hstore \<Rightarrow> nat \<Rightarrow> int" where
  "cx_af st i = (case h_com (st_cx st i) of None \<Rightarrow> AF_INET | Some k \<Rightarrow> com_l3 (st_com st k))"

subsection \<open>The base library\<close>

text \<open>Verification codes and operations of the TLS transport, the peer link of a connection, and
  the buffer left in the source after its contents were handed to a writer.\<close>

record socle_env =
  VRF_OK :: "32 word"
  VRF_SELF_SIGNED :: "32 word"
  VRF_SELF_SIGNED_CHAIN :: "32 word"
  VRF_UNKNOWN_ISSUER :: "32 word"
  VRF_CLIENT_CERT_RQ :: "32 word"
  VRF_REVOKED :: "32 word"
  VRF_HOSTNAME_FAILED :: "32 word"
  VRF_EXTENDED_INFO :: "32 word"
  se_verify_reset :: "32 word \<Rightarrow> ssl_com \<Rightarrow> ssl_com"
  se_verify_bitcheck :: "ssl_com \<Rightarrow> 32 word \<Rightarrow> bool"
  se_opt_allowed :: "ssl_com \<Rightarrow> bool"
  se_bypass_me_and_peer :: "nat \<Rightarrow> hstore \<Rightarrow> bool \<times> hstore"
  se_set_peer :: "nat \<Rightarrow> nat \<Rightarrow> hstore \<Rightarrow> hstore"
  se_drain :: "bytes \<Rightarrow> bytes"

subsection \<open>Proxies\<close>

record SinkholeFilter =
  sink_left :: bool
  sink_right :: bool
  sink_replacement :: bytes

text \<open>A traffic logger: its format, file suffix, GRE export target (family, address, ttl) and what
  was written to it, by side.\<close>

record traffic_log =
  tl_format :: write_format
  tl_suffix :: string
  tl_ttl :: "int option"
  tl_single_only :: bool
  tl_gre :: "(int \<times> string \<times> int option) option"
  tl_status :: bool
  tl_out :: "(char \<times> bytes) list"

datatype io_event = UnsetMonitor int | SetMonitor int | SetPollHandler int | SetWriteMonitor int

record mitm_proxy =
  px_com :: nat
  px_ls :: "nat list"
  px_lda :: "nat list"
  px_rs :: "nat list"
  px_rda :: "nat list"
  px_lpc :: "nat list"
  px_rpc :: "nat list"
  px_lbs :: "nat list"
  px_rbs :: "nat list"
  px_write_payload :: bool
  px_content_rule :: "ProfileContentRule list option"
  px_tlog :: "traffic_log option"
  px_matched_policy :: int
  opt_auth_authenticate :: bool
  opt_auth_resolve :: bool
  auth_block_identity :: bool
  px_filters :: "SinkholeFilter list"
  identity_resolved :: bool
  px_identity :: "bytes option"
  ssl_handled :: bool
  px_dead :: bool
  half_holdtimer :: int
  px_replacement_msg :: string
  px_events :: "io_event list"

text \<open>A proxy as it is constructed on a transport.\<close>

definition fresh_proxy :: "nat \<Rightarrow> mitm_proxy" where
  "fresh_proxy c = \<lparr>px_com = c, px_ls = [], px_lda = [], px_rs = [], px_rda = [], px_lpc = [],
     px_rpc = [], px_lbs = [], px_rbs = [], px_write_payload = False, px_content_rule = None,
     px_tlog = None, px_matched_policy = - 1, opt_auth_authenticate = False,
     opt_auth_resolve = False, auth_block_identity = False, px_filters = [],
     identity_resolved = False, px_identity = None, ssl_handled = False, px_dead = False,
     half_holdtimer = 0, px_replacement_msg = [], px_events = []\<rparr>"

definition as_mitm :: "hstore \<Rightarrow> nat \<Rightarrow> nat option" where
  "as_mitm st i = (if h_mitm (st_cx st i) then Some i else None)"

definition first_left :: "hstore \<Rightarrow> mitm_proxy \<Rightarrow> nat option" where
  "first_left st p =
     (if px_ls p \<noteq> [] then as_mitm st (hd (px_ls p))
      else if px_lda p \<noteq> [] then as_mitm st (hd (px_lda p))
      else None)"

definition first_right :: "hstore \<Rightarrow> mitm_proxy \<Rightarrow> nat option" where
  "first_right st p =
     (if px_rs p \<noteq> [] then as_mitm st (hd (px_rs p))
      else if px_rda p \<noteq> [] then as_mitm st (hd (px_rda p))
      else None)"

definition view_proxy :: "hstore \<Rightarrow> mitm_proxy \<Rightarrow> proxy_view" where
  "view_proxy st p = \<lparr>pv_ls = map (view_cx st) (px_ls p), pv_lda = map (view_cx st) (px_lda p),
     pv_rs = map (view_cx st) (px_rs p), pv_rda = map (view_cx st) (px_rda p)\<rparr>"

section \<open>Facts\<close>

lemma upd_cx_sel [simp]:
  "st_cx (upd_cx i f st) = (st_cx st)(i := f (st_cx st i))"
  "st_com (upd_cx i f st) = st_com st"
  by (simp_all add: upd_cx_def)

lemma upd_com_sel [simp]:
  "st_com (upd_com i f st) = (st_com st)(i := f (st_com st i))"
  "st_cx (upd_com i f st) = st_cx st"
  by (simp_all add: upd_com_def)

lemma upd_ssl_sel [simp]:
  "st_cx (upd_ssl i f st) = st_cx st"
  "com_ssl (st_com (upd_ssl i f st) j) = (if j = i then map_option f (com_ssl (st_com st i)) else com_ssl (st_com st j))"
  "com_peer (st_com (upd_ssl i f st) j) = com_peer (st_com st j)"
  "com_owner (st_com (upd_ssl i f st) j) = com_owner (st_com st j)"
  "com_l3 (st_com (upd_ssl i f st) j) = com_l3 (st_com st j)"
  "com_l4 (st_com (upd_ssl i f st) j) = com_l4 (st_com st j)"
  by (simp_all add: upd_ssl_def)

lemma as_mitm_Some [simp]: "as_mitm st i = Some j \<longleftrightarrow> j = i \<and> h_mitm (st_cx st i)"
  by (auto simp: as_mitm_def)

lemma first_left_mitm: "first_left st p = Some i \<Longrightarrow> h_mitm (st_cx st i) \<and> i \<in> set (px_ls p) \<union> set (px_lda p)"
  by (auto simp: first_left_def split: if_splits)

lemma first_right_mitm: "first_right st p = Some i \<Longrightarrow> h_mitm (st_cx st i) \<and> i \<in> set (px_rs p) \<union> set (px_rda p)"
  by (auto simp: first_right_def split: if_splits)

section \<open>Concrete objects\<close>

text \<open>A base library whose operations do what their names say and a client and a server connection,
  on which the properties are exercised.\<close>

definition plain_socle :: socle_env where
  "plain_socle = \<lparr>VRF_OK = 1, VRF_SELF_SIGNED = 2, VRF_SELF_SIGNED_CHAIN = 4, VRF_UNKNOWN_ISSUER = 8,
     VRF_CLIENT_CERT_RQ = 16, VRF_REVOKED = 32, VRF_HOSTNAME_FAILED = 64, VRF_EXTENDED_INFO = 128,
     se_verify_reset = (\<lambda>c s. s\<lparr>verify_get := c\<rparr>),
     se_verify_bitcheck = (\<lambda>s m. and (verify_get s) m \<noteq> 0),
     se_opt_allowed = (\<lambda>s. False),
     se_bypass_me_and_peer = (\<lambda>k st. (True, upd_ssl k (\<lambda>s. s\<lparr>opt_bypass := True\<rparr>) st)),
     se_set_peer = (\<lambda>i j st. upd_cx i (\<lambda>c. c\<lparr>h_peer := Some j, h_peercom := h_com (st_cx st j)\<rparr>) st),
     se_drain = (\<lambda>b. [])\<rparr>"

definition plain_ssl :: "32 word \<Rightarrow> ssl_com" where
  "plain_ssl v = \<lparr>opt_bypass = False,
     opt_cert = \<lparr>allow_unknown_issuer = False, allow_self_signed_chain = False, allow_not_valid = False,
       allow_self_signed = False, failed_check_replacement = True, failed_check_override = False,
       failed_check_override_timeout = 600, failed_check_override_timeout_type = 0,
       mitm_cert_sni_search = False, mitm_cert_ip_search = False, client_cert_action = 0\<rparr>,
     left_kex_dh = True, right_kex_dh = True, left_no_tickets = False, right_no_tickets = False,
     ocsp_mode = 0, ocsp_stapling_enabled = False, ocsp_stapling_mode = 0, ct_enable = True,
     alpn_block = False, sni_filter_to_bypass = None, sslkeylog = False, verify_get = v,
     verify_extended_info = [], target_fingerprint = ''f0''\<rparr>"

definition plain_com :: "ssl_com option \<Rightarrow> nat \<Rightarrow> nat \<Rightarrow> com_obj" where
  "plain_com ssl peer owner = \<lparr>com_l3 = AF_INET, com_l4 = SOCK_STREAM, com_ssl = ssl, com_peer = Some peer,
     com_owner = Some owner, nonlocal_dst_port = 443, nonlocal_src = False, nonlocal_src_host = [],
     nonlocal_src_port = 0\<rparr>"

definition plain_conn :: "string \<Rightarrow> string \<Rightarrow> nat \<Rightarrow> nat \<Rightarrow> conn" where
  "plain_conn host port c peer = \<lparr>h_mitm = True, h_host = host, h_port = port, h_socket = int c + 5, h_com = Some c,
     h_peer = Some peer, h_peercom = Some peer, h_waiting_for_peercom = False, h_io_disabled = False,
     h_to_read = [], h_comlog = [], h_write_pending = False, h_out = [], h_shutdown = False, h_close_after_write = False,
     h_idle_delay = 0, meter_read_bytes = 0, meter_write_bytes = 0, meter_read_count = 0,
     meter_write_count = 0, h_mode = 0, opt_engines_enabled = True, opt_kb_enabled = True,
     h_inspectors = [], h_matched_policy = - 1, replacement_type = REPLACETYPE_NONE,
     replacement_flag = REPLACE_NONE, h_app_is_ssl = None, h_original_request = [], h_http = None\<rparr>"

text \<open>Client 0 on transport 0, server 1 on transport 1, both TLS with the given verification status.\<close>

definition plain_store :: "32 word \<Rightarrow> hstore" where
  "plain_store v = \<lparr>
     st_cx = (\<lambda>i. if i = 0 then plain_conn ''c'' ''40000'' 0 1 else plain_conn ''s'' ''443'' 1 0),
     st_com = (\<lambda>i. if i = 0 then plain_com (Some (plain_ssl v)) 1 0 else plain_com (Some (plain_ssl v)) 0 1)\<rparr>"

definition plain_proxy :: mitm_proxy where
  "plain_proxy = (fresh_proxy 0)\<lparr>px_ls := [0], px_rs := [1]\<rparr>"

lemmas plain_defs = plain_socle_def plain_ssl_def plain_com_def plain_conn_def plain_store_def plain_proxy_def fresh_proxy_def

lemma plain_store_simps [simp]:
  "com_ssl (st_com (plain_store v) k) = Some (plain_ssl v)"
  "com_peer (st_com (plain_store v) k) = Some (if k = 0 then 1 else 0)"
  "com_owner (st_com (plain_store v) k) = Some (if k = 0 then 0 else 1)"
  "com_l3 (st_com (plain_store v) k) = AF_INET" "com_l4 (st_com (plain_store v) k) = SOCK_STREAM"
  "h_com (st_cx (plain_store v) i) = Some (if i = 0 then 0 else 1)"
  "h_peer (st_cx (plain_store v) i) = Some (if i = 0 then 1 else 0)"
  "h_peercom (st_cx (plain_store v) i) = Some (if i = 0 then 1 else 0)"
  "h_host (st_cx (plain_store v) i) = (if i = 0 then ''c'' else ''s'')"
  "h_port (st_cx (plain_store v) i) = (if i = 0 then ''40000'' else ''443'')"
  "h_mitm (st_cx (plain_store v) i)"
  "replacement_type (st_cx (plain_store v) i) = REPLACETYPE_NONE"
  "h_to_read (st_cx (plain_store v) i) = []" "h_http (st_cx (plain_store v) i) = None"
  "h_matched_policy (st_cx (plain_store v) i) = - 1"
  by (simp_all add: plain_store_def plain_com_def plain_conn_def)

end
