(* ===== verification/DnsTtl.thy ===== *)
theory DnsTtl
  imports Dns
begin

text \<open>The positions recorded while a packet is read are at least four octets apart and lie before
  the read position, so rewriting one TTL does not disturb another.\<close>

definition apart :: "nat list \<Rightarrow> bool" where
  "apart ks \<longleftrightarrow> sorted_wrt (\<lambda>a b. a + 4 \<le> b) ks \<and> (\<forall>k\<in>set ks. 4 \<le> k)"

definition ttl_before :: "nat \<Rightarrow> dns_packet \<Rightarrow> bool" where
  "ttl_before m p \<longleftrightarrow> apart (dp_answer_ttl_idx p) \<and> (\<forall>k\<in>set (dp_answer_ttl_idx p). k + 4 \<le> m)"

lemma ttl_before_push:
  "ttl_before m p \<Longrightarrow> m \<le> k \<Longrightarrow> 4 \<le> k \<Longrightarrow> k + 4 \<le> m' \<Longrightarrow> dp_answer_ttl_idx p' = dp_answer_ttl_idx p @ [k] \<Longrightarrow> ttl_before m' p'"
  by (fastforce simp: ttl_before_def apart_def sorted_wrt_append)

lemma ttl_before_mono:
  "ttl_before m p \<Longrightarrow> m \<le> m' \<Longrightarrow> dp_answer_ttl_idx p' = dp_answer_ttl_idx p \<Longrightarrow> ttl_before m' p'"
  by (fastforce simp: ttl_before_def)

lemma answer_loop_apart:
  "answer_loop src i mc togo p = Inr (mc', togo', p') \<Longrightarrow> mc = i \<Longrightarrow> ttl_before i p \<Longrightarrow> ttl_before mc' p'"
proof (induction src i mc togo p rule: answer_loop.induct)
  case (1 src i mc togo p)
  show ?case
  proof (cases "i < sb_size src \<and> togo > 0")
    case False
    then have "answer_loop src i mc togo p = Inr (mc, togo, p)" by (subst answer_loop.simps) (erule if_not_P)
    then show ?thesis using 1(2-4) by auto
  next
    case True
    obtain ty cl ttl len d where r: "sb_get16 src (i + 2) = Some ty" "sb_get16 src (i + 4) = Some cl"
      "sb_get32 src (i + 6) = Some ttl" "sb_get32 src (i + 10) = Some len"
      "record_data src (i + DNS_HEADER_SZ) (ntohs (ucast len)) = Some d"
      using 1(2) True by (subst (asm) answer_loop.simps) (auto simp: read_or_throw_Inr Let_def)
    let ?inc = "DNS_HEADER_SZ + unat (ntohs (ucast len))"
    let ?a = "\<lparr>da_qname = construct_qname (sb_mem src) (sb_size src) 16 mc, da_name = 0, da_type = ntohs ty,
      da_class = ntohs cl, da_ttl = ntohl ttl, da_datalen = ntohs (ucast len), da_data = d\<rparr>"
    let ?p = "p\<lparr>dp_answer_ttl_idx := dp_answer_ttl_idx p @ [i + 6], dp_answers_list := dp_answers_list p @ [?a]\<rparr>"
    have step: "answer_loop src i mc togo p = answer_loop src (i + ?inc) (mc + ?inc) (togo - 1) ?p"
      using True r by (subst answer_loop.simps) (simp add: Let_def)
    have "ttl_before (i + ?inc) ?p"
      by (rule ttl_before_push[OF 1(4), of "i + 6"]) (simp_all add: DNS_HEADER_SZ_def)
    then show ?thesis
      using 1(1)[OF True refl r(1,2) refl r(3,4) refl r(5) refl refl] 1(2,3) step by auto
  qed
qed

lemma authority_loop_apart:
  "authority_loop src i mc togo p = Inr (mc', togo', p', f) \<Longrightarrow> mc = i \<Longrightarrow> ttl_before i p \<Longrightarrow>
   (if f then apart (dp_answer_ttl_idx p') else ttl_before mc' p')"
proof (induction src i mc togo p rule: authority_loop.induct)
  case (1 src i mc togo p)
  show ?case
  proof (cases "i < sb_size src \<and> togo > 0")
    case False
    then have "authority_loop src i mc togo p = Inr (mc, togo, p, False)"
      by (subst authority_loop.simps) (erule if_not_P)
    then show ?thesis using 1(2-4) by auto
  next
    case True
    define xi where "xi = fst (skip_qname (sb_mem src) i (sb_size src - i))"
    obtain ty where ty: "sb_get16 src (i + xi) = Some ty"
      using 1(2) True by (subst (asm) authority_loop.simps) (auto simp: read_or_throw_Inr Let_def xi_def)
    show ?thesis
    proof (cases "ntohs ty = record_code SOA \<or> ntohs ty = record_code NS")
      case False
      then have "authority_loop src i mc togo p = Inr (sb_size src, togo, p, True)"
        using True ty unfolding xi_def by (subst authority_loop.simps) (simp add: Let_def)
      then show ?thesis using 1(2,4) by (auto simp: ttl_before_def)
    next
      case soa: True
      let ?i = "i + (xi + 2)"
      obtain cl ttl len d where r: "sb_get16 src ?i = Some cl" "sb_get32 src (?i + 2) = Some ttl"
        "sb_get16 src (?i + 6) = Some len" "record_data src (?i + 8) (ntohs len) = Some d"
        using 1(2) True ty soa unfolding xi_def
        by (subst (asm) authority_loop.simps) (auto simp: read_or_throw_Inr Let_def)
      let ?j = "?i + (8 + unat (ntohs len))"
      let ?a = "\<lparr>da_qname = construct_qname (sb_mem src) (sb_size src) 16 mc, da_name = 0, da_type = ntohs ty,
        da_class = ntohs cl, da_ttl = ntohl ttl, da_datalen = ntohs len, da_data = d\<rparr>"
      let ?p = "p\<lparr>dp_authorities_list := dp_authorities_list p @ [?a]\<rparr>"
      have step: "authority_loop src i mc togo p = authority_loop src ?j ?j (togo - 1) ?p"
        using True ty soa r unfolding xi_def by (subst authority_loop.simps) (simp add: Let_def)
      have "ttl_before ?j ?p" by (rule ttl_before_mono[OF 1(4)]) simp_all
      then show ?thesis
        using 1(1)[OF True xi_def ty refl refl soa refl r(1,2,3) refl r(4) refl refl] 1(2,3) step by auto
    qed
  qed
qed

lemma read_opt_forward:
  assumes "buffer_ok src" "read_opt src i p = Inr (j, taken)" "taken"
  shows "i \<le> j"
  using assms(2,3) unfolding read_opt_def read_or_throw_Inr Let_def
  by (auto simp: read_or_throw_Inr split: if_splits)

lemma additional_loop_apart:
  assumes "buffer_ok src"
  shows "additional_loop src i mc togo p = Inr (mc', togo', p', f) \<Longrightarrow> ttl_before i p \<Longrightarrow> apart (dp_answer_ttl_idx p')"
  using assms
proof (induction src i mc togo p rule: additional_loop.induct)
  case (1 src i mc togo p)
  have unchanged: ?case if "additional_loop src i mc togo p = Inr (m, togo, p, g)" for m g
    using that 1(3,4) by (auto simp: ttl_before_def)
  show ?case
  proof (cases "i < sb_size src \<and> togo > 0")
    case False
    then have "additional_loop src i mc togo p = Inr (mc, togo, p, False)"
      by (subst additional_loop.simps) (erule if_not_P)
    then show ?thesis by (rule unchanged)
  next
    case True
    define xi where "xi = fst (skip_qname (sb_mem src) i (sb_size src - i))"
    obtain ty where ty: "sb_get16 src (i + xi) = Some ty"
      using 1(3) True by (subst (asm) additional_loop.simps) (auto simp: read_or_throw_Inr Let_def xi_def)
    let ?i = "i + (xi + 2)"
    consider (opt) "ntohs ty = record_code OPT"
      | (addr) "ntohs ty \<noteq> record_code OPT" "is_addr_record (ntohs ty)"
      | (other) "ntohs ty \<noteq> record_code OPT" "\<not> is_addr_record (ntohs ty)" by blast
    then show ?thesis
    proof cases
      case other
      then have "additional_loop src i mc togo p = Inr (sb_size src, togo, p, True)"
        using True ty unfolding xi_def is_addr_record_def
        by (subst additional_loop.simps) (simp add: Let_def)
      then show ?thesis by (rule unchanged)
    next
      case opt
      obtain j taken where j: "read_opt src ?i p = Inr (j, taken)"
        using 1(3) True ty opt unfolding xi_def
        by (subst (asm) additional_loop.simps) (auto simp: Let_def split: sum.splits)
      have step: "additional_loop src i mc togo p =
          (if taken then additional_loop src j j (togo - 1) p else Inr (j, togo, p, False))"
        using True ty opt j unfolding xi_def by (subst additional_loop.simps) (simp add: Let_def)
      show ?thesis
      proof (cases taken)
        case t: True
        have "ttl_before j p" using ttl_before_mono[OF 1(4)] read_opt_forward[OF 1(5) j t] by simp
        then show ?thesis
          using 1(1)[OF True xi_def ty refl refl opt j refl t] 1(3,5) step t by simp
      next
        case False
        then have "additional_loop src i mc togo p = Inr (j, togo, p, False)" using step by simp
        then show ?thesis by (rule unchanged)
      qed
    next
      case addr
      obtain cl ttl len d where r: "sb_get16 src ?i = Some cl" "sb_get32 src (?i + 2) = Some ttl"
        "sb_get16 src (?i + 2 + 4) = Some len" "record_data src (?i + 2 + 4 + 2) (ntohs len) = Some d"
        using 1(3) True ty addr unfolding xi_def is_addr_record_def
        by (subst (asm) additional_loop.simps) (auto simp: read_or_throw_Inr Let_def)
      define k where "k = ?i + 2 + 4 + 2"
      let ?j = "if unat (ntohs len) > 0 \<and> k + unat (ntohs len) \<le> sb_size src then k + unat (ntohs len) else k"
      let ?a = "\<lparr>da_qname = construct_qname (sb_mem src) (sb_size src) 16 mc, da_name = 0, da_type = ntohs ty,
        da_class = ntohs cl, da_ttl = ntohl ttl, da_datalen = ntohs len, da_data = d\<rparr>"
      let ?p = "p\<lparr>dp_answer_ttl_idx := dp_answer_ttl_idx p @ [?i + 2],
                  dp_additionals_list := dp_additionals_list p @ [?a]\<rparr>"
      have step: "additional_loop src i mc togo p = additional_loop src ?j ?j (togo - 1) ?p"
        using True ty addr r unfolding xi_def is_addr_record_def k_def
        by (subst additional_loop.simps) (simp add: Let_def)
      have "ttl_before ?j ?p"
        by (rule ttl_before_push[OF 1(4), of "?i + 2"]) (auto simp: k_def)
      then show ?thesis
        using 1(2)[OF True xi_def ty refl refl addr(1) addr(2)[unfolded is_addr_record_def] refl r(1)
            refl refl r(2) refl r(3) refl refl r(4) refl refl] 1(3,5) step unfolding k_def by auto
    qed
  qed
qed

lemma load_apart:
  assumes "buffer_ok src" "load now src empty_packet = (p, Some n)"
  shows "apart (dp_answer_ttl_idx p)"
proof -
  obtain p0 where hdr: "load_header src (empty_packet\<lparr>dp_loaded_at := now\<rparr>) = Inr p0"
    and sec: "load_sections src p0 = Inr (p, Some n)"
    using assms(2) by (auto simp: load_def Let_def result_bind_Inr_iff split: if_splits sum.splits)
  obtain m1 m2 m3 m4 p1 p2 p3 f1 f3 where
    q: "load_questions src p0 = Inr (m1, 0, p1, f1)" and a: "load_answers src m1 f1 p1 = Inr (m2, 0, p2)"
    and u: "load_authorities src m2 f1 p2 = Inr (m3, 0, p3, f3)"
    and d: "load_additionals src m3 f3 p3 = Inr (m4, p)"
    using sec by (auto simp: load_sections_def result_bind_Inr_iff split: if_splits)
  have "dp_answer_ttl_idx p1 = []"
    using load_header_frame[OF hdr] load_questions_frame[OF assms(1) q] by (auto simp: empty_packet_def)
  then have 1: "ttl_before m1 p1" by (simp add: ttl_before_def apart_def)
  have 2: "ttl_before m2 p2"
    using a 1 answer_loop_apart[of src m1 m1] by (auto simp: load_answers_def split: if_splits)
  have 3: "if f3 then apart (dp_answer_ttl_idx p3) else ttl_before m3 p3"
  proof (cases "\<not> f1 \<and> dp_authorities p2 > 0")
    case True
    then show ?thesis using u authority_loop_apart[OF _ refl 2] by (simp add: load_authorities_def)
  next
    case False
    then show ?thesis using u 2 by (auto simp: load_authorities_def ttl_before_def split: if_splits)
  qed
  show ?thesis
    using d 3 additional_loop_apart[OF assms(1)]
    by (auto simp: load_additionals_def ttl_before_def split: if_splits sum.splits)
qed

end
