(* ===== verification/DnsInspector.thy ===== *)
theory DnsInspector
  imports Conn DnsTtl
begin

text \<open>
  The DNS inspector (\<open>src/src/inspect/dnsinspector.cpp\<close>, \<open>dnsinspector.hpp\<close>) and the name helpers
  of its base class (\<open>src/src/policy/inspectors.cpp\<close>): requests are remembered by their identifier,
  answered from the cache when the profile says so, responses are checked against the remembered
  requests and the interesting ones are put into the DNS cache and the cache of sub-domains.

  The caches are instances of the socle class \<open>ptr_cache\<close>: their operations are the fields of a
  record, a parameter of the definitions; \<open>cache_ok\<close> states what they promise (a stored entry is
  found, other entries are kept or evicted). Text forms of addresses are produced by the C library.
\<close>

section \<open>Model\<close>

subsection \<open>Name helpers\<close>

fun dots_loop :: "nat \<Rightarrow> string \<Rightarrow> string \<Rightarrow> nat \<times> string" where
  "dots_loop dot_mark norm [] = (dot_mark, norm)"
| "dots_loop dot_mark norm (c # cs) =
     (if c = CHR ''.''
      then if dot_mark > 0 then dots_loop dot_mark norm cs
           else dots_loop (dot_mark + 1) (norm @ [c]) cs
      else dots_loop 0 (norm @ [c]) cs)"

text \<open>\<open>substr(0, n)\<close> cuts at most at the end; an \<open>n\<close> below zero wraps around and keeps everything.\<close>

definition remove_redundant_dots :: "string \<Rightarrow> string" where
  "remove_redundant_dots orig =
     (let (dot_mark, norm) = dots_loop 1 [] orig
      in if dot_mark > 0 then (if length norm < dot_mark then norm else take (length norm - dot_mark) norm)
         else norm)"

fun split_loop :: "char \<Rightarrow> string list \<Rightarrow> bool \<Rightarrow> string \<Rightarrow> string list \<times> bool" where
  "split_loop d ret empty_back [] = (ret, empty_back)"
| "split_loop d ret empty_back (c # cs) =
     (if c = d then split_loop d ((if ret \<noteq> [] \<and> last ret = [] then butlast ret else ret) @ [[]]) True cs
      else split_loop d (butlast ret @ [last ret @ [c]]) False cs)"

text \<open>The empty string makes the code take the last element off an empty vector (\<^term>\<open>None\<close>).\<close>

definition inspector_split :: "string \<Rightarrow> char \<Rightarrow> string list option" where
  "inspector_split str d =
     (if str = [] then None
      else let (ret, empty_back) = split_loop d [[]] True str
           in Some (if empty_back then butlast ret else ret))"

fun fqdn_loop :: "nat \<Rightarrow> nat \<Rightarrow> string \<Rightarrow> string \<Rightarrow> string list \<Rightarrow> string \<times> string" where
  "fqdn_loop n i topdom subdom [] = (topdom, subdom)"
| "fqdn_loop n i topdom subdom (x # xs) =
     (if i \<le> n - 2
      then fqdn_loop n (i + 1) topdom (subdom @ x @ (if i < n - 2 then ''.'' else [])) xs
      else fqdn_loop n (i + 1) (topdom @ x @ (if i < n then ''.'' else [])) subdom xs)"

definition split_fqdn_subdomain :: "string \<Rightarrow> (string \<times> string) option" where
  "split_fqdn_subdomain fqdn = map_option (\<lambda>dotted_fqdn.
     if length dotted_fqdn > 2 then fqdn_loop (length dotted_fqdn) 1 [] [] dotted_fqdn else ([], []))
     (inspector_split fqdn (CHR ''.''))"

subsection \<open>Caches and environment\<close>

record ('c, 'v) ptr_cache =
  pc_get :: "'c \<Rightarrow> string \<Rightarrow> 'v option"
  pc_set :: "'c \<Rightarrow> string \<Rightarrow> 'v \<Rightarrow> 'c"
  pc_touch :: "'c \<Rightarrow> string \<Rightarrow> 'v \<Rightarrow> 'c"

text \<open>\<open>pc_touch\<close> is the cache after the object stored under a key has changed in place.\<close>

definition cache_ok :: "('c, 'v) ptr_cache \<Rightarrow> bool" where
  "cache_ok pc \<longleftrightarrow>
     (\<forall>c k v. pc_get pc (pc_set pc c k v) k = Some v)
   \<and> (\<forall>c k k' v. k' \<noteq> k \<longrightarrow> pc_get pc (pc_set pc c k v) k' \<in> {None, pc_get pc c k'})
   \<and> (\<forall>c k k' v. pc_get pc (pc_touch pc c k v) k' = (if k' = k \<and> pc_get pc c k \<noteq> None then Some v else pc_get pc c k'))"

text \<open>\<open>DNS_Response\<close>: a packet and the copy of its octets kept for later answers.\<close>

record dns_response =
  rs_packet :: dns_packet
  rs_cached :: "bytes option"

record ('c, 'd, 's) dns_env =
  de_buf :: "bytes \<Rightarrow> sbuf"
  de_now :: int
  de_inet_ntoa :: "bytes \<Rightarrow> string"
  de_inet_ntop6 :: "bytes \<Rightarrow> string"
  de_dns :: "('c, dns_response) ptr_cache"
  de_domain :: "('d, 's) ptr_cache"
  de_sub :: "('s, int) ptr_cache"
  de_new_sub :: "string \<Rightarrow> 's"

definition env_buffers_ok :: "('c, 'd, 's) dns_env \<Rightarrow> bool" where
  "env_buffers_ok env \<longleftrightarrow> (\<forall>bs. holds (de_buf env bs) bs)"

subsection \<open>State\<close>

datatype inspect_verdict = OK | BLOCK | CACHED

record dns_inspector =
  opt_cached_responses :: bool
  is_tcp :: bool
  in_progress :: bool
  stage :: int
  verdict :: inspect_verdict
  cached_response :: "bytes option"
  cached_response_id :: "16 word"
  cached_response_ttl_idx :: "nat list"
  cached_response_decrement :: "32 word"
  requests :: "16 word \<Rightarrow> dns_packet option"
  responses :: int
  stored :: bool

definition new_inspector :: "bool \<Rightarrow> dns_inspector" where
  "new_inspector cached = \<lparr>opt_cached_responses = cached, is_tcp = False, in_progress = False, stage = 0,
     verdict = OK, cached_response = None, cached_response_id = 0, cached_response_ttl_idx = [],
     cached_response_decrement = 0, requests = (\<lambda>_. None), responses = 0, stored = False\<rparr>"

text \<open>What the inspector reads and writes of its connection.\<close>

record app_cx =
  apx_dst_port :: int
  apx_l4 :: int
  apx_idle_delay :: int
  apx_writebuf :: bytes
  apx_error :: bool
  apx_written :: "bytes list"

record ('c, 'd) dns_world =
  dw_insp :: dns_inspector
  dw_cx :: app_cx
  dw_cache :: 'c
  dw_domains :: 'd

subsection \<open>Operations\<close>

definition dns_interested :: "app_cx \<Rightarrow> bool" where
  "dns_interested cx \<longleftrightarrow> apx_dst_port cx = 53"

definition find_request :: "dns_inspector \<Rightarrow> 16 word \<Rightarrow> dns_packet option" where
  "find_request ins r = requests ins r"

definition validate_response :: "dns_inspector \<Rightarrow> dns_packet \<Rightarrow> bool" where
  "validate_response ins p = (case find_request ins (dp_id p) of Some _ \<Rightarrow> True | None \<Rightarrow> False)"

text \<open>Text of an address record; \<open>nice\<close> adds the family.\<close>

definition answer_ip :: "('c, 'd, 's) dns_env \<Rightarrow> bool \<Rightarrow> dns_answer \<Rightarrow> string" where
  "answer_ip env nice a =
     (if da_type a = record_code A \<and> length (da_data a) = 4
      then (if nice then ''ip4: '' else []) @ de_inet_ntoa env (da_data a)
      else if da_type a = record_code AAAA \<and> length (da_data a) = 16
      then (if nice then ''ip6: '' else []) @ de_inet_ntop6 env (da_data a)
      else [])"

definition answer_str_A :: "('c, 'd, 's) dns_env \<Rightarrow> dns_packet \<Rightarrow> string" where
  "answer_str_A env p = concat (map (\<lambda>x. '' '' @ answer_ip env True x)
     (filter (\<lambda>x. da_type x = record_code A \<or> da_type x = record_code AAAA) (dp_answers_list p)))"

text \<open>The sub-domain of a stored question; a fresh sub-domain cache is made for a new top domain.\<close>

definition store_domain :: "('c, 'd, 's) dns_env \<Rightarrow> string \<Rightarrow> string \<Rightarrow> 'd \<Rightarrow> 'd" where
  "store_domain env topdom subdom ds =
     (if topdom \<noteq> [] \<and> subdom \<noteq> [] then
        (case pc_get (de_domain env) ds topdom of
           Some sc \<Rightarrow> pc_touch (de_domain env) ds topdom (pc_set (de_sub env) sc subdom 28000)
         | None \<Rightarrow> pc_set (de_domain env) ds topdom (pc_set (de_sub env) (de_new_sub env topdom) subdom 3600))
      else ds)"

text \<open>\<open>DNS_Inspector::store\<close>: whether it was stored, and both caches after it.\<close>

definition dns_store :: "('c, 'd, 's) dns_env \<Rightarrow> dns_response \<Rightarrow> 'c \<times> 'd \<Rightarrow> bool \<times> ('c \<times> 'd)" where
  "dns_store env resp cs =
     (let p = rs_packet resp; (c, ds) = cs in
      if answer_str_A env p \<noteq> [] then
        (let question = question_str_0 p; c = pc_set (de_dns env) c question resp
         in case split_fqdn_subdomain question of
              Some (topdom, subdom) \<Rightarrow> (True, (c, store_domain env topdom subdom ds))
            | None \<Rightarrow> (True, (c, ds)))
      else (False, cs))"

text \<open>The TTL check of a cached packet; an index outside it throws.\<close>

fun ttl_check :: "sbuf \<Rightarrow> int \<Rightarrow> int \<Rightarrow> nat list \<Rightarrow> bool \<Rightarrow> bool option" where
  "ttl_check b now loaded_at [] ok = Some ok"
| "ttl_check b now loaded_at (idx # is) ok = (case sb_get32 b idx of
     None \<Rightarrow> None
   | Some w \<Rightarrow> ttl_check b now loaded_at is (if now > uint (ntohl w) + loaded_at then False else ok))"

text \<open>What the inspector does about the cache for one request; \<^term>\<open>None\<close> is the exception.\<close>

definition serve_cached :: "('c, 'd, 's) dns_env \<Rightarrow> dns_packet \<Rightarrow> 'c \<Rightarrow> dns_inspector \<Rightarrow> dns_inspector option" where
  "serve_cached env p c ins =
     (if opt_cached_responses ins \<and> (question_type_0 p = record_code A \<or> question_type_0 p = record_code AAAA) then
        (case pc_get (de_dns env) c (question_str_0 p) of
           Some e \<Rightarrow> (case rs_cached e of
               Some pkt \<Rightarrow>
                 (case ttl_check (de_buf env pkt) (de_now env) (dp_loaded_at (rs_packet e)) (dp_answer_ttl_idx (rs_packet e)) True of
                    None \<Rightarrow> None
                  | Some True \<Rightarrow> Some (ins\<lparr>verdict := CACHED, cached_response := Some pkt,
                      cached_response_id := dp_id p,
                      cached_response_ttl_idx := dp_answer_ttl_idx (rs_packet e),
                      cached_response_decrement := of_int (de_now env - dp_loaded_at (rs_packet e))\<rparr>)
                  | Some False \<Rightarrow> Some ins)
             | None \<Rightarrow> Some ins)
         | None \<Rightarrow> Some (ins\<lparr>verdict := OK, cached_response := None\<rparr>))
      else if cached_response ins \<noteq> None then Some (ins\<lparr>cached_response := None, verdict := OK\<rparr>)
      else Some ins)"

text \<open>The loops over the messages of one flow entry, at most ten rounds. The left result is an
  exception, with the state at that point.\<close>

fun request_loop :: "('c, 'd, 's) dns_env \<Rightarrow> bytes \<Rightarrow> nat \<Rightarrow> nat \<Rightarrow> ('c, 'd) dns_world \<Rightarrow> ('c, 'd) dns_world + ('c, 'd) dns_world" where
  "request_loop env xbuf 0 red w = Inr w"
| "request_loop env xbuf (Suc n) red w =
     (if red < length xbuf then
        (let cur_buf = drop red xbuf in
         case load (de_now env) (de_buf env cur_buf) empty_packet of
           (p, None) \<Rightarrow> Inr w
         | (p, Some cur_red) \<Rightarrow>
             (let cur_red = (if cur_red = 0 then length cur_buf else cur_red);
                  red = red + cur_red;
                  ins = (dw_insp w)\<lparr>requests := (requests (dw_insp w))(dp_id p \<mapsto> p)\<rparr>;
                  w = w\<lparr>dw_insp := ins, dw_cx := (dw_cx w)\<lparr>apx_idle_delay := 30\<rparr>\<rparr>
              in case serve_cached env p (dw_cache w) ins of
                   None \<Rightarrow> Inl w
                 | Some ins \<Rightarrow> request_loop env xbuf n red (w\<lparr>dw_insp := ins\<rparr>)))
      else Inr w)"

definition accept_response :: "('c, 'd, 's) dns_env \<Rightarrow> dns_response \<Rightarrow> ('c, 'd) dns_world \<Rightarrow> ('c, 'd) dns_world" where
  "accept_response env resp w =
     (if \<not> validate_response (dw_insp w) (rs_packet resp) then
        w\<lparr>dw_cx := (dw_cx w)\<lparr>apx_writebuf := [], apx_error := True\<rparr>\<rparr>
      else
        (let ins = (dw_insp w)\<lparr>responses := responses (dw_insp w) + 1\<rparr>;
             (st, (c, ds)) = dns_store env resp (dw_cache w, dw_domains w);
             ins = (if st then ins\<lparr>stored := True\<rparr> else ins)
         in w\<lparr>dw_insp := ins, dw_cache := c, dw_domains := ds,
              dw_cx := (dw_cx w)\<lparr>apx_idle_delay := (if is_tcp ins then 30 else 10)\<rparr>\<rparr>))"

fun response_loop :: "('c, 'd, 's) dns_env \<Rightarrow> bytes \<Rightarrow> nat \<Rightarrow> nat \<Rightarrow> ('c, 'd) dns_world \<Rightarrow> ('c, 'd) dns_world" where
  "response_loop env xbuf 0 red w = w"
| "response_loop env xbuf (Suc n) red w =
     (if red < length xbuf then
        (let cur_buf = drop red xbuf in
         case load (de_now env) (de_buf env cur_buf) empty_packet of
           (p, None) \<Rightarrow> w
         | (p, Some cur_red) \<Rightarrow>
             (let resp = \<lparr>rs_packet = p,
                     rs_cached = (if opt_cached_responses (dw_insp w) then Some cur_buf else None)\<rparr>
              in response_loop env xbuf n cur_red (accept_response env resp w)))
      else w)"

definition begin_inspection :: "app_cx \<Rightarrow> dns_inspector \<Rightarrow> dns_inspector" where
  "begin_inspection cx ins =
     (if \<not> in_progress ins then ins\<lparr>is_tcp := (is_tcp ins \<or> apx_l4 cx = SOCK_STREAM), in_progress := True\<rparr>
      else ins)"

definition inspect_messages :: "('c, 'd, 's) dns_env \<Rightarrow> char \<Rightarrow> bytes \<Rightarrow> nat \<Rightarrow> ('c, 'd) dns_world \<Rightarrow> ('c, 'd) dns_world + ('c, 'd) dns_world" where
  "inspect_messages env source xbuf red w =
     (if source = CHR ''r''
      then request_loop env xbuf 10 red (w\<lparr>dw_insp := (dw_insp w)\<lparr>stage := 0\<rparr>\<rparr>)
      else if source = CHR ''w''
      then Inr (response_loop env xbuf 10 red (w\<lparr>dw_insp := (dw_insp w)\<lparr>stage := 1\<rparr>\<rparr>))
      else Inr w)"

text \<open>\<open>DNS_Inspector::update\<close> on the last entry of the flow.\<close>

definition update :: "('c, 'd, 's) dns_env \<Rightarrow> char \<times> bytes \<Rightarrow> ('c, 'd) dns_world \<Rightarrow> ('c, 'd) dns_world + ('c, 'd) dns_world" where
  "update env entry w =
     (let (source, xbuf) = entry; w = w\<lparr>dw_insp := begin_inspection (dw_cx w) (dw_insp w)\<rparr>
      in if is_tcp (dw_insp w) then
           (case sb_get16 (de_buf env xbuf) 0 of
              None \<Rightarrow> Inl w
            | Some data_size \<Rightarrow>
                if length xbuf < unat (ntohs data_size) then Inr w
                else inspect_messages env source xbuf 2 w)
         else inspect_messages env source xbuf 0 w)"

definition store32 :: "bytes \<Rightarrow> nat \<Rightarrow> 32 word \<Rightarrow> bytes" where
  "store32 b i w = b[i := octet 0 w, i + 1 := octet 1 w, i + 2 := octet 2 w, i + 3 := octet 3 w]"

fun mangle_ttl :: "(bytes \<Rightarrow> sbuf) \<Rightarrow> 32 word \<Rightarrow> nat list \<Rightarrow> bytes \<Rightarrow> bytes option" where
  "mangle_ttl buf decr [] b = Some b"
| "mangle_ttl buf decr (i # is) b = (case sb_get32 (buf b) i of
     None \<Rightarrow> None
   | Some w \<Rightarrow> mangle_ttl buf decr is (store32 b i (ntohl (ntohl w - decr))))"

text \<open>\<open>apply_verdict\<close>: the answer written to the client (\<^term>\<open>Inl\<close>: the exception).\<close>

definition apply_verdict :: "('c, 'd, 's) dns_env \<Rightarrow> dns_inspector \<Rightarrow> app_cx \<Rightarrow> (dns_inspector \<times> app_cx) option" where
  "apply_verdict env ins cx = (case cached_response ins of
     None \<Rightarrow> Some (ins, cx)
   | Some b \<Rightarrow>
       (case mangle_ttl (de_buf env) (cached_response_decrement ins) (cached_response_ttl_idx ins)
               (store16 b 0 (htons (cached_response_id ins))) of
          None \<Rightarrow> None
        | Some b \<Rightarrow>
            (let out = (if is_tcp ins then store16 [0, 0] 0 (htons (of_nat (length b))) @ b else b)
             in Some (ins\<lparr>cached_response := Some b\<rparr>, cx\<lparr>apx_written := apx_written cx @ [out]\<rparr>))))"


section \<open>Names\<close>

text \<open>The reference: cut at every delimiter.\<close>

fun pieces :: "char \<Rightarrow> string \<Rightarrow> string list" where
  "pieces d [] = [[]]"
| "pieces d (c # cs) = (if c = d then [] # pieces d cs else (c # hd (pieces d cs)) # tl (pieces d cs))"

lemma pieces_not_Nil [simp]: "pieces d s \<noteq> []"
  by (cases s) simp_all

abbreviation nonempty :: "string list \<Rightarrow> string list" where
  "nonempty \<equiv> filter (\<lambda>x. x \<noteq> [])"

lemma split_loop_pieces:
  assumes "split_loop d (pre @ [cur]) (cur = []) s = (ret, eb)" "[] \<notin> set pre"
  shows "(if eb then butlast ret else ret) = pre @ nonempty ((cur @ hd (pieces d s)) # tl (pieces d s))"
  using assms
proof (induction s arbitrary: pre cur)
  case Nil
  then show ?case by auto
next
  case (Cons c s)
  have ne: "hd (pieces d s) # tl (pieces d s) = pieces d s" by simp
  show ?case
  proof (cases "c = d")
    case True
    show ?thesis
    proof (cases "cur = []")
      case cur: True
      then have "split_loop d (pre @ [[]]) ([] = ([] :: string)) s = (ret, eb)" using Cons.prems(1) True by simp
      from Cons.IH[OF this Cons.prems(2)] show ?thesis using cur True ne by simp
    next
      case cur: False
      then have "split_loop d ((pre @ [cur]) @ [[]]) ([] = ([] :: string)) s = (ret, eb)" using Cons.prems(1) True by simp
      from Cons.IH[OF this] Cons.prems(2) cur show ?thesis using True ne by simp
    qed
  next
    case False
    then have "split_loop d (pre @ [cur @ [c]]) (cur @ [c] = []) s = (ret, eb)" using Cons.prems(1) by simp
    from Cons.IH[OF this Cons.prems(2)] show ?thesis using False by simp
  qed
qed

text \<open>The splitting loop of the inspectors, which edits the last element of its result in place,
  computes the non-empty pieces between the delimiters, in order.\<close>

theorem inspector_split_is_pieces:
  assumes "str \<noteq> []"
  shows "inspector_split str d = Some (nonempty (pieces d str))"
proof -
  obtain ret eb where r: "split_loop d ([] @ [[]]) (([]::string) = []) str = (ret, eb)" by fastforce
  have "(if eb then butlast ret else ret) = nonempty (hd (pieces d str) # tl (pieces d str))"
    using split_loop_pieces[OF r] by simp
  then show ?thesis using r assms by (simp add: inspector_split_def)
qed

theorem inspector_split_is_pieces_witness:
  "inspector_split ''.a..bc.'' (CHR ''.'') = Some (nonempty (pieces (CHR ''.'') ''.a..bc.''))
   \<and> inspector_split ''.a..bc.'' (CHR ''.'') = Some [''a'', ''bc'']"
  using inspector_split_is_pieces[of "''.a..bc.''" "CHR ''.''"] by simp

lemma join_dots_Cons: "xs \<noteq> [] \<Longrightarrow> join_dots (x # xs) = x @ ''.'' @ join_dots xs"
  by (cases xs) simp_all

lemma fqdn_loop_top:
  "n - 2 < i \<Longrightarrow> i + length xs = n + 1 \<Longrightarrow> fqdn_loop n i t s xs = (t @ join_dots xs, s)"
proof (induction xs arbitrary: i t)
  case (Cons x xs)
  then have *: "fqdn_loop n (i + 1) u s xs = (u @ join_dots xs, s)" for u by simp
  have "i < n \<longleftrightarrow> xs \<noteq> []" using Cons.prems(2) by auto
  then show ?case using Cons.prems(1) *
    by (cases "xs = []") (simp_all add: join_dots_Cons)
qed simp

lemma fqdn_loop_sub:
  "length ys = 2 \<Longrightarrow> 2 \<le> n \<Longrightarrow> i + length xs = n - 1 \<Longrightarrow>
   fqdn_loop n i [] s (xs @ ys) = (join_dots ys, s @ join_dots xs)"
proof (induction xs arbitrary: i s)
  case Nil
  then show ?case using fqdn_loop_top[of n i ys "[]" s] by simp
next
  case (Cons x xs)
  then have *: "fqdn_loop n (i + 1) [] u (xs @ ys) = (join_dots ys, u @ join_dots xs)" for u by simp
  have "i < n - 2 \<longleftrightarrow> xs \<noteq> []" "i \<le> n - 2"
    using Cons.prems(2,3) by (cases n rule: nat.exhaust; cases xs; simp; linarith)+
  then show ?case using * by (cases "xs = []") (simp_all add: join_dots_Cons)
qed

text \<open>A name of more than two pieces is cut into everything before the last two and the last two.\<close>

lemma split_fqdn_subdomain_eq:
  assumes "nonempty (pieces (CHR ''.'') fqdn) = xs @ ys" "length ys = 2" "xs \<noteq> []" "fqdn \<noteq> []"
  shows "split_fqdn_subdomain fqdn = Some (join_dots ys, join_dots xs)"
proof -
  have "inspector_split fqdn (CHR ''.'') = Some (xs @ ys)"
  proof -
    obtain ret eb where r: "split_loop (CHR ''.'') ([] @ [[]]) (([]::string) = []) fqdn = (ret, eb)" by fastforce
    show ?thesis using split_loop_pieces[OF r] r assms(1,4) by (simp add: inspector_split_def)
  qed
  moreover have "fqdn_loop (length xs + 2) 1 [] [] (xs @ ys) = (join_dots ys, join_dots xs)"
    using fqdn_loop_sub[OF assms(2), of "length xs + 2" 1 xs "[]"] by simp
  ultimately show ?thesis using assms(2,3) by (simp add: split_fqdn_subdomain_def)
qed

section \<open>Responses\<close>

lemma cache_okD:
  assumes "cache_ok pc"
  shows "pc_get pc (pc_set pc c k v) k = Some v"
    and "pc_get pc (pc_set pc c k v) k' = Some u \<Longrightarrow> k' \<noteq> k \<Longrightarrow> pc_get pc c k' = Some u"
    and "pc_get pc (pc_touch pc c k v) k' = (if k' = k \<and> pc_get pc c k \<noteq> None then Some v else pc_get pc c k')"
  using assms unfolding cache_ok_def by (blast, metis empty_iff insertE option.distinct(1), blast)

lemma answer_str_A_empty_iff:
  "answer_str_A env p = [] \<longleftrightarrow> (\<forall>x\<in>set (dp_answers_list p). da_type x \<noteq> record_code A \<and> da_type x \<noteq> record_code AAAA)"
  by (auto simp: answer_str_A_def)

lemma dns_store_cache:
  "fst (snd (dns_store env resp (c, ds))) =
     (if answer_str_A env (rs_packet resp) \<noteq> [] then pc_set (de_dns env) c (question_str_0 (rs_packet resp)) resp else c)"
  by (auto simp: dns_store_def Let_def split: option.splits)

lemma accept_response_requests [simp]:
  "requests (dw_insp (accept_response env resp w)) = requests (dw_insp w)"
  by (auto simp: accept_response_def Let_def split: prod.splits)

lemma accept_response_cache:
  "dw_cache (accept_response env resp w) =
     (if validate_response (dw_insp w) (rs_packet resp) \<and> answer_str_A env (rs_packet resp) \<noteq> []
      then pc_set (de_dns env) (dw_cache w) (question_str_0 (rs_packet resp)) resp else dw_cache w)"
  using dns_store_cache[of env resp "dw_cache w" "dw_domains w"]
  by (auto simp: accept_response_def Let_def split: prod.splits)

text \<open>An entry that a run of responses may have put into the cache.\<close>

definition vouched :: "(16 word \<Rightarrow> dns_packet option) \<Rightarrow> string \<Rightarrow> dns_response \<Rightarrow> bool" where
  "vouched rq k e \<longleftrightarrow> rq (dp_id (rs_packet e)) \<noteq> None \<and> question_str_0 (rs_packet e) = k
     \<and> (\<exists>x\<in>set (dp_answers_list (rs_packet e)). da_type x = record_code A \<or> da_type x = record_code AAAA)"

lemma accept_response_vouched:
  assumes "cache_ok (de_dns env)" "pc_get (de_dns env) (dw_cache (accept_response env resp w)) k = Some e"
  shows "pc_get (de_dns env) (dw_cache w) k = Some e \<or> vouched (requests (dw_insp w)) k e"
proof (cases "validate_response (dw_insp w) (rs_packet resp) \<and> answer_str_A env (rs_packet resp) \<noteq> []")
  case True
  then have v: "vouched (requests (dw_insp w)) (question_str_0 (rs_packet resp)) resp"
    unfolding vouched_def answer_str_A_empty_iff validate_response_def find_request_def
    by (auto split: option.splits)
  have g: "pc_get (de_dns env) (pc_set (de_dns env) (dw_cache w) (question_str_0 (rs_packet resp)) resp) k = Some e"
    using assms(2) True by (simp add: accept_response_cache)
  show ?thesis
  proof (cases "k = question_str_0 (rs_packet resp)")
    case True
    then show ?thesis using v g cache_okD(1)[OF assms(1)] by simp
  next
    case False
    then show ?thesis using g cache_okD(2)[OF assms(1)] by blast
  qed
next
  case False
  then show ?thesis using assms(2) by (auto simp: accept_response_cache)
qed

lemma response_loop_vouched:
  assumes "cache_ok (de_dns env)" "pc_get (de_dns env) (dw_cache (response_loop env xbuf n red w)) k = Some e"
  shows "pc_get (de_dns env) (dw_cache w) k = Some e \<or> vouched (requests (dw_insp w)) k e"
  using assms(2)
proof (induction n arbitrary: red w)
  case (Suc n)
  show ?case
  proof (cases "red < length xbuf")
    case True
    obtain p r where l: "load (de_now env) (de_buf env (drop red xbuf)) empty_packet = (p, r)" by fastforce
    show ?thesis
    proof (cases r)
      case None
      then show ?thesis using Suc.prems True l by simp
    next
      case (Some cr)
      define resp where "resp = \<lparr>rs_packet = p, rs_cached = (if opt_cached_responses (dw_insp w) then Some (drop red xbuf) else None)\<rparr>"
      have "pc_get (de_dns env) (dw_cache (response_loop env xbuf n cr (accept_response env resp w))) k = Some e"
        using Suc.prems True l Some by (simp add: resp_def)
      from Suc.IH[OF this] accept_response_vouched[OF assms(1)] show ?thesis by auto
    qed
  qed (use Suc.prems in simp)
qed simp

lemma begin_inspection_keeps [simp]:
  "requests (begin_inspection cx ins) = requests ins"
  "opt_cached_responses (begin_inspection cx ins) = opt_cached_responses ins"
  "verdict (begin_inspection cx ins) = verdict ins"
  by (simp_all add: begin_inspection_def)

text \<open>A finished update is a run of one of the loops from a world that differs in bookkeeping only.\<close>

lemma update_cases:
  assumes "update env (source, xbuf) w = Inr w'"
  obtains (waiting) ins where "w' = w\<lparr>dw_insp := ins\<rparr>"
  | (requests) red ins where "source = CHR ''r''" "requests ins = requests (dw_insp w)"
      "request_loop env xbuf 10 red (w\<lparr>dw_insp := ins\<rparr>) = Inr w'"
  | (responses) red ins where "source = CHR ''w''" "requests ins = requests (dw_insp w)"
      "w' = response_loop env xbuf 10 red (w\<lparr>dw_insp := ins\<rparr>)"
proof -
  let ?i = "begin_inspection (dw_cx w) (dw_insp w)"
  have "w' = w\<lparr>dw_insp := ?i\<rparr> \<or> (\<exists>red. inspect_messages env source xbuf red (w\<lparr>dw_insp := ?i\<rparr>) = Inr w')"
    using assms by (auto simp: update_def Let_def split: if_splits option.splits)
  then show thesis
  proof (elim disjE exE)
    assume "w' = w\<lparr>dw_insp := ?i\<rparr>"
    then show thesis by (rule waiting)
  next
    fix red assume m: "inspect_messages env source xbuf red (w\<lparr>dw_insp := ?i\<rparr>) = Inr w'"
    show thesis
      using requests[of "?i\<lparr>stage := 0\<rparr>" red] responses[of "?i\<lparr>stage := 1\<rparr>" red] waiting[of ?i] m
      by (auto simp: inspect_messages_def split: if_splits)
  qed
qed

text \<open>C5: A response inspected on the wire can only put an entry into the DNS cache if a request
  with the same identifier was seen on that connection, under the key of its own first question,
  and only if it carries an address record; every other entry was there before.\<close>

theorem cache_entries_are_vouched:
  assumes "cache_ok (de_dns env)" "update env (CHR ''w'', xbuf) w = Inr w'"
    and "pc_get (de_dns env) (dw_cache w') k = Some e"
  shows "pc_get (de_dns env) (dw_cache w) k = Some e \<or> vouched (requests (dw_insp w)) k e"
  using assms(2)
proof (cases rule: update_cases)
  case (responses red ins)
  then show ?thesis using response_loop_vouched[OF assms(1)] assms(3) by fastforce
qed (use assms(3) in auto)

section \<open>Cached answers\<close>

text \<open>The TTL field at a position.\<close>

definition ttl_at :: "bytes \<Rightarrow> nat \<Rightarrow> 32 word" where
  "ttl_at b i = join4 (b ! i) (b ! (i + 1)) (b ! (i + 2)) (b ! (i + 3))"

lemma holds_get32:
  assumes "holds src bs" "i + 4 \<le> length bs"
  shows "sb_get32 src i = Some (ntohl (ttl_at bs i))"
  using assms buffer_ok_get(3)[of src i] by (simp add: holds_def ttl_at_def)

text \<open>A cache entry with a kept copy is well formed when its packet is what the parser reads from these octets, and when the
  recorded positions lie apart and inside the copy and hold, one for one, the TTLs of the answers and
  additional records.\<close>

definition entry_ok :: "('c, 'd, 's) dns_env \<Rightarrow> dns_response \<Rightarrow> bool" where
  "entry_ok env e \<longleftrightarrow> (case rs_cached e of None \<Rightarrow> True
     | Some pkt \<Rightarrow> let p = rs_packet e; (p', r) = load (dp_loaded_at p) (de_buf env pkt) empty_packet
         in p' = p \<and> r \<noteq> None \<and> apart (dp_answer_ttl_idx p) \<and> (\<forall>k\<in>set (dp_answer_ttl_idx p). k + 4 \<le> length pkt)
            \<and> map (ttl_at pkt) (dp_answer_ttl_idx p) = map da_ttl (dp_answers_list p @ dp_additionals_list p) \<and> 2 \<le> length pkt)"

definition cache_wf :: "('c, 'd, 's) dns_env \<Rightarrow> 'c \<Rightarrow> bool" where
  "cache_wf env c \<longleftrightarrow> (\<forall>k e. pc_get (de_dns env) c k = Some e \<longrightarrow> entry_ok env e)"

lemma entry_okD:
  assumes "entry_ok env e" "rs_cached e = Some pkt"
  shows "apart (dp_answer_ttl_idx (rs_packet e)) \<and> (\<forall>k\<in>set (dp_answer_ttl_idx (rs_packet e)). k + 4 \<le> length pkt) \<and> 2 \<le> length pkt"
  using assms by (auto simp: entry_ok_def Let_def split: prod.splits)

lemma load_size: "load now src p = (p', Some n) \<Longrightarrow> 12 < sb_size src"
  by (auto simp: load_def Let_def DNS_HEADER_SZ_def split: if_splits)

lemma ttl_fields_octets:
  assumes "holds src bs" "ttl_ok src ks" "ttl_fields src ks as"
  shows "map (ttl_at bs) ks = map da_ttl as"
  using assms(2,3)
proof (induction ks arbitrary: as)
  case (Cons k ks)
  obtain a as' where as: "as = a # as'" using Cons.prems(2) by (cases as) (auto simp: ttl_fields_def)
  have "k + 4 \<le> length bs" using Cons.prems(1) assms(1) by (simp add: ttl_ok_def holds_def)
  then have "ttl_at bs k = da_ttl a" using holds_get32[OF assms(1)] Cons.prems(2) as by (simp add: ttl_at_def)
  then show ?case using Cons.IH[of as'] Cons.prems as by (simp add: ttl_ok_def)
qed (simp add: ttl_fields_def)

lemma loaded_entry_ok:
  assumes "holds (de_buf env bs) bs" "load now (de_buf env bs) empty_packet = (p, Some n)" "rs_packet e = p" "rs_cached e \<in> {None, Some bs}"
  shows "entry_ok env e"
proof -
  let ?src = "de_buf env bs"
  have b: "buffer_ok ?src" "sb_size ?src = length bs" using assms(1) by (simp_all add: holds_def)
  have t: "ttl_ok ?src (dp_answer_ttl_idx p)" "ttl_fields ?src (dp_answer_ttl_idx p) (dp_answers_list p @ dp_additionals_list p)"
    "dp_loaded_at p = now"
    using load_success_frame[OF b(1) assms(2)] by (auto simp: empty_packet_def)
  then show ?thesis
    using ttl_fields_octets[OF assms(1) t(1,2)] load_apart[OF b(1) assms(2)] load_size[OF assms(2)] assms(2-4) b(2)
    by (auto simp: entry_ok_def ttl_ok_def)
qed

lemma accept_response_wf:
  assumes "cache_ok (de_dns env)" "cache_wf env (dw_cache w)" "entry_ok env resp"
  shows "cache_wf env (dw_cache (accept_response env resp w))"
  unfolding cache_wf_def
proof (intro allI impI)
  fix k e assume g: "pc_get (de_dns env) (dw_cache (accept_response env resp w)) k = Some e"
  show "entry_ok env e"
  proof (cases "dw_cache (accept_response env resp w) = dw_cache w")
    case True
    then show ?thesis using g assms(2) by (simp add: cache_wf_def)
  next
    case False
    then have "dw_cache (accept_response env resp w) = pc_set (de_dns env) (dw_cache w) (question_str_0 (rs_packet resp)) resp"
      by (simp add: accept_response_cache split: if_splits)
    then have "e = resp \<or> pc_get (de_dns env) (dw_cache w) k = Some e"
      using g cache_okD(1,2)[OF assms(1)] by (metis option.inject)
    then show ?thesis using assms(2,3) by (auto simp: cache_wf_def)
  qed
qed

lemma response_loop_wf:
  assumes "cache_ok (de_dns env)" "env_buffers_ok env"
  shows "cache_wf env (dw_cache w) \<Longrightarrow> cache_wf env (dw_cache (response_loop env xbuf n red w))"
proof (induction n arbitrary: red w)
  case (Suc n)
  show ?case
  proof (cases "red < length xbuf")
    case True
    obtain p r where l: "load (de_now env) (de_buf env (drop red xbuf)) empty_packet = (p, r)" by fastforce
    show ?thesis
    proof (cases r)
      case None
      then show ?thesis using Suc.prems True l by simp
    next
      case (Some cr)
      define resp where "resp = \<lparr>rs_packet = p, rs_cached = (if opt_cached_responses (dw_insp w) then Some (drop red xbuf) else None)\<rparr>"
      have "entry_ok env resp"
        by (rule loaded_entry_ok[of env "drop red xbuf"])
           (use assms(2) l Some in \<open>auto simp: env_buffers_ok_def resp_def\<close>)
      then have "cache_wf env (dw_cache (accept_response env resp w))"
        by (rule accept_response_wf[OF assms(1) Suc.prems])
      from Suc.IH[OF this, of cr] show ?thesis using True l Some by (simp add: resp_def)
    qed
  qed (use Suc.prems in simp)
qed simp

lemma request_loop_cache:
  "request_loop env xbuf n red w = Inr w' \<Longrightarrow> dw_cache w' = dw_cache w"
proof (induction n arbitrary: red w)
  case (Suc n)
  show ?case
  proof (cases "red < length xbuf")
    case True
    obtain p r where l: "load (de_now env) (de_buf env (drop red xbuf)) empty_packet = (p, r)" by fastforce
    show ?thesis
    proof (cases r)
      case None
      then show ?thesis using Suc.prems True l by simp
    next
      case (Some cr)
      then show ?thesis using Suc.prems True l Suc.IH by (fastforce simp: Let_def split: option.splits)
    qed
  qed (use Suc.prems in simp)
qed simp

lemma update_cache_wf:
  assumes "cache_ok (de_dns env)" "env_buffers_ok env" "cache_wf env (dw_cache w)"
    and "update env entry w = Inr w'"
  shows "cache_wf env (dw_cache w')"
proof -
  obtain src xbuf where "update env (src, xbuf) w = Inr w'" using assms(4) by (cases entry) simp
  then show ?thesis
  proof (cases rule: update_cases)
    case (responses red ins)
    then show ?thesis using response_loop_wf[OF assms(1,2), of "w\<lparr>dw_insp := ins\<rparr>"] assms(3) by simp
  next
    case (requests red ins)
    then show ?thesis using request_loop_cache[OF requests(3)] assms(3) by simp
  qed (use assms(3) in simp)
qed

text \<open>C34: Inspecting data in either direction keeps every cached packet consistent with the octets kept beside it: the packet is
  what the parser reads from these octets, and the recorded positions lie inside them, do not overlap, leave the
  identifier alone and are those of the TTL fields of its answers and additional records.\<close>

theorem update_keeps_cache_wf:
  assumes "cache_ok (de_dns env)" "env_buffers_ok env" "cache_wf env (dw_cache w)"
    and "update env entry w = Inr w'"
  shows "cache_wf env (dw_cache w')"
  using assms by (rule update_cache_wf)

text \<open>What rewriting does to a TTL field.\<close>

lemma ntohl_ntohl [simp]: "ntohl (ntohl w) = w"
  by (metis join4_octet ntohl_def ntohl_join4)

lemma length_store32 [simp]: "length (store32 b i w) = length b"
  by (simp add: store32_def)

lemma store32_other: "j < i \<or> i + 4 \<le> j \<Longrightarrow> store32 b i w ! j = b ! j"
  by (auto simp: store32_def nth_list_update)

lemma ttl_at_store32: "i + 4 \<le> length b \<Longrightarrow> ttl_at (store32 b i (ntohl w)) i = w"
proof -
  assume "i + 4 \<le> length b"
  moreover have "octet 0 (ntohl w) = octet 3 w" "octet 1 (ntohl w) = octet 2 w"
    "octet 2 (ntohl w) = octet 1 w" "octet 3 (ntohl w) = octet 0 w"
    by (simp_all only: ntohl_def octet_join4)
  ultimately show ?thesis by (simp add: ttl_at_def store32_def nth_list_update)
qed

lemma ttl_at_cong: "(\<And>j. i \<le> j \<Longrightarrow> j < i + 4 \<Longrightarrow> b ! j = b' ! j) \<Longrightarrow> ttl_at b i = ttl_at b' i"
  by (simp add: ttl_at_def)

lemma mangle_ttl_aged:
  assumes "\<And>bs. holds (buf bs) bs"
  shows "apart ks \<Longrightarrow> \<forall>k\<in>set ks. k + 4 \<le> length b \<Longrightarrow>
    \<exists>b'. mangle_ttl buf decr ks b = Some b' \<and> length b' = length b
      \<and> (\<forall>k\<in>set ks. ttl_at b' k = ttl_at b k - decr)
      \<and> (\<forall>j. (\<forall>k\<in>set ks. j < k \<or> k + 4 \<le> j) \<longrightarrow> b' ! j = b ! j)"
proof (induction ks arbitrary: b)
  case (Cons i ks)
  define b1 where "b1 = store32 b i (ntohl (ttl_at b i - decr))"
  have ap: "apart ks" "\<forall>k\<in>set ks. i + 4 \<le> k" using Cons.prems(1) by (auto simp: apart_def)
  have i: "i + 4 \<le> length b" using Cons.prems(2) by simp
  have g: "sb_get32 (buf b) i = Some (ntohl (ttl_at b i))" by (rule holds_get32[OF assms i])
  have o: "b1 ! j = b ! j" if "j < i \<or> i + 4 \<le> j" for j
    using store32_other[OF that] by (simp add: b1_def)
  obtain b' where b': "mangle_ttl buf decr ks b1 = Some b'" "length b' = length b1"
    "\<forall>k\<in>set ks. ttl_at b' k = ttl_at b1 k - decr" "\<forall>j. (\<forall>k\<in>set ks. j < k \<or> k + 4 \<le> j) \<longrightarrow> b' ! j = b1 ! j"
    using Cons.IH[OF ap(1), of b1] Cons.prems(2) by (auto simp: b1_def)
  have "ttl_at b' i = ttl_at b1 i"
  proof (rule ttl_at_cong)
    fix j assume "i \<le> j" "j < i + 4"
    then have "\<forall>k\<in>set ks. j < k \<or> k + 4 \<le> j" using ap(2) by fastforce
    then show "b' ! j = b1 ! j" using b'(4) by blast
  qed
  then have here: "ttl_at b' i = ttl_at b i - decr" by (simp add: b1_def ttl_at_store32[OF i])
  have there: "ttl_at b1 k = ttl_at b k" if "k \<in> set ks" for k
    by (rule ttl_at_cong) (use o ap(2) that in fastforce)
  show ?case
    using g b' here there o by (intro exI[of _ b']) (simp add: b1_def)
qed simp

lemma store16_front:
  assumes "2 \<le> length b"
  shows "store16 b 0 (htons w) ! 0 = hi8 w" "store16 b 0 (htons w) ! 1 = lo8 w" "2 \<le> j \<Longrightarrow> store16 b 0 v ! j = b ! j"
proof -
  obtain x y zs where "b = x # y # zs" using assms by (cases b rule: remdups_adj.cases) auto
  then show "store16 b 0 (htons w) ! 0 = hi8 w" "store16 b 0 (htons w) ! 1 = lo8 w" "2 \<le> j \<Longrightarrow> store16 b 0 v ! j = b ! j"
    by (auto simp: store16_def nth_Cons split: nat.splits)
qed

lemma ttl_check_true:
  assumes "\<And>k. k \<in> set ks \<Longrightarrow> sb_get32 b k = Some (ntohl (t k))"
  shows "ttl_check b now la ks ok = Some True \<longleftrightarrow> ok \<and> (\<forall>k\<in>set ks. now \<le> uint (t k) + la)"
  using assms by (induction ks arbitrary: ok) auto

lemma serve_cached_new:
  assumes "serve_cached env p c ins = Some ins'" "verdict ins = OK" "verdict ins' = CACHED"
  obtains e pkt where "pc_get (de_dns env) c (question_str_0 p) = Some e" "rs_cached e = Some pkt"
    "ttl_check (de_buf env pkt) (de_now env) (dp_loaded_at (rs_packet e)) (dp_answer_ttl_idx (rs_packet e)) True = Some True"
    "ins' = ins\<lparr>verdict := CACHED, cached_response := Some pkt, cached_response_id := dp_id p,
       cached_response_ttl_idx := dp_answer_ttl_idx (rs_packet e),
       cached_response_decrement := of_int (de_now env - dp_loaded_at (rs_packet e))\<rparr>"
  using assms by (auto simp: serve_cached_def split: if_splits option.splits bool.splits)

lemma uint_minus_of_int:
  assumes "0 \<le> d" "d \<le> uint (w :: 32 word)"
  shows "uint (w - of_int d) = uint w - d"
proof -
  have "uint w < 2 ^ 32" using unsigned_less[of w] by simp
  then have "uint (of_int d :: 32 word) = d" using assms by (simp add: uint_word_of_int)
  then show ?thesis using assms(2) uint_sub_if'[of w "of_int d"] by simp
qed

text \<open>When a request is answered from the cache, the packet written to a UDP client is the cached
  response with the identifier of the request, with every TTL lowered by exactly the age of the entry
  (never below zero, so the 32 bit subtraction does not wrap) and with all other octets unchanged.\<close>

theorem cached_answer_aged:
  assumes "env_buffers_ok env" "cache_wf env c" "serve_cached env p c ins = Some ins'"
    and "verdict ins = OK" "verdict ins' = CACHED" "\<not> is_tcp ins"
  shows "\<exists>e pkt out. pc_get (de_dns env) c (question_str_0 p) = Some e \<and> rs_cached e = Some pkt
    \<and> apply_verdict env ins' cx = Some (ins'\<lparr>cached_response := Some out\<rparr>, cx\<lparr>apx_written := apx_written cx @ [out]\<rparr>)
    \<and> length out = length pkt \<and> be16 (out ! 0) (out ! 1) = dp_id p
    \<and> (\<forall>k\<in>set (dp_answer_ttl_idx (rs_packet e)). dp_loaded_at (rs_packet e) \<le> de_now env \<longrightarrow>
         uint (ttl_at out k) = uint (ttl_at pkt k) - (de_now env - dp_loaded_at (rs_packet e)) \<and> 0 \<le> uint (ttl_at out k))
    \<and> (\<forall>j\<ge>2. (\<forall>k\<in>set (dp_answer_ttl_idx (rs_packet e)). j < k \<or> k + 4 \<le> j) \<longrightarrow> out ! j = pkt ! j)"
proof -
  obtain e pkt where e: "pc_get (de_dns env) c (question_str_0 p) = Some e" "rs_cached e = Some pkt"
    and chk: "ttl_check (de_buf env pkt) (de_now env) (dp_loaded_at (rs_packet e)) (dp_answer_ttl_idx (rs_packet e)) True = Some True"
    and ins': "ins' = ins\<lparr>verdict := CACHED, cached_response := Some pkt, cached_response_id := dp_id p,
       cached_response_ttl_idx := dp_answer_ttl_idx (rs_packet e),
       cached_response_decrement := of_int (de_now env - dp_loaded_at (rs_packet e))\<rparr>"
    using serve_cached_new[OF assms(3,4,5)] by metis
  let ?ks = "dp_answer_ttl_idx (rs_packet e)" and ?age = "de_now env - dp_loaded_at (rs_packet e)"
  have wf: "apart ?ks" "\<forall>k\<in>set ?ks. k + 4 \<le> length pkt" "2 \<le> length pkt" "\<forall>k\<in>set ?ks. 4 \<le> k"
    using entry_okD[of env e pkt] assms(2) e unfolding cache_wf_def apart_def by blast+
  have h: "holds (de_buf env bs) bs" for bs using assms(1) by (simp add: env_buffers_ok_def)
  have fresh: "\<forall>k\<in>set ?ks. de_now env \<le> uint (ttl_at pkt k) + dp_loaded_at (rs_packet e)"
    using chk ttl_check_true[of ?ks "de_buf env pkt" "ttl_at pkt"] holds_get32[OF h] wf(2) by blast
  define b0 where "b0 = store16 pkt 0 (htons (dp_id p))"
  have b0: "length b0 = length pkt" "b0 ! 0 = hi8 (dp_id p)" "b0 ! 1 = lo8 (dp_id p)" "\<And>j. 2 \<le> j \<Longrightarrow> b0 ! j = pkt ! j"
    using store16_front[OF wf(3)] by (simp_all add: b0_def store16_def)
  obtain out where out: "mangle_ttl (de_buf env) (of_int ?age) ?ks b0 = Some out" "length out = length b0"
    "\<forall>k\<in>set ?ks. ttl_at out k = ttl_at b0 k - of_int ?age"
    "\<forall>j. (\<forall>k\<in>set ?ks. j < k \<or> k + 4 \<le> j) \<longrightarrow> out ! j = b0 ! j"
    using mangle_ttl_aged[OF h wf(1), of b0 "of_int ?age"] wf(2) b0(1) by auto
  have hd: "out ! 0 = b0 ! 0" "out ! 1 = b0 ! 1"
    using out(4)[rule_format, of 0] out(4)[rule_format, of 1] wf(4) by force+
  have t: "ttl_at b0 k = ttl_at pkt k" if "k \<in> set ?ks" for k
    by (rule ttl_at_cong) (use b0(4) wf(4) that in fastforce)
  have ages: "\<forall>k\<in>set ?ks. dp_loaded_at (rs_packet e) \<le> de_now env \<longrightarrow>
      uint (ttl_at out k) = uint (ttl_at pkt k) - ?age \<and> 0 \<le> uint (ttl_at out k)"
  proof (intro ballI impI)
    fix k assume "k \<in> set ?ks" "dp_loaded_at (rs_packet e) \<le> de_now env"
    then show "uint (ttl_at out k) = uint (ttl_at pkt k) - ?age \<and> 0 \<le> uint (ttl_at out k)"
      using uint_minus_of_int[of ?age "ttl_at pkt k"] out(3) t fresh by force
  qed
  have av: "apply_verdict env ins' cx = Some (ins'\<lparr>cached_response := Some out\<rparr>, cx\<lparr>apx_written := apx_written cx @ [out]\<rparr>)"
    using out(1) assms(6) by (simp add: apply_verdict_def ins' b0_def)
  have "length out = length pkt" "be16 (out ! 0) (out ! 1) = dp_id p"
    using out(2) b0(1-3) hd by (simp_all only: be16_hi8_lo8)
  moreover have "\<forall>j\<ge>2. (\<forall>k\<in>set ?ks. j < k \<or> k + 4 \<le> j) \<longrightarrow> out ! j = pkt ! j"
    using out(4) b0(4) by simp
  ultimately show ?thesis using e av ages by blast
qed

section \<open>Defects\<close>

text \<open>An answer served from the cache stays in place when the cache entry of the next question
  has expired or carries no packet: the inspector keeps the verdict and would answer the new request with the packet
  (and the identifier) of the previous one.\<close>

theorem stale_answer_kept:
  assumes "verdict ins = CACHED" "cached_response ins = Some old" "opt_cached_responses ins"
    and "question_type_0 p = record_code A" "pc_get (de_dns env) c (question_str_0 p) = Some e"
    and "case rs_cached e of None \<Rightarrow> True | Some pkt \<Rightarrow>
           ttl_check (de_buf env pkt) (de_now env) (dp_loaded_at (rs_packet e)) (dp_answer_ttl_idx (rs_packet e)) True = Some False"
  shows "serve_cached env p c ins = Some ins"
  using assms by (auto simp: serve_cached_def split: option.splits)

lemma response_loop_stuck:
  assumes "length a = length b" "b \<noteq> []" "load (de_now env) (de_buf env b) empty_packet = (p, Some (length b))"
    and "requests (dw_insp w) (dp_id p) \<noteq> None"
  shows "responses (dw_insp (response_loop env (a @ b) n (length a) w)) = responses (dw_insp w) + int n"
  using assms(4)
proof (induction n arbitrary: w)
  case (Suc n)
  define resp where "resp = \<lparr>rs_packet = p, rs_cached = (if opt_cached_responses (dw_insp w) then Some b else None)\<rparr>"
  have s: "response_loop env (a @ b) (Suc n) (length a) w = response_loop env (a @ b) n (length a) (accept_response env resp w)"
    using assms(1-3) by (simp add: resp_def)
  have "responses (dw_insp (accept_response env resp w)) = responses (dw_insp w) + 1"
    using Suc.prems by (auto simp: accept_response_def validate_response_def find_request_def resp_def Let_def split: prod.splits option.splits)
  then show ?case using Suc.IH[of "accept_response env resp w"] Suc.prems s by simp
qed simp

text \<open>Two responses of the same size in one datagram: the read position is set to the size of the
  last message instead of being advanced by it, so the second response is processed nine times.\<close>

theorem second_response_repeated:
  assumes "length a = length b" "b \<noteq> []"
    and "load (de_now env) (de_buf env (a @ b)) empty_packet = (p, Some (length a))"
    and "load (de_now env) (de_buf env b) empty_packet = (q, Some (length b))"
    and "requests (dw_insp w) (dp_id p) \<noteq> None" "requests (dw_insp w) (dp_id q) \<noteq> None"
  shows "responses (dw_insp (response_loop env (a @ b) 10 0 w)) = responses (dw_insp w) + 10"
proof -
  define resp where "resp = \<lparr>rs_packet = p, rs_cached = (if opt_cached_responses (dw_insp w) then Some (a @ b) else None)\<rparr>"
  have "response_loop env (a @ b) (Suc 9) 0 w = response_loop env (a @ b) 9 (length a) (accept_response env resp w)"
    unfolding response_loop.simps(2) using assms(1-3) by (simp add: resp_def Let_def)
  moreover have "responses (dw_insp (accept_response env resp w)) = responses (dw_insp w) + 1"
    using assms(5) by (auto simp: accept_response_def validate_response_def find_request_def resp_def Let_def split: prod.splits option.splits)
  ultimately show ?thesis
    using response_loop_stuck[OF assms(1,2,4), of "accept_response env resp w" 9] assms(6) by simp
qed

section \<open>Concrete runs\<close>

definition map_cache :: "(string \<Rightarrow> 'v option, 'v) ptr_cache" where
  "map_cache = \<lparr>pc_get = (\<lambda>c k. c k), pc_set = (\<lambda>c k v. c(k \<mapsto> v)),
     pc_touch = (\<lambda>c k v. if c k = None then c else c(k \<mapsto> v))\<rparr>"

lemma map_cache_ok [simp]: "cache_ok map_cache"
  by (auto simp: cache_ok_def map_cache_def)

definition plain_dns_env :: "int \<Rightarrow> (string \<Rightarrow> dns_response option, string \<Rightarrow> (string \<Rightarrow> int option) option, string \<Rightarrow> int option) dns_env" where
  "plain_dns_env now = \<lparr>de_buf = buffer_of, de_now = now, de_inet_ntoa = (\<lambda>_. ''4''), de_inet_ntop6 = (\<lambda>_. ''6''),
     de_dns = map_cache, de_domain = map_cache, de_sub = map_cache, de_new_sub = (\<lambda>_ _. None)\<rparr>"

lemma plain_dns_env_ok [simp]: "env_buffers_ok (plain_dns_env now)" "cache_ok (de_dns (plain_dns_env now))"
  by (simp_all add: env_buffers_ok_def plain_dns_env_def)

definition plain_app_cx :: app_cx where
  "plain_app_cx = \<lparr>apx_dst_port = 53, apx_l4 = SOCK_DGRAM, apx_idle_delay = 0, apx_writebuf = [1], apx_error = False, apx_written = []\<rparr>"

definition plain_dns_world :: "dns_inspector \<Rightarrow> (string \<Rightarrow> dns_response option, string \<Rightarrow> (string \<Rightarrow> int option) option) dns_world" where
  "plain_dns_world ins = \<lparr>dw_insp = ins, dw_cx = plain_app_cx, dw_cache = (\<lambda>_. None), dw_domains = (\<lambda>_. None)\<rparr>"

text \<open>A connection on which request 7 was seen receives the sample response.\<close>

definition seen7 :: dns_inspector where
  "seen7 = (new_inspector True)\<lparr>requests := [7 \<mapsto> empty_packet]\<rparr>"

definition a_b_world :: "(string \<Rightarrow> dns_response option, string \<Rightarrow> (string \<Rightarrow> int option) option) dns_world" where
  "a_b_world = projr (update (plain_dns_env 100) (CHR ''w'', sample_response) (plain_dns_world seen7))"

lemma a_b_world_eval:
  "is_ok (update (plain_dns_env 100) (CHR ''w'', sample_response) (plain_dns_world seen7))"
  "dw_cache a_b_world ''A:a.b'' \<noteq> None" "responses (dw_insp a_b_world) = 1"
  unfolding a_b_world_def by code_simp+


lemma a_b_world_update:
  "update (plain_dns_env 100) (CHR ''w'', sample_response) (plain_dns_world seen7) = Inr a_b_world"
  using a_b_world_eval(1) by (auto simp: a_b_world_def is_ok_iff)

theorem cache_entries_are_vouched_witness:
  "\<exists>e. dw_cache a_b_world ''A:a.b'' = Some e \<and> vouched (requests seen7) ''A:a.b'' e"
proof -
  obtain e where "dw_cache a_b_world ''A:a.b'' = Some e" using a_b_world_eval(2) by blast
  then show ?thesis
    using cache_entries_are_vouched[OF plain_dns_env_ok(2) a_b_world_update, of "''A:a.b''" e]
    by (simp add: plain_dns_env_def map_cache_def plain_dns_world_def)
qed

theorem update_keeps_cache_wf_witness:
  "cache_wf (plain_dns_env 100) (dw_cache a_b_world)"
  by (rule update_keeps_cache_wf[OF plain_dns_env_ok(2,1) _ a_b_world_update])
     (simp add: cache_wf_def plain_dns_world_def plain_dns_env_def map_cache_def)

text \<open>Thirty seconds later request 9 asks for the same name.\<close>

definition ask_a_b :: dns_packet where
  "ask_a_b = empty_packet\<lparr>dp_id := 9, dp_questions := 1,
     dp_questions_list := [\<lparr>rec_str = ''a.b'', rec_type = record_code A, rec_class = 1\<rparr>]\<rparr>"

definition a_b_served :: dns_inspector where
  "a_b_served = the (serve_cached (plain_dns_env 130) ask_a_b (dw_cache a_b_world) seen7)"

lemma a_b_served_eval:
  "serve_cached (plain_dns_env 130) ask_a_b (dw_cache a_b_world) seen7 \<noteq> None"
  "verdict a_b_served = CACHED"
  unfolding a_b_served_def a_b_world_def by code_simp+

theorem cached_answer_aged_witness:
  "\<exists>e pkt out. dw_cache a_b_world ''A:a.b'' = Some e \<and> rs_cached e = Some pkt
     \<and> apply_verdict (plain_dns_env 130) a_b_served plain_app_cx
         = Some (a_b_served\<lparr>cached_response := Some out\<rparr>, plain_app_cx\<lparr>apx_written := [out]\<rparr>)
     \<and> be16 (out ! 0) (out ! 1) = 9"
proof -
  have wf: "cache_wf (plain_dns_env 130) (dw_cache a_b_world)"
  proof -
    have w: "cache_wf (plain_dns_env 100) (dw_cache a_b_world)"
      by (rule update_cache_wf[OF plain_dns_env_ok(2,1) _ a_b_world_update])
         (simp add: cache_wf_def plain_dns_world_def plain_dns_env_def map_cache_def)
    have d: "de_buf (plain_dns_env now) = buffer_of" "de_dns (plain_dns_env now) = map_cache" for now by (simp_all add: plain_dns_env_def)
    show ?thesis using w unfolding cache_wf_def entry_ok_def d .
  qed
  have s: "serve_cached (plain_dns_env 130) ask_a_b (dw_cache a_b_world) seen7 = Some a_b_served"
    using a_b_served_eval(1) by (simp add: a_b_served_def)
  have v: "verdict seen7 = OK" "\<not> is_tcp seen7" by (simp_all add: seen7_def new_inspector_def)
  have q: "question_str_0 ask_a_b = ''A:a.b''" "dp_id ask_a_b = 9" by code_simp+
  have p: "apx_written plain_app_cx @ [x] = [x]" for x by (simp add: plain_app_cx_def)
  have d: "pc_get (de_dns (plain_dns_env 130)) c k = c k" for c k by (simp add: plain_dns_env_def map_cache_def)
  show ?thesis
    using cached_answer_aged[OF plain_dns_env_ok(1) wf s v(1) a_b_served_eval(2) v(2), of plain_app_cx]
    unfolding q p d by blast
qed

text \<open>A hundred seconds later the entry has expired, but the previous answer is still served.\<close>

theorem stale_answer_kept_witness:
  "serve_cached (plain_dns_env 230) (ask_a_b\<lparr>dp_id := 10\<rparr>) (dw_cache a_b_world) a_b_served = Some a_b_served
   \<and> cached_response_id a_b_served = 9"
proof -
  obtain old where old: "cached_response a_b_served = Some old"
    using a_b_served_eval serve_cached_new[of "plain_dns_env 130" ask_a_b "dw_cache a_b_world" seen7 a_b_served]
    by (fastforce simp: a_b_served_def seen7_def new_inspector_def)
  obtain e where e: "dw_cache a_b_world ''A:a.b'' = Some e" using a_b_world_eval(2) by blast
  have q: "question_str_0 (ask_a_b\<lparr>dp_id := 10\<rparr>) = ''A:a.b''" "question_type_0 (ask_a_b\<lparr>dp_id := 10\<rparr>) = record_code A"
    by code_simp+
  have o: "opt_cached_responses a_b_served" "cached_response_id a_b_served = 9"
    unfolding a_b_served_def a_b_world_def by code_simp+
  have x: "case rs_cached (the (dw_cache a_b_world ''A:a.b'')) of None \<Rightarrow> True | Some pkt \<Rightarrow>
      ttl_check (buffer_of pkt) 230 (dp_loaded_at (rs_packet (the (dw_cache a_b_world ''A:a.b''))))
        (dp_answer_ttl_idx (rs_packet (the (dw_cache a_b_world ''A:a.b'')))) True = Some False"
    unfolding a_b_world_def by code_simp
  have env: "de_buf (plain_dns_env 230) = buffer_of" "de_now (plain_dns_env 230) = 230"
    "pc_get (de_dns (plain_dns_env 230)) c k = c k" for c k
    by (simp_all add: plain_dns_env_def map_cache_def)
  show ?thesis
    using stale_answer_kept[OF a_b_served_eval(2) old o(1) q(2), of "plain_dns_env 230" "dw_cache a_b_world" e] e x[unfolded e option.sel] o(2)
    unfolding env q by blast
qed

theorem second_response_repeated_witness:
  "responses (dw_insp (response_loop (plain_dns_env 100) (sample_response @ sample_response) 10 0 (plain_dns_world seen7))) = 10"
proof -
  obtain p where p: "load 100 (buffer_of (sample_response @ sample_response)) empty_packet = (p, Some 37)" "dp_id p = 7"
  proof -
    have "snd (load 100 (buffer_of (sample_response @ sample_response)) empty_packet) = Some 37"
      "dp_id (fst (load 100 (buffer_of (sample_response @ sample_response)) empty_packet)) = 7" by code_simp+
    then show thesis using that by (metis prod.collapse)
  qed
  obtain q where q: "load 100 (buffer_of sample_response) empty_packet = (q, Some 37)" "dp_id q = 7"
  proof -
    have "snd (load 100 (buffer_of sample_response) empty_packet) = Some 37"
      "dp_id (fst (load 100 (buffer_of sample_response) empty_packet)) = 7" by code_simp+
    then show thesis using that by (metis prod.collapse)
  qed
  have l: "length sample_response = 37" by code_simp
  have env: "de_buf (plain_dns_env 100) = buffer_of" "de_now (plain_dns_env 100) = 100"
    by (simp_all add: plain_dns_env_def)
  have r: "requests (dw_insp (plain_dns_world seen7)) 7 \<noteq> None" "responses (dw_insp (plain_dns_world seen7)) = 0"
    by (simp_all add: plain_dns_world_def seen7_def new_inspector_def)
  show ?thesis
    using second_response_repeated[of sample_response sample_response "plain_dns_env 100" p q "plain_dns_world seen7"]
      p q l r by (fastforce simp: env)
qed

end
