(* ===== verification/CidrText.thy ===== *)
theory CidrText
  imports Cidr CText
begin

text \<open>
  The text forms of CIDR blocks: \<open>cidr_from_str\<close> and \<open>cidr_to_str\<close> of
  \<open>src/src/ext/libcidr/cidr.cpp\<close>.

  The parser works backwards with raw pointers and looks at memory in front of the string (the
  comparisons with the suffixes of reverse-lookup names do not check the length). A C string is
  therefore modelled by its characters and by the memory in front of it: \<open>pre n\<close> is the character at
  address \<open>-1-n\<close>. Positions are integers relative to the start of the string. A write behind the
  oct array, which the parser does not exclude, is the error \<open>Overrun\<close>; returning a null
  pointer is \<open>Fails\<close> with the value of \<open>errno\<close> (\<open>ERR_NONE\<close> where it is left alone).
\<close>

section \<open>Model\<close>

datatype text_error = Fails errno | Overrun

type_synonym cmem = "nat \<Rightarrow> char"

definition char_at :: "cmem \<Rightarrow> string \<Rightarrow> int \<Rightarrow> char" where
  "char_at pre s i =
     (if i < 0 then pre (nat (- 1 - i)) else if nat i < length s then s ! nat i else CHR 0x00)"

text \<open>The C string that starts at a position.\<close>

definition cstr :: "cmem \<Rightarrow> string \<Rightarrow> int \<Rightarrow> string" where
  "cstr pre s i = (if i < 0 then rev (map pre [0..<nat (- i)]) @ s else drop (nat i) s)"

text \<open>The memory in front of the part of a string behind position \<open>k\<close>.\<close>

definition mem_behind :: "cmem \<Rightarrow> string \<Rightarrow> nat \<Rightarrow> cmem" where
  "mem_behind pre s k n = (if n \<le> k then s ! (k - n) else pre (n - k - 1))"

definition allowed_chars :: string where
  "allowed_chars = ''0123456789abcdefABCDEFxX.:/in-rpt''"

text \<open>Comparison of the last \<open>back\<close> characters, as far as the pattern goes, ignoring case.\<close>

definition ends_like :: "cmem \<Rightarrow> string \<Rightarrow> int \<Rightarrow> string \<Rightarrow> bool" where
  "ends_like pre s back pat \<longleftrightarrow>
     map (\<lambda>k. tolower (char_at pre s (int (length s) - back + int k))) [0..<length pat] = pat"

subsection \<open>Reverse-lookup names\<close>

function back_digits :: "cmem \<Rightarrow> string \<Rightarrow> int \<Rightarrow> int" where
  "back_digits pre s buf = (if isdigit (char_at pre s buf) \<and> buf \<ge> 0 then back_digits pre s (buf - 1) else buf)"
  by pat_completeness auto
termination
  by (relation "measure (\<lambda>(pre, s, buf). nat (buf + 1))") auto

declare back_digits.simps [simp del]

function back_dots :: "cmem \<Rightarrow> string \<Rightarrow> int \<Rightarrow> int" where
  "back_dots pre s buf = (if char_at pre s buf = CHR ''.'' \<and> buf \<ge> 0 then back_dots pre s (buf - 1) else buf)"
  by pat_completeness auto
termination
  by (relation "measure (\<lambda>(pre, s, buf). nat (buf + 1))") auto

declare back_dots.simps [simp del]

function ptr4_loop :: "cmem \<Rightarrow> string \<Rightarrow> int \<Rightarrow> nat \<Rightarrow> bytes \<Rightarrow> text_error + (int \<times> nat \<times> bytes)" where
  "ptr4_loop pre s buf i addr =
     (if i \<le> 14 \<and> buf \<ge> 0 then
        (let buf = back_digits pre s buf; oct = fst (strtoul 10 (cstr pre s (buf + 1)))
         in if oct > 255 then Inl (Fails EINVAL)
            else ptr4_loop pre s (buf - 1) (i + 1) (addr[i + 1 := of_int oct]))
      else Inr (buf, i, addr))"
  by pat_completeness auto
termination
  by (relation "measure (\<lambda>(pre, s, buf, i, addr). 15 - i)") auto

declare ptr4_loop.simps [simp del]

function ptr6_loop :: "cmem \<Rightarrow> string \<Rightarrow> int \<Rightarrow> nat \<Rightarrow> bytes \<Rightarrow> bytes \<Rightarrow> text_error + (int \<times> bytes \<times> bytes)" where
  "ptr6_loop pre s buf i addr msk =
     (if i \<le> 15 \<and> buf \<ge> 0 then
        if \<not> isxdigit (char_at pre s buf) then Inl (Fails EINVAL)
        else (let oct = fst (strtoul 16 (cstr pre s buf)) in
          if oct > 255 then Inl (Fails EINVAL)
          else (let addr = addr[i := push_bit 4 (of_int oct)]; msk = msk[i := 0xf0] in
            if buf = 0 then Inr (- 1, addr, msk)
            else if char_at pre s (buf - 1) \<noteq> CHR ''.'' then Inl (Fails EINVAL)
            else if \<not> isxdigit (char_at pre s (buf - 2)) then Inl (Fails EINVAL)
            else (let oct = fst (strtoul 16 (cstr pre s (buf - 2))) in
              if oct > 255 then Inl (Fails EINVAL)
              else ptr6_loop pre s (back_dots pre s (buf - 3)) (i + 1)
                     (addr[i := addr ! i OR (of_int oct AND 0x0f)]) (msk[i := msk ! i OR 0x0f]))))
      else Inr (buf, addr, msk))"
  by pat_completeness auto
termination
  by (relation "measure (\<lambda>(pre, s, buf, i, addr, msk). 16 - i)") auto

declare ptr6_loop.simps [simp del]

definition parse_ptr4 :: "cmem \<Rightarrow> string \<Rightarrow> int \<Rightarrow> text_error + cidr" where
  "parse_ptr4 pre s buf = (case ptr4_loop pre s (buf - 1) 11 (c_addr cidr_alloc) of
     Inl e \<Rightarrow> Inl e
   | Inr (buf, i, addr) \<Rightarrow>
       if buf \<ge> 0 then Inl (Fails EINVAL)
       else Inr (cidr_alloc\<lparr>c_proto := CIDR_IPV4, c_addr := addr,
              c_mask := replicate (i + 1) 0xff @ drop (i + 1) (c_mask cidr_alloc)\<rparr>))"

definition parse_ptr6 :: "cmem \<Rightarrow> string \<Rightarrow> int \<Rightarrow> text_error + cidr" where
  "parse_ptr6 pre s buf = (case ptr6_loop pre s (buf - 1) 0 (c_addr cidr_alloc) (c_mask cidr_alloc) of
     Inl e \<Rightarrow> Inl e
   | Inr (buf, addr, msk) \<Rightarrow>
       if buf \<ge> 0 then Inl (Fails EINVAL)
       else Inr (cidr_alloc\<lparr>c_proto := CIDR_IPV6, c_addr := addr, c_mask := msk\<rparr>))"

text \<open>The result for names under \<open>ip6.int\<close> and \<open>arpa\<close>; \<^term>\<open>None\<close> for other strings.\<close>

definition parse_ptr :: "cmem \<Rightarrow> string \<Rightarrow> (text_error + cidr) option" where
  "parse_ptr pre s =
     (let alen = int (length s) in
      if ends_like pre s 8 ''.ip6.int'' then Some (parse_ptr6 pre s (alen - 8))
      else if ends_like pre s 5 ''.arpa'' then
        (if ends_like pre s 9 ''.ip'' then Some (parse_ptr6 pre s (alen - 9))
         else if ends_like pre s 13 ''.in-add'' then Some (parse_ptr4 pre s (alen - 13))
         else Some (Inl (Fails EINVAL)))
      else None)"

subsection \<open>Prefix and protocol\<close>

text \<open>The search for the slash from the end: its position and whether a dot or colon follows it.\<close>

fun scan_prefix :: "string \<Rightarrow> nat \<Rightarrow> bool \<Rightarrow> nat option \<times> bool" where
  "scan_prefix s 0 foundmask = (None, foundmask)"
| "scan_prefix s (Suc i) foundmask =
     (let foundmask = (foundmask \<or> s ! i = CHR ''.'' \<or> s ! i = CHR '':'') in
      if s ! i = CHR ''/'' then (Some i, foundmask) else scan_prefix s i foundmask)"

text \<open>\<open>(unsigned long)(1 << 31)\<close> is the sign-extended bit.\<close>

definition found_mask :: "cmem \<Rightarrow> string \<Rightarrow> nat \<Rightarrow> bool \<Rightarrow> bool" where
  "found_mask pre s k foundmask =
     (if foundmask then True
      else if char_at pre s (int k + 1) = CHR ''0'' \<and> tolower (char_at pre s (int k + 2)) = CHR ''x'' then True
      else if char_at pre s (int k + 1) = CHR ''0'' then True
      else if isdigit (char_at pre s (int k + 1)) then
        (let (oct, rest) = strtoul 10 (drop (k + 1) s)
         in rest = [] \<and> oct \<ge> (- (2 ^ 31)) mod 2 ^ 64 \<and> oct \<le> 0xffffffff)
      else False)"

fun find_char :: "char \<Rightarrow> string \<Rightarrow> nat option" where
  "find_char c [] = None"
| "find_char c (x # xs) = (if x = c then Some 0 else map_option Suc (find_char c xs))"

definition number_form :: "string \<Rightarrow> string \<Rightarrow> bool" where
  "number_form ds s \<longleftrightarrow> (let rest = dropWhile (\<lambda>c. c \<in> set ds) s in rest = [] \<or> hd rest = CHR ''/'')"

definition detect_proto :: "cmem \<Rightarrow> string \<Rightarrow> int" where
  "detect_proto pre s =
     (if (case find_char (CHR '':'') s of Some n \<Rightarrow> n \<le> 5 | None \<Rightarrow> False) then CIDR_IPV6
      else if (case find_char (CHR ''.'') s of Some n \<Rightarrow> n \<le> 4 | None \<Rightarrow> False) then CIDR_IPV4
      else if char_at pre s 0 = CHR ''0'' \<and> tolower (char_at pre s 1) = CHR ''x''
      then (if number_form ''0123456789abcdefABCDEF'' (drop 2 s) then CIDR_IPV4 else 0)
      else if char_at pre s 0 = CHR ''0''
      then (if number_form ''01234567'' (drop 1 s) then CIDR_IPV4 else 0)
      else (if number_form ''0123456789'' s then CIDR_IPV4 else 0))"

text \<open>The macro \<open>WRMASKSET\<close> for octet \<open>x\<close>; \<open>MASKNUM\<close> counts from the family's first bit.\<close>

definition masknum :: "nat \<Rightarrow> nat \<Rightarrow> nat" where
  "masknum base x = base - (15 - x) * 8"

definition wrmaskset :: "nat \<Rightarrow> int \<Rightarrow> nat \<Rightarrow> bytes \<Rightarrow> bytes" where
  "wrmaskset base pflen x msk =
     set_bits (map (\<lambda>j. (x, masknum base x + 7 - j)) [masknum base x..<min (nat pflen) (masknum base x + 8)]) msk"

definition write_mask :: "nat \<Rightarrow> int \<Rightarrow> nat list \<Rightarrow> bytes \<Rightarrow> bytes" where
  "write_mask base pflen xs msk = foldl (\<lambda>m x. wrmaskset base pflen x m) msk xs"

text \<open>Prefix length and the position of the last character of the address.\<close>

definition prefix_length :: "cmem \<Rightarrow> string \<Rightarrow> nat option \<Rightarrow> bool \<Rightarrow> int \<Rightarrow> (cidr \<Rightarrow> bytes) \<Rightarrow> text_error + cidr
    \<Rightarrow> text_error + (int \<times> int)" where
  "prefix_length pre s pfx foundmask full mask_of ctmp = (case pfx of
     None \<Rightarrow> Inr (full, int (length s) - 1)
   | Some k \<Rightarrow>
       if char_at pre s (int k + 1) = CHR 0x00 then Inr (full, int k - 1)
       else if foundmask then
         (case ctmp of
            Inl e \<Rightarrow> Inl e
          | Inr c \<Rightarrow> (case cidr_get_pflen (Some (c\<lparr>c_mask := mask_of c\<rparr>)) of
              Inl e \<Rightarrow> Inl (Fails e)
            | Inr pflen \<Rightarrow> Inr (pflen, int k - 1)))
       else Inr (to_int32 (strtol 10 (drop (k + 1) s)), int k - 1))"

function skip_slash :: "cmem \<Rightarrow> string \<Rightarrow> int \<Rightarrow> int" where
  "skip_slash pre s i = (if i > 0 \<and> char_at pre s i = CHR ''/'' then skip_slash pre s (i - 1) else i)"
  by pat_completeness auto
termination
  by (relation "measure (\<lambda>(pre, s, i). nat i)") auto

declare skip_slash.simps [simp del]

subsection \<open>IPv4\<close>

definition section_number :: "cmem \<Rightarrow> string \<Rightarrow> int \<Rightarrow> int \<times> string" where
  "section_number pre s i =
     (if char_at pre s i = CHR ''0'' \<and> tolower (char_at pre s (i + 1)) = CHR ''x'' then strtoul 16 (cstr pre s i)
      else if char_at pre s i = CHR ''0'' then strtoul 8 (cstr pre s i)
      else strtoul 10 (cstr pre s i))"

text \<open>The last number of the address is extended over the octets no other number gives.\<close>

definition save_octets :: "nat \<Rightarrow> int \<Rightarrow> nat \<Rightarrow> bytes \<Rightarrow> nat \<times> bytes" where
  "save_octets nsect oct nocts addr =
     (let addr = addr[15 - nocts := of_int (oct mod 256)]; nocts = nocts + 1 in
      if nocts = 1 then
        (let (nocts, addr) = (if nsect \<le> 3 then (nocts + 1, addr[15 - nocts := of_int (oct div 2 ^ 8 mod 256)]) else (nocts, addr));
             (nocts, addr) = (if nsect \<le> 2 then (nocts + 1, addr[15 - nocts := of_int (oct div 2 ^ 16 mod 256)]) else (nocts, addr));
             (nocts, addr) = (if nsect = 1 then (nocts + 1, addr[15 - nocts := of_int (oct div 2 ^ 24 mod 256)]) else (nocts, addr))
         in (nocts, addr))
      else (nocts, addr))"

function v4_loop :: "cmem \<Rightarrow> string \<Rightarrow> nat \<Rightarrow> int \<Rightarrow> nat \<Rightarrow> bytes \<Rightarrow> text_error + bytes" where
  "v4_loop pre s nsect i nocts addr =
     (if i \<ge> 0 then
        if (isxdigit (char_at pre s i) \<or> tolower (char_at pre s i) = CHR ''x'') \<and> i > 0
        then v4_loop pre s nsect (i - 1) nocts addr
        else (let i' = (if i = 0 then - 1 else i); (oct, rest) = section_number pre s (i' + 1) in
          if \<not> (rest = [] \<or> hd rest \<in> {CHR ''.'', CHR ''/'', CHR 0x00}) then Inl (Fails EINVAL)
          else if nocts \<noteq> 0 \<and> oct > 255 \<or> nocts = 0 \<and> oct > 0xffffffff div 2 ^ (8 * (nsect - 1)) then Inl (Fails EINVAL)
          else (let (nocts, addr) = save_octets nsect oct nocts addr in
            if nocts = 4 then Inr addr else v4_loop pre s nsect (i' - 1) nocts addr))
      else Inl (Fails EINVAL))"
  by pat_completeness auto
termination
  by (relation "measure (\<lambda>(pre, s, nsect, i, nocts, addr). nat (i + 1))") (auto split: if_splits)

declare v4_loop.simps [simp del]

definition parse_v4 :: "cmem \<Rightarrow> string \<Rightarrow> nat option \<Rightarrow> bool \<Rightarrow> text_error + cidr \<Rightarrow> text_error + cidr" where
  "parse_v4 pre s pfx foundmask ctmp =
     (let part = (case pfx of None \<Rightarrow> s | Some k \<Rightarrow> take k s);
          dots = length (filter (\<lambda>c. c = CHR ''.'') part)
      in if dots > 3 then Inl (Fails EINVAL)
         else
           (let nsect = dots + 1;
                addr = replicate 10 0 @ replicate 2 0xff @ drop 12 (c_addr cidr_alloc);
                msk = replicate 12 0xff @ drop 12 (c_mask cidr_alloc)
            in case prefix_length pre s pfx foundmask 32 (\<lambda>c. replicate 12 0 @ drop 12 (c_addr c)) ctmp of
                 Inl e \<Rightarrow> Inl e
               | Inr (pflen, i) \<Rightarrow>
                   if pflen > 32 then Inl (Fails EINVAL)
                   else (let msk = (if pflen > 0 then write_mask 24 pflen [15, 14, 13, 12] msk else msk) in
                     case v4_loop pre s nsect (skip_slash pre s i) 0 addr of
                       Inl e \<Rightarrow> Inl e
                     | Inr addr \<Rightarrow> Inr (cidr_alloc\<lparr>c_proto := CIDR_IPV4, c_addr := addr, c_mask := msk\<rparr>))))"

subsection \<open>IPv6\<close>

function dotted_loop :: "cmem \<Rightarrow> string \<Rightarrow> int \<Rightarrow> nat \<Rightarrow> bytes \<Rightarrow> text_error + (int \<times> nat \<times> bytes)" where
  "dotted_loop pre s i nocts addr =
     (if i > 0 \<and> nocts < 4 then
        if char_at pre s i = CHR '':'' \<and> nocts < 3 then Inl (Fails EINVAL)
        else if char_at pre s i \<noteq> CHR ''.'' \<and> char_at pre s i \<noteq> CHR '':'' then dotted_loop pre s (i - 1) nocts addr
        else (let oct = fst (strtoul 10 (cstr pre s (i + 1))) in
          if oct > 255 then Inl (Fails EINVAL)
          else dotted_loop pre s (i - 1) (nocts + 1) (addr[15 - nocts := of_int (oct mod 256)]))
      else Inr (i, nocts, addr))"
  by pat_completeness auto
termination
  by (relation "measure (\<lambda>(pre, s, i, nocts, addr). nat i)") auto

declare dotted_loop.simps [simp del]

text \<open>The dotted tail of an address, which may only come first.\<close>

definition dotted_tail :: "cmem \<Rightarrow> string \<Rightarrow> int \<Rightarrow> nat \<Rightarrow> bytes \<Rightarrow> text_error + (int \<times> nat \<times> bytes)" where
  "dotted_tail pre s i nocts addr =
     (if nocts = 0 \<and> char_at pre s i = CHR ''.'' then
        (case dotted_loop pre s (i + 1) 0 addr of
           Inl e \<Rightarrow> Inl e
         | Inr (i, nocts, addr) \<Rightarrow>
             if nocts \<noteq> 4 \<or> char_at pre s (i + 1) \<noteq> CHR '':'' then Inl (Fails EINVAL) else Inr (i, nocts, addr))
      else Inr (i, nocts, addr))"

lemma dotted_loop_steps:
  "dotted_loop pre s i n addr = Inr (i', n', addr') \<Longrightarrow> int n' + i' \<le> int n + i \<and> n \<le> n' \<and> length addr' = length addr"
proof (induction "nat i" arbitrary: i n addr)
  case 0
  then show ?case by (subst (asm) dotted_loop.simps) auto
next
  case (Suc k)
  have IH: "int n' + i' \<le> int m + (i - 1) \<and> m \<le> n' \<and> length addr' = length a"
    if "dotted_loop pre s (i - 1) m a = Inr (i', n', addr')" for m a
    using Suc.hyps(1)[OF _ that] Suc.hyps(2) by simp
  show ?case using Suc.prems
    by (subst (asm) dotted_loop.simps) (auto simp: Let_def split: if_splits dest!: IH)
qed

lemma dotted_tail_back:
  assumes "dotted_tail pre s i n addr = Inr (i', n', addr')"
  shows "i' \<le> i" "length addr' = length addr"
  using assms dotted_loop_steps[of pre s "i + 1" 0 addr]
  by (auto simp: dotted_tail_def split: if_splits sum.splits)

datatype v6_result = Complete bytes | Stopped int nat bytes

text \<open>The backward pass: it returns the finished address, or stops at \<open>::\<close> (or in front of the
  string) with the octets found so far.\<close>

lemma result_bind_cong [fundef_cong]:
  "r = r' \<Longrightarrow> (\<And>x. r' = Inr x \<Longrightarrow> f x = g x) \<Longrightarrow> result_bind r f = result_bind r' g"
  by (cases r') auto

function v6_loop :: "cmem \<Rightarrow> string \<Rightarrow> int \<Rightarrow> nat \<Rightarrow> bytes \<Rightarrow> text_error + v6_result" where
  "v6_loop pre s i nocts addr =
     (if i \<ge> 0 then
        result_bind (dotted_tail pre s i nocts addr) (\<lambda>(i, nocts, addr).
          if char_at pre s i \<noteq> CHR '':'' \<and> i > 0 then v6_loop pre s (i - 1) nocts addr
          else if char_at pre s i = CHR '':'' \<and> char_at pre s (i + 1) = CHR '':''
          then Inr (if i = 0 then Complete addr else Stopped i nocts addr)
          else if \<not> isxdigit (char_at pre s i) \<and> char_at pre s i \<noteq> CHR '':'' \<and> i > 0 then Inl (Fails EINVAL)
          else (let i' = (if i = 0 then - 1 else i); (oct, rest) = strtoul 16 (cstr pre s (i' + 1)) in
            if \<not> (rest = [] \<or> hd rest \<in> {CHR '':'', CHR ''/'', CHR 0x00}) then Inl (Fails EINVAL)
            else if oct > 0xffff then Inl (Fails EINVAL)
            else (let addr = addr[15 - nocts := of_int (oct mod 256)];
                      addr = addr[15 - (nocts + 1) := of_int (oct div 256 mod 256)];
                      nocts = nocts + 2
                  in if nocts = 16 then Inr (Complete addr) else v6_loop pre s (i' - 1) nocts addr)))
      else Inr (Stopped i nocts addr))"
  by pat_completeness auto
termination
  by (relation "measure (\<lambda>(pre, s, i, nocts, addr). nat (i + 1))") (auto dest!: dotted_tail_back(1) split: if_splits)

declare v6_loop.simps [simp del]

function skip_xdigits :: "cmem \<Rightarrow> string \<Rightarrow> int \<Rightarrow> int \<Rightarrow> int" where
  "skip_xdigits pre s j i = (if isxdigit (char_at pre s i) \<and> i < j then skip_xdigits pre s j (i + 1) else i)"
  by pat_completeness auto
termination
  by (relation "measure (\<lambda>(pre, s, j, i). nat (j - i))") auto

declare skip_xdigits.simps [simp del]

lemma skip_xdigits_ge: "i \<le> skip_xdigits pre s j i"
proof (induction pre s j i rule: skip_xdigits.induct)
  case (1 pre s j i)
  then show ?case by (subst skip_xdigits.simps) auto
qed

text \<open>The forward pass up to the position \<open>j\<close> of the \<open>::\<close>. The number of octets is always even,
  so the comparison with 15 never stops it.\<close>

function front_loop :: "cmem \<Rightarrow> string \<Rightarrow> int \<Rightarrow> nat \<Rightarrow> int \<Rightarrow> nat \<Rightarrow> bytes \<Rightarrow> text_error + bytes" where
  "front_loop pre s j eocts i nocts addr =
     (if i < j then
        if i = 0 \<and> \<not> isxdigit (char_at pre s i) then Inl (Fails EINVAL)
        else (let (oct, rest) = strtoul 16 (cstr pre s i) in
          if \<not> (rest = [] \<or> hd rest \<in> {CHR '':'', CHR ''/'', CHR 0x00}) then Inl (Fails EINVAL)
          else if oct > 0xffff then Inl (Fails EINVAL)
          else if nocts - eocts + 1 > 15 then Inl Overrun
          else (let addr = addr[nocts - eocts := of_int (oct div 256 mod 256)];
                    addr = addr[nocts + 1 - eocts := of_int (oct mod 256)];
                    nocts = nocts + 2
                in if nocts = 15 then Inl (Fails ERR_NONE)
                   else (let i' = skip_xdigits pre s j i in
                     if i' = j then Inr addr
                     else if char_at pre s i' \<noteq> CHR '':'' then Inl (Fails ERR_NONE)
                     else if i' + 1 = j then Inl (Fails ERR_NONE)
                     else front_loop pre s j eocts (i' + 1) nocts addr)))
      else Inl (Fails EINVAL))"
  by pat_completeness auto
termination
proof (relation "measure (\<lambda>(pre, s, j, eocts, i, nocts, addr). nat (j - i))", goal_cases)
  case (2 pre s j eocts i)
  then show ?case using skip_xdigits_ge[of i pre s j] by auto
qed simp

declare front_loop.simps [simp del]

definition parse_v6 :: "cmem \<Rightarrow> string \<Rightarrow> nat option \<Rightarrow> bool \<Rightarrow> text_error + cidr \<Rightarrow> text_error + cidr" where
  "parse_v6 pre s pfx foundmask ctmp =
     (case prefix_length pre s pfx foundmask 128 c_addr ctmp of
        Inl e \<Rightarrow> Inl e
      | Inr (pflen, i) \<Rightarrow>
          if pflen > 128 then Inl (Fails EINVAL)
          else (let msk = (if pflen > 0 then write_mask 120 pflen (rev [0..<16]) (c_mask cidr_alloc) else c_mask cidr_alloc);
                    ret = (\<lambda>addr. cidr_alloc\<lparr>c_proto := CIDR_IPV6, c_addr := addr, c_mask := msk\<rparr>)
                in case v6_loop pre s (skip_slash pre s i) 0 (c_addr cidr_alloc) of
                     Inl e \<Rightarrow> Inl e
                   | Inr (Complete addr) \<Rightarrow> Inr (ret addr)
                   | Inr (Stopped i nocts addr) \<Rightarrow>
                       if i \<ge> 0 \<and> char_at pre s i = CHR '':'' \<and> char_at pre s (i + 1) = CHR '':''
                       then (case front_loop pre s i nocts 0 nocts addr of
                               Inl e \<Rightarrow> Inl e | Inr addr \<Rightarrow> Inr (ret addr))
                       else Inl (Fails EINVAL)))"

subsection \<open>The parser\<close>

lemma scan_prefix_less: "scan_prefix s n f = (Some k, f') \<Longrightarrow> k < n"
  by (induction s n f rule: scan_prefix.induct) (auto simp: Let_def split: if_splits)

text \<open>The recursive call reads the netmask behind the slash; its result is used by the two parsers
  when there is a netmask.\<close>

function cidr_from_str :: "cmem \<Rightarrow> string \<Rightarrow> text_error + cidr" where
  "cidr_from_str pre s =
     (if length s < 1 \<or> length s > 2 ^ 16 then Inl (Fails EFAULT)
      else if \<not> list_all (\<lambda>c. c \<in> set allowed_chars) s then Inl (Fails EINVAL)
      else (case parse_ptr pre s of
        Some r \<Rightarrow> r
      | None \<Rightarrow>
          (case scan_prefix s (length s) False of (pfx, dots) \<Rightarrow>
             (let foundmask = (case pfx of None \<Rightarrow> False | Some k \<Rightarrow> found_mask pre s k dots);
                  ctmp = (case pfx of None \<Rightarrow> Inl (Fails ERR_NONE)
                          | Some k \<Rightarrow> if foundmask then cidr_from_str (mem_behind pre s k) (drop (k + 1) s)
                                      else Inl (Fails ERR_NONE));
                  proto = detect_proto pre s
              in if proto = CIDR_IPV4 then parse_v4 pre s pfx foundmask ctmp
                 else if proto = CIDR_IPV6 then parse_v6 pre s pfx foundmask ctmp
                 else Inl (Fails EINVAL)))))"
  by pat_completeness auto
termination
  by (relation "measure (\<lambda>(pre, s). length s)") (auto dest: scan_prefix_less)

declare cidr_from_str.simps [simp del]

subsection \<open>The printer\<close>

definition CIDR_NOCOMPACT :: "32 word" where "CIDR_NOCOMPACT = 1"
definition CIDR_VERBOSE :: "32 word" where "CIDR_VERBOSE = 2"
definition CIDR_USEV6 :: "32 word" where "CIDR_USEV6 = 4"
definition CIDR_USEV4COMPAT :: "32 word" where "CIDR_USEV4COMPAT = 8"
definition CIDR_NETMASK :: "32 word" where "CIDR_NETMASK = 16"
definition CIDR_ONLYADDR :: "32 word" where "CIDR_ONLYADDR = 32"
definition CIDR_ONLYPFLEN :: "32 word" where "CIDR_ONLYPFLEN = 64"
definition CIDR_WILDCARD :: "32 word" where "CIDR_WILDCARD = 128"
definition CIDR_FORCEV6 :: "32 word" where "CIDR_FORCEV6 = 256"
definition CIDR_FORCEV4 :: "32 word" where "CIDR_FORCEV4 = 512"
definition CIDR_REVERSE :: "32 word" where "CIDR_REVERSE = 1024"

lemmas cidr_flag_defs = CIDR_NOCOMPACT_def CIDR_VERBOSE_def CIDR_USEV6_def CIDR_USEV4COMPAT_def
  CIDR_NETMASK_def CIDR_ONLYADDR_def CIDR_ONLYPFLEN_def CIDR_WILDCARD_def CIDR_FORCEV6_def
  CIDR_FORCEV4_def CIDR_REVERSE_def

definition has_flag :: "32 word \<Rightarrow> 32 word \<Rightarrow> bool" where
  "has_flag flags f \<longleftrightarrow> flags AND f \<noteq> 0"

fun join_with :: "string \<Rightarrow> string list \<Rightarrow> string" where
  "join_with sep [] = []"
| "join_with sep [x] = x"
| "join_with sep (x # y # ys) = x @ sep @ join_with sep (y # ys)"

text \<open>The format \<open>%u\<close> of an \<open>int\<close>.\<close>

definition dec_u :: "int \<Rightarrow> string" where
  "dec_u v = dec (nat (v mod 2 ^ 32))"

text \<open>Four octets of an IPv4 address or mask.\<close>

definition quad :: "bytes \<Rightarrow> string" where
  "quad bs = join_with ''.'' (map (\<lambda>b. dec (unat b)) (drop 12 bs))"

definition v6_lead :: "32 word \<Rightarrow> string" where
  "v6_lead flags =
     (if has_flag flags CIDR_USEV6 then
        (if has_flag flags CIDR_NOCOMPACT
         then (if has_flag flags CIDR_VERBOSE then ''0000:0000:0000:0000:0000:'' else ''0:0:0:0:0:'')
         else ''::'')
        @ (if has_flag flags CIDR_USEV4COMPAT
           then (if has_flag flags CIDR_NOCOMPACT then (if has_flag flags CIDR_VERBOSE then ''0000:'' else ''0:'') else [])
           else ''ffff:'')
      else [])"

definition to_str_v4 :: "cidr \<Rightarrow> 32 word \<Rightarrow> errno + string" where
  "to_str_v4 block flags =
     (if has_flag flags CIDR_REVERSE
      then Inr (join_with ''.'' (map (\<lambda>b. dec (unat b)) (rev (drop 12 (c_addr block)))) @ ''.in-addr.arpa'')
      else
        (let addr = (if \<not> has_flag flags CIDR_ONLYPFLEN then v6_lead flags @ quad (c_addr block) else []) in
         if \<not> has_flag flags CIDR_ONLYADDR then
           (let addr = addr @ (if \<not> has_flag flags CIDR_ONLYPFLEN then ''/'' else []) in
            if has_flag flags CIDR_NETMASK
            then Inr (addr @ quad (if has_flag flags CIDR_WILDCARD then map (NOT) (c_mask block) else c_mask block))
            else (case cidr_get_pflen (Some block) of
                Inl e \<Rightarrow> Inl e
              | Inr pflen \<Rightarrow>
                  (let pflen = (if c_proto block = CIDR_IPV6 \<and> has_flag flags CIDR_FORCEV4 then pflen - 96 else pflen)
                   in Inr (addr @ dec_u (if has_flag flags CIDR_USEV6 then pflen + 96 else pflen)))))
         else Inr addr))"

text \<open>The longest run of zero sections: its start and length (start -1 when there is none).\<close>

fun zero_run :: "bytes \<Rightarrow> nat list \<Rightarrow> int \<Rightarrow> int \<Rightarrow> int \<Rightarrow> int \<Rightarrow> int \<times> int" where
  "zero_run addr [] zst zcur zlen zmax = (if zcur \<noteq> - 1 \<and> zlen > zmax then (zcur, zlen) else (zst, zmax))"
| "zero_run addr (i # is) zst zcur zlen zmax =
     (if addr ! i = 0 \<and> addr ! (i + 1) = 0 then
        (if zcur \<noteq> - 1 then zero_run addr is zst zcur (zlen + 1) zmax
         else zero_run addr is zst (int i) 1 zmax)
      else if zcur \<noteq> - 1 then
        (if zlen > zmax then zero_run addr is zcur (- 1) zlen zlen else zero_run addr is zst (- 1) zlen zmax)
      else zero_run addr is zst zcur zlen zmax)"

text \<open>The sections of an IPv6 address. The loop over the eight sections takes the number of rounds
  as an argument; every round moves at least one section on when a zero run has a positive length.\<close>

fun v6_sections :: "nat \<Rightarrow> 32 word \<Rightarrow> bytes \<Rightarrow> int \<Rightarrow> int \<Rightarrow> int \<Rightarrow> bool \<Rightarrow> string" where
  "v6_sections 0 flags addr zst zmax i lzer = []"
| "v6_sections (Suc n) flags addr zst zmax i lzer =
     (if i \<le> 15 then
        if i = zst \<and> \<not> has_flag flags CIDR_NOCOMPACT
        then ''::'' @ v6_sections n flags addr zst zmax (i + (zmax * 2 - 2) + 2) True
        else (if i \<noteq> 0 \<and> (has_flag flags CIDR_NOCOMPACT \<or> \<not> lzer) then '':'' else [])
          @ (let v6sect = unat (addr ! nat i) * 256 + unat (addr ! (nat i + 1))
             in if has_flag flags CIDR_VERBOSE then hex4 v6sect else hex v6sect)
          @ v6_sections n flags addr zst zmax (i + 2) False
      else [])"

definition v6_text :: "32 word \<Rightarrow> bytes \<Rightarrow> string" where
  "v6_text flags addr =
     (let (zst, zmax) = zero_run addr [0, 2, 4, 6, 8, 10, 12, 14] (- 1) (- 1) 0 0
      in v6_sections 8 flags addr zst zmax 0 False)"

definition nibbles :: "bytes \<Rightarrow> string" where
  "nibbles addr = join_with ''.'' (concat (map (\<lambda>b. [hex (unat b mod 16), hex (unat b div 16)]) (rev addr)))"

text \<open>The printer calls itself once more for a netmask, with the flag for netmasks removed.\<close>

definition mask_flags :: "32 word \<Rightarrow> 32 word" where
  "mask_flags flags = ((flags AND NOT CIDR_NETMASK) AND NOT CIDR_ONLYPFLEN) OR CIDR_ONLYADDR"

lemma mask_flags_netmask: "\<not> has_flag (mask_flags flags) CIDR_NETMASK"
proof -
  have "((flags AND NOT m) AND NOT k) AND m = 0" for m k :: "32 word"
    by (rule bit_word_eqI) (auto simp: bit_simps)
  then show ?thesis
    by (simp add: has_flag_def mask_flags_def bit.conj_disj_distrib2) (simp add: cidr_flag_defs)
qed

function cidr_to_str :: "cidr option \<Rightarrow> 32 word \<Rightarrow> errno + string" where
  "cidr_to_str b flags = (case b of
     None \<Rightarrow> Inl EINVAL
   | Some block \<Rightarrow>
       if c_proto block = CIDR_NOPROTO then Inl EINVAL
       else if has_flag flags CIDR_ONLYADDR \<and> has_flag flags CIDR_ONLYPFLEN then Inl EINVAL
       else if c_proto block = CIDR_IPV4 \<and> \<not> has_flag flags CIDR_FORCEV6 \<or> has_flag flags CIDR_FORCEV4
       then to_str_v4 block flags
       else if c_proto block = CIDR_IPV6 \<and> \<not> has_flag flags CIDR_FORCEV4 \<or> has_flag flags CIDR_FORCEV6 then
         if has_flag flags CIDR_REVERSE then Inr (nibbles (c_addr block) @ ''.ip6.arpa'')
         else
           (let text = (if \<not> has_flag flags CIDR_ONLYPFLEN then v6_text flags (c_addr block) else []) in
            if \<not> has_flag flags CIDR_ONLYADDR then
              (let text = text @ (if \<not> has_flag flags CIDR_ONLYPFLEN then ''/'' else []) in
               if has_flag flags CIDR_NETMASK then
                 result_bind (cidr_to_str (Some (cidr_alloc\<lparr>c_proto := c_proto block,
                     c_addr := (if has_flag flags CIDR_WILDCARD then map (NOT) (c_mask block) else c_mask block)\<rparr>))
                   (mask_flags flags)) (\<lambda>nmstr. Inr (text @ nmstr))
               else result_bind (cidr_get_pflen b) (\<lambda>pflen.
                 Inr (text @ dec_u (if c_proto block = CIDR_IPV4 \<and> has_flag flags CIDR_FORCEV6 then pflen + 96 else pflen))))
            else Inr text)
       else Inl ENOENT)"
  by pat_completeness auto
termination
  by (relation "measure (\<lambda>(b, flags). if has_flag flags CIDR_NETMASK then 1 else 0)") (auto simp: mask_flags_netmask)

declare cidr_to_str.simps [simp del]

section \<open>Reading IPv4 text\<close>

lemma char_at_append:
  "char_at pre (u @ v) (int (length u) + int k) = char_at pre v (int k)"
  by (auto simp: char_at_def nth_append nat_add_distrib)

lemma char_at_nth: "k < length s \<Longrightarrow> char_at pre s (int k) = s ! k"
  by (simp add: char_at_def)

lemma char_at_last:
  assumes "u \<noteq> []"
  shows "char_at pre (u @ v) (int (length u) - 1) = last u"
proof -
  obtain x xs where "u = xs @ [x]" using assms by (cases u rule: rev_cases) auto
  then show ?thesis by (simp add: char_at_def nth_append)
qed

lemma cstr_append: "cstr pre (u @ v) (int (length u)) = v"
  by (simp add: cstr_def)

lemma digit_table:
  "digit_of (CHR ''.'') = 99" "digit_of (CHR ''/'') = 99" "digit_of (CHR ''0'') = 0"
  "digit_of (CHR '':'') = 99" "isspace (CHR ''0'') = False"
  by code_simp+

lemma digits_allowed: "digits ds \<Longrightarrow> set ds \<subseteq> set allowed_chars"
proof -
  have "list_all (\<lambda>d. digit_char d \<in> set allowed_chars) [0..<10]" by code_simp
  then show "digits ds \<Longrightarrow> set ds \<subseteq> set allowed_chars" by (auto simp: digits_def list_all_iff)
qed

text \<open>A number between separators, read in the base its first digit selects.\<close>

definition separated :: "string \<Rightarrow> bool" where
  "separated rest \<longleftrightarrow> rest = [] \<or> hd rest \<in> {CHR ''.'', CHR ''/''}"

lemma separated_digit: "separated rest \<Longrightarrow> rest = [] \<or> 10 \<le> digit_of (hd rest)"
  by (auto simp: separated_def digit_table)

lemma section_number_dec:
  assumes "int m < 2 ^ 64" "separated rest"
  shows "section_number pre (u @ dec m @ rest) (int (length u)) = (int m, rest)"
proof -
  have hd0: "char_at pre (u @ dec m @ rest) (int (length u)) = hd (dec m)"
    using char_at_append[of pre u "dec m @ rest" 0] by (simp add: char_at_def hd_append hd_conv_nth nth_append)
  have c: "cstr pre (u @ dec m @ rest) (int (length u)) = dec m @ rest" by (rule cstr_append)
  show ?thesis
  proof (cases "m = 0")
    case True
    have n: "char_at pre (u @ dec m @ rest) (int (length u) + 1) = (if rest = [] then CHR 0x00 else hd rest)"
      using char_at_append[of pre u "dec m @ rest" 1] True
      by (cases rest) (simp_all add: char_at_def dec_zero)
    have x: "tolower (CHR 0x00) \<noteq> CHR ''x''" "tolower (CHR ''.'') \<noteq> CHR ''x''" "tolower (CHR ''/'') \<noteq> CHR ''x''"
      by code_simp+
    have "tolower (char_at pre (u @ dec m @ rest) (int (length u) + 1)) \<noteq> CHR ''x''"
      unfolding n using assms(2) x by (auto simp: separated_def)
    moreover have "strtoul 8 (''0'' @ rest) = (0, rest)"
    proof -
      have "takeWhile (\<lambda>c. digit_of c < 8) (''0'' @ rest) = ''0''"
        by (rule takeWhile_digits) (use assms(2) in \<open>auto simp: separated_def digit_table\<close>)
      then show ?thesis by (simp add: strtoul_def scan_number_def digit_table)
    qed
    ultimately show ?thesis using True hd0 c hd_dec[of m] by (simp add: section_number_def dec_zero)
  next
    case False
    then show ?thesis
      using hd0 c hd_dec[of m] strtoul_dec[OF assms(1) separated_digit[OF assms(2)]] by (simp add: section_number_def)
  qed
qed

lemma v4_loop_back:
  assumes "\<forall>k. length u \<le> k \<and> k \<le> i \<longrightarrow> isxdigit (char_at pre s (int k))" "length u \<le> Suc i" "u \<noteq> []"
  shows "v4_loop pre s nsect (int i) nocts addr = v4_loop pre s nsect (int (length u) - 1) nocts addr"
  using assms
proof (induction i)
  case 0
  then have "length u = Suc 0" by (cases u) auto
  then show ?case by simp
next
  case (Suc i)
  show ?case
  proof (cases "length u \<le> Suc i")
    case True
    then have "v4_loop pre s nsect (int (Suc i)) nocts addr = v4_loop pre s nsect (int i) nocts addr"
      using Suc.prems(1) by (subst v4_loop.simps) (simp del: of_nat_Suc, simp)
    then show ?thesis using Suc.IH Suc.prems True by simp
  next
    case False
    then have "length u = Suc (Suc i)" using Suc.prems(2) by simp
    then show ?thesis by simp
  qed
qed

lemma v4_loop_start:
  assumes "\<forall>k. 0 < k \<and> k \<le> i \<longrightarrow> isxdigit (char_at pre s (int k))"
  shows "v4_loop pre s nsect (int i) nocts addr = v4_loop pre s nsect 0 nocts addr"
  using assms
proof (induction i)
  case (Suc i)
  then have "v4_loop pre s nsect (int (Suc i)) nocts addr = v4_loop pre s nsect (int i) nocts addr"
    by (subst v4_loop.simps) (simp del: of_nat_Suc, simp)
  then show ?case using Suc by simp
qed simp

lemma xdigit_inside:
  assumes "s = u @ ds @ rest" "digits ds" "length u \<le> k" "k < length u + length ds"
  shows "isxdigit (char_at pre s (int k))"
proof -
  have "k - length u < length ds" using assms(3,4) by linarith
  then have "char_at pre s (int k) = ds ! (k - length u)"
    using assms by (simp add: char_at_def nth_append)
  then show ?thesis using digitsD(5)[OF assms(2)] assms(3,4) by simp
qed

lemma v4_number:
  assumes "s = u @ dec m @ rest" "m < 256" "separated rest" "u = [] \<or> 2 \<le> length u \<and> last u = CHR ''.''"
  shows "v4_loop pre s 4 (int (length u + length (dec m)) - 1) nocts addr =
    (let addr' = addr[15 - nocts := of_nat m]
     in if nocts + 1 = 4 then Inr addr' else v4_loop pre s 4 (int (length u) - 2) (nocts + 1) addr')"
proof -
  define i where "i = length u + length (dec m) - 1"
  have len: "length (dec m) \<ge> 1" by (cases "dec m") auto
  have i: "int (length u + length (dec m)) - 1 = int i" using len by (simp add: i_def)
  have sec: "section_number pre s (int (length u)) = (int m, rest)"
    using section_number_dec[OF _ assms(3), of m pre u] assms(1,2) by simp
  have sep: "rest = [] \<or> hd rest \<in> {CHR ''.'', CHR ''/'', CHR 0x00}" using assms(3) by (auto simp: separated_def)
  have sv: "save_octets 4 (int m) nocts addr = (nocts + 1, addr[15 - nocts := of_nat m])"
    using assms(2) by (simp add: save_octets_def Let_def)
  show ?thesis
  proof (cases "u = []")
    case True
    have "v4_loop pre s 4 (int i) nocts addr = v4_loop pre s 4 0 nocts addr"
      by (rule v4_loop_start) (use xdigit_inside[OF assms(1) digits_dec] True i_def in auto)
    also have "\<dots> = (let addr' = addr[15 - nocts := of_nat m]
        in if nocts + 1 = 4 then Inr addr' else v4_loop pre s 4 (- 2) (nocts + 1) addr')"
      using sec sep sv assms(2) True by (subst v4_loop.simps) (auto simp: Let_def)
    finally show ?thesis using i True by (simp add: Let_def)
  next
    case False
    then have u: "2 \<le> length u" "last u = CHR ''.''" using assms(4) by auto
    have dot: "char_at pre s (int (length u) - 1) = CHR ''.''"
    proof -
      have "char_at pre s (int (length u - 1)) = s ! (length u - 1)"
        by (rule char_at_nth) (use u(1) assms(1) in simp)
      also have "\<dots> = last u" using False u(1) assms(1) by (simp add: nth_append last_conv_nth)
      finally show ?thesis using u by (simp add: of_nat_diff)
    qed
    have nx: "\<not> isxdigit (CHR ''.'')" "tolower (CHR ''.'') \<noteq> CHR ''x''" by code_simp+
    have "v4_loop pre s 4 (int i) nocts addr = v4_loop pre s 4 (int (length u) - 1) nocts addr"
      by (rule v4_loop_back) (use xdigit_inside[OF assms(1) digits_dec] False len i_def in auto)
    also have "\<dots> = (let addr' = addr[15 - nocts := of_nat m]
        in if nocts + 1 = 4 then Inr addr' else v4_loop pre s 4 (int (length u) - 2) (nocts + 1) addr')"
      using sec sep sv assms(2) u(1) dot nx by (subst v4_loop.simps) (auto simp: Let_def)
    finally show ?thesis using i by simp
  qed
qed

definition quad_text :: "byte \<Rightarrow> byte \<Rightarrow> byte \<Rightarrow> byte \<Rightarrow> string" where
  "quad_text a b c d = dec (unat a) @ ''.'' @ dec (unat b) @ ''.'' @ dec (unat c) @ ''.'' @ dec (unat d)"

lemma unat_byte: "unat (x :: byte) < 256"
  using unsigned_less[of x] by simp

lemma v4_loop_quad:
  assumes "separated rest"
  shows "v4_loop pre (quad_text a b c d @ rest) 4 (int (length (quad_text a b c d)) - 1) 0 (v4_mapped_head @ [0, 0, 0, 0])
    = Inr (v4_mapped_head @ [a, b, c, d])"
proof -
  let ?A = "dec (unat a)" and ?B = "dec (unat b)" and ?C = "dec (unat c)" and ?D = "dec (unat d)"
  define s where "s = quad_text a b c d @ rest"
  have len: "length (dec n) \<ge> 1" for n by (cases "dec n") auto
  have sd: "s = (?A @ ''.'' @ ?B @ ''.'' @ ?C @ ''.'') @ ?D @ rest" by (simp add: s_def quad_text_def)
  have sc: "s = (?A @ ''.'' @ ?B @ ''.'') @ ?C @ (''.'' @ ?D @ rest)" by (simp add: s_def quad_text_def)
  have sb: "s = (?A @ ''.'') @ ?B @ (''.'' @ ?C @ ''.'' @ ?D @ rest)" by (simp add: s_def quad_text_def)
  have sa: "s = [] @ ?A @ (''.'' @ ?B @ ''.'' @ ?C @ ''.'' @ ?D @ rest)" by (simp add: s_def quad_text_def)
  have u: "last (xs @ ''.'') = CHR ''.''" "2 \<le> length (?A @ xs @ ''.'')" for xs using len[of "unat a"] by auto
  have sp: "separated (''.'' @ xs)" for xs by (simp add: separated_def)
  note D = v4_number[OF sd unat_byte assms, of pre 0] and C = v4_number[OF sc unat_byte sp, of pre 1]
    and B = v4_number[OF sb unat_byte sp, of pre 2] and A = v4_number[OF sa unat_byte sp, of pre 3]
  let ?z = "v4_mapped_head @ [0, 0, 0, 0]"
  have "v4_loop pre s 4 (int (length (quad_text a b c d)) - 1) 0 ?z
      = v4_loop pre s 4 (int (length (?A @ ''.'' @ ?B @ ''.'' @ ?C)) - 1) 1 (?z[15 := d])"
    using D[of ?z] u(2)[of "''.'' @ ?B @ ''.'' @ ?C"] by (simp add: quad_text_def Let_def algebra_simps)
  also have "\<dots> = v4_loop pre s 4 (int (length (?A @ ''.'' @ ?B)) - 1) 2 (?z[15 := d, 14 := c])"
    using C[of "?z[15 := d]"] u(2)[of "''.'' @ ?B"] by (simp add: Let_def algebra_simps numeral_2_eq_2)
  also have "\<dots> = v4_loop pre s 4 (int (length ?A) - 1) 3 (?z[15 := d, 14 := c, 13 := b])"
    using B[of "?z[15 := d, 14 := c]"] u(2)[of "[]"] by (simp add: Let_def algebra_simps numeral_3_eq_3)
  also have "\<dots> = Inr (?z[15 := d, 14 := c, 13 := b, 12 := a])"
    using A[of "?z[15 := d, 14 := c, 13 := b]"] by (simp add: Let_def)
  also have "?z[15 := d, 14 := c, 13 := b, 12 := a] = v4_mapped_head @ [a, b, c, d]"
    by (simp add: v4_mapped_head_def numeral_eq_Suc)
  finally show ?thesis by (simp add: s_def)
qed

text \<open>The other parts of the parser on such a string.\<close>

lemma quad_text_chars: "set (quad_text a b c d) \<subseteq> {CHR ''.''} \<union> set (dec (unat a)) \<union> set (dec (unat b)) \<union> set (dec (unat c)) \<union> set (dec (unat d))"
  by (auto simp: quad_text_def)

lemma digits_no: "digits ds \<Longrightarrow> x \<in> set ''-+.:/xXat'' \<Longrightarrow> x \<notin> set ds"
  using digitsD(6) by blast

lemma quad_text_no:
  "CHR ''/'' \<notin> set (quad_text a b c d)" "CHR '':'' \<notin> set (quad_text a b c d)"
  using quad_text_chars[of a b c d] digits_no[OF digits_dec, of "CHR ''/''"] digits_no[OF digits_dec, of "CHR '':''"]
  by auto

lemma filter_digits: "digits ds \<Longrightarrow> filter (\<lambda>c. c = CHR ''.'') ds = []"
  using digits_no[of ds "CHR ''.''"] by (auto simp: filter_empty_conv)

lemma quad_text_dots: "length (filter (\<lambda>c. c = CHR ''.'') (quad_text a b c d)) = 3"
  by (simp add: quad_text_def filter_digits)

lemma ends_like_last:
  assumes "s \<noteq> []" "pat \<noteq> []" "tolower (last s) \<noteq> last pat" "back = int (length pat)"
  shows "\<not> ends_like pre s back pat"
proof
  assume e: "ends_like pre s back pat"
  have l: "length pat - 1 < length pat" using assms(2) by (cases pat) auto
  have "last pat = map (\<lambda>k. tolower (char_at pre s (int (length s) - back + int k))) [0..<length pat] ! (length pat - 1)"
    using e assms(2) by (simp add: ends_like_def last_conv_nth)
  also have "\<dots> = tolower (char_at pre s (int (length s) - 1))"
    using l assms(4) by (simp add: of_nat_diff Suc_leI add_diff_eq)
  also have "char_at pre s (int (length s) - 1) = last s"
    using assms(1) char_at_last[of s pre "[]"] by simp
  finally show False using assms(3) by simp
qed

lemma parse_ptr_last:
  assumes "s \<noteq> []" "tolower (last s) \<notin> set ''at''"
  shows "parse_ptr pre s = None"
  using assms ends_like_last[OF assms(1), of "''.ip6.int''" 8 pre] ends_like_last[OF assms(1), of "''.arpa''" 5 pre]
  by (simp add: parse_ptr_def)

lemma parse_ptr_digit:
  assumes "s = u @ ds" "digits ds"
  shows "parse_ptr pre s = None"
proof (rule parse_ptr_last)
  have ds: "ds \<noteq> []" using assms(2) by (simp add: digits_def)
  then show "s \<noteq> []" using assms(1) by simp
  have "last s \<in> set ds" using ds assms(1) by simp
  then show "tolower (last s) \<notin> set ''at''" using digitsD(6,7)[OF assms(2)] by fastforce
qed

lemma scan_prefix_end:
  assumes "s = u @ ''/'' @ ds" "CHR ''/'' \<notin> set ds" "CHR ''.'' \<notin> set ds" "CHR '':'' \<notin> set ds" "k \<le> length ds"
  shows "scan_prefix s (length u + 1 + k) False = (Some (length u), False)"
  using assms(5)
proof (induction k)
  case 0
  then show ?case using assms(1) by (simp add: nth_append)
next
  case (Suc k)
  have "s ! (length u + 1 + k) = ds ! k" using assms(1) by (simp add: nth_append)
  moreover have "ds ! k \<in> set ds" using Suc.prems by simp
  ultimately have "s ! (length u + 1 + k) \<noteq> CHR ''/''" "s ! (length u + 1 + k) \<noteq> CHR ''.''" "s ! (length u + 1 + k) \<noteq> CHR '':''"
    using assms(2-4) by metis+
  then show ?case using Suc.IH Suc.prems by simp
qed

lemma find_char_append: "c \<notin> set u \<Longrightarrow> find_char c (u @ c # v) = Some (length u)"
  by (induction u) auto

lemma find_char_None: "c \<notin> set u \<Longrightarrow> find_char c u = None"
  by (induction u) auto

lemma detect_quad:
  assumes "CHR '':'' \<notin> set rest"
  shows "detect_proto pre (quad_text a b c d @ rest) = CIDR_IPV4"
proof -
  have "find_char (CHR '':'') (quad_text a b c d @ rest) = None"
    by (rule find_char_None) (use assms quad_text_no in simp)
  moreover have "find_char (CHR ''.'') (quad_text a b c d @ rest) = Some (length (dec (unat a)))"
    using find_char_append[OF digits_no[OF digits_dec, of "CHR ''.''" "unat a"]] by (simp add: quad_text_def)
  moreover have "length (dec (unat a)) \<le> 4" using length_dec_byte[OF unat_byte[of a]] by simp
  ultimately show ?thesis by (simp add: detect_proto_def)
qed

lemma skip_slash_other: "char_at pre s i \<noteq> CHR ''/'' \<Longrightarrow> skip_slash pre s i = i"
  by (subst skip_slash.simps) simp

lemma quad_text_end:
  "char_at pre (quad_text a b c d @ rest) (int (length (quad_text a b c d)) - 1) \<noteq> CHR ''/''"
proof -
  have "quad_text a b c d \<noteq> []" by (simp add: quad_text_def)
  then show ?thesis using char_at_last[of "quad_text a b c d" pre rest] quad_text_no(1) by (metis last_in_set)
qed

definition v4_mask :: "int \<Rightarrow> bytes" where
  "v4_mask p = (let z = replicate 12 0xff @ [0, 0, 0, 0] in if p > 0 then write_mask 24 p [15, 14, 13, 12] z else z)"

definition v4_text_block :: "byte \<Rightarrow> byte \<Rightarrow> byte \<Rightarrow> byte \<Rightarrow> int \<Rightarrow> cidr" where
  "v4_text_block a b c d p = \<lparr>c_version = 0, c_addr = v4_mapped_head @ [a, b, c, d], c_mask = v4_mask p, c_proto = CIDR_IPV4\<rparr>"

lemma parse_v4_quad:
  assumes "prefix_length pre (quad_text a b c d @ ''/'' @ t) (Some (length (quad_text a b c d))) fm 32 (\<lambda>c. replicate 12 0 @ drop 12 (c_addr c)) ctmp
      = Inr (p, int (length (quad_text a b c d)) - 1)"
  shows "parse_v4 pre (quad_text a b c d @ ''/'' @ t) (Some (length (quad_text a b c d))) fm ctmp =
    (if p > 32 then Inl (Fails EINVAL) else Inr (v4_text_block a b c d p))"
proof -
  let ?s = "quad_text a b c d @ ''/'' @ t" and ?k = "int (length (quad_text a b c d)) - 1"
  have sk: "skip_slash pre ?s ?k = ?k" by (rule skip_slash_other) (rule quad_text_end)
  have v: "v4_loop pre ?s 4 ?k 0 (v4_mapped_head @ [0, 0, 0, 0]) = Inr (v4_mapped_head @ [a, b, c, d])"
    by (rule v4_loop_quad) (simp add: separated_def)
  have z: "replicate 10 0 @ replicate 2 0xff @ drop 12 (c_addr cidr_alloc) = v4_mapped_head @ [0, 0, 0, 0 :: byte]"
    "replicate 12 0xff @ drop 12 (c_mask cidr_alloc) = replicate 12 0xff @ [0, 0, 0, 0 :: byte]"
    by (simp_all add: v4_mapped_head_def cidr_alloc_def numeral_eq_Suc)
  have tk: "take (length (quad_text a b c d)) ?s = quad_text a b c d" by simp
  have n: "Suc (Suc (Suc (Suc 0))) = 4" by simp
  show ?thesis
    unfolding parse_v4_def option.case tk quad_text_dots Let_def assms sum.case prod.case z
    by (simp add: n sk[simplified] v[simplified] v4_text_block_def v4_mask_def cidr_alloc_def Let_def)
qed

lemma allowed_quad:
  assumes "set t \<subseteq> set allowed_chars"
  shows "list_all (\<lambda>c. c \<in> set allowed_chars) (quad_text a b c d @ t)"
proof -
  have "CHR ''.'' \<in> set allowed_chars" by code_simp
  then show ?thesis
    using quad_text_chars[of a b c d] digits_allowed[OF digits_dec] assms by (fastforce simp: list_all_iff)
qed

lemma length_dec_16:
  assumes "n < 10 ^ k" "0 < k"
  shows "length (dec n) \<le> k"
  using assms
proof (induction k arbitrary: n)
  case (Suc k)
  show ?case
  proof (cases "n < 10")
    case True
    then show ?thesis by (subst dec.simps) simp
  next
    case False
    then have k: "0 < k" using Suc.prems by (cases k) auto
    have "n div 10 < 10 ^ k" using Suc.prems(1) by (simp add: less_mult_imp_div_less mult.commute)
    then show ?thesis using Suc.IH[of "n div 10"] k False by (subst dec.simps) simp
  qed
qed simp

text \<open>An address followed by a slash and a number without leading zeros.\<close>

lemma from_str_quad:
  assumes "n \<noteq> 0" "n < 10 ^ 18"
  shows "cidr_from_str pre (quad_text a b c d @ ''/'' @ dec n) =
    (if to_int32 (int n) > 32 then Inl (Fails EINVAL) else Inr (v4_text_block a b c d (to_int32 (int n))))"
proof -
  let ?q = "quad_text a b c d"
  let ?s = "?q @ ''/'' @ dec n"
  have len: "\<not> (length ?s < 1 \<or> length ?s > 2 ^ 16)"
    using length_dec_16[OF assms(2)] length_dec_byte[OF unat_byte[of a]] length_dec_byte[OF unat_byte[of b]]
      length_dec_byte[OF unat_byte[of c]] length_dec_byte[OF unat_byte[of d]] by (simp add: quad_text_def)
  have "CHR ''/'' \<in> set allowed_chars" by code_simp
  then have al: "list_all (\<lambda>c. c \<in> set allowed_chars) ?s"
    using allowed_quad[of "''/'' @ dec n"] digits_allowed[OF digits_dec] by simp
  have ptr: "parse_ptr pre ?s = None" by (rule parse_ptr_digit[of _ "?q @ ''/''" "dec n"]) simp_all
  have sc: "scan_prefix ?s (length ?s) False = (Some (length ?q), False)"
    using scan_prefix_end[of ?s ?q "dec n" "length (dec n)"] digits_no[OF digits_dec, of _ n] by simp
  have hd1: "char_at pre ?s (int (length ?q) + 1) = hd (dec n)"
    using char_at_append[of pre "?q @ ''/''" "dec n" 0] by (simp add: char_at_def hd_conv_nth add.commute)
  have dg: "isdigit (hd (dec n))" "hd (dec n) \<noteq> CHR ''0''" "hd (dec n) \<noteq> CHR 0x00"
  proof -
    have "hd (dec n) \<in> set (dec n)" by simp
    then show d: "isdigit (hd (dec n))" by (rule digitsD(4)[OF digits_dec])
    show "hd (dec n) \<noteq> CHR ''0''" using hd_dec[of n] assms(1) by simp
    have "\<not> isdigit (CHR 0x00)" by code_simp
    then show "hd (dec n) \<noteq> CHR 0x00" using d by metis
  qed
  have dr: "drop (length ?q + 1) ?s = dec n" by simp
  have sl: "strtoul 10 (dec n) = (int n, [])" "strtol 10 (dec n) = int n"
    using strtoul_dec[of n "[]"] strtol_dec[of n "[]"] assms(2) by simp_all
  have fm: "\<not> found_mask pre ?s (length ?q) False"
    unfolding found_mask_def dr hd1 using dg sl by simp
  have pl: "prefix_length pre ?s (Some (length ?q)) False 32 f ctmp = Inr (to_int32 (int n), int (length ?q) - 1)" for f ctmp
    unfolding prefix_length_def option.case dr hd1 using dg sl by simp
  have pr: "detect_proto pre ?s = CIDR_IPV4"
    by (rule detect_quad) (use digits_no[OF digits_dec, of "CHR '':''" n] in simp)
  show ?thesis
    using len al ptr sc fm pr parse_v4_quad[OF pl] by (subst cidr_from_str.simps) simp
qed

text \<open>An address alone is a host.\<close>

lemma scan_prefix_none: "CHR ''/'' \<notin> set s \<Longrightarrow> n \<le> length s \<Longrightarrow> fst (scan_prefix s n f) = None"
proof (induction s n f rule: scan_prefix.induct)
  case (2 s i f)
  have "s ! i \<noteq> CHR ''/''" using 2(2,3) by (metis Suc_le_lessD nth_mem)
  then show ?case using 2 by (simp add: Let_def)
qed simp

lemma from_str_host: "cidr_from_str pre (quad_text a b c d) = Inr (v4_text_block a b c d 32)"
proof -
  let ?s = "quad_text a b c d"
  have len: "\<not> (length ?s < 1 \<or> length ?s > 2 ^ 16)"
    using length_dec_byte[OF unat_byte[of a]] length_dec_byte[OF unat_byte[of b]]
      length_dec_byte[OF unat_byte[of c]] length_dec_byte[OF unat_byte[of d]] by (simp add: quad_text_def)
  have al: "list_all (\<lambda>c. c \<in> set allowed_chars) ?s" using allowed_quad[of "[]" a b c d] by simp
  have ptr: "parse_ptr pre ?s = None"
    by (rule parse_ptr_digit[of _ "dec (unat a) @ ''.'' @ dec (unat b) @ ''.'' @ dec (unat c) @ ''.''" "dec (unat d)"])
       (simp_all add: quad_text_def)
  obtain fm where sc: "scan_prefix ?s (length ?s) False = (None, fm)"
    using scan_prefix_none[OF quad_text_no(1), of "length ?s" a b c d False] by (metis order_refl prod.collapse)
  have pr: "detect_proto pre ?s = CIDR_IPV4" using detect_quad[of "[]" pre a b c d] by simp
  let ?k = "int (length ?s) - 1"
  have sk: "skip_slash pre ?s ?k = ?k" by (rule skip_slash_other) (use quad_text_end[of pre a b c d "[]"] in simp)
  have v: "v4_loop pre ?s 4 ?k 0 (v4_mapped_head @ [0, 0, 0, 0]) = Inr (v4_mapped_head @ [a, b, c, d])"
    using v4_loop_quad[of "[]" pre a b c d] by (simp add: separated_def)
  have z: "replicate 10 0 @ replicate 2 0xff @ drop 12 (c_addr cidr_alloc) = v4_mapped_head @ [0, 0, 0, 0 :: byte]"
    "replicate 12 0xff @ drop 12 (c_mask cidr_alloc) = replicate 12 0xff @ [0, 0, 0, 0 :: byte]"
    by (simp_all add: v4_mapped_head_def cidr_alloc_def numeral_eq_Suc)
  have n: "Suc (Suc (Suc (Suc 0))) = 4" by simp
  have "parse_v4 pre ?s None False (Inl (Fails ERR_NONE)) = Inr (v4_text_block a b c d 32)"
    unfolding parse_v4_def option.case quad_text_dots Let_def prefix_length_def sum.case prod.case z
    by (simp add: n sk v v4_text_block_def v4_mask_def cidr_alloc_def Let_def)
  then show ?thesis
    using len al ptr sc pr by (subst cidr_from_str.simps) (simp add: Let_def)
qed

lemma digits_zero: "digits ''0''"
  using digits_dec[of 0] by (simp only: dec_zero)

lemma single_zero:
  "parse_ptr pre ''0'' = None" "scan_prefix ''0'' 1 False = (None, False)"
  "detect_proto pre ''0'' = CIDR_IPV4" "list_all (\<lambda>c. c \<in> set allowed_chars) ''0''"
proof -
  show "parse_ptr pre ''0'' = None" by (rule parse_ptr_digit[of _ "[]" "''0''"]) (simp_all add: digits_zero)
  have "tolower (CHR 0x00) \<noteq> CHR ''x''" by code_simp
  then show "detect_proto pre ''0'' = CIDR_IPV4" by (simp add: detect_proto_def char_at_def number_form_def)
qed (simp_all add: allowed_chars_def)

lemma from_str_zero: "cidr_from_str pre ''0'' = Inr (v4_text_block 0 0 0 0 32)"
proof -
  have "section_number pre ''0'' 0 = (0, [])" using section_number_dec[of 0 "[]" pre "[]"] by (simp add: separated_def dec_zero)
  then have v: "v4_loop pre ''0'' (Suc 0) 0 0 (v4_mapped_head @ [0, 0, 0, 0]) = Inr (v4_mapped_head @ [0, 0, 0, 0])"
    by (subst v4_loop.simps) (simp add: save_octets_def v4_mapped_head_def numeral_eq_Suc)
  have z: "replicate 10 0 @ replicate 2 0xff @ drop 12 (c_addr cidr_alloc) = v4_mapped_head @ [0, 0, 0, 0 :: byte]"
    "replicate 12 0xff @ drop 12 (c_mask cidr_alloc) = replicate 12 0xff @ [0, 0, 0, 0 :: byte]"
    by (simp_all add: v4_mapped_head_def cidr_alloc_def numeral_eq_Suc)
  have "parse_v4 pre ''0'' None False ctmp = Inr (v4_text_block 0 0 0 0 32)" for ctmp
    unfolding parse_v4_def z Let_def prefix_length_def
    by (simp add: v skip_slash.simps v4_text_block_def v4_mask_def cidr_alloc_def)
  then show ?thesis using single_zero by (subst cidr_from_str.simps) simp
qed

lemma from_str_quad_zero:
  "cidr_from_str pre (quad_text a b c d @ ''/0'') = Inr (v4_text_block a b c d 0)"
proof -
  let ?q = "quad_text a b c d"
  let ?s = "?q @ ''/'' @ ''0''"
  have len: "\<not> (length ?s < 1 \<or> length ?s > 2 ^ 16)"
    using length_dec_byte[OF unat_byte[of a]] length_dec_byte[OF unat_byte[of b]]
      length_dec_byte[OF unat_byte[of c]] length_dec_byte[OF unat_byte[of d]] by (simp add: quad_text_def)
  have "CHR ''/'' \<in> set allowed_chars" "CHR ''0'' \<in> set allowed_chars" by code_simp+
  then have al: "list_all (\<lambda>c. c \<in> set allowed_chars) ?s" using allowed_quad[of "''/'' @ ''0''"] by simp
  have ptr: "parse_ptr pre ?s = None"
    by (rule parse_ptr_digit[of _ "?q @ ''/''" "''0''"]) (simp_all add: digits_zero)
  have sc: "scan_prefix ?s (length ?s) False = (Some (length ?q), False)"
    using scan_prefix_end[of ?s ?q "''0''" 1] by simp
  have hd1: "char_at pre ?s (int (length ?q) + 1) = CHR ''0''"
    using char_at_append[of pre "?q @ ''/''" "''0''" 0] by (simp add: char_at_def add.commute)
  have fm: "found_mask pre ?s (length ?q) False" using hd1 by (simp add: found_mask_def)
  have m: "cidr_get_pflen (Some ((v4_text_block 0 0 0 0 32)\<lparr>c_mask := replicate 12 0 @ drop 12 (c_addr (v4_text_block 0 0 0 0 32))\<rparr>)) = Inr 0"
    by code_simp
  have pl: "prefix_length pre ?s (Some (length ?q)) True 32 (\<lambda>c. replicate 12 0 @ drop 12 (c_addr c)) (cidr_from_str f ''0'')
      = Inr (0, int (length ?q) - 1)" for f
    unfolding prefix_length_def option.case hd1 from_str_zero sum.case m by simp
  have pr: "detect_proto pre ?s = CIDR_IPV4" by (rule detect_quad) simp
  show ?thesis
    using len al ptr sc fm pr parse_v4_quad[OF pl] by (subst cidr_from_str.simps) simp
qed

section \<open>Properties\<close>

lemma v4_mask_table:
  "list_all (\<lambda>p. cidr_get_pflen (Some (v4_text_block 0 0 0 0 (int p))) = Inr (int p)
     \<and> take 12 (v4_mask (int p)) = replicate 12 0xff \<and> length (v4_mask (int p)) = 16) [0..<33]"
  by code_simp

lemma v4_text_block_valid:
  assumes "p \<le> 32"
  shows "wf_cidr (v4_text_block a b c d (int p))" "cidr_get_pflen (Some (v4_text_block a b c d (int p))) = Inr (int p)"
proof -
  have t: "cidr_get_pflen (Some (v4_text_block 0 0 0 0 (int p))) = Inr (int p)"
    "take 12 (v4_mask (int p)) = replicate 12 0xff" "length (v4_mask (int p)) = 16"
    using v4_mask_table assms by (simp_all add: list_all_iff del: upt_rec_numeral)
  show "wf_cidr (v4_text_block a b c d (int p))"
    using t by (simp add: wf_cidr_def v4_text_block_def v4_mapped_head_def)
  show "cidr_get_pflen (Some (v4_text_block a b c d (int p))) = Inr (int p)"
    using t(1) by (simp add: cidr_get_pflen_def v4_text_block_def)
qed

lemma same_prefix_same_mask:
  assumes "wf_cidr x" "wf_cidr y" "c_proto x = c_proto y" "cidr_get_pflen (Some x) = Inr m" "cidr_get_pflen (Some y) = Inr m"
  shows "c_mask x = c_mask y"
proof -
  obtain p q where pq: "prefix_mask x p" "m = int (p - base_bit x)" "prefix_mask y q" "m = int (q - base_bit y)"
    using assms pflen_iff by blast
  have "p = q" using pq assms(3) by (auto simp: prefix_mask_def base_bit_def)
  then show ?thesis
    using pq(1,3) assms(1,2) by (intro bytes_eq_by_bits) (auto simp: prefix_mask_def wf_cidr_def)
qed

lemma quad_four: "length bs = 12 \<Longrightarrow> quad (bs @ [a, b, c, d]) = quad_text a b c d"
  by (simp add: quad_def quad_text_def)

lemma to_str_plain_v4:
  assumes "wf_cidr x" "c_proto x = CIDR_IPV4" "cidr_get_pflen (Some x) = Inr (int p)" "p \<le> 32"
    and "c_addr x = v4_mapped_head @ [a, b, c, d]"
  shows "cidr_to_str (Some x) 0 = Inr (quad_text a b c d @ ''/'' @ dec p)"
  using assms quad_four[of v4_mapped_head a b c d]
  by (subst cidr_to_str.simps)
     (simp add: to_str_v4_def has_flag_def v6_lead_def cidr_proto_defs dec_u_def v4_mapped_head_def)

lemma dec_no_zero: "CHR 0x00 \<notin> set (dec n)"
proof -
  have "\<not> isdigit (CHR 0x00)" by code_simp
  then show ?thesis using digitsD(4)[OF digits_dec] by metis
qed

lemma quad_text_no_zero: "CHR 0x00 \<notin> set (quad_text a b c d)"
proof -
  show ?thesis using quad_text_chars[of a b c d] dec_no_zero by auto
qed

lemma v4_print_parse:
  assumes "valid_block x" "c_proto x = CIDR_IPV4"
  shows "\<exists>t. cidr_to_str (Some x) 0 = Inr t \<and> c_str t = t \<and> cidr_from_str pre t = Inr (x\<lparr>c_version := 0\<rparr>)"
proof -
  obtain q where q: "wf_cidr x" "prefix_mask x q" "cidr_get_pflen (Some x) = Inr (int (q - base_bit x))"
    using assms(1) by (rule valid_blockE)
  define p where "p = q - base_bit x"
  have p: "p \<le> 32" "cidr_get_pflen (Some x) = Inr (int p)"
    using q assms(2) by (auto simp: p_def prefix_mask_def base_bit_def)
  obtain a b c d where ad: "c_addr x = v4_mapped_head @ [a, b, c, d]" using wf_v4_addr[OF q(1) assms(2)] by metis
  have "c_mask x = c_mask (v4_text_block a b c d (int p))"
    by (rule same_prefix_same_mask[OF q(1) v4_text_block_valid(1)[OF p(1)] _ p(2) v4_text_block_valid(2)[OF p(1)]])
       (simp add: assms(2) v4_text_block_def)
  then have x: "v4_text_block a b c d (int p) = x\<lparr>c_version := 0\<rparr>"
    using ad assms(2) by (cases x) (simp add: v4_text_block_def)
  have "cidr_from_str pre (quad_text a b c d @ ''/'' @ dec p) = Inr (v4_text_block a b c d (int p))"
  proof (cases "p = 0")
    case True
    then show ?thesis using from_str_quad_zero[of pre a b c d] by (simp add: dec_zero)
  next
    case False
    have "to_int32 (int p) = int p" using p(1) by (simp add: to_int32_def)
    then show ?thesis using from_str_quad[OF False, of pre a b c d] p(1) by simp
  qed
  moreover have "c_str (quad_text a b c d @ ''/'' @ dec p) = quad_text a b c d @ ''/'' @ dec p"
    by (rule c_str_plain) (simp add: quad_text_no_zero dec_no_zero)
  ultimately show ?thesis using to_str_plain_v4[OF q(1) assms(2) p(2,1) ad] x by (intro exI[of _ "quad_text a b c d @ ''/'' @ dec p"]) simp
qed

text \<open>C22: Printing a valid IPv4 block and parsing the text gives the block back, for every prefix
  length from 0 to 32 and whatever lies in memory in front of the text.\<close>

theorem cidr_text_roundtrip:
  assumes "valid_block x" "c_proto x = CIDR_IPV4"
  shows "\<exists>t. cidr_to_str (Some x) 0 = Inr t \<and> cidr_from_str pre t = Inr (x\<lparr>c_version := 0\<rparr>)"
  using v4_print_parse[OF assms, of pre] by blast

theorem cidr_text_roundtrip_witness:
  "\<exists>t. cidr_to_str (Some (v4_block 192 168 7 1 [0xff, 0xff, 0xff, 0])) 0 = Inr t
     \<and> cidr_from_str (\<lambda>_. CHR ''t'') t = Inr (v4_block 192 168 7 1 [0xff, 0xff, 0xff, 0])"
proof -
  have "(v4_block 192 168 7 1 [0xff, 0xff, 0xff, 0])\<lparr>c_version := 0\<rparr> = v4_block 192 168 7 1 [0xff, 0xff, 0xff, 0]"
    "c_proto (v4_block 192 168 7 1 [0xff, 0xff, 0xff, 0]) = CIDR_IPV4" by (simp_all add: v4_block_def)
  then show ?thesis using cidr_text_roundtrip[OF valid_block_examples(2), of "\<lambda>_. CHR ''t''"] by simp
qed

text \<open>A netmask written as one decimal number is never recognised: the test compares with the
  sign-extended bit \<open>1 << 31\<close>. The number is taken for a prefix length, wraps to a negative
  value, and the block gets the empty prefix, so every IPv4 address is inside it.\<close>

theorem decimal_netmask_matches_all:
  assumes "2 ^ 31 \<le> n" "n < 2 ^ 32"
  shows "cidr_from_str pre (quad_text a b c d @ ''/'' @ dec n) = Inr (v4_text_block a b c d (int n - 2 ^ 32))
    \<and> cidr_get_pflen (Some (v4_text_block a b c d (int n - 2 ^ 32))) = Inr 0"
proof -
  have w: "to_int32 (int n) = int n - 2 ^ 32"
  proof -
    have b: "2 ^ 31 \<le> int n" "int n < 2 ^ 32" using assms by simp_all
    have "(int n + 2 ^ 31 - 2 ^ 32 + 2 ^ 32) mod 2 ^ 32 = int n + 2 ^ 31 - 2 ^ 32"
      unfolding mod_add_self2 by (rule mod_pos_pos_trivial) (use b in simp_all)
    then show ?thesis by (simp add: to_int32_def add.commute)
  qed
  have le: "int n - 2 ^ 32 \<le> 0" using assms(2) by simp
  have "v4_text_block a b c d (int n - 2 ^ 32) = v4_text_block a b c d (int 0)"
    using le by (simp add: v4_text_block_def v4_mask_def)
  then show ?thesis
    using from_str_quad[of n pre a b c d] assms w le v4_text_block_valid(2)[of 0 a b c d] by simp
qed

theorem decimal_netmask_matches_all_witness:
  "cidr_from_str (\<lambda>_. CHR ''t'') (quad_text 10 0 0 0 @ ''/'' @ dec 4294967040) = Inr (v4_text_block 10 0 0 0 (- 256))"
  using decimal_netmask_matches_all[of 4294967040 "\<lambda>_. CHR ''t''" 10 0 0 0] by simp

subsection \<open>The parsed structure\<close>

lemma ptr4_loop_length: "ptr4_loop pre s buf i addr = Inr (b, j, addr') \<Longrightarrow> i \<le> 15 \<Longrightarrow> length addr' = length addr \<and> j \<le> 15"
proof (induction "15 - i" arbitrary: buf i addr)
  case 0
  then show ?case by (subst (asm) ptr4_loop.simps) auto
next
  case (Suc k)
  have IH: "length addr' = length a \<and> j \<le> 15" if "ptr4_loop pre s bb (Suc i) a = Inr (b, j, addr')" for bb a
    using Suc.hyps(1)[OF _ that] Suc.hyps(2) by simp
  show ?case using Suc.prems
    by (subst (asm) ptr4_loop.simps) (auto simp: Let_def split: if_splits dest!: IH)
qed

lemma ptr6_loop_length:
  "ptr6_loop pre s buf i addr msk = Inr (b, addr', msk') \<Longrightarrow> length addr' = length addr \<and> length msk' = length msk"
proof (induction "16 - i" arbitrary: buf i addr msk)
  case 0
  then show ?case by (subst (asm) ptr6_loop.simps) auto
next
  case (Suc k)
  have IH: "length addr' = length a \<and> length msk' = length m"
    if "ptr6_loop pre s bb (Suc i) a m = Inr (b, addr', msk')" for bb a m
    using Suc.hyps(1)[OF _ that] Suc.hyps(2) by simp
  show ?case using Suc.prems
    by (subst (asm) ptr6_loop.simps) (auto simp: Let_def split: if_splits dest!: IH)
qed

lemma save_octets_shape:
  assumes "save_octets nsect v n addr = (n', addr')" "n < 4" "length addr = 16"
  shows "length addr' = 16" "take 12 addr' = take 12 addr" "n < n'" "n' \<le> 4"
  using assms by (auto simp: save_octets_def Let_def split: if_splits)

lemma v4_loop_shape:
  "v4_loop pre s nsect i n addr = Inr addr' \<Longrightarrow> n < 4 \<Longrightarrow> length addr = 16 \<Longrightarrow> length addr' = 16 \<and> take 12 addr' = take 12 addr"
proof (induction "nat (i + 1)" arbitrary: i n addr rule: less_induct)
  case less
  show ?case
  proof (cases "i \<ge> 0")
    case False
    then show ?thesis using less.prems by (subst (asm) v4_loop.simps) simp
  next
    case True
    show ?thesis
    proof (cases "(isxdigit (char_at pre s i) \<or> tolower (char_at pre s i) = CHR ''x'') \<and> i > 0")
      case number: True
      then have "v4_loop pre s nsect (i - 1) n addr = Inr addr'"
        using less.prems(1) True by (subst (asm) v4_loop.simps) simp
      then show ?thesis using less.hyps[of "i - 1"] less.prems True by simp
    next
      case False
      define i' where "i' = (if i = 0 then - 1 else i)"
      obtain oct rest where oc: "section_number pre s (i' + 1) = (oct, rest)" by fastforce
      obtain m ad where sv: "save_octets nsect oct n addr = (m, ad)" by fastforce
      note sh = save_octets_shape[OF sv less.prems(2,3)]
      have r: "(if m = 4 then Inr ad else v4_loop pre s nsect (i' - 1) m ad) = Inr addr'"
        using less.prems(1) True False oc sv unfolding i'_def
        by (subst (asm) v4_loop.simps) (auto simp: Let_def split: if_splits)
      show ?thesis
      proof (cases "m = 4")
        case m: True
        then show ?thesis using r sh by simp
      next
        case m: False
        have "nat (i' - 1 + 1) < nat (i + 1)" using True by (simp add: i'_def)
        then show ?thesis using less.hyps[of "i' - 1" m ad] r sh m by simp
      qed
    qed
  qed
qed

lemma set_bits_keeps:
  "\<forall>q\<in>set qs. fst q \<ge> n \<Longrightarrow> length (set_bits qs m) = length m \<and> take n (set_bits qs m) = take n m"
  by (induction qs m rule: set_bits.induct) auto

lemma write_mask_keeps:
  "\<forall>x\<in>set xs. x \<ge> n \<Longrightarrow> length (write_mask b p xs m) = length m \<and> take n (write_mask b p xs m) = take n m"
proof (induction xs arbitrary: m)
  case (Cons x xs)
  have "length (wrmaskset b p x m) = length m \<and> take n (wrmaskset b p x m) = take n m"
    unfolding wrmaskset_def by (rule set_bits_keeps) (use Cons.prems in auto)
  then show ?case using Cons by (simp add: write_mask_def)
qed (simp add: write_mask_def)

lemma v6_loop_length:
  "v6_loop pre s i n addr = Inr r \<Longrightarrow> (case r of Complete a \<Rightarrow> length a | Stopped _ _ a \<Rightarrow> length a) = length addr"
proof (induction "nat (i + 1)" arbitrary: i n addr rule: less_induct)
  case less
  show ?case
  proof (cases "i \<ge> 0")
    case False
    then show ?thesis using less.prems by (subst (asm) v6_loop.simps) auto
  next
    case True
    obtain j m ad where d: "dotted_tail pre s i n addr = Inr (j, m, ad)"
      using less.prems True by (subst (asm) v6_loop.simps) (auto simp: result_bind_Inr_iff)
    have dl: "j \<le> i" "length ad = length addr" using dotted_tail_back[OF d] by auto
    have IH: "v6_loop pre s k n' a = Inr r \<Longrightarrow> k < i \<Longrightarrow>
        (case r of Complete a \<Rightarrow> length a | Stopped _ _ a \<Rightarrow> length a) = length a" for k n' a
      using less.hyps[of k n' a] True by simp
    show ?thesis
      using less.prems True d dl IH
      by (subst (asm) v6_loop.simps) (auto simp: Let_def split: if_splits prod.splits)
  qed
qed

lemma front_loop_length: "front_loop pre s j e i n addr = Inr a \<Longrightarrow> length a = length addr"
proof (induction "nat (j - i)" arbitrary: i n addr rule: less_induct)
  case less
  have IH: "front_loop pre s j e k m b = Inr a \<Longrightarrow> i < k \<Longrightarrow> i < j \<Longrightarrow> length a = length b" for k m b
    using less.hyps[of k m b] by simp
  have k: "i < skip_xdigits pre s j i + 1" using skip_xdigits_ge[of i pre s j] by simp
  show ?case using less.prems IH[OF _ k]
    by (subst (asm) front_loop.simps) (auto simp: Let_def split: if_splits prod.splits)
qed

lemma parse_v4_wf: "parse_v4 pre s pfx fm ctmp = Inr c \<Longrightarrow> wf_cidr c"
proof -
  assume p: "parse_v4 pre s pfx fm ctmp = Inr c"
  let ?a = "replicate 10 0 @ replicate 2 0xff @ drop 12 (c_addr cidr_alloc)"
  let ?m = "replicate 12 0xff @ drop 12 (c_mask cidr_alloc)"
  obtain pl i where P: "prefix_length pre s pfx fm 32 (\<lambda>c. replicate 12 0 @ drop 12 (c_addr c)) ctmp = Inr (pl, i)"
    using p by (auto simp: parse_v4_def Let_def split: if_splits sum.splits)
  define msk where "msk = (if pl > 0 then write_mask 24 pl [15, 14, 13, 12] ?m else ?m)"
  obtain nsect addr where v: "v4_loop pre s nsect (skip_slash pre s i) 0 ?a = Inr addr"
    and c: "c = cidr_alloc\<lparr>c_proto := CIDR_IPV4, c_addr := addr, c_mask := msk\<rparr>"
    using p P by (auto simp: parse_v4_def Let_def msk_def split: if_splits sum.splits)
  have "length addr = 16 \<and> take 12 addr = v4_mapped_head"
    using v4_loop_shape[OF v] by (simp add: cidr_alloc_def v4_mapped_head_def)
  moreover have "length msk = 16 \<and> take 12 msk = replicate 12 0xff"
    using write_mask_keeps[of "[15, 14, 13, 12]" 12 24 pl ?m] by (simp add: msk_def cidr_alloc_def)
  ultimately show "wf_cidr c" by (simp add: wf_cidr_def c)
qed

lemma parse_v6_wf: "parse_v6 pre s pfx fm ctmp = Inr c \<Longrightarrow> wf_cidr c"
proof -
  assume p: "parse_v6 pre s pfx fm ctmp = Inr c"
  let ?m = "c_mask cidr_alloc"
  obtain pl i where P: "prefix_length pre s pfx fm 128 c_addr ctmp = Inr (pl, i)"
    using p by (auto simp: parse_v6_def Let_def split: if_splits sum.splits)
  define msk where "msk = (if pl > 0 then write_mask 120 pl (rev [0..<16]) ?m else ?m)"
  obtain r where v: "v6_loop pre s (skip_slash pre s i) 0 (c_addr cidr_alloc) = Inr r"
    using p P by (auto simp: parse_v6_def Let_def split: if_splits sum.splits)
  obtain addr where c: "c = cidr_alloc\<lparr>c_proto := CIDR_IPV6, c_addr := addr, c_mask := msk\<rparr>" and "length addr = 16"
  proof (cases r)
    case (Complete a)
    then show thesis
      using that[of a] p P v v6_loop_length[OF v]
      by (simp add: parse_v6_def Let_def msk_def cidr_alloc_def split: if_splits)
  next
    case (Stopped k n b)
    then obtain a where "front_loop pre s k n 0 n b = Inr a"
      "c = cidr_alloc\<lparr>c_proto := CIDR_IPV6, c_addr := a, c_mask := msk\<rparr>"
      using p P v by (auto simp: parse_v6_def Let_def msk_def simp del: upt_rec_numeral split: if_splits sum.splits)
    then show thesis
      using that[of a] v6_loop_length[OF v] front_loop_length[of pre s k n 0 n b a] Stopped by (simp add: cidr_alloc_def)
  qed
  moreover have "length msk = 16"
    using write_mask_keeps[of "rev [0..<16]" 0 120 pl ?m] by (simp add: msk_def cidr_alloc_def del: upt_rec_numeral)
  ultimately show "wf_cidr c" by (simp add: wf_cidr_def c cidr_proto_defs)
qed

lemma parse_ptr_shape:
  assumes "parse_ptr pre s = Some (Inr c)"
  shows "length (c_addr c) = 16" "length (c_mask c) = 16" "c_proto c = CIDR_IPV4 \<or> c_proto c = CIDR_IPV6"
proof -
  consider b where "parse_ptr4 pre s b = Inr c" | b where "parse_ptr6 pre s b = Inr c"
    using assms by (auto simp: parse_ptr_def Let_def split: if_splits)
  then have "length (c_addr c) = 16 \<and> length (c_mask c) = 16 \<and> (c_proto c = CIDR_IPV4 \<or> c_proto c = CIDR_IPV6)"
  proof cases
    case 1
    then show ?thesis
      by (auto simp: parse_ptr4_def cidr_alloc_def split: sum.splits prod.splits if_splits dest!: ptr4_loop_length)
  next
    case 2
    then show ?thesis
      by (auto simp: parse_ptr6_def cidr_alloc_def split: sum.splits prod.splits if_splits dest!: ptr6_loop_length)
  qed
  then show "length (c_addr c) = 16" "length (c_mask c) = 16" "c_proto c = CIDR_IPV4 \<or> c_proto c = CIDR_IPV6" by auto
qed

text \<open>C35: Every block the parser returns has sixteen octets of address and of mask and one of the two
  protocols, and it is a well-formed block, with the mapped head under an all-ones mask when it is an IPv4 block, as the
  other operations of the library expect; only IPv4 blocks that were read from a reverse-lookup name are excepted.\<close>

theorem parsed_block_well_formed:
  assumes "cidr_from_str pre s = Inr c"
  shows "length (c_addr c) = 16 \<and> length (c_mask c) = 16 \<and> (c_proto c = CIDR_IPV4 \<or> c_proto c = CIDR_IPV6)
    \<and> (parse_ptr pre s = None \<or> c_proto c = CIDR_IPV6 \<longrightarrow> wf_cidr c)"
proof (cases "parse_ptr pre s")
  case None
  obtain pfx dots where sc: "scan_prefix s (length s) False = (pfx, dots)" by fastforce
  have "\<exists>fm ctmp. parse_v4 pre s pfx fm ctmp = Inr c \<or> parse_v6 pre s pfx fm ctmp = Inr c"
    using assms None sc by (subst (asm) cidr_from_str.simps) (auto simp: Let_def split: if_splits)
  then have "wf_cidr c" using parse_v4_wf parse_v6_wf by blast
  then show ?thesis by (auto simp: wf_cidr_def)
next
  case (Some r)
  then have "parse_ptr pre s = Some (Inr c)"
    using assms by (subst (asm) cidr_from_str.simps) (auto split: if_splits)
  from parse_ptr_shape[OF this] show ?thesis using Some by (simp add: wf_cidr_def cidr_proto_defs)
qed

theorem parsed_block_well_formed_witness:
  "\<exists>c. cidr_from_str (\<lambda>_. CHR ''t'') (quad_text 10 0 0 7 @ ''/0'') = Inr c \<and> length (c_addr c) = 16 \<and> wf_cidr c"
proof -
  have "parse_ptr (\<lambda>_. CHR ''t'') (quad_text 10 0 0 7 @ ''/0'') = None"
    by (rule parse_ptr_digit[of _ "quad_text 10 0 0 7 @ ''/''" "''0''"]) (simp_all add: digits_zero)
  then show ?thesis
    using parsed_block_well_formed[OF from_str_quad_zero[of "\<lambda>_. CHR ''t''" 10 0 0 7]] from_str_quad_zero[of "\<lambda>_. CHR ''t''" 10 0 0 7] by blast
qed

subsection \<open>Writing past the address\<close>

text \<open>Text of \<open>n\<close> groups in front of a double colon at the end.\<close>

definition long_text :: "nat \<Rightarrow> string" where
  "long_text n = concat (replicate n ''1:'') @ '':''"

lemma long_text_facts:
  "length (long_text n) = 2 * n + 1" "set (long_text n) \<subseteq> set ''1:''" "last (long_text n) = CHR '':''" "long_text n \<noteq> []"
proof -
  show "length (long_text n) = 2 * n + 1" by (induction n) (simp_all add: long_text_def)
qed (auto simp: long_text_def split: if_splits)

lemma long_text_drop: "k \<le> n \<Longrightarrow> drop (2 * k) (long_text n) = long_text (n - k)"
proof (induction k)
  case (Suc k)
  have "drop (2 * Suc k) (long_text n) = drop 2 (drop (2 * k) (long_text n))" by (simp add: add.commute)
  also have "\<dots> = drop 2 (long_text (n - k))" using Suc by simp
  also have "\<dots> = long_text (n - Suc k)" using Suc.prems
    by (cases "n - k") (simp_all add: long_text_def Suc_diff_Suc[symmetric])
  finally show ?case .
qed simp

lemma long_text_Suc: "long_text (Suc n) = ''1:'' @ long_text n"
  by (simp add: long_text_def)

lemma long_text_char:
  assumes "k < n"
  shows "char_at pre (long_text n) (2 * int k) = CHR ''1''" "char_at pre (long_text n) (2 * int k + 1) = CHR '':''"
    "cstr pre (long_text n) (2 * int k) = ''1:'' @ long_text (n - Suc k)"
proof -
  have d: "drop (2 * k) (long_text n) = ''1:'' @ long_text (n - Suc k)"
    using long_text_drop[of k n] long_text_Suc[of "n - Suc k"] assms by (simp add: Suc_diff_Suc)
  have "long_text n ! (2 * k) = drop (2 * k) (long_text n) ! 0" "long_text n ! (2 * k + 1) = drop (2 * k) (long_text n) ! 1"
    using long_text_facts(1)[of n] assms by simp_all
  then show "char_at pre (long_text n) (2 * int k) = CHR ''1''" "char_at pre (long_text n) (2 * int k + 1) = CHR '':''"
    using long_text_facts(1)[of n] assms unfolding d by (simp_all add: char_at_def nat_add_distrib nat_mult_distrib)
  show "cstr pre (long_text n) (2 * int k) = ''1:'' @ long_text (n - Suc k)"
    using d by (simp add: cstr_def nat_mult_distrib)
qed

lemma long_text_end: "char_at pre (long_text n) (2 * int n) = CHR '':''" "char_at pre (long_text n) (2 * int n + 1) = CHR 0x00"
proof -
  show "char_at pre (long_text n) (2 * int n) = CHR '':''"
    using char_at_last[of "long_text n" pre "[]"] long_text_facts[of n] by simp
  have "\<not> nat (2 * int n + 1) < length (long_text n)" using long_text_facts(1)[of n] by simp
  then show "char_at pre (long_text n) (2 * int n + 1) = CHR 0x00" by (simp add: char_at_def)
qed

lemma strtoul_one: "strtoul 16 (''1:'' @ w) = (1, '':'' @ w)"
proof -
  have "isspace (CHR ''1'') = False" "digit_of (CHR ''1'') = 1" by code_simp+
  then show ?thesis by (simp add: strtoul_def scan_number_def digit_table)
qed

lemma xdigit_one: "isxdigit (CHR ''1'')" "\<not> isxdigit (CHR '':'')"
  by code_simp+

lemma skip_xdigits_long:
  assumes "k < n"
  shows "skip_xdigits pre (long_text n) (2 * int n - 1) (2 * int k) = 2 * int k + 1"
  using long_text_char[OF assms] assms xdigit_one by (subst skip_xdigits.simps, subst skip_xdigits.simps) simp

lemma front_loop_long_step:
  assumes "Suc k < n" "k < 8"
  shows "\<exists>addr'. front_loop pre (long_text n) (2 * int n - 1) 2 (2 * int k) (2 + 2 * k) addr
    = front_loop pre (long_text n) (2 * int n - 1) 2 (2 * int (Suc k)) (2 + 2 * Suc k) addr'"
proof -
  have k: "k < n" and p: "2 * int k + 1 + 1 \<noteq> 2 * int n - 1" "2 * int k + 1 \<noteq> 2 * int n - 1" "2 + 2 * k + 2 \<noteq> 15"
    using assms(1) by presburger+
  show ?thesis
    using long_text_char[OF k, of pre] skip_xdigits_long[OF k, of pre] strtoul_one xdigit_one p assms
    by (subst front_loop.simps) (auto simp: Let_def algebra_simps)
qed

lemma front_loop_long:
  assumes "8 < n" "k \<le> 8"
  shows "front_loop pre (long_text n) (2 * int n - 1) 2 (2 * int k) (2 + 2 * k) addr = Inl Overrun"
  using assms(2)
proof (induction "8 - k" arbitrary: k addr)
  case 0
  then have "k = 8" by simp
  then show ?case
    using long_text_char[of 8 n pre] strtoul_one assms(1) by (subst front_loop.simps) simp
next
  case (Suc m)
  then obtain addr' where "front_loop pre (long_text n) (2 * int n - 1) 2 (2 * int k) (2 + 2 * k) addr
      = front_loop pre (long_text n) (2 * int n - 1) 2 (2 * int (Suc k)) (2 + 2 * Suc k) addr'"
    using front_loop_long_step[of k n pre addr] assms(1) by (metis Suc_lessI diff_is_0_eq linorder_not_le nat.distinct(1) order_less_trans)
  then show ?case using Suc.hyps(1)[of "Suc k" addr'] Suc.hyps(2) by simp
qed

lemma v6_loop_long:
  assumes "0 < n"
  shows "\<exists>addr'. v6_loop pre (long_text n) (2 * int n) 0 addr = Inr (Stopped (2 * int n - 1) 2 addr')"
proof -
  have z: "strtoul 16 (cstr pre (long_text n) (2 * int n + 1)) = (0, [])"
    using long_text_facts(1)[of n] by (simp add: cstr_def strtoul_def scan_number_def)
  have c: "char_at pre (long_text n) (2 * int n - 1) = CHR '':''"
    using long_text_char(2)[of "n - 1" n pre] assms by (simp add: of_nat_diff algebra_simps)
  have s1: "v6_loop pre (long_text n) (2 * int n - 1) 2 a = Inr (Stopped (2 * int n - 1) 2 a)" for a
    using c long_text_end[of pre n] assms by (subst v6_loop.simps) (simp add: dotted_tail_def)
  have "v6_loop pre (long_text n) (2 * int n) 0 addr = v6_loop pre (long_text n) (2 * int n - 1) 2 (addr[15 := 0, 14 := 0])"
    using long_text_end[of pre n] z assms by (subst v6_loop.simps) (simp add: dotted_tail_def numeral_2_eq_2)
  then show ?thesis using s1 by simp
qed

text \<open>The parser writes past the sixteen octets of the address for every text of more than eight
  groups that ends in a double colon (the forward pass has no working bound), up to the accepted
  length of the text.\<close>

theorem long_address_overrun:
  assumes "8 < n" "n < 2 ^ 15"
  shows "cidr_from_str pre (long_text n) = Inl Overrun"
proof -
  let ?s = "long_text n"
  have len: "\<not> (length ?s < 1 \<or> length ?s > 2 ^ 16)" using assms(2) long_text_facts(1)[of n] by simp
  have "set ''1:'' \<subseteq> set allowed_chars" by code_simp
  then have al: "list_all (\<lambda>c. c \<in> set allowed_chars) ?s" using long_text_facts(2)[of n] by (auto simp: list_all_iff)
  have "tolower (CHR '':'') \<notin> set ''at''" by code_simp
  then have ptr: "parse_ptr pre ?s = None" using parse_ptr_last[of ?s pre] long_text_facts(3,4)[of n] by simp
  obtain f where sc: "scan_prefix ?s (length ?s) False = (None, f)"
  proof -
    have "CHR ''/'' \<notin> set ?s" using long_text_facts(2)[of n] by auto
    from scan_prefix_none[OF this order_refl] show thesis using that by (metis prod.collapse)
  qed
  have "find_char (CHR '':'') ?s = Some 1"
    using long_text_Suc[of "n - 1"] assms(1) by simp
  then have pr: "detect_proto pre ?s = CIDR_IPV6" by (simp add: detect_proto_def)
  have sk: "skip_slash pre ?s (2 * int n) = 2 * int n"
    by (rule skip_slash_other) (simp add: long_text_end)
  obtain a where v: "v6_loop pre ?s (2 * int n) 0 (c_addr cidr_alloc) = Inr (Stopped (2 * int n - 1) 2 a)"
    using v6_loop_long[of n pre "c_addr cidr_alloc"] assms(1) by auto
  have c: "char_at pre ?s (2 * int n - 1) = CHR '':''"
    using long_text_char(2)[of "n - 1" n pre] assms(1) by (simp add: of_nat_diff algebra_simps)
  have f: "front_loop pre ?s (2 * int n - 1) 2 0 2 a = Inl Overrun"
    using front_loop_long[OF assms(1), of 0 pre a] by simp
  have "parse_v6 pre ?s None False ctmp = Inl Overrun" for ctmp
    using sk v c f long_text_end(1)[of pre n] long_text_facts(1)[of n] assms(1)
    by (simp add: parse_v6_def prefix_length_def Let_def)
  then show ?thesis
    using len al ptr sc pr by (subst cidr_from_str.simps) (simp add: cidr_proto_defs)
qed

theorem long_address_overrun_witness:
  "cidr_from_str (\<lambda>_. CHR 0x00) (long_text 100) = Inl Overrun"
  by (rule long_address_overrun) simp_all

end
