(* ===== verification/Socks.thy ===== *)
theory Socks
  imports DnsInspector CidrText
begin

text \<open>
  The SOCKS server connection (\<open>src/src/proxy/socks5/sockshostcx.hpp\<close>, \<open>sockshostcx.cpp\<close>): the
  protocol state machine, parsing of SOCKS 4 and 5 requests over TCP and UDP, name resolution,
  preparation of the target connections, the verdict and the replies.

  UDP requests are tied to a TCP association through a table shared by all connections, and a
  violation closes the association's connection; connections therefore live in a world and are
  referred to by number. An operation returns the world after it and a value or the way it was
  left: an exception, or a write past the end of an array. The octet buffer, address
  text and name resolution of the socle library are fields of the environment.
\<close>

section \<open>Model\<close>

datatype socks5_state = INIT | HELLO_SENT | WAIT_REQUEST | REQ_RECEIVED | WAIT_POLICY | POLICY_RECEIVED
  | REQRES_SENT | DNS_QUERY_SENT | DNS_RESP_RECV | DNS_RESP_FAILED | HANDOFF | ZOMBIE

fun state_no :: "socks5_state \<Rightarrow> nat" where
  "state_no INIT = 1" | "state_no HELLO_SENT = 2" | "state_no WAIT_REQUEST = 3" | "state_no REQ_RECEIVED = 4"
| "state_no WAIT_POLICY = 5" | "state_no POLICY_RECEIVED = 6" | "state_no REQRES_SENT = 7"
| "state_no DNS_QUERY_SENT = 8" | "state_no DNS_RESP_RECV = 9" | "state_no DNS_RESP_FAILED = 10"
| "state_no HANDOFF = 11" | "state_no ZOMBIE = 12"

datatype socks5_request_error = NONE | UNSUPPORTED_VERSION | UNSUPPORTED_ATYPE | UNSUPPORTED_METHOD
  | MALFORMED_DATA | UNAUTHORIZED

datatype socks5_policy = PENDING | ACCEPT | REJECT

definition CONNECT :: byte where "CONNECT = 1"
definition UDP_ASSOCIATE :: byte where "UDP_ASSOCIATE = 3"

definition ATYPE_IPV4 :: byte where "ATYPE_IPV4 = 1"
definition ATYPE_FQDN :: byte where "ATYPE_FQDN = 3"
definition ATYPE_IPV6 :: byte where "ATYPE_IPV6 = 4"

lemmas socks_code_defs = CONNECT_def UDP_ASSOCIATE_def ATYPE_IPV4_def ATYPE_FQDN_def ATYPE_IPV6_def

text \<open>\<open>AddressInfo\<close>; the IPv4 view of an IPv6 socket address reads its (zero) flow label.\<close>

record AddressInfo =
  ai_family :: int
  ai_v4 :: "32 word"
  ai_v6 :: bytes
  ai_port :: "16 word"
  ai_host :: string

definition as_v4_addr :: "AddressInfo \<Rightarrow> 32 word" where
  "as_v4_addr ai = (if ai_family ai = AF_INET6 then 0 else ai_v4 ai)"

datatype com_kind = TlsCom | TcpCom | UdpCom | SlaveCom

text \<open>A connection prepared for the proxy.\<close>

record shadow_cx =
  sh_com :: com_kind
  sh_dst_host :: string
  sh_dst_port :: "16 word"
  sh_src_host :: string
  sh_src_port :: int
  sh_readbuf :: bytes
  sh_wait :: bool

record udp_info =
  my_assoc :: string
  my_allowed_target :: string

record socks_cx =
  sx_host :: string
  sx_port :: string
  sx_l3 :: int
  sx_l4 :: int
  sx_socket :: int
  sx_state :: socks5_state
  sx_verdict :: socks5_policy
  sx_req_error :: socks5_request_error
  sx_version :: byte
  sx_req_cmd :: byte
  sx_req_atype :: byte
  sx_req_addr :: AddressInfo
  sx_req_str_addr :: string
  sx_req_port :: "16 word"
  sx_req_hdr_size :: nat
  sx_dst_host :: string
  sx_dst_port :: "16 word"
  sx_dst_resolved :: bool
  sx_nonlocal_src :: bool
  sx_is_ssl :: bool
  sx_tested_a :: bool
  sx_tested_aaaa :: bool
  sx_async_dns :: bool
  sx_left :: "shadow_cx option"
  sx_right :: "shadow_cx option"
  sx_udp :: "udp_info option"
  sx_readbuf :: bytes
  sx_writebuf :: bytes
  sx_error :: bool
  sx_read_wait :: bool
  sx_wait :: bool
  sx_eagain :: bool
  sx_dns_query :: "int option"
  sx_events :: "io_event list"

record ('c, 'd) socks_world =
  sw_cx :: "nat \<Rightarrow> socks_cx"
  sw_clients :: "string \<Rightarrow> nat option"
  sw_cache :: 'c
  sw_domains :: 'd

record ('c, 'd, 's) socks_env =
  se_dns :: "('c, 'd, 's) dns_env"
  mixed_ip_versions :: bool
  prefer_ipv6 :: bool
  db_nameservers :: "AddressInfo list"
  default_ns :: AddressInfo
  se_send_dns :: "string \<Rightarrow> DNS_Record_Type \<Rightarrow> AddressInfo \<Rightarrow> int"
  se_resolve_dns :: "string \<Rightarrow> DNS_Record_Type \<Rightarrow> AddressInfo \<Rightarrow> dns_response option"
  se_unpack :: "AddressInfo \<Rightarrow> string"
  se_socket_src :: "int \<Rightarrow> (string \<times> string) option"
  se_random :: "nat \<Rightarrow> nat"
  se_flush :: "bytes \<Rightarrow> nat \<Rightarrow> bytes"
  se_mem_before :: cmem

datatype socks_fault = Throws std_error | MemoryOverrun

type_synonym ('c, 'd, 'a) socks_result = "('c, 'd) socks_world \<times> (socks_fault + 'a)"

definition upd_s :: "nat \<Rightarrow> (socks_cx \<Rightarrow> socks_cx) \<Rightarrow> ('c, 'd) socks_world \<Rightarrow> ('c, 'd) socks_world" where
  "upd_s i f w = w\<lparr>sw_cx := (sw_cx w)(i := f (sw_cx w i))\<rparr>"

text \<open>Sequencing; a fault ends the operation.\<close>

definition andthen :: "('c, 'd, 'a) socks_result \<Rightarrow> ('a \<Rightarrow> ('c, 'd) socks_world \<Rightarrow> ('c, 'd, 'b) socks_result) \<Rightarrow> ('c, 'd, 'b) socks_result" where
  "andthen r f = (case r of (w, Inl e) \<Rightarrow> (w, Inl e) | (w, Inr x) \<Rightarrow> f x w)"

text \<open>A typed read of the read buffer throws \<open>out_of_range\<close> outside it.\<close>

definition get_at :: "'a option \<Rightarrow> ('c, 'd) socks_world \<Rightarrow> ('a \<Rightarrow> ('c, 'd, 'b) socks_result) \<Rightarrow> ('c, 'd, 'b) socks_result" where
  "get_at r w f = (case r of None \<Rightarrow> (w, Inl (Throws out_of_range)) | Some x \<Rightarrow> f x)"

definition rbuf :: "('c, 'd, 's) socks_env \<Rightarrow> nat \<Rightarrow> ('c, 'd) socks_world \<Rightarrow> sbuf" where
  "rbuf env i w = de_buf (se_dns env) (sx_readbuf (sw_cx w i))"

definition set_error :: "nat \<Rightarrow> ('c, 'd) socks_world \<Rightarrow> ('c, 'd) socks_world" where
  "set_error i w = upd_s i (\<lambda>c. c\<lparr>sx_error := True\<rparr>) w"

subsection \<open>UDP associations\<close>

text \<open>The first target authorised on a UDP connection is the only one.\<close>

definition make_authorized :: "string \<Rightarrow> 16 word \<Rightarrow> udp_info \<Rightarrow> bool \<times> udp_info" where
  "make_authorized server port u =
     (let key = c_str server @ '':'' @ dec (unat port) in
      if my_allowed_target u = [] then (True, u\<lparr>my_allowed_target := key\<rparr>)
      else (key = my_allowed_target u, u))"

definition get_udp :: "socks_cx \<Rightarrow> udp_info" where
  "get_udp c = (case sx_udp c of None \<Rightarrow> \<lparr>my_assoc = [], my_allowed_target = []\<rparr> | Some u \<Rightarrow> u)"

definition client_key :: "socks_cx \<Rightarrow> string" where
  "client_key c = c_str (sx_host c) @ '':'' @ c_str (sx_port c)"

definition authorize_if_udp :: "nat \<Rightarrow> string \<Rightarrow> 16 word \<Rightarrow> ('c, 'd) socks_world \<Rightarrow> bool \<times> ('c, 'd) socks_world" where
  "authorize_if_udp i server srv_port w =
     (if sx_l4 (sw_cx w i) = SOCK_DGRAM then
        (let (ok, u) = make_authorized server srv_port (get_udp (sw_cx w i));
             w = upd_s i (\<lambda>c. c\<lparr>sx_udp := Some u\<rparr>) w
         in if ok then (True, w)
            else (let w = set_error i w in
              (False, case sw_clients w (client_key (sw_cx w i)) of Some j \<Rightarrow> set_error j w | None \<Rightarrow> w)))
      else (True, w))"

text \<open>The destructor of a connection removes its association.\<close>

definition release_cx :: "nat \<Rightarrow> ('c, 'd) socks_world \<Rightarrow> ('c, 'd) socks_world" where
  "release_cx i w = (case sx_udp (sw_cx w i) of
     None \<Rightarrow> w | Some u \<Rightarrow> w\<lparr>sw_clients := (sw_clients w)(my_assoc u := None)\<rparr>)"

subsection \<open>Target preparation\<close>

definition tls_ports :: "16 word set" where
  "tls_ports = {443, 465, 636, 993, 995}"

definition wait_policy :: "nat \<Rightarrow> ('c, 'd) socks_world \<Rightarrow> ('c, 'd) socks_world" where
  "wait_policy i w = upd_s i (\<lambda>c. c\<lparr>sx_state := WAIT_POLICY, sx_read_wait := True\<rparr>) w"

definition down_cast_port :: "int \<Rightarrow> int" where
  "down_cast_port n = (if 0 \<le> n \<and> n < 65536 then n else 0)"

definition setup_target :: "('c, 'd, 's) socks_env \<Rightarrow> nat \<Rightarrow> ('c, 'd) socks_world \<Rightarrow> ('c, 'd, bool) socks_result" where
  "setup_target env i w =
     (let c = sw_cx w i;
          udp = (sx_l4 c = SOCK_DGRAM);
          tls = (sx_dst_port c \<in> tls_ports \<and> \<not> udp);
          c = (if tls then c\<lparr>sx_is_ssl := True\<rparr> else c);
          c = (if udp then c\<lparr>sx_readbuf := se_flush env (sx_readbuf c) (sx_req_hdr_size c)\<rparr> else c);
          left = \<lparr>sh_com = (if tls then TlsCom else if udp then UdpCom else TcpCom),
                  sh_dst_host = sx_dst_host c, sh_dst_port = sx_dst_port c, sh_src_host = [], sh_src_port = 0,
                  sh_readbuf = (if udp then sx_readbuf c else []), sh_wait = True\<rparr>;
          c = c\<lparr>sx_left := Some left\<rparr>;
          (h, p) = (case se_socket_src env (sx_socket c) of Some hp \<Rightarrow> hp | None \<Rightarrow> ([], []));
          w = upd_s i (\<lambda>_. c) w
      in case stoi p of
           Inl e \<Rightarrow> (w, Inl (Throws e))
         | Inr n \<Rightarrow>
             (let right = \<lparr>sh_com = SlaveCom, sh_dst_host = sx_dst_host c, sh_dst_port = sx_dst_port c,
                     sh_src_host = h, sh_src_port = down_cast_port n, sh_readbuf = [], sh_wait = True\<rparr>
              in (wait_policy i (upd_s i (\<lambda>c. c\<lparr>sx_right := Some right\<rparr>) w), Inr True)))"

subsection \<open>Name resolution\<close>

definition choose_dns_server :: "('c, 'd, 's) socks_env \<Rightarrow> int \<Rightarrow> AddressInfo" where
  "choose_dns_server env pref_family =
     (if db_nameservers env \<noteq> [] then
        (case (if pref_family \<noteq> 0 then find (\<lambda>can. ai_family can = pref_family) (db_nameservers env) else None) of
           Some can \<Rightarrow> can | None \<Rightarrow> hd (db_nameservers env))
      else default_ns env)"

definition choose_server_ip :: "('c, 'd, 's) socks_env \<Rightarrow> nat \<Rightarrow> string list \<Rightarrow> ('c, 'd) socks_world \<Rightarrow> bool \<times> ('c, 'd) socks_world" where
  "choose_server_ip env i target_ips w =
     (if target_ips = [] then (False, w)
      else (let index = (if length target_ips > 1 then se_random env i mod length target_ips else 0)
            in (True, upd_s i (\<lambda>c. c\<lparr>sx_dst_host := target_ips ! index, sx_dst_resolved := True\<rparr>) w)))"

definition answer_ips :: "('c, 'd, 's) socks_env \<Rightarrow> dns_packet \<Rightarrow> string list" where
  "answer_ips env p = filter (\<lambda>ip. ip \<noteq> []) (map (answer_ip (se_dns env) False) (dp_answers_list p))"

definition process_dns_response :: "('c, 'd, 's) socks_env \<Rightarrow> nat \<Rightarrow> dns_response option \<Rightarrow> ('c, 'd) socks_world \<Rightarrow> ('c, 'd, bool) socks_result" where
  "process_dns_response env i resp w =
     (let target_ips = (case resp of None \<Rightarrow> [] | Some r \<Rightarrow> answer_ips env (rs_packet r));
          w = (case resp of
                 Some r \<Rightarrow> if target_ips \<noteq> []
                   then (let (c, ds) = snd (dns_store (se_dns env) r (sw_cache w, sw_domains w))
                         in w\<lparr>sw_cache := c, sw_domains := ds\<rparr>) else w
               | None \<Rightarrow> w)
      in if target_ips \<noteq> [] then
           (case choose_server_ip env i target_ips w of (_, w) \<Rightarrow> setup_target env i w)
         else (w, Inr False))"

definition setup_dns_async :: "('c, 'd, 's) socks_env \<Rightarrow> nat \<Rightarrow> string \<Rightarrow> DNS_Record_Type \<Rightarrow> AddressInfo \<Rightarrow> ('c, 'd) socks_world \<Rightarrow> ('c, 'd) socks_world" where
  "setup_dns_async env i fqdn ty nameserver w =
     (let dns_sock = se_send_dns env fqdn ty nameserver in
      if dns_sock \<noteq> 0 then
        upd_s i (\<lambda>c. (if ty = AAAA then c\<lparr>sx_tested_aaaa := True\<rparr> else c\<lparr>sx_tested_a := True\<rparr>)
                       \<lparr>sx_dns_query := Some dns_sock, sx_state := DNS_QUERY_SENT\<rparr>) w
      else set_error i w)"

text \<open>The helper that collects cached addresses takes the list of targets by value.\<close>

definition fill_w_dns_cache :: "('c, 'd, 's) socks_env \<Rightarrow> dns_response \<Rightarrow> string list \<Rightarrow> string list" where
  "fill_w_dns_cache env resp where_ips = (case dp_answers_list (rs_packet resp) of
     [] \<Rightarrow> where_ips
   | a # as \<Rightarrow>
       if dp_loaded_at (rs_packet resp) + uint (da_ttl a) - de_now (se_dns env) > 0
       then where_ips @ answer_ips env (rs_packet resp) else where_ips)"

definition known_targets :: "('c, 'd, 's) socks_env \<Rightarrow> int \<Rightarrow> string \<Rightarrow> 'c \<Rightarrow> text_error + string list" where
  "known_targets env ipver req_str_addr cache = (case cidr_from_str (se_mem_before env) (c_str req_str_addr) of
     Inl Overrun \<Rightarrow> Inl Overrun
   | Inr _ \<Rightarrow> Inr [req_str_addr]
   | Inl (Fails _) \<Rightarrow>
       (let target_ips = [];
            dns_resp = pc_get (de_dns (se_dns env)) cache ((if ipver = AF_INET6 then ''AAAA:'' else ''A:'') @ req_str_addr);
            copy = (case dns_resp of Some r \<Rightarrow> fill_w_dns_cache env r target_ips | None \<Rightarrow> target_ips)
        in Inr target_ips))"

definition handle5_connect_fqdn :: "('c, 'd, 's) socks_env \<Rightarrow> nat \<Rightarrow> ('c, 'd) socks_world \<Rightarrow> ('c, 'd, socks5_request_error) socks_result" where
  "handle5_connect_fqdn env i w =
     (let c = sw_cx w i; fqdn = sx_req_str_addr c in
      if fqdn = [] then (w, Inr MALFORMED_DATA)
      else
        (let w = upd_s i (\<lambda>c. c\<lparr>sx_dst_port := sx_req_port c, sx_nonlocal_src := True\<rparr>) w;
             ipver = sx_l3 c
         in case known_targets env ipver fqdn (sw_cache w) of
              Inl _ \<Rightarrow> (w, Inl MemoryOverrun)
            | Inr [] \<Rightarrow>
                (let nameserver = choose_dns_server env ipver in
                 if \<not> sx_async_dns c then
                   andthen (process_dns_response env i (se_resolve_dns env fqdn A nameserver) w) (\<lambda>_ w.
                   andthen (setup_target env i w) (\<lambda>_ w. (w, Inr NONE)))
                 else (setup_dns_async env i fqdn (if ipver = AF_INET6 \<or> prefer_ipv6 env then AAAA else A) nameserver w, Inr NONE))
            | Inr target_ips \<Rightarrow>
                (case choose_server_ip env i target_ips w of
                   (True, w) \<Rightarrow> andthen (setup_target env i w) (\<lambda>_ w. (w, Inr NONE))
                 | (False, w) \<Rightarrow> (set_error i w, Inr NONE))))"

subsection \<open>Requests\<close>

text \<open>The port field: two octets in network order.\<close>

definition read_fqdn :: "('c, 'd, 's) socks_env \<Rightarrow> nat \<Rightarrow> ('c, 'd) socks_world \<Rightarrow> ('c, 'd, socks5_request_error) socks_result" where
  "read_fqdn env i w =
     (let w = upd_s i (\<lambda>c. c\<lparr>sx_req_atype := ATYPE_FQDN, sx_state := REQ_RECEIVED\<rparr>) w; b = rbuf env i w in
      get_at (sb_get8 b 4) w (\<lambda>fqdn_sz.
        if unat fqdn_sz + 4 + 2 \<ge> sb_size b then (w, Inr MALFORMED_DATA)
        else
          (let fqdn = chars (mem_range (sb_mem b) 5 (unat fqdn_sz));
               w = upd_s i (\<lambda>c. c\<lparr>sx_req_str_addr := fqdn\<rparr>) w
           in get_at (sb_get16 b (5 + unat fqdn_sz)) w (\<lambda>p.
                let w = upd_s i (\<lambda>c. c\<lparr>sx_req_port := ntohs p, sx_req_hdr_size := 5 + unat fqdn_sz + 2\<rparr>) w;
                    (ok, w) = authorize_if_udp i fqdn (ntohs p) w
                in (w, Inr (if ok then NONE else UNAUTHORIZED))))))"

definition finish_address :: "('c, 'd, 's) socks_env \<Rightarrow> nat \<Rightarrow> AddressInfo \<Rightarrow> 16 word \<Rightarrow> nat \<Rightarrow> ('c, 'd) socks_world \<Rightarrow> ('c, 'd, socks5_request_error) socks_result" where
  "finish_address env i ai port hdr w =
     (let ai = ai\<lparr>ai_host := se_unpack env ai\<rparr>;
          w = upd_s i (\<lambda>c. c\<lparr>sx_req_port := port, sx_req_hdr_size := hdr, sx_req_addr := ai,
                sx_dst_host := ai_host ai, sx_dst_port := port, sx_nonlocal_src := True\<rparr>) w;
          (ok, w) = authorize_if_udp i (ai_host ai) port w
      in (w, Inr (if ok then NONE else UNAUTHORIZED)))"

text \<open>Addresses of both families are noted with the type of IPv4 addresses.\<close>

definition read_address :: "('c, 'd, 's) socks_env \<Rightarrow> nat \<Rightarrow> byte \<Rightarrow> ('c, 'd) socks_world \<Rightarrow> ('c, 'd, socks5_request_error) socks_result" where
  "read_address env i atype w =
     (let w = upd_s i (\<lambda>c. c\<lparr>sx_req_atype := ATYPE_IPV4, sx_state := REQ_RECEIVED\<rparr>) w; b = rbuf env i w in
      if atype = ATYPE_IPV4 then
        get_at (sb_get32 b 4) w (\<lambda>dst. get_at (sb_get16 b 8) w (\<lambda>p.
          finish_address env i \<lparr>ai_family = AF_INET, ai_v4 = dst, ai_v6 = [], ai_port = ntohs p, ai_host = []\<rparr> (ntohs p) 10 w))
      else
        get_at (sb_view b 4 16) w (\<lambda>arr6. get_at (sb_get16 b 20) w (\<lambda>p.
          finish_address env i \<lparr>ai_family = AF_INET6, ai_v4 = 0, ai_v6 = arr6, ai_port = ntohs p, ai_host = []\<rparr> (ntohs p) 22 w)))"

definition socks5_parse_request :: "('c, 'd, 's) socks_env \<Rightarrow> nat \<Rightarrow> ('c, 'd) socks_world \<Rightarrow> ('c, 'd, socks5_request_error) socks_result" where
  "socks5_parse_request env i w =
     get_at (sb_get8 (rbuf env i w) 3) w (\<lambda>atype.
       if atype \<noteq> ATYPE_IPV4 \<and> atype \<noteq> ATYPE_IPV6 \<and> atype \<noteq> ATYPE_FQDN then (w, Inr UNSUPPORTED_ATYPE)
       else if atype = ATYPE_FQDN then read_fqdn env i w
       else read_address env i atype w)"

definition handle5_connect :: "('c, 'd, 's) socks_env \<Rightarrow> nat \<Rightarrow> ('c, 'd) socks_world \<Rightarrow> ('c, 'd, socks5_request_error) socks_result" where
  "handle5_connect env i w =
     andthen (socks5_parse_request env i w) (\<lambda>parse_status w.
       if sx_l4 (sw_cx w i) = SOCK_DGRAM \<and> sw_clients w (client_key (sw_cx w i)) = None then (w, Inr UNAUTHORIZED)
       else if parse_status \<noteq> NONE then (w, Inr parse_status)
       else if sx_req_atype (sw_cx w i) = ATYPE_FQDN then handle5_connect_fqdn env i w
       else if sx_req_atype (sw_cx w i) = ATYPE_IPV4 then
         andthen (setup_target env i w) (\<lambda>ok w. (w, Inr (if ok then NONE else MALFORMED_DATA)))
       else (w, Inr UNSUPPORTED_ATYPE))"

definition handle4_connect :: "('c, 'd, 's) socks_env \<Rightarrow> nat \<Rightarrow> ('c, 'd) socks_world \<Rightarrow> ('c, 'd, socks5_request_error) socks_result" where
  "handle4_connect env i w =
     (let b = rbuf env i w in
      if sb_size b < 8 then (w, Inr MALFORMED_DATA)
      else
        (let w = upd_s i (\<lambda>c. c\<lparr>sx_req_atype := ATYPE_IPV4, sx_state := REQ_RECEIVED\<rparr>) w in
         get_at (sb_get16 b 2) w (\<lambda>p.
           let w = upd_s i (\<lambda>c. c\<lparr>sx_req_port := ntohs p\<rparr>) w in
           get_at (sb_get32 b 4) w (\<lambda>dst.
             let ai = \<lparr>ai_family = AF_INET, ai_v4 = dst, ai_v6 = [], ai_port = ntohs p, ai_host = []\<rparr>;
                 ai = ai\<lparr>ai_host := se_unpack env ai\<rparr>;
                 w = upd_s i (\<lambda>c. c\<lparr>sx_req_addr := ai, sx_dst_host := ai_host ai, sx_dst_port := ntohs p, sx_nonlocal_src := True\<rparr>) w
             in andthen (setup_target env i w) (\<lambda>_ w. (w, Inr NONE))))))"

text \<open>\<open>size_t\<close> results; \<open>-1\<close> is the largest value.\<close>

definition request_body :: "('c, 'd, 's) socks_env \<Rightarrow> nat \<Rightarrow> ('c, 'd) socks_world \<Rightarrow> ('c, 'd, socks5_request_error option) socks_result" where
  "request_body env i w =
     (let b = rbuf env i w in
      get_at (sb_get8 b 0) w (\<lambda>v. let w = upd_s i (\<lambda>c. c\<lparr>sx_version := v\<rparr>) w in
        get_at (sb_get8 b 1) w (\<lambda>cmd. let w = upd_s i (\<lambda>c. c\<lparr>sx_req_cmd := cmd\<rparr>) w in
          if v = 5 then
            if sb_size b < 10 then (w, Inr None)
            else if cmd = CONNECT then andthen (handle5_connect env i w) (\<lambda>e w. (w, Inr (Some e)))
            else if cmd = UDP_ASSOCIATE then
              andthen (socks5_parse_request env i w) (\<lambda>e w. (wait_policy i w, Inr (Some e)))
            else (w, Inr (Some UNSUPPORTED_METHOD))
          else if v = 4 then andthen (handle4_connect env i w) (\<lambda>e w. (w, Inr (Some e)))
          else (w, Inr (Some UNSUPPORTED_VERSION)))))"

definition finish_request :: "nat \<Rightarrow> socks5_request_error \<Rightarrow> ('c, 'd) socks_world \<Rightarrow> ('c, 'd, int) socks_result" where
  "finish_request i err w =
     (let w = upd_s i (\<lambda>c. c\<lparr>sx_req_error := err\<rparr>) w;
          w = (if err \<noteq> NONE then set_error i w else w)
      in (w, Inr (int (length (sx_readbuf (sw_cx w i))))))"

definition process_socks_request :: "('c, 'd, 's) socks_env \<Rightarrow> nat \<Rightarrow> ('c, 'd) socks_world \<Rightarrow> ('c, 'd, int) socks_result" where
  "process_socks_request env i w =
     (let w = upd_s i (\<lambda>c. c\<lparr>sx_req_error := NONE\<rparr>) w in
      if sx_state (sw_cx w i) = DNS_QUERY_SENT then (w, Inr 0)
      else case request_body env i w of
             (w, Inl (Throws out_of_range)) \<Rightarrow> finish_request i MALFORMED_DATA w
           | (w, Inl e) \<Rightarrow> (w, Inl e)
           | (w, Inr None) \<Rightarrow> (w, Inr (2 ^ 64 - 1))
           | (w, Inr (Some e)) \<Rightarrow> finish_request i e w)"

definition process_socks_hello_tcp :: "('c, 'd, 's) socks_env \<Rightarrow> nat \<Rightarrow> ('c, 'd) socks_world \<Rightarrow> ('c, 'd, int) socks_result" where
  "process_socks_hello_tcp env i w =
     (let b = rbuf env i w in
      if sb_size b < 3 then (w, Inr 0)
      else get_at (sb_get8 b 0) w (\<lambda>v. let w = upd_s i (\<lambda>c. c\<lparr>sx_version := v\<rparr>) w in
        get_at (sb_get8 b 1) w (\<lambda>nmethods.
          if sb_size b < 2 + unat nmethods then (w, Inr 0)
          else if v = 5 then
            (upd_s i (\<lambda>c. c\<lparr>sx_writebuf := sx_writebuf c @ [5, 0], sx_state := WAIT_REQUEST\<rparr>) w, Inr (int (sb_size b)))
          else if v = 4 then process_socks_request env i w
          else (set_error i w, Inr 0))))"

text \<open>Errors of the request, and any exception \<open>out_of_range\<close>, leave the data for the next read.\<close>

definition process_socks_udp_request :: "('c, 'd, 's) socks_env \<Rightarrow> nat \<Rightarrow> ('c, 'd) socks_world \<Rightarrow> ('c, 'd, int) socks_result" where
  "process_socks_udp_request env i w =
     (let b = rbuf env i w in
      if sb_size b < 4 then (w, Inr 0)
      else get_at (sb_get8 b 0) w (\<lambda>_. get_at (sb_get8 b 2) w (\<lambda>_. get_at (sb_get8 b 3) w (\<lambda>atype.
        let w = upd_s i (\<lambda>c. c\<lparr>sx_req_cmd := CONNECT, sx_req_atype := atype\<rparr>) w in
        case handle5_connect env i w of
          (w, Inl (Throws out_of_range)) \<Rightarrow> (w, Inr 0)
        | (w, Inl e) \<Rightarrow> (w, Inl e)
        | (w, Inr err) \<Rightarrow>
            if err \<noteq> NONE then (w, Inr 0)
            else (let w = upd_s i (\<lambda>c. c\<lparr>sx_eagain := True\<rparr>) w in (w, Inr (int (length (sx_readbuf (sw_cx w i))))))))))"

definition process_socks_hello :: "('c, 'd, 's) socks_env \<Rightarrow> nat \<Rightarrow> ('c, 'd) socks_world \<Rightarrow> ('c, 'd, int) socks_result" where
  "process_socks_hello env i w =
     (if sx_l4 (sw_cx w i) \<noteq> SOCK_DGRAM then process_socks_hello_tcp env i w else process_socks_udp_request env i w)"

definition process_in :: "('c, 'd, 's) socks_env \<Rightarrow> nat \<Rightarrow> ('c, 'd) socks_world \<Rightarrow> ('c, 'd, int) socks_result" where
  "process_in env i w = (case sx_state (sw_cx w i) of
     INIT \<Rightarrow> process_socks_hello env i w
   | WAIT_REQUEST \<Rightarrow> process_socks_request env i w
   | _ \<Rightarrow> (w, Inr 0))"

subsection \<open>Verdict and replies\<close>

definition new_message :: "socks_cx \<Rightarrow> bool" where
  "new_message c = (if sx_state c = WAIT_POLICY \<and> sx_verdict c = PENDING then True else sx_state c = HANDOFF)"

text \<open>A port in network order, as it lies in memory.\<close>

definition port_octets :: "16 word \<Rightarrow> bytes" where
  "port_octets p = [hi8 p, lo8 p]"

definition addr_octets :: "32 word \<Rightarrow> bytes" where
  "addr_octets a = [octet 0 a, octet 1 a, octet 2 a, octet 3 a]"

text \<open>The reply is built in an array of 128 octets, whose size is not checked.\<close>

definition reply_v5 :: "socks_cx \<Rightarrow> bytes" where
  "reply_v5 c = [5, if sx_verdict c = ACCEPT then 0 else 2, 0]
     @ (if sx_req_cmd c = CONNECT then
          [sx_req_atype c]
          @ (if sx_req_atype c = ATYPE_IPV4 then addr_octets (as_v4_addr (sx_req_addr c)) @ port_octets (sx_req_port c)
             else if sx_req_atype c = ATYPE_FQDN
             then of_nat (length (sx_req_str_addr c)) # map ord (sx_req_str_addr c) @ port_octets (sx_req_port c)
             else [])
        else if sx_req_cmd c = UDP_ASSOCIATE then [1] @ [0, 0, 0, 0] @ port_octets 1080
        else [])"

definition process_socks_reply_v5 :: "nat \<Rightarrow> ('c, 'd) socks_world \<Rightarrow> ('c, 'd, nat) socks_result" where
  "process_socks_reply_v5 i w =
     (let r = reply_v5 (sw_cx w i) in
      if length r > 128 then (w, Inl MemoryOverrun)
      else (upd_s i (\<lambda>c. c\<lparr>sx_writebuf := sx_writebuf c @ r, sx_state := REQRES_SENT,
              sx_events := sx_events c @ [SetWriteMonitor (sx_socket c)]\<rparr>) w, Inr (length r)))"

definition process_socks_reply_v4 :: "nat \<Rightarrow> ('c, 'd) socks_world \<Rightarrow> ('c, 'd, nat) socks_result" where
  "process_socks_reply_v4 i w =
     (let c = sw_cx w i;
          r = [0, if sx_verdict c = ACCEPT then 90 else 91] @ port_octets (sx_req_port c) @ addr_octets (as_v4_addr (sx_req_addr c))
      in (upd_s i (\<lambda>c. c\<lparr>sx_writebuf := sx_writebuf c @ r, sx_state := REQRES_SENT\<rparr>) w, Inr 8))"

definition process_socks_reply :: "nat \<Rightarrow> ('c, 'd) socks_world \<Rightarrow> ('c, 'd, nat) socks_result" where
  "process_socks_reply i w =
     (if sx_version (sw_cx w i) = 4 then process_socks_reply_v4 i w
      else if sx_version (sw_cx w i) = 5 then process_socks_reply_v5 i w
      else (w, Inr 0))"

text \<open>\<open>emplace\<close> keeps an association that is already there.\<close>

definition set_verdict :: "nat \<Rightarrow> socks5_policy \<Rightarrow> ('c, 'd) socks_world \<Rightarrow> ('c, 'd, nat) socks_result" where
  "set_verdict i p w =
     (let w = upd_s i (\<lambda>c. c\<lparr>sx_verdict := p, sx_state := POLICY_RECEIVED\<rparr>) w in
      if p = ACCEPT \<or> p = REJECT then
        (let c = sw_cx w i; key = c_str (sx_host c) @ '':'' @ dec (unat (sx_req_port c));
             w = (if p = ACCEPT \<and> sx_req_cmd c = UDP_ASSOCIATE
                  then upd_s i (\<lambda>c. c\<lparr>sx_udp := Some ((get_udp c)\<lparr>my_assoc := key\<rparr>)\<rparr>)
                         (w\<lparr>sw_clients := (if sw_clients w key = None then (sw_clients w)(key \<mapsto> i) else sw_clients w)\<rparr>)
                  else w)
         in process_socks_reply i w)
      else (w, Inr 0))"

subsection \<open>Writing\<close>

definition pre_write :: "('c, 'd, 's) socks_env \<Rightarrow> nat \<Rightarrow> ('c, 'd) socks_world \<Rightarrow> ('c, 'd) socks_world" where
  "pre_write env i w =
     (let c = sw_cx w i in
      if sx_state c = REQRES_SENT then
        if sx_writebuf c = [] then upd_s i (\<lambda>c. c\<lparr>sx_wait := True, sx_state := HANDOFF\<rparr>) w else w
      else if sx_state c = DNS_RESP_FAILED then
        if mixed_ip_versions env then
          if \<not> sx_tested_aaaa c then
            setup_dns_async env i (sx_req_str_addr c) AAAA (choose_dns_server env AF_INET6) (upd_s i (\<lambda>c. c\<lparr>sx_tested_aaaa := True\<rparr>) w)
          else if \<not> sx_tested_a c then
            setup_dns_async env i (sx_req_str_addr c) A (choose_dns_server env AF_INET) (upd_s i (\<lambda>c. c\<lparr>sx_tested_a := True\<rparr>) w)
          else w
        else set_error i w
      else w)"

definition dns_response_callback :: "('c, 'd, 's) socks_env \<Rightarrow> nat \<Rightarrow> dns_response option \<times> int \<Rightarrow> ('c, 'd) socks_world \<Rightarrow> ('c, 'd, unit) socks_result" where
  "dns_response_callback env i rresp w =
     (let (resp, red) = rresp;
          w = upd_s i (\<lambda>c. c\<lparr>sx_state := DNS_RESP_RECV\<rparr>) w;
          finish = (\<lambda>w. (upd_s i (\<lambda>c. c\<lparr>sx_events := sx_events c @ [SetMonitor (sx_socket c), SetWriteMonitor (sx_socket c)]\<rparr>) w, Inr ()))
      in if red \<le> 0 then finish (set_error i w)
         else andthen (process_dns_response env i resp w) (\<lambda>ok w.
           if ok then finish w else finish (upd_s i (\<lambda>c. c\<lparr>sx_state := DNS_RESP_FAILED\<rparr>) w)))"

text \<open>The header in front of UDP payload sent back to the client.\<close>

definition response_header :: "socks_cx \<Rightarrow> bytes" where
  "response_header c = [0, 0, 0, sx_req_atype c]
     @ (if sx_req_atype c = ATYPE_IPV4 then addr_octets (as_v4_addr (sx_req_addr c)) @ port_octets (sx_req_port c)
        else if sx_req_atype c = ATYPE_IPV6 then ai_v6 (sx_req_addr c) @ port_octets (sx_req_port c)
        else if sx_req_atype c = ATYPE_FQDN
        then (if length (sx_req_str_addr c) < 256 then of_nat (length (sx_req_str_addr c)) else 255)
             # map ord (sx_req_str_addr c) @ port_octets (sx_req_port c)
        else [])"

definition process_out :: "nat \<Rightarrow> ('c, 'd) socks_world \<Rightarrow> ('c, 'd) socks_world \<times> nat" where
  "process_out i w =
     (let c = sw_cx w i in
      if sx_l4 c \<noteq> SOCK_DGRAM then (w, length (sx_writebuf c))
      else if state_no (sx_state c) > state_no REQ_RECEIVED then
        (let out = response_header c @ sx_writebuf c
         in (upd_s i (\<lambda>c. c\<lparr>sx_state := INIT, sx_writebuf := out\<rparr>) w, length out))
      else (w, length (sx_writebuf c)))"

section \<open>What the request handlers leave alone\<close>

lemma upd_s_cx [simp]: "sw_cx (upd_s i f w) i = f (sw_cx w i)"
  by (simp add: upd_s_def)

lemma upd_s_rest [simp]:
  "sw_clients (upd_s i f w) = sw_clients w" "sw_cache (upd_s i f w) = sw_cache w" "sw_domains (upd_s i f w) = sw_domains w"
  "j \<noteq> i \<Longrightarrow> sw_cx (upd_s i f w) j = sw_cx w j"
  by (simp_all add: upd_s_def)

lemma release_cx_cx [simp]: "sw_cx (release_cx i w) = sw_cx w"
  by (simp add: release_cx_def split: option.splits)

lemma set_error_cx: "sw_cx (set_error j w) i = (if i = j then (sw_cx w i)\<lparr>sx_error := True\<rparr> else sw_cx w i)"
  by (simp add: set_error_def upd_s_def)

text \<open>Until the policy has answered, a handler may move the connection on to a received request, a
  pending query or a prepared target, but it neither touches the verdict nor writes.\<close>

definition prepared :: "socks_cx \<Rightarrow> bool" where
  "prepared c \<longleftrightarrow> sx_left c \<noteq> None \<and> sx_right c \<noteq> None"

definition asked :: "socks_cx \<Rightarrow> socks_cx \<Rightarrow> bool" where
  "asked c c' \<longleftrightarrow> (sx_tested_a c \<longrightarrow> sx_tested_a c') \<and> (sx_tested_aaaa c \<longrightarrow> sx_tested_aaaa c')
     \<and> (sx_state c' = DNS_QUERY_SENT \<longrightarrow> sx_state c = DNS_QUERY_SENT \<or> sx_tested_a c' \<or> sx_tested_aaaa c')"

definition moved :: "socks_cx \<Rightarrow> socks_cx \<Rightarrow> bool" where
  "moved c c' \<longleftrightarrow> (prepared c \<longrightarrow> prepared c')
     \<and> (sx_state c' = sx_state c \<or> sx_state c' \<in> {REQ_RECEIVED, DNS_QUERY_SENT} \<or> sx_state c' = WAIT_POLICY \<and> prepared c')"

definition same :: "socks_cx \<Rightarrow> socks_cx \<Rightarrow> bool" where
  "same c c' \<longleftrightarrow> sx_verdict c' = sx_verdict c \<and> sx_writebuf c' = sx_writebuf c \<and> sx_l4 c' = sx_l4 c
     \<and> sx_req_cmd c' = sx_req_cmd c \<and> sx_version c' = sx_version c"

definition quiet :: "socks_cx \<Rightarrow> socks_cx \<Rightarrow> bool" where
  "quiet c c' \<longleftrightarrow> same c c' \<and> moved c c' \<and> asked c c'"

lemmas quiet_defs = quiet_def same_def moved_def asked_def prepared_def

lemma quiet_refl [simp]: "quiet c c"
  by (simp add: quiet_defs)

lemma asked_trans: "asked a b \<Longrightarrow> asked b c \<Longrightarrow> asked a c"
  unfolding asked_def by meson

lemma moved_trans: "moved a b \<Longrightarrow> moved b c \<Longrightarrow> moved a c"
  by (auto simp: moved_def)

lemma same_trans: "same a b \<Longrightarrow> same b c \<Longrightarrow> same a c"
  by (simp add: same_def)

lemma quiet_trans: "quiet a b \<Longrightarrow> quiet b c \<Longrightarrow> quiet a c"
  by (meson quiet_def asked_trans moved_trans same_trans)

definition quiet_op :: "nat \<Rightarrow> ('c, 'd) socks_world \<Rightarrow> ('c, 'd, 'a) socks_result \<Rightarrow> bool" where
  "quiet_op i w r \<longleftrightarrow> quiet (sw_cx w i) (sw_cx (fst r) i)"

lemma quiet_opI: "quiet (sw_cx w i) (sw_cx w' i) \<Longrightarrow> quiet_op i w (w', r)"
  by (simp add: quiet_op_def)

lemma quiet_op_upd: "quiet (sw_cx w i) (f (sw_cx w i)) \<Longrightarrow> quiet_op i (upd_s i f w) r \<Longrightarrow> quiet_op i w r"
  unfolding quiet_op_def by (metis quiet_trans upd_s_cx)

lemma quiet_op_andthen:
  assumes "quiet_op i w r" "\<And>x w'. r = (w', Inr x) \<Longrightarrow> quiet_op i w' (f x w')"
  shows "quiet_op i w (andthen r f)"
proof -
  obtain w' y where r: "r = (w', y)" by fastforce
  show ?thesis
  proof (cases y)
    case (Inl e)
    then show ?thesis using assms(1) r by (simp add: andthen_def quiet_op_def)
  next
    case (Inr x)
    then show ?thesis using assms r quiet_trans by (auto simp: andthen_def quiet_op_def)
  qed
qed

lemma quiet_op_get_at: "(\<And>x. r = Some x \<Longrightarrow> quiet_op i w (f x)) \<Longrightarrow> quiet_op i w (get_at r w f)"
  by (cases r) (auto simp: get_at_def quiet_op_def)

lemma quiet_set_error [simp]: "quiet (sw_cx w i) (sw_cx (set_error j w) i)"
  by (auto simp: set_error_cx quiet_defs)

lemma quiet_authorize: "quiet (sw_cx w i) (sw_cx (snd (authorize_if_udp i server p w)) i)"
proof -
  obtain ok u where m: "make_authorized server p (get_udp (sw_cx w i)) = (ok, u)" by fastforce
  have "quiet (sw_cx w i) ((sw_cx w i)\<lparr>sx_udp := Some u\<rparr>)" by (simp add: quiet_defs)
  then show ?thesis
    using m by (auto simp: authorize_if_udp_def Let_def set_error_cx quiet_defs split: option.splits)
qed

lemma quiet_setup_target: "quiet_op i w (setup_target env i w)"
  by (auto simp: quiet_op_def quiet_defs setup_target_def wait_policy_def Let_def split: sum.splits prod.splits)

lemma quiet_choose: "quiet (sw_cx w i) (sw_cx (snd (choose_server_ip env i ips w)) i)"
  by (simp add: choose_server_ip_def quiet_defs Let_def)

lemma quiet_cache [simp]: "quiet_op i (w\<lparr>sw_cache := c, sw_domains := d\<rparr>) r = quiet_op i w r"
  by (simp add: quiet_op_def)

lemma quiet_dns_response:
  fixes w :: "('c, 'd) socks_world"
  shows "quiet_op i w (process_dns_response env i resp w)"
proof -
  have step: "quiet_op i w' (case choose_server_ip env i ips w' of (b, w) \<Rightarrow> setup_target env i w)" for ips w'
    using quiet_setup_target[of i "snd (choose_server_ip env i ips w')" env] quiet_choose[of w' i env ips] quiet_trans
    by (auto simp: quiet_op_def split: prod.splits)
  have stored: "quiet_op i w (case choose_server_ip env i ips (w\<lparr>sw_cache := a, sw_domains := b\<rparr>) of (_, w) \<Rightarrow> setup_target env i w)" for ips a b
    using step[of "w\<lparr>sw_cache := a, sw_domains := b\<rparr>" ips] by simp
  show ?thesis
  proof (cases resp)
    case None
    then show ?thesis by (simp add: process_dns_response_def quiet_op_def)
  next
    case (Some r)
    obtain a b where "snd (dns_store (se_dns env) r (sw_cache w, sw_domains w)) = (a, b)" by fastforce
    then show ?thesis using Some stored[of "answer_ips env (rs_packet r)" b a]
      by (simp add: process_dns_response_def quiet_op_def Let_def)
  qed
qed

lemma quiet_dns_async: "quiet (sw_cx w i) (sw_cx (setup_dns_async env i f ty ns w) i)"
  by (auto simp: setup_dns_async_def Let_def quiet_defs set_error_cx)

lemma quiet_fqdn: "quiet_op i w (handle5_connect_fqdn env i w)"
proof -
  let ?u = "\<lambda>c. c\<lparr>sx_dst_port := sx_req_port c, sx_nonlocal_src := True\<rparr>"
  let ?w = "upd_s i ?u w"
  have q: "quiet (sw_cx w i) (?u (sw_cx w i))" by (simp add: quiet_defs)
  have st: "quiet_op i w' (andthen (setup_target env i w') (\<lambda>_ w. (w, Inr NONE)))" for w'
    by (rule quiet_op_andthen[OF quiet_setup_target]) (simp add: quiet_op_def)
  have sync: "quiet_op i ?w (andthen (process_dns_response env i r ?w) (\<lambda>_ w. andthen (setup_target env i w) (\<lambda>_ w. (w, Inr NONE))))" for r
    by (rule quiet_op_andthen[OF quiet_dns_response st])
  have asyn: "quiet_op i ?w (setup_dns_async env i f ty ns ?w, x)" for f ty ns x
    by (rule quiet_opI[OF quiet_dns_async])
  have ips: "quiet_op i ?w (case choose_server_ip env i l ?w of (True, w) \<Rightarrow> andthen (setup_target env i w) (\<lambda>_ w. (w, Inr NONE))
      | (False, w) \<Rightarrow> (set_error i w, Inr NONE))" for l
  proof -
    obtain b w' where c: "choose_server_ip env i l ?w = (b, w')" by fastforce
    have q': "quiet (sw_cx ?w i) (sw_cx w' i)" using quiet_choose[of ?w i env l] c by simp
    show ?thesis
    proof (cases b)
      case True
      then show ?thesis using c st[of w'] q' quiet_trans by (auto simp: quiet_op_def)
    next
      case False
      then show ?thesis using c q' quiet_trans[OF q' quiet_set_error] by (simp add: quiet_op_def)
    qed
  qed
  have body: "quiet_op i ?w (handle5_connect_fqdn env i w)" if "sx_req_str_addr (sw_cx w i) \<noteq> []"
    using that sync asyn ips[of "[_]"] ips[of "_ # _ # _"] ips
    by (auto simp: handle5_connect_fqdn_def Let_def quiet_opI split: sum.splits list.splits)
  show ?thesis
  proof (cases "sx_req_str_addr (sw_cx w i) = []")
    case True
    then show ?thesis by (simp add: handle5_connect_fqdn_def quiet_op_def)
  next
    case False
    then show ?thesis using quiet_op_upd[where f = ?u, OF q] body by blast
  qed
qed

lemma quiet_authorized:
  assumes "quiet (sw_cx w i) (sw_cx w' i)"
  shows "quiet_op i w (case authorize_if_udp i server p w' of (ok, w) \<Rightarrow> (w, r ok))"
proof -
  obtain ok w2 where a: "authorize_if_udp i server p w' = (ok, w2)" by fastforce
  have "quiet (sw_cx w' i) (sw_cx w2 i)" using quiet_authorize[of w' i server p] a by simp
  then show ?thesis using a assms quiet_trans by (auto simp: quiet_op_def)
qed

lemma quiet_read_fqdn: "quiet_op i w (read_fqdn env i w)"
  unfolding read_fqdn_def Let_def
  by (simp add: get_at_def quiet_opI quiet_defs quiet_authorized split: option.splits)

lemma quiet_read_address: "quiet_op i w (read_address env i t w)"
  unfolding read_address_def finish_address_def Let_def
  by (simp add: get_at_def quiet_opI quiet_defs quiet_authorized split: option.splits)

lemma quiet_parse: "quiet_op i w (socks5_parse_request env i w)"
  by (simp add: socks5_parse_request_def get_at_def quiet_opI quiet_read_fqdn quiet_read_address split: option.splits)

lemma quiet_handle5: "quiet_op i w (handle5_connect env i w)"
  unfolding handle5_connect_def
proof (rule quiet_op_andthen[OF quiet_parse])
  fix st w'
  have "quiet_op i w' (andthen (setup_target env i w') (\<lambda>ok w. (w, Inr (if ok then NONE else MALFORMED_DATA))))"
    by (rule quiet_op_andthen[OF quiet_setup_target]) (simp add: quiet_op_def)
  then show "quiet_op i w'
      (if sx_l4 (sw_cx w' i) = SOCK_DGRAM \<and> sw_clients w' (client_key (sw_cx w' i)) = None then (w', Inr UNAUTHORIZED)
       else if st \<noteq> NONE then (w', Inr st)
       else if sx_req_atype (sw_cx w' i) = ATYPE_FQDN then handle5_connect_fqdn env i w'
       else if sx_req_atype (sw_cx w' i) = ATYPE_IPV4
       then andthen (setup_target env i w') (\<lambda>ok w. (w, Inr (if ok then NONE else MALFORMED_DATA)))
       else (w', Inr UNSUPPORTED_ATYPE))"
    by (simp add: quiet_opI quiet_fqdn)
qed

lemma quiet_handle4: "quiet_op i w (handle4_connect env i w)"
proof -
  have t: "quiet_op i w (andthen (setup_target env i w') (\<lambda>_ w. (w, Inr NONE)))"
    if "quiet (sw_cx w i) (sw_cx w' i)" for w'
  proof -
    have "quiet_op i w' (andthen (setup_target env i w') (\<lambda>_ w. (w, Inr NONE)))"
      by (rule quiet_op_andthen[OF quiet_setup_target]) (simp add: quiet_op_def)
    then show ?thesis using that quiet_trans by (auto simp: quiet_op_def)
  qed
  show ?thesis
    unfolding handle4_connect_def Let_def
    by (simp add: get_at_def quiet_opI quiet_defs t split: option.splits)
qed

text \<open>A whole input handler also notes the protocol version and the command; a UDP association waits
  for the policy without a target.\<close>

definition handled :: "socks_cx \<Rightarrow> socks_cx \<Rightarrow> bool" where
  "handled c c' \<longleftrightarrow> sx_verdict c' = sx_verdict c \<and> sx_writebuf c' = sx_writebuf c \<and> sx_l4 c' = sx_l4 c \<and> asked c c'
     \<and> (sx_state c' = sx_state c \<or> sx_state c' \<in> {REQ_RECEIVED, DNS_QUERY_SENT}
        \<or> sx_state c' = WAIT_POLICY \<and> (prepared c' \<or> sx_req_cmd c' = UDP_ASSOCIATE))"

lemma quiet_handled: "quiet c c' \<Longrightarrow> handled c c'"
  by (auto simp: handled_def quiet_def same_def moved_def)

definition handled_op :: "nat \<Rightarrow> ('c, 'd) socks_world \<Rightarrow> ('c, 'd, 'a) socks_result \<Rightarrow> bool" where
  "handled_op i w r \<longleftrightarrow> handled (sw_cx w i) (sw_cx (fst r) i)"

lemma handled_refl [simp]: "handled c c"
  by (simp add: handled_def asked_def)

lemma handled_note:
  "handled_op i (upd_s i (\<lambda>c. c\<lparr>sx_version := v\<rparr>) w) r = handled_op i w r"
  "handled_op i (upd_s i (\<lambda>c. c\<lparr>sx_req_cmd := k\<rparr>) w) r = handled_op i w r"
  "handled_op i (upd_s i (\<lambda>c. c\<lparr>sx_req_error := e\<rparr>) w) r = handled_op i w r"
  "handled_op i (upd_s i (\<lambda>c. c\<lparr>sx_readbuf := d\<rparr>) w) r = handled_op i w r"
  by (simp_all add: handled_op_def handled_def asked_def)

lemma handled_get_at: "(\<And>x. r = Some x \<Longrightarrow> handled_op i w (f x)) \<Longrightarrow> handled_op i w (get_at r w f)"
  by (cases r) (auto simp: get_at_def handled_op_def)

lemma quiet_handled_op: "quiet_op i w r \<Longrightarrow> handled_op i w r"
  by (simp add: quiet_op_def handled_op_def quiet_handled)

lemma fst_andthen: "(\<And>x w. fst (f x w) = w) \<Longrightarrow> fst (andthen r f) = fst r"
  by (auto simp: andthen_def split: prod.splits sum.splits)

lemma handled_pass: "quiet_op i w r \<Longrightarrow> handled_op i w (andthen r (\<lambda>e w. (w, g e)))"
  by (simp add: quiet_op_def handled_op_def fst_andthen quiet_handled)

lemma handled_associate:
  assumes q: "quiet_op i w r" and k: "sx_req_cmd (sw_cx w i) = UDP_ASSOCIATE"
  shows "handled_op i w (andthen r (\<lambda>e w. (wait_policy i w, g e)))"
proof -
  obtain w' x where r: "r = (w', x)" by fastforce
  have q': "quiet (sw_cx w i) (sw_cx w' i)" using q r by (simp add: quiet_op_def)
  then have h: "handled (sw_cx w i) (sw_cx w' i)" by (rule quiet_handled)
  moreover have "handled (sw_cx w i) (sw_cx (wait_policy i w') i)"
    using q' k by (simp add: wait_policy_def handled_def quiet_def same_def asked_def)
  ultimately show ?thesis by (cases x) (simp_all add: r handled_op_def andthen_def)
qed

lemma handled_body: "handled_op i w (request_body env i w)"
proof -
  let ?n = "\<lambda>v k. upd_s i (\<lambda>c. c\<lparr>sx_req_cmd := k\<rparr>) (upd_s i (\<lambda>c. c\<lparr>sx_version := v\<rparr>) w)"
  have undo: "handled_op i (?n v k) r \<Longrightarrow> handled_op i w r" for v k and r :: "('a, 'b, socks5_request_error option) socks_result"
    by (simp add: handled_note)
  have "handled_op i w (andthen (handle5_connect env i (?n v k)) (\<lambda>e w. (w, Inr (Some e))))" for v k
    by (rule undo, rule handled_pass, rule quiet_handle5)
  moreover have "handled_op i w (andthen (handle4_connect env i (?n v k)) (\<lambda>e w. (w, Inr (Some e))))" for v k
    by (rule undo, rule handled_pass, rule quiet_handle4)
  moreover have "handled_op i w (andthen (socks5_parse_request env i (?n v UDP_ASSOCIATE)) (\<lambda>e w. (wait_policy i w, Inr (Some e))))" for v
    by (rule undo, rule handled_associate, rule quiet_parse) simp
  moreover have "handled_op i w (?n v k, x)" "handled_op i w (upd_s i (\<lambda>c. c\<lparr>sx_version := v\<rparr>) w, x)"
      "handled_op i w (w, x)" for v k and x :: "socks_fault + socks5_request_error option"
    by (simp_all add: handled_op_def handled_def asked_def)
  ultimately show ?thesis
    by (simp add: request_body_def Let_def get_at_def split: option.splits)
qed

lemma handled_finish: "handled (sw_cx w i) (sw_cx w' i) \<Longrightarrow> handled_op i w (finish_request i e w')"
  by (simp add: finish_request_def Let_def handled_op_def set_error_cx handled_def asked_def prepared_def)

lemma handled_request: "handled_op i w (process_socks_request env i w)"
proof -
  let ?w = "upd_s i (\<lambda>c. c\<lparr>sx_req_error := NONE\<rparr>) w"
  obtain w' x where b: "request_body env i ?w = (w', x)" by fastforce
  have h: "handled (sw_cx w i) (sw_cx w' i)"
    using handled_body[of i ?w env, unfolded handled_note] b by (simp add: handled_op_def)
  have q: "handled_op i w (?w, Inr (0 :: int))" by (simp add: handled_op_def handled_def asked_def)
  show ?thesis
  proof (cases x)
    case (Inl e)
    then show ?thesis using b h q handled_finish[OF h]
      by (simp add: process_socks_request_def Let_def handled_op_def[of i w "(w', _)"] split: socks_fault.splits std_error.splits)
  next
    case (Inr y)
    then show ?thesis using b h q handled_finish[OF h]
      by (simp add: process_socks_request_def Let_def handled_op_def[of i w "(w', _)"] split: option.splits)
  qed
qed

end
