(* ===== verification/SocksRun.thy ===== *)
theory SocksRun
  imports Socks
begin

text \<open>
  Runs of a SOCKS connection over TCP: the connection receives data, writes, is polled for writing,
  gets an answer from a name server, gets a verdict and is handed to the proxy, in any order,
  while other connections change the shared tables.
\<close>

section \<open>Single handlers\<close>

lemma hello_tcp_cases:
  "handled_op i w (process_socks_hello_tcp env i w)
   \<or> sw_cx (fst (process_socks_hello_tcp env i w)) i
        = (sw_cx w i)\<lparr>sx_version := 5, sx_writebuf := sx_writebuf (sw_cx w i) @ [5, 0], sx_state := WAIT_REQUEST\<rparr>"
proof -
  have req: "handled_op i w (process_socks_request env i (upd_s i (\<lambda>c. c\<lparr>sx_version := v\<rparr>) w))" for v
    using handled_request[of i "upd_s i (\<lambda>c. c\<lparr>sx_version := v\<rparr>) w" env, unfolded handled_note] .
  have rest: "handled_op i w (w, x)" "handled_op i w (upd_s i (\<lambda>c. c\<lparr>sx_version := v\<rparr>) w, x)"
      "handled_op i w (set_error i (upd_s i (\<lambda>c. c\<lparr>sx_version := v\<rparr>) w), x)" for v and x :: "socks_fault + int"
    by (simp_all add: handled_op_def handled_def asked_def set_error_cx prepared_def)
  show ?thesis
  proof (cases "sb_size (rbuf env i w) < 3")
    case True
    then show ?thesis by (simp add: process_socks_hello_tcp_def rest)
  next
    case False
    show ?thesis
    proof (cases "sb_get8 (rbuf env i w) 0")
      case None
      then show ?thesis using False rest(1) by (simp add: process_socks_hello_tcp_def Let_def get_at_def)
    next
      case v: (Some v)
      show ?thesis
      proof (cases "sb_get8 (rbuf env i w) 1")
        case None
        then show ?thesis using False v rest(2) by (simp add: process_socks_hello_tcp_def Let_def get_at_def)
      next
        case (Some m)
        then show ?thesis using False v Some rest req by (simp add: process_socks_hello_tcp_def Let_def get_at_def)
      qed
    qed
  qed
qed

text \<open>Reading greets the client once, and otherwise leaves the verdict and the output alone.\<close>

lemma process_in_cases:
  assumes "sx_l4 (sw_cx w i) \<noteq> SOCK_DGRAM"
  obtains (idle) "sx_state (sw_cx w i) \<notin> {INIT, WAIT_REQUEST}" "sw_cx (fst (process_in env i w)) i = sw_cx w i"
  | (request) "sx_state (sw_cx w i) \<in> {INIT, WAIT_REQUEST}" "handled (sw_cx w i) (sw_cx (fst (process_in env i w)) i)"
  | (hello) "sx_state (sw_cx w i) = INIT" "sw_cx (fst (process_in env i w)) i
        = (sw_cx w i)\<lparr>sx_version := 5, sx_writebuf := sx_writebuf (sw_cx w i) @ [5, 0], sx_state := WAIT_REQUEST\<rparr>"
proof (cases "sx_state (sw_cx w i) = INIT")
  case True
  then have "process_in env i w = process_socks_hello_tcp env i w"
    using assms by (simp add: process_in_def process_socks_hello_def)
  then show thesis using True hello_tcp_cases[of i w env] request hello by (auto simp: handled_op_def)
next
  case False
  show thesis
  proof (cases "sx_state (sw_cx w i) = WAIT_REQUEST")
    case True
    then have "process_in env i w = process_socks_request env i w" by (simp add: process_in_def)
    then show thesis using True handled_request[of i w env] request by (simp add: handled_op_def)
  next
    case no: False
    then have "process_in env i w = (w, Inr 0)"
      using False by (cases "sx_state (sw_cx w i)") (simp_all add: process_in_def)
    then show thesis using False no idle by simp
  qed
qed

definition late :: "socks5_state set" where
  "late = {POLICY_RECEIVED, REQRES_SENT, HANDOFF, ZOMBIE}"

lemma late_simps [simp]:
  "INIT \<notin> late" "HELLO_SENT \<notin> late" "WAIT_REQUEST \<notin> late" "REQ_RECEIVED \<notin> late" "WAIT_POLICY \<notin> late"
  "DNS_QUERY_SENT \<notin> late" "DNS_RESP_RECV \<notin> late" "DNS_RESP_FAILED \<notin> late"
  "POLICY_RECEIVED \<in> late" "REQRES_SENT \<in> late" "HANDOFF \<in> late" "ZOMBIE \<in> late"
  by (simp_all add: late_def)

text \<open>What an answer of a name server changes.\<close>

definition answered :: "socks_cx \<Rightarrow> socks_cx \<Rightarrow> bool" where
  "answered c c' \<longleftrightarrow> same c c' \<and> (sx_tested_a c \<longrightarrow> sx_tested_a c') \<and> (sx_tested_aaaa c \<longrightarrow> sx_tested_aaaa c')
     \<and> (sx_state c' \<in> {REQ_RECEIVED, DNS_QUERY_SENT, DNS_RESP_RECV, DNS_RESP_FAILED} \<or> sx_state c' = WAIT_POLICY \<and> prepared c')"

lemma answered_quiet: "quiet (c\<lparr>sx_state := DNS_RESP_RECV\<rparr>) c' \<Longrightarrow> answered c (c'\<lparr>sx_events := e\<rparr>)"
  "quiet (c\<lparr>sx_state := DNS_RESP_RECV\<rparr>) c' \<Longrightarrow> answered c (c'\<lparr>sx_state := DNS_RESP_FAILED, sx_events := e\<rparr>)"
  "quiet (c\<lparr>sx_state := DNS_RESP_RECV\<rparr>) c' \<Longrightarrow> answered c c'"
  by (auto simp: answered_def quiet_defs)

lemma callback_answered: "answered (sw_cx w i) (sw_cx (fst (dns_response_callback env i (resp, red) w)) i)"
proof -
  let ?w = "upd_s i (\<lambda>c. c\<lparr>sx_state := DNS_RESP_RECV\<rparr>) w"
  obtain w' x where p: "process_dns_response env i resp ?w = (w', x)" by fastforce
  have q: "quiet ((sw_cx w i)\<lparr>sx_state := DNS_RESP_RECV\<rparr>) (sw_cx w' i)"
    using quiet_dns_response[of i ?w env resp] p by (simp add: quiet_op_def)
  have e: "quiet ((sw_cx w i)\<lparr>sx_state := DNS_RESP_RECV\<rparr>) (sw_cx (set_error i ?w) i)"
    using quiet_set_error[of ?w i i] by simp
  show ?thesis
    using answered_quiet[OF q] answered_quiet(1)[OF e] p
    by (cases x) (auto simp: dns_response_callback_def Let_def andthen_def)
qed

text \<open>What a verdict changes.\<close>

definition decided :: "socks5_policy \<Rightarrow> socks_cx \<Rightarrow> socks_cx \<Rightarrow> bool" where
  "decided p c c' \<longleftrightarrow> sx_verdict c' = p \<and> sx_state c' \<in> late \<and> sx_l4 c' = sx_l4 c
     \<and> sx_tested_a c' = sx_tested_a c \<and> sx_tested_aaaa c' = sx_tested_aaaa c"

lemma reply_decided:
  assumes "decided p c (sw_cx w i)"
  shows "decided p c (sw_cx (fst (process_socks_reply i w)) i)"
  using assms
  by (simp add: process_socks_reply_def process_socks_reply_v4_def process_socks_reply_v5_def Let_def decided_def)

lemma sw_clients_cx [simp]: "sw_cx (w\<lparr>sw_clients := t\<rparr>) = sw_cx w"
  by simp

lemma upd_s_clients: "sw_cx (upd_s i f (w\<lparr>sw_clients := t\<rparr>)) i = f (sw_cx w i)"
  by simp

lemma set_verdict_decided:
  assumes "p \<noteq> PENDING"
  shows "decided p (sw_cx w i) (sw_cx (fst (set_verdict i p w)) i)"
proof -
  have "p = ACCEPT \<or> p = REJECT" using assms by (cases p) auto
  then show ?thesis
    unfolding set_verdict_def Let_def
    by (simp only: simp_thms if_True, intro reply_decided) (simp add: upd_s_clients decided_def)
qed

section \<open>Runs\<close>

type_synonym ('c, 'd) run_state = "('c, 'd) socks_world \<times> bytes"

inductive socks_step :: "('c, 'd, 's) socks_env \<Rightarrow> nat \<Rightarrow> ('c, 'd) run_state \<Rightarrow> ('c, 'd) run_state \<Rightarrow> bool"
  for env :: "('c, 'd, 's) socks_env" and i :: nat where
  receive: "w' = fst (process_in env i (upd_s i (\<lambda>c. c\<lparr>sx_readbuf := d\<rparr>) w)) \<Longrightarrow> socks_step env i (w, sent) (w', sent)"
| flush: "c = sw_cx w i \<Longrightarrow>
    socks_step env i (w, sent) (upd_s i (\<lambda>c. c\<lparr>sx_writebuf := drop n (sx_writebuf c)\<rparr>) w, sent @ take n (sx_writebuf c))"
| poll: "socks_step env i (w, sent) (pre_write env i w, sent)"
| answer: "sx_state (sw_cx w i) = DNS_QUERY_SENT \<Longrightarrow>
    socks_step env i (w, sent) (fst (dns_response_callback env i (resp, red) w), sent)"
| verdict: "new_message (sw_cx w i) \<Longrightarrow> p \<noteq> PENDING \<Longrightarrow> socks_step env i (w, sent) (fst (set_verdict i p w), sent)"
| handoff: "sx_state (sw_cx w i) = HANDOFF \<Longrightarrow>
    socks_step env i (w, sent) (upd_s i (\<lambda>c. c\<lparr>sx_state := ZOMBIE\<rparr>) w, sent)"
| others: "sw_cx w' i = (sw_cx w i)\<lparr>sx_error := b\<rparr> \<Longrightarrow> socks_step env i (w, sent) (w', sent)"

text \<open>A run counts the asynchronous queries, those a connection waits for in the state \<open>DNS_QUERY_SENT\<close>; the blocking queries
  made with the asynchronous resolver turned off are not counted.\<close>

definition queries :: "socks_cx \<Rightarrow> socks_cx \<Rightarrow> nat" where
  "queries c c' = (if sx_state c' = DNS_QUERY_SENT \<and> sx_state c \<noteq> DNS_QUERY_SENT then 1 else 0)"

inductive socks_run :: "('c, 'd, 's) socks_env \<Rightarrow> nat \<Rightarrow> ('c, 'd) run_state \<Rightarrow> nat \<Rightarrow> ('c, 'd) run_state \<Rightarrow> bool"
  for env :: "('c, 'd, 's) socks_env" and i :: nat where
  start: "socks_run env i s 0 s"
| more: "socks_run env i s n (w, sent) \<Longrightarrow> socks_step env i (w, sent) (w', sent')
    \<Longrightarrow> socks_run env i s (n + queries (sw_cx w i) (sw_cx w' i)) (w', sent')"

definition fresh :: "socks_cx \<Rightarrow> bool" where
  "fresh c \<longleftrightarrow> sx_state c = INIT \<and> sx_verdict c = PENDING \<and> sx_writebuf c = [] \<and> sx_l4 c \<noteq> SOCK_DGRAM"

text \<open>The connection with what it has sent so far.\<close>

definition socks_inv :: "socks_cx \<Rightarrow> bytes \<Rightarrow> bool" where
  "socks_inv c sent \<longleftrightarrow> sx_l4 c \<noteq> SOCK_DGRAM
     \<and> (sx_verdict c = PENDING \<longleftrightarrow> sx_state c \<notin> late)
     \<and> (sx_verdict c = PENDING \<longrightarrow> sent @ sx_writebuf c \<in> {[], [5, 0]})
     \<and> (sx_state c = INIT \<longrightarrow> sent @ sx_writebuf c = [])
     \<and> (sx_state c = WAIT_POLICY \<longrightarrow> prepared c \<or> sx_req_cmd c = UDP_ASSOCIATE)"


lemma handled_keeps:
  assumes inv: "socks_inv c sent" and h: "handled c c'" and st: "sx_state c \<in> {INIT, WAIT_REQUEST}"
  shows "socks_inv c' sent"
proof -
  have v: "sx_verdict c = PENDING" using inv st by (auto simp: socks_inv_def)
  consider "sx_state c' = sx_state c" | "sx_state c' \<in> {REQ_RECEIVED, DNS_QUERY_SENT}"
    | "sx_state c' = WAIT_POLICY" "prepared c' \<or> sx_req_cmd c' = UDP_ASSOCIATE"
    using h by (auto simp: handled_def)
  then show ?thesis
  proof cases
    case 1
    then show ?thesis using inv h st v by (auto simp: socks_inv_def handled_def)
  next
    case 2
    then show ?thesis using inv h v by (auto simp: socks_inv_def handled_def)
  next
    case 3
    then show ?thesis using inv h v by (simp add: socks_inv_def handled_def)
  qed
qed

lemma answered_keeps:
  assumes "socks_inv c sent" "answered c c'" "sx_state c = DNS_QUERY_SENT"
  shows "socks_inv c' sent"
  using assms by (auto simp: socks_inv_def answered_def same_def)

lemma decided_keeps:
  assumes "socks_inv c sent" "decided p c c'" "p \<noteq> PENDING"
  shows "socks_inv c' sent'"
proof -
  have l: "sx_state c' \<in> late" using assms(2) by (simp add: decided_def)
  then have "sx_state c' \<noteq> WAIT_POLICY" "sx_state c' \<noteq> INIT" using late_simps by metis+
  then show ?thesis using assms l by (simp add: socks_inv_def decided_def)
qed

lemma inv_other_fields [simp]:
  "socks_inv (c\<lparr>sx_readbuf := d\<rparr>) sent = socks_inv c sent"
  "socks_inv (c\<lparr>sx_tested_a := b\<rparr>) sent = socks_inv c sent"
  "socks_inv (c\<lparr>sx_tested_aaaa := b\<rparr>) sent = socks_inv c sent"
  by (simp_all add: socks_inv_def prepared_def)

lemma receive_keeps:
  assumes inv: "socks_inv (sw_cx w i) sent"
  shows "socks_inv (sw_cx (fst (process_in env i w)) i) sent"
proof (rule process_in_cases[of w i env])
  show "sx_l4 (sw_cx w i) \<noteq> SOCK_DGRAM" using inv by (simp add: socks_inv_def)
next
  assume "sw_cx (fst (process_in env i w)) i = sw_cx w i"
  then show ?thesis using inv by simp
next
  assume "sx_state (sw_cx w i) \<in> {INIT, WAIT_REQUEST}" "handled (sw_cx w i) (sw_cx (fst (process_in env i w)) i)"
  then show ?thesis using handled_keeps[OF inv] by blast
next
  assume "sx_state (sw_cx w i) = INIT" "sw_cx (fst (process_in env i w)) i
      = (sw_cx w i)\<lparr>sx_version := 5, sx_writebuf := sx_writebuf (sw_cx w i) @ [5, 0], sx_state := WAIT_REQUEST\<rparr>"
  then show ?thesis using inv by (simp add: socks_inv_def)
qed

lemma async_keeps:
  assumes "socks_inv (sw_cx w i) sent" "sx_state (sw_cx w i) = DNS_RESP_FAILED"
  shows "socks_inv (sw_cx (setup_dns_async env i f ty ns w) i) sent"
  using assms by (simp add: setup_dns_async_def Let_def set_error_cx socks_inv_def)

lemma poll_keeps:
  assumes inv: "socks_inv (sw_cx w i) sent"
  shows "socks_inv (sw_cx (pre_write env i w) i) sent"
proof -
  have upd: "socks_inv (sw_cx (setup_dns_async env i f ty ns (upd_s i (\<lambda>c. c\<lparr>sx_tested_a := True\<rparr>) w)) i) sent"
      "socks_inv (sw_cx (setup_dns_async env i f ty ns (upd_s i (\<lambda>c. c\<lparr>sx_tested_aaaa := True\<rparr>) w)) i) sent"
    if "sx_state (sw_cx w i) = DNS_RESP_FAILED" for f ty ns
    using that inv by (simp_all add: async_keeps)
  have err: "socks_inv (sw_cx (set_error i w) i) sent"
    using inv by (simp add: set_error_cx socks_inv_def prepared_def)
  have hand: "socks_inv ((sw_cx w i)\<lparr>sx_wait := True, sx_state := HANDOFF\<rparr>) sent" if "sx_state (sw_cx w i) = REQRES_SENT"
    using inv that by (simp add: socks_inv_def)
  show ?thesis using inv err upd hand by (simp add: pre_write_def Let_def)
qed

lemma step_keeps:
  assumes "socks_step env i s s'" "socks_inv (sw_cx (fst s) i) (snd s)"
  shows "socks_inv (sw_cx (fst s') i) (snd s')"
  using assms
proof cases
  case (receive w' d w sent)
  then show ?thesis using assms(2) receive_keeps[of "upd_s i (\<lambda>c. c\<lparr>sx_readbuf := d\<rparr>) w" i sent env] by simp
next
  case (flush c w sent n)
  then show ?thesis using assms(2) by (auto simp: socks_inv_def prepared_def)
next
  case (poll w sent)
  then show ?thesis using assms(2) poll_keeps by simp
next
  case (answer w sent resp red)
  then show ?thesis using assms(2) answered_keeps[OF _ callback_answered] by simp
next
  case (verdict w p sent)
  then show ?thesis using assms(2) decided_keeps[OF _ set_verdict_decided] by simp
next
  case (handoff w sent)
  then show ?thesis using assms(2) by (simp add: socks_inv_def)
next
  case (others w' w b sent)
  then show ?thesis using assms(2) by (simp add: socks_inv_def prepared_def)
qed

lemma run_inv:
  assumes "socks_run env i s n s'" "fresh (sw_cx (fst s) i)" "snd s = []"
  shows "socks_inv (sw_cx (fst s') i) (snd s')"
  using assms
proof (induction rule: socks_run.induct)
  case (start s)
  then show ?case by (simp add: fresh_def socks_inv_def)
next
  case (more s n w sent w' sent')
  then show ?case using step_keeps[OF more.hyps(2)] by simp
qed

section \<open>Bounded name resolution\<close>

definition untested :: "socks_cx \<Rightarrow> nat" where
  "untested c = (if sx_tested_a c then 0 else 1) + (if sx_tested_aaaa c then 0 else 1)"

text \<open>A connection whose request has not been accepted can still send a query for each address family.\<close>

definition query_budget :: "socks_cx \<Rightarrow> nat" where
  "query_budget c = (if sx_state c \<in> {INIT, WAIT_REQUEST} then 2 else untested c)"

lemma untested_le: "untested c \<le> 2"
  by (simp add: untested_def)

lemma untested_mono:
  "(sx_tested_a c \<longrightarrow> sx_tested_a c') \<Longrightarrow> (sx_tested_aaaa c \<longrightarrow> sx_tested_aaaa c') \<Longrightarrow> untested c' \<le> untested c"
  by (auto simp: untested_def)

lemma handled_budget:
  assumes h: "handled c c'" and st: "sx_state c \<in> {INIT, WAIT_REQUEST}"
  shows "queries c c' + query_budget c' \<le> query_budget c"
proof (cases "sx_state c' = DNS_QUERY_SENT")
  case True
  then have "sx_tested_a c' \<or> sx_tested_aaaa c'" using h st by (auto simp: handled_def asked_def)
  then have "untested c' \<le> 1" by (auto simp: untested_def)
  then show ?thesis using True st by (auto simp: queries_def query_budget_def)
next
  case False
  then show ?thesis using st untested_le[of c'] by (simp add: queries_def query_budget_def)
qed

lemma answered_budget:
  assumes "answered c c'" "sx_state c = DNS_QUERY_SENT"
  shows "queries c c' + query_budget c' \<le> query_budget c"
proof -
  have "sx_state c' \<notin> {INIT, WAIT_REQUEST}" using assms(1) by (auto simp: answered_def)
  moreover have "untested c' \<le> untested c" using assms(1) by (auto simp: answered_def intro: untested_mono)
  ultimately show ?thesis using assms(2) by (simp add: queries_def query_budget_def)
qed

lemma decided_budget:
  assumes "decided p c c'"
  shows "queries c c' + query_budget c' \<le> query_budget c"
proof -
  have l: "sx_state c' \<in> late" using assms by (simp add: decided_def)
  then have "sx_state c' \<noteq> DNS_QUERY_SENT" "sx_state c' \<notin> {INIT, WAIT_REQUEST}" using late_simps by fastforce+
  moreover have "untested c' = untested c" using assms by (simp add: decided_def untested_def)
  ultimately show ?thesis using untested_le[of c] by (simp add: queries_def query_budget_def)
qed

lemma receive_budget:
  assumes "sx_l4 (sw_cx w i) \<noteq> SOCK_DGRAM" "w' = fst (process_in env i w)"
  shows "queries (sw_cx w i) (sw_cx w' i) + query_budget (sw_cx w' i) \<le> query_budget (sw_cx w i)"
  using assms(1)
proof (cases rule: process_in_cases[where env = env])
  case idle
  then show ?thesis using assms(2) by (simp add: queries_def)
next
  case request
  then show ?thesis using assms(2) handled_budget by blast
next
  case hello
  then show ?thesis using assms(2) by (simp add: queries_def query_budget_def)
qed

lemma poll_budget:
  "queries (sw_cx w i) (sw_cx (pre_write env i w) i) + query_budget (sw_cx (pre_write env i w) i) \<le> query_budget (sw_cx w i)"
  by (simp add: pre_write_def Let_def setup_dns_async_def set_error_cx queries_def query_budget_def untested_def)

lemma step_budget:
  assumes "socks_step env i (w, sent) (w', sent')" "sx_l4 (sw_cx w i) \<noteq> SOCK_DGRAM"
  shows "queries (sw_cx w i) (sw_cx w' i) + query_budget (sw_cx w' i) \<le> query_budget (sw_cx w i)"
  using assms(1)
proof cases
  case (receive d)
  let ?w = "upd_s i (\<lambda>c. c\<lparr>sx_readbuf := d\<rparr>) w"
  have "queries (sw_cx ?w i) c = queries (sw_cx w i) c" "query_budget (sw_cx ?w i) = query_budget (sw_cx w i)" for c
    by (simp_all add: queries_def query_budget_def untested_def)
  then show ?thesis using receive_budget[of ?w i w' env] receive assms(2) by simp
next
  case (poll)
  then show ?thesis using poll_budget by simp
next
  case (answer resp red)
  then show ?thesis using answered_budget[OF callback_answered] by simp
next
  case (verdict p)
  then show ?thesis using decided_budget[OF set_verdict_decided] by simp
qed (simp_all add: queries_def query_budget_def untested_def)

lemma step_l4:
  assumes "socks_step env i (w, sent) (w', sent')" "sx_l4 (sw_cx w i) \<noteq> SOCK_DGRAM"
  shows "sx_l4 (sw_cx w' i) = sx_l4 (sw_cx w i)"
  using assms(1)
proof cases
  case (receive d)
  let ?w = "upd_s i (\<lambda>c. c\<lparr>sx_readbuf := d\<rparr>) w"
  have "sx_l4 (sw_cx ?w i) \<noteq> SOCK_DGRAM" using assms(2) by simp
  then show ?thesis
  proof (cases rule: process_in_cases[where env = env])
    case request
    then show ?thesis using receive by (simp add: handled_def)
  qed (use receive in simp_all)
next
  case poll
  then show ?thesis by (simp add: pre_write_def Let_def setup_dns_async_def set_error_cx)
next
  case (answer resp red)
  then show ?thesis using callback_answered[of w i env resp red] by (simp add: answered_def same_def)
next
  case (verdict p)
  then show ?thesis using set_verdict_decided[of p w i] by (simp add: decided_def)
qed simp_all

lemma run_budget:
  assumes "socks_run env i s n s'" "sx_l4 (sw_cx (fst s) i) \<noteq> SOCK_DGRAM"
  shows "sx_l4 (sw_cx (fst s') i) \<noteq> SOCK_DGRAM \<and> n + query_budget (sw_cx (fst s') i) \<le> query_budget (sw_cx (fst s) i)"
  using assms
proof (induction rule: socks_run.induct)
  case (more s n w sent w' sent')
  then have l: "sx_l4 (sw_cx w i) \<noteq> SOCK_DGRAM"
    and n: "n + query_budget (sw_cx w i) \<le> query_budget (sw_cx (fst s) i)" by simp_all
  show ?case using step_budget[OF more.hyps(2) l] step_l4[OF more.hyps(2) l] l n by simp
qed simp

section \<open>A connect request\<close>

lemma rbuf_bytes:
  assumes "env_buffers_ok (se_dns env)"
  shows "sb_size (rbuf env i w) = length (sx_readbuf (sw_cx w i))"
    "sb_get8 (rbuf env i w) k = (if k < length (sx_readbuf (sw_cx w i)) then Some (sx_readbuf (sw_cx w i) ! k) else None)"
    "sb_get16 (rbuf env i w) k = (if k + 2 \<le> length (sx_readbuf (sw_cx w i))
        then Some (be16 (sx_readbuf (sw_cx w i) ! (k + 1)) (sx_readbuf (sw_cx w i) ! k)) else None)"
    "sb_get32 (rbuf env i w) k = (if k + 4 \<le> length (sx_readbuf (sw_cx w i))
        then Some (join4 (sx_readbuf (sw_cx w i) ! (k + 3)) (sx_readbuf (sw_cx w i) ! (k + 2))
                         (sx_readbuf (sw_cx w i) ! (k + 1)) (sx_readbuf (sw_cx w i) ! k)) else None)"
proof -
  have "holds (rbuf env i w) (sx_readbuf (sw_cx w i))" using assms by (simp add: env_buffers_ok_def rbuf_def)
  then have h: "buffer_ok (rbuf env i w)" "sb_size (rbuf env i w) = length (sx_readbuf (sw_cx w i))"
    "k < length (sx_readbuf (sw_cx w i)) \<Longrightarrow> sb_mem (rbuf env i w) k = sx_readbuf (sw_cx w i) ! k" for k
    by (simp_all add: holds_def)
  show "sb_size (rbuf env i w) = length (sx_readbuf (sw_cx w i))"
    "sb_get8 (rbuf env i w) k = (if k < length (sx_readbuf (sw_cx w i)) then Some (sx_readbuf (sw_cx w i) ! k) else None)"
    "sb_get16 (rbuf env i w) k = (if k + 2 \<le> length (sx_readbuf (sw_cx w i))
        then Some (be16 (sx_readbuf (sw_cx w i) ! (k + 1)) (sx_readbuf (sw_cx w i) ! k)) else None)"
    "sb_get32 (rbuf env i w) k = (if k + 4 \<le> length (sx_readbuf (sw_cx w i))
        then Some (join4 (sx_readbuf (sw_cx w i) ! (k + 3)) (sx_readbuf (sw_cx w i) ! (k + 2))
                         (sx_readbuf (sw_cx w i) ! (k + 1)) (sx_readbuf (sw_cx w i) ! k)) else None)"
    using h by (simp_all add: buffer_ok_get)
qed

lemma upd_s_upd_s: "upd_s i f (upd_s i g w) = upd_s i (\<lambda>c. f (g c)) w"
  by (simp add: upd_s_def)

text \<open>The targets a TCP request leads to.\<close>

definition left_target :: "string \<Rightarrow> 16 word \<Rightarrow> shadow_cx" where
  "left_target host port = \<lparr>sh_com = (if port \<in> tls_ports then TlsCom else TcpCom), sh_dst_host = host, sh_dst_port = port,
     sh_src_host = [], sh_src_port = 0, sh_readbuf = [], sh_wait = True\<rparr>"

definition right_target :: "string \<Rightarrow> 16 word \<Rightarrow> string \<Rightarrow> int \<Rightarrow> shadow_cx" where
  "right_target host port h n = \<lparr>sh_com = SlaveCom, sh_dst_host = host, sh_dst_port = port,
     sh_src_host = h, sh_src_port = down_cast_port n, sh_readbuf = [], sh_wait = True\<rparr>"

definition ready :: "string \<Rightarrow> int \<Rightarrow> socks_cx \<Rightarrow> socks_cx" where
  "ready h n c = c\<lparr>sx_is_ssl := (sx_dst_port c \<in> tls_ports \<or> sx_is_ssl c),
       sx_left := Some (left_target (sx_dst_host c) (sx_dst_port c)),
       sx_right := Some (right_target (sx_dst_host c) (sx_dst_port c) h n),
       sx_state := WAIT_POLICY, sx_read_wait := True\<rparr>"

lemma setup_target_tcp:
  assumes "sx_l4 (sw_cx w i) \<noteq> SOCK_DGRAM" "se_socket_src env (sx_socket (sw_cx w i)) = Some (h, p)" "stoi p = Inr n"
  shows "setup_target env i w = (upd_s i (\<lambda>_. ready h n (sw_cx w i)) w, Inr True)"
proof -
  have eq: "c\<lparr>sx_is_ssl := sx_is_ssl c\<rparr> = c" for c :: socks_cx by simp
  show ?thesis
    using assms eq[of "sw_cx w i"]
    by (cases "sx_dst_port (sw_cx w i) \<in> tls_ports")
       (simp_all add: setup_target_def Let_def wait_policy_def upd_s_upd_s left_target_def right_target_def ready_def)
qed

text \<open>The address of an IPv4 request, in memory order.\<close>

definition ipv4_target :: "('c, 'd, 's) socks_env \<Rightarrow> byte \<Rightarrow> byte \<Rightarrow> byte \<Rightarrow> byte \<Rightarrow> 16 word \<Rightarrow> AddressInfo" where
  "ipv4_target env a b c d p = (let ai = \<lparr>ai_family = AF_INET, ai_v4 = join4 d c b a, ai_v6 = [], ai_port = p, ai_host = []\<rparr>
     in ai\<lparr>ai_host := se_unpack env ai\<rparr>)"

definition ipv4_asked :: "AddressInfo \<Rightarrow> 16 word \<Rightarrow> socks_cx \<Rightarrow> socks_cx" where
  "ipv4_asked ai port c = c\<lparr>sx_req_atype := ATYPE_IPV4, sx_state := REQ_RECEIVED, sx_req_port := port, sx_req_hdr_size := 10,
     sx_req_addr := ai, sx_dst_host := ai_host ai, sx_dst_port := port, sx_nonlocal_src := True\<rparr>"

lemma parse_ipv4:
  assumes "env_buffers_ok (se_dns env)" "sx_l4 (sw_cx w i) \<noteq> SOCK_DGRAM"
    and req: "sx_readbuf (sw_cx w i) = [5, 1, r, 1, a, b, c, d, p1, p2]"
  shows "socks5_parse_request env i w
    = (upd_s i (\<lambda>_. ipv4_asked (ipv4_target env a b c d (be16 p1 p2)) (be16 p1 p2) (sw_cx w i)) w, Inr NONE)"
  using assms(2) req
  by (simp add: socks5_parse_request_def read_address_def finish_address_def authorize_if_udp_def rbuf_bytes[OF assms(1)]
      get_at_def socks_code_defs Let_def upd_s_upd_s ipv4_target_def ipv4_asked_def) (simp add: upd_s_def)

lemma handle5_ipv4:
  assumes "env_buffers_ok (se_dns env)" "sx_l4 (sw_cx w i) \<noteq> SOCK_DGRAM"
    and req: "sx_readbuf (sw_cx w i) = [5, 1, r, 1, a, b, c, d, p1, p2]"
    and src: "se_socket_src env (sx_socket (sw_cx w i)) = Some (h, p)" "stoi p = Inr n"
  shows "handle5_connect env i w
    = (upd_s i (\<lambda>_. ready h n (ipv4_asked (ipv4_target env a b c d (be16 p1 p2)) (be16 p1 p2) (sw_cx w i))) w, Inr NONE)"
proof -
  define c1 where "c1 = ipv4_asked (ipv4_target env a b c d (be16 p1 p2)) (be16 p1 p2) (sw_cx w i)"
  have c1: "sx_l4 c1 = sx_l4 (sw_cx w i)" "sx_socket c1 = sx_socket (sw_cx w i)" "sx_req_atype c1 = ATYPE_IPV4"
    by (simp_all add: c1_def ipv4_asked_def)
  have "setup_target env i (upd_s i (\<lambda>_. c1) w) = (upd_s i (\<lambda>_. ready h n c1) w, Inr True)"
    using setup_target_tcp[of "upd_s i (\<lambda>_. c1) w" i env h p n] assms(2) src by (simp add: c1 upd_s_upd_s)
  then show ?thesis
    using assms(2) by (simp add: handle5_connect_def parse_ipv4[OF assms(1-3)] andthen_def flip: c1_def)
      (simp add: c1 socks_code_defs)
qed

definition ipv4_answerable :: "AddressInfo \<Rightarrow> 16 word \<Rightarrow> string \<Rightarrow> int \<Rightarrow> socks_cx \<Rightarrow> socks_cx" where
  "ipv4_answerable ai port h n c = ready h n (ipv4_asked ai port
     (c\<lparr>sx_req_error := NONE, sx_version := 5, sx_req_cmd := CONNECT\<rparr>))"

lemma ipv4_request:
  assumes buf: "env_buffers_ok (se_dns env)" and st: "sx_state (sw_cx w i) = WAIT_REQUEST"
    and tcp: "sx_l4 (sw_cx w i) \<noteq> SOCK_DGRAM"
    and req: "sx_readbuf (sw_cx w i) = [5, 1, r, 1, a, b, c, d, p1, p2]"
    and src: "se_socket_src env (sx_socket (sw_cx w i)) = Some (h, p)" "stoi p = Inr n"
  shows "process_in env i w
    = (upd_s i (\<lambda>_. ipv4_answerable (ipv4_target env a b c d (be16 p1 p2)) (be16 p1 p2) h n (sw_cx w i)) w, Inr 10)"
proof -
  let ?c = "(sw_cx w i)\<lparr>sx_req_error := NONE, sx_version := 5, sx_req_cmd := CONNECT\<rparr>"
  let ?w = "upd_s i (\<lambda>_. ?c) w"
  let ?a = "ipv4_answerable (ipv4_target env a b c d (be16 p1 p2)) (be16 p1 p2) h n (sw_cx w i)"
  have conv: "upd_s i (\<lambda>x. x\<lparr>sx_req_error := NONE, sx_version := 5, sx_req_cmd := CONNECT\<rparr>) w = ?w"
    by (simp add: upd_s_def)
  have h: "handle5_connect env i ?w = (upd_s i (\<lambda>_. ?a) w, Inr NONE)"
    using handle5_ipv4[OF buf, of ?w i r a b c d p1 p2 h p n] tcp req src by (simp add: upd_s_upd_s ipv4_answerable_def)
  have "request_body env i (upd_s i (\<lambda>c. c\<lparr>sx_req_error := NONE\<rparr>) w) = (upd_s i (\<lambda>_. ?a) w, Inr (Some NONE))"
    using req h[folded conv] by (simp add: request_body_def rbuf_bytes[OF buf] get_at_def Let_def upd_s_upd_s andthen_def CONNECT_def)
  moreover have "?a\<lparr>sx_req_error := NONE\<rparr> = ?a" "sx_readbuf ?a = sx_readbuf (sw_cx w i)"
    by (simp_all add: ipv4_answerable_def ready_def ipv4_asked_def)
  ultimately show ?thesis
    using st req by (simp add: process_in_def process_socks_request_def finish_request_def Let_def upd_s_upd_s)
qed

lemma reply_ipv4:
  assumes "sx_req_cmd c = CONNECT" "sx_req_atype c = ATYPE_IPV4" "sx_req_addr c = ipv4_target env a b e d p" "sx_req_port c = be16 p1 p2"
  shows "reply_v5 c = [5, if sx_verdict c = ACCEPT then 0 else 2, 0, 1, a, b, e, d, p1, p2]"
  using assms by (simp add: reply_v5_def as_v4_addr_def ipv4_target_def addr_octets_def port_octets_def socks_code_defs AF_INET_def AF_INET6_def)

section \<open>Properties\<close>

text \<open>C2: However input, polls, name server answers, verdicts and other connections are interleaved, a TCP client
  has been sent nothing but octets of the greeting [5, 0] while the policy has not decided; a connection that has answered,
  is handed off or is a zombie has a verdict; and a connection that waits for the policy has both targets
  prepared or is a UDP association.\<close>

theorem socks_waits_for_policy:
  assumes "socks_run env i (w, []) n (w', sent)" "fresh (sw_cx w i)"
  shows "(sx_verdict (sw_cx w' i) = PENDING \<longrightarrow> sent \<in> {[], [5], [5, 0]})
    \<and> (sx_state (sw_cx w' i) \<in> {REQRES_SENT, HANDOFF, ZOMBIE} \<longrightarrow> sx_verdict (sw_cx w' i) \<noteq> PENDING)
    \<and> (sx_state (sw_cx w' i) = WAIT_POLICY \<longrightarrow> prepared (sw_cx w' i) \<or> sx_req_cmd (sw_cx w' i) = UDP_ASSOCIATE)"
proof -
  have inv: "socks_inv (sw_cx w' i) sent" using run_inv[OF assms(1)] assms(2) by simp
  have "sent \<in> {[], [5], [5, 0]}" if "sent @ b \<in> {[], [5, 0]}" for b :: bytes
    using that by (cases sent; cases "tl sent") auto
  then show ?thesis using inv by (auto simp: socks_inv_def)
qed

text \<open>C8: A TCP connection starts at most two asynchronous name server queries in its life: one per address family.\<close>

theorem name_queries_bounded:
  assumes "socks_run env i (w, sent) n (w', sent')" "sx_l4 (sw_cx w i) \<noteq> SOCK_DGRAM"
  shows "n \<le> 2"
  using run_budget[OF assms(1)] assms(2) untested_le[of "sw_cx w i"]
  by (auto simp: query_budget_def split: if_splits)

text \<open>Once the names of both families have failed to resolve and versions may be mixed, the connection is
  stuck: it stays in the failed state, without a verdict and without a reply, whatever happens.\<close>

theorem failed_resolution_is_stuck:
  assumes "socks_run env i s n s'" "sx_state (sw_cx (fst s) i) = DNS_RESP_FAILED" "sx_verdict (sw_cx (fst s) i) = PENDING"
    and "sx_tested_a (sw_cx (fst s) i)" "sx_tested_aaaa (sw_cx (fst s) i)" "mixed_ip_versions env" "sx_writebuf (sw_cx (fst s) i) = []"
  shows "sx_state (sw_cx (fst s') i) = DNS_RESP_FAILED \<and> sx_verdict (sw_cx (fst s') i) = PENDING \<and> snd s' = snd s"
proof -
  define stuck where "stuck c \<longleftrightarrow> sx_state c = DNS_RESP_FAILED \<and> sx_verdict c = PENDING \<and> sx_tested_a c \<and> sx_tested_aaaa c
    \<and> sx_writebuf c = []" for c :: socks_cx
  have step: "stuck (sw_cx w' i) \<and> sent' = sent" if "socks_step env i (w, sent) (w', sent')" "stuck (sw_cx w i)" for w sent w' sent'
    using that(1)
  proof cases
    case (receive d)
    then show ?thesis using that(2) by (simp add: process_in_def stuck_def)
  next
    case poll
    then show ?thesis using that(2) assms(6) by (simp add: pre_write_def stuck_def Let_def)
  qed (use that(2) in \<open>simp_all add: stuck_def new_message_def\<close>)
  have "stuck (sw_cx (fst s') i) \<and> snd s' = snd s"
    using assms(1) assms(2-5,7)
  proof (induction rule: socks_run.induct)
    case (more s n w sent w' sent')
    then show ?case using step[OF more.hyps(2)] by simp
  qed (simp add: stuck_def)
  then show ?thesis by (simp add: stuck_def)
qed

text \<open>A connect request for an IPv4 address prepares exactly the requested target on both sides, with TLS
  inspection on the well-known TLS ports, and the reply to the client carries the policy's verdict and echoes
  the requested address and port octet for octet.\<close>

theorem connect_ipv4:
  assumes "env_buffers_ok (se_dns env)" "sx_state (sw_cx w i) = WAIT_REQUEST" "sx_l4 (sw_cx w i) \<noteq> SOCK_DGRAM"
    and "sx_readbuf (sw_cx w i) = [5, 1, r, 1, a, b, c, d, p1, p2]"
    and "se_socket_src env (sx_socket (sw_cx w i)) = Some (h, p)" "stoi p = Inr n" "v \<noteq> PENDING"
    and "host = ai_host (ipv4_target env a b c d (be16 p1 p2))"
  shows "\<exists>w' w''. process_in env i w = (w', Inr 10) \<and> sx_state (sw_cx w' i) = WAIT_POLICY
    \<and> sx_left (sw_cx w' i) = Some (left_target host (be16 p1 p2))
    \<and> sx_right (sw_cx w' i) = Some (right_target host (be16 p1 p2) h n)
    \<and> set_verdict i v w' = (w'', Inr 10) \<and> sx_state (sw_cx w'' i) = REQRES_SENT
    \<and> sx_writebuf (sw_cx w'' i) = sx_writebuf (sw_cx w i) @ [5, if v = ACCEPT then 0 else 2, 0, 1, a, b, c, d, p1, p2]"
proof -
  let ?t = "ipv4_target env a b c d (be16 p1 p2)"
  define c' where "c' = ipv4_answerable ?t (be16 p1 p2) h n (sw_cx w i)"
  have c': "sx_req_cmd c' = CONNECT" "sx_version c' = 5" "sx_req_atype c' = ATYPE_IPV4" "sx_req_addr c' = ?t" "sx_req_port c' = be16 p1 p2"
    "sx_writebuf c' = sx_writebuf (sw_cx w i)" "sx_state c' = WAIT_POLICY" "sx_left c' = Some (left_target (ai_host ?t) (be16 p1 p2))"
    "sx_right c' = Some (right_target (ai_host ?t) (be16 p1 p2) h n)"
    by (simp_all add: c'_def ipv4_answerable_def ready_def ipv4_asked_def)
  have r: "reply_v5 (c'\<lparr>sx_verdict := v, sx_state := st\<rparr>) = [5, if v = ACCEPT then 0 else 2, 0, 1, a, b, c, d, p1, p2]" for st
    using reply_ipv4[of "c'\<lparr>sx_verdict := v, sx_state := st\<rparr>" env a b c d "be16 p1 p2" p1 p2] c' by simp
  have v: "v = ACCEPT \<or> v = REJECT" using assms(7) by (cases v) auto
  have "\<exists>w''. set_verdict i v (upd_s i (\<lambda>_. c') w) = (w'', Inr 10) \<and> sx_state (sw_cx w'' i) = REQRES_SENT
    \<and> sx_writebuf (sw_cx w'' i) = sx_writebuf (sw_cx w i) @ [5, if v = ACCEPT then 0 else 2, 0, 1, a, b, c, d, p1, p2]"
    using v c' r by (simp add: set_verdict_def process_socks_reply_def process_socks_reply_v5_def Let_def upd_s_upd_s socks_code_defs)
  then show ?thesis
    using ipv4_request[OF assms(1-6), folded c'_def] c' assms(8) by auto
qed

lemma rbuf_mem:
  assumes "env_buffers_ok (se_dns env)" "off + n \<le> length (sx_readbuf (sw_cx w i))"
  shows "mem_range (sb_mem (rbuf env i w)) off n = take n (drop off (sx_readbuf (sw_cx w i)))"
  using assms by (intro nth_equalityI) (auto simp: mem_range_nth env_buffers_ok_def rbuf_def holds_def)

lemma parse_fqdn:
  assumes "env_buffers_ok (se_dns env)" "sx_l4 (sw_cx w i) \<noteq> SOCK_DGRAM" "length name < 256"
    and req: "sx_readbuf (sw_cx w i) = [5, 1, r, 3, of_nat (length name)] @ name @ [p1, p2]"
  shows "socks5_parse_request env i w = (upd_s i (\<lambda>c. c\<lparr>sx_req_atype := ATYPE_FQDN, sx_state := REQ_RECEIVED,
      sx_req_str_addr := chars name, sx_req_port := be16 p1 p2, sx_req_hdr_size := 5 + length name + 2\<rparr>) w, Inr NONE)"
proof -
  have n: "unat (of_nat (length name) :: byte) = length name" using assms(3) by (simp add: unsigned_of_nat take_bit_nat_eq_self)
  have nth: "(name @ [p1, p2]) ! length name = p1" "(name @ [p1, p2]) ! Suc (length name) = p2"
    by (simp_all add: nth_append)
  show ?thesis
    using assms(2) req
    by (simp add: socks5_parse_request_def read_fqdn_def authorize_if_udp_def rbuf_bytes[OF assms(1)] rbuf_mem[OF assms(1)]
        get_at_def socks_code_defs Let_def upd_s_upd_s n nth)
qed

text \<open>C33: The reply to a request by name is built in an array of 128 octets. The parser accepts names of up to 255
  octets, and a verdict on a request for a name of more than 121 octets writes past the end of the array.\<close>

theorem long_name_overruns_reply:
  assumes "env_buffers_ok (se_dns env)" "sx_l4 (sw_cx w i) \<noteq> SOCK_DGRAM" "length name < 256"
    and "sx_readbuf (sw_cx w i) = [5, 1, r, 3, of_nat (length name)] @ name @ [p1, p2]"
    and "sx_version (sw_cx w i) = 5" "sx_req_cmd (sw_cx w i) = CONNECT" "v \<noteq> PENDING"
  shows "\<exists>w'. socks5_parse_request env i w = (w', Inr NONE)
    \<and> (snd (set_verdict i v w') = Inl MemoryOverrun \<longleftrightarrow> 121 < length name)"
proof -
  have v: "v = ACCEPT \<or> v = REJECT" using assms(7) by (cases v) auto
  then show ?thesis using assms(5,6)
    by (auto simp: parse_fqdn[OF assms(1-4)] set_verdict_def process_socks_reply_def process_socks_reply_v5_def Let_def upd_s_upd_s
        socks_code_defs reply_v5_def port_octets_def chars_def)
qed

text \<open>A request for an IPv6 address is accepted, but it is answered as a request for the IPv4 address
  0.0.0.0: neither the type nor the address in the reply is the requested one.\<close>

theorem ipv6_answered_as_ipv4:
  assumes "read_address env i ATYPE_IPV6 w = (w', Inr e)" "sx_req_cmd (sw_cx w i) = CONNECT"
  shows "reply_v5 ((sw_cx w' i)\<lparr>sx_verdict := v\<rparr>)
    = [5, if v = ACCEPT then 0 else 2, 0, 1, 0, 0, 0, 0] @ port_octets (sx_req_port (sw_cx w' i))"
proof -
  have auth: "sx_req_addr (sw_cx (snd (authorize_if_udp i s p u)) i) = sx_req_addr (sw_cx u i)"
    "sx_req_atype (sw_cx (snd (authorize_if_udp i s p u)) i) = sx_req_atype (sw_cx u i)"
    "sx_req_cmd (sw_cx (snd (authorize_if_udp i s p u)) i) = sx_req_cmd (sw_cx u i)" for s p and u :: "('a, 'b) socks_world"
    by (auto simp: authorize_if_udp_def Let_def set_error_cx split: prod.splits option.splits)
  have "sx_req_atype (sw_cx w' i) = ATYPE_IPV4 \<and> ai_family (sx_req_addr (sw_cx w' i)) = AF_INET6 \<and> sx_req_cmd (sw_cx w' i) = CONNECT"
  proof -
    obtain a p q u s x where "authorize_if_udp i s p u = (x, w')" "sx_req_addr (sw_cx u i) = a" "ai_family a = AF_INET6"
      "sx_req_atype (sw_cx u i) = ATYPE_IPV4" "sx_req_cmd (sw_cx u i) = CONNECT"
      using assms(1,2) by (auto simp: read_address_def finish_address_def Let_def get_at_def socks_code_defs split: option.splits prod.splits)
    then show ?thesis using auth[of s p u] by simp
  qed
  then show ?thesis
    by (simp add: reply_v5_def as_v4_addr_def addr_octets_def socks_code_defs octet_def)
qed

section \<open>Concrete runs\<close>

definition no_address :: AddressInfo where
  "no_address = \<lparr>ai_family = AF_INET, ai_v4 = 0, ai_v6 = [], ai_port = 0, ai_host = []\<rparr>"

definition plain_socks_env :: "(string \<Rightarrow> dns_response option, string \<Rightarrow> (string \<Rightarrow> int option) option, string \<Rightarrow> int option) socks_env" where
  "plain_socks_env = \<lparr>se_dns = plain_dns_env 100, mixed_ip_versions = True, prefer_ipv6 = False, db_nameservers = [],
     default_ns = no_address, se_send_dns = (\<lambda>_ _ _. 9), se_resolve_dns = (\<lambda>_ _ _. None), se_unpack = (\<lambda>_. ''10.0.0.1''),
     se_socket_src = (\<lambda>_. Some (''192.0.2.7'', ''4000'')), se_random = (\<lambda>_. 0), se_flush = (\<lambda>b n. drop n b), se_mem_before = (\<lambda>_. CHR 0x00)\<rparr>"

definition plain_socks_cx :: socks_cx where
  "plain_socks_cx = \<lparr>sx_host = ''192.0.2.7'', sx_port = ''4000'', sx_l3 = AF_INET, sx_l4 = SOCK_STREAM, sx_socket = 5, sx_state = INIT,
     sx_verdict = PENDING, sx_req_error = NONE, sx_version = 0, sx_req_cmd = 0, sx_req_atype = 0, sx_req_addr = no_address,
     sx_req_str_addr = [], sx_req_port = 0, sx_req_hdr_size = 0, sx_dst_host = [], sx_dst_port = 0, sx_dst_resolved = False,
     sx_nonlocal_src = False, sx_is_ssl = False, sx_tested_a = False, sx_tested_aaaa = False, sx_async_dns = True,
     sx_left = None, sx_right = None, sx_udp = None, sx_readbuf = [], sx_writebuf = [], sx_error = False, sx_read_wait = False,
     sx_wait = False, sx_eagain = False, sx_dns_query = None, sx_events = []\<rparr>"

definition plain_socks_world :: "socks_cx \<Rightarrow> (string \<Rightarrow> dns_response option, string \<Rightarrow> (string \<Rightarrow> int option) option) socks_world" where
  "plain_socks_world c = \<lparr>sw_cx = (\<lambda>_. c), sw_clients = (\<lambda>_. None), sw_cache = (\<lambda>_. None), sw_domains = (\<lambda>_. None)\<rparr>"

lemma plain_tcp: "sx_l4 plain_socks_cx \<noteq> SOCK_DGRAM"
  by (simp add: plain_socks_cx_def SOCK_STREAM_def SOCK_DGRAM_def)

text \<open>A client is greeted.\<close>

definition greeted_world :: "(string \<Rightarrow> dns_response option, string \<Rightarrow> (string \<Rightarrow> int option) option) socks_world" where
  "greeted_world = fst (process_in plain_socks_env 0 (upd_s 0 (\<lambda>c. c\<lparr>sx_readbuf := [5, 1, 0]\<rparr>) (plain_socks_world plain_socks_cx)))"

lemma greeted_eval:
  "sx_state (sw_cx greeted_world 0) = WAIT_REQUEST" "sx_writebuf (sw_cx greeted_world 0) = [5, 0]" "sx_verdict (sw_cx greeted_world 0) = PENDING"
  by code_simp+

theorem socks_waits_for_policy_witness:
  "\<exists>w'. socks_run plain_socks_env 0 (plain_socks_world plain_socks_cx, []) 0 (w', [5, 0])
     \<and> sx_verdict (sw_cx w' 0) = PENDING \<and> [5, 0] \<in> {[], [5 :: byte], [5, 0]}"
proof -
  let ?s = "(plain_socks_world plain_socks_cx, [])"
  let ?w = "upd_s 0 (\<lambda>c. c\<lparr>sx_writebuf := drop 2 (sx_writebuf c)\<rparr>) greeted_world"
  have 1: "socks_run plain_socks_env 0 ?s (0 + queries (sw_cx (plain_socks_world plain_socks_cx) 0) (sw_cx greeted_world 0)) (greeted_world, [])"
    by (rule socks_run.more[OF socks_run.start], rule socks_step.receive[where d = "[5, 1, 0]"]) (simp add: greeted_world_def)
  from socks_run.more[OF this socks_step.flush[OF refl, where n = 2]]
  have r: "socks_run plain_socks_env 0 ?s 0 (?w, [5, 0])" using greeted_eval by (simp add: queries_def)
  have "fresh (sw_cx (plain_socks_world plain_socks_cx) 0)"
    using plain_tcp by (simp add: fresh_def plain_socks_world_def) (simp add: plain_socks_cx_def)
  from socks_waits_for_policy[OF r this] show ?thesis using r greeted_eval(3) by auto
qed

text \<open>Connections whose first, and whose last, name query has failed.\<close>

definition failed_world :: "bool \<Rightarrow> (string \<Rightarrow> dns_response option, string \<Rightarrow> (string \<Rightarrow> int option) option) socks_world" where
  "failed_world b = plain_socks_world (plain_socks_cx\<lparr>sx_state := DNS_RESP_FAILED, sx_tested_a := True, sx_tested_aaaa := b\<rparr>)"

lemma poll_run:
  "socks_run env 0 (w, []) (queries (sw_cx w 0) (sw_cx (pre_write env 0 w) 0)) (pre_write env 0 w, [])"
  using socks_run.more[OF socks_run.start socks_step.poll] by simp

theorem name_queries_bounded_witness:
  "socks_run plain_socks_env 0 (failed_world False, []) 1 (pre_write plain_socks_env 0 (failed_world False), []) \<and> (1 :: nat) \<le> 2"
proof -
  have "queries (sw_cx (failed_world False) 0) (sw_cx (pre_write plain_socks_env 0 (failed_world False)) 0) = 1" by code_simp
  then have "socks_run plain_socks_env 0 (failed_world False, []) 1 (pre_write plain_socks_env 0 (failed_world False), [])"
    using poll_run[of plain_socks_env "failed_world False"] by simp
  moreover from name_queries_bounded[OF this] have "(1 :: nat) \<le> 2" using plain_tcp by (simp add: failed_world_def plain_socks_world_def)
  ultimately show ?thesis by simp
qed

theorem failed_resolution_is_stuck_witness:
  "sx_state (sw_cx (pre_write plain_socks_env 0 (failed_world True)) 0) = DNS_RESP_FAILED"
proof -
  have "sx_state (sw_cx (failed_world True) 0) = DNS_RESP_FAILED" "sx_verdict (sw_cx (failed_world True) 0) = PENDING"
    "sx_tested_a (sw_cx (failed_world True) 0)" "sx_tested_aaaa (sw_cx (failed_world True) 0)" "mixed_ip_versions plain_socks_env"
    "sx_writebuf (sw_cx (failed_world True) 0) = []"
    by code_simp+
  then show ?thesis using failed_resolution_is_stuck[OF poll_run[of plain_socks_env "failed_world True"]] by simp
qed

theorem connect_ipv4_witness:
  "\<exists>w' w''. process_in plain_socks_env 0 (plain_socks_world (plain_socks_cx\<lparr>sx_state := WAIT_REQUEST, sx_readbuf := [5, 1, 0, 1, 10, 0, 0, 1, 1, 187]\<rparr>))
      = (w', Inr 10)
    \<and> set_verdict 0 ACCEPT w' = (w'', Inr 10) \<and> sx_writebuf (sw_cx w'' 0) = [5, 0, 0, 1, 10, 0, 0, 1, 1, 187]"
proof -
  let ?w = "plain_socks_world (plain_socks_cx\<lparr>sx_state := WAIT_REQUEST, sx_readbuf := [5, 1, 0, 1, 10, 0, 0, 1, 1, 187]\<rparr>)"
  have "env_buffers_ok (se_dns plain_socks_env)" "stoi ''4000'' = Inr 4000" "sx_l4 plain_socks_cx \<noteq> SOCK_DGRAM"
    by (simp add: plain_socks_env_def, code_simp+)
  then show ?thesis
    using connect_ipv4[of plain_socks_env ?w 0 0 10 0 0 1 1 187 "''192.0.2.7''" "''4000''" 4000 ACCEPT]
    by (auto simp: plain_socks_world_def plain_socks_env_def) (auto simp: plain_socks_cx_def)
qed

theorem long_name_overruns_reply_witness:
  "\<exists>w'. socks5_parse_request plain_socks_env 0 (plain_socks_world (plain_socks_cx\<lparr>sx_version := 5, sx_req_cmd := CONNECT,
        sx_readbuf := [5, 1, 0, 3, 122] @ replicate 122 120 @ [1, 187]\<rparr>)) = (w', Inr NONE)
    \<and> snd (set_verdict 0 ACCEPT w') = Inl MemoryOverrun"
proof -
  let ?c = "plain_socks_cx\<lparr>sx_version := 5, sx_req_cmd := CONNECT, sx_readbuf := [5, 1, 0, 3, 122] @ replicate 122 120 @ [1, 187]\<rparr>"
  have "env_buffers_ok (se_dns plain_socks_env)" by (simp add: plain_socks_env_def)
  moreover have "sx_l4 (sw_cx (plain_socks_world ?c) 0) \<noteq> SOCK_DGRAM"
    by (simp add: plain_socks_world_def plain_socks_cx_def SOCK_STREAM_def SOCK_DGRAM_def)
  ultimately show ?thesis
    using long_name_overruns_reply[of plain_socks_env "plain_socks_world ?c" 0 "replicate 122 120" 0 1 187 ACCEPT]
    by (simp add: plain_socks_world_def)
qed

theorem ipv6_answered_as_ipv4_witness:
  "\<exists>w' e. read_address plain_socks_env 0 ATYPE_IPV6 (plain_socks_world (plain_socks_cx\<lparr>sx_req_cmd := CONNECT,
        sx_readbuf := [5, 1, 0, 4, 32, 1, 13, 184, 0, 0, 0, 0, 0, 0, 0, 0, 0, 0, 0, 1, 0, 80]\<rparr>)) = (w', Inr e)
    \<and> reply_v5 ((sw_cx w' 0)\<lparr>sx_verdict := ACCEPT\<rparr>) = [5, 0, 0, 1, 0, 0, 0, 0] @ port_octets (sx_req_port (sw_cx w' 0))"
proof -
  let ?w = "plain_socks_world (plain_socks_cx\<lparr>sx_req_cmd := CONNECT,
        sx_readbuf := [5, 1, 0, 4, 32, 1, 13, 184, 0, 0, 0, 0, 0, 0, 0, 0, 0, 0, 0, 1, 0, 80]\<rparr>)"
  have ok: "is_ok (snd (read_address plain_socks_env 0 ATYPE_IPV6 ?w))" by code_simp
  obtain w' e where r: "read_address plain_socks_env 0 ATYPE_IPV6 ?w = (w', Inr e)"
    using ok by (cases "read_address plain_socks_env 0 ATYPE_IPV6 ?w") (auto simp: is_ok_iff)
  moreover have "sx_req_cmd (sw_cx ?w 0) = CONNECT" by (simp add: plain_socks_world_def)
  ultimately show ?thesis using ipv6_answered_as_ipv4[OF r, of ACCEPT] by auto
qed

end
