(* ===== verification/PolicyApply.thy ===== *)
theory PolicyApply
  imports Conn
begin

text \<open>
  Applying a policy and its profiles to a connection and its proxy
  (\<open>src/src/service/cfgapi/cfgapi.cpp\<close>, \<open>prof_content_apply\<close> to \<open>policy_apply\<close> and
  \<open>policy_apply_tls\<close>; \<open>MitmProxy::toggle_tlog\<close> of \<open>src/src/proxy/mitmproxy.cpp\<close>).

  Null pointers are \<open>None\<close>; the arguments of log messages are not modelled. The settings of the
  capture section, the DNS sub-domain cache and the splitting of its keys are arguments, as is
  whether the build has Python support.
\<close>

section \<open>Model\<close>

record capture_cfg =
  cl_enabled :: bool
  cl_format :: write_format
  cl_file_suffix :: string
  cl_disabled_file :: bool
  cr_enabled :: bool
  cr_tun_dst :: string
  cr_tun_ttl :: int

record apply_env =
  ap_policy :: policy_env
  ap_socle :: socle_env
  ap_capture :: capture_cfg
  ap_default_write_payload :: "bool option"
  ap_domain_cache :: "string \<Rightarrow> string list option"
  ap_split_colon :: "string \<Rightarrow> string list"
  ap_use_python :: bool
  ap_python_prefilter :: "conn \<Rightarrow> bool"

abbreviation ap_addr :: "apply_env \<Rightarrow> addr_env" where
  "ap_addr env \<equiv> pe_addr (ap_policy env)"

subsection \<open>Traffic logs\<close>

definition gre_export_apply :: "apply_env \<Rightarrow> access_error + (int \<times> string \<times> int option) option" where
  "gre_export_apply env =
     (let cap = ap_capture env in
      if cr_enabled cap then
        if cr_tun_dst cap \<noteq> [] then
          let c = ae_from_str (ap_addr env) (cr_tun_dst cap); ip = ae_to_str (ap_addr env) c in
          (case c of None \<Rightarrow> Inl NullDeref
           | Some k \<Rightarrow> Inr (Some (c_proto k, ip, if cr_tun_ttl cap > 0 then Some (cr_tun_ttl cap) else None)))
        else Inr None
      else Inr None)"

definition new_tlog :: "apply_env \<Rightarrow> access_error + traffic_log" where
  "new_tlog env =
     (let fmt = cl_format (ap_capture env);
          suf = format_to_ext_suffix fmt (cl_file_suffix (ap_capture env))
      in case fmt of
        SMCAP \<Rightarrow> Inr \<lparr>tl_format = fmt, tl_suffix = suf, tl_ttl = None, tl_single_only = False,
                   tl_gre = None, tl_status = True, tl_out = []\<rparr>
      | PCAP \<Rightarrow> result_bind (gre_export_apply env) (\<lambda>g.
          Inr \<lparr>tl_format = fmt, tl_suffix = suf, tl_ttl = Some 32, tl_single_only = False,
               tl_gre = g, tl_status = True, tl_out = []\<rparr>)
      | PCAP_SINGLE \<Rightarrow> result_bind (gre_export_apply env) (\<lambda>g.
          Inr \<lparr>tl_format = fmt, tl_suffix = suf, tl_ttl = Some 32, tl_single_only = True,
               tl_gre = g, tl_status = True, tl_out = []\<rparr>))"

definition toggle_tlog :: "apply_env \<Rightarrow> mitm_proxy \<Rightarrow> access_error + mitm_proxy" where
  "toggle_tlog env p =
     (if \<not> px_write_payload p then Inr p
      else if \<not> cl_enabled (ap_capture env) \<and> \<not> cr_enabled (ap_capture env) then Inr p
      else
        result_bind (case px_tlog p of None \<Rightarrow> new_tlog env | Some t \<Rightarrow> Inr t) (\<lambda>t.
          Inr (p\<lparr>px_tlog := Some (t\<lparr>tl_status := \<not> cl_disabled_file (ap_capture env)\<rparr>)\<rparr>)))"

definition tlog_write :: "char \<Rightarrow> bytes \<Rightarrow> mitm_proxy \<Rightarrow> mitm_proxy" where
  "tlog_write side txt p = p\<lparr>px_tlog := map_option (\<lambda>t. t\<lparr>tl_out := tl_out t @ [(side, txt)]\<rparr>) (px_tlog p)\<rparr>"

subsection \<open>Content, detection\<close>

definition prof_content_apply :: "apply_env \<Rightarrow> mitm_proxy option \<Rightarrow> ProfileContent option \<Rightarrow> access_error + (bool \<times> mitm_proxy option)" where
  "prof_content_apply env new_proxy pc = (case new_proxy of
     None \<Rightarrow> Inr (False, None)
   | Some p \<Rightarrow>
       let p = (case pc of
                  Some pc \<Rightarrow>
                    let p = p\<lparr>px_write_payload := cont_write_payload pc\<rparr>
                    in if cont_rules pc \<noteq> [] then p\<lparr>px_content_rule := Some (cont_rules pc)\<rparr> else p
                | None \<Rightarrow> (case ap_default_write_payload env of
                    Some cfg_wrt \<Rightarrow> p\<lparr>px_write_payload := cfg_wrt\<rparr> | None \<Rightarrow> p))
       in if px_write_payload p
          then result_bind (toggle_tlog env p) (\<lambda>p.
                 Inr (True, Some (tlog_write CHR ''L'' (map ord (''Connection start'' @ [CHR 0x0A])) p)))
          else Inr (True, Some p))"

definition prof_detect_apply :: "nat option \<Rightarrow> ProfileDetection option \<Rightarrow> hstore \<Rightarrow> bool \<times> hstore" where
  "prof_detect_apply originator pd st = (case Option.bind originator (as_mitm st) of
     None \<Rightarrow> (False, st)
   | Some o' \<Rightarrow>
       let st = upd_cx o' (\<lambda>c. c\<lparr>h_mode := 0\<rparr>) st
       in (True, case pd of
             None \<Rightarrow> st
           | Some pd \<Rightarrow> upd_cx o' (\<lambda>c. c\<lparr>h_mode := det_mode pd,
               opt_engines_enabled := det_engines_enabled pd, opt_kb_enabled := det_kb_enabled pd\<rparr>) st))"

subsection \<open>TLS\<close>

definition should_redirect :: "ProfileTls \<Rightarrow> nat \<Rightarrow> hstore \<Rightarrow> bool" where
  "should_redirect pt com st = (case com_owner (st_com st com) of
     None \<Rightarrow> False
   | Some i \<Rightarrow>
       if h_port (st_cx st i) = [] then False
       else (case stoi (h_port (st_cx st i)) of
          Inl _ \<Rightarrow> False
        | Inr num_port \<Rightarrow> (case tls_redirect_warning_ports pt of
            Some ports \<Rightarrow> num_port \<in> set ports
          | None \<Rightarrow> num_port = 443)))"

definition set_failed_check :: "ProfileTls \<Rightarrow> ssl_cert_opt \<Rightarrow> ssl_cert_opt" where
  "set_failed_check pt o' = o'\<lparr>
     failed_check_replacement := tls_failed_certcheck_replacement pt,
     failed_check_override := tls_failed_certcheck_override pt,
     failed_check_override_timeout := tls_failed_certcheck_override_timeout pt,
     failed_check_override_timeout_type := tls_failed_certcheck_override_timeout_type pt,
     mitm_cert_sni_search := tls_mitm_cert_sni_search pt,
     mitm_cert_ip_search := tls_mitm_cert_ip_search pt\<rparr>"

definition set_verify :: "socle_env \<Rightarrow> ProfileTls \<Rightarrow> ssl_com \<Rightarrow> ssl_com" where
  "set_verify se pt s =
     (let s = s\<lparr>opt_bypass := \<not> tls_inspect pt\<rparr>;
          s = (if opt_bypass s then se_verify_reset se (VRF_OK se) s else s)
      in s\<lparr>opt_cert := set_failed_check pt ((opt_cert s)\<lparr>
             allow_unknown_issuer := tls_allow_untrusted_issuers pt,
             allow_self_signed_chain := tls_allow_untrusted_issuers pt,
             allow_not_valid := tls_allow_invalid_certs pt,
             allow_self_signed := tls_allow_self_signed pt\<rparr>)\<rparr>)"

definition set_session :: "ProfileTls \<Rightarrow> ssl_com \<Rightarrow> ssl_com" where
  "set_session pt s =
     (let s = s\<lparr>left_kex_dh := tls_use_pfs pt, right_kex_dh := tls_use_pfs pt\<rparr>;
          s = s\<lparr>left_kex_dh := tls_left_use_pfs pt, right_kex_dh := tls_right_use_pfs pt,
                left_no_tickets := tls_left_disable_reuse pt, right_no_tickets := tls_right_disable_reuse pt,
                ocsp_mode := tls_ocsp_mode pt, ocsp_stapling_enabled := tls_ocsp_stapling pt,
                ocsp_stapling_mode := tls_ocsp_stapling_mode pt, ct_enable := tls_ct_enable pt,
                alpn_block := tls_alpn_block pt\<rparr>;
          s = (case tls_sni_filter_bypass pt of
                 Some f \<Rightarrow> if f \<noteq> [] then s\<lparr>sni_filter_to_bypass := Some f\<rparr> else s | None \<Rightarrow> s)
      in s\<lparr>sslkeylog := tls_sslkeylog pt\<rparr>)"

definition policy_apply_tls :: "apply_env \<Rightarrow> ProfileTls option \<Rightarrow> nat option \<Rightarrow> hstore \<Rightarrow> bool \<times> hstore" where
  "policy_apply_tls env pt xcom st = (case (pt, xcom) of
     (Some pt, Some k) \<Rightarrow> (case com_ssl (st_com st k) of
        None \<Rightarrow> (True, st)
      | Some _ \<Rightarrow>
          let st = upd_ssl k (set_verify (ap_socle env) pt) st;
              st = (case com_peer (st_com st k) of
                      None \<Rightarrow> st
                    | Some j \<Rightarrow>
                        if com_ssl (st_com st j) \<noteq> None \<and> tls_failed_certcheck_replacement pt \<and> should_redirect pt j st
                        then upd_ssl j (\<lambda>s. s\<lparr>opt_cert := set_failed_check pt (opt_cert s)\<rparr>) st
                        else st)
          in (True, upd_ssl k (set_session pt) st))
   | _ \<Rightarrow> (False, st))"

definition find_bypass_domain_hosts :: "apply_env \<Rightarrow> string \<Rightarrow> bool \<Rightarrow> string list option" where
  "find_bypass_domain_hosts env filter_element wildcards_only =
     (let wildcard_planted = (take 2 filter_element = ''*.'');
          wildcard_element = (if wildcard_planted then drop 2 filter_element else filter_element)
      in if \<not> wildcard_planted \<and> wildcards_only then None
         else
           let to_match = (case ap_domain_cache env wildcard_element of
                 None \<Rightarrow> []
               | Some cache \<Rightarrow>
                   [(ap_split_colon env sub ! 1) @ ''.'' @ wildcard_element.
                      sub \<leftarrow> cache, length (ap_split_colon env sub) \<ge> 2])
           in if to_match = [] then None else Some to_match)"

fun bypass_hosts :: "apply_env \<Rightarrow> cidr option \<Rightarrow> nat \<Rightarrow> string list \<Rightarrow> hstore \<Rightarrow> access_error + (bool \<times> hstore)" where
  "bypass_hosts env target k [] st = Inr (False, st)"
| "bypass_hosts env target k (h # hs) st =
     result_bind (fqdn_address_match (ap_addr env) h target) (\<lambda>m.
       if m then Inr (True, snd (se_bypass_me_and_peer (ap_socle env) k st))
       else bypass_hosts env target k hs st)"

fun bypass_filters :: "apply_env \<Rightarrow> ProfileTls \<Rightarrow> nat \<Rightarrow> string list \<Rightarrow> bool \<Rightarrow> hstore \<Rightarrow> access_error + (bool \<times> hstore)" where
  "bypass_filters env ps k [] interrupt st = Inr (interrupt, st)"
| "bypass_filters env ps k (f # fs) interrupt st = (case com_owner (st_com st k) of
     None \<Rightarrow> Inl NullDeref
   | Some cx \<Rightarrow>
       let target = ae_from_str (ap_addr env) (h_host (st_cx st cx)) in
       result_bind (fqdn_address_match (ap_addr env) f target) (\<lambda>m.
         if m then
           (case se_bypass_me_and_peer (ap_socle env) k st of (ok, st') \<Rightarrow>
              if ok then Inr (True, st') else bypass_filters env ps k fs interrupt st')
         else if tls_sni_filter_use_dns_domain_tree ps then
           (case find_bypass_domain_hosts env f True of
              None \<Rightarrow> bypass_filters env ps k fs interrupt st
            | Some to_match \<Rightarrow> result_bind (bypass_hosts env target k to_match st) (\<lambda>(i, st').
                bypass_filters env ps k fs (interrupt \<or> i) st'))
         else bypass_filters env ps k fs interrupt st))"

fun tls_targets :: "apply_env \<Rightarrow> ProfileTls \<Rightarrow> nat list \<Rightarrow> bool \<Rightarrow> hstore \<Rightarrow> access_error + (bool \<times> hstore)" where
  "tls_targets env ps [] tls_applied st = Inr (tls_applied, st)"
| "tls_targets env ps (i # is) tls_applied st = (case h_com (st_cx st i) of
     None \<Rightarrow> Inr (False, st)
   | Some k \<Rightarrow> (case policy_apply_tls env (Some ps) (Some k) st of (tls_applied, st) \<Rightarrow>
       if \<not> tls_applied then Inr (False, st)
       else if com_ssl (st_com st k) \<noteq> None \<and> tls_sni_filter_bypass ps \<notin> {None, Some []} \<and> tls_sni_filter_use_dns_cache ps
       then result_bind (bypass_filters env ps k (tls_sni_filter_bypass_addrobj ps) False st) (\<lambda>(interrupt, st).
              if interrupt then Inr (tls_applied, st) else tls_targets env ps is tls_applied st)
       else tls_targets env ps is tls_applied st))"

definition prof_tls_apply :: "apply_env \<Rightarrow> nat option \<Rightarrow> mitm_proxy \<Rightarrow> ProfileTls option \<Rightarrow> hstore \<Rightarrow> access_error + (bool \<times> hstore)" where
  "prof_tls_apply env originator p ps st = (case ps of
     None \<Rightarrow> Inr (False, st)
   | Some ps \<Rightarrow> (case originator of
       None \<Rightarrow> Inr (False, st)
     | Some o' \<Rightarrow> (case policy_apply_tls env (Some ps) (h_com (st_cx st o')) st of (ok, st) \<Rightarrow>
         if \<not> ok then Inr (False, st)
         else tls_targets env ps (px_rs p) False st)))"

subsection \<open>DNS, scripts, features\<close>

definition dns_prefilter :: "hstore \<Rightarrow> nat \<Rightarrow> access_error + bool" where
  "dns_prefilter st cx = (case h_com (st_cx st cx) of
     None \<Rightarrow> Inl NullDeref | Some k \<Rightarrow> Inr (nonlocal_dst_port (st_com st k) = 53))"

definition prof_alg_dns_apply :: "nat option \<Rightarrow> ProfileAlgDns option \<Rightarrow> hstore \<Rightarrow> access_error + (bool \<times> hstore)" where
  "prof_alg_dns_apply originator p_alg_dns st = (case Option.bind originator (as_mitm st) of
     None \<Rightarrow> Inr (False, st)
   | Some mh \<Rightarrow> (case p_alg_dns of
       None \<Rightarrow> Inr (False, st)
     | Some a \<Rightarrow> result_bind (dns_prefilter st mh) (\<lambda>interested.
         if interested
         then Inr (True, upd_cx mh (\<lambda>c. c\<lparr>h_inspectors := h_inspectors c @
                [DNS_Inspector (alg_match_request_id a) (alg_randomize_id a) (alg_cached_responses a)]\<rparr>) st)
         else Inr (False, st))))"

definition prof_script_apply :: "apply_env \<Rightarrow> nat option \<Rightarrow> ProfileScript option \<Rightarrow> hstore \<Rightarrow> bool \<times> hstore" where
  "prof_script_apply env originator p_script st = (case Option.bind originator (as_mitm st) of
     None \<Rightarrow> (False, st)
   | Some mh \<Rightarrow> (case p_script of
       None \<Rightarrow> (False, st)
     | Some s \<Rightarrow>
         if scr_type s = 0 \<and> ap_use_python env \<and> ap_python_prefilter env (st_cx st mh)
         then (True, upd_cx mh (\<lambda>c. c\<lparr>h_inspectors := h_inspectors c @ [PythonInspector]\<rparr>) st)
         else (False, st)))"

fun pick_filter :: "string list \<Rightarrow> SinkholeFilter option \<Rightarrow> SinkholeFilter option" where
  "pick_filter [] f = f"
| "pick_filter (it # its) f =
     (let f = (if it = ''sink-left'' \<and> f = None then Some \<lparr>sink_left = True, sink_right = False, sink_replacement = []\<rparr> else f);
          f = (if it = ''sink-right'' \<and> f = None then Some \<lparr>sink_left = False, sink_right = True, sink_replacement = []\<rparr> else f);
          f = (if it = ''sink-all'' \<and> f = None then Some \<lparr>sink_left = True, sink_right = True, sink_replacement = []\<rparr> else f)
      in pick_filter its f)"

definition policy_apply_features :: "policy_rule option \<Rightarrow> mitm_proxy \<Rightarrow> mitm_proxy" where
  "policy_apply_features rule p = (case rule of
     None \<Rightarrow> p
   | Some r \<Rightarrow>
       if rule_features r \<noteq> [] then
         (case pick_filter (rule_features r) None of None \<Rightarrow> p | Some f \<Rightarrow> p\<lparr>px_filters := px_filters p @ [f]\<rparr>)
       else p)"

subsection \<open>The policy\<close>

definition apply_content :: "apply_env \<Rightarrow> policy_rule list \<Rightarrow> int \<Rightarrow> mitm_proxy \<Rightarrow> access_error + mitm_proxy" where
  "apply_content env rules policy_num p = (case policy_prof_content rules policy_num of
     None \<Rightarrow> Inr p
   | Some pc \<Rightarrow> result_bind (prof_content_apply env (Some p) (Some pc)) (\<lambda>(_, p').
       Inr (case p' of None \<Rightarrow> p | Some p' \<Rightarrow> p')))"

definition apply_profiles :: "apply_env \<Rightarrow> nat option \<Rightarrow> policy_rule list \<Rightarrow> int \<Rightarrow> mitm_proxy \<Rightarrow> hstore \<Rightarrow> access_error + (hstore \<times> mitm_proxy)" where
  "apply_profiles env originator rules policy_num p st =
     result_bind (apply_content env rules policy_num p) (\<lambda>p.
     result_bind (Inr (case policy_prof_detection rules policy_num of
                    None \<Rightarrow> st | Some pd \<Rightarrow> snd (prof_detect_apply originator (Some pd) st))) (\<lambda>st.
     result_bind (case policy_prof_tls rules policy_num of
                    None \<Rightarrow> Inr st
                  | Some pt \<Rightarrow> result_bind (prof_tls_apply env originator p (Some pt) st) (\<lambda>(_, st). Inr st)) (\<lambda>st.
     result_bind (case policy_prof_alg_dns rules policy_num of
                    None \<Rightarrow> Inr st
                  | Some a \<Rightarrow> result_bind (prof_alg_dns_apply originator (Some a) st) (\<lambda>(_, st). Inr st)) (\<lambda>st.
     Inr (st, case policy_prof_auth rules policy_num of
                None \<Rightarrow> p
              | Some pa \<Rightarrow> policy_apply_features (policy_rule_at rules policy_num)
                  (p\<lparr>opt_auth_authenticate := auth_authenticate (pa_flags pa),
                     opt_auth_resolve := auth_resolve (pa_flags pa)\<rparr>))))))"

definition policy_apply :: "apply_env \<Rightarrow> nat option \<Rightarrow> int \<Rightarrow> policy_rule list \<Rightarrow> mitm_proxy \<Rightarrow> hstore \<Rightarrow>
    access_error + (int \<times> policy_rule list \<times> hstore \<times> mitm_proxy)" where
  "policy_apply env originator matched_policy rules p st =
     result_bind (if matched_policy < 1
                  then policy_match (ap_policy env) rules (Some (view_proxy st p))
                  else Inr (matched_policy, rules)) (\<lambda>(policy_num, rules).
       if policy_action rules policy_num = POLICY_ACTION_PASS
       then result_bind (apply_profiles env originator rules policy_num p st) (\<lambda>(st, p).
              Inr (policy_num, rules, st, p))
       else Inr (policy_num, rules, st, p))"

section \<open>TLS profiles\<close>

lemma set_failed_check_sel [simp]:
  "allow_unknown_issuer (set_failed_check pt c) = allow_unknown_issuer c"
  "allow_self_signed_chain (set_failed_check pt c) = allow_self_signed_chain c"
  "allow_not_valid (set_failed_check pt c) = allow_not_valid c"
  "allow_self_signed (set_failed_check pt c) = allow_self_signed c"
  "client_cert_action (set_failed_check pt c) = client_cert_action c"
  "failed_check_replacement (set_failed_check pt c) = tls_failed_certcheck_replacement pt"
  "failed_check_override (set_failed_check pt c) = tls_failed_certcheck_override pt"
  "set_failed_check pt (set_failed_check pt c) = set_failed_check pt c"
  by (simp_all add: set_failed_check_def)

lemma set_session_sel [simp]:
  "opt_bypass (set_session pt s) = opt_bypass s" "opt_cert (set_session pt s) = opt_cert s"
  "verify_get (set_session pt s) = verify_get s"
  "left_kex_dh (set_session pt s) = tls_left_use_pfs pt" "right_kex_dh (set_session pt s) = tls_right_use_pfs pt"
  "left_no_tickets (set_session pt s) = tls_left_disable_reuse pt"
  "right_no_tickets (set_session pt s) = tls_right_disable_reuse pt"
  "ocsp_mode (set_session pt s) = tls_ocsp_mode pt"
  "alpn_block (set_session pt s) = tls_alpn_block pt"
  "sslkeylog (set_session pt s) = tls_sslkeylog pt"
  by (simp_all add: set_session_def Let_def split: option.splits)

lemma set_verify_cert:
  "allow_unknown_issuer (opt_cert (set_verify se pt s)) = tls_allow_untrusted_issuers pt"
  "allow_self_signed_chain (opt_cert (set_verify se pt s)) = tls_allow_untrusted_issuers pt"
  "allow_not_valid (opt_cert (set_verify se pt s)) = tls_allow_invalid_certs pt"
  "allow_self_signed (opt_cert (set_verify se pt s)) = tls_allow_self_signed pt"
  "set_failed_check pt (opt_cert (set_verify se pt s)) = opt_cert (set_verify se pt s)"
  by (simp_all add: set_verify_def Let_def)

text \<open>The certificate handling a profile asks for.\<close>

definition tls_options_of :: "ProfileTls \<Rightarrow> ssl_com \<Rightarrow> bool" where
  "tls_options_of pt s \<longleftrightarrow>
     opt_bypass s = (\<not> tls_inspect pt)
   \<and> allow_unknown_issuer (opt_cert s) = tls_allow_untrusted_issuers pt
   \<and> allow_self_signed_chain (opt_cert s) = tls_allow_untrusted_issuers pt
   \<and> allow_not_valid (opt_cert s) = tls_allow_invalid_certs pt
   \<and> allow_self_signed (opt_cert s) = tls_allow_self_signed pt
   \<and> set_failed_check pt (opt_cert s) = opt_cert s
   \<and> left_kex_dh s = tls_left_use_pfs pt \<and> right_kex_dh s = tls_right_use_pfs pt
   \<and> left_no_tickets s = tls_left_disable_reuse pt \<and> right_no_tickets s = tls_right_disable_reuse pt
   \<and> ocsp_mode s = tls_ocsp_mode pt \<and> alpn_block s = tls_alpn_block pt \<and> sslkeylog s = tls_sslkeylog pt"

lemma tls_options_of_set:
  assumes "\<And>c s. opt_bypass (se_verify_reset se c s) = opt_bypass s"
  shows "tls_options_of pt (set_session pt (set_verify se pt s))"
    "tls_options_of pt (set_session pt ((set_verify se pt s)\<lparr>opt_cert := set_failed_check pt (opt_cert (set_verify se pt s))\<rparr>))"
proof -
  have "opt_bypass (set_verify se pt s) = (\<not> tls_inspect pt)"
    using assms by (simp add: set_verify_def Let_def)
  then show "tls_options_of pt (set_session pt (set_verify se pt s))"
    "tls_options_of pt (set_session pt ((set_verify se pt s)\<lparr>opt_cert := set_failed_check pt (opt_cert (set_verify se pt s))\<rparr>))"
    by (simp_all add: tls_options_of_def set_verify_cert)
qed

lemma should_redirect_upd_ssl [simp]: "should_redirect pt j (upd_ssl k f st) = should_redirect pt j st"
  by (auto simp: should_redirect_def split: option.split)

lemma com_ssl_None [simp]: "com_ssl c = None \<Longrightarrow> c\<lparr>com_ssl := None\<rparr> = c"
  by (cases c) simp

lemma upd_ssl_at:
  "st_com (upd_ssl k f st) j = (if j = k then (st_com st k)\<lparr>com_ssl := map_option f (com_ssl (st_com st k))\<rparr> else st_com st j)"
  by (simp add: upd_ssl_def)

text \<open>Applying a TLS profile to a TLS transport always succeeds and gives that transport exactly
  the options of the profile. Another transport changes only if it is the TLS peer, the profile
  wants failed certificate checks replaced and the port of the peer's connection is one that may
  be redirected; then it receives the failed-check options and nothing else. The general
  \<open>use_pfs\<close> switch does not appear: the side-specific switches always overwrite it.\<close>

theorem tls_profile_applied:
  assumes reset: "\<And>c s. opt_bypass (se_verify_reset (ap_socle env) c s) = opt_bypass s"
    and k: "com_ssl (st_com st k) = Some s"
    and r: "policy_apply_tls env (Some pt) (Some k) st = (ok, st')"
  shows "ok \<and> st_cx st' = st_cx st
    \<and> (\<exists>s'. com_ssl (st_com st' k) = Some s' \<and> tls_options_of pt s')
    \<and> (\<forall>j. j \<noteq> k \<longrightarrow>
         st_com st' j = (if com_peer (st_com st k) = Some j \<and> tls_failed_certcheck_replacement pt \<and> should_redirect pt j st
                         then (st_com st j)\<lparr>com_ssl := map_option (\<lambda>s. s\<lparr>opt_cert := set_failed_check pt (opt_cert s)\<rparr>) (com_ssl (st_com st j))\<rparr>
                         else st_com st j))"
proof -
  have opts: "\<exists>s'. com_ssl (st_com st' k) = Some s' \<and> tls_options_of pt s'"
    using r k tls_options_of_set[OF reset] unfolding policy_apply_tls_def
    by (cases "com_peer (st_com st k)") (auto simp: Let_def split: if_splits)
  moreover have "st_com st' j = (if com_peer (st_com st k) = Some j \<and> tls_failed_certcheck_replacement pt \<and> should_redirect pt j st
       then (st_com st j)\<lparr>com_ssl := map_option (\<lambda>s. s\<lparr>opt_cert := set_failed_check pt (opt_cert s)\<rparr>) (com_ssl (st_com st j))\<rparr>
       else st_com st j)" if "j \<noteq> k" for j
    using r k that unfolding policy_apply_tls_def
    by (cases "com_peer (st_com st k)") (auto simp: Let_def upd_ssl_at split: if_splits)
  moreover have "ok \<and> st_cx st' = st_cx st"
    using r k unfolding policy_apply_tls_def
    by (cases "com_peer (st_com st k)") (auto simp: Let_def split: if_splits)
  ultimately show ?thesis by blast
qed

section \<open>Bypass lists\<close>

text \<open>An address is on the bypass list when the DNS cache ties it to one of the names, or, with the
  domain tree, to a cached sub-domain of a wildcard name.\<close>

definition on_bypass_list :: "apply_env \<Rightarrow> ProfileTls \<Rightarrow> string list \<Rightarrow> cidr option \<Rightarrow> bool" where
  "on_bypass_list env ps fs target \<longleftrightarrow>
     (\<exists>f\<in>set fs. fqdn_address_match (ap_addr env) f target = Inr True
        \<or> (tls_sni_filter_use_dns_domain_tree ps
           \<and> (\<exists>hs. find_bypass_domain_hosts env f True = Some hs
                \<and> (\<exists>h\<in>set hs. fqdn_address_match (ap_addr env) h target = Inr True))))"

lemma fqdn_match_total:
  "target \<noteq> None \<Longrightarrow> \<exists>b. fqdn_address_match env h target = Inr b"
  by (auto simp: fqdn_address_match_def split: option.splits)

lemma bypass_hosts_iff:
  "bypass_hosts env target k hs st = Inr (i, st') \<Longrightarrow>
     i = (\<exists>h\<in>set hs. fqdn_address_match (ap_addr env) h target = Inr True) \<and> (\<not> i \<longrightarrow> st' = st)"
  by (induction hs) (auto simp: result_bind_Inr_iff split: if_splits)

lemma bypass_filters_interrupt:
  "bypass_filters env ps k fs True st = Inr (i, st') \<Longrightarrow> i"
  by (induction env ps k fs True st rule: bypass_filters.induct)
     (fastforce simp: Let_def result_bind_Inr_iff split: option.splits if_splits prod.splits)+

lemma bypass_filters_correct:
  assumes "com_owner (st_com st k) = Some cx"
    and "target = ae_from_str (ap_addr env) (h_host (st_cx st cx))"
    and "\<And>k st. fst (se_bypass_me_and_peer (ap_socle env) k st)"
  shows "bypass_filters env ps k fs False st = Inr (i, st') \<Longrightarrow>
     i = on_bypass_list env ps fs target \<and> (\<not> i \<longrightarrow> st' = st)"
proof (induction fs)
  case Nil
  then show ?case by (simp add: on_bypass_list_def)
next
  case (Cons f fs)
  let ?m = "\<lambda>n. fqdn_address_match (ap_addr env) n target"
  have step: "on_bypass_list env ps (f # fs) target \<longleftrightarrow> ?m f = Inr True
      \<or> (tls_sni_filter_use_dns_domain_tree ps \<and> (\<exists>hs. find_bypass_domain_hosts env f True = Some hs \<and> (\<exists>h\<in>set hs. ?m h = Inr True)))
      \<or> on_bypass_list env ps fs target"
    by (auto simp: on_bypass_list_def)
  from Cons.prems assms obtain m where m: "?m f = Inr m"
    by (auto simp: Let_def result_bind_Inr_iff)
  show ?case
  proof (cases "m \<or> \<not> tls_sni_filter_use_dns_domain_tree ps \<or> find_bypass_domain_hosts env f True = None")
    case True
    obtain b where b: "se_bypass_me_and_peer (ap_socle env) k st = (True, b)"
      using assms(3)[of k st] by (cases "se_bypass_me_and_peer (ap_socle env) k st") simp
    show ?thesis
    proof (cases m)
      case True
      with Cons.prems assms(1,2) m b step show ?thesis by (simp add: Let_def)
    next
      case False
      with \<open>m \<or> _\<close> Cons.prems assms(1,2) m have "bypass_filters env ps k fs False st = Inr (i, st')"
        by (auto simp: Let_def split: if_splits)
      from Cons.IH[OF this] step m False \<open>m \<or> _\<close> show ?thesis by auto
    qed
  next
    case False
    then obtain hs where hs: "find_bypass_domain_hosts env f True = Some hs" by blast
    with Cons.prems assms m False obtain j st1 where j: "bypass_hosts env target k hs st = Inr (j, st1)"
        "bypass_filters env ps k fs j st1 = Inr (i, st')"
      by (auto simp: Let_def result_bind_Inr_iff)
    show ?thesis
    proof (cases j)
      case True
      then have i using bypass_filters_interrupt j(2) by simp
      with True bypass_hosts_iff[OF j(1)] step hs False show ?thesis by blast
    next
      case nj: False
      with bypass_hosts_iff[OF j(1)] j(2) Cons.IH step hs m False show ?thesis by auto
    qed
  qed
qed

lemma fqdn_match_never: "\<forall>f\<in>set fs. fqdn_address_match e f t \<noteq> Inr True \<Longrightarrow> f \<in> set fs \<Longrightarrow> fqdn_address_match e f t = Inr b \<Longrightarrow> \<not> b"
  by auto

text \<open>The walk over the bypass list of a TLS profile takes a connection out of inspection exactly
  when the address of its server is on the list, that is tied by the DNS cache to one of the names
  or to a cached sub-domain of a wildcard; otherwise it leaves all state as it is.\<close>

theorem bypass_list_exact:
  assumes "com_owner (st_com st k) = Some cx"
    and "\<And>k st. fst (se_bypass_me_and_peer (ap_socle env) k st)"
    and "bypass_filters env ps k fs False st = Inr (bypassed, st')"
  shows "bypassed = on_bypass_list env ps fs (ae_from_str (ap_addr env) (h_host (st_cx st cx)))
     \<and> (\<not> bypassed \<longrightarrow> st' = st)"
  using bypass_filters_correct[OF assms(1) refl assms(2,3)] .

section \<open>Features\<close>

definition sink_of :: "string \<Rightarrow> SinkholeFilter option" where
  "sink_of t = (if t = ''sink-left'' then Some \<lparr>sink_left = True, sink_right = False, sink_replacement = []\<rparr>
     else if t = ''sink-right'' then Some \<lparr>sink_left = False, sink_right = True, sink_replacement = []\<rparr>
     else if t = ''sink-all'' then Some \<lparr>sink_left = True, sink_right = True, sink_replacement = []\<rparr>
     else None)"

lemma pick_filter_Some [simp]: "pick_filter ts (Some f) = Some f"
  by (induction ts) simp_all

lemma pick_filter_first:
  "pick_filter ts None = (case List.find (\<lambda>t. sink_of t \<noteq> None) ts of None \<Rightarrow> None | Some t \<Rightarrow> sink_of t)"
  by (induction ts) (auto simp: sink_of_def)

lemma toggle_tlog_frame:
  assumes "toggle_tlog env p = Inr p'"
  shows "px_filters p' = px_filters p \<and> px_rs p' = px_rs p \<and> px_ls p' = px_ls p \<and> px_lda p' = px_lda p \<and> px_rda p' = px_rda p
    \<and> px_matched_policy p' = px_matched_policy p \<and> opt_auth_authenticate p' = opt_auth_authenticate p
    \<and> opt_auth_resolve p' = opt_auth_resolve p"
  using assms by (auto simp: toggle_tlog_def result_bind_Inr_iff split: if_splits)

lemma tlog_write_frame [simp]:
  "px_filters (tlog_write c t p) = px_filters p" "px_rs (tlog_write c t p) = px_rs p"
  "px_ls (tlog_write c t p) = px_ls p" "px_lda (tlog_write c t p) = px_lda p" "px_rda (tlog_write c t p) = px_rda p"
  "px_matched_policy (tlog_write c t p) = px_matched_policy p"
  "opt_auth_authenticate (tlog_write c t p) = opt_auth_authenticate p"
  "opt_auth_resolve (tlog_write c t p) = opt_auth_resolve p"
  by (simp_all add: tlog_write_def)

lemma prof_content_apply_frame:
  assumes "prof_content_apply env (Some p) pc = Inr (b, q)"
  shows "\<exists>p'. q = Some p' \<and> b \<and> px_filters p' = px_filters p \<and> px_rs p' = px_rs p \<and> px_ls p' = px_ls p
    \<and> px_lda p' = px_lda p \<and> px_rda p' = px_rda p \<and> px_matched_policy p' = px_matched_policy p
    \<and> opt_auth_authenticate p' = opt_auth_authenticate p \<and> opt_auth_resolve p' = opt_auth_resolve p"
  using assms
  by (fastforce simp: prof_content_apply_def Let_def result_bind_Inr_iff split: option.splits if_splits
      dest: toggle_tlog_frame)

lemma apply_content_frame:
  assumes "apply_content env rules n p = Inr q"
  shows "px_filters q = px_filters p \<and> px_rs q = px_rs p \<and> px_ls q = px_ls p
    \<and> px_lda q = px_lda p \<and> px_rda q = px_rda p \<and> px_matched_policy q = px_matched_policy p
    \<and> opt_auth_authenticate q = opt_auth_authenticate p \<and> opt_auth_resolve q = opt_auth_resolve p"
proof (cases "policy_prof_content rules n")
  case None
  with assms show ?thesis by (simp add: apply_content_def)
next
  case (Some pc)
  with assms obtain b q' where "prof_content_apply env (Some p) (Some pc) = Inr (b, q')" "q = (case q' of None \<Rightarrow> p | Some p' \<Rightarrow> p')"
    by (auto simp: apply_content_def result_bind_Inr_iff)
  with prof_content_apply_frame[OF this(1)] show ?thesis by auto
qed

text \<open>Feature tags install at most one sinkhole, the one of the first tag that names one, and
  they take effect only on rules with an authentication profile: without it, applying a passing
  rule leaves the filters of the proxy and its authentication options alone.\<close>

theorem features_need_auth_profile:
  assumes "apply_profiles env originator rules n p st = Inr (st', p')"
  shows "px_filters p' = px_filters p @
      (case (policy_prof_auth rules n, policy_rule_at rules n) of
         (Some _, Some r) \<Rightarrow> (case List.find (\<lambda>t. sink_of t \<noteq> None) (rule_features r) of
             Some t \<Rightarrow> (case sink_of t of Some f \<Rightarrow> [f] | None \<Rightarrow> []) | None \<Rightarrow> [])
       | _ \<Rightarrow> [])
    \<and> (case policy_prof_auth rules n of
         Some pa \<Rightarrow> opt_auth_authenticate p' = auth_authenticate (pa_flags pa) \<and> opt_auth_resolve p' = auth_resolve (pa_flags pa)
       | None \<Rightarrow> opt_auth_authenticate p' = opt_auth_authenticate p \<and> opt_auth_resolve p' = opt_auth_resolve p)"
proof -
  obtain q where q: "px_filters q = px_filters p" "opt_auth_authenticate q = opt_auth_authenticate p"
      "opt_auth_resolve q = opt_auth_resolve p"
      "p' = (case policy_prof_auth rules n of None \<Rightarrow> q
              | Some pa \<Rightarrow> policy_apply_features (policy_rule_at rules n)
                  (q\<lparr>opt_auth_authenticate := auth_authenticate (pa_flags pa), opt_auth_resolve := auth_resolve (pa_flags pa)\<rparr>))"
    using assms unfolding apply_profiles_def
    by (auto simp: result_bind_Inr_iff dest!: apply_content_frame)
  then show ?thesis
    by (auto simp: policy_apply_features_def pick_filter_first split: option.splits)
qed

section \<open>Examples\<close>

definition web_env :: addr_env where
  "web_env = www_env\<lparr>ae_from_str := (\<lambda>s. Some (v4_block 93 184 216 34 [0xff, 0xff, 0xff, 0xff]))\<rparr>"

definition plain_env :: apply_env where
  "plain_env = \<lparr>ap_policy = \<lparr>pe_addr = web_env, pe_safe_val = (\<lambda>s. 443)\<rparr>, ap_socle = plain_socle,
     ap_capture = \<lparr>cl_enabled = True, cl_format = PCAP, cl_file_suffix = [], cl_disabled_file = False,
       cr_enabled = False, cr_tun_dst = [], cr_tun_ttl = 0\<rparr>,
     ap_default_write_payload = None, ap_domain_cache = (\<lambda>d. None), ap_split_colon = (\<lambda>s. [s]),
     ap_use_python = False, ap_python_prefilter = (\<lambda>c. False)\<rparr>"

theorem tls_profile_applied_witness:
  "\<exists>st' s'. policy_apply_tls plain_env (Some (default_tls ''t'')) (Some 0) (plain_store 8) = (True, st')
     \<and> com_ssl (st_com st' 0) = Some s' \<and> opt_bypass s' \<and> left_kex_dh s'"
proof -
  obtain ok st' where r: "policy_apply_tls plain_env (Some (default_tls ''t'')) (Some 0) (plain_store 8) = (ok, st')"
    by fastforce
  have "\<And>c s. opt_bypass (se_verify_reset (ap_socle plain_env) c s) = opt_bypass s"
    by (simp add: plain_env_def plain_socle_def)
  from tls_profile_applied[OF this _ r, of "plain_ssl 8"] obtain s' where
    "ok" "com_ssl (st_com st' 0) = Some s'" "tls_options_of (default_tls ''t'') s'"
    by auto
  with r show ?thesis by (simp add: tls_options_of_def default_tls_def)
qed

theorem bypass_list_exact_witness:
  "\<exists>b st'. bypass_filters plain_env (default_tls ''t'') 1 [''www''] False (plain_store 8) = Inr (b, st')
     \<and> b = on_bypass_list plain_env (default_tls ''t'') [''www''] (ae_from_str web_env ''s'')"
proof -
  have e: "\<exists>b st'. bypass_filters plain_env (default_tls ''t'') 1 [''www''] False (plain_store 8) = Inr (b, st')"
  proof -
    have "ae_from_str web_env ''s'' \<noteq> None" by (simp add: web_env_def)
    from fqdn_match_total[OF this, of web_env "''www''"] obtain m where
      "fqdn_address_match web_env ''www'' (ae_from_str web_env ''s'') = Inr m" by blast
    then show ?thesis
      by (cases m) (auto simp: plain_env_def Let_def default_tls_def find_bypass_domain_hosts_def plain_socle_def)
  qed
  then obtain b st' where r: "bypass_filters plain_env (default_tls ''t'') 1 [''www''] False (plain_store 8) = Inr (b, st')"
    by blast
  have "com_owner (st_com (plain_store 8) 1) = Some 1" by simp
  from bypass_list_exact[OF this _ r] r show ?thesis
    by (simp add: plain_env_def plain_socle_def)
qed

theorem features_need_auth_profile_witness:
  "\<exists>st' p'. apply_profiles plain_env (Some 0) [(new_rule ''r'')\<lparr>rule_features := [''sink-all'']\<rparr>] 0 plain_proxy (plain_store 8) = Inr (st', p')
     \<and> px_filters p' = []"
proof -
  let ?rs = "[(new_rule ''r'')\<lparr>rule_features := [''sink-all'']\<rparr>]"
  have "apply_profiles plain_env (Some 0) ?rs 0 plain_proxy (plain_store 8) = Inr (plain_store 8, plain_proxy)"
    by (simp add: apply_profiles_def apply_content_def policy_prof_content_def policy_prof_detection_def policy_prof_tls_def
        policy_prof_alg_dns_def policy_prof_auth_def new_rule_def no_profiles_def)
  from features_need_auth_profile[OF this] this show ?thesis
    by (simp add: policy_prof_auth_def new_rule_def plain_proxy_def fresh_proxy_def)
qed

end
