(* ===== verification/Identity.thy ===== *)
theory Identity
  imports PolicyApply
begin

text \<open>
  Identities of clients in the proxy (\<open>MitmProxy::find_id_groups\<close> to \<open>update_auth_ipX_map\<close>,
  \<open>src/src/proxy/mitmproxy.cpp\<close>): the groups of the address, the sub-profile chosen by them, and the
  resolution of an identity against the tables of \<open>Auth\<close>.

  The state of a method is the proxy object together with the global tables it reaches: the
  authentication factory, the rule list, the store of connections, the list of overridden
  certificate checks and the token tables. The time and the contents of the shared memory tables
  are arguments.
\<close>

section \<open>Model\<close>

record mstate =
  ms_px :: mitm_proxy
  ms_st :: hstore
  ms_auth :: auth_factory
  ms_rules :: "policy_rule list"
  ms_whitelist :: "(string \<times> int) list"
  ms_tokens :: "(string \<times> (32 word \<times> string)) list"
  ms_shm_tokens :: "bytes list"
  ms_meters :: "(char \<times> nat) list"

text \<open>What a shared memory table yields when it is refreshed: the result of acquiring it, the result
  of loading it, its rows and its map.\<close>

record shm_view =
  sv_rc :: int
  sv_load :: int
  sv_rows :: "logon_row list"
  sv_map :: "(string \<times> logon_row) list"

record id_env =
  ie_apply :: apply_env
  ie_now :: int
  ie_shm4 :: shm_view
  ie_shm6 :: shm_view
  ie_inet_pton :: "string \<Rightarrow> bytes option"

definition set_px :: "(mitm_proxy \<Rightarrow> mitm_proxy) \<Rightarrow> mstate \<Rightarrow> mstate" where
  "set_px f s = s\<lparr>ms_px := f (ms_px s)\<rparr>"

definition set_st :: "(hstore \<Rightarrow> hstore) \<Rightarrow> mstate \<Rightarrow> mstate" where
  "set_st f s = s\<lparr>ms_st := f (ms_st s)\<rparr>"

definition af_v4 :: "int \<Rightarrow> bool" where
  "af_v4 af \<longleftrightarrow> af = AF_INET \<or> af = 0"

subsection \<open>Groups and sub-profiles\<close>

definition find_id_groups :: "nat \<Rightarrow> mstate \<Rightarrow> string list option" where
  "find_id_groups cx s =
     (let af = cx_af (ms_st s) cx; host = h_host (st_cx (ms_st s) cx)
      in if af_v4 af then table_get_groups (ip4_table (ms_auth s)) host
         else if af = AF_INET6 then table_get_groups (ip6_table (ms_auth s)) host
         else None)"

fun sub_profile_loop :: "ProfileSubAuth list \<Rightarrow> string list \<Rightarrow> ProfileSubAuth option" where
  "sub_profile_loop [] groups = None"
| "sub_profile_loop (sub # subs) groups =
     (if list_ex (\<lambda>my_id. sub_name sub = my_id) groups then Some sub else sub_profile_loop subs groups)"

text \<open>\<open>db_policy_list.at\<close> throws for an index outside of the list.\<close>

definition policy_at :: "policy_rule list \<Rightarrow> int \<Rightarrow> access_error + policy_rule" where
  "policy_at rules i = (if 0 \<le> i \<and> i < int (length rules) then Inr (rules ! nat i) else Inl OutOfRange)"

definition find_auth_subprofile :: "string list \<Rightarrow> mstate \<Rightarrow> access_error + ProfileSubAuth option" where
  "find_auth_subprofile groups s =
     result_bind (policy_at (ms_rules s) (px_matched_policy (ms_px s))) (\<lambda>policy.
       Inr (case rule_auth policy of None \<Rightarrow> None | Some a \<Rightarrow> sub_profile_loop (sub_policies a) groups))"

definition sub_content :: "apply_env \<Rightarrow> ProfileList \<Rightarrow> mstate \<Rightarrow> access_error + mstate" where
  "sub_content env pl s = (case profile_content pl of
     None \<Rightarrow> Inr s
   | Some pc \<Rightarrow> result_bind (prof_content_apply env (Some (ms_px s)) (Some pc)) (\<lambda>(_, p).
       Inr (case p of None \<Rightarrow> s | Some p \<Rightarrow> s\<lparr>ms_px := p\<rparr>)))"

definition apply_sub_profile :: "apply_env \<Rightarrow> nat \<Rightarrow> ProfileList \<Rightarrow> mstate \<Rightarrow> access_error + mstate" where
  "apply_sub_profile env cx pl s =
     result_bind (sub_content env pl s) (\<lambda>s.
     result_bind (Inr (case profile_detection pl of
                    None \<Rightarrow> s | Some pd \<Rightarrow> set_st (\<lambda>st. snd (prof_detect_apply (Some cx) (Some pd) st)) s)) (\<lambda>s.
     result_bind (case profile_tls pl of
                    None \<Rightarrow> Inr s
                  | Some pt \<Rightarrow> result_bind (prof_tls_apply env (Some cx) (ms_px s) (Some pt) (ms_st s)) (\<lambda>(_, st).
                      Inr (s\<lparr>ms_st := st\<rparr>))) (\<lambda>s.
     case profile_alg_dns pl of
       None \<Rightarrow> Inr s
     | Some a \<Rightarrow> result_bind (prof_alg_dns_apply (Some cx) (Some a) (ms_st s)) (\<lambda>(_, st). Inr (s\<lparr>ms_st := st\<rparr>)))))"

definition apply_id_policies :: "apply_env \<Rightarrow> nat \<Rightarrow> mstate \<Rightarrow> access_error + (bool \<times> mstate)" where
  "apply_id_policies env cx s = (case find_id_groups cx s of
     None \<Rightarrow> Inr (False, s)
   | Some groups \<Rightarrow> result_bind (find_auth_subprofile groups s) (\<lambda>final_profile.
       case final_profile of
         None \<Rightarrow> Inr (False, s)
       | Some sub \<Rightarrow> result_bind (apply_sub_profile env cx (sub_profiles sub) s) (\<lambda>s. Inr (True, s))))"

subsection \<open>Resolution\<close>

definition table_seen :: "int \<Rightarrow> int \<Rightarrow> string \<Rightarrow> auth_table \<Rightarrow> bool \<times> auth_table" where
  "table_seen now policy host t = (case map_of (ip_map t) host of
     None \<Rightarrow> (False, t)
   | Some i \<Rightarrow>
       let i = i\<lparr>last_seen_policy := of_int policy\<rparr>;
           t = t\<lparr>ip_map := AList.update host i (ip_map t)\<rparr>
       in if \<not> i_timeout now i
          then (True, t\<lparr>ip_map := AList.update host (id_touch now i) (ip_map t)\<rparr>)
          else (False, table_remove host t))"

definition update_auth_ipX_map :: "int \<Rightarrow> nat \<Rightarrow> mstate \<Rightarrow> bool \<times> mstate" where
  "update_auth_ipX_map now cx s =
     (let af = cx_af (ms_st s) cx; host = h_host (st_cx (ms_st s) cx);
          policy = px_matched_policy (ms_px s); f = ms_auth s
      in if af_v4 af then
           (case table_seen now policy host (ip4_table f) of (r, t) \<Rightarrow> (r, s\<lparr>ms_auth := f\<lparr>ip4_table := t\<rparr>\<rparr>))
         else if af = AF_INET6 then
           (case table_seen now policy host (ip6_table f) of (r, t) \<Rightarrow> (r, s\<lparr>ms_auth := f\<lparr>ip6_table := t\<rparr>\<rparr>))
         else (False, s))"

text \<open>The logon record found for the address after a refresh of its table, or the guest record.\<close>

definition find_logon :: "id_env \<Rightarrow> nat \<Rightarrow> bool \<Rightarrow> mstate \<Rightarrow> bytes option \<times> mstate" where
  "find_logon env cx insert_guest s =
     (let af = cx_af (ms_st s) cx; host = h_host (st_cx (ms_st s) cx)
      in if af_v4 af then
           let v = ie_shm4 env;
               f = snd (shm_ip4_table_refresh (ie_now env) (sv_rc v) (sv_load v) (sv_rows v) (sv_map v) (ms_auth s))
           in (case ip4_get f host of
                 Some i \<Rightarrow> Some (last_logon_info i)
               | None \<Rightarrow> if insert_guest
                         then Some (make_logon_info (ie_inet_pton env) 4 host ''guest'' ''guest+guests+guests_ipv4'')
                         else None, s\<lparr>ms_auth := f\<rparr>)
         else if af = AF_INET6 then
           let v = ie_shm6 env;
               f = snd (shm_ip6_table_refresh (ie_now env) (sv_rc v) (sv_load v) (sv_rows v) (sv_map v) (ms_auth s))
           in (case ip6_get f host of
                 Some i \<Rightarrow> Some (last_logon_info i)
               | None \<Rightarrow> if insert_guest
                         then Some (make_logon_info (ie_inet_pton env) 16 host ''guest'' ''guest+guests+guests_ipv6'')
                         else None, s\<lparr>ms_auth := f\<rparr>)
         else (None, s))"

definition resolve_unknown :: "id_env \<Rightarrow> nat \<Rightarrow> bool \<Rightarrow> mstate \<Rightarrow> access_error + (bool \<times> mstate)" where
  "resolve_unknown env cx insert_guest s = (case find_logon env cx insert_guest s of
     (None, s) \<Rightarrow> Inr (False, s)
   | (Some li, s) \<Rightarrow> (case update_auth_ipX_map (ie_now env) cx s of (valid_ip_auth, s) \<Rightarrow>
       let s = set_px (\<lambda>p. p\<lparr>identity_resolved := valid_ip_auth\<rparr>) s;
           s = (if valid_ip_auth then set_px (\<lambda>p. p\<lparr>px_identity := Some li\<rparr>) s else s)
       in result_bind (apply_id_policies (ie_apply env) cx s) (\<lambda>(_, s). Inr (valid_ip_auth, s))))"

definition resolve_identity :: "id_env \<Rightarrow> nat option \<Rightarrow> bool \<Rightarrow> mstate \<Rightarrow> access_error + (bool \<times> mstate)" where
  "resolve_identity env cx insert_guest s = (case cx of
     None \<Rightarrow> Inr (False, s)
   | Some cx \<Rightarrow>
       if identity_resolved (ms_px s) then
         (case update_auth_ipX_map (ie_now env) cx s of (update_status, s) \<Rightarrow>
            if update_status then Inr (True, s)
            else resolve_unknown env cx insert_guest (set_px (\<lambda>p. p\<lparr>identity_resolved := False\<rparr>) s))
       else resolve_unknown env cx insert_guest s)"

section \<open>Facts\<close>

lemma set_px_sel [simp]:
  "ms_px (set_px f s) = f (ms_px s)" "ms_st (set_px f s) = ms_st s" "ms_auth (set_px f s) = ms_auth s"
  "ms_rules (set_px f s) = ms_rules s" "ms_whitelist (set_px f s) = ms_whitelist s"
  "ms_tokens (set_px f s) = ms_tokens s" "ms_shm_tokens (set_px f s) = ms_shm_tokens s"
  "ms_meters (set_px f s) = ms_meters s"
  by (simp_all add: set_px_def)

lemma set_st_sel [simp]:
  "ms_st (set_st f s) = f (ms_st s)" "ms_px (set_st f s) = ms_px s" "ms_auth (set_st f s) = ms_auth s"
  "ms_rules (set_st f s) = ms_rules s" "ms_whitelist (set_st f s) = ms_whitelist s"
  "ms_tokens (set_st f s) = ms_tokens s" "ms_shm_tokens (set_st f s) = ms_shm_tokens s"
  "ms_meters (set_st f s) = ms_meters s"
  by (simp_all add: set_st_def)

text \<open>Applying profiles changes only the payload options of the proxy.\<close>

definition payload_only :: "mitm_proxy \<Rightarrow> mitm_proxy \<Rightarrow> bool" where
  "payload_only p q \<longleftrightarrow>
     q\<lparr>px_write_payload := px_write_payload p, px_content_rule := px_content_rule p, px_tlog := px_tlog p\<rparr> = p"

lemma payload_only_refl [simp]: "payload_only p p"
  by (simp add: payload_only_def)

lemma payload_only_intro:
  "payload_only p (p\<lparr>px_write_payload := w\<rparr>)" "payload_only p (p\<lparr>px_content_rule := c\<rparr>)"
  "payload_only p (p\<lparr>px_write_payload := w, px_content_rule := c\<rparr>)"
  "payload_only p (p\<lparr>px_tlog := t\<rparr>)" "payload_only p (tlog_write side txt p)"
  by (cases p; simp add: payload_only_def tlog_write_def)+

lemma payload_only_frame:
  assumes "payload_only p q"
  shows "identity_resolved q = identity_resolved p" "px_identity q = px_identity p"
    "px_matched_policy q = px_matched_policy p" "px_dead q = px_dead p" "ssl_handled q = ssl_handled p"
    "auth_block_identity q = auth_block_identity p" "px_filters q = px_filters p"
    "opt_auth_authenticate q = opt_auth_authenticate p" "opt_auth_resolve q = opt_auth_resolve p"
    "px_ls q = px_ls p" "px_lda q = px_lda p" "px_rs q = px_rs p" "px_rda q = px_rda p" "px_com q = px_com p"
    "half_holdtimer q = half_holdtimer p" "px_replacement_msg q = px_replacement_msg p"
  using assms by (cases p; cases q; simp add: payload_only_def)+

lemma payload_only_trans: "payload_only p q \<Longrightarrow> payload_only q r \<Longrightarrow> payload_only p r"
  by (cases p; cases q; cases r) (simp add: payload_only_def)

lemma toggle_tlog_payload: "toggle_tlog env p = Inr q \<Longrightarrow> payload_only p q"
  by (auto simp: toggle_tlog_def result_bind_Inr_iff payload_only_intro split: if_splits)

lemma prof_content_apply_payload:
  assumes "prof_content_apply env (Some p) pc = Inr (b, q)"
  shows "\<exists>q'. q = Some q' \<and> payload_only p q'"
proof -
  let ?p1 = "case pc of
      Some pc \<Rightarrow> let p = p\<lparr>px_write_payload := cont_write_payload pc\<rparr>
                 in if cont_rules pc \<noteq> [] then p\<lparr>px_content_rule := Some (cont_rules pc)\<rparr> else p
    | None \<Rightarrow> (case ap_default_write_payload env of Some cfg_wrt \<Rightarrow> p\<lparr>px_write_payload := cfg_wrt\<rparr> | None \<Rightarrow> p)"
  have p1: "payload_only p ?p1"
    by (auto simp: Let_def payload_only_intro intro: payload_only_trans split: option.splits)
  show ?thesis
  proof (cases "px_write_payload ?p1")
    case True
    with assms obtain t where "toggle_tlog env ?p1 = Inr t"
        "q = Some (tlog_write CHR ''L'' (map ord (''Connection start'' @ [CHR 0x0A])) t)"
      by (auto simp: prof_content_apply_def Let_def result_bind_Inr_iff)
    then show ?thesis using p1 by (auto dest!: toggle_tlog_payload intro: payload_only_trans payload_only_intro)
  next
    case False
    with assms p1 show ?thesis by (auto simp: prof_content_apply_def Let_def)
  qed
qed

lemma sub_content_frame:
  assumes "sub_content env pl s = Inr s'"
  shows "s' = s\<lparr>ms_px := ms_px s'\<rparr> \<and> payload_only (ms_px s) (ms_px s')"
proof (cases "profile_content pl")
  case None
  with assms show ?thesis by (simp add: sub_content_def)
next
  case (Some pc)
  with assms obtain b q where q: "prof_content_apply env (Some (ms_px s)) (Some pc) = Inr (b, q)"
      "s' = (case q of None \<Rightarrow> s | Some p \<Rightarrow> s\<lparr>ms_px := p\<rparr>)"
    by (auto simp: sub_content_def result_bind_Inr_iff)
  with prof_content_apply_payload[OF q(1)] show ?thesis by auto
qed

lemma apply_sub_profile_frame:
  assumes "apply_sub_profile env cx pl s = Inr s'"
  shows "payload_only (ms_px s) (ms_px s') \<and> ms_auth s' = ms_auth s \<and> ms_rules s' = ms_rules s
    \<and> ms_whitelist s' = ms_whitelist s \<and> ms_tokens s' = ms_tokens s \<and> ms_shm_tokens s' = ms_shm_tokens s"
proof -
  from assms obtain s1 where s1: "sub_content env pl s = Inr s1"
      and rest: "ms_px s' = ms_px s1 \<and> ms_auth s' = ms_auth s1 \<and> ms_rules s' = ms_rules s1
        \<and> ms_whitelist s' = ms_whitelist s1 \<and> ms_tokens s' = ms_tokens s1 \<and> ms_shm_tokens s' = ms_shm_tokens s1"
    unfolding apply_sub_profile_def
    by (auto simp: result_bind_Inr_iff split: option.splits)
  from sub_content_frame[OF s1] obtain q where "s1 = s\<lparr>ms_px := q\<rparr>" "payload_only (ms_px s) q" by metis
  with rest show ?thesis by auto
qed

lemma apply_id_policies_frame:
  assumes "apply_id_policies env cx s = Inr (b, s')"
  shows "payload_only (ms_px s) (ms_px s') \<and> ms_auth s' = ms_auth s \<and> ms_rules s' = ms_rules s
    \<and> ms_whitelist s' = ms_whitelist s \<and> ms_tokens s' = ms_tokens s \<and> ms_shm_tokens s' = ms_shm_tokens s"
  using assms unfolding apply_id_policies_def
  by (auto simp: result_bind_Inr_iff split: option.splits dest: apply_sub_profile_frame)

text \<open>The identity the tables hold for an address of a family.\<close>

definition client_identity :: "auth_factory \<Rightarrow> int \<Rightarrow> string \<Rightarrow> identity_info option" where
  "client_identity f af host = (if af_v4 af then ip4_get f host else if af = AF_INET6 then ip6_get f host else None)"

lemma client_groups:
  "find_id_groups cx s = map_option groups_vec (client_identity (ms_auth s) (cx_af (ms_st s) cx) (h_host (st_cx (ms_st s) cx)))"
  by (simp add: find_id_groups_def client_identity_def table_get_groups_def ip4_get_def ip6_get_def table_get_def Let_def)

lemma table_seen_True:
  assumes "table_seen now policy host t = (True, t')"
  shows "\<exists>i. table_get t' host = Some i \<and> last_seen_at i = of_int now \<and> last_seen_policy i = of_int policy
    \<and> (\<exists>i0. table_get t host = Some i0 \<and> \<not> i_timeout now i0 \<and> groups_vec i = groups_vec i0)"
  using assms
  by (auto simp: table_seen_def table_get_def Let_def id_touch_def i_timeout_def update_conv' split: option.splits if_splits)

lemma update_auth_frame:
  assumes "update_auth_ipX_map now cx s = (r, s')"
  shows "ms_px s' = ms_px s \<and> ms_st s' = ms_st s \<and> ms_rules s' = ms_rules s \<and> ms_whitelist s' = ms_whitelist s
    \<and> ms_tokens s' = ms_tokens s \<and> ms_shm_tokens s' = ms_shm_tokens s"
  using assms by (auto simp: update_auth_ipX_map_def Let_def split: if_splits prod.splits)

lemma update_auth_True:
  assumes "update_auth_ipX_map now cx s = (True, s')"
  shows "\<exists>i. client_identity (ms_auth s') (cx_af (ms_st s) cx) (h_host (st_cx (ms_st s) cx)) = Some i
     \<and> last_seen_at i = of_int now \<and> last_seen_policy i = of_int (px_matched_policy (ms_px s))"
  using assms
  by (auto simp: update_auth_ipX_map_def client_identity_def ip4_get_def ip6_get_def Let_def
      split: if_splits prod.splits dest!: table_seen_True)

lemma find_logon_frame:
  assumes "find_logon env cx g s = (li, s')"
  shows "ms_px s' = ms_px s \<and> ms_st s' = ms_st s \<and> ms_rules s' = ms_rules s \<and> ms_whitelist s' = ms_whitelist s
    \<and> ms_tokens s' = ms_tokens s \<and> ms_shm_tokens s' = ms_shm_tokens s"
  using assms by (auto simp: find_logon_def Let_def split: if_splits)

text \<open>A resolved identity is one the tables hold and that has just been seen.\<close>

definition live_identity :: "int \<Rightarrow> nat \<Rightarrow> mstate \<Rightarrow> auth_factory \<Rightarrow> bool" where
  "live_identity now cx s f \<longleftrightarrow>
     (\<exists>i. client_identity f (cx_af (ms_st s) cx) (h_host (st_cx (ms_st s) cx)) = Some i
        \<and> last_seen_at i = of_int now \<and> last_seen_policy i = of_int (px_matched_policy (ms_px s)))"

lemma resolve_unknown_valid:
  assumes "resolve_unknown env cx g s = Inr (r, s')" and "\<not> identity_resolved (ms_px s)"
  shows "identity_resolved (ms_px s') = r \<and> (r \<longrightarrow> live_identity (ie_now env) cx s (ms_auth s'))
    \<and> payload_only ((ms_px s)\<lparr>identity_resolved := r, px_identity := px_identity (ms_px s')\<rparr>) (ms_px s')
    \<and> ms_rules s' = ms_rules s"
proof (cases "find_logon env cx g s")
  case (Pair li s1)
  note f1 = find_logon_frame[OF Pair]
  show ?thesis
  proof (cases li)
    case None
    with assms Pair f1 show ?thesis by (cases "ms_px s") (auto simp: resolve_unknown_def)
  next
    case (Some l)
    obtain v s2 where u: "update_auth_ipX_map (ie_now env) cx s1 = (v, s2)" by fastforce
    note f2 = update_auth_frame[OF u]
    let ?s3 = "set_px (\<lambda>p. p\<lparr>identity_resolved := v\<rparr>) s2"
    let ?s4 = "if v then set_px (\<lambda>p. p\<lparr>px_identity := Some l\<rparr>) ?s3 else ?s3"
    have "result_bind (apply_id_policies (ie_apply env) cx ?s4) (\<lambda>(_, s). Inr (v, s)) = Inr (r, s')"
      using assms(1) unfolding resolve_unknown_def Pair Some by (simp only: u prod.case option.case Let_def)
    then obtain b where a: "apply_id_policies (ie_apply env) cx ?s4 = Inr (b, s')" and r: "r = v"
      by (simp only: result_bind_Inr_iff split_paired_Ex prod.case sum.inject prod.inject) blast
    note f4 = apply_id_policies_frame[OF a]
    have px: "payload_only (ms_px ?s4) (ms_px s')" and auth: "ms_auth s' = ms_auth s2" and rules: "ms_rules s' = ms_rules s"
      using f4 f2 f1 by auto
    have px4: "ms_px ?s4 = (ms_px s)\<lparr>identity_resolved := r, px_identity := px_identity (ms_px s')\<rparr>"
    proof -
      have "ms_px ?s4 = (ms_px s)\<lparr>identity_resolved := v, px_identity := px_identity (ms_px ?s4)\<rparr>"
        using f1 f2 by (cases v) simp_all
      then show ?thesis unfolding payload_only_frame(2)[OF px] r .
    qed
    have "identity_resolved (ms_px s') = r" using payload_only_frame(1)[OF px] r by simp
    moreover have "live_identity (ie_now env) cx s (ms_auth s')" if r
      using update_auth_True[of "ie_now env" cx s1 s2] u that r f1 auth by (auto simp: live_identity_def)
    ultimately show ?thesis using px px4 rules by simp
  qed
qed

lemma resolve_identity_valid:
  assumes "resolve_identity env (Some cx) g s = Inr (r, s')"
  shows "identity_resolved (ms_px s') = r \<and> (r \<longrightarrow> live_identity (ie_now env) cx s (ms_auth s'))
    \<and> payload_only ((ms_px s)\<lparr>identity_resolved := r, px_identity := px_identity (ms_px s')\<rparr>) (ms_px s')
    \<and> ms_rules s' = ms_rules s"
proof (cases "identity_resolved (ms_px s)")
  case False
  with assms resolve_unknown_valid show ?thesis by (simp add: resolve_identity_def)
next
  case True
  obtain u s1 where u: "update_auth_ipX_map (ie_now env) cx s = (u, s1)" by fastforce
  note f1 = update_auth_frame[OF u]
  show ?thesis
  proof (cases u)
    case True
    with assms u \<open>identity_resolved (ms_px s)\<close> have "s' = s1" "r" by (auto simp: resolve_identity_def)
    with f1 u True \<open>identity_resolved (ms_px s)\<close> update_auth_True[of "ie_now env" cx s s1] show ?thesis
      by (cases "ms_px s") (auto simp: live_identity_def)
  next
    case False
    with assms u \<open>identity_resolved (ms_px s)\<close> have
      "resolve_unknown env cx g (set_px (\<lambda>p. p\<lparr>identity_resolved := False\<rparr>) s1) = Inr (r, s')"
      by (simp add: resolve_identity_def)
    from resolve_unknown_valid[OF this] f1 show ?thesis by (simp add: live_identity_def)
  qed
qed

lemma sub_profile_loop_find:
  "sub_profile_loop subs groups = List.find (\<lambda>sub. sub_name sub \<in> set groups) subs"
  by (induction subs) (auto simp: list_ex_iff)

end
