(* ===== verification/ProxyMaker.thy ===== *)
theory ProxyMaker
  imports Identity
begin

text \<open>
  Construction and admission of proxies (\<open>src/src/proxy/proxymaker.cpp\<close>) and the handlers of newly
  accepted connections (\<open>MitmMasterProxy\<close> and \<open>MitmUdpProxy\<close> of
  \<open>src/src/proxy/mitmproxy.cpp\<close>).

  Object numbers for the transports and the target connection created on the way are arguments,
  as are the socket numbers \<open>connect\<close> returns, the CRC32 function and the configured values.
\<close>

section \<open>Model\<close>

datatype maker_error = Access access_error | Std std_error

definition lift_access :: "access_error + 'a \<Rightarrow> maker_error + 'a" where
  "lift_access r = (case r of Inl e \<Rightarrow> Inl (Access e) | Inr x \<Rightarrow> Inr x)"

record maker_env =
  mk_id :: id_env
  mk_addr_db :: addr_db
  mk_port_db :: "string \<Rightarrow> (int \<times> int) option"
  mk_crc32 :: "string \<Rightarrow> 32 word"
  mk_down_cast :: "int \<Rightarrow> 16 word"
  mk_tenant_index :: int
  mk_tenant_magic_ip :: string
  mk_portal_port_http :: string
  mk_portal_port_https :: string
  mk_connect :: "nat \<Rightarrow> int"

abbreviation mk_apply :: "maker_env \<Rightarrow> apply_env" where "mk_apply env \<equiv> ie_apply (mk_id env)"
abbreviation mk_socle :: "maker_env \<Rightarrow> socle_env" where "mk_socle env \<equiv> ap_socle (mk_apply env)"
abbreviation mk_addr :: "maker_env \<Rightarrow> addr_env" where "mk_addr env \<equiv> ap_addr (mk_apply env)"

definition POLICY_IMPLICIT_PASS :: int where "POLICY_IMPLICIT_PASS = 65500"

subsection \<open>Decimal numbers\<close>

subsection \<open>Making the proxy\<close>

definition entangle :: "socle_env \<Rightarrow> nat \<Rightarrow> nat \<Rightarrow> hstore \<Rightarrow> access_error + hstore" where
  "entangle se l r st = (case (h_com (st_cx st l), h_com (st_cx st r)) of
     (Some lc, Some rc) \<Rightarrow>
       let st = upd_com rc (\<lambda>c. c\<lparr>com_l3 := com_l3 (st_com st lc)\<rparr>) st;
           st = se_set_peer se l r st
       in Inr (se_set_peer se r l st)
   | _ \<Rightarrow> Inl NullDeref)"

definition make_proxy :: "socle_env \<Rightarrow> nat option \<Rightarrow> nat option \<Rightarrow> nat \<Rightarrow> hstore \<Rightarrow> access_error + (mitm_proxy option \<times> hstore)" where
  "make_proxy se left right slave st = (case (left, right) of
     (Some l, Some r) \<Rightarrow>
       if h_com (st_cx st l) = None then Inl NullDeref
       else
         let p = fresh_proxy slave;
             p = (if h_waiting_for_peercom (st_cx st l)
                  then p\<lparr>px_lda := px_lda p @ [l]\<rparr> else p\<lparr>px_ls := px_ls p @ [l]\<rparr>)
         in result_bind (entangle se l r st) (\<lambda>st. Inr (Some (p\<lparr>px_rs := px_rs p @ [r]\<rparr>), st))
   | _ \<Rightarrow> Inr (None, st))"

subsection \<open>Routing\<close>

definition endpoint_of :: "hstore \<Rightarrow> nat option \<Rightarrow> endpoint option" where
  "endpoint_of st i = map_option (\<lambda>i. (h_host (st_cx st i), h_port (st_cx st i))) i"

definition lb_index :: "maker_env \<Rightarrow> hstore \<Rightarrow> mitm_proxy \<Rightarrow> ProfileRouting \<Rightarrow> nat \<Rightarrow> nat" where
  "lb_index env st p rt sz = (case dnat_lb_method rt of
     LB_RR \<Rightarrow> lb_index_rr rt sz
   | LB_L3 \<Rightarrow> lb_index_l3 (mk_crc32 env) (endpoint_of st (first_left st p)) (endpoint_of st (first_right st p)) sz
   | LB_L4 \<Rightarrow> lb_index_l4 (mk_crc32 env) (endpoint_of st (first_left st p)) (endpoint_of st (first_right st p)) sz)"

definition get_dnat_target :: "maker_env \<Rightarrow> hstore \<Rightarrow> mitm_proxy \<Rightarrow> ProfileRouting option \<Rightarrow> string option \<times> string option" where
  "get_dnat_target env st p routing_profile = (case routing_profile of
     None \<Rightarrow> (None, None)
   | Some rt \<Rightarrow>
       let candidates = lb_candidates rt (com_l3 (st_com st (px_com p))) in
       if candidates = [] then (None, None)
       else
         let index = lb_index env st p rt (length candidates);
             ip = ae_to_str (mk_addr env) (candidates ! index);
             port = (if dnat_ports rt \<noteq> []
                     then (case mk_port_db env (hd (dnat_ports rt)) of
                             Some r \<Rightarrow> dec_int (fst r) | None \<Rightarrow> [])
                     else [])
         in (if ip = [] then None else Some ip, if port = [] then None else Some port))"

definition route_cx :: "maker_env \<Rightarrow> string option \<Rightarrow> string option \<Rightarrow> conn \<Rightarrow> conn" where
  "route_cx env op_ip op_port c =
     (let c = (case op_ip of Some ip \<Rightarrow> c\<lparr>h_host := ip\<rparr> | None \<Rightarrow> c)
      in case op_port of
           Some port \<Rightarrow> if pe_safe_val (ap_policy (mk_apply env)) port > 0 then c\<lparr>h_port := port\<rparr> else c
         | None \<Rightarrow> c)"

text \<open>Routing returns the verdict, the profile with its updated state, and the store.\<close>

definition route :: "maker_env \<Rightarrow> mitm_proxy option \<Rightarrow> ProfileRouting option \<Rightarrow> hstore \<Rightarrow> access_error + (bool \<times> ProfileRouting option \<times> hstore)" where
  "route env proxy routing_profile st = (case (routing_profile, proxy) of
     (Some rt, Some p) \<Rightarrow>
       result_bind (routing_update (mk_addr env) (mk_addr_db env) (ie_now (mk_id env)) rt) (\<lambda>rt.
         case get_dnat_target env st p (Some rt) of (op_ip, op_port) \<Rightarrow>
           if op_ip = None \<and> op_port = None then Inr (False, Some rt, st)
           else Inr (True, Some rt, fold (\<lambda>i. upd_cx i (route_cx env op_ip op_port)) (px_rs p) st))
   | _ \<Rightarrow> Inr (False, routing_profile, st))"

text \<open>Rules refer to routing profiles by shared pointers: an update is seen by every rule that names
  the profile.\<close>

definition share_routing :: "ProfileRouting \<Rightarrow> policy_rule \<Rightarrow> policy_rule" where
  "share_routing rt r = (case profile_routing (rule_profiles r) of
     Some old \<Rightarrow> if rt_name old = rt_name rt then r\<lparr>rule_profiles := (rule_profiles r)\<lparr>profile_routing := Some rt\<rparr>\<rparr> else r
   | None \<Rightarrow> r)"

definition lookup_policy :: "policy_rule list \<Rightarrow> nat \<Rightarrow> policy_rule option" where
  "lookup_policy rules i = (if i < length rules then Some (rules ! i) else None)"

subsection \<open>Policy\<close>

definition bypass_cx :: "socle_env \<Rightarrow> nat option \<Rightarrow> hstore \<Rightarrow> access_error + hstore" where
  "bypass_cx se cx st = (case cx of
     None \<Rightarrow> Inl NullDeref
   | Some i \<Rightarrow> (case h_com (st_cx st i) of
       None \<Rightarrow> Inr st
     | Some k \<Rightarrow> Inr (upd_ssl k (\<lambda>s. se_verify_reset se (VRF_OK se) (s\<lparr>opt_bypass := True\<rparr>)) st)))"

definition admit :: "maker_env \<Rightarrow> bool \<Rightarrow> mstate \<Rightarrow> access_error + (int \<times> mstate)" where
  "admit env implicit_allow s =
     (if implicit_allow then
        result_bind (bypass_cx (mk_socle env) (first_left (ms_st s) (ms_px s)) (ms_st s)) (\<lambda>st.
        result_bind (bypass_cx (mk_socle env) (first_right st (ms_px s)) st) (\<lambda>st.
          Inr (POLICY_IMPLICIT_PASS, s\<lparr>ms_st := st\<rparr>)))
      else
        result_bind (policy_apply (mk_apply env) (first_left (ms_st s) (ms_px s)) (- 1) (ms_rules s) (ms_px s) (ms_st s))
          (\<lambda>(num, rules, st, p). Inr (num, s\<lparr>ms_rules := rules, ms_st := st, ms_px := p\<rparr>)))"

definition route_by_policy :: "maker_env \<Rightarrow> int \<Rightarrow> mstate \<Rightarrow> access_error + mstate" where
  "route_by_policy env policy_num s = (case lookup_policy (ms_rules s) (nat policy_num) of
     None \<Rightarrow> Inr s
   | Some policy \<Rightarrow> (case profile_routing (rule_profiles policy) of
       None \<Rightarrow> Inr s
     | Some rt \<Rightarrow> result_bind (route env (Some (ms_px s)) (Some rt) (ms_st s)) (\<lambda>(_, rt', st).
         Inr (s\<lparr>ms_st := st, ms_rules := (case rt' of None \<Rightarrow> ms_rules s | Some rt' \<Rightarrow> map (share_routing rt') (ms_rules s))\<rparr>))))"

definition policy :: "maker_env \<Rightarrow> bool \<Rightarrow> mstate \<Rightarrow> access_error + (bool \<times> mstate)" where
  "policy env implicit_allow s =
     result_bind (admit env implicit_allow s) (\<lambda>(policy_num, s).
       case (first_left (ms_st s) (ms_px s), first_right (ms_st s) (ms_px s)) of
         (Some src_cx, Some dst_cx) \<Rightarrow>
           let s = set_st (upd_cx src_cx (\<lambda>c. c\<lparr>h_matched_policy := policy_num\<rparr>)) s;
               s = set_st (upd_cx dst_cx (\<lambda>c. c\<lparr>h_matched_policy := policy_num\<rparr>)) s;
               s = set_px (\<lambda>p. p\<lparr>px_matched_policy := policy_num\<rparr>) s
           in if policy_num < 0 then Inr (True, s)
              else result_bind (route_by_policy env policy_num s) (\<lambda>s. Inr (True, s))
       | _ \<Rightarrow> Inr (False, s))"

subsection \<open>Magic address\<close>

definition to_magic :: "maker_env \<Rightarrow> int \<Rightarrow> std_error + (string \<times> 16 word)" where
  "to_magic env target_port =
     (if target_port = 65000 then Inr (''127.0.0.1'', 65000 + mk_down_cast env (mk_tenant_index env))
      else if target_port \<noteq> 443 then
        result_bind (stoi (mk_portal_port_http env)) (\<lambda>n. Inr (''127.0.0.1'', mk_down_cast env n))
      else result_bind (stoi (mk_portal_port_https env)) (\<lambda>n. Inr (''127.0.0.1'', mk_down_cast env n)))"

subsection \<open>Authorization\<close>

definition authorize_is_bad :: "mstate \<Rightarrow> bool" where
  "authorize_is_bad s = (case (first_left (ms_st s) (ms_px s), first_right (ms_st s) (ms_px s)) of
     (Some left, Some right) \<Rightarrow>
       (case policy_prof_auth (ms_rules s) (h_matched_policy (st_cx (ms_st s) left)) of
          None \<Rightarrow> False
        | Some pa \<Rightarrow>
            let af = cx_af (ms_st s) left; host = h_host (st_cx (ms_st s) left);
                maybe_groups = (if af_v4 af then ip4_get_groups (ms_auth s) host
                                else if af = AF_INET6 then ip6_get_groups (ms_auth s) host else None)
            in (case maybe_groups of
                  None \<Rightarrow> True
                | Some groups \<Rightarrow>
                    \<not> list_ex (\<lambda>sub. list_ex (\<lambda>candidate. candidate = sub_name sub) groups) (sub_policies pa)))
   | _ \<Rightarrow> False)"

definition authorize :: "maker_env \<Rightarrow> mstate \<Rightarrow> access_error + (bool \<times> mstate)" where
  "authorize env s =
     (if opt_auth_authenticate (ms_px s) then
        result_bind (resolve_identity (mk_id env) (first_left (ms_st s) (ms_px s)) False s) (\<lambda>(res, s).
          if res then
            if authorize_is_bad s then Inr (False, set_px (\<lambda>p. p\<lparr>auth_block_identity := True\<rparr>) s) else Inr (True, s)
          else Inr (False, s))
      else if opt_auth_resolve (ms_px s) then
        result_bind (resolve_identity (mk_id env) (first_left (ms_st s) (ms_px s)) False s) (\<lambda>(_, s). Inr (True, s))
      else Inr (True, s))"

definition is_replaceable :: "int \<Rightarrow> bool" where
  "is_replaceable port \<longleftrightarrow> port \<in> {80, 443}"

subsection \<open>Source address and connection\<close>

text \<open>The exceptions \<open>at\<close> and \<open>stoi\<close> may throw are caught and turned into a refusal.\<close>

definition setup_snat :: "string \<Rightarrow> string \<Rightarrow> mstate \<Rightarrow> access_error + (bool \<times> mstate)" where
  "setup_snat source_host source_port s =
     (case (first_left (ms_st s) (ms_px s), first_right (ms_st s) (ms_px s)) of
        (Some source_cx, Some target_cx) \<Rightarrow>
          if px_matched_policy (ms_px s) = POLICY_IMPLICIT_PASS then Inr (True, s)
          else (case policy_at (ms_rules s) (px_matched_policy (ms_px s)) of
             Inl _ \<Rightarrow> Inr (False, s)
           | Inr r \<Rightarrow>
               if rule_nat r = POLICY_NAT_NONE then
                 (case stoi source_port of
                    Inl _ \<Rightarrow> Inr (False, s)
                  | Inr n \<Rightarrow> (case h_com (st_cx (ms_st s) target_cx) of
                      None \<Rightarrow> Inl NullDeref
                    | Some k \<Rightarrow> Inr (True, set_st (upd_com k (\<lambda>c. c\<lparr>nonlocal_src_port := n,
                        nonlocal_src_host := source_host, nonlocal_src := True\<rparr>)) s)))
               else Inr (True, s))
      | _ \<Rightarrow> Inr (False, s))"

text \<open>The owner of accepted proxies: its transport, the proxies it runs, the connections opened on
  its behalf and the poll operations.\<close>

record master_proxy =
  mp_com :: "nat option"
  mp_proxies :: "mitm_proxy list"
  mp_connected :: "nat list"
  mp_events :: "io_event list"

definition connect :: "maker_env \<Rightarrow> mstate \<Rightarrow> master_proxy option \<Rightarrow> bool \<times> master_proxy option" where
  "connect env s owner = (case (owner, first_left (ms_st s) (ms_px s), first_right (ms_st s) (ms_px s)) of
     (Some o', Some left, Some right) \<Rightarrow>
       (case mp_com o' of
          None \<Rightarrow> (False, owner)
        | Some oc \<Rightarrow>
            let right_socket = mk_connect env right
            in (True, Some (o'\<lparr>mp_connected := mp_connected o' @ [right],
                 mp_events := mp_events o' @ [SetMonitor right_socket,
                    SetPollHandler (h_socket (st_cx (ms_st s) left)), SetPollHandler right_socket],
                 mp_proxies := mp_proxies o' @ [ms_px s]\<rparr>)))
   | _ \<Rightarrow> (False, owner))"

subsection \<open>Accepted connections\<close>

text \<open>What the transport knows of an accepted socket.\<close>

record accepted =
  ac_dst_resolved :: bool
  ac_dst_host :: string
  ac_dst_port :: "16 word"
  ac_src :: "(string \<times> string) option"

text \<open>A connection constructed for a target, and the transport \<open>slave()\<close> gave it.\<close>

definition new_target :: "string \<Rightarrow> string \<Rightarrow> nat \<Rightarrow> conn" where
  "new_target host port c = \<lparr>h_mitm = True, h_host = host, h_port = port, h_socket = 0, h_com = Some c,
     h_peer = None, h_peercom = None, h_waiting_for_peercom = False, h_io_disabled = False,
     h_to_read = [], h_comlog = [], h_write_pending = False, h_out = [], h_shutdown = False, h_close_after_write = False,
     h_idle_delay = 0, meter_read_bytes = 0, meter_write_bytes = 0, meter_read_count = 0,
     meter_write_count = 0, h_mode = 0, opt_engines_enabled = True, opt_kb_enabled = True,
     h_inspectors = [], h_matched_policy = - 1, replacement_type = REPLACETYPE_NONE,
     replacement_flag = REPLACE_NONE, h_app_is_ssl = None, h_original_request = [], h_http = None\<rparr>"

record fresh_ids =
  fi_target :: nat
  fi_target_com :: nat
  fi_proxy_com :: nat

text \<open>The common part of both handlers: make the proxy, apply the policy and authorize. The result
  says whether the handler goes on; the state carries the new proxy.\<close>

definition admit_new :: "maker_env \<Rightarrow> fresh_ids \<Rightarrow> nat \<Rightarrow> string \<Rightarrow> 16 word \<Rightarrow> bool \<Rightarrow> mstate \<Rightarrow> access_error + (bool \<times> mstate)" where
  "admit_new env ids cx target_host target_port magic s =
     (let s = set_st (upd_cx (fi_target ids) (\<lambda>_. new_target target_host (dec (unat target_port)) (fi_target_com ids))) s
      in result_bind (make_proxy (mk_socle env) (Some cx) (Some (fi_target ids)) (fi_proxy_com ids) (ms_st s)) (\<lambda>(p, st).
           case p of
             None \<Rightarrow> Inl NullDeref
           | Some p \<Rightarrow>
               result_bind (policy env magic (s\<lparr>ms_px := p, ms_st := st\<rparr>)) (\<lambda>(ok, s).
                 if \<not> ok then Inr (False, s)
                 else result_bind (authorize env s) (\<lambda>(auth, s).
                   Inr (auth \<or> is_replaceable (uint target_port), s)))))"

definition finish_new :: "maker_env \<Rightarrow> string \<Rightarrow> string \<Rightarrow> mstate \<Rightarrow> master_proxy \<Rightarrow> access_error + (bool \<times> mstate \<times> master_proxy)" where
  "finish_new env source_host source_port s m =
     result_bind (setup_snat source_host source_port s) (\<lambda>(ok, s).
       if \<not> ok then Inr (False, s, m)
       else (case connect env s (Some m) of
          (c, m') \<Rightarrow> Inr (c, s, case m' of None \<Rightarrow> m | Some m' \<Rightarrow> m')))"

definition shutdown_cx :: "nat \<Rightarrow> mstate \<Rightarrow> mstate" where
  "shutdown_cx cx s = set_st (upd_cx cx (\<lambda>c. c\<lparr>h_shutdown := True\<rparr>)) s"

definition on_left_new :: "maker_env \<Rightarrow> fresh_ids \<Rightarrow> accepted \<Rightarrow> nat \<Rightarrow> mstate \<Rightarrow> master_proxy \<Rightarrow>
    maker_error + (bool \<times> mstate \<times> master_proxy)" where
  "on_left_new env ids ac cx s m =
     (if \<not> ac_dst_resolved ac then Inr (False, shutdown_cx cx s, m)
      else case ac_src ac of
        None \<Rightarrow> Inr (False, shutdown_cx cx s, m)
      | Some (source_host, source_port) \<Rightarrow>
          let redirected_magic = (ac_dst_host ac = mk_tenant_magic_ip env)
          in result_bind (if redirected_magic
                          then (case to_magic env (uint (ac_dst_port ac)) of Inl e \<Rightarrow> Inl (Std e) | Inr r \<Rightarrow> Inr r)
                          else Inr (ac_dst_host ac, ac_dst_port ac)) (\<lambda>(target_host, target_port).
             result_bind (lift_access (admit_new env ids cx target_host target_port redirected_magic s)) (\<lambda>(go, s).
               if \<not> go then Inr (False, s, m)
               else lift_access (finish_new env source_host source_port s m))))"

definition udp_on_left_new :: "maker_env \<Rightarrow> fresh_ids \<Rightarrow> accepted \<Rightarrow> nat \<Rightarrow> mstate \<Rightarrow> master_proxy \<Rightarrow>
    access_error + (bool \<times> mstate \<times> master_proxy)" where
  "udp_on_left_new env ids ac cx s m =
     result_bind (admit_new env ids cx (ac_dst_host ac) (ac_dst_port ac) False s) (\<lambda>(go, s).
       if \<not> go then Inr (False, s, m)
       else (case ac_src ac of
          None \<Rightarrow> Inr (False, shutdown_cx cx s, m)
        | Some (source_host, source_port) \<Rightarrow> finish_new env source_host source_port s m))"

section \<open>Admission\<close>

lemma set_st_upd_cx_frame [simp]:
  "h_host (st_cx (upd_cx i (\<lambda>c. c\<lparr>h_matched_policy := n\<rparr>) st) j) = h_host (st_cx st j)"
  "h_mitm (st_cx (upd_cx i (\<lambda>c. c\<lparr>h_matched_policy := n\<rparr>) st) j) = h_mitm (st_cx st j)"
  by simp_all

lemma first_upd_policy [simp]:
  "first_left (upd_cx i (\<lambda>c. c\<lparr>h_matched_policy := n\<rparr>) st) p = first_left st p"
  "first_right (upd_cx i (\<lambda>c. c\<lparr>h_matched_policy := n\<rparr>) st) p = first_right st p"
  by (auto simp: first_left_def first_right_def as_mitm_def)

lemma first_px_policy [simp]:
  "first_left st (p\<lparr>px_matched_policy := n\<rparr>) = first_left st p"
  "first_right st (p\<lparr>px_matched_policy := n\<rparr>) = first_right st p"
  by (simp_all add: first_left_def first_right_def)

lemma share_routing_frame [simp]:
  "rule_action (share_routing rt r) = rule_action r" "rule_nat (share_routing rt r) = rule_nat r"
  "rule_auth (share_routing rt r) = rule_auth r"
  by (simp_all add: share_routing_def split: option.split)

lemma policy_apply_match:
  assumes "policy_apply env o' (- 1) rules p st = Inr (n, rules', st', p')"
  shows "policy_match (ap_policy env) rules (Some (view_proxy st p)) = Inr (n, rules')"
  using assms by (auto simp: policy_apply_def result_bind_Inr_iff split: if_splits)

lemma route_by_policy_frame:
  assumes "route_by_policy env n s = Inr s'"
  shows "ms_px s' = ms_px s \<and> length (ms_rules s') = length (ms_rules s) \<and> ms_auth s' = ms_auth s"
  using assms by (auto simp: route_by_policy_def result_bind_Inr_iff split: option.splits)

text \<open>The number a proxy carries after the policy step is the one the rule search returned.\<close>

lemma policy_number:
  assumes "policy env False s = Inr (True, s')"
  shows "\<exists>rules'. policy_match (ap_policy (mk_apply env)) (ms_rules s) (Some (view_proxy (ms_st s) (ms_px s)))
           = Inr (px_matched_policy (ms_px s'), rules') \<and> length (ms_rules s') = length (ms_rules s)"
proof -
  from assms obtain n s1 where ad: "admit env False s = Inr (n, s1)"
    by (auto simp: policy_def result_bind_Inr_iff)
  then obtain rules' st' p' where pa: "policy_apply (mk_apply env) (first_left (ms_st s) (ms_px s)) (- 1) (ms_rules s) (ms_px s) (ms_st s)
      = Inr (n, rules', st', p')" and s1: "s1 = s\<lparr>ms_rules := rules', ms_st := st', ms_px := p'\<rparr>"
    by (auto simp: admit_def result_bind_Inr_iff)
  note pm = policy_apply_match[OF pa]
  have len: "length rules' = length (ms_rules s)"
    using proxy_rules.search_length pm unfolding policy_match_def by blast
  have "px_matched_policy (ms_px s') = n \<and> length (ms_rules s') = length rules'"
    using assms ad s1
    by (auto simp: policy_def result_bind_Inr_iff Let_def split: option.splits if_splits dest: route_by_policy_frame)
  with pm len show ?thesis by auto
qed

lemma authorize_frame:
  assumes "authorize env s = Inr (r, s')"
  shows "px_matched_policy (ms_px s') = px_matched_policy (ms_px s) \<and> ms_rules s' = ms_rules s"
proof -
  have *: "px_matched_policy (ms_px t) = px_matched_policy (ms_px s) \<and> ms_rules t = ms_rules s"
    if "resolve_identity (mk_id env) cx False s = Inr (b, t)" for b t cx
  proof (cases cx)
    case None
    with that show ?thesis by (simp add: resolve_identity_def)
  next
    case (Some c)
    with resolve_identity_valid[of "mk_id env" c False s b t] that
    show ?thesis using payload_only_frame(3) by fastforce
  qed
  show ?thesis using assms by (auto simp: authorize_def result_bind_Inr_iff split: if_splits dest!: *)
qed

lemma setup_snat_True:
  assumes "setup_snat h p s = Inr (True, s')"
  shows "ms_px s' = ms_px s \<and> ms_rules s' = ms_rules s
    \<and> (px_matched_policy (ms_px s) = POLICY_IMPLICIT_PASS
       \<or> 0 \<le> px_matched_policy (ms_px s) \<and> px_matched_policy (ms_px s) < int (length (ms_rules s)))"
  using assms
  by (auto simp: setup_snat_def policy_at_def split: option.splits sum.splits if_splits)

lemma finish_new_True:
  assumes "finish_new env h p s m = Inr (True, s', m')"
  shows "ms_px s' = ms_px s \<and> ms_rules s' = ms_rules s
    \<and> (px_matched_policy (ms_px s) = POLICY_IMPLICIT_PASS
       \<or> 0 \<le> px_matched_policy (ms_px s) \<and> px_matched_policy (ms_px s) < int (length (ms_rules s)))"
  using assms by (auto simp: finish_new_def result_bind_Inr_iff split: if_splits prod.splits dest: setup_snat_True)

text \<open>A search result that survives source address set-up is a rule.\<close>

lemma matched_in_range:
  assumes "policy_match env rules v = Inr (n, rules')"
    and "n = POLICY_IMPLICIT_PASS \<or> 0 \<le> n \<and> n < int (length rules)"
  shows "0 \<le> n \<and> n < int (length rules)"
  using assms proxy_rules.search_bound unfolding policy_match_def POLICY_IMPLICIT_PASS_def by fastforce

lemma admit_new_policy:
  assumes "admit_new env ids cx host port False s = Inr (True, s')"
  shows "\<exists>st p rules'.
      make_proxy (mk_socle env) (Some cx) (Some (fi_target ids)) (fi_proxy_com ids)
        (upd_cx (fi_target ids) (\<lambda>_. new_target host (dec (unat port)) (fi_target_com ids)) (ms_st s)) = Inr (Some p, st)
    \<and> policy_match (ap_policy (mk_apply env)) (ms_rules s) (Some (view_proxy st p)) = Inr (px_matched_policy (ms_px s'), rules')
    \<and> length (ms_rules s') = length (ms_rules s)"
proof -
  from assms obtain p st s1 a where mk: "make_proxy (mk_socle env) (Some cx) (Some (fi_target ids)) (fi_proxy_com ids)
        (upd_cx (fi_target ids) (\<lambda>_. new_target host (dec (unat port)) (fi_target_com ids)) (ms_st s)) = Inr (Some p, st)"
      and po: "policy env False ((set_st (upd_cx (fi_target ids) (\<lambda>_. new_target host (dec (unat port)) (fi_target_com ids))) s)
                 \<lparr>ms_px := p, ms_st := st\<rparr>) = Inr (True, s1)"
      and au: "authorize env s1 = Inr (a, s')"
    by (auto simp: admit_new_def Let_def result_bind_Inr_iff split: option.splits if_splits)
  from policy_number[OF po] authorize_frame[OF au] mk show ?thesis by auto
qed

text \<open>C38: Implicit deny: a TCP connection whose destination is not the magic address of the tenant is
  opened only when a rule matches the new proxy. The proxy then carries the index of the rule the
  first-match search returned, which lies in the rule list.\<close>

theorem connected_needs_rule:
  assumes "on_left_new env ids ac cx s m = Inr (True, s', m')"
    and "ac_dst_host ac \<noteq> mk_tenant_magic_ip env"
  shows "\<exists>st p rules'.
      make_proxy (mk_socle env) (Some cx) (Some (fi_target ids)) (fi_proxy_com ids)
        (upd_cx (fi_target ids) (\<lambda>_. new_target (ac_dst_host ac) (dec (unat (ac_dst_port ac))) (fi_target_com ids)) (ms_st s))
        = Inr (Some p, st)
    \<and> policy_match (ap_policy (mk_apply env)) (ms_rules s) (Some (view_proxy st p)) = Inr (px_matched_policy (ms_px s'), rules')
    \<and> 0 \<le> px_matched_policy (ms_px s') \<and> px_matched_policy (ms_px s') < int (length (ms_rules s))"
proof -
  from assms obtain sh sp s1 where ad: "admit_new env ids cx (ac_dst_host ac) (ac_dst_port ac) False s = Inr (True, s1)"
      and fin: "finish_new env sh sp s1 m = Inr (True, s', m')"
    by (auto simp: on_left_new_def lift_access_def Let_def result_bind_Inr_iff split: if_splits option.splits sum.splits)
  from admit_new_policy[OF ad] finish_new_True[OF fin] matched_in_range show ?thesis by metis
qed

text \<open>The same for datagrams.\<close>

theorem udp_connected_needs_rule:
  assumes "udp_on_left_new env ids ac cx s m = Inr (True, s', m')"
  shows "\<exists>st p rules'.
      make_proxy (mk_socle env) (Some cx) (Some (fi_target ids)) (fi_proxy_com ids)
        (upd_cx (fi_target ids) (\<lambda>_. new_target (ac_dst_host ac) (dec (unat (ac_dst_port ac))) (fi_target_com ids)) (ms_st s))
        = Inr (Some p, st)
    \<and> policy_match (ap_policy (mk_apply env)) (ms_rules s) (Some (view_proxy st p)) = Inr (px_matched_policy (ms_px s'), rules')
    \<and> 0 \<le> px_matched_policy (ms_px s') \<and> px_matched_policy (ms_px s') < int (length (ms_rules s))"
proof -
  from assms obtain sh sp s1 where ad: "admit_new env ids cx (ac_dst_host ac) (ac_dst_port ac) False s = Inr (True, s1)"
      and fin: "finish_new env sh sp s1 m = Inr (True, s', m')"
    by (auto simp: udp_on_left_new_def result_bind_Inr_iff split: if_splits option.splits)
  from admit_new_policy[OF ad] finish_new_True[OF fin] matched_in_range show ?thesis by metis
qed

text \<open>An explicit deny rule is not enforced on the transparent path. When the first matching rule
  has the action deny, translates the source address and does not route, the connection is opened
  all the same: the verdict is only logged, and a rule that denies does not even ask for
  authentication.\<close>

theorem deny_rule_still_connects:
  assumes ac: "ac_dst_resolved ac" "ac_src ac = Some (sh, sp)" "ac_dst_host ac \<noteq> mk_tenant_magic_ip env"
    and mk: "make_proxy (mk_socle env) (Some cx) (Some (fi_target ids)) (fi_proxy_com ids)
        (upd_cx (fi_target ids) (\<lambda>_. new_target (ac_dst_host ac) (dec (unat (ac_dst_port ac))) (fi_target_com ids)) (ms_st s))
        = Inr (Some p, st)"
    and ends: "first_left st p = Some l" "first_right st p = Some r"
    and pm: "policy_match (ap_policy (mk_apply env)) (ms_rules s) (Some (view_proxy st p)) = Inr (n, rules')"
    and rule: "0 \<le> n" "rule_action (rules' ! nat n) = POLICY_ACTION_DENY" "rule_nat (rules' ! nat n) \<noteq> POLICY_NAT_NONE"
      "profile_routing (rule_profiles (rules' ! nat n)) = None"
    and owner: "mp_com m = Some oc"
  shows "\<exists>s' m'. on_left_new env ids ac cx s m = Inr (True, s', m') \<and> mp_connected m' = mp_connected m @ [r]"
proof -
  have n: "n < int (length rules')"
    using proxy_rules.search_bound proxy_rules.search_length pm unfolding policy_match_def by metis
  have flags: "\<not> opt_auth_authenticate p" "\<not> opt_auth_resolve p"
    using mk by (auto simp: make_proxy_def Let_def fresh_proxy_def result_bind_Inr_iff split: if_splits)
  have act: "policy_action rules' n \<noteq> POLICY_ACTION_PASS"
    using rule(1,2) n by (simp add: policy_action_def POLICY_ACTION_DENY_def POLICY_ACTION_PASS_def)
  let ?s0 = "(set_st (upd_cx (fi_target ids) (\<lambda>_. new_target (ac_dst_host ac) (dec (unat (ac_dst_port ac))) (fi_target_com ids))) s)
     \<lparr>ms_px := p, ms_st := st\<rparr>"
  let ?st = "upd_cx r (\<lambda>c. c\<lparr>h_matched_policy := n\<rparr>) (upd_cx l (\<lambda>c. c\<lparr>h_matched_policy := n\<rparr>) st)"
  let ?s1 = "?s0\<lparr>ms_rules := rules', ms_st := ?st, ms_px := p\<lparr>px_matched_policy := n\<rparr>\<rparr>"
  have pol: "policy env False ?s0 = Inr (True, ?s1)"
    using pm act ends rule n
    by (simp add: policy_def admit_def policy_apply_def route_by_policy_def lookup_policy_def Let_def set_st_def set_px_def nat_less_iff)
  then have ad: "admit_new env ids cx (ac_dst_host ac) (ac_dst_port ac) False s = Inr (True, ?s1)"
    using mk flags by (simp add: admit_new_def authorize_def Let_def)
  have "setup_snat sh sp ?s1 = Inr (True, ?s1)"
    using ends rule n by (simp add: setup_snat_def policy_at_def)
  moreover obtain m' where "connect env ?s1 (Some m) = (True, Some m')" "mp_connected m' = mp_connected m @ [r]"
    using owner ends by (auto simp: connect_def Let_def)
  ultimately have "finish_new env sh sp ?s1 m = Inr (True, ?s1, m')" "mp_connected m' = mp_connected m @ [r]"
    by (simp_all add: finish_new_def)
  then show ?thesis using ad ac by (simp add: on_left_new_def lift_access_def Let_def)
qed

section \<open>Authorization\<close>

text \<open>C26: Where a policy asks for authentication, a connection is authorized only for a client whose
  address has an identity in the tables, seen at this moment under this policy, and one of whose
  groups is named by a sub-profile of the authentication profile of the policy.\<close>

theorem authorize_sound:
  assumes "authorize env s = Inr (True, s')" and "opt_auth_authenticate (ms_px s)"
    and "first_left (ms_st s) (ms_px s) = Some cx"
  shows "live_identity (ie_now (mk_id env)) cx s (ms_auth s')
    \<and> (\<forall>left right pa. first_left (ms_st s') (ms_px s') = Some left \<and> first_right (ms_st s') (ms_px s') = Some right
         \<and> policy_prof_auth (ms_rules s') (h_matched_policy (st_cx (ms_st s') left)) = Some pa
       \<longrightarrow> (\<exists>groups sub. find_id_groups left s' = Some groups \<and> sub \<in> set (sub_policies pa) \<and> sub_name sub \<in> set groups))"
proof -
  from assms have r: "resolve_identity (mk_id env) (Some cx) False s = Inr (True, s')" "\<not> authorize_is_bad s'"
    by (auto simp: authorize_def result_bind_Inr_iff split: if_splits)
  have "\<exists>groups sub. find_id_groups left s' = Some groups \<and> sub \<in> set (sub_policies pa) \<and> sub_name sub \<in> set groups"
    if "first_left (ms_st s') (ms_px s') = Some left" "first_right (ms_st s') (ms_px s') = Some right"
      "policy_prof_auth (ms_rules s') (h_matched_policy (st_cx (ms_st s') left)) = Some pa" for left right pa
    using r(2) that
    by (auto simp: authorize_is_bad_def find_id_groups_def ip4_get_groups_def ip6_get_groups_def Let_def list_ex_iff
        split: option.splits if_splits)
  with resolve_identity_valid[OF r(1)] show ?thesis by blast
qed

section \<open>Routing\<close>

lemma lb_index_bound: "0 < sz \<Longrightarrow> lb_index env st p rt sz < sz"
  using rr.pick_bound[of sz rt] l3.pick_bound[of sz "(mk_crc32 env, endpoint_of st (first_left st p), endpoint_of st (first_right st p))"]
    l4.pick_bound[of sz "(mk_crc32 env, endpoint_of st (first_left st p), endpoint_of st (first_right st p))"]
  by (simp add: lb_index_def split: lb_method.split)

lemma route_cx_idem: "route_cx env a b (route_cx env a b c) = route_cx env a b c"
  by (simp add: route_cx_def Let_def split: option.split)

lemma fold_upd_cx:
  assumes "\<And>c. f (f c) = f c"
  shows "st_cx (fold (\<lambda>i. upd_cx i f) xs st) i = (if i \<in> set xs then f (st_cx st i) else st_cx st i)"
    "st_com (fold (\<lambda>i. upd_cx i f) xs st) = st_com st"
  by (induction xs arbitrary: st) (auto simp: assms)

text \<open>When routing succeeds, every server connection of the proxy goes to one of the candidates
  the profile holds for the address family of the proxy (the address is kept if the candidate
  prints as nothing), all of them to the same one, whatever the balancing method; other
  connections and all transports are untouched.\<close>

theorem route_to_candidate:
  assumes "route env (Some p) (Some rt) st = Inr (True, rt', st')"
  shows "\<exists>rt1 c. rt' = Some rt1 \<and> c \<in> set (lb_candidates rt1 (com_l3 (st_com st (px_com p))))
    \<and> (\<forall>i. h_host (st_cx st' i) = (if i \<in> set (px_rs p) \<and> ae_to_str (mk_addr env) c \<noteq> []
                                    then ae_to_str (mk_addr env) c else h_host (st_cx st i)))
    \<and> (\<forall>i. i \<notin> set (px_rs p) \<longrightarrow> st_cx st' i = st_cx st i) \<and> st_com st' = st_com st"
proof -
  from assms obtain rt1 where up1: "routing_update (mk_addr env) (mk_addr_db env) (ie_now (mk_id env)) rt = Inr rt1"
    by (auto simp: route_def result_bind_Inr_iff)
  obtain ip port where t1: "get_dnat_target env st p (Some rt1) = (ip, port)" by fastforce
  from assms up1 t1 have up: "rt' = Some rt1" and t: "get_dnat_target env st p (Some rt1) = (ip, port)" "ip \<noteq> None \<or> port \<noteq> None"
      and st': "st' = fold (\<lambda>i. upd_cx i (route_cx env ip port)) (px_rs p) st"
    by (auto simp: route_def split: if_splits)
  let ?cs = "lb_candidates rt1 (com_l3 (st_com st (px_com p)))"
  let ?c = "?cs ! lb_index env st p rt1 (length ?cs)"
  have ne: "?cs \<noteq> []" and ip: "ip = (if ae_to_str (mk_addr env) ?c = [] then None else Some (ae_to_str (mk_addr env) ?c))"
    using t by (auto simp: get_dnat_target_def Let_def split: if_splits)
  have "?c \<in> set ?cs" using ne lb_index_bound by simp
  moreover have "h_host (route_cx env ip port x) = (if ae_to_str (mk_addr env) ?c \<noteq> [] then ae_to_str (mk_addr env) ?c else h_host x)" for x
    unfolding ip by (simp add: route_cx_def Let_def split: option.split)
  ultimately show ?thesis
    using up st' fold_upd_cx[of "route_cx env ip port" "px_rs p" st] by (auto simp: route_cx_idem)
qed

section \<open>Examples\<close>

text \<open>A configuration with one rule for everything and an owner ready to accept.\<close>

definition plain_maker :: maker_env where
  "plain_maker = \<lparr>mk_id = \<lparr>ie_apply = plain_env, ie_now = 1000,
       ie_shm4 = \<lparr>sv_rc = 0, sv_load = - 1, sv_rows = [], sv_map = []\<rparr>,
       ie_shm6 = \<lparr>sv_rc = 0, sv_load = - 1, sv_rows = [], sv_map = []\<rparr>, ie_inet_pton = (\<lambda>s. None)\<rparr>,
     mk_addr_db = (\<lambda>n. None), mk_port_db = (\<lambda>n. None), mk_crc32 = (\<lambda>s. 0), mk_down_cast = of_int,
     mk_tenant_index = 0, mk_tenant_magic_ip = ''1.2.3.4'', mk_portal_port_http = ''8008'',
     mk_portal_port_https = ''8043'', mk_connect = (\<lambda>i. 9)\<rparr>"

definition plain_state :: "policy_rule list \<Rightarrow> mstate" where
  "plain_state rules = \<lparr>ms_px = plain_proxy, ms_st = plain_store 8, ms_auth = sample_factory, ms_rules = rules,
     ms_whitelist = [], ms_tokens = [], ms_shm_tokens = [], ms_meters = []\<rparr>"

definition plain_master :: master_proxy where
  "plain_master = \<lparr>mp_com = Some 0, mp_proxies = [], mp_connected = [], mp_events = []\<rparr>"

definition plain_accepted :: accepted where
  "plain_accepted = \<lparr>ac_dst_resolved = True, ac_dst_host = ''s'', ac_dst_port = 443, ac_src = Some (''c'', ''40000'')\<rparr>"

definition plain_ids :: fresh_ids where
  "plain_ids = \<lparr>fi_target = 1, fi_target_com = 1, fi_proxy_com = 2\<rparr>"

lemmas plain_maker_defs = plain_maker_def plain_state_def plain_master_def plain_accepted_def plain_ids_def plain_env_def

text \<open>The connections of the new proxy after it was made.\<close>

definition made_store :: hstore where
  "made_store =
     (let st = upd_cx 1 (\<lambda>_. new_target ''s'' (dec 443) 1) (plain_store 8);
          st = upd_com 1 (\<lambda>c. c\<lparr>com_l3 := com_l3 (st_com st 0)\<rparr>) st;
          st = se_set_peer plain_socle 0 1 st
      in se_set_peer plain_socle 1 0 st)"

definition made_proxy :: mitm_proxy where
  "made_proxy = (fresh_proxy 2)\<lparr>px_ls := [0], px_rs := [1]\<rparr>"

lemma plain_make:
  "make_proxy (mk_socle plain_maker) (Some 0) (Some (fi_target plain_ids)) (fi_proxy_com plain_ids)
     (upd_cx (fi_target plain_ids) (\<lambda>_. new_target (ac_dst_host plain_accepted) (dec (unat (ac_dst_port plain_accepted))) (fi_target_com plain_ids))
        (ms_st (plain_state rules))) = Inr (Some made_proxy, made_store)"
  by (simp add: make_proxy_def entangle_def made_store_def made_proxy_def plain_maker_defs Let_def fresh_proxy_def
      new_target_def plain_store_def plain_conn_def plain_com_def)

lemma made_ends [simp]: "first_left made_store made_proxy = Some 0" "first_right made_store made_proxy = Some 1"
  by (simp_all add: first_left_def first_right_def made_proxy_def fresh_proxy_def made_store_def Let_def as_mitm_def
      plain_socle_def new_target_def plain_store_def plain_conn_def)

definition deny_rule :: policy_rule where
  "deny_rule = (new_rule ''deny'')\<lparr>rule_action := POLICY_ACTION_DENY, rule_nat := POLICY_NAT_AUTO\<rparr>"

lemma any_rule_matches:
  assumes "rule_proto r = 0" "rule_src r = []" "rule_dst r = []" "rule_src_ports r = []" "rule_dst_ports r = []" "\<not> is_disabled r"
  shows "policy_match env [r] (Some v) = Inr (0, [bump_matches r])"
proof -
  have a: "match_addrgrp_vecx env [] cxs = Inr True" for cxs
    by (cases cxs) (simp_all add: match_addrgrp_vecx_def match_addrgrp_cx_def)
  have p: "match_rangegrp_vecx env [] cxs" for cxs
    by (cases cxs) (simp_all add: match_rangegrp_vecx_def match_rangegrp_cx_def)
  show ?thesis
    using assms by (simp add: policy_match_def match_proxy_def proxy_checks_def a p bump_matches_def)
qed

lemmas plain_rule_defs = deny_rule_def new_rule_def bump_matches_def no_profiles_def

theorem deny_rule_still_connects_witness:
  "\<exists>s' m'. on_left_new plain_maker plain_ids plain_accepted 0 (plain_state [deny_rule]) plain_master = Inr (True, s', m')
     \<and> mp_connected m' = [1]"
proof -
  have pm: "policy_match (ap_policy (mk_apply plain_maker)) (ms_rules (plain_state [deny_rule])) (Some (view_proxy made_store made_proxy))
      = Inr (0, [bump_matches deny_rule])"
    using any_rule_matches[of deny_rule] by (simp add: plain_rule_defs plain_state_def)
  show ?thesis
    using deny_rule_still_connects[OF _ _ _ plain_make made_ends pm, of "''c''" "''40000''" plain_master 0]
    by (simp add: plain_rule_defs plain_accepted_def plain_maker_def plain_master_def POLICY_NAT_AUTO_def POLICY_NAT_NONE_def)
qed

definition pass_rule :: policy_rule where
  "pass_rule = (new_rule ''pass'')\<lparr>rule_nat := POLICY_NAT_AUTO\<rparr>"

lemma plain_run:
  "\<exists>s' m'. on_left_new plain_maker plain_ids plain_accepted 0 (plain_state [pass_rule]) plain_master = Inr (True, s', m')
     \<and> udp_on_left_new plain_maker plain_ids plain_accepted 0 (plain_state [pass_rule]) plain_master = Inr (True, s', m')"
proof -
  have pm: "policy_match (ap_policy (mk_apply plain_maker)) [pass_rule] (Some (view_proxy made_store made_proxy))
      = Inr (0, [bump_matches pass_rule])"
    using any_rule_matches[of pass_rule] by (simp add: pass_rule_def new_rule_def)
  have ap: "apply_profiles env o' [bump_matches pass_rule] 0 p st = Inr (st, p)" for env o' p st
    by (simp add: apply_profiles_def apply_content_def policy_prof_content_def policy_prof_detection_def policy_prof_tls_def
        policy_prof_alg_dns_def policy_prof_auth_def pass_rule_def bump_matches_def new_rule_def no_profiles_def)
  have r: "rule_nat (bump_matches pass_rule) = POLICY_NAT_AUTO" "rule_action (bump_matches pass_rule) = POLICY_ACTION_PASS"
    "profile_routing (rule_profiles (bump_matches pass_rule)) = None"
    by (simp_all add: pass_rule_def bump_matches_def new_rule_def no_profiles_def)
  let ?s = "\<lambda>s. (s :: mstate)\<lparr>ms_rules := [bump_matches pass_rule],
      ms_st := upd_cx 1 (\<lambda>c. c\<lparr>h_matched_policy := 0\<rparr>) (upd_cx 0 (\<lambda>c. c\<lparr>h_matched_policy := 0\<rparr>) made_store),
      ms_px := made_proxy\<lparr>px_matched_policy := 0\<rparr>\<rparr>"
  have pol: "policy plain_maker False (s\<lparr>ms_px := made_proxy, ms_st := made_store\<rparr>)
      = Inr (True, ?s (s\<lparr>ms_px := made_proxy, ms_st := made_store\<rparr>))" if "ms_rules s = [pass_rule]" for s
    using pm that ap r
    by (simp add: policy_def admit_def policy_apply_def policy_action_def route_by_policy_def lookup_policy_def
        Let_def set_st_def set_px_def)
  have au: "\<not> opt_auth_authenticate made_proxy" "\<not> opt_auth_resolve made_proxy"
    by (simp_all add: made_proxy_def fresh_proxy_def)
  obtain s1 where ad: "admit_new plain_maker plain_ids 0 (ac_dst_host plain_accepted) (ac_dst_port plain_accepted) False (plain_state [pass_rule]) = Inr (True, s1)"
      and s1: "first_left (ms_st s1) (ms_px s1) = Some 0" "first_right (ms_st s1) (ms_px s1) = Some 1"
        "px_matched_policy (ms_px s1) = 0" "ms_rules s1 = [bump_matches pass_rule]"
    using plain_make[of "[pass_rule]"] pol au
    by (auto simp: admit_new_def Let_def authorize_def plain_state_def)
  have "finish_new plain_maker ''c'' ''40000'' s1 plain_master = Inr (True, s1, the (snd (connect plain_maker s1 (Some plain_master))))"
    using s1 r by (simp add: finish_new_def setup_snat_def policy_at_def POLICY_IMPLICIT_PASS_def POLICY_NAT_AUTO_def POLICY_NAT_NONE_def
        connect_def plain_master_def Let_def)
  moreover have "ac_dst_resolved plain_accepted" "ac_src plain_accepted = Some (''c'', ''40000'')"
    "ac_dst_host plain_accepted \<noteq> mk_tenant_magic_ip plain_maker"
    by (simp_all add: plain_accepted_def plain_maker_def)
  ultimately show ?thesis
    using ad by (auto simp: on_left_new_def udp_on_left_new_def lift_access_def Let_def)
qed

theorem connected_needs_rule_witness:
  "\<exists>s' m'. on_left_new plain_maker plain_ids plain_accepted 0 (plain_state [pass_rule]) plain_master = Inr (True, s', m')
     \<and> px_matched_policy (ms_px s') = 0"
proof -
  from plain_run obtain s' m' where
    r: "on_left_new plain_maker plain_ids plain_accepted 0 (plain_state [pass_rule]) plain_master = Inr (True, s', m')" by blast
  have "ac_dst_host plain_accepted \<noteq> mk_tenant_magic_ip plain_maker"
    by (simp add: plain_accepted_def plain_maker_def)
  from connected_needs_rule[OF r this] r show ?thesis by (auto simp: plain_state_def)
qed

theorem udp_connected_needs_rule_witness:
  "\<exists>s' m'. udp_on_left_new plain_maker plain_ids plain_accepted 0 (plain_state [pass_rule]) plain_master = Inr (True, s', m')
     \<and> px_matched_policy (ms_px s') = 0"
proof -
  from plain_run obtain s' m' where
    r: "udp_on_left_new plain_maker plain_ids plain_accepted 0 (plain_state [pass_rule]) plain_master = Inr (True, s', m')" by blast
  from udp_connected_needs_rule[OF r] r show ?thesis by (auto simp: plain_state_def)
qed

text \<open>A client known to the tables under a policy that asks for its group.\<close>

definition staff_identity :: identity_info where
  "staff_identity = sample_identity\<lparr>groups_vec := [''staff'']\<rparr>"

definition staff_rule :: policy_rule where
  "staff_rule = (new_rule ''staff'')\<lparr>rule_auth := Some \<lparr>pa_flags = \<lparr>auth_name = ''a'', auth_authenticate = True, auth_resolve = False\<rparr>,
     sub_policies = [\<lparr>sub_name = ''staff'', sub_profiles = no_profiles\<rparr>]\<rparr>\<rparr>"

definition staff_state :: mstate where
  "staff_state = (plain_state [staff_rule])\<lparr>
     ms_st := upd_cx 0 (\<lambda>c. c\<lparr>h_matched_policy := 0\<rparr>) (plain_store 8),
     ms_px := plain_proxy\<lparr>opt_auth_authenticate := True, identity_resolved := True, px_matched_policy := 0\<rparr>,
     ms_auth := sample_factory\<lparr>ip4_table := (ip4_table sample_factory)\<lparr>ip_map := [(''c'', staff_identity)]\<rparr>\<rparr>\<rparr>"

theorem authorize_sound_witness:
  "\<exists>s'. authorize plain_maker staff_state = Inr (True, s') \<and> live_identity 1000 0 staff_state (ms_auth s')"
proof -
  let ?st = "upd_cx 0 (\<lambda>c. c\<lparr>h_matched_policy := 0\<rparr>) (plain_store 8)"
  have af: "af_v4 (cx_af ?st 0)" by (simp add: cx_af_def af_v4_def)
  have to: "\<not> i_timeout 1000 (staff_identity\<lparr>last_seen_policy := 0\<rparr>)"
    by (simp add: i_timeout_def staff_identity_def sample_identity_def new_identity_def)
  have fl: "first_left ?st (ms_px staff_state) = Some 0"
    by (simp add: first_left_def as_mitm_def staff_state_def plain_proxy_def fresh_proxy_def)
  obtain s' where u: "update_auth_ipX_map 1000 0 staff_state = (True, s')"
      and m: "ip_map (ip4_table (ms_auth s')) = [(''c'', id_touch 1000 (staff_identity\<lparr>last_seen_policy := 0\<rparr>))]"
    using af to by (simp add: update_auth_ipX_map_def staff_state_def plain_state_def plain_proxy_def fresh_proxy_def
        table_seen_def Let_def sample_factory_def)
  note f = update_auth_frame[OF u]
  have "\<not> authorize_is_bad s'"
    using f m af
    by (simp add: authorize_is_bad_def staff_state_def plain_state_def plain_proxy_def fresh_proxy_def first_left_def first_right_def as_mitm_def staff_rule_def
        policy_prof_auth_def ip4_get_groups_def table_get_groups_def id_touch_def staff_identity_def Let_def)
  moreover have "resolve_identity (mk_id plain_maker) (Some 0) False staff_state = Inr (True, s')"
    using u by (simp add: resolve_identity_def plain_maker_def) (simp add: staff_state_def)
  ultimately have a: "authorize plain_maker staff_state = Inr (True, s')"
    using fl by (simp add: authorize_def staff_state_def plain_state_def)
  have "opt_auth_authenticate (ms_px staff_state)" "first_left (ms_st staff_state) (ms_px staff_state) = Some 0"
    using fl by (simp_all add: staff_state_def plain_state_def)
  from authorize_sound[OF a this] a show ?thesis by (auto simp: plain_maker_def)
qed

definition web_routing :: ProfileRouting where
  "web_routing = \<lparr>rt_name = ''web'', dnat_addresses = [], dnat_ports = [], dnat_lb_method = LB_RR,
     lb_state = \<lparr>rr_counter = 0, last_refresh = 1000,
       candidates_v4 = [Some (v4_block 10 0 0 1 [0xff, 0xff, 0xff, 0xff]), Some (v4_block 10 0 0 2 [0xff, 0xff, 0xff, 0xff])],
       candidates_v6 = []\<rparr>\<rparr>"

definition routing_maker :: maker_env where
  "routing_maker = plain_maker\<lparr>mk_id := (mk_id plain_maker)\<lparr>ie_apply := plain_env\<lparr>ap_policy := (ap_policy plain_env)\<lparr>
     pe_addr := web_env\<lparr>ae_to_str := (\<lambda>c. if c = Some (v4_block 10 0 0 2 [0xff, 0xff, 0xff, 0xff]) then ''10.0.0.2'' else ''10.0.0.1'')\<rparr>\<rparr>\<rparr>\<rparr>\<rparr>"

theorem route_to_candidate_witness:
  "\<exists>rt' st'. route routing_maker (Some plain_proxy) (Some web_routing) (plain_store 8) = Inr (True, rt', st')
     \<and> h_host (st_cx st' 1) \<in> {''10.0.0.1'', ''10.0.0.2''} \<and> h_host (st_cx st' 0) = ''c''"
proof -
  have "\<exists>rt' st'. route routing_maker (Some plain_proxy) (Some web_routing) (plain_store 8) = Inr (True, rt', st')"
    by (simp add: route_def routing_update_def expand_candidates_def get_dnat_target_def lb_candidates_def Let_def
        routing_maker_def plain_maker_def web_routing_def plain_proxy_def fresh_proxy_def refresh_interval_def CIDR_IPV6_def AF_INET_def)
  then obtain rt' st' where r: "route routing_maker (Some plain_proxy) (Some web_routing) (plain_store 8) = Inr (True, rt', st')" by blast
  have to_str: "ae_to_str (mk_addr routing_maker) c \<in> {''10.0.0.1'', ''10.0.0.2''}" for c
    by (simp add: routing_maker_def)
  have px: "px_rs plain_proxy = [1]" by (simp add: plain_proxy_def)
  from route_to_candidate[OF r] obtain c where
    "\<forall>i. h_host (st_cx st' i) = (if i \<in> set (px_rs plain_proxy) \<and> ae_to_str (mk_addr routing_maker) c \<noteq> []
       then ae_to_str (mk_addr routing_maker) c else h_host (st_cx (plain_store 8) i))" by blast
  then have "h_host (st_cx st' 1) \<in> {''10.0.0.1'', ''10.0.0.2''}" "h_host (st_cx st' 0) = ''c''"
    using to_str[of c] px by auto
  with r show ?thesis by blast
qed

end
