(* ===== verification/Replacement.thy ===== *)
theory Replacement
  imports ProxyMaker
begin

text \<open>
  Replacement pages and the checks that produce them (\<open>src/src/proxy/mitmproxy.cpp\<close>): the list of
  overridden certificate checks, the TLS warning and override pages, the redirection to the
  authentication portal, and the two checks run on every new piece of data,
  \<open>handle_authentication\<close> and \<open>handle_com_response_ssl\<close>.

  The pages rendered from template files, the random number of a new token, the rows of the shared
  token table after a refresh and the cache object behind the list of overrides (\<open>ptr_cache\<close> of socle) are arguments.
\<close>

section \<open>Model\<close>

record mitm_env =
  me_id :: id_env
  me_wl_get :: "(string \<times> int) list \<Rightarrow> string \<Rightarrow> int option"
  me_wl_set :: "string \<Rightarrow> int \<Rightarrow> (string \<times> int) list \<Rightarrow> (string \<times> int) list"
  me_ssl_page :: "ssl_com \<Rightarrow> app_HttpRequest \<Rightarrow> string \<Rightarrow> string"
  me_msg_page :: "string \<Rightarrow> string \<Rightarrow> string"
  me_VRF_INVALID :: "32 word"
  me_VRF_ALLFAILED :: "32 word"
  me_VRF_CT_MISSING :: "32 word"
  me_portal_address :: string
  me_portal_address6 :: string
  me_portal_port_http :: string
  me_portal_port_https :: string
  me_token_timeout :: "32 word"
  me_token_number :: string
  me_token_rows :: "bytes list \<Rightarrow> bytes list"

abbreviation me_socle :: "mitm_env \<Rightarrow> socle_env" where "me_socle env \<equiv> ap_socle (ie_apply (me_id env))"
abbreviation me_now :: "mitm_env \<Rightarrow> int" where "me_now env \<equiv> ie_now (me_id env)"

definition quote :: string where "quote = [CHR 0x22]"
definition crlf :: string where "crlf = [CHR 0x0D, CHR 0x0A]"

subsection \<open>Strings\<close>

text \<open>\<open>std::string::find\<close> for a pattern.\<close>

fun find_sub :: "string \<Rightarrow> string \<Rightarrow> nat option" where
  "find_sub pat [] = (if pat = [] then Some 0 else None)"
| "find_sub pat (c # cs) = (if take (length pat) (c # cs) = pat then Some 0 else map_option Suc (find_sub pat cs))"

definition has_sub :: "string \<Rightarrow> string \<Rightarrow> bool" where
  "has_sub pat s \<longleftrightarrow> find_sub pat s \<noteq> None"

text \<open>\<open>std::string::substr(pos)\<close> throws when the position is behind the end.\<close>

definition substr_from :: "string \<Rightarrow> nat \<Rightarrow> access_error + string" where
  "substr_from s pos = (if pos \<le> length s then Inr (drop pos s) else Inl OutOfRange)"

fun hex_digits :: "nat \<Rightarrow> string" where
  "hex_digits n = (let d = n mod 16; c = (if d < 10 then char_of (48 + d) else char_of (87 + d))
     in if n < 16 then [c] else hex_digits (n div 16) @ [c])"

declare hex_digits.simps [simp del]

definition render_server_response :: "string \<Rightarrow> string" where
  "render_server_response message =
     ''HTTP/1.1 200 OK'' @ crlf @ ''Server: Smithproxy/1.1'' @ crlf @ ''Content-Type: text/html'' @ crlf
       @ ''Content-Length: '' @ dec (length message) @ crlf @ crlf @ message"

subsection \<open>Overridden checks\<close>

definition whitelist_make_key_l4 :: "hstore \<Rightarrow> nat option \<Rightarrow> string" where
  "whitelist_make_key_l4 st cx = (case cx of
     None \<Rightarrow> ''?''
   | Some i \<Rightarrow> (case h_peer (st_cx st i) of
       None \<Rightarrow> ''?''
     | Some j \<Rightarrow> h_host (st_cx st i) @ '':'' @ h_host (st_cx st j) @ '':'' @ h_port (st_cx st j)))"

text \<open>The transport of the peer when it is TLS: \<open>dynamic_cast<SSLCom*>(cx->peercom())\<close>.\<close>

definition peer_ssl :: "hstore \<Rightarrow> nat \<Rightarrow> (nat \<times> ssl_com) option" where
  "peer_ssl st cx = (case h_peercom (st_cx st cx) of
     None \<Rightarrow> None | Some k \<Rightarrow> map_option (\<lambda>s. (k, s)) (com_ssl (st_com st k)))"

definition whitelist_make_key_cert :: "hstore \<Rightarrow> nat option \<Rightarrow> string" where
  "whitelist_make_key_cert st cx = (case cx of
     None \<Rightarrow> [] | Some i \<Rightarrow> (case peer_ssl st i of None \<Rightarrow> [] | Some (_, scom) \<Rightarrow> target_fingerprint scom))"

definition find_it :: "mitm_env \<Rightarrow> ssl_com option \<Rightarrow> string \<Rightarrow> mstate \<Rightarrow> access_error + (bool \<times> mstate)" where
  "find_it env scom key s = (case me_wl_get env (ms_whitelist s) key of
     None \<Rightarrow> Inr (False, s)
   | Some _ \<Rightarrow> (case scom of
       None \<Rightarrow> Inl NullDeref
     | Some sc \<Rightarrow>
         if failed_check_override_timeout_type (opt_cert sc) = 1
         then Inr (True, s\<lparr>ms_whitelist := AList.update key (me_now env + failed_check_override_timeout (opt_cert sc)) (ms_whitelist s)\<rparr>)
         else Inr (True, s)))"

definition is_white_listed :: "mitm_env \<Rightarrow> nat \<Rightarrow> ssl_com option \<Rightarrow> mstate \<Rightarrow> access_error + (bool \<times> mstate)" where
  "is_white_listed env mh peercom s =
     (let scom = (case peercom of Some c \<Rightarrow> Some c | None \<Rightarrow> map_option snd (peer_ssl (ms_st s) mh));
          key_l4 = whitelist_make_key_l4 (ms_st s) (Some mh);
          key_cert = whitelist_make_key_cert (ms_st s) (Some mh);
          look = (\<lambda>key s. if key \<noteq> [] \<and> key \<noteq> ''?'' then find_it env scom key s else Inr (False, s))
      in result_bind (look key_l4 s) (\<lambda>(found, s).
           if found then Inr (True, s) else look key_cert s))"

subsection \<open>Reasons\<close>

definition verify_flag_string :: "mitm_env \<Rightarrow> 32 word \<Rightarrow> string" where
  "verify_flag_string env code =
     (let se = me_socle env in
      if code = VRF_OK se then ''Certificate verification successful''
      else if code = VRF_SELF_SIGNED se then ''Target certificate is self-signed''
      else if code = VRF_SELF_SIGNED_CHAIN se then ''Server certificate's chain contains self-signed, untrusted CA certificate''
      else if code = VRF_UNKNOWN_ISSUER se then ''Server certificate is issued by untrusted certificate authority''
      else if code = VRF_CLIENT_CERT_RQ se then ''Server is asking client for a certificate''
      else if code = VRF_REVOKED se then ''Server's certificate is REVOKED''
      else if code = VRF_HOSTNAME_FAILED se then ''Client application asked for SNI server is not offering''
      else if code = me_VRF_INVALID env then ''Certificate is not valid''
      else if code = me_VRF_ALLFAILED env then ''It was not possible to obtain certificate status''
      else if code = me_VRF_CT_MISSING env then ''Certificate Transparency info is missing''
      else ''code 0x04'' @ hex_digits (unat code))"

definition flag_msg :: "mitm_env \<Rightarrow> ssl_com \<Rightarrow> 32 word \<Rightarrow> string" where
  "flag_msg env scom code =
     (if se_verify_bitcheck (me_socle env) scom code then ''(ssl:'' @ verify_flag_string env code @ '')'' else [])"

definition set_replacement_msg_ssl :: "mitm_env \<Rightarrow> ssl_com option \<Rightarrow> mitm_proxy \<Rightarrow> mitm_proxy" where
  "set_replacement_msg_ssl env scom p = (case scom of
     None \<Rightarrow> p
   | Some sc \<Rightarrow>
       let se = me_socle env in
       if verify_get sc \<noteq> VRF_OK se then
         p\<lparr>px_replacement_msg := px_replacement_msg p
            @ flag_msg env sc (VRF_SELF_SIGNED se) @ flag_msg env sc (VRF_SELF_SIGNED_CHAIN se)
            @ flag_msg env sc (VRF_UNKNOWN_ISSUER se) @ flag_msg env sc (VRF_CLIENT_CERT_RQ se)
            @ flag_msg env sc (VRF_REVOKED se) @ flag_msg env sc (VRF_HOSTNAME_FAILED se)
            @ (if se_verify_bitcheck se sc (VRF_EXTENDED_INFO se)
               then concat (map (\<lambda>ei. ''(ssl: '' @ verify_flag_string env (of_int ei) @ '')'') (verify_extended_info sc))
               else [])\<rparr>
       else p)"

subsection \<open>TLS replacement pages\<close>

definition reply :: "nat \<Rightarrow> string \<Rightarrow> mstate \<Rightarrow> mstate" where
  "reply cx page s = set_st (upd_cx cx (\<lambda>c. c\<lparr>h_out := h_out c @ [map ord page], h_close_after_write := True\<rparr>)) s"

definition add_msg :: "string \<Rightarrow> mstate \<Rightarrow> mstate" where
  "add_msg m s = set_px (\<lambda>p. p\<lparr>px_replacement_msg := px_replacement_msg p @ m\<rparr>) s"

definition ssl_msg :: "mitm_env \<Rightarrow> ssl_com option \<Rightarrow> mstate \<Rightarrow> mstate" where
  "ssl_msg env scom s = set_px (set_replacement_msg_ssl env scom) s"

definition find_orig_uri :: "app_HttpRequest \<Rightarrow> access_error + string option" where
  "find_orig_uri r = (case find_sub ''orig_url'' (req_request r) of
     None \<Rightarrow> Inr None
   | Some a \<Rightarrow> result_bind (substr_from (req_request r) (a + 9)) (\<lambda>u. Inr (Some u)))"

definition generate_block_override :: "hstore \<Rightarrow> nat \<Rightarrow> ssl_com \<Rightarrow> app_HttpRequest \<Rightarrow> access_error + string" where
  "generate_block_override st cx scom r =
     (if failed_check_override (opt_cert scom) then
        result_bind (if h_peer (st_cx st cx) \<noteq> None then
            result_bind (if req_uri r \<noteq> [] then result_bind (find_orig_uri r) (\<lambda>u.
                Inr (''&orig_url='' @ (case u of Some u \<Rightarrow> u | None \<Rightarrow> ''/''))) else Inr [])
              (\<lambda>o'. Inr (''/override/target='' @ whitelist_make_key_l4 st (Some cx) @ o'))
          else Inr [])
        (\<lambda>t. Inr (''<form action='' @ quote @ ''/SM/IT/HP/RO/XY'' @ t @ quote @ ''><input type='' @ quote @ ''submit'' @ quote
               @ '' value='' @ quote @ ''Override'' @ quote @ '' class='' @ quote @ ''btn-red'' @ quote @ ''></form>''))
      else Inr [])"

definition ovr_applied_page :: "string \<Rightarrow> string" where
  "ovr_applied_page orig_url =
     ''<html><head><meta http-equiv='' @ quote @ ''Refresh'' @ quote @ '' content='' @ quote @ ''0; url='' @ orig_url @ quote
       @ ''></head><body><!-- applied, redirecting back to '' @ orig_url @ '' --></body></html>''"

definition redirect_page :: "string \<Rightarrow> string" where
  "redirect_page url = ''<html><head><script>top.location.href='' @ quote @ url @ quote @ '';</script></head><body></body></html>''"

definition warning_refresh_page :: string where
  "warning_refresh_page = ''<html><head><meta http-equiv='' @ quote @ ''Refresh'' @ quote @ '' content='' @ quote
     @ ''0; url=/SM/IT/HP/RO/XY/warning?q=1'' @ quote @ ''></head><body></body></html>''"

definition replace_http :: "mitm_env \<Rightarrow> nat \<Rightarrow> ssl_com \<Rightarrow> app_HttpRequest \<Rightarrow> mstate \<Rightarrow> access_error + mstate" where
  "replace_http env cx scom r s =
     (if has_sub ''/SM/IT/HP/RO/XY/override'' (req_request r) then
        if failed_check_override (opt_cert scom) then
          result_bind (find_orig_uri r) (\<lambda>u.
            let orig_url = (case u of Some u \<Rightarrow> u | None \<Rightarrow> ''/'');
                s = s\<lparr>ms_whitelist := me_wl_set env (whitelist_make_key_l4 (ms_st s) (Some cx))
                       (me_now env + failed_check_override_timeout (opt_cert scom)) (ms_whitelist s)\<rparr>
            in Inr (add_msg ''(ssl: override)'' (ssl_msg env (Some scom) (reply cx (render_server_response (ovr_applied_page orig_url)) s))))
        else
          Inr (add_msg ''(ssl: override disabled)'' (ssl_msg env (Some scom)
            (reply cx (render_server_response ''<html><head></head><body><p>Failed to override</p><p>Action is denied.</p></body></html>'') s)))
      else if has_sub ''/SM/IT/HP/RO/XY/warning'' (req_request r) then
        result_bind (generate_block_override (ms_st s) cx scom r) (\<lambda>b.
          Inr (ssl_msg env (Some scom) (reply cx (me_ssl_page env scom r b) s)))
      else if req_uri r = ''/'' then
        Inr (ssl_msg env (Some scom) (reply cx (render_server_response warning_refresh_page) s))
      else
        Inr (ssl_msg env (Some scom) (reply cx
          (render_server_response (redirect_page (''/SM/IT/HP/RO/XY/warning?q=1&orig_url='' @ req_uri r))) s)))"

definition handle_replacement_ssl :: "mitm_env \<Rightarrow> nat \<Rightarrow> mstate \<Rightarrow> access_error + mstate" where
  "handle_replacement_ssl env cx s =
     (let s = set_px (tlog_write CHR ''L'' (map ord (''TLS content replacement'' @ [CHR 0x0A]))) s in
      case peer_ssl (ms_st s) cx of
        None \<Rightarrow> Inr (ssl_msg env None (reply cx
                 (render_server_response ''<html><head></head><body><p>Internal error</p><p>com object is not ssl-type</p></body></html>'') s))
      | Some (_, scom) \<Rightarrow> (case h_http (st_cx (ms_st s) cx) of
          Some r \<Rightarrow> replace_http env cx scom r s
        | None \<Rightarrow> Inr (add_msg ''(ssl: enforced)'' (ssl_msg env (Some scom)
                   (reply cx (render_server_response (redirect_page ''/'')) s)))))"

subsection \<open>Certificate check\<close>

definition verify_ok :: "socle_env \<Rightarrow> ssl_com \<Rightarrow> bool" where
  "verify_ok se scom \<longleftrightarrow> verify_get scom = VRF_OK se \<or> verify_get scom = or (VRF_OK se) (VRF_CLIENT_CERT_RQ se)"

definition set_dead :: "mstate \<Rightarrow> mstate" where
  "set_dead s = set_px (\<lambda>p. p\<lparr>px_dead := True\<rparr>) s"

text \<open>The branches taken for a failed check that was not overridden.\<close>

definition failed_check :: "mitm_env \<Rightarrow> nat \<Rightarrow> ssl_com \<Rightarrow> mstate \<Rightarrow> access_error + (bool \<times> mstate)" where
  "failed_check env mh scom s =
     (if replacement_type (st_cx (ms_st s) mh) = REPLACETYPE_NONE then
        let nice_redirect = (case first_right (ms_st s) (ms_px s) of
              None \<Rightarrow> False | Some r \<Rightarrow> h_port (st_cx (ms_st s) r) = ''443'')
        in if \<not> nice_redirect then Inr (False, set_dead s)
           else result_bind (handle_replacement_ssl env mh (set_st (upd_cx mh (\<lambda>c. c\<lparr>
                  replacement_type := REPLACETYPE_HTTP, replacement_flag := REPLACE_BLOCK\<rparr>)) s)) (\<lambda>s. Inr (True, s))
      else if replacement_type (st_cx (ms_st s) mh) = REPLACETYPE_HTTP then
        result_bind (handle_replacement_ssl env mh (set_st (upd_cx mh (\<lambda>c. c\<lparr>replacement_flag := REPLACE_BLOCK\<rparr>)) s)) (\<lambda>s. Inr (True, s))
      else if se_verify_bitcheck (me_socle env) scom (VRF_CLIENT_CERT_RQ (me_socle env)) \<and> client_cert_action (opt_cert scom) > 0 then
        if client_cert_action (opt_cert scom) \<ge> 2
        then Inr (False, s\<lparr>ms_whitelist := me_wl_set env (whitelist_make_key_l4 (ms_st s) (Some mh))
               (me_now env + failed_check_override_timeout (opt_cert scom)) (ms_whitelist s)\<rparr>)
        else Inr (False, s)
      else Inr (False, set_dead s))"

definition handle_com_response_ssl :: "mitm_env \<Rightarrow> nat \<Rightarrow> mstate \<Rightarrow> access_error + (bool \<times> mstate)" where
  "handle_com_response_ssl env mh s =
     (let handled = set_px (\<lambda>p. p\<lparr>ssl_handled := True\<rparr>) in
      if ssl_handled (ms_px s) then Inr (False, s)
      else case peer_ssl (ms_st s) mh of
        None \<Rightarrow> Inr (False, handled s)
      | Some (_, scom) \<Rightarrow>
          if se_opt_allowed (me_socle env) scom then Inr (False, handled s)
          else if failed_check_replacement (opt_cert scom) \<and> \<not> verify_ok (me_socle env) scom then
            let s = set_px (tlog_write CHR ''L'' (map ord ''original TLS peer verification failed'')) s in
            result_bind (is_white_listed env mh (Some scom) s) (\<lambda>(whitelist_found, s).
              if whitelist_found then Inr (False, handled s)
              else result_bind (failed_check env mh scom s) (\<lambda>(redirected, s). Inr (redirected, handled s)))
          else Inr (False, handled s))"

subsection \<open>Authentication\<close>

definition portal_url :: "mitm_env \<Rightarrow> hstore \<Rightarrow> nat \<Rightarrow> string \<Rightarrow> string \<Rightarrow> string \<Rightarrow> string" where
  "portal_url env st cx repl_proto repl_port token =
     (let addr = (case h_com (st_cx st cx) of
            Some k \<Rightarrow> if com_l3 (st_com st k) = AF_INET6 then me_portal_address6 env else me_portal_address env
          | None \<Rightarrow> me_portal_address env)
      in repl_proto @ ''://'' @ addr @ '':'' @ repl_port @ ''/cgi-bin/auth.py?token='' @ token)"

definition new_token :: "mitm_env \<Rightarrow> nat \<Rightarrow> string \<Rightarrow> string \<Rightarrow> mstate \<Rightarrow> access_error + mstate" where
  "new_token env cx repl_proto repl_port s =
     (case policy_prof_auth (ms_rules s) (h_matched_policy (st_cx (ms_st s) cx)) of
        None \<Rightarrow> Inl NullDeref
      | Some pa \<Rightarrow>
          let token_text = h_original_request (st_cx (ms_st s) cx) @ concat (map (\<lambda>i. '' |'' @ sub_name i) (sub_policies pa));
              tok = make_logon_token (me_token_number env) token_text;
              token = (case logon_token tok of Some t \<Rightarrow> t | None \<Rightarrow> []);
              repl = redirect_page (portal_url env (ms_st s) cx repl_proto repl_port token);
              s = add_msg ''(auth: new token)'' (reply cx (render_server_response repl) s)
          in Inr (s\<lparr>ms_shm_tokens := me_token_rows env (ms_shm_tokens s) @ [tok],
                    ms_tokens := AList.update (h_host (st_cx (ms_st s) cx)) (of_int (me_now env), token) (ms_tokens s)\<rparr>))"

definition handle_replacement_auth :: "mitm_env \<Rightarrow> nat \<Rightarrow> mstate \<Rightarrow> access_error + mstate" where
  "handle_replacement_auth env cx s =
     (case h_app_is_ssl (st_cx (ms_st s) cx) of None \<Rightarrow> Inl NullDeref | Some is_ssl \<Rightarrow>
      let c = st_cx (ms_st s) cx;
          repl_proto = (if is_ssl then ''https'' else ''http'');
          repl_port = (if is_ssl then me_portal_port_https env else me_portal_port_http env)
      in case replacement_flag c of
           REPLACE_REDIRECT \<Rightarrow> (case map_of (ms_tokens s) (h_host c) of
             Some (token_ts, token_tk) \<Rightarrow>
               if of_int (me_now env) - token_ts < me_token_timeout env then
                 Inr (add_msg ''(auth: known token)'' (reply cx (render_server_response
                   (redirect_page (portal_url env (ms_st s) cx repl_proto repl_port token_tk))) s))
               else new_token env cx repl_proto repl_port s
           | None \<Rightarrow> new_token env cx repl_proto repl_port s)
         | REPLACE_BLOCK \<Rightarrow>
             Inr (add_msg ''(auth: blocked)'' (reply cx (render_server_response (me_msg_page env ''Page Blocked''
               (''<h2 class='' @ quote @ ''fg-red'' @ quote @ ''>Page has been blocked</h2><p>Access has been blocked by smithproxy.</p>''
                 @ ''<p>To check your user privileges go to status page<p><p> <form action='' @ quote
                 @ repl_proto @ ''://'' @ me_portal_address env @ '':'' @ repl_port @ ''/cgi-bin/auth.py?a=z''
                 @ quote @ ''><input type='' @ quote @ ''submit'' @ quote @ '' value='' @ quote @ ''User Info'' @ quote
                 @ '' class='' @ quote @ ''btn-red'' @ quote @ ''></form>''))) s))
         | REPLACE_NONE \<Rightarrow> Inr s)"

definition handle_authentication :: "mitm_env \<Rightarrow> nat \<Rightarrow> mstate \<Rightarrow> access_error + (bool \<times> mstate)" where
  "handle_authentication env mh s =
     (if opt_auth_authenticate (ms_px s) \<or> opt_auth_resolve (ms_px s) then
        result_bind (resolve_identity (me_id env) (Some mh) False s) (\<lambda>(_, s).
          if \<not> identity_resolved (ms_px s) then
            if opt_auth_authenticate (ms_px s) then
              if replacement_type (st_cx (ms_st s) mh) = REPLACETYPE_HTTP then
                result_bind (handle_replacement_auth env mh
                   (set_st (upd_cx mh (\<lambda>c. c\<lparr>replacement_flag := REPLACE_REDIRECT\<rparr>)) s)) (\<lambda>s. Inr (True, s))
              else if meter_read_bytes (st_cx (ms_st s) mh) > 200 then Inr (False, set_dead s)
              else Inr (False, s)
            else Inr (False, s)
          else if auth_block_identity (ms_px s) \<and> replacement_type (st_cx (ms_st s) mh) = REPLACETYPE_HTTP then
            result_bind (handle_replacement_auth env mh
               (set_st (upd_cx mh (\<lambda>c. c\<lparr>replacement_flag := REPLACE_BLOCK\<rparr>)) s)) (\<lambda>s. Inr (True, s))
          else Inr (False, s))
      else Inr (False, s))"

definition handle_requirements :: "mitm_env \<Rightarrow> nat option \<Rightarrow> mstate \<Rightarrow> access_error + (bool \<times> mstate)" where
  "handle_requirements env cx s = (case Option.bind cx (as_mitm (ms_st s)) of
     None \<Rightarrow> Inr (False, s)
   | Some mh \<Rightarrow>
       let c = st_cx (ms_st s) mh in
       result_bind (if (meter_read_bytes c < 1024 \<and> meter_write_bytes c < 1024)
                       \<or> (meter_read_count c + meter_write_count c) mod 100 = 0
                    then handle_authentication env mh s else Inr (False, s)) (\<lambda>(redirected, s).
         handle_com_response_ssl env mh s))"

section \<open>Frames\<close>

lemma reply_sel [simp]:
  "ms_px (reply cx t s) = ms_px s" "ms_auth (reply cx t s) = ms_auth s" "ms_rules (reply cx t s) = ms_rules s"
  "ms_whitelist (reply cx t s) = ms_whitelist s" "ms_tokens (reply cx t s) = ms_tokens s"
  "ms_shm_tokens (reply cx t s) = ms_shm_tokens s"
  "st_com (ms_st (reply cx t s)) = st_com (ms_st s)"
  "h_close_after_write (st_cx (ms_st (reply cx t s)) cx)"
  "h_out (st_cx (ms_st (reply cx t s)) cx) = h_out (st_cx (ms_st s) cx) @ [map ord t]"
  by (simp_all add: reply_def)

lemma add_msg_sel [simp]:
  "ms_st (add_msg m s) = ms_st s" "ms_auth (add_msg m s) = ms_auth s" "ms_rules (add_msg m s) = ms_rules s"
  "ms_whitelist (add_msg m s) = ms_whitelist s" "ms_tokens (add_msg m s) = ms_tokens s"
  "ssl_handled (ms_px (add_msg m s)) = ssl_handled (ms_px s)" "px_dead (ms_px (add_msg m s)) = px_dead (ms_px s)"
  "identity_resolved (ms_px (add_msg m s)) = identity_resolved (ms_px s)"
  by (simp_all add: add_msg_def)

lemma ssl_msg_sel [simp]:
  "ms_st (ssl_msg env c s) = ms_st s" "ms_auth (ssl_msg env c s) = ms_auth s" "ms_rules (ssl_msg env c s) = ms_rules s"
  "ms_whitelist (ssl_msg env c s) = ms_whitelist s" "ms_tokens (ssl_msg env c s) = ms_tokens s"
  "ssl_handled (ms_px (ssl_msg env c s)) = ssl_handled (ms_px s)" "px_dead (ms_px (ssl_msg env c s)) = px_dead (ms_px s)"
  by (simp_all add: ssl_msg_def set_replacement_msg_ssl_def Let_def split: option.split)

lemma set_dead_sel [simp]:
  "ms_st (set_dead s) = ms_st s" "ms_whitelist (set_dead s) = ms_whitelist s" "px_dead (ms_px (set_dead s))"
  "ssl_handled (ms_px (set_dead s)) = ssl_handled (ms_px s)"
  by (simp_all add: set_dead_def)

lemma tlog_write_px [simp]:
  "ssl_handled (tlog_write c t p) = ssl_handled p" "px_dead (tlog_write c t p) = px_dead p"
  by (simp_all add: tlog_write_def)

lemma peer_ssl_upd [simp]:
  assumes "\<And>c. h_peercom (f c) = h_peercom c"
  shows "peer_ssl (upd_cx i f st) j = peer_ssl st j"
  using assms by (auto simp: peer_ssl_def split: option.split)

lemmas replace_simps = result_bind_Inr_iff Let_def

lemma replace_http_frame:
  assumes "replace_http env cx scom r s = Inr s'"
  shows "h_close_after_write (st_cx (ms_st s') cx) \<and> px_dead (ms_px s') = px_dead (ms_px s)
    \<and> (ms_whitelist s' = ms_whitelist s
       \<or> failed_check_override (opt_cert scom) \<and> has_sub ''/SM/IT/HP/RO/XY/override'' (req_request r))"
  using assms by (auto simp: replace_http_def replace_simps split: if_splits)

lemma handle_replacement_ssl_frame:
  assumes "handle_replacement_ssl env cx s = Inr s'"
  shows "h_close_after_write (st_cx (ms_st s') cx) \<and> px_dead (ms_px s') = px_dead (ms_px s)
    \<and> (ms_whitelist s' = ms_whitelist s
       \<or> (\<exists>k scom r. peer_ssl (ms_st s) cx = Some (k, scom) \<and> failed_check_override (opt_cert scom)
            \<and> h_http (st_cx (ms_st s) cx) = Some r \<and> has_sub ''/SM/IT/HP/RO/XY/override'' (req_request r)))"
  using assms unfolding handle_replacement_ssl_def
  by (auto simp: Let_def split: option.splits dest!: replace_http_frame)

lemma find_it_frame:
  assumes "find_it env scom key s = Inr (b, s')"
  shows "ms_px s' = ms_px s \<and> ms_st s' = ms_st s \<and> b = (me_wl_get env (ms_whitelist s) key \<noteq> None)
    \<and> (\<not> b \<longrightarrow> s' = s)"
  using assms by (auto simp: find_it_def split: option.splits if_splits)

text \<open>A session is on the list of overrides under the key of its addresses or of its certificate.\<close>

definition overridden :: "mitm_env \<Rightarrow> nat \<Rightarrow> mstate \<Rightarrow> bool" where
  "overridden env mh s \<longleftrightarrow>
     (\<exists>key\<in>{whitelist_make_key_l4 (ms_st s) (Some mh), whitelist_make_key_cert (ms_st s) (Some mh)}.
        key \<noteq> [] \<and> key \<noteq> ''?'' \<and> me_wl_get env (ms_whitelist s) key \<noteq> None)"

lemma is_white_listed_iff:
  assumes "is_white_listed env mh (Some scom) s = Inr (b, s')"
  shows "b = overridden env mh s \<and> ms_px s' = ms_px s \<and> ms_st s' = ms_st s \<and> (\<not> b \<longrightarrow> s' = s)"
proof -
  let ?l4 = "whitelist_make_key_l4 (ms_st s) (Some mh)" and ?ce = "whitelist_make_key_cert (ms_st s) (Some mh)"
  let ?look = "\<lambda>key s. if key \<noteq> [] \<and> key \<noteq> ''?'' then find_it env (Some scom) key s else Inr (False, s)"
  have look: "b = (key \<noteq> [] \<and> key \<noteq> ''?'' \<and> me_wl_get env (ms_whitelist s) key \<noteq> None)
      \<and> ms_px s' = ms_px s \<and> ms_st s' = ms_st s \<and> (\<not> b \<longrightarrow> s' = s)" if "?look key s = Inr (b, s')" for key b s s'
    using that by (auto split: if_splits dest: find_it_frame)
  from assms obtain b1 s1 where l: "?look ?l4 s = Inr (b1, s1)"
      and r: "(if b1 then Inr (True, s1) else ?look ?ce s1) = Inr (b, s')"
    by (auto simp: is_white_listed_def Let_def result_bind_Inr_iff)
  show ?thesis
  proof (cases b1)
    case True
    with look[OF l] r show ?thesis by (auto simp: overridden_def)
  next
    case False
    with look[OF l] have "s1 = s" by simp
    then have "?look ?ce s = Inr (b, s')" using r False by (simp only: if_False)
    from look[OF this] look[OF l] False show ?thesis by (auto simp: overridden_def)
  qed
qed

section \<open>Certificate check\<close>

lemma failed_check_blocks:
  assumes "failed_check env mh scom s = Inr (r, s')"
  shows "(if r then h_close_after_write (st_cx (ms_st s') mh) else px_dead (ms_px s'))
    \<and> (ms_whitelist s' = ms_whitelist s
       \<or> (\<exists>k scom r. peer_ssl (ms_st s) mh = Some (k, scom) \<and> failed_check_override (opt_cert scom)
            \<and> h_http (st_cx (ms_st s) mh) = Some r \<and> has_sub ''/SM/IT/HP/RO/XY/override'' (req_request r)))"
proof (cases "replacement_type (st_cx (ms_st s) mh)")
  case REPLACETYPE_NONE
  with assms show ?thesis
    by (auto simp: failed_check_def replace_simps split: if_splits dest!: handle_replacement_ssl_frame)
next
  case REPLACETYPE_HTTP
  with assms show ?thesis
    by (auto simp: failed_check_def replace_simps split: if_splits dest!: handle_replacement_ssl_frame)
qed


text \<open>The certificate check records a new override only at the client's explicit request, made
  through the override page, and only where the profile permits overrides; apart from that it can
  only extend an override that is already on record.\<close>

theorem override_needs_permission:
  assumes "handle_com_response_ssl env mh s = Inr (redirected, s')" and "ms_whitelist s' \<noteq> ms_whitelist s"
  shows "overridden env mh s
    \<or> (\<exists>k scom r. peer_ssl (ms_st s) mh = Some (k, scom) \<and> failed_check_override (opt_cert scom)
         \<and> h_http (st_cx (ms_st s) mh) = Some r \<and> has_sub ''/SM/IT/HP/RO/XY/override'' (req_request r))"
proof (rule disjCI)
  assume ns: "\<not> (\<exists>k scom r. peer_ssl (ms_st s) mh = Some (k, scom) \<and> failed_check_override (opt_cert scom)
         \<and> h_http (st_cx (ms_st s) mh) = Some r \<and> has_sub ''/SM/IT/HP/RO/XY/override'' (req_request r))"
  let ?s = "set_px (tlog_write CHR ''L'' (map ord ''original TLS peer verification failed'')) s"
  from assms obtain k scom b s1 where w: "is_white_listed env mh (Some scom) ?s = Inr (b, s1)"
      and r: "(if b then Inr (False, set_px (\<lambda>p. p\<lparr>ssl_handled := True\<rparr>) s1)
               else result_bind (failed_check env mh scom s1) (\<lambda>(redirected, s).
                 Inr (redirected, set_px (\<lambda>p. p\<lparr>ssl_handled := True\<rparr>) s))) = Inr (redirected, s')"
    by (auto simp: handle_com_response_ssl_def Let_def result_bind_Inr_iff split: if_splits option.splits)
  show "overridden env mh s"
  proof (rule ccontr)
    assume "\<not> overridden env mh s"
    then have "\<not> b" "s1 = ?s" using is_white_listed_iff[OF w] by (auto simp: overridden_def)
    with r obtain s2 where "failed_check env mh scom ?s = Inr (redirected, s2)" "s' = set_px (\<lambda>p. p\<lparr>ssl_handled := True\<rparr>) s2"
      by (auto simp: result_bind_Inr_iff)
    with failed_check_blocks[OF this(1)] ns assms(2) show False by auto
  qed
qed

section \<open>Authentication\<close>

lemma new_token_frame:
  "new_token env cx a b s = Inr s' \<Longrightarrow> ssl_handled (ms_px s') = ssl_handled (ms_px s) \<and> ms_whitelist s' = ms_whitelist s
    \<and> h_close_after_write (st_cx (ms_st s') cx)"
  by (auto simp: new_token_def Let_def split: option.splits)

lemma handle_replacement_auth_frame:
  assumes "handle_replacement_auth env cx s = Inr s'"
  shows "ssl_handled (ms_px s') = ssl_handled (ms_px s) \<and> ms_whitelist s' = ms_whitelist s
    \<and> (replacement_flag (st_cx (ms_st s) cx) \<noteq> REPLACE_NONE \<longrightarrow> h_close_after_write (st_cx (ms_st s') cx))"
  using assms
  by (auto simp: handle_replacement_auth_def Let_def split: replaceflags_t.splits option.splits if_splits dest!: new_token_frame)

text \<open>The page that sends the browser of the client to the portal.\<close>

definition portal_redirect :: "mitm_env \<Rightarrow> hstore \<Rightarrow> nat \<Rightarrow> bool \<Rightarrow> string \<Rightarrow> bytes" where
  "portal_redirect env st cx is_ssl token = map ord (render_server_response (redirect_page (portal_url env st cx
     (if is_ssl then ''https'' else ''http'') (if is_ssl then me_portal_port_https env else me_portal_port_http env) token)))"

lemma auth_keeps_identity:
  assumes "handle_replacement_auth env cx s = Inr s'"
  shows "identity_resolved (ms_px s') = identity_resolved (ms_px s)"
proof -
  have "new_token env cx a b s = Inr s' \<Longrightarrow> identity_resolved (ms_px s') = identity_resolved (ms_px s)" for a b
    by (auto simp: new_token_def Let_def split: option.splits)
  then show ?thesis using assms
    by (auto simp: handle_replacement_auth_def Let_def split: replaceflags_t.splits option.splits if_splits)
qed

lemma new_token_written:
  "new_token env cx a b s = Inr s' \<Longrightarrow> \<exists>token. h_close_after_write (st_cx (ms_st s') cx)
    \<and> h_out (st_cx (ms_st s') cx) = h_out (st_cx (ms_st s) cx) @ [map ord (render_server_response (redirect_page (portal_url env (ms_st s) cx a b token)))]"
  by (auto simp: new_token_def Let_def split: option.splits)

lemma redirect_written:
  assumes "handle_replacement_auth env cx s = Inr s'" "replacement_flag (st_cx (ms_st s) cx) = REPLACE_REDIRECT"
  shows "\<exists>is_ssl token. h_app_is_ssl (st_cx (ms_st s) cx) = Some is_ssl \<and> h_close_after_write (st_cx (ms_st s') cx)
    \<and> h_out (st_cx (ms_st s') cx) = h_out (st_cx (ms_st s) cx) @ [portal_redirect env (ms_st s) cx is_ssl token]"
proof -
  obtain is_ssl where i: "h_app_is_ssl (st_cx (ms_st s) cx) = Some is_ssl"
    using assms(1) by (cases "h_app_is_ssl (st_cx (ms_st s) cx)") (auto simp: handle_replacement_auth_def)
  define a b where ab: "a = (if is_ssl then ''https'' else ''http'')" "b = (if is_ssl then me_portal_port_https env else me_portal_port_http env)"
  consider (known) tk where "s' = add_msg ''(auth: known token)'' (reply cx (render_server_response (redirect_page (portal_url env (ms_st s) cx a b tk))) s)"
    | (new) "new_token env cx a b s = Inr s'"
    using assms unfolding handle_replacement_auth_def i option.case Let_def assms(2) replaceflags_t.case ab[symmetric]
    by (auto split: option.splits prod.splits if_splits)
  then show ?thesis
  proof cases
    case known
    then show ?thesis using i by (intro exI[of _ is_ssl] exI[of _ tk]) (simp add: portal_redirect_def ab)
  next
    case new
    from new_token_written[OF this] show ?thesis using i unfolding portal_redirect_def ab by blast
  qed
qed

lemma portal_redirect_cong:
  "h_com (st_cx st' cx) = h_com (st_cx st cx) \<Longrightarrow> st_com st' = st_com st \<Longrightarrow> portal_redirect env st' cx x t = portal_redirect env st cx x t"
  unfolding portal_redirect_def portal_url_def by (simp only:)

lemma resolve_ssl_handled:
  assumes "resolve_identity env (Some cx) g s = Inr (r, s')"
  shows "ssl_handled (ms_px s') = ssl_handled (ms_px s)"
    "opt_auth_authenticate (ms_px s') = opt_auth_authenticate (ms_px s)"
  using resolve_identity_valid[OF assms] payload_only_frame(5,8) by fastforce+

lemma handle_authentication_frame:
  assumes "handle_authentication env mh s = Inr (r, s')"
  shows "ssl_handled (ms_px s') = ssl_handled (ms_px s)"
  using assms unfolding handle_authentication_def
  by (auto simp: result_bind_Inr_iff split: if_splits dest!: handle_replacement_auth_frame resolve_ssl_handled(1))

text \<open>C39: What the authentication check does when authentication is required and the identity of the client stays
  unresolved.  A client whose traffic was recognised as HTTP gets exactly one page, which sends it to the portal with a token, the connection is
  to be closed after it, and the verdict is that it was redirected.  For other traffic the verdict is that it was not redirected: the
  proxy is killed when more than 200 octets have been read, and up to 200 octets the check changes nothing.\<close>

theorem authentication_gate:
  assumes "handle_authentication env mh s = Inr (redirected, s')"
    and "opt_auth_authenticate (ms_px s)" and "\<not> identity_resolved (ms_px s')"
  shows "\<exists>b s1. resolve_identity (me_id env) (Some mh) False s = Inr (b, s1)
    \<and> (redirected \<longleftrightarrow> replacement_type (st_cx (ms_st s1) mh) = REPLACETYPE_HTTP)
    \<and> (redirected \<longrightarrow> h_close_after_write (st_cx (ms_st s') mh) \<and> (\<exists>is_ssl token.
          h_out (st_cx (ms_st s') mh) = h_out (st_cx (ms_st s1) mh) @ [portal_redirect env (ms_st s1) mh is_ssl token]))
    \<and> (\<not> redirected \<longrightarrow> s' = (if meter_read_bytes (st_cx (ms_st s1) mh) > 200 then set_dead s1 else s1))"
proof -
  from assms obtain b s1 where r: "resolve_identity (me_id env) (Some mh) False s = Inr (b, s1)"
    by (auto simp: handle_authentication_def result_bind_Inr_iff)
  have o1: "opt_auth_authenticate (ms_px s1)" using resolve_ssl_handled(2)[OF r] assms(2) by simp
  let ?s = "set_st (upd_cx mh (\<lambda>c. c\<lparr>replacement_flag := REPLACE_REDIRECT\<rparr>)) s1"
  have p: "portal_redirect env (ms_st ?s) mh x t = portal_redirect env (ms_st s1) mh x t" for x t
    by (rule portal_redirect_cong) simp_all
  show ?thesis
  proof (cases "replacement_type (st_cx (ms_st s1) mh)")
    case REPLACETYPE_NONE
    with assms r o1 show ?thesis
      by (auto simp: handle_authentication_def result_bind_Inr_iff split: if_splits)
  next
    case REPLACETYPE_HTTP
    show ?thesis
    proof (cases "identity_resolved (ms_px s1)")
      case True
      then show ?thesis using assms r o1 REPLACETYPE_HTTP
        by (auto simp: handle_authentication_def result_bind_Inr_iff split: if_splits dest!: auth_keeps_identity)
    next
      case False
      then have h: "handle_replacement_auth env mh ?s = Inr s'" "redirected"
        using assms r o1 REPLACETYPE_HTTP by (auto simp: handle_authentication_def result_bind_Inr_iff)
      from redirect_written[OF h(1)] show ?thesis using r REPLACETYPE_HTTP h(2) p by auto
    qed
  qed
qed

text \<open>The HTTP/1 engine marks a connection as HTTP before it has a request.  Without application data the check dereferences
  a null pointer.\<close>

theorem auth_without_request_crashes:
  assumes "resolve_identity (me_id env) (Some mh) False s = Inr (b, s1)" "opt_auth_authenticate (ms_px s)" "\<not> identity_resolved (ms_px s1)"
    and "replacement_type (st_cx (ms_st s1) mh) = REPLACETYPE_HTTP" "h_app_is_ssl (st_cx (ms_st s1) mh) = None"
  shows "handle_authentication env mh s = Inl NullDeref"
  using assms resolve_ssl_handled(2)[OF assms(1)] by (simp add: handle_authentication_def handle_replacement_auth_def)

text \<open>The verdict of the authentication check is lost. Once the certificate check of a session has
  been done, the combined check reports that nothing was redirected even when the authentication
  check just redirected or blocked the client, so that the caller forwards the client's data.\<close>

theorem auth_verdict_lost:
  assumes "handle_authentication env mh s = Inr (True, s1)" and "ssl_handled (ms_px s)"
    and "h_mitm (st_cx (ms_st s) mh)"
    and "meter_read_bytes (st_cx (ms_st s) mh) < 1024" and "meter_write_bytes (st_cx (ms_st s) mh) < 1024"
  shows "handle_requirements env (Some mh) s = Inr (False, s1)"
  using assms handle_authentication_frame[OF assms(1)]
  by (simp add: handle_requirements_def handle_com_response_ssl_def as_mitm_def Let_def)

section \<open>Examples\<close>

definition plain_mitm :: mitm_env where
  "plain_mitm = \<lparr>me_id = mk_id plain_maker, me_wl_get = map_of, me_wl_set = AList.update,
     me_ssl_page = (\<lambda>c r m. m), me_msg_page = (\<lambda>c m. m), me_VRF_INVALID = 256, me_VRF_ALLFAILED = 512,
     me_VRF_CT_MISSING = 1024, me_portal_address = ''portal'', me_portal_address6 = ''portal6'',
     me_portal_port_http = ''8008'', me_portal_port_https = ''8043'', me_token_timeout = 20,
     me_token_number = ''42'', me_token_rows = (\<lambda>r. r)\<rparr>"

lemma plain_socle_of [simp]: "me_socle plain_mitm = plain_socle" "me_now plain_mitm = 1000"
  "me_wl_get plain_mitm = map_of" "me_wl_set plain_mitm = AList.update"
  by (simp_all add: plain_mitm_def plain_maker_def plain_env_def)

lemma plain_state_sel [simp]:
  "ms_px (plain_state rs) = plain_proxy" "ms_st (plain_state rs) = plain_store 8" "ms_whitelist (plain_state rs) = []"
  "ms_rules (plain_state rs) = rs" "ms_auth (plain_state rs) = sample_factory" "ms_tokens (plain_state rs) = []"
  by (simp_all add: plain_state_def)

lemma plain_proxy_sel [simp]:
  "\<not> ssl_handled plain_proxy" "\<not> px_dead plain_proxy" "px_ls plain_proxy = [0]" "px_rs plain_proxy = [1]" "px_lda plain_proxy = []"
  "px_rda plain_proxy = []" "px_filters plain_proxy = []" "px_content_rule plain_proxy = None" "\<not> px_write_payload plain_proxy"
  "px_com plain_proxy = 0" "half_holdtimer plain_proxy = 0" "px_tlog plain_proxy = None" "\<not> identity_resolved plain_proxy"
  "px_matched_policy plain_proxy = - 1" "\<not> opt_auth_resolve plain_proxy" "\<not> opt_auth_authenticate plain_proxy"
  by (simp_all add: plain_proxy_def fresh_proxy_def)

lemma plain_peer_ssl [simp]: "peer_ssl (plain_store v) 0 = Some (1, plain_ssl v)"
  by (simp add: peer_ssl_def)


lemma plain_ssl_sel [simp]: "verify_get (plain_ssl v) = v" "failed_check_replacement (opt_cert (plain_ssl v))"
  "\<not> failed_check_override (opt_cert (plain_ssl v))"
  by (simp_all add: plain_ssl_def)

lemma plain_white: "ms_whitelist s = [] \<Longrightarrow> is_white_listed plain_mitm mh c s = Inr (False, s)"
  by (simp add: is_white_listed_def find_it_def Let_def)

lemma plain_not_ok: "\<not> verify_ok plain_socle (plain_ssl 8)" "\<not> se_opt_allowed plain_socle c"
  by (simp_all add: verify_ok_def plain_socle_def or_numerals)


text \<open>A session whose profile permits overrides and whose client asks for one.\<close>

definition ovr_request :: app_HttpRequest where
  "ovr_request = \<lparr>req_request = ''GET /SM/IT/HP/RO/XY/override/target=x'', req_uri = ''/SM/IT/HP/RO/XY/override'',
     req_proto = ''https://'', req_host = ''s''\<rparr>"

definition ovr_state :: mstate where
  "ovr_state = set_st (\<lambda>st. upd_ssl 1 (\<lambda>c. c\<lparr>opt_cert := (opt_cert c)\<lparr>failed_check_override := True\<rparr>\<rparr>)
     (upd_cx 0 (\<lambda>c. c\<lparr>h_http := Some ovr_request\<rparr>) st)) (plain_state [])"

lemma ovr_request_finds: "has_sub ''/SM/IT/HP/RO/XY/override'' (req_request ovr_request)"
  "find_orig_uri ovr_request = Inr None"
  by (simp_all add: has_sub_def ovr_request_def find_orig_uri_def)

theorem override_needs_permission_witness:
  "\<exists>s'. handle_com_response_ssl plain_mitm 0 ovr_state = Inr (True, s') \<and> ms_whitelist s' \<noteq> []
     \<and> (overridden plain_mitm 0 ovr_state \<or> h_http (st_cx (ms_st ovr_state) 0) = Some ovr_request)"
proof -
  let ?c = "(plain_ssl 8)\<lparr>opt_cert := (opt_cert (plain_ssl 8))\<lparr>failed_check_override := True\<rparr>\<rparr>"
  have p: "peer_ssl (ms_st ovr_state) 0 = Some (1, ?c)"
    by (simp add: ovr_state_def peer_ssl_def)
  have ok: "\<not> verify_ok plain_socle ?c" using plain_not_ok(1) by (simp add: verify_ok_def)
  have sel: "ms_px ovr_state = plain_proxy" "ms_whitelist ovr_state = []"
    "h_http (st_cx (ms_st ovr_state) 0) = Some ovr_request"
    "replacement_type (st_cx (ms_st ovr_state) 0) = REPLACETYPE_NONE"
    "first_right (ms_st ovr_state) plain_proxy = Some 1" "h_port (st_cx (ms_st ovr_state) 1) = ''443''"
    by (simp_all add: ovr_state_def first_right_def as_mitm_def)
  have fr: "first_right st (tlog_write c t q) = first_right st q" for st c t q
    by (simp add: first_right_def tlog_write_def)
  have "\<exists>s'. handle_com_response_ssl plain_mitm 0 ovr_state = Inr (True, s') \<and> ms_whitelist s' \<noteq> []"
    using p sel
    by (simp add: handle_com_response_ssl_def plain_not_ok(2) ok plain_white failed_check_def handle_replacement_ssl_def
        replace_http_def ovr_request_finds Let_def fr)
  then obtain s' where r: "handle_com_response_ssl plain_mitm 0 ovr_state = Inr (True, s')" "ms_whitelist s' \<noteq> []" by blast
  from override_needs_permission[OF r(1)] r sel show ?thesis by auto
qed

definition guest_state :: "replacetype_t \<Rightarrow> mstate" where
  "guest_state t = set_px (\<lambda>p. p\<lparr>opt_auth_authenticate := True, ssl_handled := True\<rparr>)
     (set_st (upd_cx 0 (\<lambda>c. c\<lparr>replacement_type := t, h_app_is_ssl := Some False, h_matched_policy := 0\<rparr>)) (plain_state [staff_rule]))"

lemma guest_unresolved:
  "\<exists>s1. resolve_identity (me_id plain_mitm) (Some 0) False (guest_state t) = Inr (False, s1) \<and> ms_px s1 = ms_px (guest_state t)
     \<and> ms_st s1 = ms_st (guest_state t) \<and> ms_rules s1 = [staff_rule] \<and> ms_tokens s1 = []"
proof -
  have af: "cx_af (ms_st (guest_state t)) 0 = AF_INET" "h_host (st_cx (ms_st (guest_state t)) 0) = ''c''"
    by (simp_all add: guest_state_def cx_af_def)
  have none: "find_logon (me_id plain_mitm) 0 False (guest_state t) = (None, guest_state t\<lparr>ms_auth :=
      snd (shm_ip4_table_refresh 1000 0 (- 1) [] [] (ms_auth (guest_state t)))\<rparr>)"
    using af by (simp add: find_logon_def af_v4_def plain_mitm_def plain_maker_def Let_def guest_state_def
        shm_ip4_table_refresh_def table_refresh_def ip4_get_def table_get_def sample_factory_def)
  show ?thesis
    by (simp add: resolve_identity_def resolve_unknown_def none) (simp add: guest_state_def)
qed

lemma guest_redirected:
  "\<exists>s2. handle_authentication plain_mitm 0 (guest_state REPLACETYPE_HTTP) = Inr (True, s2) \<and> \<not> identity_resolved (ms_px s2)"
proof -
  let ?g = "guest_state REPLACETYPE_HTTP"
  obtain s1 where s1: "resolve_identity (me_id plain_mitm) (Some 0) False ?g = Inr (False, s1)"
      "ms_px s1 = ms_px ?g" "ms_st s1 = ms_st ?g" "ms_rules s1 = [staff_rule]" "ms_tokens s1 = []"
    using guest_unresolved by blast
  have o: "opt_auth_authenticate (ms_px ?g)" "\<not> identity_resolved (ms_px ?g)" "replacement_type (st_cx (ms_st ?g) 0) = REPLACETYPE_HTTP"
      "h_matched_policy (st_cx (ms_st ?g) 0) = 0" "h_app_is_ssl (st_cx (ms_st ?g) 0) = Some False"
    by (simp_all add: guest_state_def plain_store_def plain_conn_def)
  show ?thesis
    using s1 o
    by (simp add: handle_authentication_def handle_replacement_auth_def new_token_def reply_def add_msg_def Let_def policy_prof_auth_def staff_rule_def)
qed

theorem authentication_gate_witness:
  "\<exists>b s1 s'. handle_authentication plain_mitm 0 (guest_state REPLACETYPE_HTTP) = Inr (True, s')
     \<and> resolve_identity (me_id plain_mitm) (Some 0) False (guest_state REPLACETYPE_HTTP) = Inr (b, s1)
     \<and> h_close_after_write (st_cx (ms_st s') 0)
     \<and> (\<exists>is_ssl token. h_out (st_cx (ms_st s') 0) = h_out (st_cx (ms_st s1) 0) @ [portal_redirect plain_mitm (ms_st s1) 0 is_ssl token])"
proof -
  obtain s' where a: "handle_authentication plain_mitm 0 (guest_state REPLACETYPE_HTTP) = Inr (True, s')" "\<not> identity_resolved (ms_px s')"
    using guest_redirected by blast
  have "opt_auth_authenticate (ms_px (guest_state REPLACETYPE_HTTP))" by (simp add: guest_state_def)
  from authentication_gate[OF a(1) this a(2)] obtain b s1 where
    "resolve_identity (me_id plain_mitm) (Some 0) False (guest_state REPLACETYPE_HTTP) = Inr (b, s1)" "h_close_after_write (st_cx (ms_st s') 0)"
    "\<exists>is_ssl token. h_out (st_cx (ms_st s') 0) = h_out (st_cx (ms_st s1) 0) @ [portal_redirect plain_mitm (ms_st s1) 0 is_ssl token]"
    by auto
  with a(1) show ?thesis by blast
qed

theorem auth_verdict_lost_witness:
  "\<exists>s1. handle_authentication plain_mitm 0 (guest_state REPLACETYPE_HTTP) = Inr (True, s1)
     \<and> handle_requirements plain_mitm (Some 0) (guest_state REPLACETYPE_HTTP) = Inr (False, s1)"
proof -
  let ?g = "guest_state REPLACETYPE_HTTP"
  obtain s1 where "handle_authentication plain_mitm 0 ?g = Inr (True, s1)" using guest_redirected by blast
  moreover have "ssl_handled (ms_px ?g)" "h_mitm (st_cx (ms_st ?g) 0)"
    "meter_read_bytes (st_cx (ms_st ?g) 0) < 1024" "meter_write_bytes (st_cx (ms_st ?g) 0) < 1024"
    by (simp_all add: guest_state_def plain_store_def plain_conn_def)
  ultimately show ?thesis using auth_verdict_lost by blast
qed

end
