(* ===== verification/Traffic.thy ===== *)
theory Traffic
  imports Replacement
begin

text \<open>
  Data and errors of a running proxy (\<open>src/src/proxy/mitmproxy.cpp\<close>,
  \<open>src/src/proxy/filters/sinkhole.cpp\<close>): content replacement, sinkhole filters, copying between the
  sides, half-closed connections, errors, and taking a proxy out of polling.

  Regular expressions belong to the standard library and are arguments: whether a pattern
  compiles, whether it is found, and the replacement. A connection has one read buffer, the one
  \<open>to_read\<close> and \<open>readbuf\<close> return; the operation that hands it to a writer may leave it empty
  (\<open>se_drain\<close>).
\<close>

section \<open>Model\<close>

record traffic_env =
  te_mitm :: mitm_env
  te_regex_ok :: "string \<Rightarrow> bool"
  te_regex_search :: "string \<Rightarrow> string \<Rightarrow> bool"
  te_regex_replace :: "string \<Rightarrow> string \<Rightarrow> string \<Rightarrow> string"
  te_regex_replace_fill :: "string \<Rightarrow> string \<Rightarrow> string \<Rightarrow> string"
  te_half_timeout :: int
  te_name :: "conn \<Rightarrow> string"

abbreviation te_apply :: "traffic_env \<Rightarrow> apply_env" where "te_apply env \<equiv> ie_apply (me_id (te_mitm env))"
abbreviation te_now :: "traffic_env \<Rightarrow> int" where "te_now env \<equiv> ie_now (me_id (te_mitm env))"

subsection \<open>Content rules\<close>

definition replace_by :: "traffic_env \<Rightarrow> ProfileContentRule \<Rightarrow> string \<Rightarrow> string" where
  "replace_by env pr txt =
     (if pcr_fill_length pr then te_regex_replace_fill env (pcr_match pr) txt (pcr_replace pr)
      else te_regex_replace env (pcr_match pr) txt (pcr_replace pr))"

definition content_rule_apply :: "traffic_env \<Rightarrow> ProfileContentRule \<Rightarrow> string \<Rightarrow> ProfileContentRule \<times> string" where
  "content_rule_apply env pr txt =
     (if \<not> te_regex_ok env (pcr_match pr) then (pr, txt)
      else if pcr_replace_each_nth pr \<noteq> 0 then
        if te_regex_search env (pcr_match pr) txt then
          let counter = pcr_replace_each_counter pr + 1 in
          if counter \<ge> pcr_replace_each_nth pr
          then (pr\<lparr>pcr_replace_each_counter := 0\<rparr>, replace_by env pr txt)
          else (pr\<lparr>pcr_replace_each_counter := counter\<rparr>, txt)
        else (pr, txt)
      else (pr, replace_by env pr txt))"

fun content_rules_apply :: "traffic_env \<Rightarrow> ProfileContentRule list \<Rightarrow> string \<Rightarrow> ProfileContentRule list \<times> string" where
  "content_rules_apply env [] result = ([], result)"
| "content_rules_apply env (pr # prs) result =
     (let (pr', result) = content_rule_apply env pr result;
          (prs', result) = content_rules_apply env prs result
      in (pr' # prs', result))"

definition content_replace_apply :: "traffic_env \<Rightarrow> ProfileContentRule list \<Rightarrow> bytes \<Rightarrow> ProfileContentRule list \<times> bytes" where
  "content_replace_apply env rules ref =
     (let (rules', result) = content_rules_apply env rules (chars ref) in (rules', map ord result))"

subsection \<open>Copying\<close>

definition sinkhole_proxy :: "SinkholeFilter \<Rightarrow> nat \<Rightarrow> nat \<Rightarrow> char \<Rightarrow> hstore \<Rightarrow> hstore" where
  "sinkhole_proxy f from to side st =
     (if (side = CHR ''L'' \<and> sink_left f) \<or> (side = CHR ''R'' \<and> sink_right f) then
        let st = upd_cx from (\<lambda>c. c\<lparr>h_to_read := sink_replacement f\<rparr>) st;
            st = upd_cx from (\<lambda>c. c\<lparr>h_idle_delay := 30\<rparr>) st
        in upd_cx to (\<lambda>c. c\<lparr>h_idle_delay := 30\<rparr>) st
      else st)"

definition proxy_copy :: "traffic_env \<Rightarrow> nat \<Rightarrow> char \<Rightarrow> bool \<Rightarrow> nat \<Rightarrow> mstate \<Rightarrow> mstate" where
  "proxy_copy env from side redirected to s =
     (if h_to_read (st_cx (ms_st s) from) = [] then s
      else if \<not> redirected then
        (case px_content_rule (ms_px s) of
           Some rules \<Rightarrow>
             (case content_replace_apply env rules (h_to_read (st_cx (ms_st s) from)) of (rules', b) \<Rightarrow>
                set_st (upd_cx to (\<lambda>c. c\<lparr>h_out := h_out c @ [b]\<rparr>)) (set_px (\<lambda>p. p\<lparr>px_content_rule := Some rules'\<rparr>) s))
         | None \<Rightarrow>
             let s = set_st (\<lambda>st. fold (\<lambda>f. sinkhole_proxy f from to side) (px_filters (ms_px s)) st) s;
                 b = h_to_read (st_cx (ms_st s) from);
                 s = set_st (upd_cx to (\<lambda>c. c\<lparr>h_out := h_out c @ [b]\<rparr>)) s
             in set_st (upd_cx from (\<lambda>c. c\<lparr>h_to_read := se_drain (ap_socle (te_apply env)) b\<rparr>)) s)
      else set_st (upd_cx to (\<lambda>c. c\<lparr>h_shutdown := True\<rparr>)) s)"

definition write_log :: "traffic_env \<Rightarrow> char \<Rightarrow> nat \<Rightarrow> mstate \<Rightarrow> access_error + mstate" where
  "write_log env side cx s =
     (if px_write_payload (ms_px s) then
        result_bind (toggle_tlog (te_apply env) (ms_px s)) (\<lambda>p.
          let s = s\<lparr>ms_px := p\<rparr>; c = st_cx (ms_st s) cx;
              s = (if h_comlog c \<noteq> []
                   then set_st (upd_cx cx (\<lambda>c. c\<lparr>h_comlog := []\<rparr>)) (set_px (tlog_write side (map ord (h_comlog c))) s) else s)
          in Inr (set_px (tlog_write side (h_to_read c)) s))
      else Inr s)"

definition on_left_bytes :: "traffic_env \<Rightarrow> nat option \<Rightarrow> mstate \<Rightarrow> access_error + mstate" where
  "on_left_bytes env cx s = (case cx of
     None \<Rightarrow> Inr s
   | Some cx \<Rightarrow> result_bind (write_log env CHR ''L'' cx s) (\<lambda>s.
       result_bind (handle_requirements (te_mitm env) (Some cx) s) (\<lambda>(redirected, s).
         let s = s\<lparr>ms_meters := ms_meters s @ [(CHR ''L'', length (h_to_read (st_cx (ms_st s) cx)))]\<rparr>;
             s = fold (proxy_copy env cx CHR ''L'' redirected) (px_rs (ms_px s)) s
         in Inr (fold (proxy_copy env cx CHR ''L'' redirected) (px_rda (ms_px s)) s))))"

definition on_right_bytes :: "traffic_env \<Rightarrow> nat option \<Rightarrow> mstate \<Rightarrow> access_error + mstate" where
  "on_right_bytes env cx s = (case cx of
     None \<Rightarrow> Inr s
   | Some cx \<Rightarrow> result_bind (write_log env CHR ''R'' cx s) (\<lambda>s.
       result_bind (handle_requirements (te_mitm env) (h_peer (st_cx (ms_st s) cx)) s) (\<lambda>(redirected, s).
         let s = s\<lparr>ms_meters := ms_meters s @ [(CHR ''R'', length (h_to_read (st_cx (ms_st s) cx)))]\<rparr>;
             s = fold (proxy_copy env cx CHR ''R'' redirected) (px_ls (ms_px s)) s
         in Inr (fold (proxy_copy env cx CHR ''R'' redirected) (px_lda (ms_px s)) s))))"

subsection \<open>Errors\<close>

definition on_half_close :: "traffic_env \<Rightarrow> nat \<Rightarrow> mstate \<Rightarrow> mstate" where
  "on_half_close env cx s =
     (if h_peer (st_cx (ms_st s) cx) \<noteq> None \<and> h_peercom (st_cx (ms_st s) cx) \<noteq> None then
        if half_holdtimer (ms_px s) > 0 then
          let expiry = half_holdtimer (ms_px s) + te_half_timeout env - te_now env
          in if expiry > 0 then s else set_dead s
        else set_px (\<lambda>p. p\<lparr>half_holdtimer := te_now env\<rparr>) s
      else set_dead s)"

definition closed_msg :: "string \<Rightarrow> string \<Rightarrow> bytes" where
  "closed_msg side_label name = map ord (side_label @ ''side connection closed: '' @ name @ [CHR 0x0A])"

definition dropped_msg :: "string \<Rightarrow> string \<Rightarrow> bytes" where
  "dropped_msg name msg = map ord (name @ ''   dropped by proxy:'' @ msg @ [CHR 0x0A])"

definition error_log :: "traffic_env \<Rightarrow> nat \<Rightarrow> char \<Rightarrow> string \<Rightarrow> mstate \<Rightarrow> access_error + mstate" where
  "error_log env cx side side_label s =
     (if px_dead (ms_px s) \<and> px_write_payload (ms_px s) then
        result_bind (toggle_tlog (te_apply env) (ms_px s)) (\<lambda>p.
          let s = s\<lparr>ms_px := p\<rparr>; name = te_name env (st_cx (ms_st s) cx);
              s = set_px (tlog_write side (closed_msg side_label name)) s
          in Inr (if px_replacement_msg (ms_px s) \<noteq> []
                  then set_px (tlog_write side (dropped_msg name (px_replacement_msg (ms_px s)))) s
                  else s))
      else Inr s)"

definition on_error :: "traffic_env \<Rightarrow> nat option \<Rightarrow> char \<Rightarrow> string \<Rightarrow> mstate \<Rightarrow> access_error + mstate" where
  "on_error env cx side side_label s = (case cx of
     None \<Rightarrow> Inr (set_dead s)
   | Some cx \<Rightarrow>
       if \<not> px_dead (ms_px s) then
         if com_l4 (st_com (ms_st s) (px_com (ms_px s))) = SOCK_DGRAM then Inr (set_dead s)
         else
           let s = (case h_peer (st_cx (ms_st s) cx) of
                      None \<Rightarrow> set_dead s
                    | Some pr \<Rightarrow>
                        if h_write_pending (st_cx (ms_st s) pr) then
                          let s = on_half_close env cx s
                          in if px_dead (ms_px s) then s
                             else set_px (\<lambda>p. p\<lparr>px_events := px_events p @ [SetWriteMonitor (h_socket (st_cx (ms_st s) pr))]\<rparr>) s
                        else set_dead s)
           in error_log env cx side side_label s
       else
         result_bind (if opt_auth_resolve (ms_px s)
                      then result_bind (resolve_identity (me_id (te_mitm env)) (Some cx) False s) (\<lambda>(_, s). Inr s)
                      else Inr s) (\<lambda>s.
           let s = (case h_peer (st_cx (ms_st s) cx) of
                      Some pr \<Rightarrow> if \<not> h_write_pending (st_cx (ms_st s) pr) then set_dead s else s
                    | None \<Rightarrow> s)
           in error_log env cx side side_label s))"

text \<open>The traffic of a connection is added to the counters of the identity of its address.\<close>

definition count_cx :: "nat \<Rightarrow> mstate \<Rightarrow> mstate" where
  "count_cx cx s =
     (let c = st_cx (ms_st s) cx in
      s\<lparr>ms_auth := snd (ipX_inc_counters (map_option (\<lambda>k. com_l3 (st_com (ms_st s) k)) (h_com c)) (h_host c)
          (of_int (meter_read_bytes c)) (of_int (meter_write_bytes c)) (ms_auth s))\<rparr>)"

definition on_left_error :: "traffic_env \<Rightarrow> nat option \<Rightarrow> mstate \<Rightarrow> access_error + mstate" where
  "on_left_error env cx s =
     result_bind (on_error env cx CHR ''L'' ''client'' s) (\<lambda>s.
       Inr (case cx of Some cx \<Rightarrow> if px_dead (ms_px s) then count_cx cx s else s | None \<Rightarrow> s))"

definition on_right_error :: "traffic_env \<Rightarrow> nat option \<Rightarrow> mstate \<Rightarrow> access_error + mstate" where
  "on_right_error env cx s =
     result_bind (on_error env cx CHR ''R'' ''server'' s) (\<lambda>s.
       if px_dead (ms_px s) then
         (case cx of
            None \<Rightarrow> Inl NullDeref
          | Some cx \<Rightarrow> Inr (case h_peer (st_cx (ms_st s) cx) of Some pr \<Rightarrow> count_cx pr s | None \<Rightarrow> s))
       else Inr s)"

subsection \<open>Taps\<close>

definition tap_cx :: "nat \<Rightarrow> mstate \<Rightarrow> mstate" where
  "tap_cx cx s =
     set_st (upd_cx cx (\<lambda>c. c\<lparr>h_waiting_for_peercom := True, h_io_disabled := True\<rparr>))
       (set_px (\<lambda>p. p\<lparr>px_events := px_events p @ [UnsetMonitor (h_socket (st_cx (ms_st s) cx))]\<rparr>) s)"

definition untap_cx :: "nat \<Rightarrow> mstate \<Rightarrow> mstate" where
  "untap_cx cx s =
     set_st (upd_cx cx (\<lambda>c. c\<lparr>h_waiting_for_peercom := False, h_io_disabled := False\<rparr>))
       (set_px (\<lambda>p. p\<lparr>px_events := px_events p @ [SetPollHandler (h_socket (st_cx (ms_st s) cx)),
          SetWriteMonitor (h_socket (st_cx (ms_st s) cx))]\<rparr>) s)"

definition lefties :: "mitm_proxy \<Rightarrow> nat list" where
  "lefties p = px_ls p @ px_lda p @ px_lpc p @ px_lbs p"

definition righties :: "mitm_proxy \<Rightarrow> nat list" where
  "righties p = px_rs p @ px_rda p @ px_rpc p @ px_rbs p"

definition tap_left :: "mstate \<Rightarrow> mstate" where "tap_left s = fold tap_cx (lefties (ms_px s)) s"
definition tap_right :: "mstate \<Rightarrow> mstate" where "tap_right s = fold tap_cx (righties (ms_px s)) s"
definition tap :: "mstate \<Rightarrow> mstate" where "tap s = tap_right (tap_left s)"
definition untap_left :: "mstate \<Rightarrow> mstate" where "untap_left s = fold untap_cx (lefties (ms_px s)) s"
definition untap_right :: "mstate \<Rightarrow> mstate" where "untap_right s = fold untap_cx (righties (ms_px s)) s"
definition untap :: "mstate \<Rightarrow> mstate" where "untap s = untap_right (untap_left s)"

section \<open>Content rules\<close>

definition counter_ok :: "ProfileContentRule \<Rightarrow> bool" where
  "counter_ok pr \<longleftrightarrow> pcr_replace_each_nth pr > 0 \<longrightarrow>
     0 \<le> pcr_replace_each_counter pr \<and> pcr_replace_each_counter pr < pcr_replace_each_nth pr"

lemma content_rule_apply_ok:
  "counter_ok pr \<Longrightarrow> counter_ok (fst (content_rule_apply env pr txt))"
  by (auto simp: content_rule_apply_def counter_ok_def Let_def)

lemma content_rule_apply_static:
  "fst (content_rule_apply env pr txt) = pr\<lparr>pcr_replace_each_counter := pcr_replace_each_counter (fst (content_rule_apply env pr txt))\<rparr>"
  by (auto simp: content_rule_apply_def Let_def)

text \<open>A rule that replaces every n-th occurrence leaves the text alone until its counter reaches
  n, replaces then and starts over: each piece of data that contains the pattern moves the
  counter by one modulo n, and is rewritten exactly when that makes it zero. Data without the pattern does not count.\<close>

theorem nth_replacement_period:
  assumes "te_regex_ok env (pcr_match pr)" and "0 < pcr_replace_each_nth pr" and "counter_ok pr"
  shows "(\<not> te_regex_search env (pcr_match pr) t \<longrightarrow> content_rule_apply env pr t = (pr, t))
    \<and> (te_regex_search env (pcr_match pr) t \<longrightarrow>
        content_rule_apply env pr t =
          (pr\<lparr>pcr_replace_each_counter := (pcr_replace_each_counter pr + 1) mod pcr_replace_each_nth pr\<rparr>,
           if (pcr_replace_each_counter pr + 1) mod pcr_replace_each_nth pr = 0 then replace_by env pr t else t))"
proof -
  let ?c = "pcr_replace_each_counter pr" and ?n = "pcr_replace_each_nth pr"
  have c: "0 \<le> ?c" "?c < ?n" using assms by (simp_all add: counter_ok_def)
  show ?thesis
  proof (cases "?c + 1 = ?n")
    case True
    then have "(?c + 1) mod ?n = 0" by simp
    with assms True show ?thesis by (simp add: content_rule_apply_def Let_def)
  next
    case False
    with c have "(?c + 1) mod ?n = ?c + 1" "?c + 1 < ?n" by simp_all
    with assms c show ?thesis by (simp add: content_rule_apply_def Let_def)
  qed
qed

section \<open>Copying\<close>

lemma sinkhole_frame [simp]:
  "h_out (st_cx (sinkhole_proxy f from to side st) i) = h_out (st_cx st i)"
  "h_shutdown (st_cx (sinkhole_proxy f from to side st) i) = h_shutdown (st_cx st i)"
  by (simp_all add: sinkhole_proxy_def Let_def)

lemma sinkhole_fold_frame [simp]:
  "h_out (st_cx (fold (\<lambda>f. sinkhole_proxy f from to side) fs st) i) = h_out (st_cx st i)"
  "h_shutdown (st_cx (fold (\<lambda>f. sinkhole_proxy f from to side) fs st) i) = h_shutdown (st_cx st i)"
  by (induction fs arbitrary: st) simp_all

text \<open>While data is redirected nothing is copied: the other side is shut down.\<close>

lemma copy_redirected:
  assumes "h_to_read (st_cx (ms_st s) from) \<noteq> []"
  shows "ms_px (fold (proxy_copy env from side True) ts s) = ms_px s
    \<and> h_out (st_cx (ms_st (fold (proxy_copy env from side True) ts s)) i) = h_out (st_cx (ms_st s) i)
    \<and> h_to_read (st_cx (ms_st (fold (proxy_copy env from side True) ts s)) from) \<noteq> []
    \<and> (h_shutdown (st_cx (ms_st (fold (proxy_copy env from side True) ts s)) i) \<longleftrightarrow> i \<in> set ts \<or> h_shutdown (st_cx (ms_st s) i))"
  using assms
proof (induction ts arbitrary: s)
  case (Cons t ts)
  let ?s = "proxy_copy env from side True t s"
  have s: "?s = set_st (upd_cx t (\<lambda>c. c\<lparr>h_shutdown := True\<rparr>)) s" using Cons.prems by (simp add: proxy_copy_def)
  have "h_to_read (st_cx (ms_st ?s) from) \<noteq> []" using Cons.prems s by auto
  from Cons.IH[OF this] show ?case using s by simp
qed simp

text \<open>C25: When the combined check reports a redirection, which is always the verdict of the certificate check (that of the
  authentication check is not used), the data of the client that is being handled reaches no server connection: every server
  connection of the proxy is shut down instead and nothing is written to any connection after the
  checks.\<close>

theorem redirected_data_dropped:
  assumes "write_log env CHR ''L'' cx s = Inr s0"
    and "handle_requirements (te_mitm env) (Some cx) s0 = Inr (True, s1)"
    and "h_to_read (st_cx (ms_st s1) cx) \<noteq> []"
  shows "\<exists>s' s2. handle_com_response_ssl (te_mitm env) cx s2 = Inr (True, s1) \<and> on_left_bytes env (Some cx) s = Inr s'
    \<and> (\<forall>i. h_out (st_cx (ms_st s') i) = h_out (st_cx (ms_st s1) i))
    \<and> (\<forall>i\<in>set (px_rs (ms_px s1)) \<union> set (px_rda (ms_px s1)). h_shutdown (st_cx (ms_st s') i))"
proof -
  let ?m = "s1\<lparr>ms_meters := ms_meters s1 @ [(CHR ''L'', length (h_to_read (st_cx (ms_st s1) cx)))]\<rparr>"
  let ?s2 = "fold (proxy_copy env cx CHR ''L'' True) (px_rs (ms_px ?m)) ?m"
  let ?s3 = "fold (proxy_copy env cx CHR ''L'' True) (px_rda (ms_px ?s2)) ?s2"
  have m: "h_to_read (st_cx (ms_st ?m) cx) \<noteq> []" using assms(3) by simp
  note c2 = copy_redirected[OF m, of env "CHR ''L''" "px_rs (ms_px ?m)"]
  then have "h_to_read (st_cx (ms_st ?s2) cx) \<noteq> []" by blast
  note c3 = copy_redirected[OF this, of env "CHR ''L''" "px_rda (ms_px ?s2)"]
  have "on_left_bytes env (Some cx) s = Inr ?s3"
    using assms(1,2) by (simp add: on_left_bytes_def Let_def)
  moreover have "h_out (st_cx (ms_st ?s3) i) = h_out (st_cx (ms_st s1) i)" for i
    using c2[of i] c3[of i] by simp
  moreover have "h_shutdown (st_cx (ms_st ?s3) i)" if "i \<in> set (px_rs (ms_px s1)) \<union> set (px_rda (ms_px s1))" for i
    using c2[of i] c3[of i] that by auto
  moreover have "\<exists>s2. handle_com_response_ssl (te_mitm env) cx s2 = Inr (True, s1)"
    using assms(2) by (auto simp: handle_requirements_def Let_def result_bind_Inr_iff split: Option.bind_splits option.splits)
  ultimately show ?thesis by blast
qed

text \<open>Without content rules and filters, data that is not redirected is copied to the server
  unchanged, as one piece, and to no one else.\<close>

theorem data_copied_unchanged:
  assumes "write_log env CHR ''L'' cx s = Inr s0"
    and "handle_requirements (te_mitm env) (Some cx) s0 = Inr (False, s1)"
    and "px_rs (ms_px s1) = [r]" "px_rda (ms_px s1) = []" "r \<noteq> cx"
    and "px_content_rule (ms_px s1) = None" "px_filters (ms_px s1) = []"
    and "h_to_read (st_cx (ms_st s1) cx) \<noteq> []"
  shows "\<exists>s'. on_left_bytes env (Some cx) s = Inr s'
    \<and> h_out (st_cx (ms_st s') r) = h_out (st_cx (ms_st s1) r) @ [h_to_read (st_cx (ms_st s1) cx)]
    \<and> (\<forall>i. i \<noteq> r \<longrightarrow> h_out (st_cx (ms_st s') i) = h_out (st_cx (ms_st s1) i))"
  using assms by (simp add: on_left_bytes_def Let_def proxy_copy_def)

lemma sink_fold_empty:
  assumes "from \<noteq> to" "f \<in> set fs" "side = CHR ''L'' \<and> sink_left f \<or> side = CHR ''R'' \<and> sink_right f"
    "\<forall>f\<in>set fs. sink_replacement f = []"
  shows "h_to_read (st_cx (fold (\<lambda>f. sinkhole_proxy f from to side) fs st) from) = []"
proof -
  have keep: "h_to_read (st_cx (fold (\<lambda>f. sinkhole_proxy f from to side) gs st) from) = []"
    if "\<forall>f\<in>set gs. sink_replacement f = []" "h_to_read (st_cx st from) = []" for gs st
    using that assms(1) by (induction gs arbitrary: st) (auto simp: sinkhole_proxy_def Let_def)
  show ?thesis using assms
  proof (induction fs arbitrary: st)
    case (Cons g fs)
    show ?case
    proof (cases "f = g")
      case True
      then have "h_to_read (st_cx (sinkhole_proxy g from to side st) from) = []"
        using Cons.prems by (simp add: sinkhole_proxy_def Let_def)
      with keep[of fs] Cons.prems show ?thesis by simp
    next
      case False
      with Cons show ?thesis by simp
    qed
  qed simp
qed

text \<open>A sinkhole for the side data comes from swallows it: nothing of it is written to the other
  side. Content rules, however, take precedence over filters: with rules in place the rewritten
  data is written and the sinkhole is not consulted.\<close>

theorem sinkhole_swallows:
  assumes "f \<in> set (px_filters (ms_px s))" "side = CHR ''L'' \<and> sink_left f \<or> side = CHR ''R'' \<and> sink_right f"
    and "\<forall>f\<in>set (px_filters (ms_px s)). sink_replacement f = []" and "from \<noteq> to"
    and "h_to_read (st_cx (ms_st s) from) \<noteq> []"
  shows "concat (h_out (st_cx (ms_st (proxy_copy env from side False to s)) to)) =
     (case px_content_rule (ms_px s) of
        None \<Rightarrow> concat (h_out (st_cx (ms_st s) to))
      | Some rules \<Rightarrow> concat (h_out (st_cx (ms_st s) to)) @ snd (content_replace_apply env rules (h_to_read (st_cx (ms_st s) from))))"
proof (cases "px_content_rule (ms_px s)")
  case None
  with assms sink_fold_empty[OF assms(4,1,2,3), of "ms_st s"] show ?thesis
    by (simp add: proxy_copy_def Let_def)
next
  case (Some rules)
  with assms show ?thesis by (simp add: proxy_copy_def split: prod.split)
qed

section \<open>Half-closed connections\<close>

lemma payload_only_tlog: "payload_only p q \<Longrightarrow> payload_only p (tlog_write c t q)"
  by (rule payload_only_trans[OF _ payload_only_intro(5)])

lemma error_log_payload:
  assumes "error_log env cx side l s = Inr s'"
  shows "payload_only (ms_px s) (ms_px s')"
  using assms
  by (auto simp: error_log_def result_bind_Inr_iff Let_def split: if_splits
      dest!: toggle_tlog_payload intro!: payload_only_tlog)

lemma error_log_dead:
  assumes "error_log env cx side l s = Inr s'"
  shows "px_dead (ms_px s') = px_dead (ms_px s) \<and> half_holdtimer (ms_px s') = half_holdtimer (ms_px s)"
  using payload_only_frame[OF error_log_payload[OF assms]] by simp

text \<open>C40: When one side of a stream fails while the other still has data to send, the first error
  only starts the hold timer; the proxy then survives every further error until the configured
  number of seconds has passed, and the first error at or after that kills it. The timer is
  never restarted.\<close>

theorem half_close_hold:
  assumes "on_error env (Some cx) side label s = Inr s'"
    and "\<not> px_dead (ms_px s)" and "com_l4 (st_com (ms_st s) (px_com (ms_px s))) \<noteq> SOCK_DGRAM"
    and "h_peer (st_cx (ms_st s) cx) = Some pr" "h_peercom (st_cx (ms_st s) cx) = Some k"
    and "h_write_pending (st_cx (ms_st s) pr)" and "0 < te_now env"
  shows "if half_holdtimer (ms_px s) > 0
         then half_holdtimer (ms_px s') = half_holdtimer (ms_px s)
           \<and> (px_dead (ms_px s') \<longleftrightarrow> te_now env - half_holdtimer (ms_px s) \<ge> te_half_timeout env)
         else half_holdtimer (ms_px s') = te_now env \<and> \<not> px_dead (ms_px s')"
  using assms
  by (auto simp: on_error_def on_half_close_def Let_def set_dead_def split: if_splits dest!: error_log_dead)

section \<open>Taps\<close>

lemma tap_cx_frame [simp]:
  "lefties (ms_px (tap_cx i s)) = lefties (ms_px s)" "righties (ms_px (tap_cx i s)) = righties (ms_px s)"
  "lefties (ms_px (untap_cx i s)) = lefties (ms_px s)" "righties (ms_px (untap_cx i s)) = righties (ms_px s)"
  by (simp_all add: tap_cx_def untap_cx_def lefties_def righties_def)

lemma fold_tap:
  "st_cx (ms_st (fold tap_cx is s)) i =
     (if i \<in> set is then (st_cx (ms_st s) i)\<lparr>h_waiting_for_peercom := True, h_io_disabled := True\<rparr> else st_cx (ms_st s) i)"
  "lefties (ms_px (fold tap_cx is s)) = lefties (ms_px s)" "righties (ms_px (fold tap_cx is s)) = righties (ms_px s)"
  by (induction "is" arbitrary: s) (auto simp: tap_cx_def lefties_def righties_def)

lemma fold_untap:
  "st_cx (ms_st (fold untap_cx is s)) i =
     (if i \<in> set is then (st_cx (ms_st s) i)\<lparr>h_waiting_for_peercom := False, h_io_disabled := False\<rparr> else st_cx (ms_st s) i)"
  "lefties (ms_px (fold untap_cx is s)) = lefties (ms_px s)" "righties (ms_px (fold untap_cx is s)) = righties (ms_px s)"
  by (induction "is" arbitrary: s) (auto simp: untap_cx_def lefties_def righties_def)

text \<open>Tapping a proxy and untapping it again gives back every connection that was polled before,
  exactly as it was.\<close>

theorem untap_restores:
  assumes "\<forall>i\<in>set (lefties (ms_px s)) \<union> set (righties (ms_px s)).
      \<not> h_waiting_for_peercom (st_cx (ms_st s) i) \<and> \<not> h_io_disabled (st_cx (ms_st s) i)"
  shows "st_cx (ms_st (untap (tap s))) = st_cx (ms_st s)"
proof
  fix i
  have "(st_cx (ms_st s) i)\<lparr>h_waiting_for_peercom := False, h_io_disabled := False\<rparr> = st_cx (ms_st s) i"
    if "i \<in> set (lefties (ms_px s)) \<union> set (righties (ms_px s))"
    using assms[rule_format, OF that] by (cases "st_cx (ms_st s) i") simp
  then show "st_cx (ms_st (untap (tap s))) i = st_cx (ms_st s) i"
    by (simp add: untap_def tap_def untap_left_def untap_right_def tap_left_def tap_right_def fold_tap fold_untap)
qed

section \<open>Examples\<close>

definition plain_traffic :: traffic_env where
  "plain_traffic = \<lparr>te_mitm = plain_mitm, te_regex_ok = (\<lambda>r. True), te_regex_search = (\<lambda>r t. has_sub r t),
     te_regex_replace = (\<lambda>r t x. x), te_regex_replace_fill = (\<lambda>r t x. x), te_half_timeout = 5, te_name = h_host\<rparr>"

lemma plain_traffic_sel [simp]: "te_mitm plain_traffic = plain_mitm" "te_half_timeout plain_traffic = 5"
  by (simp_all add: plain_traffic_def)

definition second_rule :: ProfileContentRule where
  "second_rule = \<lparr>pcr_match = ''cat'', pcr_replace = ''dog'', pcr_fill_length = False, pcr_replace_each_nth = 2, pcr_replace_each_counter = 1\<rparr>"

theorem nth_replacement_period_witness:
  "content_rule_apply plain_traffic second_rule ''cat'' = (second_rule\<lparr>pcr_replace_each_counter := 0\<rparr>, ''dog'')"
  using nth_replacement_period[of plain_traffic second_rule "''cat''"]
  by (simp add: plain_traffic_def second_rule_def counter_ok_def has_sub_def replace_by_def)

definition data_state :: "bool \<Rightarrow> mstate" where
  "data_state h = set_px (\<lambda>p. p\<lparr>ssl_handled := h\<rparr>) (set_st (upd_cx 0 (\<lambda>c. c\<lparr>h_to_read := [1, 2]\<rparr>)) (plain_state []))"

lemma data_state_sel [simp]:
  "px_rs (ms_px (data_state h)) = [1]" "px_rda (ms_px (data_state h)) = []" "px_content_rule (ms_px (data_state h)) = None"
  "px_filters (ms_px (data_state h)) = []" "ssl_handled (ms_px (data_state h)) = h" "ms_whitelist (data_state h) = []"
  "h_to_read (st_cx (ms_st (data_state h)) 0) = [1, 2]" "\<not> px_write_payload (ms_px (data_state h))"
  "write_log env side 0 (data_state h) = Inr (data_state h)"
  by (simp_all add: data_state_def write_log_def)

lemma data_requirements:
  "handle_requirements plain_mitm (Some 0) (data_state h) = handle_com_response_ssl plain_mitm 0 (data_state h)"
  by (simp add: handle_requirements_def handle_authentication_def as_mitm_def Let_def)
     (simp add: data_state_def plain_store_def plain_conn_def)

theorem redirected_data_dropped_witness:
  "\<exists>s1 s'. handle_requirements plain_mitm (Some 0) (data_state False) = Inr (True, s1)
     \<and> on_left_bytes plain_traffic (Some 0) (data_state False) = Inr s' \<and> h_shutdown (st_cx (ms_st s') 1)"
proof -
  have p: "peer_ssl (ms_st (data_state False)) 0 = Some (1, plain_ssl 8)" by (simp add: data_state_def)
  have sel: "replacement_type (st_cx (ms_st (data_state False)) 0) = REPLACETYPE_NONE" "h_http (st_cx (ms_st (data_state False)) 0) = None"
    "first_right (ms_st (data_state False)) (tlog_write c t (ms_px (data_state False))) = Some 1" "h_port (st_cx (ms_st (data_state False)) 1) = ''443''" for c t
    by (simp_all add: data_state_def first_right_def as_mitm_def tlog_write_def)
  have "\<exists>s1. handle_com_response_ssl plain_mitm 0 (data_state False) = Inr (True, s1)
      \<and> h_to_read (st_cx (ms_st s1) 0) = [1, 2] \<and> px_rs (ms_px s1) = [1]"
    using p sel
    by (simp add: handle_com_response_ssl_def plain_not_ok plain_white failed_check_def handle_replacement_ssl_def Let_def)
       (simp add: reply_def add_msg_def ssl_msg_def set_replacement_msg_ssl_def Let_def)
  then obtain s1 where s1: "handle_requirements plain_mitm (Some 0) (data_state False) = Inr (True, s1)"
      "h_to_read (st_cx (ms_st s1) 0) = [1, 2]" "px_rs (ms_px s1) = [1]"
    using data_requirements by auto
  from redirected_data_dropped[of plain_traffic 0 "data_state False" "data_state False" s1] s1 show ?thesis by auto
qed

theorem data_copied_unchanged_witness:
  "\<exists>s'. on_left_bytes plain_traffic (Some 0) (data_state True) = Inr s' \<and> h_out (st_cx (ms_st s') 1) = [[1, 2]]"
proof -
  have "handle_requirements plain_mitm (Some 0) (data_state True) = Inr (False, data_state True)"
    unfolding data_requirements by (simp add: handle_com_response_ssl_def Let_def)
  moreover have "h_out (st_cx (ms_st (data_state True)) 1) = []"
    by (simp add: data_state_def plain_store_def plain_conn_def)
  ultimately show ?thesis
    using data_copied_unchanged[of plain_traffic 0 "data_state True" "data_state True" "data_state True" 1] by auto
qed

theorem sinkhole_swallows_witness:
  "concat (h_out (st_cx (ms_st (proxy_copy plain_traffic 0 CHR ''L'' False 1
     (set_px (\<lambda>p. p\<lparr>px_filters := [\<lparr>sink_left = True, sink_right = False, sink_replacement = []\<rparr>]\<rparr>) (data_state True)))) 1)) = []"
  using sinkhole_swallows[of "\<lparr>sink_left = True, sink_right = False, sink_replacement = []\<rparr>"
      "set_px (\<lambda>p. p\<lparr>px_filters := [\<lparr>sink_left = True, sink_right = False, sink_replacement = []\<rparr>]\<rparr>) (data_state True)"
      "CHR ''L''" 0 1 plain_traffic]
  by (simp add: data_state_def plain_store_def plain_conn_def)

definition pending_state :: "int \<Rightarrow> mstate" where
  "pending_state t = set_px (\<lambda>p. p\<lparr>half_holdtimer := t\<rparr>) (set_st (upd_cx 1 (\<lambda>c. c\<lparr>h_write_pending := True\<rparr>)) (plain_state []))"

theorem half_close_hold_witness:
  "\<exists>s'. on_error plain_traffic (Some 0) CHR ''L'' ''client'' (pending_state 996) = Inr s' \<and> \<not> px_dead (ms_px s')"
proof -
  have "\<exists>s'. on_error plain_traffic (Some 0) CHR ''L'' ''client'' (pending_state 996) = Inr s'"
    by (simp add: on_error_def on_half_close_def Let_def pending_state_def error_log_def SOCK_STREAM_def SOCK_DGRAM_def)
  then obtain s' where r: "on_error plain_traffic (Some 0) CHR ''L'' ''client'' (pending_state 996) = Inr s'" by blast
  from half_close_hold[OF r, of 1 1] r show ?thesis
    by (simp add: pending_state_def SOCK_STREAM_def SOCK_DGRAM_def)
qed

theorem untap_restores_witness:
  "h_io_disabled (st_cx (ms_st (tap (plain_state []))) 0) \<and> st_cx (ms_st (untap (tap (plain_state [])))) = st_cx (plain_store 8)"
proof -
  have "h_io_disabled (st_cx (ms_st (tap (plain_state []))) 0)"
    by (simp add: tap_def tap_left_def tap_right_def fold_tap lefties_def tap_cx_def)
  moreover have "\<forall>i\<in>set (lefties (ms_px (plain_state []))) \<union> set (righties (ms_px (plain_state []))).
      \<not> h_waiting_for_peercom (st_cx (ms_st (plain_state [])) i) \<and> \<not> h_io_disabled (st_cx (ms_st (plain_state [])) i)"
    by (simp add: plain_store_def plain_conn_def)
  ultimately show ?thesis using untap_restores[of "plain_state []"] by simp
qed

end
