(* ===== verification/SocksProxy.thy ===== *)
theory SocksProxy
  imports SocksRun Traffic
begin

text \<open>
  The proxy behind a SOCKS connection (\<open>src/src/proxy/socks5/socksproxy.cpp\<close>): the policy decision on a
  request, and the hand-off of the connection to an ordinary proxy session over TCP and over UDP.

  The SOCKS connection lives in the world of the theory Socks, the proxy and the connections made for the session
  in the store of the theory Conn. The numbers of the objects created on the way are
  arguments; the transports their constructors give are fields of the environment.
\<close>

section \<open>Model\<close>

datatype socks_proxy_error = PAccess access_error | PFault socks_fault

definition lift_pa :: "access_error + 'a \<Rightarrow> socks_proxy_error + 'a" where
  "lift_pa r = (case r of Inl e \<Rightarrow> Inl (PAccess e) | Inr x \<Rightarrow> Inr x)"

record ('c, 'd, 's) socks_proxy_env =
  sp_maker :: maker_env
  sp_socks :: "('c, 'd, 's) socks_env"
  sp_new_com :: "com_kind \<Rightarrow> com_obj"
  sp_slave :: "com_obj \<Rightarrow> com_obj"

record handoff_ids =
  hi_cx :: nat
  hi_left :: nat
  hi_left_com :: nat
  hi_target :: nat
  hi_target_com :: nat

text \<open>The proxy and the connections that \<open>connect\<close> was called on.\<close>

record socks_session =
  ss_ms :: mstate
  ss_connected :: "nat list"

definition set_ms :: "(mstate \<Rightarrow> mstate) \<Rightarrow> socks_session \<Rightarrow> socks_session" where
  "set_ms f s = s\<lparr>ss_ms := f (ss_ms s)\<rparr>"

abbreviation sp_id :: "('c, 'd, 's) socks_proxy_env \<Rightarrow> id_env" where "sp_id env \<equiv> mk_id (sp_maker env)"

definition session_dead :: "socks_session \<Rightarrow> socks_session" where
  "session_dead s = set_ms (set_px (\<lambda>p. p\<lparr>px_dead := True\<rparr>)) s"

subsection \<open>Identity\<close>

definition groups_match :: "ProfileAuth option \<Rightarrow> string list \<Rightarrow> bool" where
  "groups_match pa groups = (case pa of
     None \<Rightarrow> False
   | Some pa \<Rightarrow> list_ex (\<lambda>sub_pol. list_ex (\<lambda>x. x = sub_name sub_pol) groups) (sub_policies pa))"

definition com_dst_port :: "mstate \<Rightarrow> nat \<Rightarrow> access_error + int" where
  "com_dst_port s cx = (case h_com (st_cx (ms_st s) cx) of
     None \<Rightarrow> Inl NullDeref | Some k \<Rightarrow> Inr (nonlocal_dst_port (st_com (ms_st s) k)))"

definition socks5_handoff_authenticate :: "nat \<Rightarrow> mstate \<Rightarrow> access_error + (bool \<times> mstate)" where
  "socks5_handoff_authenticate cx s =
     (let af = cx_af (ms_st s) cx; host = h_host (st_cx (ms_st s) cx);
          groups_vec = (if af_v4 af then ip4_get_groups (ms_auth s) host
                        else if af = AF_INET6 then ip6_get_groups (ms_auth s) host else None)
      in case groups_vec of
           None \<Rightarrow> Inr (False, s)
         | Some groups \<Rightarrow>
             if groups_match (policy_prof_auth (ms_rules s) (px_matched_policy (ms_px s))) groups then Inr (True, s)
             else result_bind (com_dst_port s cx) (\<lambda>target_port.
               if target_port \<noteq> 80 \<and> target_port \<noteq> 443 then Inr (False, s)
               else Inr (True, set_px (\<lambda>p. p\<lparr>auth_block_identity := True\<rparr>) s)))"

definition socks5_handoff_resolve_identity :: "id_env \<Rightarrow> nat \<Rightarrow> mstate \<Rightarrow> access_error + (bool \<times> mstate)" where
  "socks5_handoff_resolve_identity env cx s =
     (if opt_auth_authenticate (ms_px s) \<or> opt_auth_resolve (ms_px s) then
        result_bind (resolve_identity env (Some cx) False s) (\<lambda>(resolved, s).
          if \<not> resolved then
            if opt_auth_authenticate (ms_px s) then
              result_bind (com_dst_port s cx) (\<lambda>target_port. Inr (\<not> (target_port \<noteq> 80 \<and> target_port \<noteq> 443), s))
            else Inr (True, s)
          else if opt_auth_authenticate (ms_px s) then socks5_handoff_authenticate cx s
          else Inr (True, s))
      else Inr (True, s))"

subsection \<open>Hand-off\<close>

definition policy_in_table :: "mstate \<Rightarrow> bool" where
  "policy_in_table s \<longleftrightarrow> 0 \<le> px_matched_policy (ms_px s) \<and> px_matched_policy (ms_px s) < int (length (ms_rules s))"

definition note_policy :: "nat \<Rightarrow> mstate \<Rightarrow> mstate" where
  "note_policy cx s = set_st (upd_cx cx (\<lambda>c. c\<lparr>h_matched_policy := px_matched_policy (ms_px s)\<rparr>)) s"

text \<open>Application of the matched rule to a connection, with the number it returns.\<close>

definition apply_matched :: "apply_env \<Rightarrow> nat \<Rightarrow> mstate \<Rightarrow> access_error + (int \<times> mstate)" where
  "apply_matched env cx s =
     result_bind (policy_apply env (Some cx) (px_matched_policy (ms_px s)) (ms_rules s) (ms_px s) (ms_st s))
       (\<lambda>(num, rules, st, p). Inr (num, s\<lparr>ms_rules := rules, ms_st := st, ms_px := p\<rparr>))"

text \<open>The end of both hand-offs: connect the target, then resolve the identity of the client.\<close>

definition connect_target :: "('c, 'd, 's) socks_proxy_env \<Rightarrow> nat \<Rightarrow> nat \<Rightarrow> mstate \<Rightarrow> socks_session \<Rightarrow> access_error + socks_session" where
  "connect_target env cx target s ss =
     (let real_socket = mk_connect (sp_maker env) target;
          s = set_px (\<lambda>p. p\<lparr>px_events := px_events p @ [SetMonitor real_socket, SetPollHandler real_socket]\<rparr>) s;
          ss = ss\<lparr>ss_connected := ss_connected ss @ [target]\<rparr>
      in result_bind (socks5_handoff_resolve_identity (sp_id env) cx s) (\<lambda>(ok, s).
           let ss = ss\<lparr>ss_ms := s\<rparr> in Inr (if ok then ss else session_dead ss)))"

definition tcp_kind :: "int \<Rightarrow> 16 word \<Rightarrow> com_kind" where
  "tcp_kind l4 port = (if port \<in> tls_ports \<and> l4 \<noteq> SOCK_DGRAM then TlsCom else if l4 = SOCK_DGRAM then UdpCom else TcpCom)"

text \<open>The connections of a handed-off session.\<close>

definition install_left :: "('c, 'd, 's) socks_proxy_env \<Rightarrow> handoff_ids \<Rightarrow> socks_cx \<Rightarrow> int \<Rightarrow> hstore \<Rightarrow> hstore" where
  "install_left env ids c l4 st =
     upd_cx (hi_left ids) (\<lambda>_. (new_target [] [] (hi_left_com ids))\<lparr>h_socket := sx_socket c, h_waiting_for_peercom := True\<rparr>)
       (upd_com (hi_left_com ids) (\<lambda>_. (sp_new_com env (tcp_kind l4 (sx_dst_port c)))\<lparr>nonlocal_dst_port := uint (sx_dst_port c)\<rparr>) st)"

definition install_target :: "('c, 'd, 's) socks_proxy_env \<Rightarrow> handoff_ids \<Rightarrow> string \<Rightarrow> 16 word \<Rightarrow> hstore \<Rightarrow> hstore" where
  "install_target env ids host port st =
     upd_cx (hi_target ids) (\<lambda>_. new_target host (dec (unat port)) (hi_target_com ids))
       (upd_com (hi_target_com ids) (\<lambda>_. sp_slave env (st_com st (hi_left_com ids))) st)"

definition pair_up :: "socle_env \<Rightarrow> nat \<Rightarrow> nat \<Rightarrow> hstore \<Rightarrow> hstore" where
  "pair_up se a b st = se_set_peer se b a (se_set_peer se a b st)"

definition set_source :: "nat \<Rightarrow> string \<Rightarrow> string \<Rightarrow> mstate \<Rightarrow> socks_proxy_error + mstate" where
  "set_source k h p s =
     result_bind (lift_pa (policy_at (ms_rules s) (px_matched_policy (ms_px s)))) (\<lambda>r.
       if rule_nat r = POLICY_NAT_NONE then
         (case stoi p of
            Inl e \<Rightarrow> Inl (PFault (Throws e))
          | Inr n \<Rightarrow> Inr (set_st (upd_com k (\<lambda>c. c\<lparr>nonlocal_src := True, nonlocal_src_host := h,
                nonlocal_src_port := n mod 65536\<rparr>)) s))
       else Inr s)"

definition socks5_handoff :: "('c, 'd, 's) socks_proxy_env \<Rightarrow> handoff_ids \<Rightarrow> socks_cx \<Rightarrow> socks_session \<Rightarrow> socks_proxy_error + socks_session" where
  "socks5_handoff env ids c ss =
     (let s = ss_ms ss in
      if \<not> policy_in_table s then Inr (session_dead ss)
      else
        let s = set_st (install_left env ids c (com_l4 (st_com (ms_st s) (px_com (ms_px s))))) s;
            s = set_px (\<lambda>p. p\<lparr>px_ls := [], px_lda := px_lda p @ [hi_left ids]\<rparr>) s
        in case se_socket_src (sp_socks env) (sx_socket c) of
             None \<Rightarrow> Inr (session_dead (ss\<lparr>ss_ms := s\<rparr>))
           | Some (h, p) \<Rightarrow>
               let s = set_st (upd_cx (hi_left ids) (\<lambda>c. c\<lparr>h_host := h, h_port := p\<rparr>)) s;
                   s = set_st (install_target env ids (sx_dst_host c) (sx_dst_port c)) s;
                   s = set_st (pair_up (mk_socle (sp_maker env)) (hi_left ids) (hi_target ids)) s
               in result_bind (set_source (hi_target_com ids) h p s) (\<lambda>s.
                  let s = note_policy (hi_target ids) (note_policy (hi_left ids) s);
                      s = set_px (\<lambda>q. q\<lparr>px_rs := px_rs q @ [hi_target ids]\<rparr>) s
                  in lift_pa (result_bind (route_by_policy (sp_maker env) (px_matched_policy (ms_px s)) s) (\<lambda>s.
                     result_bind (apply_matched (mk_apply (sp_maker env)) (hi_left ids) s) (\<lambda>(n1, s).
                       if n1 < 0 then Inr (session_dead (ss\<lparr>ss_ms := s\<rparr>))
                       else result_bind (apply_matched (mk_apply (sp_maker env)) (hi_target ids) s) (\<lambda>(n2, s).
                         if n2 < 0 then Inr (session_dead (ss\<lparr>ss_ms := s\<rparr>))
                         else connect_target env (hi_left ids) (hi_target ids) s ss))))))"

text \<open>Over UDP the prepared connections are used; the SOCKS connection stays on the left side. The pointer to the
  left one is dereferenced before it is checked.\<close>

definition socks5_handoff_udp :: "('c, 'd, 's) socks_proxy_env \<Rightarrow> handoff_ids \<Rightarrow> socks_cx \<Rightarrow> socks_session \<Rightarrow> socks_proxy_error + socks_session" where
  "socks5_handoff_udp env ids c ss =
     (let s = ss_ms ss in
      if \<not> policy_in_table s then Inr (session_dead ss)
      else case (sx_right c, sx_left c) of
        (Some r, Some l) \<Rightarrow>
          let s = set_st (\<lambda>st. upd_cx (hi_left ids) (\<lambda>_. (new_target [] [] (hi_left_com ids))\<lparr>h_socket := sx_socket c,
                      h_waiting_for_peercom := True, h_to_read := sh_readbuf l\<rparr>)
                    (upd_com (hi_left_com ids) (\<lambda>_. (sp_new_com env (sh_com l))\<lparr>nonlocal_dst_port := uint (sh_dst_port l)\<rparr>) st)) s;
              s = set_st (install_target env ids (sh_dst_host r) (sh_dst_port r)) s;
              s = set_st (upd_com (hi_target_com ids) (\<lambda>k. k\<lparr>nonlocal_src := False, nonlocal_src_host := sh_src_host r,
                    nonlocal_src_port := sh_src_port r\<rparr>)) s;
              s = set_st (upd_cx (hi_target ids) (\<lambda>t. t\<lparr>h_waiting_for_peercom := True\<rparr>)) s;
              s = set_st (pair_up (mk_socle (sp_maker env)) (hi_cx ids) (hi_target ids)) s;
              s = set_st (upd_cx (hi_target ids) (\<lambda>t. t\<lparr>h_out := h_out t @ [sh_readbuf l]\<rparr>)) s
          in result_bind (lift_pa (policy_at (ms_rules s) (px_matched_policy (ms_px s)))) (\<lambda>rule.
             let s = (if rule_nat rule = POLICY_NAT_NONE
                      then set_st (upd_com (hi_target_com ids) (\<lambda>k. k\<lparr>nonlocal_src := True\<rparr>)) s else s);
                 s = note_policy (hi_target ids) (note_policy (hi_left ids) s);
                 s = set_px (\<lambda>q. q\<lparr>px_rs := px_rs q @ [hi_target ids]\<rparr>) s
             in lift_pa (result_bind (route_by_policy (sp_maker env) (px_matched_policy (ms_px s)) s) (\<lambda>s.
                result_bind (apply_matched (mk_apply (sp_maker env)) (hi_left ids) s) (\<lambda>(n1, s).
                  if n1 < 0 then Inr (session_dead (ss\<lparr>ss_ms := s\<rparr>))
                  else connect_target env (hi_left ids) (hi_target ids) s ss))))
      | _ \<Rightarrow> Inl (PAccess NullDeref))"

subsection \<open>Messages of the connection\<close>

text \<open>What rule matching sees of the SOCKS connection and of the prepared target.\<close>

definition client_view :: "socks_cx \<Rightarrow> host_cx" where
  "client_view c = \<lparr>cx_host = sx_host c, cx_port = sx_port c, cx_l4 = Some (sx_l4 c)\<rparr>"

definition target_view :: "socks_cx \<Rightarrow> shadow_cx \<Rightarrow> host_cx" where
  "target_view c r = \<lparr>cx_host = sh_dst_host r, cx_port = dec (unat (sh_dst_port r)), cx_l4 = Some (sx_l4 c)\<rparr>"

text \<open>The action of the matched rule is converted to a truth value: any value but 0 accepts.\<close>

definition socks_policy_check :: "('c, 'd, 's) socks_proxy_env \<Rightarrow> socks_cx \<Rightarrow> mstate \<Rightarrow> access_error + (bool \<times> mstate)" where
  "socks_policy_check env c s =
     (if sx_req_cmd c = CONNECT then
        (case sx_right c of
           None \<Rightarrow> Inl NullDeref
         | Some r \<Rightarrow>
             result_bind (policy_match_lr (ap_policy (mk_apply (sp_maker env))) (ms_rules s) [client_view c] [target_view c r]) (\<lambda>(n, rules).
               Inr (policy_action rules n \<noteq> 0, set_px (\<lambda>p. p\<lparr>px_matched_policy := n\<rparr>) (s\<lparr>ms_rules := rules\<rparr>))))
      else Inr (sx_req_cmd c = UDP_ASSOCIATE, s))"

definition give_verdict :: "nat \<Rightarrow> socks5_policy \<Rightarrow> ('c, 'd) socks_world \<Rightarrow> socks_proxy_error + ('c, 'd) socks_world" where
  "give_verdict i v w = (case set_verdict i v w of (w, Inl e) \<Rightarrow> Inl (PFault e) | (w, Inr _) \<Rightarrow> Inr w)"

definition set_state :: "nat \<Rightarrow> socks5_state \<Rightarrow> ('c, 'd) socks_world \<Rightarrow> ('c, 'd) socks_world" where
  "set_state i x w = upd_s i (\<lambda>c. c\<lparr>sx_state := x\<rparr>) w"

text \<open>The TCP hand-off deletes the SOCKS connection once the matched rule is known to exist.\<close>

definition handoff_tcp :: "('c, 'd, 's) socks_proxy_env \<Rightarrow> handoff_ids \<Rightarrow> nat \<Rightarrow> ('c, 'd) socks_world \<Rightarrow> socks_session
    \<Rightarrow> socks_proxy_error + (('c, 'd) socks_world \<times> socks_session)" where
  "handoff_tcp env ids i w ss = result_bind (socks5_handoff env ids (sw_cx w i) ss) (\<lambda>ss'.
     Inr (if policy_in_table (ss_ms ss) then release_cx i w else w, ss'))"

definition on_left_message :: "('c, 'd, 's) socks_proxy_env \<Rightarrow> handoff_ids \<Rightarrow> nat \<Rightarrow> ('c, 'd) socks_world \<Rightarrow> socks_session
    \<Rightarrow> socks_proxy_error + (('c, 'd) socks_world \<times> socks_session)" where
  "on_left_message env ids i w ss =
     (let c = sw_cx w i; s = ss_ms ss in
      if sx_req_error c \<noteq> NONE then
        if sx_req_error c = MALFORMED_DATA then Inr (set_error i w, ss)
        else result_bind (give_verdict i REJECT w) (\<lambda>w. Inr (w, ss))
      else if sx_state c = WAIT_POLICY then
        result_bind (lift_pa (socks_policy_check env c s)) (\<lambda>(verdict, s).
          result_bind (give_verdict i (if verdict then ACCEPT else REJECT) w) (\<lambda>w.
            if com_l4 (st_com (ms_st s) (px_com (ms_px s))) = SOCK_DGRAM then
              let w = set_state i ZOMBIE w in
              if sx_l4 (sw_cx w i) \<noteq> SOCK_DGRAM then handoff_tcp env ids i w (ss\<lparr>ss_ms := s\<rparr>)
              else result_bind (socks5_handoff_udp env ids (sw_cx w i) (ss\<lparr>ss_ms := s\<rparr>)) (\<lambda>ss. Inr (w, ss))
            else Inr (w, ss\<lparr>ss_ms := s\<rparr>)))
      else if sx_state c = HANDOFF then
        let w = set_state i ZOMBIE w in
        if sx_l4 c \<noteq> SOCK_DGRAM then handoff_tcp env ids i w ss else Inr (w, ss)
      else Inr (w, ss))"

definition socks_on_left_bytes :: "traffic_env \<Rightarrow> nat option \<Rightarrow> mstate \<Rightarrow> access_error + mstate" where
  "socks_on_left_bytes env cx s =
     (if px_ls (ms_px s) = [] \<or> px_rs (ms_px s) = [] then Inr s else on_left_bytes env cx s)"

text \<open>A new connection gets a proxy of its own.\<close>

definition socks_on_left_new :: "nat \<Rightarrow> nat \<Rightarrow> master_proxy \<Rightarrow> master_proxy" where
  "socks_on_left_new cx slave m =
     (let p = fresh_proxy slave in m\<lparr>mp_proxies := mp_proxies m @ [p\<lparr>px_ls := px_ls p @ [cx]\<rparr>]\<rparr>)"

section \<open>Facts\<close>

lemma set_ms_sel [simp]: "ss_ms (set_ms f s) = f (ss_ms s)" "ss_connected (set_ms f s) = ss_connected s"
  by (simp_all add: set_ms_def)

lemma session_dead_sel [simp]:
  "ss_connected (session_dead s) = ss_connected s" "px_dead (ms_px (ss_ms (session_dead s)))"
  by (simp_all add: session_dead_def)

lemma lift_pa_Inr [simp]: "lift_pa r = Inr x \<longleftrightarrow> r = Inr x" "lift_pa (Inr x) = Inr x"
  by (auto simp: lift_pa_def split: sum.splits)

lemma connect_target_connected:
  "connect_target env cx t s ss = Inr ss' \<Longrightarrow> ss_connected ss' = ss_connected ss @ [t]"
  by (auto simp: connect_target_def Let_def result_bind_Inr_iff)

lemma handoff_connected:
  assumes "socks5_handoff env ids c ss = Inr ss'" "ss_connected ss' \<noteq> ss_connected ss"
  shows "policy_in_table (ss_ms ss) \<and> ss_connected ss' = ss_connected ss @ [hi_target ids]"
  using assms
  by (auto simp: socks5_handoff_def Let_def result_bind_Inr_iff split: if_splits option.splits dest: connect_target_connected)

lemma handoff_udp_connected:
  assumes "socks5_handoff_udp env ids c ss = Inr ss'" "ss_connected ss' \<noteq> ss_connected ss"
  shows "policy_in_table (ss_ms ss) \<and> ss_connected ss' = ss_connected ss @ [hi_target ids]"
  using assms
  by (auto simp: socks5_handoff_udp_def Let_def result_bind_Inr_iff split: if_splits option.splits dest: connect_target_connected)

lemma handoff_tcp_connected:
  assumes "handoff_tcp env ids i w ss = Inr (w', ss')" "ss_connected ss' \<noteq> ss_connected ss"
  shows "policy_in_table (ss_ms ss) \<and> ss_connected ss' = ss_connected ss @ [hi_target ids] \<and> sw_cx w' = sw_cx w"
  using assms handoff_connected[of env ids "sw_cx w i" ss ss'] by (auto simp: handoff_tcp_def result_bind_Inr_iff)

lemma apply_matched_deny:
  assumes "1 \<le> px_matched_policy (ms_px s)" "policy_action (ms_rules s) (px_matched_policy (ms_px s)) \<noteq> POLICY_ACTION_PASS"
  shows "apply_matched env cx s = Inr (px_matched_policy (ms_px s), s)"
  using assms by (simp add: apply_matched_def policy_apply_def)

lemma note_policy_sel [simp]: "ms_px (note_policy cx s) = ms_px s" "ms_rules (note_policy cx s) = ms_rules s"
  by (simp_all add: note_policy_def)

text \<open>A denying rule does not stop the hand-off.\<close>

lemma handoff_denied:
  fixes ss :: socks_session
  defines "n \<equiv> px_matched_policy (ms_px (ss_ms ss))" and "rules \<equiv> ms_rules (ss_ms ss)"
  assumes n: "1 \<le> n" "n < int (length rules)" and deny: "rule_action (rules ! nat n) = POLICY_ACTION_DENY"
    and plain: "profile_routing (rule_profiles (rules ! nat n)) = None"
      "\<not> opt_auth_authenticate (ms_px (ss_ms ss))" "\<not> opt_auth_resolve (ms_px (ss_ms ss))"
    and src: "se_socket_src (sp_socks env) (sx_socket c) = Some (h, p)" "stoi p = Inr k"
  shows "\<exists>ss'. socks5_handoff env ids c ss = Inr ss' \<and> ss_connected ss' = ss_connected ss @ [hi_target ids]
    \<and> px_dead (ms_px (ss_ms ss')) = px_dead (ms_px (ss_ms ss))"
proof -
  have t: "policy_in_table (ss_ms ss)" using n by (simp add: policy_in_table_def n_def rules_def)
  have source: "\<exists>s'. set_source x h p s = Inr s' \<and> ms_px s' = ms_px s \<and> ms_rules s' = ms_rules s"
    if "px_matched_policy (ms_px s) = n" "ms_rules s = rules" for s x
    using that n src(2) by (auto simp: set_source_def policy_at_def lift_pa_def)
  have rest: "\<exists>ss'. lift_pa (result_bind (route_by_policy (sp_maker env) (px_matched_policy (ms_px s)) s) (\<lambda>s.
       result_bind (apply_matched e1 a s) (\<lambda>(n1, s).
         if n1 < 0 then Inr (session_dead (ss\<lparr>ss_ms := s\<rparr>))
         else result_bind (apply_matched e2 b s) (\<lambda>(n2, s).
           if n2 < 0 then Inr (session_dead (ss\<lparr>ss_ms := s\<rparr>)) else connect_target env a b s ss)))) = Inr ss'
      \<and> ss_connected ss' = ss_connected ss @ [b] \<and> px_dead (ms_px (ss_ms ss')) = px_dead (ms_px s)"
    if s: "px_matched_policy (ms_px s) = n" "ms_rules s = rules" "\<not> opt_auth_authenticate (ms_px s)" "\<not> opt_auth_resolve (ms_px s)" for s e1 e2 a b
  proof -
    have "route_by_policy (sp_maker env) n s = Inr s"
      using s n plain(1) by (simp add: route_by_policy_def lookup_policy_def nat_less_iff split: option.splits)
    moreover have "apply_matched e x s = Inr (n, s)" for e x
      using apply_matched_deny[of s e x] s n deny by (simp add: policy_action_def POLICY_ACTION_DENY_def POLICY_ACTION_PASS_def)
    ultimately show ?thesis
      using s n(1) by (simp add: connect_target_def socks5_handoff_resolve_identity_def Let_def)
  qed
  define s1 where "s1 = set_st (pair_up (mk_socle (sp_maker env)) (hi_left ids) (hi_target ids))
    (set_st (install_target env ids (sx_dst_host c) (sx_dst_port c)) (set_st (upd_cx (hi_left ids) (\<lambda>c. c\<lparr>h_host := h, h_port := p\<rparr>))
      (set_px (\<lambda>p. p\<lparr>px_ls := [], px_lda := px_lda p @ [hi_left ids]\<rparr>)
        (set_st (install_left env ids c (com_l4 (st_com (ms_st (ss_ms ss)) (px_com (ms_px (ss_ms ss)))))) (ss_ms ss)))))"
  have s1: "ms_px s1 = (ms_px (ss_ms ss))\<lparr>px_ls := [], px_lda := px_lda (ms_px (ss_ms ss)) @ [hi_left ids]\<rparr>" "ms_rules s1 = rules"
    by (simp_all add: s1_def rules_def)
  obtain s2 where s2: "set_source (hi_target_com ids) h p s1 = Inr s2" "ms_px s2 = ms_px s1" "ms_rules s2 = ms_rules s1"
    using source[of s1] s1 by (auto simp: n_def)
  let ?s3 = "set_px (\<lambda>q. q\<lparr>px_rs := px_rs q @ [hi_target ids]\<rparr>) (note_policy (hi_target ids) (note_policy (hi_left ids) s2))"
  have "px_matched_policy (ms_px ?s3) = n" "ms_rules ?s3 = rules" "\<not> opt_auth_authenticate (ms_px ?s3)" "\<not> opt_auth_resolve (ms_px ?s3)"
    "px_dead (ms_px ?s3) = px_dead (ms_px (ss_ms ss))"
    using s1 s2 plain by (simp_all add: n_def)
  then show ?thesis
    using rest[of ?s3 _ "hi_left ids" _ "hi_target ids"] t src(1) s2(1)
    by (simp add: socks5_handoff_def Let_def flip: s1_def)
qed

text \<open>The verdict and the reply on a version 5 connect request for an IPv4 address.\<close>

definition ipv4_pending :: "socks_cx \<Rightarrow> bool" where
  "ipv4_pending c \<longleftrightarrow> sx_state c = WAIT_POLICY \<and> sx_req_error c = NONE \<and> sx_version c = 5 \<and> sx_req_cmd c = CONNECT
     \<and> sx_req_atype c = ATYPE_IPV4 \<and> sx_l4 c \<noteq> SOCK_DGRAM"

lemma reply_v5_ipv4:
  assumes "sx_req_cmd c = CONNECT" "sx_req_atype c = ATYPE_IPV4"
  shows "reply_v5 c = [5, if sx_verdict c = ACCEPT then 0 else 2, 0, 1] @ addr_octets (as_v4_addr (sx_req_addr c)) @ port_octets (sx_req_port c)"
  using assms by (simp add: reply_v5_def socks_code_defs)

lemma give_verdict_ipv4:
  assumes "ipv4_pending (sw_cx w i)" "v \<noteq> PENDING"
  obtains w' where "give_verdict i v w = Inr w'"
    "sw_cx w' i = (sw_cx w i)\<lparr>sx_verdict := v, sx_state := REQRES_SENT,
       sx_writebuf := sx_writebuf (sw_cx w i) @ reply_v5 ((sw_cx w i)\<lparr>sx_verdict := v\<rparr>),
       sx_events := sx_events (sw_cx w i) @ [SetWriteMonitor (sx_socket (sw_cx w i))]\<rparr>"
proof -
  have v: "v = ACCEPT \<or> v = REJECT" using assms(2) by (cases v) auto
  have r: "reply_v5 ((sw_cx w i)\<lparr>sx_verdict := v, sx_state := POLICY_RECEIVED\<rparr>) = reply_v5 ((sw_cx w i)\<lparr>sx_verdict := v\<rparr>)"
    by (simp add: reply_v5_def)
  have l: "length (reply_v5 ((sw_cx w i)\<lparr>sx_verdict := v\<rparr>)) = 10"
    using assms(1) by (simp add: ipv4_pending_def reply_v5_ipv4 addr_octets_def port_octets_def)
  have "\<exists>w'. give_verdict i v w = Inr w' \<and> sw_cx w' i = (sw_cx w i)\<lparr>sx_verdict := v, sx_state := REQRES_SENT,
       sx_writebuf := sx_writebuf (sw_cx w i) @ reply_v5 ((sw_cx w i)\<lparr>sx_verdict := v\<rparr>),
       sx_events := sx_events (sw_cx w i) @ [SetWriteMonitor (sx_socket (sw_cx w i))]\<rparr>"
    using assms(1) v l r
    by (simp add: ipv4_pending_def give_verdict_def set_verdict_def Let_def process_socks_reply_def process_socks_reply_v5_def socks_code_defs)
  then show thesis using that by blast
qed

text \<open>The client has read the reply: the connection is polled with an empty output buffer.\<close>

definition reply_read :: "('c, 'd, 's) socks_env \<Rightarrow> nat \<Rightarrow> ('c, 'd) socks_world \<Rightarrow> ('c, 'd) socks_world" where
  "reply_read env i w = pre_write env i (upd_s i (\<lambda>c. c\<lparr>sx_writebuf := []\<rparr>) w)"

lemma reply_read_cx:
  "sx_state (sw_cx w i) = REQRES_SENT \<Longrightarrow> sw_cx (reply_read env i w) i
     = (sw_cx w i)\<lparr>sx_writebuf := [], sx_wait := True, sx_state := HANDOFF\<rparr>"
  by (simp add: reply_read_def pre_write_def)

lemma check_connect:
  assumes "sx_req_cmd c = CONNECT" "sx_right c = Some r"
    and "policy_match_lr (ap_policy (mk_apply (sp_maker env))) (ms_rules s) [client_view c] [target_view c r] = Inr (n, rules)"
  shows "socks_policy_check env c s = Inr (policy_action rules n \<noteq> 0, set_px (\<lambda>p. p\<lparr>px_matched_policy := n\<rparr>) (s\<lparr>ms_rules := rules\<rparr>))"
  using assms by (simp add: socks_policy_check_def)

lemma decide_ipv4:
  fixes env :: "('c, 'd, 's) socks_proxy_env" and w :: "('c, 'd) socks_world"
  assumes c: "ipv4_pending (sw_cx w i)" and r: "sx_right (sw_cx w i) = Some r"
    and m: "policy_match_lr (ap_policy (mk_apply (sp_maker env))) (ms_rules (ss_ms ss)) [client_view (sw_cx w i)] [target_view (sw_cx w i) r]
      = Inr (n, rules)"
    and tcp: "com_l4 (st_com (ms_st (ss_ms ss)) (px_com (ms_px (ss_ms ss)))) \<noteq> SOCK_DGRAM"
  obtains w' :: "('c, 'd) socks_world" where "on_left_message env ids i w ss = Inr (w', set_ms (\<lambda>s. set_px (\<lambda>p. p\<lparr>px_matched_policy := n\<rparr>) (s\<lparr>ms_rules := rules\<rparr>)) ss)"
    "sw_cx w' i = (sw_cx w i)\<lparr>sx_verdict := (if policy_action rules n \<noteq> 0 then ACCEPT else REJECT), sx_state := REQRES_SENT,
       sx_writebuf := sx_writebuf (sw_cx w i) @ reply_v5 ((sw_cx w i)\<lparr>sx_verdict := (if policy_action rules n \<noteq> 0 then ACCEPT else REJECT)\<rparr>),
       sx_events := sx_events (sw_cx w i) @ [SetWriteMonitor (sx_socket (sw_cx w i))]\<rparr>"
proof -
  let ?v = "if policy_action rules n \<noteq> 0 then ACCEPT else REJECT"
  obtain w' :: "('c, 'd) socks_world" where w': "give_verdict i ?v w = Inr w'" "sw_cx w' i = (sw_cx w i)\<lparr>sx_verdict := ?v, sx_state := REQRES_SENT,
       sx_writebuf := sx_writebuf (sw_cx w i) @ reply_v5 ((sw_cx w i)\<lparr>sx_verdict := ?v\<rparr>),
       sx_events := sx_events (sw_cx w i) @ [SetWriteMonitor (sx_socket (sw_cx w i))]\<rparr>"
    by (rule give_verdict_ipv4[OF c, of ?v]) (simp, blast)
  have "on_left_message env ids i w ss = Inr (w', set_ms (\<lambda>s. set_px (\<lambda>p. p\<lparr>px_matched_policy := n\<rparr>) (s\<lparr>ms_rules := rules\<rparr>)) ss)"
    using c tcp check_connect[OF _ r m] w'(1)
    by (simp add: on_left_message_def ipv4_pending_def set_ms_def Let_def)
  then show thesis using that w'(2) by blast
qed

lemma wait_policy_message:
  assumes "sx_state (sw_cx w i) = WAIT_POLICY" "sx_req_error (sw_cx w i) = NONE"
  shows "on_left_message env ids i w ss
      = result_bind (lift_pa (socks_policy_check env (sw_cx w i) (ss_ms ss))) (\<lambda>(verdict, s).
          result_bind (give_verdict i (if verdict then ACCEPT else REJECT) w) (\<lambda>w.
            if com_l4 (st_com (ms_st s) (px_com (ms_px s))) = SOCK_DGRAM then
              if sx_l4 (sw_cx (set_state i ZOMBIE w) i) \<noteq> SOCK_DGRAM then handoff_tcp env ids i (set_state i ZOMBIE w) (ss\<lparr>ss_ms := s\<rparr>)
              else result_bind (socks5_handoff_udp env ids (sw_cx (set_state i ZOMBIE w) i) (ss\<lparr>ss_ms := s\<rparr>)) (\<lambda>ss. Inr (set_state i ZOMBIE w, ss))
            else Inr (w, ss\<lparr>ss_ms := s\<rparr>)))"
  using assms unfolding on_left_message_def Let_def by simp

lemma wait_policy_connected:
  assumes "sx_state (sw_cx w i) = WAIT_POLICY" "sx_req_error (sw_cx w i) = NONE"
    and m: "on_left_message env ids i w ss = Inr (w', ss')" "ss_connected ss' \<noteq> ss_connected ss"
  obtains v s where "socks_policy_check env (sw_cx w i) (ss_ms ss) = Inr (v, s)" "policy_in_table s"
    "ss_connected ss' = ss_connected ss @ [hi_target ids]" "sx_state (sw_cx w' i) = ZOMBIE"
proof -
  note eq = wait_policy_message[OF assms(1,2), of env ids ss]
  obtain v s where c: "socks_policy_check env (sw_cx w i) (ss_ms ss) = Inr (v, s)"
    using m(1) eq by (cases "socks_policy_check env (sw_cx w i) (ss_ms ss)") (auto simp: lift_pa_def)
  obtain w1 where g: "give_verdict i (if v then ACCEPT else REJECT) w = Inr w1"
    using m(1) eq c by (cases "give_verdict i (if v then ACCEPT else REJECT) w") auto
  have d: "com_l4 (st_com (ms_st s) (px_com (ms_px s))) = SOCK_DGRAM"
    using m eq c g by (cases "com_l4 (st_com (ms_st s) (px_com (ms_px s))) = SOCK_DGRAM") auto
  have z: "sx_state (sw_cx (set_state i ZOMBIE w1) i) = ZOMBIE" by (simp add: set_state_def)
  show thesis
  proof (cases "sx_l4 (sw_cx (set_state i ZOMBIE w1) i) \<noteq> SOCK_DGRAM")
    case True
    then have "handoff_tcp env ids i (set_state i ZOMBIE w1) (ss\<lparr>ss_ms := s\<rparr>) = Inr (w', ss')" using m(1) eq c g d by simp
    from handoff_tcp_connected[OF this] that[OF c] m(2) z show thesis by simp
  next
    case False
    then have "socks5_handoff_udp env ids (sw_cx (set_state i ZOMBIE w1) i) (ss\<lparr>ss_ms := s\<rparr>) = Inr ss'" "w' = set_state i ZOMBIE w1"
      using m(1) eq c g d by (auto simp: result_bind_Inr_iff)
    with handoff_udp_connected[OF this(1)] that[OF c] m(2) z show thesis by simp
  qed
qed

section \<open>Properties\<close>

text \<open>C31: A message of a SOCKS connection connects at most the one target of its session, and only for a request without
  errors whose proxy carries the number of a rule of the table; the connection is then a zombie.\<close>

theorem handoff_needs_rule:
  assumes "on_left_message env ids i w ss = Inr (w', ss')" "ss_connected ss' \<noteq> ss_connected ss"
  shows "ss_connected ss' = ss_connected ss @ [hi_target ids] \<and> sx_req_error (sw_cx w i) = NONE \<and> sx_state (sw_cx w' i) = ZOMBIE
    \<and> (sx_state (sw_cx w i) = HANDOFF \<and> policy_in_table (ss_ms ss)
       \<or> sx_state (sw_cx w i) = WAIT_POLICY \<and> (\<exists>v s. socks_policy_check env (sw_cx w i) (ss_ms ss) = Inr (v, s) \<and> policy_in_table s))"
proof -
  have e: "sx_req_error (sw_cx w i) = NONE"
    using assms by (cases "sx_req_error (sw_cx w i) = NONE")
      (auto simp: on_left_message_def Let_def result_bind_Inr_iff split: if_splits)
  consider "sx_state (sw_cx w i) = WAIT_POLICY" | "sx_state (sw_cx w i) = HANDOFF"
    using assms e by (fastforce simp: on_left_message_def Let_def)
  then show ?thesis
  proof cases
    case 1
    obtain v s where "socks_policy_check env (sw_cx w i) (ss_ms ss) = Inr (v, s)" "policy_in_table s"
        "ss_connected ss' = ss_connected ss @ [hi_target ids]" "sx_state (sw_cx w' i) = ZOMBIE"
      by (rule wait_policy_connected[OF 1 e assms])
    then show ?thesis using 1 e by blast
  next
    case 2
    then have h: "handoff_tcp env ids i (set_state i ZOMBIE w) ss = Inr (w', ss')"
      using assms e by (auto simp: on_left_message_def Let_def split: if_splits)
    show ?thesis using 2 e handoff_tcp_connected[OF h assms(2)] by (simp add: set_state_def)
  qed
qed

text \<open>C32: A rule that denies a connect request does not keep it from its target. The client is told that the request
  is refused (reply code 2), and when it has read the reply the hand-off connects the target all the
  same, without marking the session dead. (The rule is not the first of the table and has no routing profile, and the
  session has no authentication options.)\<close>

theorem denied_request_connected:
  assumes "ipv4_pending (sw_cx w i)" "sx_right (sw_cx w i) = Some r"
    and "policy_match_lr (ap_policy (mk_apply (sp_maker env))) (ms_rules (ss_ms ss)) [client_view (sw_cx w i)] [target_view (sw_cx w i) r]
      = Inr (n, rules)"
    and "com_l4 (st_com (ms_st (ss_ms ss)) (px_com (ms_px (ss_ms ss)))) \<noteq> SOCK_DGRAM"
    and "1 \<le> n" "rule_action (rules ! nat n) = POLICY_ACTION_DENY" "profile_routing (rule_profiles (rules ! nat n)) = None"
    and "\<not> opt_auth_authenticate (ms_px (ss_ms ss))" "\<not> opt_auth_resolve (ms_px (ss_ms ss))"
    and "se_socket_src (sp_socks env) (sx_socket (sw_cx w i)) = Some (h, p)" "stoi p = Inr k"
  shows "\<exists>w1 ss1 w2 ss2. on_left_message env ids i w ss = Inr (w1, ss1) \<and> sx_verdict (sw_cx w1 i) = REJECT
    \<and> sx_writebuf (sw_cx w1 i) = sx_writebuf (sw_cx w i) @ [5, 2, 0, 1]
        @ addr_octets (as_v4_addr (sx_req_addr (sw_cx w i))) @ port_octets (sx_req_port (sw_cx w i))
    \<and> on_left_message env ids i (reply_read (sp_socks env) i w1) ss1 = Inr (w2, ss2)
    \<and> ss_connected ss2 = ss_connected ss @ [hi_target ids] \<and> px_dead (ms_px (ss_ms ss2)) = px_dead (ms_px (ss_ms ss))"
proof -
  have len: "n < int (length rules)"
    using assms(3) lr_rules.search_bound lr_rules.search_length unfolding policy_match_lr_def by metis
  have act: "policy_action rules n = 0"
    using assms(5,6) len by (simp add: policy_action_def POLICY_ACTION_DENY_def)
  define ss1 where "ss1 = set_ms (\<lambda>s. set_px (\<lambda>p. p\<lparr>px_matched_policy := n\<rparr>) (s\<lparr>ms_rules := rules\<rparr>)) ss"
  obtain w1 where w1: "on_left_message env ids i w ss = Inr (w1, ss1)"
    "sw_cx w1 i = (sw_cx w i)\<lparr>sx_verdict := REJECT, sx_state := REQRES_SENT,
       sx_writebuf := sx_writebuf (sw_cx w i) @ reply_v5 ((sw_cx w i)\<lparr>sx_verdict := REJECT\<rparr>),
       sx_events := sx_events (sw_cx w i) @ [SetWriteMonitor (sx_socket (sw_cx w i))]\<rparr>"
    by (rule decide_ipv4[OF assms(1-4), of ids]) (simp add: act ss1_def)
  let ?w2 = "set_state i ZOMBIE (reply_read (sp_socks env) i w1)"
  have cx: "sw_cx (reply_read (sp_socks env) i w1) i = (sw_cx w1 i)\<lparr>sx_writebuf := [], sx_wait := True, sx_state := HANDOFF\<rparr>"
    by (rule reply_read_cx) (simp add: w1(2))
  have sock: "sx_socket (sw_cx ?w2 i) = sx_socket (sw_cx w i)" by (simp add: set_state_def cx w1(2))
  obtain ss2 where ss2: "socks5_handoff env ids (sw_cx ?w2 i) ss1 = Inr ss2" "ss_connected ss2 = ss_connected ss1 @ [hi_target ids]"
    "px_dead (ms_px (ss_ms ss2)) = px_dead (ms_px (ss_ms ss1))"
    using handoff_denied[of ss1 env "sw_cx ?w2 i" h p k ids] assms(5-11) len sock by (auto simp: ss1_def)
  have "\<exists>w2. on_left_message env ids i (reply_read (sp_socks env) i w1) ss1 = Inr (w2, ss2)"
    using ss2(1) assms(1) by (simp add: on_left_message_def handoff_tcp_def cx w1(2) ipv4_pending_def Let_def)
  moreover have "reply_v5 ((sw_cx w i)\<lparr>sx_verdict := REJECT\<rparr>) = [5, 2, 0, 1]
      @ addr_octets (as_v4_addr (sx_req_addr (sw_cx w i))) @ port_octets (sx_req_port (sw_cx w i))"
    using assms(1) by (simp add: reply_v5_ipv4 ipv4_pending_def)
  ultimately show ?thesis using w1 ss2 by (auto simp: ss1_def)
qed

text \<open>A connect request that no rule matches is answered with success, because the result -1 of the search
  counts as a positive verdict; only when the client has read the reply is the session dropped, without a connection.\<close>

theorem unmatched_request_accepted:
  assumes "ipv4_pending (sw_cx w i)" "sx_right (sw_cx w i) = Some r"
    and "policy_match_lr (ap_policy (mk_apply (sp_maker env))) (ms_rules (ss_ms ss)) [client_view (sw_cx w i)] [target_view (sw_cx w i) r]
      = Inr (- 1, rules)"
    and "com_l4 (st_com (ms_st (ss_ms ss)) (px_com (ms_px (ss_ms ss)))) \<noteq> SOCK_DGRAM"
  shows "\<exists>w1 ss1 w2 ss2. on_left_message env ids i w ss = Inr (w1, ss1) \<and> sx_verdict (sw_cx w1 i) = ACCEPT
    \<and> sx_writebuf (sw_cx w1 i) = sx_writebuf (sw_cx w i) @ [5, 0, 0, 1]
        @ addr_octets (as_v4_addr (sx_req_addr (sw_cx w i))) @ port_octets (sx_req_port (sw_cx w i))
    \<and> on_left_message env ids i (reply_read (sp_socks env) i w1) ss1 = Inr (w2, ss2)
    \<and> ss_connected ss2 = ss_connected ss \<and> px_dead (ms_px (ss_ms ss2))"
proof -
  define ss1 where "ss1 = set_ms (\<lambda>s. set_px (\<lambda>p. p\<lparr>px_matched_policy := - 1\<rparr>) (s\<lparr>ms_rules := rules\<rparr>)) ss"
  obtain w1 where w1: "on_left_message env ids i w ss = Inr (w1, ss1)"
    "sw_cx w1 i = (sw_cx w i)\<lparr>sx_verdict := ACCEPT, sx_state := REQRES_SENT,
       sx_writebuf := sx_writebuf (sw_cx w i) @ reply_v5 ((sw_cx w i)\<lparr>sx_verdict := ACCEPT\<rparr>),
       sx_events := sx_events (sw_cx w i) @ [SetWriteMonitor (sx_socket (sw_cx w i))]\<rparr>"
    by (rule decide_ipv4[OF assms, of ids]) (simp add: policy_action_def ss1_def)
  have cx: "sw_cx (reply_read (sp_socks env) i w1) i = (sw_cx w1 i)\<lparr>sx_writebuf := [], sx_wait := True, sx_state := HANDOFF\<rparr>"
    by (rule reply_read_cx) (simp add: w1(2))
  have "on_left_message env ids i (reply_read (sp_socks env) i w1) ss1
      = Inr (set_state i ZOMBIE (reply_read (sp_socks env) i w1), session_dead ss1)"
    using assms(1) by (simp add: on_left_message_def handoff_tcp_def cx w1(2) ipv4_pending_def Let_def socks5_handoff_def policy_in_table_def ss1_def)
  moreover have "reply_v5 ((sw_cx w i)\<lparr>sx_verdict := ACCEPT\<rparr>) = [5, 0, 0, 1]
      @ addr_octets (as_v4_addr (sx_req_addr (sw_cx w i))) @ port_octets (sx_req_port (sw_cx w i))"
    using assms(1) by (simp add: reply_v5_ipv4 ipv4_pending_def)
  ultimately show ?thesis using w1 by (auto simp: ss1_def)
qed

text \<open>An accepted UDP association does not last. The client is told that it is associated, but no rule was searched for an
  association, so when the client has read the reply the hand-off finds no rule number and marks the session dead; releasing the
  connection removes the association again.\<close>

theorem udp_association_dropped:
  assumes "sx_state (sw_cx w i) = WAIT_POLICY" "sx_req_error (sw_cx w i) = NONE" "sx_version (sw_cx w i) = 5"
    and "sx_req_cmd (sw_cx w i) = UDP_ASSOCIATE" "sx_l4 (sw_cx w i) \<noteq> SOCK_DGRAM" "px_matched_policy (ms_px (ss_ms ss)) = - 1"
    and "com_l4 (st_com (ms_st (ss_ms ss)) (px_com (ms_px (ss_ms ss)))) \<noteq> SOCK_DGRAM"
    and "key = c_str (sx_host (sw_cx w i)) @ '':'' @ dec (unat (sx_req_port (sw_cx w i)))"
  shows "\<exists>w1 w2 ss2. on_left_message env ids i w ss = Inr (w1, ss) \<and> sx_verdict (sw_cx w1 i) = ACCEPT \<and> sw_clients w1 key \<noteq> None
    \<and> on_left_message env ids i (reply_read (sp_socks env) i w1) ss = Inr (w2, ss2) \<and> px_dead (ms_px (ss_ms ss2))
    \<and> sw_clients (release_cx i w2) key = None"
proof -
  have "socks_policy_check env (sw_cx w i) (ss_ms ss) = Inr (True, ss_ms ss)"
    using assms(4) by (simp add: socks_policy_check_def socks_code_defs)
  moreover obtain w1 where g: "give_verdict i ACCEPT w = Inr w1" "sx_verdict (sw_cx w1 i) = ACCEPT" "sx_state (sw_cx w1 i) = REQRES_SENT"
    "sw_clients w1 key \<noteq> None" "\<exists>u. sx_udp (sw_cx w1 i) = Some u \<and> my_assoc u = key" "sx_req_error (sw_cx w1 i) = NONE"
    "sx_l4 (sw_cx w1 i) = sx_l4 (sw_cx w i)"
  proof -
    have "\<exists>w1. give_verdict i ACCEPT w = Inr w1 \<and> sx_verdict (sw_cx w1 i) = ACCEPT \<and> sx_state (sw_cx w1 i) = REQRES_SENT
      \<and> sw_clients w1 key \<noteq> None \<and> (\<exists>u. sx_udp (sw_cx w1 i) = Some u \<and> my_assoc u = key) \<and> sx_req_error (sw_cx w1 i) = NONE
      \<and> sx_l4 (sw_cx w1 i) = sx_l4 (sw_cx w i)"
      using assms(2-4,8)
      by (simp add: give_verdict_def set_verdict_def Let_def process_socks_reply_def process_socks_reply_v5_def reply_v5_def
          port_octets_def socks_code_defs)
    then show thesis using that by blast
  qed
  ultimately have 1: "on_left_message env ids i w ss = Inr (w1, ss)"
    using assms(7) by (simp add: wait_policy_message[OF assms(1,2)])
  let ?w2 = "set_state i ZOMBIE (reply_read (sp_socks env) i w1)"
  have cx: "sw_cx (reply_read (sp_socks env) i w1) i = (sw_cx w1 i)\<lparr>sx_writebuf := [], sx_wait := True, sx_state := HANDOFF\<rparr>"
    by (rule reply_read_cx) (rule g(3))
  have 2: "on_left_message env ids i (reply_read (sp_socks env) i w1) ss = Inr (?w2, session_dead ss)"
    using assms(5,6) g(6,7)
    by (simp add: on_left_message_def handoff_tcp_def cx Let_def socks5_handoff_def policy_in_table_def)
  have "sx_udp (sw_cx ?w2 i) = sx_udp (sw_cx w1 i)" by (simp add: set_state_def cx)
  then have "sw_clients (release_cx i ?w2) key = None" using g(5) by (auto simp: release_cx_def)
  then show ?thesis using 1 2 g by auto
qed

section \<open>Concrete sessions\<close>

definition plain_socks_proxy :: "(string \<Rightarrow> dns_response option, string \<Rightarrow> (string \<Rightarrow> int option) option, string \<Rightarrow> int option) socks_proxy_env" where
  "plain_socks_proxy = \<lparr>sp_maker = plain_maker, sp_socks = plain_socks_env, sp_new_com = (\<lambda>_. plain_com None 3 2), sp_slave = (\<lambda>c. c)\<rparr>"

definition plain_handoff :: handoff_ids where
  "plain_handoff = \<lparr>hi_cx = 0, hi_left = 2, hi_left_com = 2, hi_target = 3, hi_target_com = 3\<rparr>"

definition plain_session :: "policy_rule list \<Rightarrow> socks_session" where
  "plain_session rules = \<lparr>ss_ms = plain_state rules, ss_connected = []\<rparr>"

definition pending_cx :: socks_cx where
  "pending_cx = plain_socks_cx\<lparr>sx_state := WAIT_POLICY, sx_version := 5, sx_req_cmd := CONNECT, sx_req_atype := ATYPE_IPV4,
     sx_right := Some (right_target ''10.0.0.1'' 80 [] 0)\<rparr>"

abbreviation pending_world :: "(string \<Rightarrow> dns_response option, string \<Rightarrow> (string \<Rightarrow> int option) option) socks_world" where
  "pending_world \<equiv> plain_socks_world pending_cx"

definition off_rule :: policy_rule where
  "off_rule = (new_rule ''off'')\<lparr>is_disabled := True\<rparr>"

lemma pending_ok:
  "ipv4_pending (sw_cx pending_world 0)" "sx_right (sw_cx pending_world 0) = Some (right_target ''10.0.0.1'' 80 [] 0)"
  "com_l4 (st_com (ms_st (ss_ms (plain_session rules))) (px_com (ms_px (ss_ms (plain_session rules))))) \<noteq> SOCK_DGRAM"
  "\<not> opt_auth_authenticate (ms_px (ss_ms (plain_session rules)))" "\<not> opt_auth_resolve (ms_px (ss_ms (plain_session rules)))"
  using plain_tcp
  by (simp_all add: plain_socks_world_def ipv4_pending_def pending_cx_def plain_session_def plain_state_def plain_proxy_def fresh_proxy_def
      SOCK_STREAM_def SOCK_DGRAM_def) (simp add: plain_socks_cx_def)

lemma off_and_deny:
  "policy_match_lr env [off_rule, deny_rule] l r = Inr (1, [off_rule, bump_matches deny_rule])"
  "policy_match_lr env [off_rule] l r = Inr (- 1, [off_rule])"
proof -
  have a: "match_addrgrp_vecx env [] cxs = Inr True" for cxs
    by (cases cxs) (simp_all add: match_addrgrp_vecx_def match_addrgrp_cx_def)
  have b: "match_rangegrp_vecx env [] cxs" for cxs
    by (cases cxs) (simp_all add: match_rangegrp_vecx_def match_rangegrp_cx_def)
  show "policy_match_lr env [off_rule, deny_rule] l r = Inr (1, [off_rule, bump_matches deny_rule])"
    "policy_match_lr env [off_rule] l r = Inr (- 1, [off_rule])"
    using a b by (simp_all add: policy_match_lr_def match_lr_def lr_checks_def off_rule_def deny_rule_def new_rule_def bump_matches_def and_res_def)
qed

lemma stoi_4000: "stoi ''4000'' = Inr 4000"
  by code_simp

theorem denied_request_connected_witness:
  "\<exists>w1 ss1 w2 ss2. on_left_message plain_socks_proxy plain_handoff 0 pending_world (plain_session [off_rule, deny_rule]) = Inr (w1, ss1)
    \<and> sx_verdict (sw_cx w1 0) = REJECT
    \<and> on_left_message plain_socks_proxy plain_handoff 0 (reply_read plain_socks_env 0 w1) ss1 = Inr (w2, ss2) \<and> ss_connected ss2 = [3]"
proof -
  have m: "policy_match_lr (ap_policy (mk_apply (sp_maker plain_socks_proxy))) (ms_rules (ss_ms (plain_session [off_rule, deny_rule]))) l r
      = Inr (1, [off_rule, bump_matches deny_rule])" for l r
    using off_and_deny(1) by (simp add: plain_session_def plain_state_def)
  have d: "rule_action ([off_rule, bump_matches deny_rule] ! nat 1) = POLICY_ACTION_DENY"
    "profile_routing (rule_profiles ([off_rule, bump_matches deny_rule] ! nat 1)) = None"
    by (simp_all add: deny_rule_def bump_matches_def new_rule_def no_profiles_def)
  have src: "se_socket_src (sp_socks plain_socks_proxy) x = Some (''192.0.2.7'', ''4000'')" for x
    by (simp add: plain_socks_proxy_def plain_socks_env_def)
  have e: "sp_socks plain_socks_proxy = plain_socks_env" "hi_target plain_handoff = 3" "ss_connected (plain_session rules) = []" for rules
    by (simp_all add: plain_socks_proxy_def plain_handoff_def plain_session_def)
  show ?thesis
    using denied_request_connected[OF pending_ok(1,2) m pending_ok(3) _ d pending_ok(4,5) src stoi_4000, of plain_handoff]
    unfolding e by auto
qed

theorem unmatched_request_accepted_witness:
  "\<exists>w1 ss1 w2 ss2. on_left_message plain_socks_proxy plain_handoff 0 pending_world (plain_session [off_rule]) = Inr (w1, ss1)
    \<and> sx_verdict (sw_cx w1 0) = ACCEPT
    \<and> on_left_message plain_socks_proxy plain_handoff 0 (reply_read plain_socks_env 0 w1) ss1 = Inr (w2, ss2)
    \<and> ss_connected ss2 = [] \<and> px_dead (ms_px (ss_ms ss2))"
proof -
  have m: "policy_match_lr (ap_policy (mk_apply (sp_maker plain_socks_proxy))) (ms_rules (ss_ms (plain_session [off_rule]))) l r
      = Inr (- 1, [off_rule])" for l r
    using off_and_deny(2) by (simp add: plain_session_def plain_state_def)
  have e: "sp_socks plain_socks_proxy = plain_socks_env" "ss_connected (plain_session rules) = []" for rules
    by (simp_all add: plain_socks_proxy_def plain_session_def)
  show ?thesis
    using unmatched_request_accepted[OF pending_ok(1,2) m pending_ok(3), of plain_handoff] unfolding e by auto
qed

theorem handoff_needs_rule_witness:
  "\<exists>w' ss'. on_left_message plain_socks_proxy plain_handoff 0
        (plain_socks_world (pending_cx\<lparr>sx_state := HANDOFF\<rparr>)) (set_ms (set_px (\<lambda>p. p\<lparr>px_matched_policy := 1\<rparr>)) (plain_session [off_rule, deny_rule])) = Inr (w', ss')
    \<and> ss_connected ss' = [3] \<and> sx_state (sw_cx w' 0) = ZOMBIE"
proof -
  let ?ss = "set_ms (set_px (\<lambda>p. p\<lparr>px_matched_policy := 1\<rparr>)) (plain_session [off_rule, deny_rule])"
  let ?w = "plain_socks_world (pending_cx\<lparr>sx_state := HANDOFF\<rparr>)"
  have "\<exists>ss'. socks5_handoff plain_socks_proxy plain_handoff c ?ss = Inr ss' \<and> ss_connected ss' = ss_connected ?ss @ [hi_target plain_handoff]" for c
    using handoff_denied[of ?ss plain_socks_proxy c "''192.0.2.7''" "''4000''" 4000 plain_handoff] pending_ok(4,5)[of "[off_rule, deny_rule]"]
    by (simp add: plain_session_def plain_state_def plain_socks_proxy_def plain_socks_env_def deny_rule_def new_rule_def no_profiles_def)
       (metis (no_types, lifting) stoi_4000)
  then obtain w' ss' where h: "on_left_message plain_socks_proxy plain_handoff 0 ?w ?ss = Inr (w', ss')"
    "ss_connected ss' = ss_connected ?ss @ [hi_target plain_handoff]"
    using pending_ok(1) by (fastforce simp: on_left_message_def handoff_tcp_def Let_def plain_socks_world_def ipv4_pending_def result_bind_Inr_iff)
  then have "ss_connected ss' \<noteq> ss_connected ?ss" by simp
  from handoff_needs_rule[OF h(1) this] h show ?thesis by (auto simp: plain_handoff_def plain_session_def)
qed

theorem udp_association_dropped_witness:
  "\<exists>w1 w2 ss2. on_left_message plain_socks_proxy plain_handoff 0
        (plain_socks_world (pending_cx\<lparr>sx_req_cmd := UDP_ASSOCIATE\<rparr>)) (plain_session []) = Inr (w1, plain_session [])
    \<and> on_left_message plain_socks_proxy plain_handoff 0 (reply_read plain_socks_env 0 w1) (plain_session []) = Inr (w2, ss2)
    \<and> px_dead (ms_px (ss_ms ss2))"
proof -
  let ?w = "plain_socks_world (pending_cx\<lparr>sx_req_cmd := UDP_ASSOCIATE\<rparr>)"
  have c: "sx_state (sw_cx ?w 0) = WAIT_POLICY" "sx_req_error (sw_cx ?w 0) = NONE" "sx_version (sw_cx ?w 0) = 5"
    "sx_req_cmd (sw_cx ?w 0) = UDP_ASSOCIATE" "sx_l4 (sw_cx ?w 0) \<noteq> SOCK_DGRAM"
    using pending_ok(1) by (simp_all add: plain_socks_world_def ipv4_pending_def)
  have n: "px_matched_policy (ms_px (ss_ms (plain_session []))) = - 1"
    by (simp add: plain_session_def plain_state_def plain_proxy_def fresh_proxy_def)
  have e: "sp_socks plain_socks_proxy = plain_socks_env" by (simp add: plain_socks_proxy_def)
  show ?thesis
    using udp_association_dropped[OF c n pending_ok(3) refl, of plain_socks_proxy plain_handoff] unfolding e by auto
qed

end
