(* ===== verification/CfgTree.thy ===== *)
theory CfgTree
  imports Prelude "HOL-Library.Char_ord" "HOL-Library.List_Lexorder"
begin

text \<open>
  The configuration tree and the tables it is loaded into.  The tree belongs to the libconfig
  library, which is not part of the repository: the operations the sources call are the fields of
  \<open>cfg_lib\<close>, a parameter of every definition that reads or writes a setting, and \<open>cfg_ok\<close> states
  what its manual promises of them.  A table is the ordered map of an object section; the loop every
  section loader runs over its settings is \<open>load_each\<close>.
\<close>

section \<open>Settings\<close>

datatype cfg_type = TypeNone | TypeInt | TypeInt64 | TypeFloat | TypeString | TypeBoolean
  | TypeGroup | TypeArray | TypeList

datatype cfg_exn = SettingTypeException | SettingNotFoundException | SettingNameException | SettingRangeException

text \<open>The members of a setting come with the name they have in a group; in an array or list they
  have none.  A conversion throws when the setting has another type.  A setting made by \<open>add\<close> and
  filled in place is built first and added then.\<close>

record 's cfg_lib =
  cl_type :: "'s \<Rightarrow> cfg_type"
  cl_entries :: "'s \<Rightarrow> (string option \<times> 's) list"
  cl_get :: "'s \<Rightarrow> string \<Rightarrow> cfg_exn + 's"
  cl_int :: "'s \<Rightarrow> cfg_exn + int"
  cl_bool :: "'s \<Rightarrow> cfg_exn + bool"
  cl_str :: "'s \<Rightarrow> cfg_exn + string"
  cl_new :: "cfg_type \<Rightarrow> 's"
  cl_of_int :: "int \<Rightarrow> 's"
  cl_of_bool :: "bool \<Rightarrow> 's"
  cl_of_str :: "string \<Rightarrow> 's"
  cl_add :: "'s \<Rightarrow> string \<Rightarrow> 's \<Rightarrow> cfg_exn + 's"
  cl_append :: "'s \<Rightarrow> 's \<Rightarrow> cfg_exn + 's"

definition is_scalar :: "cfg_type \<Rightarrow> bool" where
  "is_scalar t \<longleftrightarrow> t \<in> {TypeInt, TypeInt64, TypeFloat, TypeString, TypeBoolean}"

definition cfg_exists :: "'s cfg_lib \<Rightarrow> 's \<Rightarrow> string \<Rightarrow> bool" where
  "cfg_exists L s name = is_ok (cl_get L s name)"

text \<open>Reading a member that may be missing: only a type exception is caught.\<close>

definition load_if_exists :: "'s cfg_lib \<Rightarrow> ('s \<Rightarrow> cfg_exn + 'a) \<Rightarrow> 's \<Rightarrow> string \<Rightarrow> cfg_exn + 'a option" where
  "load_if_exists L conv s key =
     (if key \<noteq> [] \<and> cfg_exists L s key then
        (case result_bind (cl_get L s key) conv of
           Inr v \<Rightarrow> Inr (Some v)
         | Inl SettingTypeException \<Rightarrow> Inr None
         | Inl e \<Rightarrow> Inl e)
      else Inr None)"

text \<open>The same call on a variable that holds \<open>d\<close>.\<close>

definition load_into :: "'s cfg_lib \<Rightarrow> ('s \<Rightarrow> cfg_exn + 'a) \<Rightarrow> 's \<Rightarrow> string \<Rightarrow> 'a \<Rightarrow> cfg_exn + 'a" where
  "load_into L conv s key d = result_bind (load_if_exists L conv s key) (\<lambda>v. Inr (case v of None \<Rightarrow> d | Some x \<Rightarrow> x))"

text \<open>Names libconfig accepts for a setting.\<close>

definition name_char :: "char \<Rightarrow> bool" where
  "name_char c \<longleftrightarrow> (let n = of_char c :: nat in 65 \<le> n \<and> n \<le> 90 \<or> 97 \<le> n \<and> n \<le> 122 \<or> n = 42)"

definition cfg_name :: "string \<Rightarrow> bool" where
  "cfg_name n \<longleftrightarrow> n \<noteq> [] \<and> name_char (hd n) \<and> list_all (\<lambda>c. name_char c \<or> (let n = of_char c :: nat in 48 \<le> n \<and> n \<le> 57 \<or> n = 45 \<or> n = 95)) n"

definition int32 :: "int \<Rightarrow> bool" where
  "int32 i \<longleftrightarrow> - (2 ^ 31) \<le> i \<and> i < 2 ^ 31"

text \<open>What the manual of the library promises: members are kept in the order they were added, a
  member of a group is found by its name, a value that was stored is read back.\<close>

definition ok_new :: "'s cfg_lib \<Rightarrow> bool" where
  "ok_new L \<longleftrightarrow> (\<forall>t. cl_type L (cl_new L t) = t \<and> cl_entries L (cl_new L t) = [])"

definition ok_get :: "'s cfg_lib \<Rightarrow> bool" where
  "ok_get L \<longleftrightarrow> (\<forall>s n. cl_type L s = TypeGroup \<longrightarrow> cl_get L s n
     = (case map_of (cl_entries L s) (Some n) of None \<Rightarrow> Inl SettingNotFoundException | Some c \<Rightarrow> Inr c))"

definition ok_add :: "'s cfg_lib \<Rightarrow> bool" where
  "ok_add L \<longleftrightarrow> (\<forall>s n c. cl_type L s = TypeGroup \<longrightarrow>
     (if cfg_name n \<and> Some n \<notin> fst ` set (cl_entries L s)
      then \<exists>s'. cl_add L s n c = Inr s' \<and> cl_type L s' = TypeGroup \<and> cl_entries L s' = cl_entries L s @ [(Some n, c)]
      else cl_add L s n c = Inl SettingNameException))"

definition ok_append :: "'s cfg_lib \<Rightarrow> bool" where
  "ok_append L \<longleftrightarrow> (\<forall>s c. cl_type L s = TypeList \<or> cl_type L s = TypeArray \<and> is_scalar (cl_type L c)
        \<and> (\<forall>e\<in>set (cl_entries L s). cl_type L (snd e) = cl_type L c) \<longrightarrow>
     (\<exists>s'. cl_append L s c = Inr s' \<and> cl_type L s' = cl_type L s \<and> cl_entries L s' = cl_entries L s @ [(None, c)]))"

definition ok_values :: "'s cfg_lib \<Rightarrow> bool" where
  "ok_values L \<longleftrightarrow> (\<forall>i. int32 i \<longrightarrow> cl_type L (cl_of_int L i) = TypeInt \<and> cl_int L (cl_of_int L i) = Inr i)
   \<and> (\<forall>b. cl_type L (cl_of_bool L b) = TypeBoolean \<and> cl_bool L (cl_of_bool L b) = Inr b)
   \<and> (\<forall>x. cl_type L (cl_of_str L x) = TypeString \<and> cl_str L (cl_of_str L x) = Inr x)"

definition cfg_ok :: "'s cfg_lib \<Rightarrow> bool" where
  "cfg_ok L \<longleftrightarrow> ok_new L \<and> ok_get L \<and> ok_add L \<and> ok_append L \<and> ok_values L"

section \<open>Tables\<close>

text \<open>The ordered maps of the object sections.\<close>

type_synonym 'v table = "(string \<times> 'v) list"

fun tab_put :: "string \<Rightarrow> 'v \<Rightarrow> 'v table \<Rightarrow> 'v table" where
  "tab_put k v [] = [(k, v)]"
| "tab_put k v ((k', v') # t) =
     (if k = k' then (k, v) # t else if k < k' then (k, v) # (k', v') # t else (k', v') # tab_put k v t)"

definition tab_get :: "'v table \<Rightarrow> string \<Rightarrow> 'v option" where
  "tab_get t k = map_of t k"

definition keys_of :: "'v table \<Rightarrow> string list" where
  "keys_of t = map fst t"

definition keys_of_or_none :: "'v table \<Rightarrow> string list" where
  "keys_of_or_none t = map fst t @ [''none'']"

definition tab_ok :: "'v table \<Rightarrow> bool" where
  "tab_ok t \<longleftrightarrow> sorted (map fst t) \<and> distinct (map fst t)"

section \<open>The loop of a section loader\<close>

text \<open>What one setting of a section comes to: an entry of the table or none, and the exception
  that ended the loop, if one did.\<close>

type_synonym 'v outcome = "(string \<times> 'v) option \<times> cfg_exn option"

definition to_outcome :: "cfg_exn + (string \<times> 'v) option \<Rightarrow> 'v outcome" where
  "to_outcome r = (case r of Inl e \<Rightarrow> (None, Some e) | Inr v \<Rightarrow> (v, None))"

text \<open>Unnamed settings and settings with a reserved name are skipped.\<close>

definition reserved_name :: "string \<Rightarrow> bool" where
  "reserved_name n \<longleftrightarrow> take 2 n = ''__''"

definition named_entry :: "(string \<Rightarrow> 's \<Rightarrow> 'v outcome) \<Rightarrow> string option \<times> 's \<Rightarrow> 'v outcome" where
  "named_entry f e = (case fst e of
     None \<Rightarrow> (None, None)
   | Some name \<Rightarrow> if reserved_name name then (None, None) else f name (snd e))"

fun load_each :: "('e \<Rightarrow> 'v outcome) \<Rightarrow> 'e list \<Rightarrow> 'v table \<Rightarrow> 'v table \<times> cfg_exn option" where
  "load_each f [] t = (t, None)"
| "load_each f (e # es) t = (case f e of (v, x) \<Rightarrow>
     let t = (case v of None \<Rightarrow> t | Some (n, a) \<Rightarrow> tab_put n a t)
     in case x of Some x \<Rightarrow> (t, Some x) | None \<Rightarrow> load_each f es t)"

text \<open>A section that is missing loads nothing; otherwise the number of its settings is returned,
  also of those that were skipped.\<close>

definition load_section :: "'s cfg_lib \<Rightarrow> 's \<Rightarrow> string \<Rightarrow> (string \<Rightarrow> 's \<Rightarrow> 'v outcome) \<Rightarrow> 'v table \<Rightarrow> 'v table \<times> (cfg_exn + nat)" where
  "load_section L root sec f t = (case cl_get L root sec of
     Inl _ \<Rightarrow> (t, Inr 0)
   | Inr s \<Rightarrow> (case load_each (named_entry f) (cl_entries L s) t of
       (t', Some x) \<Rightarrow> (t', Inl x)
     | (t', None) \<Rightarrow> (t', Inr (length (cl_entries L s)))))"

section \<open>Writing a group\<close>

text \<open>Adding members one after the other.\<close>

fun add_all :: "'s cfg_lib \<Rightarrow> (string \<times> 's) list \<Rightarrow> 's \<Rightarrow> cfg_exn + 's" where
  "add_all L [] s = Inr s"
| "add_all L ((n, c) # ms) s = result_bind (cl_add L s n c) (\<lambda>s. add_all L ms s)"

fun append_all :: "'s cfg_lib \<Rightarrow> 's list \<Rightarrow> 's \<Rightarrow> cfg_exn + 's" where
  "append_all L [] s = Inr s"
| "append_all L (c # cs) s = result_bind (cl_append L s c) (\<lambda>s. append_all L cs s)"

definition str_array :: "'s cfg_lib \<Rightarrow> string list \<Rightarrow> cfg_exn + 's" where
  "str_array L xs = append_all L (map (cl_of_str L) xs) (cl_new L TypeArray)"

section \<open>Facts\<close>

lemma cfg_okD:
  assumes "cfg_ok L"
  shows "cl_type L (cl_new L t) = t" "cl_entries L (cl_new L t) = []"
    and "cl_bool L (cl_of_bool L b) = Inr b" "cl_str L (cl_of_str L x) = Inr x"
    and "cl_type L (cl_of_str L x) = TypeString" "cl_type L (cl_of_bool L b) = TypeBoolean"
    and "int32 i \<Longrightarrow> cl_int L (cl_of_int L i) = Inr i" "int32 i \<Longrightarrow> cl_type L (cl_of_int L i) = TypeInt"
    and "cl_type L s = TypeGroup \<Longrightarrow> cl_get L s n
      = (case map_of (cl_entries L s) (Some n) of None \<Rightarrow> Inl SettingNotFoundException | Some c \<Rightarrow> Inr c)"
  using assms by (simp_all add: cfg_ok_def ok_new_def ok_values_def ok_get_def)

lemma cfg_ok_add:
  assumes "cfg_ok L" "cl_type L s = TypeGroup" "cfg_name n" "Some n \<notin> fst ` set (cl_entries L s)"
  obtains s' where "cl_add L s n c = Inr s'" "cl_type L s' = TypeGroup" "cl_entries L s' = cl_entries L s @ [(Some n, c)]"
proof -
  have "ok_add L" using assms(1) by (simp add: cfg_ok_def)
  then have "\<exists>s'. cl_add L s n c = Inr s' \<and> cl_type L s' = TypeGroup \<and> cl_entries L s' = cl_entries L s @ [(Some n, c)]"
    using assms(2-) by (simp add: ok_add_def)
  then show ?thesis using that by blast
qed

lemma cfg_ok_append:
  assumes "cfg_ok L"
    and "cl_type L s = TypeList \<or> cl_type L s = TypeArray \<and> is_scalar (cl_type L c)
          \<and> (\<forall>e\<in>set (cl_entries L s). cl_type L (snd e) = cl_type L c)"
  obtains s' where "cl_append L s c = Inr s'" "cl_type L s' = cl_type L s" "cl_entries L s' = cl_entries L s @ [(None, c)]"
proof -
  have "ok_append L" using assms(1) by (simp add: cfg_ok_def)
  then show ?thesis using assms(2) that unfolding ok_append_def by blast
qed

lemma add_all_group:
  assumes "cfg_ok L" "cl_type L s = TypeGroup" "list_all cfg_name (map fst ms)" "distinct (map fst ms)"
    and "\<forall>n\<in>set (map fst ms). Some n \<notin> fst ` set (cl_entries L s)"
  shows "\<exists>s'. add_all L ms s = Inr s' \<and> cl_type L s' = TypeGroup
    \<and> cl_entries L s' = cl_entries L s @ map (\<lambda>(n, c). (Some n, c)) ms"
  using assms(2-)
proof (induction ms arbitrary: s)
  case (Cons m ms)
  obtain n c where m: "m = (n, c)" by (cases m)
  obtain s1 where s1: "cl_add L s n c = Inr s1" "cl_type L s1 = TypeGroup" "cl_entries L s1 = cl_entries L s @ [(Some n, c)]"
    using cfg_ok_add[OF assms(1) Cons.prems(1), of n] Cons.prems m by auto
  have "\<exists>s'. add_all L ms s1 = Inr s' \<and> cl_type L s' = TypeGroup
      \<and> cl_entries L s' = cl_entries L s1 @ map (\<lambda>(n, c). (Some n, c)) ms"
    by (rule Cons.IH) (use Cons.prems m s1 in auto)
  then show ?case using m s1 by auto
qed simp

lemma append_all_list:
  assumes "cfg_ok L" "cl_type L s = TypeList"
  shows "\<exists>s'. append_all L cs s = Inr s' \<and> cl_type L s' = TypeList
    \<and> cl_entries L s' = cl_entries L s @ map (\<lambda>c. (None, c)) cs"
  using assms(2)
proof (induction cs arbitrary: s)
  case (Cons c cs)
  obtain s1 where s1: "cl_append L s c = Inr s1" "cl_type L s1 = TypeList" "cl_entries L s1 = cl_entries L s @ [(None, c)]"
    using cfg_ok_append[OF assms(1), of s c] Cons.prems by auto
  then show ?case using Cons.IH[OF s1(2)] by auto
qed simp

lemma append_all_strings:
  assumes "cfg_ok L" "cl_type L s = TypeArray" "\<forall>e\<in>set (cl_entries L s). cl_type L (snd e) = TypeString"
  shows "\<exists>s'. append_all L (map (cl_of_str L) xs) s = Inr s' \<and> cl_type L s' = TypeArray
    \<and> cl_entries L s' = cl_entries L s @ map (\<lambda>x. (None, cl_of_str L x)) xs"
  using assms(2,3)
proof (induction xs arbitrary: s)
  case (Cons x xs)
  obtain s1 where s1: "cl_append L s (cl_of_str L x) = Inr s1" "cl_type L s1 = TypeArray"
      "cl_entries L s1 = cl_entries L s @ [(None, cl_of_str L x)]"
    using cfg_ok_append[OF assms(1), of s "cl_of_str L x"] Cons.prems by (auto simp: cfg_okD(5)[OF assms(1)] is_scalar_def)
  have "\<forall>e\<in>set (cl_entries L s1). cl_type L (snd e) = TypeString"
    using Cons.prems(2) s1(3) cfg_okD(5)[OF assms(1)] by auto
  then show ?case using Cons.IH[OF s1(2)] s1 by auto
qed simp

lemma str_array_ok:
  assumes "cfg_ok L"
  shows "\<exists>s. str_array L xs = Inr s \<and> cl_type L s = TypeArray \<and> cl_entries L s = map (\<lambda>x. (None, cl_of_str L x)) xs"
  using append_all_strings[OF assms, of "cl_new L TypeArray" xs] cfg_okD(1,2)[OF assms] by (simp add: str_array_def)

subsection \<open>Tables as maps\<close>

lemma tab_get_put [simp]: "tab_get (tab_put k v t) k' = (if k' = k then Some v else tab_get t k')"
  by (induction t) (auto simp: tab_get_def)

lemma set_put_subset: "set (tab_put k v t) \<subseteq> insert (k, v) (set t)"
  by (induction t) (auto split: if_splits)

lemma keys_put: "set (map fst (tab_put k v t)) = insert k (set (map fst t))"
proof (induction t)
  case (Cons e t)
  then show ?case by (cases e) (simp add: insert_commute)
qed simp

lemma tab_ok_Nil [simp]: "tab_ok []"
  by (simp add: tab_ok_def)

lemma tab_ok_put: "tab_ok t \<Longrightarrow> tab_ok (tab_put k v t)"
proof (induction t)
  case (Cons e t)
  have t: "tab_ok t" "\<forall>x\<in>set (map fst t). fst e < x"
    using Cons.prems by (auto simp: tab_ok_def order.order_iff_strict)
  have IH: "tab_ok (tab_put k v t)" by (rule Cons.IH[OF t(1)])
  show ?case
  proof (cases "k = fst e \<or> k < fst e")
    case True
    then show ?thesis using Cons.prems by (cases e) (auto simp: tab_ok_def)
  next
    case False
    then have "fst e < k" by auto
    then have "\<forall>x\<in>set (map fst (tab_put k v t)). fst e < x" using t(2) keys_put[of k v t] by auto
    then show ?thesis using False IH by (cases e) (auto simp: tab_ok_def order.strict_implies_order)
  qed
qed (simp add: tab_ok_def)

lemma tab_put_last: "\<forall>x\<in>set (map fst t). x < k \<Longrightarrow> tab_put k v t = t @ [(k, v)]"
  by (induction t) (auto simp: less_le_not_le)

lemma tab_ok_append: "tab_ok (t @ [(k, v)]) \<longleftrightarrow> tab_ok t \<and> (\<forall>x\<in>set (map fst t). x < k)"
  by (auto simp: tab_ok_def sorted_append order.order_iff_strict)

lemma tab_get_in: "tab_get t k = Some v \<Longrightarrow> (k, v) \<in> set t"
  by (simp add: tab_get_def map_of_SomeD)

lemma tab_get_iff: "tab_ok t \<Longrightarrow> tab_get t k = Some v \<longleftrightarrow> (k, v) \<in> set t"
  by (simp add: tab_get_def tab_ok_def)

subsection \<open>The loading loop\<close>

lemma load_each_tab_ok: "tab_ok t \<Longrightarrow> tab_ok (fst (load_each f es t))"
  by (induction es arbitrary: t) (auto simp: Let_def tab_ok_put split: prod.splits option.splits)

lemma load_section_tab_ok: "tab_ok t \<Longrightarrow> tab_ok (fst (load_section L root sec f t))"
  using load_each_tab_ok[of t "named_entry f"]
  by (auto simp: load_section_def split: sum.splits prod.splits option.splits) (metis fst_conv)+

text \<open>Whatever holds of the entries of the table and of every entry a setting gives holds of the
  loaded table.\<close>

lemma load_each_all:
  assumes "\<forall>(k, v)\<in>set t. P k v"
    and "\<And>e k v x. e \<in> set es \<Longrightarrow> f e = (Some (k, v), x) \<Longrightarrow> P k v"
  shows "\<forall>(k, v)\<in>set (fst (load_each f es t)). P k v"
  using assms
proof (induction es arbitrary: t)
  case (Cons e es)
  have put: "\<forall>(k, v)\<in>set (tab_put k' v' t). P k v" if "P k' v'" "\<forall>(k, v)\<in>set t. P k v" for k' v' t
    using that set_put_subset[of k' v' t] by blast
  obtain r x where r: "f e = (r, x)" by (cases "f e")
  have t: "\<forall>(k, v)\<in>set (case r of None \<Rightarrow> t | Some (n, a) \<Rightarrow> tab_put n a t). P k v"
  proof (cases r)
    case (Some p)
    then show ?thesis using Cons.prems(2)[of e "fst p" "snd p" x] r put[OF _ Cons.prems(1), of "fst p" "snd p"] by (simp add: split_def)
  qed (use Cons.prems(1) in simp)
  show ?case
  proof (cases x)
    case None
    have "\<forall>(k, v)\<in>set (fst (load_each f es (case r of None \<Rightarrow> t | Some (n, a) \<Rightarrow> tab_put n a t))). P k v"
      by (rule Cons.IH[OF t]) (use Cons.prems(2) in \<open>auto intro: list.set_intros\<close>)
    then show ?thesis using None r by (simp add: Let_def)
  qed (use t r in \<open>simp add: Let_def\<close>)
qed simp

lemma load_section_all:
  assumes "\<forall>(k, v)\<in>set t. P k v" and "\<And>n s k v x. f n s = (Some (k, v), x) \<Longrightarrow> P k v"
  shows "\<forall>(k, v)\<in>set (fst (load_section L root sec f t)). P k v"
proof (cases "cl_get L root sec")
  case (Inr s)
  have "\<forall>(k, v)\<in>set (fst (load_each (named_entry f) (cl_entries L s) t)). P k v"
    by (rule load_each_all[OF assms(1)])
       (use assms(2) in \<open>auto simp: named_entry_def split: option.splits if_splits\<close>)
  then show ?thesis using Inr by (auto simp: load_section_def split: prod.splits option.splits)
qed (use assms in \<open>simp add: load_section_def\<close>)

text \<open>Settings that give back the entries of a table in its order load to that table.\<close>

lemma load_each_roundtrip:
  assumes "tab_ok (t @ t')" "map f es = map (\<lambda>e. (Some e, None)) t'"
  shows "load_each f es t = (t @ t', None)"
  using assms
proof (induction es arbitrary: t t')
  case (Cons e es)
  from Cons.prems(2) obtain k v u where t': "t' = (k, v) # u" "f e = (Some (k, v), None)"
      "map f es = map (\<lambda>e. (Some e, None)) u"
    by (cases t') auto
  have "tab_ok (t @ [(k, v)] @ u)" using Cons.prems(1) t'(1) by simp
  then have "load_each f es (t @ [(k, v)]) = (t @ t', None)" "tab_ok (t @ [(k, v)])"
    using Cons.IH[of "t @ [(k, v)]" u] t' by (auto simp: tab_ok_def sorted_append)
  moreover from this(2) have "tab_put k v t = t @ [(k, v)]"
    using tab_put_last[of t k v] tab_ok_append[of t k v] by blast
  ultimately have "load_each f es (tab_put k v t) = (t @ t', None)" by simp
  then show ?case using t'(2) by (simp add: Let_def)
qed simp

subsection \<open>Reading settings of a group\<close>

lemma load_if_exists_group:
  assumes "cfg_ok L" "cl_type L s = TypeGroup" "key \<noteq> []"
  shows "load_if_exists L conv s key = (case map_of (cl_entries L s) (Some key) of
     None \<Rightarrow> Inr None
   | Some c \<Rightarrow> (case conv c of Inr v \<Rightarrow> Inr (Some v) | Inl SettingTypeException \<Rightarrow> Inr None | Inl e \<Rightarrow> Inl e))"
  using cfg_okD(9)[OF assms(1,2), of key] assms(3) by (simp add: load_if_exists_def cfg_exists_def split: option.splits)

section \<open>A tree of settings\<close>

text \<open>A tree that keeps what the library promises.\<close>

datatype node = NInt int | NBool bool | NStr string | NAgg cfg_type "(string option \<times> node) list"

fun node_type :: "node \<Rightarrow> cfg_type" where
  "node_type (NInt i) = TypeInt"
| "node_type (NBool b) = TypeBoolean"
| "node_type (NStr x) = TypeString"
| "node_type (NAgg t es) = t"

fun node_entries :: "node \<Rightarrow> (string option \<times> node) list" where
  "node_entries (NAgg t es) = es"
| "node_entries _ = []"

definition node_new :: "cfg_type \<Rightarrow> node" where
  "node_new t = (if t = TypeInt then NInt 0 else if t = TypeBoolean then NBool False else if t = TypeString then NStr []
     else NAgg t [])"

definition node_lib :: "node cfg_lib" where
  "node_lib = \<lparr>cl_type = node_type, cl_entries = node_entries,
     cl_get = (\<lambda>s n. if node_type s = TypeGroup then
         (case map_of (node_entries s) (Some n) of None \<Rightarrow> Inl SettingNotFoundException | Some c \<Rightarrow> Inr c)
       else Inl SettingTypeException),
     cl_int = (\<lambda>s. case s of NInt i \<Rightarrow> Inr i | _ \<Rightarrow> Inl SettingTypeException),
     cl_bool = (\<lambda>s. case s of NBool b \<Rightarrow> Inr b | _ \<Rightarrow> Inl SettingTypeException),
     cl_str = (\<lambda>s. case s of NStr x \<Rightarrow> Inr x | _ \<Rightarrow> Inl SettingTypeException),
     cl_new = node_new, cl_of_int = NInt, cl_of_bool = NBool, cl_of_str = NStr,
     cl_add = (\<lambda>s n c. if node_type s = TypeGroup \<and> cfg_name n \<and> Some n \<notin> fst ` set (node_entries s)
       then Inr (NAgg TypeGroup (node_entries s @ [(Some n, c)])) else Inl SettingNameException),
     cl_append = (\<lambda>s c. if node_type s = TypeList \<or> node_type s = TypeArray
       then Inr (NAgg (node_type s) (node_entries s @ [(None, c)])) else Inl SettingTypeException)\<rparr>"

lemma node_lib_ok: "cfg_ok node_lib"
  unfolding cfg_ok_def
proof (intro conjI)
  show "ok_new node_lib" by (simp add: ok_new_def node_lib_def node_new_def)
  show "ok_get node_lib" by (simp add: ok_get_def node_lib_def)
  show "ok_add node_lib" by (simp add: ok_add_def node_lib_def)
  show "ok_append node_lib" by (auto simp: ok_append_def node_lib_def)
  show "ok_values node_lib" by (simp add: ok_values_def node_lib_def)
qed

end
