(* ===== verification/CfgDb.thy ===== *)
theory CfgDb
  imports CfgTree Policy CText
begin

text \<open>
  The object tables of the configuration (\<open>src/src/service/cfgapi/cfgapi.cpp\<close>, \<open>cfgapi.hpp\<close>,
  \<open>src/src/policy/cfgelement.hpp\<close>): addresses, ports, protocols, features and the profiles rules
  refer to, their look-up, their loaders and the functions that empty them.  Every loader walks over
  the settings of its section; an exception ends the walk and leaves what was stored before it.
\<close>

section \<open>State\<close>

text \<open>An element of the configuration: its name and its value.\<close>

type_synonym 'v elem = "string \<times> 'v"

record portal_options =
  portal_address :: string
  portal_address6 :: string
  portal_port_http :: string
  portal_port_https :: string

text \<open>A rule as the configuration keeps it, with the elements it refers to.\<close>

record cfg_rule =
  cr_disabled :: bool
  cr_name :: string
  cr_proto :: "byte elem"
  cr_src :: "addr_obj elem list"
  cr_src_ports :: "(int \<times> int) elem list"
  cr_dst :: "addr_obj elem list"
  cr_dst_ports :: "(int \<times> int) elem list"
  cr_features :: "string elem list"
  cr_action :: int
  cr_action_name :: string
  cr_nat :: int
  cr_nat_name :: string
  cr_profiles :: ProfileList
  cr_auth :: "ProfileAuth option"

definition fresh_rule :: cfg_rule where
  "fresh_rule = \<lparr>cr_disabled = False, cr_name = [], cr_proto = ([], 0), cr_src = [], cr_src_ports = [],
     cr_dst = [], cr_dst_ports = [], cr_features = [], cr_action = POLICY_ACTION_PASS, cr_action_name = [],
     cr_nat = POLICY_NAT_NONE, cr_nat_name = [], cr_profiles = no_profiles, cr_auth = None\<rparr>"

text \<open>What matching reads of a rule.\<close>

definition rule_of :: "cfg_rule \<Rightarrow> policy_rule" where
  "rule_of r = \<lparr>cnt_matches = 0, is_disabled = cr_disabled r, policy_name = cr_name r, rule_proto = snd (cr_proto r),
     rule_src = map snd (cr_src r), rule_src_ports = map snd (cr_src_ports r), rule_dst = map snd (cr_dst r),
     rule_dst_ports = map snd (cr_dst_ports r), rule_features = map snd (cr_features r), rule_action = cr_action r,
     rule_nat = cr_nat r, rule_profiles = cr_profiles r, rule_auth = cr_auth r\<rparr>"

record cfg_db =
  db_address :: "addr_obj elem table"
  db_port :: "(int \<times> int) elem table"
  db_proto :: "byte elem table"
  db_features :: "string elem table"
  db_prof_detection :: "ProfileDetection table"
  db_prof_content :: "ProfileContent table"
  db_prof_tls :: "ProfileTls table"
  db_prof_alg_dns :: "ProfileAlgDns table"
  db_prof_script :: "ProfileScript table"
  db_prof_auth :: "ProfileAuth table"
  db_routing :: "ProfileRouting table"
  db_policy_list :: "cfg_rule list"
  db_policy :: "cfg_rule table"
  db_portal :: portal_options

text \<open>The library of settings, the address functions, the empty range and the case conversion of the
  socle library.\<close>

record 's cfg_env =
  ce_lib :: "'s cfg_lib"
  ce_addr :: addr_env
  ce_nullrange :: "int \<times> int"
  ce_tolower :: "string \<Rightarrow> string"

section \<open>Look-up\<close>

definition find_address :: "cfg_db \<Rightarrow> string \<Rightarrow> addr_obj elem option" where
  "find_address db name = tab_get (db_address db) name"

definition lookup_port :: "'s cfg_env \<Rightarrow> cfg_db \<Rightarrow> string \<Rightarrow> (int \<times> int) elem option" where
  "lookup_port env db name = (case tab_get (db_port db) name of Some r \<Rightarrow> Some r | None \<Rightarrow> Some ([], ce_nullrange env))"

definition lookup_features :: "cfg_db \<Rightarrow> string \<Rightarrow> string elem option" where
  "lookup_features db name = tab_get (db_features db) name"

definition lookup_proto :: "cfg_db \<Rightarrow> string \<Rightarrow> byte elem option" where
  "lookup_proto db name = (case tab_get (db_proto db) name of Some p \<Rightarrow> Some p | None \<Rightarrow> Some ([], 0))"

definition lookup_prof_content :: "cfg_db \<Rightarrow> string \<Rightarrow> ProfileContent option" where
  "lookup_prof_content db name = tab_get (db_prof_content db) name"

definition lookup_prof_detection :: "cfg_db \<Rightarrow> string \<Rightarrow> ProfileDetection option" where
  "lookup_prof_detection db name = tab_get (db_prof_detection db) name"

definition lookup_prof_tls :: "cfg_db \<Rightarrow> string \<Rightarrow> ProfileTls option" where
  "lookup_prof_tls db name = tab_get (db_prof_tls db) name"

definition lookup_prof_alg_dns :: "cfg_db \<Rightarrow> string \<Rightarrow> ProfileAlgDns option" where
  "lookup_prof_alg_dns db name = tab_get (db_prof_alg_dns db) name"

definition lookup_prof_script :: "cfg_db \<Rightarrow> string \<Rightarrow> ProfileScript option" where
  "lookup_prof_script db name = tab_get (db_prof_script db) name"

definition lookup_prof_auth :: "cfg_db \<Rightarrow> string \<Rightarrow> ProfileAuth option" where
  "lookup_prof_auth db name = tab_get (db_prof_auth db) name"

definition lookup_prof_routing :: "cfg_db \<Rightarrow> string \<Rightarrow> ProfileRouting option" where
  "lookup_prof_routing db name = tab_get (db_routing db) name"

section \<open>Addresses, ports, protocols, features\<close>

text \<open>The two syntaxes of an address object.\<close>

definition load_addr_09_30 :: "'s cfg_env \<Rightarrow> string \<Rightarrow> 's \<Rightarrow> cfg_exn + (string \<times> addr_obj elem) option" where
  "load_addr_09_30 env name cur =
     (let L = ce_lib env in
      result_bind (load_if_exists L (cl_int L) cur ''type'') (\<lambda>type.
        if type = Some 0 then
          result_bind (load_if_exists L (cl_str L) cur ''cidr'') (\<lambda>address.
            Inr (map_option (\<lambda>a. (name, (name, CidrAddress (ae_from_str (ce_addr env) a)))) address))
        else if type = Some 1 then
          result_bind (load_if_exists L (cl_str L) cur ''fqdn'') (\<lambda>address.
            Inr (map_option (\<lambda>a. (name, (name, FqdnAddress a))) address))
        else Inr None))"

definition load_addr :: "'s cfg_env \<Rightarrow> string \<Rightarrow> 's \<Rightarrow> cfg_exn + (string \<times> addr_obj elem) option" where
  "load_addr env name cur =
     (let L = ce_lib env in
      result_bind (load_if_exists L (cl_str L) cur ''type'') (\<lambda>type.
        if type = Some ''cidr'' then
          result_bind (load_if_exists L (cl_str L) cur ''value'') (\<lambda>address.
            Inr (map_option (\<lambda>a. (name, (name, CidrAddress (ae_from_str (ce_addr env) a)))) address))
        else if type = Some ''fqdn'' then
          result_bind (load_if_exists L (cl_str L) cur ''value'') (\<lambda>address.
            Inr (map_option (\<lambda>a. (name, (name, FqdnAddress a))) address))
        else Inr None))"

definition address_entry :: "'s cfg_env \<Rightarrow> string \<Rightarrow> 's \<Rightarrow> addr_obj elem outcome" where
  "address_entry env name cur = to_outcome
     (if cfg_exists (ce_lib env) cur ''value'' then load_addr env name cur else load_addr_09_30 env name cur)"

text \<open>A loader of the database: the new database and the result, or the exception.\<close>

type_synonym loaded = "cfg_db \<times> (cfg_exn + nat)"

definition load_db_address :: "'s cfg_env \<Rightarrow> 's \<Rightarrow> cfg_db \<Rightarrow> loaded" where
  "load_db_address env root db = (case load_section (ce_lib env) root ''address_objects'' (address_entry env) (db_address db) of
     (t, r) \<Rightarrow> (db\<lparr>db_address := t\<rparr>, r))"

definition port_entry :: "'s cfg_env \<Rightarrow> string \<Rightarrow> 's \<Rightarrow> (int \<times> int) elem outcome" where
  "port_entry env name cur =
     (let L = ce_lib env in to_outcome
        (result_bind (load_if_exists L (cl_int L) cur ''start'') (\<lambda>a. case a of
           None \<Rightarrow> Inr None
         | Some a \<Rightarrow> result_bind (load_if_exists L (cl_int L) cur ''end'') (\<lambda>b. case b of
             None \<Rightarrow> Inr None
           | Some b \<Rightarrow> Inr (Some (name, (name, if a \<le> b then (a, b) else (b, a))))))))"

definition load_db_port :: "'s cfg_env \<Rightarrow> 's \<Rightarrow> cfg_db \<Rightarrow> loaded" where
  "load_db_port env root db = (case load_section (ce_lib env) root ''port_objects'' (port_entry env) (db_port db) of
     (t, r) \<Rightarrow> (db\<lparr>db_port := t\<rparr>, r))"

definition proto_entry :: "'s cfg_env \<Rightarrow> string \<Rightarrow> 's \<Rightarrow> byte elem outcome" where
  "proto_entry env name cur =
     (let L = ce_lib env in to_outcome
        (result_bind (load_if_exists L (cl_int L) cur ''id'') (\<lambda>a.
           Inr (map_option (\<lambda>a. (name, (name, word_of_int a))) a))))"

definition load_db_proto :: "'s cfg_env \<Rightarrow> 's \<Rightarrow> cfg_db \<Rightarrow> loaded" where
  "load_db_proto env root db = (case load_section (ce_lib env) root ''proto_objects'' (proto_entry env) (db_proto db) of
     (t, r) \<Rightarrow> (db\<lparr>db_proto := t\<rparr>, r))"

text \<open>The features are fixed; their elements are not given a name.\<close>

definition load_db_features :: "cfg_db \<Rightarrow> cfg_db \<times> nat" where
  "load_db_features db =
     (let t = fold (\<lambda>f. tab_put f ([], f)) [''sink-left'', ''sink-right'', ''sink-all''] (db_features db)
      in (db\<lparr>db_features := t\<rparr>, length t))"

section \<open>Profiles\<close>

text \<open>Reading members into the fields of a profile, one after the other.\<close>

definition load_field :: "'s cfg_lib \<Rightarrow> ('s \<Rightarrow> cfg_exn + 'a) \<Rightarrow> 's \<Rightarrow> string \<Rightarrow> ('a \<Rightarrow> 'p \<Rightarrow> 'p) \<Rightarrow> 'p \<Rightarrow> cfg_exn + 'p" where
  "load_field L conv cur key upd p = result_bind (load_if_exists L conv cur key) (\<lambda>v.
     Inr (case v of None \<Rightarrow> p | Some x \<Rightarrow> upd x p))"

fun run_fields :: "('p \<Rightarrow> cfg_exn + 'p) list \<Rightarrow> 'p \<Rightarrow> cfg_exn + 'p" where
  "run_fields [] p = Inr p"
| "run_fields (f # fs) p = result_bind (f p) (run_fields fs)"

text \<open>The members of an array or list, each converted; the first that cannot be throws.\<close>

fun items :: "('s \<Rightarrow> cfg_exn + 'a) \<Rightarrow> (string option \<times> 's) list \<Rightarrow> cfg_exn + 'a list" where
  "items conv [] = Inr []"
| "items conv (e # es) = result_bind (conv (snd e)) (\<lambda>x. result_bind (items conv es) (\<lambda>xs. Inr (x # xs)))"

subsection \<open>Detection\<close>

definition detection_entry :: "'s cfg_env \<Rightarrow> string \<Rightarrow> 's \<Rightarrow> ProfileDetection outcome" where
  "detection_entry env name cur =
     (let L = ce_lib env in to_outcome
        (result_bind (load_if_exists L (cl_int L) cur ''mode'') (\<lambda>mode. case mode of
           None \<Rightarrow> Inr None
         | Some m \<Rightarrow>
             result_bind (run_fields
               [load_field L (cl_bool L) cur ''engines_enabled'' (\<lambda>x p. p\<lparr>det_engines_enabled := x\<rparr>),
                load_field L (cl_bool L) cur ''kb_enabled'' (\<lambda>x p. p\<lparr>det_kb_enabled := x\<rparr>)]
               \<lparr>det_name = name, det_mode = m, det_engines_enabled = True, det_kb_enabled = True\<rparr>) (\<lambda>p.
             Inr (Some (name, p))))))"

definition load_db_prof_detection :: "'s cfg_env \<Rightarrow> 's \<Rightarrow> cfg_db \<Rightarrow> loaded" where
  "load_db_prof_detection env root db =
     (case load_section (ce_lib env) root ''detection_profiles'' (detection_entry env) (db_prof_detection db) of
     (t, r) \<Rightarrow> (db\<lparr>db_prof_detection := t\<rparr>, r))"

subsection \<open>Content\<close>

definition load_subrule :: "'s cfg_lib \<Rightarrow> 's \<Rightarrow> cfg_exn + ProfileContentRule option" where
  "load_subrule L cur =
     result_bind (load_into L (cl_str L) cur ''match'' []) (\<lambda>m.
     result_bind (load_if_exists L (cl_str L) cur ''replace'') (\<lambda>r.
     result_bind (load_into L (cl_bool L) cur ''fill_length'' False) (\<lambda>fill_length.
     result_bind (load_into L (cl_int L) cur ''replace_each_nth'' 0) (\<lambda>replace_each_nth.
       Inr (case r of
         Some r \<Rightarrow> if m \<noteq> [] then Some \<lparr>pcr_match = m, pcr_replace = r, pcr_fill_length = fill_length,
             pcr_replace_each_nth = replace_each_nth, pcr_replace_each_counter = 0\<rparr> else None
       | None \<Rightarrow> None)))))"

fun load_db_prof_content_subrules :: "'s cfg_lib \<Rightarrow> (string option \<times> 's) list \<Rightarrow> ProfileContent \<Rightarrow> ProfileContent \<times> cfg_exn option" where
  "load_db_prof_content_subrules L [] p = (p, None)"
| "load_db_prof_content_subrules L (e # es) p = (case load_subrule L (snd e) of
     Inl x \<Rightarrow> (p, Some x)
   | Inr None \<Rightarrow> load_db_prof_content_subrules L es p
   | Inr (Some r) \<Rightarrow> load_db_prof_content_subrules L es (p\<lparr>cont_rules := cont_rules p @ [r]\<rparr>))"

definition load_db_prof_content_write_format :: "'s cfg_env \<Rightarrow> 's \<Rightarrow> ProfileContent \<Rightarrow> ProfileContent \<times> cfg_exn option" where
  "load_db_prof_content_write_format env cur p =
     (let L = ce_lib env in case load_into L (cl_str L) cur ''write_format'' ''pcap_single'' of
        Inl x \<Rightarrow> (p, Some x)
      | Inr fmt \<Rightarrow> (p\<lparr>cont_write_format := format_from_str (ce_tolower env fmt)\<rparr>, None))"

text \<open>The profile is stored before its rules and its format are read.\<close>

definition content_entry :: "'s cfg_env \<Rightarrow> string \<Rightarrow> 's \<Rightarrow> ProfileContent outcome" where
  "content_entry env name cur =
     (let L = ce_lib env in
      case load_if_exists L (cl_bool L) cur ''write_payload'' of
        Inl x \<Rightarrow> (None, Some x)
      | Inr None \<Rightarrow> (None, None)
      | Inr (Some wp) \<Rightarrow> (case load_into L (cl_str L) cur ''write_format'' [] of
          Inl x \<Rightarrow> (None, Some x)
        | Inr fmt \<Rightarrow>
            let p = \<lparr>cont_name = name, cont_write_payload = wp, cont_write_format = format_from_str fmt, cont_rules = []\<rparr>;
                (p, x) = (case cl_get L cur ''content_rules'' of
                   Inl _ \<Rightarrow> (p, None)
                 | Inr rules \<Rightarrow> load_db_prof_content_subrules L (cl_entries L rules) p)
            in case x of
                 Some x \<Rightarrow> (Some (name, p), Some x)
               | None \<Rightarrow> (case load_db_prof_content_write_format env cur p of (p, x) \<Rightarrow> (Some (name, p), x))))"

definition load_db_prof_content :: "'s cfg_env \<Rightarrow> 's \<Rightarrow> cfg_db \<Rightarrow> loaded" where
  "load_db_prof_content env root db =
     (case load_section (ce_lib env) root ''content_profiles'' (content_entry env) (db_prof_content db) of
     (t, r) \<Rightarrow> (db\<lparr>db_prof_content := t\<rparr>, r))"

subsection \<open>TLS\<close>

definition tls_fields :: "'s cfg_lib \<Rightarrow> 's \<Rightarrow> (ProfileTls \<Rightarrow> cfg_exn + ProfileTls) list" where
  "tls_fields L cur =
     [load_field L (cl_bool L) cur ''allow_untrusted_issuers'' (\<lambda>x p. p\<lparr>tls_allow_untrusted_issuers := x\<rparr>),
      load_field L (cl_bool L) cur ''allow_invalid_certs'' (\<lambda>x p. p\<lparr>tls_allow_invalid_certs := x\<rparr>),
      load_field L (cl_bool L) cur ''allow_self_signed'' (\<lambda>x p. p\<lparr>tls_allow_self_signed := x\<rparr>),
      load_field L (cl_bool L) cur ''use_pfs'' (\<lambda>x p. p\<lparr>tls_use_pfs := x\<rparr>),
      load_field L (cl_bool L) cur ''left_use_pfs'' (\<lambda>x p. p\<lparr>tls_left_use_pfs := x\<rparr>),
      load_field L (cl_bool L) cur ''right_use_pfs'' (\<lambda>x p. p\<lparr>tls_right_use_pfs := x\<rparr>),
      load_field L (cl_bool L) cur ''left_disable_reuse'' (\<lambda>x p. p\<lparr>tls_left_disable_reuse := x\<rparr>),
      load_field L (cl_bool L) cur ''right_disable_reuse'' (\<lambda>x p. p\<lparr>tls_right_disable_reuse := x\<rparr>),
      load_field L (cl_int L) cur ''ocsp_mode'' (\<lambda>x p. p\<lparr>tls_ocsp_mode := x\<rparr>),
      load_field L (cl_bool L) cur ''ocsp_stapling'' (\<lambda>x p. p\<lparr>tls_ocsp_stapling := x\<rparr>),
      load_field L (cl_int L) cur ''ocsp_stapling_mode'' (\<lambda>x p. p\<lparr>tls_ocsp_stapling_mode := x\<rparr>),
      load_field L (cl_bool L) cur ''ct_enable'' (\<lambda>x p. p\<lparr>tls_ct_enable := x\<rparr>),
      load_field L (cl_bool L) cur ''alpn_block'' (\<lambda>x p. p\<lparr>tls_alpn_block := x\<rparr>),
      load_field L (cl_bool L) cur ''failed_certcheck_replacement'' (\<lambda>x p. p\<lparr>tls_failed_certcheck_replacement := x\<rparr>),
      load_field L (cl_bool L) cur ''failed_certcheck_override'' (\<lambda>x p. p\<lparr>tls_failed_certcheck_override := x\<rparr>),
      load_field L (cl_int L) cur ''failed_certcheck_override_timeout'' (\<lambda>x p. p\<lparr>tls_failed_certcheck_override_timeout := x\<rparr>),
      load_field L (cl_int L) cur ''failed_certcheck_override_timeout_type'' (\<lambda>x p. p\<lparr>tls_failed_certcheck_override_timeout_type := x\<rparr>),
      load_field L (cl_bool L) cur ''sni_based_cert'' (\<lambda>x p. p\<lparr>tls_mitm_cert_sni_search := x\<rparr>),
      load_field L (cl_bool L) cur ''ip_based_cert'' (\<lambda>x p. p\<lparr>tls_mitm_cert_ip_search := x\<rparr>)]"

text \<open>The lists are set only when they have members; the ports are a set.\<close>

definition load_sni_filter :: "'s cfg_lib \<Rightarrow> 's \<Rightarrow> ProfileTls \<Rightarrow> cfg_exn + ProfileTls" where
  "load_sni_filter L cur p = (case cl_get L cur ''sni_filter_bypass'' of
     Inl _ \<Rightarrow> Inr p
   | Inr sni_filter \<Rightarrow>
       if cl_entries L sni_filter = [] then Inr p
       else result_bind (items (cl_str L) (cl_entries L sni_filter)) (\<lambda>xs.
         Inr (p\<lparr>tls_sni_filter_bypass := Some xs, tls_sni_filter_bypass_addrobj := xs\<rparr>)))"

definition load_warning_ports :: "'s cfg_lib \<Rightarrow> 's \<Rightarrow> ProfileTls \<Rightarrow> cfg_exn + ProfileTls" where
  "load_warning_ports L cur p = (case cl_get L cur ''redirect_warning_ports'' of
     Inl _ \<Rightarrow> Inr p
   | Inr rwp \<Rightarrow>
       if cl_entries L rwp = [] then Inr p
       else result_bind (items (cl_int L) (cl_entries L rwp)) (\<lambda>xs.
         Inr (p\<lparr>tls_redirect_warning_ports := Some (fold insort_insert xs [])\<rparr>)))"

definition tls_entry :: "'s cfg_env \<Rightarrow> string \<Rightarrow> 's \<Rightarrow> ProfileTls outcome" where
  "tls_entry env name cur =
     (let L = ce_lib env in to_outcome
        (result_bind (load_if_exists L (cl_bool L) cur ''inspect'') (\<lambda>inspect. case inspect of
           None \<Rightarrow> Inr None
         | Some b \<Rightarrow>
             result_bind (run_fields (tls_fields L cur
                 @ [load_sni_filter L cur, load_warning_ports L cur,
                    load_field L (cl_bool L) cur ''sslkeylog'' (\<lambda>x p. p\<lparr>tls_sslkeylog := x\<rparr>)])
               ((default_tls name)\<lparr>tls_inspect := b\<rparr>)) (\<lambda>p.
             Inr (Some (name, p))))))"

definition load_db_prof_tls :: "'s cfg_env \<Rightarrow> 's \<Rightarrow> cfg_db \<Rightarrow> loaded" where
  "load_db_prof_tls env root db =
     (case load_section (ce_lib env) root ''tls_profiles'' (tls_entry env) (db_prof_tls db) of
     (t, r) \<Rightarrow> (db\<lparr>db_prof_tls := t\<rparr>, r))"

definition load_db_tls_ca :: "cfg_db \<Rightarrow> loaded" where
  "load_db_tls_ca db = (db, Inr 0)"

subsection \<open>DNS and scripts\<close>

definition alg_dns_entry :: "'s cfg_env \<Rightarrow> string \<Rightarrow> 's \<Rightarrow> ProfileAlgDns outcome" where
  "alg_dns_entry env name cur =
     (let L = ce_lib env in to_outcome (result_bind (run_fields
        [load_field L (cl_bool L) cur ''match_request_id'' (\<lambda>x p. p\<lparr>alg_match_request_id := x\<rparr>),
         load_field L (cl_bool L) cur ''randomize_id'' (\<lambda>x p. p\<lparr>alg_randomize_id := x\<rparr>),
         load_field L (cl_bool L) cur ''cached_responses'' (\<lambda>x p. p\<lparr>alg_cached_responses := x\<rparr>)]
        \<lparr>alg_name = name, alg_match_request_id = False, alg_randomize_id = False, alg_cached_responses = False\<rparr>) (\<lambda>p.
      Inr (Some (name, p)))))"

definition load_db_prof_alg_dns :: "'s cfg_env \<Rightarrow> 's \<Rightarrow> cfg_db \<Rightarrow> loaded" where
  "load_db_prof_alg_dns env root db =
     (case load_section (ce_lib env) root ''alg_dns_profiles'' (alg_dns_entry env) (db_prof_alg_dns db) of
     (t, r) \<Rightarrow> (db\<lparr>db_prof_alg_dns := t\<rparr>, r))"

definition script_entry :: "'s cfg_env \<Rightarrow> string \<Rightarrow> 's \<Rightarrow> ProfileScript outcome" where
  "script_entry env name cur =
     (let L = ce_lib env in to_outcome (result_bind (run_fields
        [load_field L (cl_int L) cur ''type'' (\<lambda>x p. p\<lparr>scr_type := x\<rparr>),
         load_field L (cl_str L) cur ''script-file'' (\<lambda>x p. p\<lparr>scr_module_path := x\<rparr>)]
        \<lparr>scr_name = name, scr_module_path = [], scr_type = - 1\<rparr>) (\<lambda>p.
      Inr (Some (name, p)))))"

definition load_db_prof_script :: "'s cfg_env \<Rightarrow> 's \<Rightarrow> cfg_db \<Rightarrow> loaded" where
  "load_db_prof_script env root db =
     (case load_section (ce_lib env) root ''script_profiles'' (script_entry env) (db_prof_script db) of
     (t, r) \<Rightarrow> (db\<lparr>db_prof_script := t\<rparr>, r))"

subsection \<open>Authentication\<close>

text \<open>A sub-profile keeps the profiles its names stand for at the moment it is loaded; a name that
  is not known is left out.\<close>

definition load_ref :: "'s cfg_lib \<Rightarrow> 's \<Rightarrow> string \<Rightarrow> (string \<Rightarrow> 'a option) \<Rightarrow> ('a \<Rightarrow> 'p \<Rightarrow> 'p) \<Rightarrow> 'p \<Rightarrow> cfg_exn + 'p" where
  "load_ref L cur key lookup upd p = result_bind (load_if_exists L (cl_str L) cur key) (\<lambda>n.
     Inr (case n of None \<Rightarrow> p | Some n \<Rightarrow> (case lookup n of None \<Rightarrow> p | Some x \<Rightarrow> upd x p)))"

definition load_sub_profile :: "'s cfg_lib \<Rightarrow> cfg_db \<Rightarrow> string \<Rightarrow> 's \<Rightarrow> cfg_exn + ProfileSubAuth" where
  "load_sub_profile L db name cur =
     result_bind (run_fields
       [load_ref L cur ''detection_profile'' (lookup_prof_detection db) (\<lambda>x p. p\<lparr>profile_detection := Some x\<rparr>),
        load_ref L cur ''content_profile'' (lookup_prof_content db) (\<lambda>x p. p\<lparr>profile_content := Some x\<rparr>),
        load_ref L cur ''tls_profile'' (lookup_prof_tls db) (\<lambda>x p. p\<lparr>profile_tls := Some x\<rparr>),
        load_ref L cur ''alg_dns_profile'' (lookup_prof_alg_dns db) (\<lambda>x p. p\<lparr>profile_alg_dns := Some x\<rparr>)]
       no_profiles) (\<lambda>l.
     Inr \<lparr>sub_name = name, sub_profiles = l\<rparr>)"

fun load_identities :: "'s cfg_lib \<Rightarrow> cfg_db \<Rightarrow> (string option \<times> 's) list \<Rightarrow> cfg_exn + ProfileSubAuth list" where
  "load_identities L db [] = Inr []"
| "load_identities L db ((None, s) # es) = load_identities L db es"
| "load_identities L db ((Some n, s) # es) =
     (if reserved_name n then load_identities L db es
      else result_bind (load_sub_profile L db n s) (\<lambda>x.
           result_bind (load_identities L db es) (\<lambda>xs. Inr (x # xs))))"

definition auth_entry :: "'s cfg_env \<Rightarrow> cfg_db \<Rightarrow> string \<Rightarrow> 's \<Rightarrow> ProfileAuth outcome" where
  "auth_entry env db name cur =
     (let L = ce_lib env in to_outcome (result_bind (run_fields
        [load_field L (cl_bool L) cur ''authenticate'' (\<lambda>x p. p\<lparr>auth_authenticate := x\<rparr>),
         load_field L (cl_bool L) cur ''resolve'' (\<lambda>x p. p\<lparr>auth_resolve := x\<rparr>)]
        \<lparr>auth_name = name, auth_authenticate = False, auth_resolve = False\<rparr>) (\<lambda>flags.
      result_bind (case cl_get L cur ''identities'' of
          Inl _ \<Rightarrow> Inr []
        | Inr ids \<Rightarrow> load_identities L db (cl_entries L ids)) (\<lambda>subs.
      Inr (Some (name, \<lparr>pa_flags = flags, sub_policies = subs\<rparr>))))))"

definition load_portal :: "'s cfg_lib \<Rightarrow> 's \<Rightarrow> portal_options \<Rightarrow> cfg_exn + portal_options" where
  "load_portal L root o0 =
     result_bind (cl_get L root ''settings'') (\<lambda>settings.
     result_bind (cl_get L settings ''auth_portal'') (\<lambda>portal.
       run_fields
         [load_field L (cl_str L) portal ''address'' (\<lambda>x p. p\<lparr>portal_address := x\<rparr>),
          load_field L (cl_str L) portal ''address6'' (\<lambda>x p. p\<lparr>portal_address6 := x\<rparr>),
          load_field L (cl_str L) portal ''http_port'' (\<lambda>x p. p\<lparr>portal_port_http := x\<rparr>),
          load_field L (cl_str L) portal ''https_port'' (\<lambda>x p. p\<lparr>portal_port_https := x\<rparr>)] o0))"

definition load_db_prof_auth :: "'s cfg_env \<Rightarrow> 's \<Rightarrow> cfg_db \<Rightarrow> loaded" where
  "load_db_prof_auth env root db = (case load_portal (ce_lib env) root (db_portal db) of
     Inl x \<Rightarrow> (db, Inl x)
   | Inr opts \<Rightarrow>
       let db = db\<lparr>db_portal := opts\<rparr> in
       (case load_section (ce_lib env) root ''auth_profiles'' (auth_entry env db) (db_prof_auth db) of
        (t, r) \<Rightarrow> (db\<lparr>db_prof_auth := t\<rparr>, r)))"

subsection \<open>Routing\<close>

text \<open>Names of targets that are not known are left out.\<close>

definition known_names :: "'s cfg_lib \<Rightarrow> 's \<Rightarrow> string \<Rightarrow> (string \<Rightarrow> bool) \<Rightarrow> cfg_exn + string list" where
  "known_names L cur key p = (case cl_get L cur key of
     Inl _ \<Rightarrow> Inr []
   | Inr a \<Rightarrow> result_bind (items (cl_str L) (cl_entries L a)) (\<lambda>xs. Inr (filter p xs)))"

definition lb_method_of :: "string option \<Rightarrow> lb_method" where
  "lb_method_of m = (if m = Some ''sticky-l3'' then LB_L3 else if m = Some ''sticky-l4'' then LB_L4 else LB_RR)"

definition routing_entry :: "'s cfg_env \<Rightarrow> cfg_db \<Rightarrow> string \<Rightarrow> 's \<Rightarrow> ProfileRouting outcome" where
  "routing_entry env db name cur =
     (let L = ce_lib env in to_outcome
        (result_bind (known_names L cur ''dnat_address'' (\<lambda>a. tab_get (db_address db) a \<noteq> None)) (\<lambda>addresses.
         result_bind (known_names L cur ''dnat_port'' (\<lambda>a. tab_get (db_port db) a \<noteq> None)) (\<lambda>ports.
         result_bind (load_if_exists L (cl_str L) cur ''dnat_lb_method'') (\<lambda>lb_meth.
           Inr (Some (name, \<lparr>rt_name = name, dnat_addresses = addresses, dnat_ports = ports,
             dnat_lb_method = lb_method_of lb_meth,
             lb_state = \<lparr>rr_counter = 0, last_refresh = 0, candidates_v4 = [], candidates_v6 = []\<rparr>\<rparr>)))))))"

text \<open>This loader counts the profiles it stored.\<close>

definition load_db_routing :: "'s cfg_env \<Rightarrow> 's \<Rightarrow> cfg_db \<Rightarrow> loaded" where
  "load_db_routing env root db =
     (let L = ce_lib env in
      case load_section L root ''routing'' (routing_entry env db) (db_routing db) of
        (t, r) \<Rightarrow> (db\<lparr>db_routing := t\<rparr>, result_bind r (\<lambda>_. Inr (case cl_get L root ''routing'' of
          Inl _ \<Rightarrow> 0
        | Inr s \<Rightarrow> length (filter (\<lambda>(n, _). case n of None \<Rightarrow> False | Some n \<Rightarrow> \<not> reserved_name n) (cl_entries L s))))))"

section \<open>Emptying the tables\<close>

definition cleanup_db_address :: "cfg_db \<Rightarrow> cfg_db \<times> nat" where
  "cleanup_db_address db = (db\<lparr>db_address := []\<rparr>, length (db_address db))"

definition cleanup_db_policy :: "cfg_db \<Rightarrow> cfg_db \<times> nat" where
  "cleanup_db_policy db = (db\<lparr>db_policy_list := [], db_policy := []\<rparr>, length (db_policy_list db))"

definition cleanup_db_port :: "cfg_db \<Rightarrow> cfg_db \<times> nat" where
  "cleanup_db_port db = (db\<lparr>db_port := []\<rparr>, length (db_port db))"

definition cleanup_db_proto :: "cfg_db \<Rightarrow> cfg_db \<times> nat" where
  "cleanup_db_proto db = (db\<lparr>db_proto := []\<rparr>, length (db_proto db))"

definition cleanup_db_prof_content :: "cfg_db \<Rightarrow> cfg_db \<times> nat" where
  "cleanup_db_prof_content db = (db\<lparr>db_prof_content := []\<rparr>, length (db_prof_content db))"

definition cleanup_db_prof_detection :: "cfg_db \<Rightarrow> cfg_db \<times> nat" where
  "cleanup_db_prof_detection db = (db\<lparr>db_prof_detection := []\<rparr>, length (db_prof_detection db))"

definition cleanup_db_tls_ca :: "cfg_db \<Rightarrow> cfg_db \<times> nat" where
  "cleanup_db_tls_ca db = (db, 0)"

definition cleanup_db_prof_tls :: "cfg_db \<Rightarrow> cfg_db \<times> nat" where
  "cleanup_db_prof_tls db = (db\<lparr>db_prof_tls := []\<rparr>, length (db_prof_tls db))"

definition cleanup_db_prof_alg_dns :: "cfg_db \<Rightarrow> cfg_db \<times> nat" where
  "cleanup_db_prof_alg_dns db = (db\<lparr>db_prof_alg_dns := []\<rparr>, length (db_prof_alg_dns db))"

definition cleanup_db_prof_script :: "cfg_db \<Rightarrow> cfg_db \<times> nat" where
  "cleanup_db_prof_script db = (db\<lparr>db_prof_script := []\<rparr>, length (db_prof_script db))"

definition cleanup_db_prof_auth :: "cfg_db \<Rightarrow> cfg_db \<times> nat" where
  "cleanup_db_prof_auth db = (db\<lparr>db_prof_auth := []\<rparr>, length (db_prof_auth db))"

definition cleanup_db_routing :: "cfg_db \<Rightarrow> cfg_db \<times> nat" where
  "cleanup_db_routing db = (db\<lparr>db_routing := []\<rparr>, length (db_routing db))"

text \<open>The routing table and the features are not emptied by the clean-up of the factory.\<close>

definition cleanup :: "cfg_db \<Rightarrow> cfg_db" where
  "cleanup db = fold (\<lambda>f db. fst (f db))
     [cleanup_db_policy, cleanup_db_address, cleanup_db_port, cleanup_db_proto, cleanup_db_prof_content,
      cleanup_db_prof_detection, cleanup_db_prof_tls, cleanup_db_prof_auth, cleanup_db_prof_alg_dns,
      cleanup_db_prof_script] db"

end
