(* ===== verification/CfgPolicy.thy ===== *)
theory CfgPolicy
  imports CfgDb
begin

text \<open>
  Loading the rules (\<open>CfgFactory::load_db_policy\<close> in \<open>src/src/service/cfgapi/cfgapi.cpp\<close>) and
  reloading after a change (\<open>apply_config_change\<close>).  A rule refers to the objects of the tables by
  name; a reference that cannot be resolved drops the rule.  The references an element keeps to the
  rules that use it serve the display only and are left out.
\<close>

section \<open>One rule\<close>

text \<open>A rule under construction and the error flag.\<close>

type_synonym draft = "cfg_rule \<times> bool"

definition bad_ref :: "draft \<Rightarrow> draft" where
  "bad_ref d = ((fst d)\<lparr>cr_disabled := True\<rparr>, True)"

text \<open>References by name: a single name or a list of names.\<close>

definition add_ref :: "(string \<Rightarrow> 'v option) \<Rightarrow> ('v \<Rightarrow> cfg_rule \<Rightarrow> cfg_rule) \<Rightarrow> string \<Rightarrow> draft \<Rightarrow> draft" where
  "add_ref lookup push name d = (case lookup name of Some x \<Rightarrow> (push x (fst d), snd d) | None \<Rightarrow> bad_ref d)"

fun add_refs :: "'s cfg_lib \<Rightarrow> (string \<Rightarrow> 'v option) \<Rightarrow> ('v \<Rightarrow> cfg_rule \<Rightarrow> cfg_rule) \<Rightarrow> (string option \<times> 's) list \<Rightarrow> draft \<Rightarrow> cfg_exn + draft" where
  "add_refs L lookup push [] d = Inr d"
| "add_refs L lookup push (e # es) d = result_bind (cl_str L (snd e)) (\<lambda>n. add_refs L lookup push es (add_ref lookup push n d))"

definition load_group :: "'s cfg_lib \<Rightarrow> 's \<Rightarrow> string \<Rightarrow> (string \<Rightarrow> 'v option) \<Rightarrow> ('v \<Rightarrow> cfg_rule \<Rightarrow> cfg_rule) \<Rightarrow> draft \<Rightarrow> cfg_exn + draft" where
  "load_group L cur key lookup push d =
     result_bind (cl_get L cur key) (\<lambda>sett.
       if is_scalar (cl_type L sett) then
         result_bind (load_if_exists L (cl_str L) cur key) (\<lambda>n.
           Inr (case n of None \<Rightarrow> d | Some n \<Rightarrow> add_ref lookup push n d))
       else add_refs L lookup push (cl_entries L sett) d)"

definition load_proto_ref :: "'s cfg_env \<Rightarrow> cfg_db \<Rightarrow> 's \<Rightarrow> draft \<Rightarrow> cfg_exn + draft" where
  "load_proto_ref env db cur d =
     (let L = ce_lib env in result_bind (load_if_exists L (cl_str L) cur ''proto'') (\<lambda>n.
        Inr (case n of None \<Rightarrow> d | Some n \<Rightarrow> add_ref (lookup_proto db) (\<lambda>x r. r\<lparr>cr_proto := x\<rparr>) n d)))"

definition load_features_refs :: "'s cfg_env \<Rightarrow> cfg_db \<Rightarrow> 's \<Rightarrow> draft \<Rightarrow> cfg_exn + draft" where
  "load_features_refs env db cur d =
     (let L = ce_lib env in case cl_get L cur ''features'' of
        Inl _ \<Rightarrow> Inr d
      | Inr sett \<Rightarrow>
          if \<not> is_scalar (cl_type L sett)
          then add_refs L (lookup_features db) (\<lambda>x r. r\<lparr>cr_features := cr_features r @ [x]\<rparr>) (cl_entries L sett) d
          else Inr d)"

definition load_action :: "'s cfg_lib \<Rightarrow> 's \<Rightarrow> draft \<Rightarrow> cfg_exn + draft" where
  "load_action L cur d = result_bind (load_if_exists L (cl_str L) cur ''action'') (\<lambda>action.
     Inr (case action of
       None \<Rightarrow> ((fst d)\<lparr>cr_action := POLICY_ACTION_DENY, cr_action_name := ''deny''\<rparr>, snd d)
     | Some a \<Rightarrow>
         if a = ''deny'' then ((fst d)\<lparr>cr_action_name := a, cr_action := POLICY_ACTION_DENY\<rparr>, snd d)
         else if a = ''accept'' then ((fst d)\<lparr>cr_action_name := a, cr_action := POLICY_ACTION_PASS\<rparr>, snd d)
         else ((fst d)\<lparr>cr_action := POLICY_ACTION_DENY\<rparr>, True)))"

definition load_nat :: "'s cfg_lib \<Rightarrow> 's \<Rightarrow> draft \<Rightarrow> cfg_exn + draft" where
  "load_nat L cur d = result_bind (load_if_exists L (cl_str L) cur ''nat'') (\<lambda>nat.
     Inr (case nat of
       None \<Rightarrow> ((fst d)\<lparr>cr_nat := POLICY_NAT_NONE\<rparr>, snd d)
     | Some n \<Rightarrow>
         if n = ''none'' then ((fst d)\<lparr>cr_nat_name := n, cr_nat := POLICY_NAT_NONE\<rparr>, snd d)
         else if n = ''auto'' then ((fst d)\<lparr>cr_nat_name := n, cr_nat := POLICY_NAT_AUTO\<rparr>, snd d)
         else ((fst d)\<lparr>cr_nat_name := ''none'', cr_nat := POLICY_NAT_NONE\<rparr>, True)))"

text \<open>A profile that is named and unknown is an error; an empty name is none.\<close>

definition load_profile :: "'s cfg_lib \<Rightarrow> 's \<Rightarrow> string \<Rightarrow> (string \<Rightarrow> 'p option) \<Rightarrow> ('p \<Rightarrow> cfg_rule \<Rightarrow> cfg_rule) \<Rightarrow> draft \<Rightarrow> cfg_exn + draft" where
  "load_profile L cur key lookup put d = result_bind (load_if_exists L (cl_str L) cur key) (\<lambda>n.
     Inr (case n of
       None \<Rightarrow> d
     | Some n \<Rightarrow> (case lookup n of
         Some x \<Rightarrow> (put x (fst d), snd d)
       | None \<Rightarrow> if n \<noteq> [] then (fst d, True) else d)))"

definition load_routing_ref :: "'s cfg_lib \<Rightarrow> cfg_db \<Rightarrow> 's \<Rightarrow> draft \<Rightarrow> cfg_exn + draft" where
  "load_routing_ref L db cur d = result_bind (load_if_exists L (cl_str L) cur ''routing'') (\<lambda>n.
     Inr (case n of
       None \<Rightarrow> d
     | Some n \<Rightarrow> let n = (if n = [] then ''none'' else n) in
         if n = ''none'' then d
         else (case lookup_prof_routing db n of
             Some x \<Rightarrow> ((fst d)\<lparr>cr_profiles := (cr_profiles (fst d))\<lparr>profile_routing := Some x\<rparr>\<rparr>, snd d)
           | None \<Rightarrow> (fst d, True))))"

definition profile_steps :: "'s cfg_lib \<Rightarrow> cfg_db \<Rightarrow> 's \<Rightarrow> (draft \<Rightarrow> cfg_exn + draft) list" where
  "profile_steps L db cur =
     [load_profile L cur ''detection_profile'' (lookup_prof_detection db)
        (\<lambda>x r. r\<lparr>cr_profiles := (cr_profiles r)\<lparr>profile_detection := Some x\<rparr>\<rparr>),
      load_profile L cur ''content_profile'' (lookup_prof_content db)
        (\<lambda>x r. r\<lparr>cr_profiles := (cr_profiles r)\<lparr>profile_content := Some x\<rparr>\<rparr>),
      load_profile L cur ''tls_profile'' (lookup_prof_tls db)
        (\<lambda>x r. r\<lparr>cr_profiles := (cr_profiles r)\<lparr>profile_tls := Some x\<rparr>\<rparr>),
      load_profile L cur ''auth_profile'' (lookup_prof_auth db) (\<lambda>x r. r\<lparr>cr_auth := Some x\<rparr>),
      load_profile L cur ''alg_dns_profile'' (lookup_prof_alg_dns db)
        (\<lambda>x r. r\<lparr>cr_profiles := (cr_profiles r)\<lparr>profile_alg_dns := Some x\<rparr>\<rparr>),
      load_profile L cur ''script_profile'' (lookup_prof_script db)
        (\<lambda>x r. r\<lparr>cr_profiles := (cr_profiles r)\<lparr>profile_script := Some x\<rparr>\<rparr>),
      load_routing_ref L db cur]"

definition load_profiles :: "'s cfg_lib \<Rightarrow> cfg_db \<Rightarrow> 's \<Rightarrow> draft \<Rightarrow> cfg_exn + draft" where
  "load_profiles L db cur d = (if cr_action (fst d) = 1 then run_fields (profile_steps L db cur) d else Inr d)"

definition rule_steps :: "'s cfg_env \<Rightarrow> cfg_db \<Rightarrow> 's \<Rightarrow> (draft \<Rightarrow> cfg_exn + draft) list" where
  "rule_steps env db cur =
     (let L = ce_lib env in
      [load_field L (cl_bool L) cur ''disabled'' (\<lambda>x d. ((fst d)\<lparr>cr_disabled := x\<rparr>, snd d)),
       load_field L (cl_str L) cur ''name'' (\<lambda>x d. ((fst d)\<lparr>cr_name := x\<rparr>, snd d)),
       load_proto_ref env db cur,
       load_group L cur ''src'' (find_address db) (\<lambda>x r. r\<lparr>cr_src := cr_src r @ [x]\<rparr>),
       load_group L cur ''sport'' (lookup_port env db) (\<lambda>x r. r\<lparr>cr_src_ports := cr_src_ports r @ [x]\<rparr>),
       load_group L cur ''dst'' (find_address db) (\<lambda>x r. r\<lparr>cr_dst := cr_dst r @ [x]\<rparr>),
       load_group L cur ''dport'' (lookup_port env db) (\<lambda>x r. r\<lparr>cr_dst_ports := cr_dst_ports r @ [x]\<rparr>),
       load_features_refs env db cur,
       load_action L cur,
       load_nat L cur,
       load_profiles L db cur])"

definition load_rule :: "'s cfg_env \<Rightarrow> cfg_db \<Rightarrow> 's \<Rightarrow> cfg_exn + draft" where
  "load_rule env db cur = run_fields (rule_steps env db cur) (fresh_rule, False)"

section \<open>The rule list\<close>

definition policy_key :: "nat \<Rightarrow> string" where
  "policy_key i = ''['' @ dec i @ '']''"

text \<open>The settings from index \<open>i\<close> on.\<close>

fun load_rules :: "'s cfg_env \<Rightarrow> nat \<Rightarrow> (string option \<times> 's) list \<Rightarrow> cfg_db \<Rightarrow> cfg_db \<times> cfg_exn option" where
  "load_rules env i [] db = (db, None)"
| "load_rules env i (e # es) db = (case load_rule env db (snd e) of
     Inl x \<Rightarrow> (db, Some x)
   | Inr (rule, error) \<Rightarrow>
       let db = (if \<not> error then db\<lparr>db_policy_list := db_policy_list db @ [rule],
                                    db_policy := tab_put (policy_key i) rule (db_policy db)\<rparr> else db)
       in load_rules env (i + 1) es db)"

definition load_db_policy :: "'s cfg_env \<Rightarrow> 's \<Rightarrow> cfg_db \<Rightarrow> loaded" where
  "load_db_policy env root db =
     (let L = ce_lib env in case cl_get L root ''policy'' of
        Inl _ \<Rightarrow> (db, Inr 0)
      | Inr s \<Rightarrow> (case load_rules env 0 (cl_entries L s) db of
          (db, Some x) \<Rightarrow> (db, Inl x)
        | (db, None) \<Rightarrow> (db, Inr (length (cl_entries L s)))))"

text \<open>The rules traffic is matched against.\<close>

definition active_rules :: "cfg_db \<Rightarrow> policy_rule list" where
  "active_rules db = map rule_of (db_policy_list db)"

section \<open>Reloading after a change\<close>

text \<open>A section is emptied and loaded again; the rules are loaded again when the loader returned a
  number other than zero.\<close>

definition reload_policy :: "'s cfg_env \<Rightarrow> 's \<Rightarrow> cfg_db \<Rightarrow> cfg_db \<times> (cfg_exn + bool)" where
  "reload_policy env root db = (case load_db_policy env root (fst (cleanup_db_policy db)) of
     (db, r) \<Rightarrow> (db, result_bind r (\<lambda>n. Inr (n \<noteq> 0))))"

definition reload_section :: "(cfg_db \<Rightarrow> cfg_db \<times> nat) \<Rightarrow> ('s cfg_env \<Rightarrow> 's \<Rightarrow> cfg_db \<Rightarrow> loaded) \<Rightarrow> 's cfg_env \<Rightarrow> 's \<Rightarrow> cfg_db \<Rightarrow> cfg_db \<times> (cfg_exn + bool)" where
  "reload_section clear ld env root db = (case ld env root (fst (clear db)) of
     (db, Inl x) \<Rightarrow> (db, Inl x)
   | (db, Inr n) \<Rightarrow> if n \<noteq> 0 then reload_policy env root db else (db, Inr False))"

definition starts_with :: "string \<Rightarrow> string \<Rightarrow> bool" where
  "starts_with p s \<longleftrightarrow> take (length p) s = p"

text \<open>The object sections; the other sections do not touch the tables.\<close>

definition apply_config_change :: "'s cfg_env \<Rightarrow> 's \<Rightarrow> string \<Rightarrow> cfg_db \<Rightarrow> (cfg_db \<times> (cfg_exn + bool)) option" where
  "apply_config_change env root sec db =
     (if list_ex (\<lambda>p. starts_with p sec) [''settings'', ''captures'', ''debug''] then None
      else if starts_with ''policy'' sec then Some (reload_policy env root db)
      else if starts_with ''port_objects'' sec then Some (reload_section cleanup_db_port load_db_port env root db)
      else if starts_with ''proto_objects'' sec then Some (reload_section cleanup_db_proto load_db_proto env root db)
      else if starts_with ''address_objects'' sec then Some (reload_section cleanup_db_address load_db_address env root db)
      else if starts_with ''detection_profiles'' sec
        then Some (reload_section cleanup_db_prof_detection load_db_prof_detection env root db)
      else if starts_with ''content_profiles'' sec
        then Some (reload_section cleanup_db_prof_content load_db_prof_content env root db)
      else if starts_with ''tls_profiles'' sec then Some (reload_section cleanup_db_prof_tls load_db_prof_tls env root db)
      else if starts_with ''alg_dns_profiles'' sec
        then Some (reload_section cleanup_db_prof_alg_dns load_db_prof_alg_dns env root db)
      else if starts_with ''auth_profiles'' sec then Some (reload_section cleanup_db_prof_auth load_db_prof_auth env root db)
      else if starts_with ''routing'' sec then Some (reload_section cleanup_db_routing load_db_routing env root db)
      else if starts_with ''starttls_signatures'' sec \<or> starts_with ''detection_signatures'' sec then None
      else Some (db, Inr False))"

section \<open>Facts\<close>

lemma run_fields_append: "run_fields (fs @ gs) p = result_bind (run_fields fs p) (run_fields gs)"
proof (induction fs arbitrary: p)
  case (Cons f fs)
  then show ?case by (cases "f p") simp_all
qed simp

text \<open>A step keeps a property of drafts.\<close>

definition keeps :: "('p \<Rightarrow> bool) \<Rightarrow> ('p \<Rightarrow> cfg_exn + 'p) \<Rightarrow> bool" where
  "keeps I f \<longleftrightarrow> (\<forall>p p'. I p \<longrightarrow> f p = Inr p' \<longrightarrow> I p')"

lemma keepsI: "(\<And>p p'. I p \<Longrightarrow> f p = Inr p' \<Longrightarrow> I p') \<Longrightarrow> keeps I f"
  unfolding keeps_def by blast

lemma keepsD: "keeps I f \<Longrightarrow> f p = Inr p' \<Longrightarrow> I p \<Longrightarrow> I p'"
  unfolding keeps_def by blast

lemma keeps_run: "list_all (keeps I) fs \<Longrightarrow> keeps I (run_fields fs)"
proof (induction fs)
  case (Cons f fs)
  then have fs: "keeps I f" "keeps I (run_fields fs)" by simp_all
  show ?case
  proof (rule keepsI)
    fix p p' assume "I p" "run_fields (f # fs) p = Inr p'"
    then obtain q where "f p = Inr q" "run_fields fs q = Inr p'" by (cases "f p") simp_all
    then show "I p'" using keepsD[OF fs(1) _ \<open>I p\<close>] keepsD[OF fs(2)] by blast
  qed
qed (rule keepsI, simp)

lemma keeps_field:
  assumes "\<And>x p. I p \<Longrightarrow> I (upd x p)"
  shows "keeps I (load_field L conv cur key upd)"
proof (rule keepsI)
  fix p p' assume "I p" "load_field L conv cur key upd p = Inr p'"
  then obtain v where "p' = (case v of None \<Rightarrow> p | Some x \<Rightarrow> upd x p)" by (auto simp: load_field_def result_bind_Inr_iff)
  then show "I p'" using \<open>I p\<close> assms by (cases v) simp_all
qed

definition keeps_refs :: "(draft \<Rightarrow> bool) \<Rightarrow> (string \<Rightarrow> 'v option) \<Rightarrow> ('v \<Rightarrow> cfg_rule \<Rightarrow> cfg_rule) \<Rightarrow> bool" where
  "keeps_refs I lookup push \<longleftrightarrow> (\<forall>d. I d \<longrightarrow> I (bad_ref d) \<and> (\<forall>n x. lookup n = Some x \<longrightarrow> I (push x (fst d), snd d)))"

lemma keeps_refsI:
  "(\<And>d. I d \<Longrightarrow> I (bad_ref d)) \<Longrightarrow> (\<And>n x d. lookup n = Some x \<Longrightarrow> I d \<Longrightarrow> I (push x (fst d), snd d)) \<Longrightarrow> keeps_refs I lookup push"
  unfolding keeps_refs_def by blast

lemma keeps_refsD:
  "keeps_refs I lookup push \<Longrightarrow> I d \<Longrightarrow> I (bad_ref d)"
  "keeps_refs I lookup push \<Longrightarrow> I d \<Longrightarrow> lookup n = Some x \<Longrightarrow> I (push x (fst d), snd d)"
  unfolding keeps_refs_def by blast+

lemma keeps_add_ref: "keeps_refs I lookup push \<Longrightarrow> I d \<Longrightarrow> I (add_ref lookup push n d)"
  unfolding add_ref_def by (cases "lookup n") (auto intro: keeps_refsD)

lemma keeps_add_refs: "keeps_refs I lookup push \<Longrightarrow> keeps I (add_refs L lookup push es)"
proof (induction es)
  case (Cons e es)
  show ?case
  proof (rule keepsI)
    fix p p' assume "I p" "add_refs L lookup push (e # es) p = Inr p'"
    then obtain n where "add_refs L lookup push es (add_ref lookup push n p) = Inr p'"
      by (auto simp: result_bind_Inr_iff)
    then show "I p'" by (rule keepsD[OF Cons.IH[OF Cons.prems]]) (rule keeps_add_ref[OF Cons.prems \<open>I p\<close>])
  qed
qed (rule keepsI, simp)

lemma keeps_group:
  assumes "keeps_refs I lookup push"
  shows "keeps I (load_group L cur key lookup push)"
proof (rule keepsI)
  fix d d' assume d: "I d" "load_group L cur key lookup push d = Inr d'"
  then obtain sett where *: "(if is_scalar (cl_type L sett) then
         result_bind (load_if_exists L (cl_str L) cur key) (\<lambda>n.
           Inr (case n of None \<Rightarrow> d | Some n \<Rightarrow> add_ref lookup push n d))
       else add_refs L lookup push (cl_entries L sett) d) = Inr d'"
    by (auto simp: load_group_def result_bind_Inr_iff)
  show "I d'"
  proof (cases "is_scalar (cl_type L sett)")
    case True
    then obtain v where "d' = (case v of None \<Rightarrow> d | Some n \<Rightarrow> add_ref lookup push n d)"
      using * by (auto simp: result_bind_Inr_iff)
    then show ?thesis using d(1) keeps_add_ref[OF assms d(1)] by (cases v) simp_all
  next
    case False
    then have "add_refs L lookup push (cl_entries L sett) d = Inr d'" using * by simp
    then show ?thesis by (rule keepsD[OF keeps_add_refs[OF assms] _ d(1)])
  qed
qed

lemma keeps_profile:
  assumes "\<And>n x d. lookup n = Some x \<Longrightarrow> I d \<Longrightarrow> I (put x (fst d), snd d)" "\<And>d. I d \<Longrightarrow> I (fst d, True)"
  shows "keeps I (load_profile L cur key lookup put)"
proof (rule keepsI)
  fix d d' assume d: "I d" "load_profile L cur key lookup put d = Inr d'"
  then obtain v where d': "d' = (case v of None \<Rightarrow> d | Some n \<Rightarrow> (case lookup n of
         Some x \<Rightarrow> (put x (fst d), snd d) | None \<Rightarrow> if n \<noteq> [] then (fst d, True) else d))"
    by (auto simp: load_profile_def result_bind_Inr_iff)
  show "I d'"
  proof (cases v)
    case (Some n)
    then show ?thesis using d' d(1) assms(1)[of n _ d] assms(2)[of d] by (cases "lookup n") simp_all
  qed (simp add: d' d(1))
qed

text \<open>The elements and profiles of a rule come from the tables.\<close>

definition from_tables :: "'s cfg_env \<Rightarrow> cfg_db \<Rightarrow> cfg_rule \<Rightarrow> bool" where
  "from_tables env db r \<longleftrightarrow>
     (\<forall>x\<in>set (cr_src r) \<union> set (cr_dst r). \<exists>n. tab_get (db_address db) n = Some x)
   \<and> (\<forall>x\<in>set (cr_src_ports r) \<union> set (cr_dst_ports r). (\<exists>n. tab_get (db_port db) n = Some x) \<or> x = ([], ce_nullrange env))
   \<and> (\<forall>x\<in>set (cr_features r). \<exists>n. tab_get (db_features db) n = Some x)
   \<and> ((\<exists>n. tab_get (db_proto db) n = Some (cr_proto r)) \<or> cr_proto r = ([], 0))
   \<and> (\<forall>p. profile_detection (cr_profiles r) = Some p \<longrightarrow> (\<exists>n. tab_get (db_prof_detection db) n = Some p))
   \<and> (\<forall>p. profile_content (cr_profiles r) = Some p \<longrightarrow> (\<exists>n. tab_get (db_prof_content db) n = Some p))
   \<and> (\<forall>p. profile_tls (cr_profiles r) = Some p \<longrightarrow> (\<exists>n. tab_get (db_prof_tls db) n = Some p))
   \<and> (\<forall>p. profile_alg_dns (cr_profiles r) = Some p \<longrightarrow> (\<exists>n. tab_get (db_prof_alg_dns db) n = Some p))
   \<and> (\<forall>p. profile_script (cr_profiles r) = Some p \<longrightarrow> (\<exists>n. tab_get (db_prof_script db) n = Some p))
   \<and> (\<forall>p. profile_routing (cr_profiles r) = Some p \<longrightarrow> (\<exists>n. tab_get (db_routing db) n = Some p))
   \<and> (\<forall>p. cr_auth r = Some p \<longrightarrow> (\<exists>n. tab_get (db_prof_auth db) n = Some p))"

lemmas lookup_defs = find_address_def lookup_port_def lookup_features_def lookup_proto_def lookup_prof_content_def
  lookup_prof_detection_def lookup_prof_tls_def lookup_prof_alg_dns_def lookup_prof_script_def lookup_prof_auth_def
  lookup_prof_routing_def

lemma from_tables_fresh: "from_tables env db fresh_rule"
  by (simp add: from_tables_def fresh_rule_def no_profiles_def)

lemma from_tables_bad: "from_tables env db (fst d) \<Longrightarrow> from_tables env db (fst (bad_ref d))"
  by (simp add: from_tables_def bad_ref_def)

lemma keeps_routing:
  assumes "\<And>n x d. lookup_prof_routing db n = Some x \<Longrightarrow> I d
      \<Longrightarrow> I ((fst d)\<lparr>cr_profiles := (cr_profiles (fst d))\<lparr>profile_routing := Some x\<rparr>\<rparr>, snd d)"
    and "\<And>d. I d \<Longrightarrow> I (fst d, True)"
  shows "keeps I (load_routing_ref L db cur)"
proof (rule keepsI)
  fix d d' assume d: "I d" "load_routing_ref L db cur d = Inr d'"
  then obtain v where d': "d' = (case v of None \<Rightarrow> d | Some n \<Rightarrow> let n = (if n = [] then ''none'' else n) in
         if n = ''none'' then d
         else (case lookup_prof_routing db n of
             Some x \<Rightarrow> ((fst d)\<lparr>cr_profiles := (cr_profiles (fst d))\<lparr>profile_routing := Some x\<rparr>\<rparr>, snd d)
           | None \<Rightarrow> (fst d, True)))"
    by (auto simp: load_routing_ref_def result_bind_Inr_iff)
  show "I d'"
  proof (cases v)
    case (Some n)
    then show ?thesis using d' d(1) assms(1)[of n _ d] assms(2)[of d] by (cases "lookup_prof_routing db n") (simp_all add: Let_def)
  qed (simp add: d' d(1))
qed

lemma keeps_proto:
  assumes "keeps_refs I (lookup_proto db) (\<lambda>x r. r\<lparr>cr_proto := x\<rparr>)"
  shows "keeps I (load_proto_ref env db cur)"
proof (rule keepsI)
  fix d d' assume d: "I d" "load_proto_ref env db cur d = Inr d'"
  then obtain v where "d' = (case v of None \<Rightarrow> d | Some n \<Rightarrow> add_ref (lookup_proto db) (\<lambda>x r. r\<lparr>cr_proto := x\<rparr>) n d)"
    by (auto simp: load_proto_ref_def Let_def result_bind_Inr_iff)
  then show "I d'" using d(1) keeps_add_ref[OF assms d(1)] by (cases v) simp_all
qed

lemma keeps_features:
  assumes "keeps_refs I (lookup_features db) (\<lambda>x r. r\<lparr>cr_features := cr_features r @ [x]\<rparr>)"
  shows "keeps I (load_features_refs env db cur)"
proof (rule keepsI)
  fix d d' assume d: "I d" "load_features_refs env db cur d = Inr d'"
  then have "d' = d \<or> (\<exists>es. add_refs (ce_lib env) (lookup_features db) (\<lambda>x r. r\<lparr>cr_features := cr_features r @ [x]\<rparr>) es d = Inr d')"
    by (cases "cl_get (ce_lib env) cur ''features''") (auto simp: load_features_refs_def Let_def split: if_splits)
  then show "I d'" using d(1) keepsD[OF keeps_add_refs[OF assms] _ d(1)] by blast
qed

lemma load_action_cases:
  assumes "load_action L cur d = Inr d'"
  shows "d' = ((fst d)\<lparr>cr_action := POLICY_ACTION_DENY, cr_action_name := ''deny''\<rparr>, snd d)
    \<or> d' = ((fst d)\<lparr>cr_action := POLICY_ACTION_PASS, cr_action_name := ''accept''\<rparr>, snd d)
    \<or> d' = ((fst d)\<lparr>cr_action := POLICY_ACTION_DENY\<rparr>, True)"
proof -
  from assms obtain v where "d' = (case v of
       None \<Rightarrow> ((fst d)\<lparr>cr_action := POLICY_ACTION_DENY, cr_action_name := ''deny''\<rparr>, snd d)
     | Some a \<Rightarrow>
         if a = ''deny'' then ((fst d)\<lparr>cr_action_name := a, cr_action := POLICY_ACTION_DENY\<rparr>, snd d)
         else if a = ''accept'' then ((fst d)\<lparr>cr_action_name := a, cr_action := POLICY_ACTION_PASS\<rparr>, snd d)
         else ((fst d)\<lparr>cr_action := POLICY_ACTION_DENY\<rparr>, True))"
    by (auto simp: load_action_def result_bind_Inr_iff)
  then show ?thesis by (cases v) (simp_all split: if_splits)
qed

lemma load_nat_cases:
  assumes "load_nat L cur d = Inr d'"
  shows "d' = ((fst d)\<lparr>cr_nat := POLICY_NAT_NONE\<rparr>, snd d)
    \<or> d' = ((fst d)\<lparr>cr_nat := POLICY_NAT_NONE, cr_nat_name := ''none''\<rparr>, snd d)
    \<or> d' = ((fst d)\<lparr>cr_nat := POLICY_NAT_AUTO, cr_nat_name := ''auto''\<rparr>, snd d)
    \<or> d' = ((fst d)\<lparr>cr_nat := POLICY_NAT_NONE, cr_nat_name := ''none''\<rparr>, True)"
proof -
  from assms obtain v where "d' = (case v of
       None \<Rightarrow> ((fst d)\<lparr>cr_nat := POLICY_NAT_NONE\<rparr>, snd d)
     | Some n \<Rightarrow>
         if n = ''none'' then ((fst d)\<lparr>cr_nat_name := n, cr_nat := POLICY_NAT_NONE\<rparr>, snd d)
         else if n = ''auto'' then ((fst d)\<lparr>cr_nat_name := n, cr_nat := POLICY_NAT_AUTO\<rparr>, snd d)
         else ((fst d)\<lparr>cr_nat_name := ''none'', cr_nat := POLICY_NAT_NONE\<rparr>, True))"
    by (auto simp: load_nat_def result_bind_Inr_iff)
  then show ?thesis by (cases v) (simp_all split: if_splits)
qed

lemma keeps_action:
  assumes "\<And>d a n. I d \<Longrightarrow> I ((fst d)\<lparr>cr_action := a, cr_action_name := n\<rparr>, snd d)"
    and "\<And>d a. I d \<Longrightarrow> I ((fst d)\<lparr>cr_action := a\<rparr>, True)"
  shows "keeps I (load_action L cur)"
  by (rule keepsI, drule load_action_cases) (use assms in blast)

lemma keeps_nat:
  assumes "\<And>d a. I d \<Longrightarrow> I ((fst d)\<lparr>cr_nat := a\<rparr>, snd d)"
    and "\<And>d a n. I d \<Longrightarrow> I ((fst d)\<lparr>cr_nat := a, cr_nat_name := n\<rparr>, snd d)"
    and "\<And>d a n. I d \<Longrightarrow> I ((fst d)\<lparr>cr_nat := a, cr_nat_name := n\<rparr>, True)"
  shows "keeps I (load_nat L cur)"
  by (rule keepsI, drule load_nat_cases) (use assms in blast)

lemma keeps_profiles: "list_all (keeps I) (profile_steps L db cur) \<Longrightarrow> keeps I (load_profiles L db cur)"
  by (rule keepsI) (auto simp: load_profiles_def dest: keepsD[OF keeps_run] split: if_splits)

lemmas keeps_intros = keeps_field keeps_proto keeps_group keeps_features keeps_action keeps_nat keeps_profiles
  keeps_profile keeps_routing keeps_refsI

lemma load_rule_from_tables:
  assumes "load_rule env db cur = Inr d"
  shows "from_tables env db (fst d)"
proof -
  let ?I = "\<lambda>d. from_tables env db (fst d)"
  note ft = from_tables_def lookup_defs bad_ref_def
  have "list_all (keeps ?I) (profile_steps L db cur)" for L
    unfolding profile_steps_def list.pred_inject
    by (intro conjI keeps_intros) (auto simp: ft)
  then have "list_all (keeps ?I) (rule_steps env db cur)"
    unfolding rule_steps_def Let_def list.pred_inject
    by (intro conjI keeps_intros) (auto simp: ft split: option.splits)
  then show ?thesis using assms keepsD[OF keeps_run] from_tables_fresh by (fastforce simp: load_rule_def)
qed

subsection \<open>Action and profiles of an accepted rule\<close>

definition action_ok :: "cfg_rule \<Rightarrow> bool" where
  "action_ok r \<longleftrightarrow> (cr_action r = POLICY_ACTION_PASS \<and> cr_action_name r = ''accept'')
     \<or> (cr_action r = POLICY_ACTION_DENY \<and> cr_action_name r = ''deny'' \<and> cr_profiles r = no_profiles \<and> cr_auth r = None)"

definition bare :: "draft \<Rightarrow> bool" where
  "bare d \<longleftrightarrow> cr_profiles (fst d) = no_profiles \<and> cr_auth (fst d) = None"

definition early_steps :: "'s cfg_env \<Rightarrow> cfg_db \<Rightarrow> 's \<Rightarrow> (draft \<Rightarrow> cfg_exn + draft) list" where
  "early_steps env db cur = take 8 (rule_steps env db cur)"

lemma rule_steps_split:
  "rule_steps env db cur = early_steps env db cur
     @ [load_action (ce_lib env) cur, load_nat (ce_lib env) cur, load_profiles (ce_lib env) db cur]"
  by (simp add: early_steps_def rule_steps_def Let_def)

lemma load_rule_stages:
  assumes "load_rule env db cur = Inr d"
  obtains d1 d2 d3 where "run_fields (early_steps env db cur) (fresh_rule, False) = Inr d1"
    "load_action (ce_lib env) cur d1 = Inr d2" "load_nat (ce_lib env) cur d2 = Inr d3"
    "load_profiles (ce_lib env) db cur d3 = Inr d"
  using assms by (auto simp: load_rule_def rule_steps_split run_fields_append result_bind_Inr_iff)

lemma early_bare:
  assumes "run_fields (early_steps env db cur) (fresh_rule, False) = Inr d"
  shows "bare d"
proof -
  have "list_all (keeps bare) (early_steps env db cur)"
    unfolding early_steps_def rule_steps_def Let_def
    by simp (intro conjI keeps_intros; simp add: bare_def bad_ref_def)
  moreover have "bare (fresh_rule, False)" by (simp add: bare_def fresh_rule_def)
  ultimately show ?thesis using keepsD[OF keeps_run assms] by blast
qed

lemma keeps_error: "keeps (\<lambda>d. snd d) (load_profiles L db cur)"
  unfolding profile_steps_def
  by (intro keeps_profiles, unfold profile_steps_def list.pred_inject, intro conjI keeps_intros; simp)

lemma keeps_action_fields: "keeps (\<lambda>d. cr_action (fst d) = a \<and> cr_action_name (fst d) = n) (load_profiles L db cur)"
  by (intro keeps_profiles, unfold profile_steps_def list.pred_inject, intro conjI keeps_intros; simp)

lemma load_rule_action:
  assumes "load_rule env db cur = Inr (r, False)"
  shows "action_ok r"
proof -
  obtain d1 d2 d3 where d: "run_fields (early_steps env db cur) (fresh_rule, False) = Inr d1"
    "load_action (ce_lib env) cur d1 = Inr d2" "load_nat (ce_lib env) cur d2 = Inr d3"
    "load_profiles (ce_lib env) db cur d3 = Inr (r, False)"
    using load_rule_stages[OF assms] .
  have ok: "\<not> snd d3" using keepsD[OF keeps_error d(4)] by auto
  then have ok2: "\<not> snd d2" using load_nat_cases[OF d(3)] by auto
  have bare1: "bare d1" by (rule early_bare[OF d(1)])
  have a2: "bare d2 \<and> (cr_action (fst d2) = POLICY_ACTION_DENY \<and> cr_action_name (fst d2) = ''deny''
      \<or> cr_action (fst d2) = POLICY_ACTION_PASS \<and> cr_action_name (fst d2) = ''accept'')"
    using load_action_cases[OF d(2)] ok2 bare1 by (auto simp: bare_def)
  then have a3: "bare d3" "cr_action (fst d3) = cr_action (fst d2)" "cr_action_name (fst d3) = cr_action_name (fst d2)"
    using load_nat_cases[OF d(3)] by (auto simp: bare_def)
  show ?thesis
  proof (cases "cr_action (fst d3) = 1")
    case True
    then have "cr_action_name (fst d3) = ''accept''" using a2 a3 by (auto simp: POLICY_ACTION_DENY_def)
    then show ?thesis using keepsD[OF keeps_action_fields d(4), of 1 "''accept''"] True by (simp add: action_ok_def POLICY_ACTION_PASS_def)
  next
    case False
    then have "d3 = (r, False)" using d(4) by (simp add: load_profiles_def)
    then show ?thesis using a2 a3 False by (auto simp: action_ok_def bare_def POLICY_ACTION_PASS_def)
  qed
qed

subsection \<open>The loop over the rules\<close>

definition accepted :: "'s cfg_env \<Rightarrow> cfg_db \<Rightarrow> (string option \<times> 's) list \<Rightarrow> cfg_rule list" where
  "accepted env db es = concat (map (\<lambda>e. case load_rule env db (snd e) of Inr (r, False) \<Rightarrow> [r] | _ \<Rightarrow> []) es)"

lemma lookup_other_rules [simp]:
  "find_address (db\<lparr>db_policy_list := x, db_policy := y\<rparr>) = find_address db"
  "lookup_port env (db\<lparr>db_policy_list := x, db_policy := y\<rparr>) = lookup_port env db"
  "lookup_features (db\<lparr>db_policy_list := x, db_policy := y\<rparr>) = lookup_features db"
  "lookup_proto (db\<lparr>db_policy_list := x, db_policy := y\<rparr>) = lookup_proto db"
  "lookup_prof_content (db\<lparr>db_policy_list := x, db_policy := y\<rparr>) = lookup_prof_content db"
  "lookup_prof_detection (db\<lparr>db_policy_list := x, db_policy := y\<rparr>) = lookup_prof_detection db"
  "lookup_prof_tls (db\<lparr>db_policy_list := x, db_policy := y\<rparr>) = lookup_prof_tls db"
  "lookup_prof_alg_dns (db\<lparr>db_policy_list := x, db_policy := y\<rparr>) = lookup_prof_alg_dns db"
  "lookup_prof_script (db\<lparr>db_policy_list := x, db_policy := y\<rparr>) = lookup_prof_script db"
  "lookup_prof_auth (db\<lparr>db_policy_list := x, db_policy := y\<rparr>) = lookup_prof_auth db"
  "lookup_prof_routing (db\<lparr>db_policy_list := x, db_policy := y\<rparr>) = lookup_prof_routing db"
  by (simp_all add: fun_eq_iff lookup_defs)

lemma load_rule_other_rules [simp]: "load_rule env (db\<lparr>db_policy_list := x, db_policy := y\<rparr>) cur = load_rule env db cur"
proof -
  let ?db = "db\<lparr>db_policy_list := x, db_policy := y\<rparr>"
  have steps: "load_proto_ref env ?db cur = load_proto_ref env db cur"
    "load_features_refs env ?db cur = load_features_refs env db cur"
    "load_routing_ref L ?db cur = load_routing_ref L db cur" for L
    unfolding load_proto_ref_def[abs_def] load_features_refs_def[abs_def] load_routing_ref_def[abs_def] lookup_other_rules
    by (rule refl)+
  have "load_profiles L ?db cur = load_profiles L db cur" for L
    unfolding load_profiles_def[abs_def] profile_steps_def lookup_other_rules steps by (rule refl)
  then show ?thesis
    unfolding load_rule_def rule_steps_def lookup_other_rules steps by (simp only:)
qed

lemma load_rules_list:
  assumes "load_rules env i es db = (db', None)"
  shows "\<exists>y. db' = db\<lparr>db_policy_list := db_policy_list db @ accepted env db es, db_policy := y\<rparr>"
  using assms
proof (induction es arbitrary: i db)
  case Nil
  have "db = db\<lparr>db_policy_list := db_policy_list db, db_policy := db_policy db\<rparr>" by simp
  then show ?case using Nil by (auto simp: accepted_def intro!: exI[of _ "db_policy db"])
next
  case (Cons e es)
  from Cons.prems obtain r err where r: "load_rule env db (snd e) = Inr (r, err)"
    by (auto split: sum.splits)
  let ?db = "if \<not> err then db\<lparr>db_policy_list := db_policy_list db @ [r],
      db_policy := tab_put (policy_key i) r (db_policy db)\<rparr> else db"
  have "load_rules env (i + 1) es ?db = (db', None)" using Cons.prems r by (simp add: Let_def)
  from Cons.IH[OF this] obtain y
    where "db' = ?db\<lparr>db_policy_list := db_policy_list ?db @ accepted env ?db es, db_policy := y\<rparr>" by blast
  then show ?case using r by (cases err) (auto simp: accepted_def)
qed

text \<open>The rules a reload gives are the valid settings of the section, in their order.\<close>

lemma reload_policy_list:
  assumes "reload_policy env root db = (db', Inr b)"
  shows "db_policy_list db' = (case cl_get (ce_lib env) root ''policy'' of
      Inl _ \<Rightarrow> [] | Inr s \<Rightarrow> accepted env db (cl_entries (ce_lib env) s))"
    and "\<exists>x y. db' = db\<lparr>db_policy_list := x, db_policy := y\<rparr>"
proof -
  let ?db = "db\<lparr>db_policy_list := [], db_policy := []\<rparr>"
  have *: "db_policy_list db' = (case cl_get (ce_lib env) root ''policy'' of
      Inl _ \<Rightarrow> [] | Inr s \<Rightarrow> accepted env db (cl_entries (ce_lib env) s))
    \<and> (\<exists>x y. db' = db\<lparr>db_policy_list := x, db_policy := y\<rparr>)"
  proof (cases "cl_get (ce_lib env) root ''policy''")
    case (Inl x)
    then show ?thesis using assms
      by (auto simp: reload_policy_def load_db_policy_def cleanup_db_policy_def Let_def)
  next
    case (Inr s)
    from assms Inr have "load_rules env 0 (cl_entries (ce_lib env) s) ?db = (db', None)"
      by (auto simp: reload_policy_def load_db_policy_def cleanup_db_policy_def Let_def split: prod.splits option.splits)
    from load_rules_list[OF this] obtain y where "db' = ?db\<lparr>db_policy_list := accepted env ?db (cl_entries (ce_lib env) s), db_policy := y\<rparr>"
      by auto
    then show ?thesis using Inr by (auto simp: accepted_def)
  qed
  then show "db_policy_list db' = (case cl_get (ce_lib env) root ''policy'' of
      Inl _ \<Rightarrow> [] | Inr s \<Rightarrow> accepted env db (cl_entries (ce_lib env) s))"
    and "\<exists>x y. db' = db\<lparr>db_policy_list := x, db_policy := y\<rparr>" by blast+
qed

lemma accepted_rule:
  assumes "r \<in> set (accepted env db es)"
  shows "\<exists>cur. load_rule env db cur = Inr (r, False)"
proof -
  from assms obtain e where e: "e \<in> set es" "r \<in> set (case load_rule env db (snd e) of Inr (r, False) \<Rightarrow> [r] | _ \<Rightarrow> [])"
    by (auto simp: accepted_def)
  then show ?thesis by (auto split: sum.splits prod.splits bool.splits intro!: exI[of _ "snd e"])
qed

lemma early_proto:
  assumes "run_fields (early_steps env db cur) (fresh_rule, False) = Inr d"
    and "load_if_exists (ce_lib env) (cl_str (ce_lib env)) cur ''proto'' = Inr (Some n)"
  shows "lookup_proto db n = Some (cr_proto (fst d))"
proof -
  let ?L = "ce_lib env"
  let ?a = "take 2 (rule_steps env db cur)" and ?b = "take 5 (drop 3 (rule_steps env db cur))"
  have "early_steps env db cur = ?a @ [load_proto_ref env db cur] @ ?b"
    by (simp add: early_steps_def rule_steps_def Let_def)
  then obtain d1 d2 where d: "load_proto_ref env db cur d1 = Inr d2" "run_fields ?b d2 = Inr d"
    using assms(1) by (auto simp: run_fields_append result_bind_Inr_iff)
  obtain x where x: "lookup_proto db n = Some x" by (cases "tab_get (db_proto db) n") (simp_all add: lookup_proto_def)
  have "cr_proto (fst d2) = x" using d(1) assms(2) x by (auto simp: load_proto_ref_def Let_def add_ref_def)
  have "list_all (keeps (\<lambda>d. cr_proto (fst d) = x)) ?b"
    unfolding rule_steps_def Let_def
    by simp (intro conjI keeps_intros; simp add: bad_ref_def)
  from keepsD[OF keeps_run[OF this] d(2)] show ?thesis using \<open>cr_proto (fst d2) = x\<close> x by simp
qed

lemma late_proto:
  "keeps (\<lambda>d. cr_proto (fst d) = x) (load_action L cur)" "keeps (\<lambda>d. cr_proto (fst d) = x) (load_nat L cur)"
  "keeps (\<lambda>d. cr_proto (fst d) = x) (load_profiles L db cur)"
proof -
  show "keeps (\<lambda>d. cr_proto (fst d) = x) (load_action L cur)" by (rule keeps_action) simp_all
  show "keeps (\<lambda>d. cr_proto (fst d) = x) (load_nat L cur)" by (rule keeps_nat) simp_all
  show "keeps (\<lambda>d. cr_proto (fst d) = x) (load_profiles L db cur)"
    by (intro keeps_profiles, unfold profile_steps_def list.pred_inject, intro conjI keeps_intros; simp)
qed

lemma load_rule_proto:
  assumes "load_rule env db cur = Inr d"
    and "load_if_exists (ce_lib env) (cl_str (ce_lib env)) cur ''proto'' = Inr (Some n)"
  shows "lookup_proto db n = Some (cr_proto (fst d))"
proof -
  obtain d1 d2 d3 where d: "run_fields (early_steps env db cur) (fresh_rule, False) = Inr d1"
    "load_action (ce_lib env) cur d1 = Inr d2" "load_nat (ce_lib env) cur d2 = Inr d3"
    "load_profiles (ce_lib env) db cur d3 = Inr d"
    using load_rule_stages[OF assms(1)] .
  have "cr_proto (fst d) = cr_proto (fst d1)"
    using keepsD[OF late_proto(1)[of "cr_proto (fst d1)"] d(2)] keepsD[OF late_proto(2)[of "cr_proto (fst d1)"] d(3)]
      keepsD[OF late_proto(3)[of "cr_proto (fst d1)"] d(4)] by simp
  then show ?thesis using early_proto[OF d(1) assms(2)] by simp
qed

lemma any_res_map: "any_res p (map g xs) = any_res (\<lambda>x. p (g x)) xs"
  by (induction xs) (simp_all cong: if_cong)

lemma zero_proto_ignores_l4:
  assumes "rule_proto r = 0"
  shows "match_lr pe r (map (\<lambda>c. c\<lparr>cx_l4 := f c\<rparr>) l, ri) = match_lr pe r (l, ri)"
proof -
  have "match_addrgrp_cx pe xs (c\<lparr>cx_l4 := v\<rparr>) = match_addrgrp_cx pe xs c"
    "match_rangegrp_cx pe ys (c\<lparr>cx_l4 := v\<rparr>) = match_rangegrp_cx pe ys c" for xs ys c v
    by (simp_all add: match_addrgrp_cx_def match_rangegrp_cx_def)
  then show ?thesis using assms
    by (simp add: match_lr_def lr_checks_def match_addrgrp_vecx_def match_rangegrp_vecx_def any_res_map list_ex_iff)
qed

section \<open>Properties\<close>

text \<open>C4: A reload that ends normally makes the rule list exactly the settings of the policy section
  that load without an error, in their order; every address, port, protocol, feature and profile of
  a rule is one of the tables (or the empty range and the protocol zero that stand for unknown
  names), and every rule accepts or denies as its name says, a denying one without profiles.\<close>

theorem reloaded_rules_valid:
  assumes "reload_policy env root db = (db', Inr b)" "cl_get (ce_lib env) root ''policy'' = Inr s"
  shows "db_policy_list db' = accepted env db (cl_entries (ce_lib env) s)
    \<and> (\<forall>r\<in>set (db_policy_list db'). from_tables env db' r \<and> action_ok r)"
proof -
  have list: "db_policy_list db' = accepted env db (cl_entries (ce_lib env) s)"
    using reload_policy_list(1)[OF assms(1)] assms(2) by simp
  obtain x y where db': "db' = db\<lparr>db_policy_list := x, db_policy := y\<rparr>" using reload_policy_list(2)[OF assms(1)] by blast
  have "from_tables env db' r \<and> action_ok r" if r: "r \<in> set (db_policy_list db')" for r
  proof -
    obtain cur where "load_rule env db cur = Inr (r, False)"
      using accepted_rule[of r env db "cl_entries (ce_lib env) s"] r list by auto
    then show ?thesis using load_rule_from_tables[of env db cur "(r, False)"] load_rule_action
      by (auto simp: db' from_tables_def)
  qed
  then show ?thesis using list by blast
qed

text \<open>A rule that names an unknown protocol is loaded without an error and then matches whatever
  the transport of the connections is.\<close>

theorem unknown_protocol_matches_any:
  assumes "load_rule env db cur = Inr (r, False)"
    and "load_if_exists (ce_lib env) (cl_str (ce_lib env)) cur ''proto'' = Inr (Some n)" "tab_get (db_proto db) n = None"
  shows "cr_proto r = ([], 0)
    \<and> match_lr pe (rule_of r) (map (\<lambda>c. c\<lparr>cx_l4 := f c\<rparr>) l, ri) = match_lr pe (rule_of r) (l, ri)"
proof -
  have "cr_proto r = ([], 0)" using load_rule_proto[OF assms(1,2)] assms(3) by (simp add: lookup_proto_def)
  then show ?thesis using zero_proto_ignores_l4[of "rule_of r" pe f l ri] by (simp add: rule_of_def)
qed

text \<open>C29: When the last address object is removed, the table is emptied but the rules are not loaded
  again: they go on matching by objects that no longer exist.\<close>

theorem last_object_keeps_rules:
  assumes "cl_get (ce_lib env) root ''address_objects'' = Inr s" "cl_entries (ce_lib env) s = []"
  shows "apply_config_change env root ''address_objects'' db = Some (db\<lparr>db_address := []\<rparr>, Inr False)"
  using assms
  by (simp add: apply_config_change_def starts_with_def reload_section_def cleanup_db_address_def
      load_db_address_def load_section_def)

text \<open>After a change of the TLS profiles the rules have profiles of the new table, but the
  authentication profiles of the rules, with the TLS profiles of their groups, are still those loaded
  before the change.\<close>

theorem group_profiles_stay_stale:
  assumes "apply_config_change env root ''tls_profiles'' db = Some (db', Inr True)" "r \<in> set (db_policy_list db')"
  shows "(\<forall>p. profile_tls (cr_profiles r) = Some p \<longrightarrow> (\<exists>n. tab_get (db_prof_tls db') n = Some p))
    \<and> (\<forall>a. cr_auth r = Some a \<longrightarrow> (\<exists>n. tab_get (db_prof_auth db) n = Some a))"
proof -
  have "reload_section cleanup_db_prof_tls load_db_prof_tls env root db = (db', Inr True)"
    using assms(1) by (simp add: apply_config_change_def starts_with_def)
  then obtain db1 where db1: "fst (load_db_prof_tls env root (db\<lparr>db_prof_tls := []\<rparr>)) = db1"
      "reload_policy env root db1 = (db', Inr True)"
    by (auto simp: reload_section_def cleanup_db_prof_tls_def split: prod.splits sum.splits if_splits)
  have auth: "db_prof_auth db1 = db_prof_auth db"
    using db1(1) by (auto simp: load_db_prof_tls_def split: prod.splits)
  obtain x y where db': "db' = db1\<lparr>db_policy_list := x, db_policy := y\<rparr>" using reload_policy_list(2)[OF db1(2)] by blast
  have "r \<in> set (case cl_get (ce_lib env) root ''policy'' of Inl _ \<Rightarrow> [] | Inr s \<Rightarrow> accepted env db1 (cl_entries (ce_lib env) s))"
    using assms(2) reload_policy_list(1)[OF db1(2)] by simp
  then obtain s where "r \<in> set (accepted env db1 (cl_entries (ce_lib env) s))"
    by (cases "cl_get (ce_lib env) root ''policy''") simp_all
  then obtain cur where "load_rule env db1 cur = Inr (r, False)" using accepted_rule by blast
  from load_rule_from_tables[OF this] show ?thesis by (simp add: from_tables_def db' auth)
qed

section \<open>Witnesses\<close>

definition node_env :: "node cfg_env" where
  "node_env = \<lparr>ce_lib = node_lib, ce_addr = \<lparr>ae_from_str = (\<lambda>_. None), ae_to_str = (\<lambda>_. []), ae_dns_cache = (\<lambda>_. None)\<rparr>,
     ce_nullrange = (0, 0), ce_tolower = map tolower\<rparr>"

definition empty_db :: cfg_db where
  "empty_db = \<lparr>db_address = [], db_port = [], db_proto = [], db_features = [], db_prof_detection = [], db_prof_content = [],
     db_prof_tls = [], db_prof_alg_dns = [], db_prof_script = [], db_prof_auth = [], db_routing = [], db_policy_list = [],
     db_policy = [], db_portal = \<lparr>portal_address = [], portal_address6 = [], portal_port_http = [], portal_port_https = []\<rparr>\<rparr>"

definition any_rule_node :: "string \<Rightarrow> node" where
  "any_rule_node proto = NAgg TypeGroup [(Some ''proto'', NStr proto), (Some ''src'', NAgg TypeArray []),
     (Some ''sport'', NAgg TypeArray []), (Some ''dst'', NAgg TypeArray []), (Some ''dport'', NAgg TypeArray []),
     (Some ''action'', NStr ''accept''), (Some ''nat'', NStr ''auto'')]"

definition any_rule :: cfg_rule where
  "any_rule = fresh_rule\<lparr>cr_action := 1, cr_action_name := ''accept'', cr_nat := 1, cr_nat_name := ''auto''\<rparr>"

definition node_root :: "node \<Rightarrow> node" where
  "node_root rule = NAgg TypeGroup [(Some ''address_objects'', NAgg TypeGroup []),
     (Some ''tls_profiles'', NAgg TypeGroup [(Some ''t'', NAgg TypeGroup [(Some ''inspect'', NBool True)])]),
     (Some ''policy'', NAgg TypeList [(None, rule)])]"

lemma any_rule_loads: "load_rule node_env empty_db (any_rule_node ''tpc'') = Inr (any_rule, False)"
  by code_simp

definition reloaded_db :: "cfg_db" where
  "reloaded_db = empty_db\<lparr>db_policy_list := [any_rule], db_policy := [(''[0]'', any_rule)]\<rparr>"

lemma root_reloads: "reload_policy node_env (node_root (any_rule_node ''tpc'')) empty_db = (reloaded_db, Inr True)"
  by code_simp

definition old_auth :: ProfileAuth where
  "old_auth = \<lparr>pa_flags = \<lparr>auth_name = ''a'', auth_authenticate = True, auth_resolve = False\<rparr>,
     sub_policies = [\<lparr>sub_name = ''g'', sub_profiles = no_profiles\<lparr>profile_tls := Some (default_tls ''t'')\<rparr>\<rparr>]\<rparr>"

definition auth_rule_node :: node where
  "auth_rule_node = NAgg TypeGroup (node_entries (any_rule_node ''tpc'')
     @ [(Some ''tls_profile'', NStr ''t''), (Some ''auth_profile'', NStr ''a'')])"

definition auth_rule :: cfg_rule where
  "auth_rule = any_rule\<lparr>cr_profiles := no_profiles\<lparr>profile_tls := Some ((default_tls ''t'')\<lparr>tls_inspect := True\<rparr>)\<rparr>,
     cr_auth := Some old_auth\<rparr>"

lemma root_tls_change: "apply_config_change node_env (node_root auth_rule_node) ''tls_profiles''
      (empty_db\<lparr>db_prof_tls := [(''t'', default_tls ''t'')], db_prof_auth := [(''a'', old_auth)]\<rparr>)
    = Some (empty_db\<lparr>db_prof_tls := [(''t'', (default_tls ''t'')\<lparr>tls_inspect := True\<rparr>)], db_prof_auth := [(''a'', old_auth)],
        db_policy_list := [auth_rule], db_policy := [(''[0]'', auth_rule)]\<rparr>, Inr True)"
  by code_simp

theorem reloaded_rules_valid_witness:
  "db_policy_list reloaded_db = accepted node_env empty_db [(None, any_rule_node ''tpc'')] \<and> action_ok any_rule"
proof -
  have "cl_get (ce_lib node_env) (node_root (any_rule_node ''tpc'')) ''policy'' = Inr (NAgg TypeList [(None, any_rule_node ''tpc'')])"
    by (simp add: node_env_def node_lib_def node_root_def)
  from reloaded_rules_valid[OF root_reloads this] show ?thesis
    by (simp add: node_env_def node_lib_def reloaded_db_def)
qed

theorem unknown_protocol_matches_any_witness:
  "match_lr \<lparr>pe_addr = ce_addr node_env, pe_safe_val = (\<lambda>_. 80)\<rparr> (rule_of any_rule)
     ([\<lparr>cx_host = ''10.0.0.1'', cx_port = ''80'', cx_l4 = Some SOCK_DGRAM\<rparr>], [])
   = match_lr \<lparr>pe_addr = ce_addr node_env, pe_safe_val = (\<lambda>_. 80)\<rparr> (rule_of any_rule)
     ([\<lparr>cx_host = ''10.0.0.1'', cx_port = ''80'', cx_l4 = Some SOCK_STREAM\<rparr>], [])"
proof -
  have "load_if_exists (ce_lib node_env) (cl_str (ce_lib node_env)) (any_rule_node ''tpc'') ''proto'' = Inr (Some ''tpc'')"
    "tab_get (db_proto empty_db) ''tpc'' = None"
    by (simp_all add: node_env_def node_lib_def any_rule_node_def load_if_exists_def cfg_exists_def empty_db_def tab_get_def)
  from unknown_protocol_matches_any[OF any_rule_loads this, of _ "\<lambda>_. Some SOCK_DGRAM"
      "[\<lparr>cx_host = ''10.0.0.1'', cx_port = ''80'', cx_l4 = Some SOCK_STREAM\<rparr>]" "[]"]
  show ?thesis by simp
qed

theorem last_object_keeps_rules_witness:
  "apply_config_change node_env (node_root (any_rule_node ''tpc'')) ''address_objects'' reloaded_db
     = Some (reloaded_db\<lparr>db_address := []\<rparr>, Inr False)"
  by (rule last_object_keeps_rules[where s = "NAgg TypeGroup []"]) (simp_all add: node_env_def node_lib_def node_root_def)

theorem group_profiles_stay_stale_witness:
  "cr_auth auth_rule = Some old_auth
   \<and> (\<exists>n. tab_get (db_prof_tls (empty_db\<lparr>db_prof_tls := [(''t'', (default_tls ''t'')\<lparr>tls_inspect := True\<rparr>)]\<rparr>)) n
        = Some ((default_tls ''t'')\<lparr>tls_inspect := True\<rparr>))
   \<and> (\<exists>n. tab_get (db_prof_auth (empty_db\<lparr>db_prof_auth := [(''a'', old_auth)]\<rparr>)) n = Some old_auth)"
  using group_profiles_stay_stale[OF root_tls_change, of auth_rule] by (simp add: auth_rule_def)

end
