(* ===== verification/CfgSave.thy ===== *)
theory CfgSave
  imports CfgPolicy CidrText
begin

text \<open>
  Writing the tables back (\<open>save_\<close> functions of \<open>src/src/service/cfgapi/cfgapi.cpp\<close>), new entries
  (\<open>new_\<close> functions, \<open>_apply_new_entry\<close>) and moving a rule (\<open>move_policy\<close>), with the round trips
  through the loaders.
\<close>

section \<open>Sections\<close>

text \<open>The members of a group in the order they are added; an absent member is not added.\<close>

definition make_group :: "'s cfg_lib \<Rightarrow> (string \<times> 's) list \<Rightarrow> cfg_exn + 's" where
  "make_group L ms = add_all L ms (cl_new L TypeGroup)"

fun save_each :: "'s cfg_lib \<Rightarrow> ('v \<Rightarrow> cfg_exn + 's) \<Rightarrow> 'v table \<Rightarrow> 's \<Rightarrow> cfg_exn + 's" where
  "save_each L f [] objects = Inr objects"
| "save_each L f ((name, obj) # t) objects =
     result_bind (f obj) (\<lambda>item. result_bind (cl_add L objects name item) (\<lambda>objects. save_each L f t objects))"

text \<open>The new root and the number of saved objects.\<close>

definition save_section :: "'s cfg_lib \<Rightarrow> string \<Rightarrow> ('v \<Rightarrow> cfg_exn + 's) \<Rightarrow> 'v table \<Rightarrow> 's \<Rightarrow> cfg_exn + ('s \<times> nat)" where
  "save_section L sec f t root =
     result_bind (save_each L f t (cl_new L TypeGroup)) (\<lambda>objects.
     result_bind (cl_add L root sec objects) (\<lambda>root. Inr (root, length t)))"

subsection \<open>Objects\<close>

definition cidr_text :: "cidr option \<Rightarrow> string" where
  "cidr_text c = (case cidr_to_str c 0 of Inr t \<Rightarrow> t | Inl _ \<Rightarrow> [])"

definition address_item :: "'s cfg_lib \<Rightarrow> addr_obj elem \<Rightarrow> cfg_exn + 's" where
  "address_item L obj = (case snd obj of
     FqdnAddress f \<Rightarrow> make_group L [(''type'', cl_of_str L ''fqdn''), (''value'', cl_of_str L f)]
   | CidrAddress c \<Rightarrow> make_group L [(''type'', cl_of_str L ''cidr''), (''value'', cl_of_str L (cidr_text c))])"

definition save_address_objects :: "'s cfg_lib \<Rightarrow> cfg_db \<Rightarrow> 's \<Rightarrow> cfg_exn + ('s \<times> nat)" where
  "save_address_objects L db root = save_section L ''address_objects'' (address_item L) (db_address db) root"

definition port_item :: "'s cfg_lib \<Rightarrow> (int \<times> int) elem \<Rightarrow> cfg_exn + 's" where
  "port_item L obj = make_group L [(''start'', cl_of_int L (fst (snd obj))), (''end'', cl_of_int L (snd (snd obj)))]"

definition save_port_objects :: "'s cfg_lib \<Rightarrow> cfg_db \<Rightarrow> 's \<Rightarrow> cfg_exn + ('s \<times> nat)" where
  "save_port_objects L db root = save_section L ''port_objects'' (port_item L) (db_port db) root"

definition proto_item :: "'s cfg_lib \<Rightarrow> byte elem \<Rightarrow> cfg_exn + 's" where
  "proto_item L obj = make_group L [(''id'', cl_of_int L (uint (snd obj)))]"

definition save_proto_objects :: "'s cfg_lib \<Rightarrow> cfg_db \<Rightarrow> 's \<Rightarrow> cfg_exn + ('s \<times> nat)" where
  "save_proto_objects L db root = save_section L ''proto_objects'' (proto_item L) (db_proto db) root"

subsection \<open>Profiles\<close>

definition detection_item :: "'s cfg_lib \<Rightarrow> ProfileDetection \<Rightarrow> cfg_exn + 's" where
  "detection_item L p = make_group L [(''mode'', cl_of_int L (det_mode p)),
     (''engines_enabled'', cl_of_bool L (det_engines_enabled p)), (''kb_enabled'', cl_of_bool L (det_kb_enabled p))]"

definition save_detection_profiles :: "'s cfg_lib \<Rightarrow> cfg_db \<Rightarrow> 's \<Rightarrow> cfg_exn + ('s \<times> nat)" where
  "save_detection_profiles L db root = save_section L ''detection_profiles'' (detection_item L) (db_prof_detection db) root"

definition content_rule_item :: "'s cfg_lib \<Rightarrow> ProfileContentRule \<Rightarrow> cfg_exn + 's" where
  "content_rule_item L r = make_group L [(''match'', cl_of_str L (pcr_match r)), (''replace'', cl_of_str L (pcr_replace r)),
     (''replace_each_nth'', cl_of_int L (pcr_replace_each_nth r))]"

fun item_list :: "('v \<Rightarrow> cfg_exn + 's) \<Rightarrow> 'v list \<Rightarrow> cfg_exn + 's list" where
  "item_list f [] = Inr []"
| "item_list f (x # xs) = result_bind (f x) (\<lambda>s. result_bind (item_list f xs) (\<lambda>ss. Inr (s # ss)))"

definition content_item :: "'s cfg_lib \<Rightarrow> ProfileContent \<Rightarrow> cfg_exn + 's" where
  "content_item L p =
     result_bind (if cont_rules p = [] then Inr []
        else result_bind (item_list (content_rule_item L) (cont_rules p)) (\<lambda>rs.
             result_bind (append_all L rs (cl_new L TypeList)) (\<lambda>l. Inr [(''content_rules'', l)]))) (\<lambda>rules.
     make_group L ([(''write_payload'', cl_of_bool L (cont_write_payload p)),
       (''write_format'', cl_of_str L (format_to_str (cont_write_format p)))] @ rules))"

definition save_content_profiles :: "'s cfg_lib \<Rightarrow> cfg_db \<Rightarrow> 's \<Rightarrow> cfg_exn + ('s \<times> nat)" where
  "save_content_profiles L db root = save_section L ''content_profiles'' (content_item L) (db_prof_content db) root"

definition save_tls_ca :: "'s cfg_lib \<Rightarrow> 's \<Rightarrow> cfg_exn + ('s \<times> nat)" where
  "save_tls_ca L root = result_bind (cl_add L root ''tls_ca'' (cl_new L TypeGroup)) (\<lambda>root. Inr (root, 0))"

definition tls_flags :: "'s cfg_lib \<Rightarrow> ProfileTls \<Rightarrow> (string \<times> 's) list" where
  "tls_flags L p = [(''inspect'', cl_of_bool L (tls_inspect p)), (''use_pfs'', cl_of_bool L (tls_use_pfs p)),
     (''left_use_pfs'', cl_of_bool L (tls_left_use_pfs p)), (''right_use_pfs'', cl_of_bool L (tls_right_use_pfs p)),
     (''allow_untrusted_issuers'', cl_of_bool L (tls_allow_untrusted_issuers p)),
     (''allow_invalid_certs'', cl_of_bool L (tls_allow_invalid_certs p)),
     (''allow_self_signed'', cl_of_bool L (tls_allow_self_signed p)), (''ocsp_mode'', cl_of_int L (tls_ocsp_mode p)),
     (''ocsp_stapling'', cl_of_bool L (tls_ocsp_stapling p)),
     (''ocsp_stapling_mode'', cl_of_int L (tls_ocsp_stapling_mode p)),
     (''ct_enable'', cl_of_bool L (tls_ct_enable p)), (''alpn_block'', cl_of_bool L (tls_alpn_block p))]"

definition tls_checks :: "'s cfg_lib \<Rightarrow> ProfileTls \<Rightarrow> (string \<times> 's) list" where
  "tls_checks L p = [(''failed_certcheck_replacement'', cl_of_bool L (tls_failed_certcheck_replacement p)),
     (''failed_certcheck_override'', cl_of_bool L (tls_failed_certcheck_override p)),
     (''failed_certcheck_override_timeout'', cl_of_int L (tls_failed_certcheck_override_timeout p)),
     (''failed_certcheck_override_timeout_type'', cl_of_int L (tls_failed_certcheck_override_timeout_type p)),
     (''sni_based_cert'', cl_of_bool L (tls_mitm_cert_sni_search p)),
     (''ip_based_cert'', cl_of_bool L (tls_mitm_cert_ip_search p)),
     (''left_disable_reuse'', cl_of_bool L (tls_left_disable_reuse p)),
     (''right_disable_reuse'', cl_of_bool L (tls_right_disable_reuse p)),
     (''sslkeylog'', cl_of_bool L (tls_sslkeylog p))]"

definition array_member :: "'s cfg_lib \<Rightarrow> string \<Rightarrow> ('a \<Rightarrow> 's) \<Rightarrow> 'a list option \<Rightarrow> cfg_exn + (string \<times> 's) list" where
  "array_member L key f xs = (case xs of
     None \<Rightarrow> Inr []
   | Some [] \<Rightarrow> Inr []
   | Some xs \<Rightarrow> result_bind (append_all L (map f xs) (cl_new L TypeArray)) (\<lambda>a. Inr [(key, a)]))"

definition tls_item :: "'s cfg_lib \<Rightarrow> ProfileTls \<Rightarrow> cfg_exn + 's" where
  "tls_item L p =
     result_bind (array_member L ''sni_filter_bypass'' (cl_of_str L) (tls_sni_filter_bypass p)) (\<lambda>sni.
     result_bind (array_member L ''redirect_warning_ports'' (cl_of_int L) (tls_redirect_warning_ports p)) (\<lambda>ports.
     make_group L (tls_flags L p @ sni @ ports @ tls_checks L p)))"

definition save_tls_profiles :: "'s cfg_lib \<Rightarrow> cfg_db \<Rightarrow> 's \<Rightarrow> cfg_exn + ('s \<times> nat)" where
  "save_tls_profiles L db root = save_section L ''tls_profiles'' (tls_item L) (db_prof_tls db) root"

definition alg_dns_item :: "'s cfg_lib \<Rightarrow> ProfileAlgDns \<Rightarrow> cfg_exn + 's" where
  "alg_dns_item L p = make_group L [(''match_request_id'', cl_of_bool L (alg_match_request_id p)),
     (''randomize_id'', cl_of_bool L (alg_randomize_id p)), (''cached_responses'', cl_of_bool L (alg_cached_responses p))]"

definition save_alg_dns_profiles :: "'s cfg_lib \<Rightarrow> cfg_db \<Rightarrow> 's \<Rightarrow> cfg_exn + ('s \<times> nat)" where
  "save_alg_dns_profiles L db root = save_section L ''alg_dns_profiles'' (alg_dns_item L) (db_prof_alg_dns db) root"

definition name_member :: "'s cfg_lib \<Rightarrow> string \<Rightarrow> ('p \<Rightarrow> string) \<Rightarrow> 'p option \<Rightarrow> (string \<times> 's) list" where
  "name_member L key name p = (case p of None \<Rightarrow> [] | Some p \<Rightarrow> [(key, cl_of_str L (name p))])"

definition identity_item :: "'s cfg_lib \<Rightarrow> ProfileSubAuth \<Rightarrow> cfg_exn + (string \<times> 's)" where
  "identity_item L sub =
     (let l = sub_profiles sub in
      result_bind (make_group L (name_member L ''detection_profile'' det_name (profile_detection l)
          @ name_member L ''tls_profile'' tls_name (profile_tls l)
          @ name_member L ''content_profile'' cont_name (profile_content l)
          @ name_member L ''alg_dns_profile'' alg_name (profile_alg_dns l))) (\<lambda>s.
      Inr (sub_name sub, s)))"

definition auth_item :: "'s cfg_lib \<Rightarrow> ProfileAuth \<Rightarrow> cfg_exn + 's" where
  "auth_item L p =
     result_bind (if sub_policies p = [] then Inr []
        else result_bind (item_list (identity_item L) (sub_policies p)) (\<lambda>ids.
             result_bind (make_group L ids) (\<lambda>g. Inr [(''identities'', g)]))) (\<lambda>ids.
     make_group L ([(''authenticate'', cl_of_bool L (auth_authenticate (pa_flags p))),
       (''resolve'', cl_of_bool L (auth_resolve (pa_flags p)))] @ ids))"

definition save_auth_profiles :: "'s cfg_lib \<Rightarrow> cfg_db \<Rightarrow> 's \<Rightarrow> cfg_exn + ('s \<times> nat)" where
  "save_auth_profiles L db root = save_section L ''auth_profiles'' (auth_item L) (db_prof_auth db) root"

definition lb_name :: "lb_method \<Rightarrow> string" where
  "lb_name m = (if m = LB_L3 then ''sticky-l3'' else if m = LB_L4 then ''sticky-l4'' else ''round-robin'')"

definition routing_item :: "'s cfg_lib \<Rightarrow> ProfileRouting \<Rightarrow> cfg_exn + 's" where
  "routing_item L p =
     result_bind (str_array L (dnat_addresses p)) (\<lambda>addresses.
     result_bind (str_array L (dnat_ports p)) (\<lambda>ports.
     make_group L [(''dnat_address'', addresses), (''dnat_port'', ports),
       (''dnat_lb_method'', cl_of_str L (lb_name (dnat_lb_method p)))]))"

definition save_routing :: "'s cfg_lib \<Rightarrow> cfg_db \<Rightarrow> 's \<Rightarrow> cfg_exn + ('s \<times> nat)" where
  "save_routing L db root = save_section L ''routing'' (routing_item L) (db_routing db) root"

subsection \<open>Rules\<close>

definition policy_item :: "'s cfg_lib \<Rightarrow> cfg_rule \<Rightarrow> cfg_exn + 's" where
  "policy_item L r =
     result_bind (str_array L (map fst (cr_src r))) (\<lambda>src.
     result_bind (str_array L (map fst (cr_src_ports r))) (\<lambda>sport.
     result_bind (str_array L (map fst (cr_dst r))) (\<lambda>dst.
     result_bind (str_array L (map fst (cr_dst_ports r))) (\<lambda>dport.
     result_bind (str_array L (map fst (cr_features r))) (\<lambda>features.
     make_group L ([(''disabled'', cl_of_bool L (cr_disabled r)), (''name'', cl_of_str L (cr_name r)),
         (''proto'', cl_of_str L (fst (cr_proto r))), (''src'', src), (''sport'', sport), (''dst'', dst), (''dport'', dport),
         (''features'', features), (''action'', cl_of_str L (cr_action_name r)), (''nat'', cl_of_str L (cr_nat_name r)),
         (''routing'', cl_of_str L (case profile_routing (cr_profiles r) of Some p \<Rightarrow> rt_name p | None \<Rightarrow> ''none''))]
       @ name_member L ''tls_profile'' tls_name (profile_tls (cr_profiles r))
       @ name_member L ''detection_profile'' det_name (profile_detection (cr_profiles r))
       @ name_member L ''content_profile'' cont_name (profile_content (cr_profiles r))
       @ name_member L ''auth_profile'' (\<lambda>p. auth_name (pa_flags p)) (cr_auth r)
       @ name_member L ''alg_dns_profile'' alg_name (profile_alg_dns (cr_profiles r))))))))"

definition save_policy :: "'s cfg_lib \<Rightarrow> cfg_db \<Rightarrow> 's \<Rightarrow> cfg_exn + ('s \<times> nat)" where
  "save_policy L db root =
     result_bind (item_list (policy_item L) (db_policy_list db)) (\<lambda>rs.
     result_bind (append_all L rs (cl_new L TypeList)) (\<lambda>l.
     result_bind (cl_add L root ''policy'' l) (\<lambda>root. Inr (root, length rs))))"

text \<open>The object part of \<open>save_config\<close>.\<close>

definition save_tables :: "'s cfg_lib \<Rightarrow> cfg_db \<Rightarrow> 's \<Rightarrow> cfg_exn + 's" where
  "save_tables L db root = run_fields (map (\<lambda>f root. result_bind (f root) (\<lambda>(root, _). Inr root))
     [save_address_objects L db, save_port_objects L db, save_proto_objects L db, save_detection_profiles L db,
      save_content_profiles L db, save_tls_ca L, save_tls_profiles L db, save_alg_dns_profiles L db,
      save_auth_profiles L db, save_routing L db, save_policy L db]) root"

section \<open>New entries\<close>

text \<open>A new entry with its initial members; a name that is taken or not allowed is refused.\<close>

definition new_entry :: "'s cfg_lib \<Rightarrow> 's \<Rightarrow> string \<Rightarrow> (string \<times> 's) list \<Rightarrow> cfg_exn + ('s \<times> bool)" where
  "new_entry L ex name ms = (case result_bind (make_group L ms) (\<lambda>item. cl_add L ex name item) of
     Inr ex' \<Rightarrow> Inr (ex', True)
   | Inl SettingNameException \<Rightarrow> Inr (ex, False)
   | Inl e \<Rightarrow> Inl e)"

definition new_address_object :: "'s cfg_lib \<Rightarrow> 's \<Rightarrow> string \<Rightarrow> cfg_exn + ('s \<times> bool)" where
  "new_address_object L ex name = new_entry L ex name [(''type'', cl_of_str L ''cidr''), (''value'', cl_of_str L ''0.0.0.0/32'')]"

definition new_routing :: "'s cfg_lib \<Rightarrow> 's \<Rightarrow> string \<Rightarrow> cfg_exn + ('s \<times> bool)" where
  "new_routing L ex name = new_entry L ex name [(''dnat_address'', cl_new L TypeArray), (''dnat_port'', cl_new L TypeArray),
     (''dnat_lb_method'', cl_of_str L ''round-robin'')]"

definition new_port_object :: "'s cfg_lib \<Rightarrow> 's \<Rightarrow> string \<Rightarrow> cfg_exn + ('s \<times> bool)" where
  "new_port_object L ex name = new_entry L ex name [(''start'', cl_of_int L 0), (''end'', cl_of_int L 65535)]"

definition new_proto_object :: "'s cfg_lib \<Rightarrow> 's \<Rightarrow> string \<Rightarrow> cfg_exn + ('s \<times> bool)" where
  "new_proto_object L ex name = new_entry L ex name [(''id'', cl_of_int L 0)]"

definition new_detection_profile :: "'s cfg_lib \<Rightarrow> 's \<Rightarrow> string \<Rightarrow> cfg_exn + ('s \<times> bool)" where
  "new_detection_profile L ex name = new_entry L ex name [(''mode'', cl_of_int L 1)]"

definition new_content_profile :: "'s cfg_lib \<Rightarrow> 's \<Rightarrow> string \<Rightarrow> cfg_exn + ('s \<times> bool)" where
  "new_content_profile L ex name = new_entry L ex name [(''write_payload'', cl_of_bool L False), (''content_rules'', cl_new L TypeList)]"

definition new_tls_ca :: "'s cfg_lib \<Rightarrow> 's \<Rightarrow> string \<Rightarrow> cfg_exn + ('s \<times> bool)" where
  "new_tls_ca L ex name = new_entry L ex name []"

definition new_tls_profile :: "'s cfg_lib \<Rightarrow> 's \<Rightarrow> string \<Rightarrow> cfg_exn + ('s \<times> bool)" where
  "new_tls_profile L ex name = new_entry L ex name
     [(''inspect'', cl_of_bool L False), (''use_pfs'', cl_of_bool L True), (''left_use_pfs'', cl_of_bool L True),
      (''right_use_pfs'', cl_of_bool L True), (''allow_untrusted_issuers'', cl_of_bool L False),
      (''allow_invalid_certs'', cl_of_bool L False), (''allow_self_signed'', cl_of_bool L False),
      (''ocsp_mode'', cl_of_int L 1), (''ocsp_stapling'', cl_of_bool L True), (''ocsp_stapling_mode'', cl_of_int L 1),
      (''ct_enable'', cl_of_bool L True), (''sni_filter_bypass'', cl_new L TypeArray),
      (''redirect_warning_ports'', cl_new L TypeArray), (''failed_certcheck_replacement'', cl_of_bool L True),
      (''failed_certcheck_override'', cl_of_bool L True), (''failed_certcheck_override_timeout'', cl_of_int L 600),
      (''failed_certcheck_override_timeout_type'', cl_of_int L 0), (''sni_based_cert'', cl_of_bool L True),
      (''ip_based_cert'', cl_of_bool L True), (''left_disable_reuse'', cl_of_bool L False),
      (''right_disable_reuse'', cl_of_bool L False), (''sslkeylog'', cl_of_bool L False)]"

definition new_alg_dns_profile :: "'s cfg_lib \<Rightarrow> 's \<Rightarrow> string \<Rightarrow> cfg_exn + ('s \<times> bool)" where
  "new_alg_dns_profile L ex name = new_entry L ex name [(''match_request_id'', cl_of_bool L False),
     (''randomize_id'', cl_of_bool L False), (''cached_responses'', cl_of_bool L False)]"

definition new_auth_profile :: "'s cfg_lib \<Rightarrow> 's \<Rightarrow> string \<Rightarrow> cfg_exn + ('s \<times> bool)" where
  "new_auth_profile L ex name = new_entry L ex name [(''authenticate'', cl_of_bool L False), (''resolve'', cl_of_bool L True),
     (''identities'', cl_new L TypeGroup)]"

definition new_policy :: "'s cfg_lib \<Rightarrow> 's \<Rightarrow> cfg_exn + ('s \<times> bool)" where
  "new_policy L ex = (case result_bind (make_group L
       [(''disabled'', cl_of_bool L True), (''name'', cl_new L TypeString), (''proto'', cl_of_str L ''tcp''),
        (''src'', cl_new L TypeArray), (''sport'', cl_new L TypeArray), (''dst'', cl_new L TypeArray),
        (''dport'', cl_new L TypeArray), (''features'', cl_new L TypeArray), (''action'', cl_of_str L ''accept''),
        (''nat'', cl_of_str L ''auto''), (''tls_profile'', cl_new L TypeString), (''detection_profile'', cl_new L TypeString),
        (''content_profile'', cl_new L TypeString), (''auth_profile'', cl_new L TypeString),
        (''alg_dns_profile'', cl_new L TypeString), (''routing'', cl_new L TypeString)]) (\<lambda>p. cl_append L ex p) of
     Inr ex' \<Rightarrow> Inr (ex', True)
   | Inl SettingNameException \<Rightarrow> Inr (ex, False)
   | Inl SettingTypeException \<Rightarrow> Inr (ex, False)
   | Inl e \<Rightarrow> Inl e)"

section \<open>Moving a rule\<close>

datatype op_move = OP_MOVE_AFTER | OP_MOVE_BEFORE

definition at_index :: "'a list \<Rightarrow> int \<Rightarrow> 'a option" where
  "at_index xs i = (if 0 \<le> i \<and> i < int (length xs) then Some (xs ! nat i) else None)"

text \<open>The rule list is copied and emptied, then filled again from the copy; the loop from index \<open>i\<close>
  on returns what it filled in and whether it came to the end.  A moved rule is first added as an empty
  group \<open>emp\<close>, which stays when there is no rule \<open>what\<close>.\<close>

fun move_loop :: "'a \<Rightarrow> 'a list \<Rightarrow> int \<Rightarrow> int \<Rightarrow> op_move \<Rightarrow> int \<Rightarrow> 'a list \<Rightarrow> 'a list \<Rightarrow> 'a list \<times> bool" where
  "move_loop emp all what wh op i [] acc = (acc, True)"
| "move_loop emp all what wh op i (x # xs) acc =
     (if i = what then move_loop emp all what wh op (i + 1) xs acc
      else if op = OP_MOVE_BEFORE \<and> i = wh then
        (case at_index all what of
           None \<Rightarrow> (acc @ [emp], False)
         | Some w \<Rightarrow> move_loop emp all what wh op (i + 1) xs (acc @ [w, x]))
      else if op = OP_MOVE_AFTER \<and> i = wh then
        (case at_index all what of
           None \<Rightarrow> (acc @ [x, emp], False)
         | Some w \<Rightarrow> move_loop emp all what wh op (i + 1) xs (acc @ [x, w]))
      else move_loop emp all what wh op (i + 1) xs (acc @ [x]))"

definition move_policy :: "'s cfg_lib \<Rightarrow> 's list option \<Rightarrow> int \<Rightarrow> int \<Rightarrow> op_move \<Rightarrow> 's list option \<times> bool" where
  "move_policy L policy what wh op = (case policy of
     None \<Rightarrow> (None, False)
   | Some ps \<Rightarrow> (case move_loop (cl_new L TypeGroup) ps what wh op 0 ps [] of (ps', ok) \<Rightarrow> (Some ps', ok)))"

section \<open>Facts\<close>

subsection \<open>Groups and arrays that were written\<close>

definition is_group :: "'s cfg_lib \<Rightarrow> 's \<Rightarrow> (string \<times> 's) list \<Rightarrow> bool" where
  "is_group L s ms \<longleftrightarrow> cl_type L s = TypeGroup \<and> cl_entries L s = map (\<lambda>(n, c). (Some n, c)) ms"

lemma key_names:
  "list_all cfg_name [''type'', ''value'', ''start'', ''end'', ''id'', ''mode'', ''engines_enabled'', ''kb_enabled'',
     ''match'', ''replace'', ''replace_each_nth'', ''content_rules'', ''write_payload'', ''write_format'']"
  "list_all cfg_name [''inspect'', ''use_pfs'', ''left_use_pfs'', ''right_use_pfs'', ''allow_untrusted_issuers'',
     ''allow_invalid_certs'', ''allow_self_signed'', ''ocsp_mode'', ''ocsp_stapling'', ''ocsp_stapling_mode'', ''ct_enable'',
     ''alpn_block'', ''failed_certcheck_replacement'', ''failed_certcheck_override'', ''failed_certcheck_override_timeout'',
     ''failed_certcheck_override_timeout_type'', ''sni_based_cert'', ''ip_based_cert'', ''left_disable_reuse'',
     ''right_disable_reuse'', ''sslkeylog'', ''sni_filter_bypass'', ''redirect_warning_ports'']"
  "list_all cfg_name [''match_request_id'', ''randomize_id'', ''cached_responses'', ''dnat_address'', ''dnat_port'',
     ''dnat_lb_method'', ''disabled'', ''name'', ''proto'', ''src'', ''sport'', ''dst'', ''dport'', ''features'', ''action'', ''nat'',
     ''routing'', ''tls_profile'', ''detection_profile'', ''content_profile'', ''auth_profile'', ''alg_dns_profile'', ''identities'',
     ''authenticate'', ''resolve'', ''address_objects'', ''port_objects'', ''proto_objects'', ''detection_profiles'', ''content_profiles'',
     ''tls_ca'', ''tls_profiles'', ''alg_dns_profiles'', ''auth_profiles'', ''policy'']"
  by (simp_all add: cfg_name_def name_char_def)

lemmas key_name [simp] = key_names[simplified]

lemma make_group_ok:
  assumes "cfg_ok L" "list_all cfg_name (map fst ms)" "distinct (map fst ms)"
  shows "\<exists>s. make_group L ms = Inr s \<and> is_group L s ms"
  using add_all_group[OF assms(1), of "cl_new L TypeGroup" ms] assms(2,3) cfg_okD(1,2)[OF assms(1)]
  by (simp add: make_group_def is_group_def)

lemma map_of_named: "map_of (map (\<lambda>(n, c). (Some n, c)) ms) (Some k) = map_of ms k"
  by (induction ms) auto

lemma get_member:
  assumes "cfg_ok L" "is_group L s ms"
  shows "cl_get L s key = (case map_of ms key of None \<Rightarrow> Inl SettingNotFoundException | Some c \<Rightarrow> Inr c)"
  using assms cfg_okD(9)[OF assms(1), of s key] by (simp add: is_group_def map_of_named)

lemma load_member:
  assumes "cfg_ok L" "is_group L s ms" "key \<noteq> []"
  shows "load_if_exists L conv s key = (case map_of ms key of
     None \<Rightarrow> Inr None
   | Some c \<Rightarrow> (case conv c of Inr v \<Rightarrow> Inr (Some v) | Inl SettingTypeException \<Rightarrow> Inr None | Inl e \<Rightarrow> Inl e))"
  using load_if_exists_group[OF assms(1) _ assms(3), of s conv] assms(2) by (simp add: is_group_def map_of_named)

lemma items_strings: "cfg_ok L \<Longrightarrow> items (cl_str L) (map (\<lambda>x. (None, cl_of_str L x)) xs) = Inr xs"
  by (induction xs) (simp_all add: cfg_okD)

subsection \<open>Sections that were written\<close>

lemma save_each_ok:
  assumes "cfg_ok L" "cl_type L s = TypeGroup" "list_all cfg_name (map fst t)" "distinct (map fst t)"
    and "\<forall>n\<in>set (map fst t). Some n \<notin> fst ` set (cl_entries L s)" "\<forall>(n, v)\<in>set t. is_ok (f v)"
  shows "\<exists>s'. save_each L f t s = Inr s' \<and> cl_type L s' = TypeGroup
    \<and> cl_entries L s' = cl_entries L s @ map (\<lambda>(n, v). (Some n, projr (f v))) t"
  using assms(2-)
proof (induction t arbitrary: s)
  case (Cons e t)
  obtain n v c where e: "e = (n, v)" "f v = Inr c" using Cons.prems(5) by (cases e) (auto simp: is_ok_iff)
  obtain s1 where s1: "cl_add L s n c = Inr s1" "cl_type L s1 = TypeGroup" "cl_entries L s1 = cl_entries L s @ [(Some n, c)]"
    using cfg_ok_add[OF assms(1) Cons.prems(1), of n] Cons.prems e by auto
  have "\<exists>s'. save_each L f t s1 = Inr s' \<and> cl_type L s' = TypeGroup
      \<and> cl_entries L s' = cl_entries L s1 @ map (\<lambda>(n, v). (Some n, projr (f v))) t"
    by (rule Cons.IH) (use Cons.prems e s1 in auto)
  then show ?case using e s1 by auto
qed simp

text \<open>A table whose items give back their entries survives the trip; \<open>reads_back\<close> is that law.\<close>

definition reads_back :: "(string \<Rightarrow> 's \<Rightarrow> 'v outcome) \<Rightarrow> ('v \<Rightarrow> cfg_exn + 's) \<Rightarrow> 'v table \<Rightarrow> bool" where
  "reads_back entry item t \<longleftrightarrow> tab_ok t \<and> (\<forall>(n, v)\<in>set t. cfg_name n \<and> \<not> reserved_name n
     \<and> (\<exists>c. item v = Inr c \<and> entry n c = (Some (n, v), None)))"

definition holds_section :: "'s cfg_lib \<Rightarrow> 's \<Rightarrow> string \<Rightarrow> ('v \<Rightarrow> cfg_exn + 's) \<Rightarrow> 'v table \<Rightarrow> bool" where
  "holds_section L root sec item t \<longleftrightarrow>
     (\<exists>s. cl_get L root sec = Inr s \<and> cl_entries L s = map (\<lambda>(n, v). (Some n, projr (item v))) t)"

lemma load_saved_section:
  assumes "holds_section L root sec item t" "reads_back entry item t"
  shows "load_section L root sec entry [] = (t, Inr (length t))"
proof -
  obtain s where s: "cl_get L root sec = Inr s" "cl_entries L s = map (\<lambda>(n, v). (Some n, projr (item v))) t"
    using assms(1) by (auto simp: holds_section_def)
  have "map (named_entry entry) (cl_entries L s) = map (\<lambda>e. (Some e, None)) t"
    using assms(2) by (auto simp: s(2) reads_back_def named_entry_def)
  then have "load_each (named_entry entry) (cl_entries L s) [] = (t, None)"
    using load_each_roundtrip[of "[]" t "named_entry entry" "cl_entries L s"] assms(2) by (simp add: reads_back_def)
  then show ?thesis using s by (simp add: load_section_def)
qed

lemma save_section_ok:
  assumes "cfg_ok L" "is_group L root secs" "cfg_name sec" "sec \<notin> fst ` set secs"
    and "list_all cfg_name (map fst t)" "distinct (map fst t)" "\<forall>(n, v)\<in>set t. is_ok (item v)"
  shows "\<exists>s root'. save_section L sec item t root = Inr (root', length t) \<and> is_group L root' (secs @ [(sec, s)])
    \<and> cl_entries L s = map (\<lambda>(n, v). (Some n, projr (item v))) t"
proof -
  obtain s where s: "save_each L item t (cl_new L TypeGroup) = Inr s"
      "cl_entries L s = map (\<lambda>(n, v). (Some n, projr (item v))) t"
    using save_each_ok[OF assms(1), of "cl_new L TypeGroup" t item] assms(5-) cfg_okD(1,2)[OF assms(1)] by auto
  have new: "Some sec \<notin> fst ` set (cl_entries L root)" using assms(2,4) by (force simp: is_group_def)
  obtain root' where r: "cl_add L root sec s = Inr root'" "cl_type L root' = TypeGroup"
      "cl_entries L root' = cl_entries L root @ [(Some sec, s)]"
    using cfg_ok_add[OF assms(1) _ assms(3) new, of s] assms(2) by (auto simp: is_group_def)
  then show ?thesis using s assms(2) by (intro exI[of _ s] exI[of _ root']) (simp add: save_section_def is_group_def)
qed

subsection \<open>Items and entries\<close>

lemma load_field_member:
  assumes "cfg_ok L" "is_group L s ms" "key \<noteq> []"
  shows "load_field L conv s key upd p = (case map_of ms key of
     None \<Rightarrow> Inr p
   | Some c \<Rightarrow> (case conv c of Inr v \<Rightarrow> Inr (upd v p) | Inl SettingTypeException \<Rightarrow> Inr p | Inl e \<Rightarrow> Inl e))"
  unfolding load_field_def load_member[OF assms]
  by (auto split: option.splits sum.splits cfg_exn.splits)

lemma port_back:
  assumes "cfg_ok (ce_lib env)" "a \<le> b" "int32 a" "int32 b"
  shows "\<exists>c. port_item (ce_lib env) (m, a, b) = Inr c \<and> port_entry env n c = (Some (n, n, a, b), None)"
proof -
  let ?L = "ce_lib env"
  obtain c where c: "port_item ?L (m, a, b) = Inr c" "is_group ?L c [(''start'', cl_of_int ?L a), (''end'', cl_of_int ?L b)]"
    using make_group_ok[OF assms(1), of "[(''start'', cl_of_int ?L a), (''end'', cl_of_int ?L b)]"]
    by (auto simp: port_item_def)
  then show ?thesis
    by (simp add: port_entry_def Let_def load_member[OF assms(1) c(2)] cfg_okD[OF assms(1)] assms to_outcome_def)
qed

lemma proto_back:
  assumes "cfg_ok (ce_lib env)"
  shows "\<exists>c. proto_item (ce_lib env) (m, p) = Inr c \<and> proto_entry env n c = (Some (n, n, p), None)"
proof -
  let ?L = "ce_lib env"
  have "0 \<le> uint p" "uint p < 256" using uint_lt2p[of p] by simp_all
  then have i: "int32 (uint p)" using order_trans[of "- (2 ^ 31)" 0 "uint p"] by (simp add: int32_def)
  obtain c where c: "proto_item ?L (m, p) = Inr c" "is_group ?L c [(''id'', cl_of_int ?L (uint p))]"
    using make_group_ok[OF assms(1), of "[(''id'', cl_of_int ?L (uint p))]"] by (auto simp: proto_item_def)
  then show ?thesis
    by (simp add: proto_entry_def Let_def load_member[OF assms(1) c(2)] cfg_okD[OF assms(1)] i to_outcome_def)
qed

lemma address_back:
  assumes "cfg_ok (ce_lib env)" "\<forall>c. a = CidrAddress c \<longrightarrow> ae_from_str (ce_addr env) (cidr_text c) = c"
  shows "\<exists>c. address_item (ce_lib env) (m, a) = Inr c \<and> address_entry env n c = (Some (n, n, a), None)"
proof (cases a)
  let ?L = "ce_lib env"
  case (CidrAddress b)
  let ?ms = "[(''type'', cl_of_str ?L ''cidr''), (''value'', cl_of_str ?L (cidr_text b))]"
  obtain c where c: "address_item ?L (m, a) = Inr c" "is_group ?L c ?ms"
    using make_group_ok[OF assms(1), of ?ms] CidrAddress by (auto simp: address_item_def)
  then show ?thesis using assms(2) CidrAddress
    by (simp add: address_entry_def load_addr_def Let_def cfg_exists_def load_member[OF assms(1) c(2)]
        get_member[OF assms(1) c(2)] cfg_okD[OF assms(1)] to_outcome_def)
next
  let ?L = "ce_lib env"
  case (FqdnAddress f)
  let ?ms = "[(''type'', cl_of_str ?L ''fqdn''), (''value'', cl_of_str ?L f)]"
  obtain c where c: "address_item ?L (m, a) = Inr c" "is_group ?L c ?ms"
    using make_group_ok[OF assms(1), of ?ms] FqdnAddress by (auto simp: address_item_def)
  then show ?thesis using FqdnAddress
    by (simp add: address_entry_def load_addr_def Let_def cfg_exists_def load_member[OF assms(1) c(2)]
        get_member[OF assms(1) c(2)] cfg_okD[OF assms(1)] to_outcome_def)
qed

lemma detection_back:
  assumes "cfg_ok (ce_lib env)" "int32 (det_mode p)" "det_name p = n"
  shows "\<exists>c. detection_item (ce_lib env) p = Inr c \<and> detection_entry env n c = (Some (n, p), None)"
proof -
  let ?L = "ce_lib env"
  let ?ms = "[(''mode'', cl_of_int ?L (det_mode p)), (''engines_enabled'', cl_of_bool ?L (det_engines_enabled p)),
    (''kb_enabled'', cl_of_bool ?L (det_kb_enabled p))]"
  obtain c where c: "detection_item ?L p = Inr c" "is_group ?L c ?ms"
    using make_group_ok[OF assms(1), of ?ms] by (auto simp: detection_item_def)
  then show ?thesis using assms(3)
    by (simp add: detection_entry_def Let_def load_member[OF assms(1) c(2)] load_field_member[OF assms(1) c(2)]
        cfg_okD[OF assms(1)] assms(2) to_outcome_def)
qed

lemma alg_dns_back:
  assumes "cfg_ok (ce_lib env)" "alg_name p = n"
  shows "\<exists>c. alg_dns_item (ce_lib env) p = Inr c \<and> alg_dns_entry env n c = (Some (n, p), None)"
proof -
  let ?L = "ce_lib env"
  let ?ms = "[(''match_request_id'', cl_of_bool ?L (alg_match_request_id p)),
     (''randomize_id'', cl_of_bool ?L (alg_randomize_id p)), (''cached_responses'', cl_of_bool ?L (alg_cached_responses p))]"
  obtain c where c: "alg_dns_item ?L p = Inr c" "is_group ?L c ?ms"
    using make_group_ok[OF assms(1), of ?ms] by (auto simp: alg_dns_item_def)
  then show ?thesis using assms(2)
    by (simp add: alg_dns_entry_def Let_def load_field_member[OF assms(1) c(2)] cfg_okD[OF assms(1)] to_outcome_def)
qed

lemma known_names_back:
  assumes "cfg_ok L" "is_group L s ms" "map_of ms key = Some a" "cl_entries L a = map (\<lambda>x. (None, cl_of_str L x)) xs"
    and "list_all p xs"
  shows "known_names L s key p = Inr xs"
  using assms(3-5) by (simp add: known_names_def get_member[OF assms(1,2)] items_strings[OF assms(1)] list_all_iff)

lemma lb_name_back: "lb_method_of (Some (lb_name m)) = m"
  by (cases m) (simp_all add: lb_method_of_def lb_name_def)

definition fresh_lb :: LbState where
  "fresh_lb = \<lparr>rr_counter = 0, last_refresh = 0, candidates_v4 = [], candidates_v6 = []\<rparr>"

lemma routing_back:
  assumes "cfg_ok (ce_lib env)" "rt_name p = n" "lb_state p = fresh_lb"
    and "list_all (\<lambda>a. tab_get (db_address db) a \<noteq> None) (dnat_addresses p)"
    and "list_all (\<lambda>a. tab_get (db_port db) a \<noteq> None) (dnat_ports p)"
  shows "\<exists>c. routing_item (ce_lib env) p = Inr c \<and> routing_entry env db n c = (Some (n, p), None)"
proof -
  let ?L = "ce_lib env"
  obtain a where a: "str_array ?L (dnat_addresses p) = Inr a" "cl_entries ?L a = map (\<lambda>x. (None, cl_of_str ?L x)) (dnat_addresses p)"
    using str_array_ok[OF assms(1)] by blast
  obtain b where b: "str_array ?L (dnat_ports p) = Inr b" "cl_entries ?L b = map (\<lambda>x. (None, cl_of_str ?L x)) (dnat_ports p)"
    using str_array_ok[OF assms(1)] by blast
  let ?ms = "[(''dnat_address'', a), (''dnat_port'', b), (''dnat_lb_method'', cl_of_str ?L (lb_name (dnat_lb_method p)))]"
  obtain c where c: "routing_item ?L p = Inr c" "is_group ?L c ?ms"
    using make_group_ok[OF assms(1), of ?ms] a b by (auto simp: routing_item_def)
  have "known_names ?L c ''dnat_address'' (\<lambda>a. tab_get (db_address db) a \<noteq> None) = Inr (dnat_addresses p)"
    "known_names ?L c ''dnat_port'' (\<lambda>a. tab_get (db_port db) a \<noteq> None) = Inr (dnat_ports p)"
    using known_names_back[OF assms(1) c(2) _ a(2) assms(4)] known_names_back[OF assms(1) c(2) _ b(2) assms(5)] by simp_all
  then show ?thesis using c(1) assms(2,3)
    by (simp add: routing_entry_def Let_def load_member[OF assms(1) c(2)] cfg_okD[OF assms(1)] lb_name_back
        to_outcome_def fresh_lb_def)
qed

text \<open>A TLS profile: its two lists are the same list of names and a sorted list of ports, both
  absent when they are empty.\<close>

definition tls_saveable :: "ProfileTls \<Rightarrow> bool" where
  "tls_saveable p \<longleftrightarrow> int32 (tls_ocsp_mode p) \<and> int32 (tls_ocsp_stapling_mode p)
     \<and> int32 (tls_failed_certcheck_override_timeout p) \<and> int32 (tls_failed_certcheck_override_timeout_type p)
     \<and> tls_sni_filter_bypass p \<noteq> Some [] \<and> tls_sni_filter_bypass_addrobj p = (case tls_sni_filter_bypass p of None \<Rightarrow> [] | Some xs \<Rightarrow> xs)
     \<and> tls_redirect_warning_ports p \<noteq> Some []
     \<and> (\<forall>xs. tls_redirect_warning_ports p = Some xs \<longrightarrow> list_all int32 xs \<and> fold insort_insert xs [] = xs)
     \<and> tls_sni_filter_use_dns_cache p \<and> tls_sni_filter_use_dns_domain_tree p"

lemma append_all_ints:
  assumes "cfg_ok L" "cl_type L s = TypeArray" "\<forall>e\<in>set (cl_entries L s). cl_type L (snd e) = TypeInt" "list_all int32 xs"
  shows "\<exists>s'. append_all L (map (cl_of_int L) xs) s = Inr s' \<and> cl_entries L s' = cl_entries L s @ map (\<lambda>x. (None, cl_of_int L x)) xs"
  using assms(2-)
proof (induction xs arbitrary: s)
  case (Cons x xs)
  have x: "cl_type L (cl_of_int L x) = TypeInt" using cfg_okD(8)[OF assms(1)] Cons.prems(3) by simp
  obtain s1 where s1: "cl_append L s (cl_of_int L x) = Inr s1" "cl_type L s1 = TypeArray"
      "cl_entries L s1 = cl_entries L s @ [(None, cl_of_int L x)]"
    using cfg_ok_append[OF assms(1), of s "cl_of_int L x"] Cons.prems x by (auto simp: is_scalar_def)
  have "\<forall>e\<in>set (cl_entries L s1). cl_type L (snd e) = TypeInt" using Cons.prems(2) s1(3) x by auto
  then show ?case using Cons.IH[OF s1(2)] Cons.prems(3) s1 by auto
qed simp

lemma items_ints: "cfg_ok L \<Longrightarrow> list_all int32 xs \<Longrightarrow> items (cl_int L) (map (\<lambda>x. (None, cl_of_int L x)) xs) = Inr xs"
  by (induction xs) (simp_all add: cfg_okD)

lemma sni_member:
  assumes "cfg_ok L" "tls_sni_filter_bypass p \<noteq> Some []"
  shows "\<exists>ms. array_member L ''sni_filter_bypass'' (cl_of_str L) (tls_sni_filter_bypass p) = Inr ms
    \<and> (case tls_sni_filter_bypass p of None \<Rightarrow> ms = []
       | Some xs \<Rightarrow> \<exists>a. ms = [(''sni_filter_bypass'', a)] \<and> cl_entries L a = map (\<lambda>x. (None, cl_of_str L x)) xs)"
proof (cases "tls_sni_filter_bypass p")
  case (Some xs)
  obtain a where "append_all L (map (cl_of_str L) xs) (cl_new L TypeArray) = Inr a" "cl_entries L a = map (\<lambda>x. (None, cl_of_str L x)) xs"
    using append_all_strings[OF assms(1), of "cl_new L TypeArray" xs] cfg_okD(1,2)[OF assms(1)] by auto
  then show ?thesis using Some assms(2) by (cases xs) (auto simp: array_member_def)
qed (simp add: array_member_def)

lemma ports_member:
  assumes "cfg_ok L" "tls_redirect_warning_ports p \<noteq> Some []" "\<forall>xs. tls_redirect_warning_ports p = Some xs \<longrightarrow> list_all int32 xs"
  shows "\<exists>ms. array_member L ''redirect_warning_ports'' (cl_of_int L) (tls_redirect_warning_ports p) = Inr ms
    \<and> (case tls_redirect_warning_ports p of None \<Rightarrow> ms = []
       | Some xs \<Rightarrow> \<exists>a. ms = [(''redirect_warning_ports'', a)] \<and> cl_entries L a = map (\<lambda>x. (None, cl_of_int L x)) xs)"
proof (cases "tls_redirect_warning_ports p")
  case (Some xs)
  obtain a where "append_all L (map (cl_of_int L) xs) (cl_new L TypeArray) = Inr a" "cl_entries L a = map (\<lambda>x. (None, cl_of_int L x)) xs"
    using append_all_ints[OF assms(1), of "cl_new L TypeArray" xs] cfg_okD(1,2)[OF assms(1)] Some assms(3) by auto
  then show ?thesis using Some assms(2) by (cases xs) (auto simp: array_member_def)
qed (simp add: array_member_def)

lemma map_of_append_None: "map_of xs k = None \<Longrightarrow> map_of (xs @ ys) k = map_of ys k"
  by (simp add: map_of_append map_add_def)

lemma distinct_optional:
  assumes "distinct (xs @ a # b # ys)" "s = [] \<or> s = [a]" "p = [] \<or> p = [b]"
  shows "distinct (xs @ s @ p @ ys)"
  using assms by auto

lemma tls_keys:
  "distinct (map fst (tls_flags L p) @ ''sni_filter_bypass'' # ''redirect_warning_ports'' # map fst (tls_checks L p))"
proof -
  have "distinct ([''inspect'', ''use_pfs'', ''left_use_pfs'', ''right_use_pfs'', ''allow_untrusted_issuers'',
     ''allow_invalid_certs'', ''allow_self_signed'', ''ocsp_mode'', ''ocsp_stapling'', ''ocsp_stapling_mode'', ''ct_enable'', ''alpn_block'']
     @ ''sni_filter_bypass'' # ''redirect_warning_ports'' #
     [''failed_certcheck_replacement'', ''failed_certcheck_override'', ''failed_certcheck_override_timeout'',
      ''failed_certcheck_override_timeout_type'', ''sni_based_cert'', ''ip_based_cert'', ''left_disable_reuse'',
      ''right_disable_reuse'', ''sslkeylog''])"
    by simp
  then show ?thesis by (simp only: tls_flags_def tls_checks_def list.map fst_conv)
qed

lemma tls_back:
  assumes ok: "cfg_ok (ce_lib env)" and n: "tls_name p = n" and p: "tls_saveable p"
  shows "\<exists>c. tls_item (ce_lib env) p = Inr c \<and> tls_entry env n c = (Some (n, p), None)"
proof -
  let ?L = "ce_lib env"
  obtain sni where sni: "array_member ?L ''sni_filter_bypass'' (cl_of_str ?L) (tls_sni_filter_bypass p) = Inr sni"
      "case tls_sni_filter_bypass p of None \<Rightarrow> sni = []
       | Some xs \<Rightarrow> \<exists>a. sni = [(''sni_filter_bypass'', a)] \<and> cl_entries ?L a = map (\<lambda>x. (None, cl_of_str ?L x)) xs"
    using sni_member[OF ok] p by (auto simp: tls_saveable_def)
  obtain ports where ports: "array_member ?L ''redirect_warning_ports'' (cl_of_int ?L) (tls_redirect_warning_ports p) = Inr ports"
      "case tls_redirect_warning_ports p of None \<Rightarrow> ports = []
       | Some xs \<Rightarrow> \<exists>a. ports = [(''redirect_warning_ports'', a)] \<and> cl_entries ?L a = map (\<lambda>x. (None, cl_of_int ?L x)) xs"
    using ports_member[OF ok] p by (auto simp: tls_saveable_def)
  have keys: "sni = [] \<or> (\<exists>a. sni = [(''sni_filter_bypass'', a)])" "ports = [] \<or> (\<exists>a. ports = [(''redirect_warning_ports'', a)])"
    using sni(2) ports(2) by (auto split: option.splits)
  define ms where "ms = tls_flags ?L p @ sni @ ports @ tls_checks ?L p"
  have "distinct (map fst ms)" unfolding ms_def map_append
    by (rule distinct_optional[OF tls_keys]) (use keys in auto)
  moreover have "list_all cfg_name (map fst ms)"
    using keys by (auto simp: tls_flags_def tls_checks_def ms_def)
  ultimately obtain c where c: "tls_item ?L p = Inr c" "is_group ?L c ms"
    using make_group_ok[OF ok, of ms] sni(1) ports(1) by (auto simp: tls_item_def ms_def)
  have other: "map_of sni k = None" if "k \<noteq> ''sni_filter_bypass''" for k using keys(1) that by auto
  have other': "map_of ports k = None" if "k \<noteq> ''redirect_warning_ports''" for k using keys(2) that by auto
  have vals: "map_of ms ''inspect'' = Some (cl_of_bool ?L (tls_inspect p))"
    "map_of ms ''use_pfs'' = Some (cl_of_bool ?L (tls_use_pfs p))"
    "map_of ms ''left_use_pfs'' = Some (cl_of_bool ?L (tls_left_use_pfs p))"
    "map_of ms ''right_use_pfs'' = Some (cl_of_bool ?L (tls_right_use_pfs p))"
    "map_of ms ''allow_untrusted_issuers'' = Some (cl_of_bool ?L (tls_allow_untrusted_issuers p))"
    "map_of ms ''allow_invalid_certs'' = Some (cl_of_bool ?L (tls_allow_invalid_certs p))"
    "map_of ms ''allow_self_signed'' = Some (cl_of_bool ?L (tls_allow_self_signed p))"
    "map_of ms ''ocsp_stapling'' = Some (cl_of_bool ?L (tls_ocsp_stapling p))"
    "map_of ms ''ct_enable'' = Some (cl_of_bool ?L (tls_ct_enable p))"
    "map_of ms ''alpn_block'' = Some (cl_of_bool ?L (tls_alpn_block p))"
    "map_of ms ''failed_certcheck_replacement'' = Some (cl_of_bool ?L (tls_failed_certcheck_replacement p))"
    "map_of ms ''failed_certcheck_override'' = Some (cl_of_bool ?L (tls_failed_certcheck_override p))"
    "map_of ms ''sni_based_cert'' = Some (cl_of_bool ?L (tls_mitm_cert_sni_search p))"
    "map_of ms ''ip_based_cert'' = Some (cl_of_bool ?L (tls_mitm_cert_ip_search p))"
    "map_of ms ''left_disable_reuse'' = Some (cl_of_bool ?L (tls_left_disable_reuse p))"
    "map_of ms ''right_disable_reuse'' = Some (cl_of_bool ?L (tls_right_disable_reuse p))"
    "map_of ms ''sslkeylog'' = Some (cl_of_bool ?L (tls_sslkeylog p))"
    "map_of ms ''ocsp_mode'' = Some (cl_of_int ?L (tls_ocsp_mode p))"
    "map_of ms ''ocsp_stapling_mode'' = Some (cl_of_int ?L (tls_ocsp_stapling_mode p))"
    "map_of ms ''failed_certcheck_override_timeout'' = Some (cl_of_int ?L (tls_failed_certcheck_override_timeout p))"
    "map_of ms ''failed_certcheck_override_timeout_type'' = Some (cl_of_int ?L (tls_failed_certcheck_override_timeout_type p))"
    by (simp_all add: ms_def map_add_def map_of_append tls_flags_def tls_checks_def other other')
  have lists: "map_of ms ''sni_filter_bypass'' = map_of sni ''sni_filter_bypass''"
    "map_of ms ''redirect_warning_ports'' = map_of ports ''redirect_warning_ports''"
    by (simp_all add: ms_def map_add_def map_of_append tls_flags_def tls_checks_def other other' split: option.splits)
  have ints: "int32 (tls_ocsp_mode p)" "int32 (tls_ocsp_stapling_mode p)" "int32 (tls_failed_certcheck_override_timeout p)"
    "int32 (tls_failed_certcheck_override_timeout_type p)" using p by (simp_all add: tls_saveable_def)
  note field = load_field_member[OF ok c(2)]
  have sni_load: "load_sni_filter ?L c q = Inr (case tls_sni_filter_bypass p of None \<Rightarrow> q
      | Some xs \<Rightarrow> q\<lparr>tls_sni_filter_bypass := Some xs, tls_sni_filter_bypass_addrobj := xs\<rparr>)" for q
    using sni(2) p by (cases "tls_sni_filter_bypass p")
      (auto simp: load_sni_filter_def get_member[OF ok c(2)] lists(1) items_strings[OF ok] tls_saveable_def)
  have ports_load: "load_warning_ports ?L c q = Inr (case tls_redirect_warning_ports p of None \<Rightarrow> q
      | Some xs \<Rightarrow> q\<lparr>tls_redirect_warning_ports := Some xs\<rparr>)" for q
    using ports(2) p by (cases "tls_redirect_warning_ports p")
      (auto simp: load_warning_ports_def get_member[OF ok c(2)] lists(2) items_ints[OF ok] tls_saveable_def)
  have "tls_entry env n c = (Some (n, p), None)"
    using p n
    by (cases p; cases "tls_sni_filter_bypass p"; cases "tls_redirect_warning_ports p")
       (simp_all add: tls_entry_def Let_def load_member[OF ok c(2)] vals cfg_okD[OF ok] tls_fields_def field ints
         sni_load ports_load to_outcome_def default_tls_def tls_saveable_def)
  then show ?thesis using c(1) by blast
qed

end
