(* ===== verification/CfgRound.thy ===== *)
theory CfgRound
  imports CfgSave
begin

text \<open>What comes back when a saved configuration is loaded again: the rules of the policy section,
  the object tables and the order of the policy after a rule was moved.\<close>

subsection \<open>Rules that were written\<close>

text \<open>Every table has its elements under their own names, no element has the empty name or the name
  that stands for no routing, and the features have no names.\<close>

definition named :: "('v \<Rightarrow> string) \<Rightarrow> 'v table \<Rightarrow> bool" where
  "named nm t \<longleftrightarrow> (\<forall>(k, v)\<in>set t. nm v = k)"

definition db_named :: "cfg_db \<Rightarrow> bool" where
  "db_named db \<longleftrightarrow> named fst (db_address db) \<and> named fst (db_port db) \<and> named fst (db_proto db)
     \<and> (\<forall>(k, v)\<in>set (db_features db). fst v = [])
     \<and> named det_name (db_prof_detection db) \<and> named cont_name (db_prof_content db) \<and> named tls_name (db_prof_tls db)
     \<and> named alg_name (db_prof_alg_dns db) \<and> named (\<lambda>p. auth_name (pa_flags p)) (db_prof_auth db)
     \<and> named rt_name (db_routing db)
     \<and> [] \<notin> set (keys_of (db_port db)) \<and> [] \<notin> set (keys_of (db_proto db)) \<and> [] \<notin> set (keys_of (db_features db))
     \<and> [] \<notin> set (keys_of (db_routing db)) \<and> ''none'' \<notin> set (keys_of (db_routing db))"

text \<open>What a rule of such tables looks up by the names it is saved with.\<close>

definition refers_back :: "'s cfg_env \<Rightarrow> cfg_db \<Rightarrow> cfg_rule \<Rightarrow> bool" where
  "refers_back env db r \<longleftrightarrow>
     (\<forall>x\<in>set (cr_src r) \<union> set (cr_dst r). find_address db (fst x) = Some x)
   \<and> (\<forall>x\<in>set (cr_src_ports r) \<union> set (cr_dst_ports r). lookup_port env db (fst x) = Some x)
   \<and> (\<forall>x\<in>set (cr_features r). lookup_features db (fst x) = None)
   \<and> lookup_proto db (fst (cr_proto r)) = Some (cr_proto r)
   \<and> (\<forall>p. profile_detection (cr_profiles r) = Some p \<longrightarrow> lookup_prof_detection db (det_name p) = Some p)
   \<and> (\<forall>p. profile_content (cr_profiles r) = Some p \<longrightarrow> lookup_prof_content db (cont_name p) = Some p)
   \<and> (\<forall>p. profile_tls (cr_profiles r) = Some p \<longrightarrow> lookup_prof_tls db (tls_name p) = Some p)
   \<and> (\<forall>p. profile_alg_dns (cr_profiles r) = Some p \<longrightarrow> lookup_prof_alg_dns db (alg_name p) = Some p)
   \<and> (\<forall>p. cr_auth r = Some p \<longrightarrow> lookup_prof_auth db (auth_name (pa_flags p)) = Some p)
   \<and> (\<forall>p. profile_routing (cr_profiles r) = Some p \<longrightarrow> lookup_prof_routing db (rt_name p) = Some p \<and> rt_name p \<notin> {[], ''none''})"

lemma named_get: "named nm t \<Longrightarrow> tab_get t n = Some x \<Longrightarrow> nm x = n"
  using tab_get_in[of t n x] by (auto simp: named_def)

lemma named_back: "named nm t \<Longrightarrow> \<exists>n. tab_get t n = Some p \<Longrightarrow> tab_get t (nm p) = Some p"
  using named_get by fastforce

lemma absent_key: "k \<notin> set (keys_of t) \<Longrightarrow> tab_get t k = None"
  by (simp add: tab_get_def keys_of_def map_of_eq_None_iff)

lemma present_key: "tab_get t k = Some x \<Longrightarrow> k \<in> set (keys_of t)"
  using tab_get_in[of t k x] by (force simp: keys_of_def)

lemma named_refers_back:
  assumes db: "db_named db" and r: "from_tables env db r"
  shows "refers_back env db r"
  unfolding refers_back_def
proof (intro conjI ballI allI impI)
  note n = db[unfolded db_named_def]
  show "find_address db (fst x) = Some x" if x: "x \<in> set (cr_src r) \<union> set (cr_dst r)" for x
  proof -
    obtain k where "tab_get (db_address db) k = Some x" using r x unfolding from_tables_def by blast
    then show ?thesis using named_get[of fst "db_address db" k x] n by (simp add: find_address_def)
  qed
  show "lookup_port env db (fst x) = Some x" if x: "x \<in> set (cr_src_ports r) \<union> set (cr_dst_ports r)" for x
  proof -
    consider (a) k where "tab_get (db_port db) k = Some x" | (b) "x = ([], ce_nullrange env)"
      using r x unfolding from_tables_def by blast
    then show ?thesis
    proof cases
      case a
      then show ?thesis using named_get[of fst "db_port db" k x] n by (simp add: lookup_port_def)
    next
      case b
      then show ?thesis using absent_key[of "[]" "db_port db"] n by (simp add: lookup_port_def)
    qed
  qed
  show "lookup_features db (fst x) = None" if x: "x \<in> set (cr_features r)" for x
  proof -
    obtain k where "tab_get (db_features db) k = Some x" using r x unfolding from_tables_def by blast
    then have "fst x = []" using n tab_get_in[of "db_features db" k x] by auto
    then show ?thesis using absent_key[of "[]" "db_features db"] n by (simp add: lookup_features_def)
  qed
  show "lookup_proto db (fst (cr_proto r)) = Some (cr_proto r)"
  proof -
    consider (a) k where "tab_get (db_proto db) k = Some (cr_proto r)" | (b) "cr_proto r = ([], 0)"
      using r unfolding from_tables_def by blast
    then show ?thesis
    proof cases
      case a
      then show ?thesis using named_get[of fst "db_proto db" k "cr_proto r"] n by (simp add: lookup_proto_def)
    next
      case b
      then show ?thesis using absent_key[of "[]" "db_proto db"] n by (simp add: lookup_proto_def)
    qed
  qed
  note t = r[unfolded from_tables_def]
  show "lookup_prof_detection db (det_name p) = Some p" if p: "profile_detection (cr_profiles r) = Some p" for p
    using named_back[of det_name "db_prof_detection db" p] n t p by (simp add: lookup_prof_detection_def)
  show "lookup_prof_content db (cont_name p) = Some p" if p: "profile_content (cr_profiles r) = Some p" for p
    using named_back[of cont_name "db_prof_content db" p] n t p by (simp add: lookup_prof_content_def)
  show "lookup_prof_tls db (tls_name p) = Some p" if p: "profile_tls (cr_profiles r) = Some p" for p
    using named_back[of tls_name "db_prof_tls db" p] n t p by (simp add: lookup_prof_tls_def)
  show "lookup_prof_alg_dns db (alg_name p) = Some p" if p: "profile_alg_dns (cr_profiles r) = Some p" for p
    using named_back[of alg_name "db_prof_alg_dns db" p] n t p by (simp add: lookup_prof_alg_dns_def)
  show "lookup_prof_auth db (auth_name (pa_flags p)) = Some p" if p: "cr_auth r = Some p" for p
    using named_back[of "\<lambda>p. auth_name (pa_flags p)" "db_prof_auth db" p] n t p by (simp add: lookup_prof_auth_def)
  have rt: "tab_get (db_routing db) (rt_name p) = Some p" if p: "profile_routing (cr_profiles r) = Some p" for p
    using named_back[of rt_name "db_routing db" p] n t p by simp
  show "lookup_prof_routing db (rt_name p) = Some p" if p: "profile_routing (cr_profiles r) = Some p" for p
    using rt[OF p] by (simp add: lookup_prof_routing_def)
  show "rt_name p \<notin> {[], ''none''}" if p: "profile_routing (cr_profiles r) = Some p" for p
    using present_key[OF rt[OF p]] n by auto
qed

lemma run_fields_end [simp]: "result_bind x (run_fields []) = x"
  by (cases x) simp_all

lemma run_fields_one: "run_fields [f] = f"
  by (simp add: fun_eq_iff)

text \<open>References written as names are resolved to the same elements.\<close>

lemma add_refs_back:
  assumes "cfg_ok L" "\<forall>x\<in>set xs. lookup (fst x) = Some x"
  shows "add_refs L lookup push (map (\<lambda>n. (None, cl_of_str L n)) (map fst xs)) d = Inr (fold push xs (fst d), snd d)"
  using assms(2)
  by (induction xs arbitrary: d) (simp_all add: cfg_okD[OF assms(1)] add_ref_def)

lemma group_back:
  assumes "cfg_ok L" "is_group L s ms" "map_of ms key = Some a" "cl_type L a = TypeArray"
    and "cl_entries L a = map (\<lambda>n. (None, cl_of_str L n)) (map fst xs)" "\<forall>x\<in>set xs. lookup (fst x) = Some x"
  shows "load_group L s key lookup push d = Inr (fold push xs (fst d), snd d)"
  using add_refs_back[OF assms(1,6)] assms(3-5)
  by (simp add: load_group_def get_member[OF assms(1,2)] is_scalar_def)

lemma fold_push:
  "fold (\<lambda>x r. r\<lparr>cr_src := cr_src r @ [x]\<rparr>) xs r = r\<lparr>cr_src := cr_src r @ xs\<rparr>"
  "fold (\<lambda>x r. r\<lparr>cr_dst := cr_dst r @ [x]\<rparr>) xs r = r\<lparr>cr_dst := cr_dst r @ xs\<rparr>"
  "fold (\<lambda>x r. r\<lparr>cr_src_ports := cr_src_ports r @ [x]\<rparr>) ys r = r\<lparr>cr_src_ports := cr_src_ports r @ ys\<rparr>"
  "fold (\<lambda>x r. r\<lparr>cr_dst_ports := cr_dst_ports r @ [x]\<rparr>) ys r = r\<lparr>cr_dst_ports := cr_dst_ports r @ ys\<rparr>"
  by (induction xs arbitrary: r, simp_all) (induction ys arbitrary: r, simp_all)+

lemma map_of_name_member: "map_of (name_member L k nm p) k' = (if k' = k then map_option (\<lambda>p. cl_of_str L (nm p)) p else None)"
  by (simp add: name_member_def split: option.splits)

lemma name_member_keys: "map fst (name_member L k nm p) = (case p of None \<Rightarrow> [] | Some _ \<Rightarrow> [k])"
  by (simp add: name_member_def split: option.splits)

lemma profile_back:
  assumes "cfg_ok L" "is_group L s ms" "key \<noteq> []" "map_of ms key = map_option (\<lambda>p. cl_of_str L (nm p)) x"
    and "\<forall>p. x = Some p \<longrightarrow> lookup (nm p) = Some p"
  shows "load_profile L s key lookup put d = Inr (case x of None \<Rightarrow> fst d | Some p \<Rightarrow> put p (fst d), snd d)"
  using assms(4,5) by (cases x) (simp_all add: load_profile_def load_member[OF assms(1-3)] cfg_okD[OF assms(1)])

text \<open>The members of a saved rule.\<close>

record 's saved_rule =
  sr_src :: 's
  sr_sport :: 's
  sr_dst :: 's
  sr_dport :: 's
  sr_features :: 's

definition saved_members :: "'s cfg_lib \<Rightarrow> cfg_rule \<Rightarrow> 's saved_rule \<Rightarrow> (string \<times> 's) list" where
  "saved_members L r a =
     [(''disabled'', cl_of_bool L (cr_disabled r)), (''name'', cl_of_str L (cr_name r)),
      (''proto'', cl_of_str L (fst (cr_proto r))), (''src'', sr_src a), (''sport'', sr_sport a), (''dst'', sr_dst a),
      (''dport'', sr_dport a), (''features'', sr_features a), (''action'', cl_of_str L (cr_action_name r)),
      (''nat'', cl_of_str L (cr_nat_name r)),
      (''routing'', cl_of_str L (case profile_routing (cr_profiles r) of Some p \<Rightarrow> rt_name p | None \<Rightarrow> ''none''))]
     @ name_member L ''tls_profile'' tls_name (profile_tls (cr_profiles r))
     @ name_member L ''detection_profile'' det_name (profile_detection (cr_profiles r))
     @ name_member L ''content_profile'' cont_name (profile_content (cr_profiles r))
     @ name_member L ''auth_profile'' (\<lambda>p. auth_name (pa_flags p)) (cr_auth r)
     @ name_member L ''alg_dns_profile'' alg_name (profile_alg_dns (cr_profiles r))"

definition name_array :: "'s cfg_lib \<Rightarrow> 's \<Rightarrow> string list \<Rightarrow> bool" where
  "name_array L a xs \<longleftrightarrow> cl_type L a = TypeArray \<and> cl_entries L a = map (\<lambda>x. (None, cl_of_str L x)) xs"

lemma saved_keys:
  "distinct (map fst (saved_members L r a))" "list_all cfg_name (map fst (saved_members L r a))"
proof -
  define b where "b = [''disabled'', ''name'', ''proto'', ''src'', ''sport'', ''dst'', ''dport'', ''features'', ''action'', ''nat'', ''routing'']"
  have m: "map fst (saved_members L r a) = b @ (case profile_tls (cr_profiles r) of None \<Rightarrow> [] | Some _ \<Rightarrow> [''tls_profile''])
     @ (case profile_detection (cr_profiles r) of None \<Rightarrow> [] | Some _ \<Rightarrow> [''detection_profile''])
     @ (case profile_content (cr_profiles r) of None \<Rightarrow> [] | Some _ \<Rightarrow> [''content_profile''])
     @ (case cr_auth r of None \<Rightarrow> [] | Some _ \<Rightarrow> [''auth_profile''])
     @ (case profile_alg_dns (cr_profiles r) of None \<Rightarrow> [] | Some _ \<Rightarrow> [''alg_dns_profile''])"
    by (simp add: saved_members_def name_member_keys b_def)
  have b: "distinct b" "''tls_profile'' \<notin> set b" "''detection_profile'' \<notin> set b" "''content_profile'' \<notin> set b"
    "''auth_profile'' \<notin> set b" "''alg_dns_profile'' \<notin> set b" "list_all cfg_name b" by (simp_all add: b_def)
  show "distinct (map fst (saved_members L r a))" using b by (simp add: m split: option.splits)
  show "list_all cfg_name (map fst (saved_members L r a))" using b by (simp add: m split: option.splits)
qed

lemma policy_item_ok:
  assumes "cfg_ok L"
  shows "\<exists>c a. policy_item L r = Inr c \<and> is_group L c (saved_members L r a)
    \<and> name_array L (sr_src a) (map fst (cr_src r)) \<and> name_array L (sr_sport a) (map fst (cr_src_ports r))
    \<and> name_array L (sr_dst a) (map fst (cr_dst r)) \<and> name_array L (sr_dport a) (map fst (cr_dst_ports r))
    \<and> name_array L (sr_features a) (map fst (cr_features r))"
proof -
  have arr: "\<exists>s. str_array L xs = Inr s \<and> name_array L s xs" for xs
    using str_array_ok[OF assms] by (auto simp: name_array_def)
  obtain s1 s2 s3 s4 s5 where a: "str_array L (map fst (cr_src r)) = Inr s1" "name_array L s1 (map fst (cr_src r))"
      "str_array L (map fst (cr_src_ports r)) = Inr s2" "name_array L s2 (map fst (cr_src_ports r))"
      "str_array L (map fst (cr_dst r)) = Inr s3" "name_array L s3 (map fst (cr_dst r))"
      "str_array L (map fst (cr_dst_ports r)) = Inr s4" "name_array L s4 (map fst (cr_dst_ports r))"
      "str_array L (map fst (cr_features r)) = Inr s5" "name_array L s5 (map fst (cr_features r))"
    using arr by meson
  define a where "a = \<lparr>sr_src = s1, sr_sport = s2, sr_dst = s3, sr_dport = s4, sr_features = s5\<rparr>"
  obtain c where c: "make_group L (saved_members L r a) = Inr c" "is_group L c (saved_members L r a)"
    using make_group_ok[OF assms saved_keys(2,1)] by blast
  have "policy_item L r = make_group L (saved_members L r a)"
    by (simp add: policy_item_def a saved_members_def a_def)
  then show ?thesis using c a by (intro exI[of _ c] exI[of _ a]) (simp add: a_def)
qed

lemma case_option_id: "(case x of None \<Rightarrow> None | Some v \<Rightarrow> Some v) = x"
  by (cases x) simp_all

lemma saved_values:
  "map_of (saved_members L r a) ''disabled'' = Some (cl_of_bool L (cr_disabled r))"
  "map_of (saved_members L r a) ''name'' = Some (cl_of_str L (cr_name r))"
  "map_of (saved_members L r a) ''proto'' = Some (cl_of_str L (fst (cr_proto r)))"
  "map_of (saved_members L r a) ''src'' = Some (sr_src a)"
  "map_of (saved_members L r a) ''sport'' = Some (sr_sport a)"
  "map_of (saved_members L r a) ''dst'' = Some (sr_dst a)"
  "map_of (saved_members L r a) ''dport'' = Some (sr_dport a)"
  "map_of (saved_members L r a) ''features'' = Some (sr_features a)"
  "map_of (saved_members L r a) ''action'' = Some (cl_of_str L (cr_action_name r))"
  "map_of (saved_members L r a) ''nat'' = Some (cl_of_str L (cr_nat_name r))"
  "map_of (saved_members L r a) ''routing''
     = Some (cl_of_str L (case profile_routing (cr_profiles r) of Some p \<Rightarrow> rt_name p | None \<Rightarrow> ''none''))"
  "map_of (saved_members L r a) ''tls_profile'' = map_option (\<lambda>p. cl_of_str L (tls_name p)) (profile_tls (cr_profiles r))"
  "map_of (saved_members L r a) ''detection_profile'' = map_option (\<lambda>p. cl_of_str L (det_name p)) (profile_detection (cr_profiles r))"
  "map_of (saved_members L r a) ''content_profile'' = map_option (\<lambda>p. cl_of_str L (cont_name p)) (profile_content (cr_profiles r))"
  "map_of (saved_members L r a) ''auth_profile'' = map_option (\<lambda>p. cl_of_str L (auth_name (pa_flags p))) (cr_auth r)"
  "map_of (saved_members L r a) ''alg_dns_profile'' = map_option (\<lambda>p. cl_of_str L (alg_name p)) (profile_alg_dns (cr_profiles r))"
  "map_of (saved_members L r a) ''script_profile'' = None"
  by (simp_all add: saved_members_def map_of_append map_add_def map_of_name_member map_option_case case_option_id cong: option.case_cong)

text \<open>The steps of the loader on such members, one group of steps after the other.\<close>

definition saved_arrays :: "'s cfg_lib \<Rightarrow> cfg_rule \<Rightarrow> 's saved_rule \<Rightarrow> bool" where
  "saved_arrays L r a \<longleftrightarrow> name_array L (sr_src a) (map fst (cr_src r)) \<and> name_array L (sr_sport a) (map fst (cr_src_ports r))
    \<and> name_array L (sr_dst a) (map fst (cr_dst r)) \<and> name_array L (sr_dport a) (map fst (cr_dst_ports r))
    \<and> name_array L (sr_features a) (map fst (cr_features r))"

definition matching_part :: "cfg_rule \<Rightarrow> cfg_rule" where
  "matching_part r = fresh_rule\<lparr>cr_disabled := cr_disabled r, cr_name := cr_name r, cr_proto := cr_proto r, cr_src := cr_src r,
     cr_src_ports := cr_src_ports r, cr_dst := cr_dst r, cr_dst_ports := cr_dst_ports r\<rparr>"

lemma features_back:
  assumes "cfg_ok (ce_lib env)" "is_group (ce_lib env) c (saved_members (ce_lib env) r a)" "saved_arrays (ce_lib env) r a"
    and "\<forall>x\<in>set (cr_features r). lookup_features db (fst x) = None"
  shows "\<exists>r'. load_features_refs env db c (p, False) = Inr (if cr_features r = [] then p else r', cr_features r \<noteq> [])"
proof -
  let ?L = "ce_lib env" and ?push = "\<lambda>x r. r\<lparr>cr_features := cr_features r @ [x]\<rparr>"
  have refs: "\<exists>r'. add_refs ?L (lookup_features db) ?push (map (\<lambda>n. (None, cl_of_str ?L n)) (map fst xs)) d
      = Inr (if xs = [] then d else (r', True))" if "\<forall>x\<in>set xs. lookup_features db (fst x) = None" for xs d
    using that
  proof (induction xs arbitrary: d)
    case (Cons x xs)
    then have "\<forall>x\<in>set xs. lookup_features db (fst x) = None" by simp
    from Cons.IH[OF this, of "bad_ref d"] obtain r' where
      "add_refs ?L (lookup_features db) ?push (map (\<lambda>n. (None, cl_of_str ?L n)) (map fst xs)) (bad_ref d)
        = Inr (if xs = [] then bad_ref d else (r', True))" by blast
    then show ?case using Cons.prems by (cases xs) (simp_all add: cfg_okD[OF assms(1)] add_ref_def bad_ref_def)
  qed simp
  have "cl_get ?L c ''features'' = Inr (sr_features a)" "cl_type ?L (sr_features a) = TypeArray"
    "cl_entries ?L (sr_features a) = map (\<lambda>n. (None, cl_of_str ?L n)) (map fst (cr_features r))"
    using assms(3) by (simp_all add: get_member[OF assms(1,2)] saved_values saved_arrays_def name_array_def)
  then show ?thesis using refs[OF assms(4), of "(p, False)"]
    by (cases "cr_features r") (auto simp: load_features_refs_def Let_def is_scalar_def)
qed

lemma early_back:
  assumes ok: "cfg_ok (ce_lib env)" and c: "is_group (ce_lib env) c (saved_members (ce_lib env) r a)"
    and a: "saved_arrays (ce_lib env) r a" and r: "refers_back env db r"
  shows "\<exists>r'. run_fields (early_steps env db c) (fresh_rule, False)
    = Inr (if cr_features r = [] then matching_part r else r', cr_features r \<noteq> [])"
proof -
  let ?L = "ce_lib env"
  have src: "load_group ?L c ''src'' (find_address db) (\<lambda>x r. r\<lparr>cr_src := cr_src r @ [x]\<rparr>) d
      = Inr ((fst d)\<lparr>cr_src := cr_src (fst d) @ cr_src r\<rparr>, snd d)" for d
    using group_back[OF ok c, of "''src''" "sr_src a" "cr_src r" "find_address db" "\<lambda>x r. r\<lparr>cr_src := cr_src r @ [x]\<rparr>" d] a r
    by (simp add: saved_values saved_arrays_def name_array_def refers_back_def fold_push)
  have dst: "load_group ?L c ''dst'' (find_address db) (\<lambda>x r. r\<lparr>cr_dst := cr_dst r @ [x]\<rparr>) d
      = Inr ((fst d)\<lparr>cr_dst := cr_dst (fst d) @ cr_dst r\<rparr>, snd d)" for d
    using group_back[OF ok c, of "''dst''" "sr_dst a" "cr_dst r" "find_address db" "\<lambda>x r. r\<lparr>cr_dst := cr_dst r @ [x]\<rparr>" d] a r
    by (simp add: saved_values saved_arrays_def name_array_def refers_back_def fold_push)
  have sport: "load_group ?L c ''sport'' (lookup_port env db) (\<lambda>x r. r\<lparr>cr_src_ports := cr_src_ports r @ [x]\<rparr>) d
      = Inr ((fst d)\<lparr>cr_src_ports := cr_src_ports (fst d) @ cr_src_ports r\<rparr>, snd d)" for d
    using group_back[OF ok c, of "''sport''" "sr_sport a" "cr_src_ports r" "lookup_port env db" "\<lambda>x r. r\<lparr>cr_src_ports := cr_src_ports r @ [x]\<rparr>" d] a r
    by (simp add: saved_values saved_arrays_def name_array_def refers_back_def fold_push)
  have dport: "load_group ?L c ''dport'' (lookup_port env db) (\<lambda>x r. r\<lparr>cr_dst_ports := cr_dst_ports r @ [x]\<rparr>) d
      = Inr ((fst d)\<lparr>cr_dst_ports := cr_dst_ports (fst d) @ cr_dst_ports r\<rparr>, snd d)" for d
    using group_back[OF ok c, of "''dport''" "sr_dport a" "cr_dst_ports r" "lookup_port env db" "\<lambda>x r. r\<lparr>cr_dst_ports := cr_dst_ports r @ [x]\<rparr>" d] a r
    by (simp add: saved_values saved_arrays_def name_array_def refers_back_def fold_push)
  have proto: "load_proto_ref env db c d = Inr ((fst d)\<lparr>cr_proto := cr_proto r\<rparr>, snd d)" for d
    using r by (simp add: load_proto_ref_def Let_def load_member[OF ok c] saved_values cfg_okD[OF ok] refers_back_def add_ref_def)
  have "\<forall>x\<in>set (cr_features r). lookup_features db (fst x) = None" using r by (simp add: refers_back_def)
  from features_back[OF ok c a this, of "matching_part r"] show ?thesis
    by (simp add: early_steps_def rule_steps_def Let_def load_field_member[OF ok c] saved_values cfg_okD[OF ok] proto src sport dst dport
        matching_part_def fresh_rule_def)
qed

definition nat_ok :: "cfg_rule \<Rightarrow> bool" where
  "nat_ok r \<longleftrightarrow> (cr_nat r = POLICY_NAT_AUTO \<and> cr_nat_name r = ''auto'')
     \<or> (cr_nat r = POLICY_NAT_NONE \<and> cr_nat_name r \<in> {[], ''none''})"

lemma action_back:
  assumes ok: "cfg_ok L" and c: "is_group L c (saved_members L r a)" and r: "action_ok r"
  shows "load_action L c d = Inr ((fst d)\<lparr>cr_action := cr_action r, cr_action_name := cr_action_name r\<rparr>, snd d)"
  using r by (auto simp: load_action_def load_member[OF ok c] saved_values cfg_okD[OF ok] action_ok_def)

lemma nat_back:
  assumes ok: "cfg_ok L" and c: "is_group L c (saved_members L r a)" and r: "nat_ok r"
  shows "\<exists>r'. load_nat L c d = Inr (if cr_nat_name r = [] then (r', True)
     else ((fst d)\<lparr>cr_nat := cr_nat r, cr_nat_name := cr_nat_name r\<rparr>, snd d))"
  using r by (auto simp: load_nat_def load_member[OF ok c] saved_values cfg_okD[OF ok] nat_ok_def)

lemma routing_ref_back:
  assumes ok: "cfg_ok L" and c: "is_group L c (saved_members L r a)" and r: "refers_back env db r"
  shows "load_routing_ref L db c d = Inr (case profile_routing (cr_profiles r) of None \<Rightarrow> fst d
      | Some p \<Rightarrow> (fst d)\<lparr>cr_profiles := (cr_profiles (fst d))\<lparr>profile_routing := Some p\<rparr>\<rparr>, snd d)"
  using r by (cases "profile_routing (cr_profiles r)")
    (simp_all add: load_routing_ref_def load_member[OF ok c] saved_values cfg_okD[OF ok] Let_def refers_back_def)

lemma profiles_back:
  assumes ok: "cfg_ok L" and c: "is_group L c (saved_members L r a)" and r: "refers_back env db r"
    and script: "profile_script (cr_profiles r) = None"
  shows "\<exists>p'. run_fields (profile_steps L db c) (p, e) = Inr (p', e)
    \<and> (cr_profiles p = no_profiles \<longrightarrow> cr_auth p = None \<longrightarrow> p' = p\<lparr>cr_profiles := cr_profiles r, cr_auth := cr_auth r\<rparr>)"
proof -
  note named_prof = profile_back[OF ok c, where x = "profile_detection (cr_profiles r)" and nm = det_name]
    profile_back[OF ok c, where x = "profile_content (cr_profiles r)" and nm = cont_name]
    profile_back[OF ok c, where x = "profile_tls (cr_profiles r)" and nm = tls_name]
    profile_back[OF ok c, where x = "cr_auth r" and nm = "\<lambda>p. auth_name (pa_flags p)"]
    profile_back[OF ok c, where x = "profile_alg_dns (cr_profiles r)" and nm = alg_name]
  have scr: "load_profile L c ''script_profile'' lookup put d = Inr d" for lookup put d
    by (simp add: load_profile_def load_member[OF ok c] saved_values)
  show ?thesis
    using r script
    by (simp add: profile_steps_def named_prof saved_values scr refers_back_def routing_ref_back[OF ok c r])
       (cases "cr_profiles r"; cases "cr_auth r"; simp add: no_profiles_def split: option.splits)
qed

lemma rule_back:
  assumes ok: "cfg_ok (ce_lib env)" and c: "is_group (ce_lib env) c (saved_members (ce_lib env) r a)"
    and a: "saved_arrays (ce_lib env) r a" and r: "refers_back env db r" "action_ok r" "nat_ok r"
    and script: "profile_script (cr_profiles r) = None"
  shows "\<exists>r'. load_rule env db c = Inr (if cr_features r = [] \<and> cr_nat_name r \<noteq> [] then (r, False) else (r', True))"
proof -
  let ?L = "ce_lib env"
  obtain r1 where early: "run_fields (early_steps env db c) (fresh_rule, False)
      = Inr (if cr_features r = [] then matching_part r else r1, cr_features r \<noteq> [])"
    using early_back[OF ok c a r(1)] by blast
  have profs: "\<exists>p'. load_profiles ?L db c (p, e) = Inr (p', e) \<and> (cr_action p = cr_action r \<longrightarrow> cr_profiles p = no_profiles
      \<longrightarrow> cr_auth p = None \<longrightarrow> p' = p\<lparr>cr_profiles := cr_profiles r, cr_auth := cr_auth r\<rparr>)" for p e
    using profiles_back[OF ok c r(1) script, of p e] r(2)
    by (auto simp: load_profiles_def action_ok_def POLICY_ACTION_PASS_def)
  show ?thesis
  proof (cases "cr_features r = [] \<and> cr_nat_name r \<noteq> []")
    case True
    let ?p = "(matching_part r)\<lparr>cr_action := cr_action r, cr_action_name := cr_action_name r, cr_nat := cr_nat r, cr_nat_name := cr_nat_name r\<rparr>"
    have p: "cr_profiles ?p = no_profiles" "cr_auth ?p = None" "cr_action ?p = cr_action r"
      by (simp_all add: matching_part_def fresh_rule_def)
    have "load_rule env db c = load_profiles ?L db c (?p, False)"
      using True early nat_back[OF ok c r(3), of "((matching_part r)\<lparr>cr_action := cr_action r, cr_action_name := cr_action_name r\<rparr>, False)"]
      by (simp add: load_rule_def rule_steps_split run_fields_append action_back[OF ok c r(2)])
    also have "\<dots> = Inr (?p\<lparr>cr_profiles := cr_profiles r, cr_auth := cr_auth r\<rparr>, False)"
      using profs[of ?p False] p by auto
    also have "?p\<lparr>cr_profiles := cr_profiles r, cr_auth := cr_auth r\<rparr> = r"
      using True by (simp add: matching_part_def fresh_rule_def)
    finally show ?thesis using True by simp
  next
    case False
    obtain d2 where d2: "load_rule env db c = result_bind (load_nat ?L c d2) (load_profiles ?L db c)" "snd d2 = (cr_features r \<noteq> [])"
      using early by (simp add: load_rule_def rule_steps_split run_fields_append action_back[OF ok c r(2)] run_fields_one)
    obtain p where "load_nat ?L c d2 = Inr (p, True)"
      using nat_back[OF ok c r(3), of d2] False d2(2) by (cases d2) (auto split: if_splits)
    then show ?thesis using d2(1) profs[of p True] False by auto
  qed
qed

lemma load_rule_nat:
  assumes "load_rule env db cur = Inr (r, False)"
  shows "nat_ok r"
proof -
  let ?I = "\<lambda>x y d. cr_nat (fst d) = x \<and> cr_nat_name (fst d) = y"
  obtain d1 d2 d3 where d: "run_fields (early_steps env db cur) (fresh_rule, False) = Inr d1"
    "load_action (ce_lib env) cur d1 = Inr d2" "load_nat (ce_lib env) cur d2 = Inr d3"
    "load_profiles (ce_lib env) db cur d3 = Inr (r, False)"
    using load_rule_stages[OF assms] .
  have "list_all (keeps (?I POLICY_NAT_NONE [])) (early_steps env db cur)"
    unfolding early_steps_def rule_steps_def Let_def
    by simp (intro conjI keeps_intros; simp add: bad_ref_def)
  from keepsD[OF keeps_run[OF this] d(1)] have "?I POLICY_NAT_NONE [] d1" by (simp add: fresh_rule_def)
  then have "?I POLICY_NAT_NONE [] d2" using load_action_cases[OF d(2)] by auto
  then have "nat_ok (fst d3)" using load_nat_cases[OF d(3)] by (auto simp: nat_ok_def)
  moreover have prof: "keeps (?I x y) (load_profiles (ce_lib env) db cur)" for x y
    by (intro keeps_profiles, unfold profile_steps_def list.pred_inject, intro conjI keeps_intros; simp)
  ultimately show ?thesis
    using keepsD[OF prof[of "cr_nat (fst d3)" "cr_nat_name (fst d3)"] d(4)] by (simp add: nat_ok_def)
qed

text \<open>A loaded rule, saved and loaded again over the same tables.\<close>

definition survives :: "cfg_rule \<Rightarrow> bool" where
  "survives r \<longleftrightarrow> cr_features r = [] \<and> cr_nat_name r \<noteq> []"

text \<open>The script profile of a rule is not written.\<close>

definition forget_script :: "cfg_rule \<Rightarrow> cfg_rule" where
  "forget_script r = r\<lparr>cr_profiles := (cr_profiles r)\<lparr>profile_script := None\<rparr>\<rparr>"

lemma forget_script_saved:
  "saved_members L (forget_script r) a = saved_members L r a" "saved_arrays L (forget_script r) a = saved_arrays L r a"
  "refers_back env db (forget_script r) = refers_back env db r" "nat_ok (forget_script r) = nat_ok r"
  "cr_features (forget_script r) = cr_features r" "cr_nat_name (forget_script r) = cr_nat_name r" "profile_script (cr_profiles (forget_script r)) = None"
  by (simp_all add: forget_script_def saved_members_def saved_arrays_def refers_back_def nat_ok_def)

lemma forget_script_action: "action_ok r \<Longrightarrow> action_ok (forget_script r)"
  by (auto simp: forget_script_def action_ok_def no_profiles_def)

lemma saved_rule_back:
  assumes "cfg_ok (ce_lib env)" "db_named db" "load_rule env db cur = Inr (r, False)"
  shows "\<exists>c r'. policy_item (ce_lib env) r = Inr c \<and> load_rule env db c = Inr (if survives r then (forget_script r, False) else (r', True))"
proof -
  obtain c a where c: "policy_item (ce_lib env) r = Inr c" "is_group (ce_lib env) c (saved_members (ce_lib env) r a)"
      "saved_arrays (ce_lib env) r a"
    using policy_item_ok[OF assms(1), of r] by (auto simp: saved_arrays_def)
  have "refers_back env db r"
    using named_refers_back[OF assms(2)] load_rule_from_tables[OF assms(3)] by simp
  then show ?thesis
    using rule_back[OF assms(1), of c "forget_script r" a db] c forget_script_action[OF load_rule_action[OF assms(3)]] load_rule_nat[OF assms(3)]
    by (simp add: forget_script_saved survives_def)
qed

text \<open>The whole rule list.\<close>

lemma load_rules_total:
  assumes "\<forall>e\<in>set es. is_ok (load_rule env db (snd e))"
  shows "snd (load_rules env i es db) = None"
  using assms
proof (induction es arbitrary: i db)
  case (Cons e es)
  then obtain r err where r: "load_rule env db (snd e) = Inr (r, err)" by (cases "load_rule env db (snd e)") auto
  let ?db = "if \<not> err then db\<lparr>db_policy_list := db_policy_list db @ [r],
      db_policy := tab_put (policy_key i) r (db_policy db)\<rparr> else db"
  have "snd (load_rules env (i + 1) es ?db) = None" using Cons.IH[of ?db "i + 1"] Cons.prems by simp
  then show ?case using r by (simp add: Let_def)
qed simp

lemma reload_policy_total:
  assumes "cl_get (ce_lib env) root ''policy'' = Inr s" "\<forall>e\<in>set (cl_entries (ce_lib env) s). is_ok (load_rule env db (snd e))"
  shows "\<exists>db' b. reload_policy env root db = (db', Inr b)"
proof -
  let ?db = "db\<lparr>db_policy_list := [], db_policy := []\<rparr>"
  have "snd (load_rules env 0 (cl_entries (ce_lib env) s) ?db) = None"
    using load_rules_total[of "cl_entries (ce_lib env) s" env ?db 0] assms(2) by simp
  then show ?thesis using assms(1)
    by (cases "load_rules env 0 (cl_entries (ce_lib env) s) ?db")
       (simp add: reload_policy_def load_db_policy_def cleanup_db_policy_def)
qed

lemma item_list_ok:
  assumes "\<forall>x\<in>set xs. \<exists>c. f x = Inr c \<and> P x c"
  shows "\<exists>cs. item_list f xs = Inr cs \<and> list_all2 P xs cs"
  using assms
proof (induction xs)
  case (Cons x xs)
  then obtain c cs where "f x = Inr c" "P x c" "item_list f xs = Inr cs" "list_all2 P xs cs" by auto
  then show ?case by (intro exI[of _ "c # cs"]) simp
qed simp

lemma accepted_filter:
  assumes "list_all2 (\<lambda>r c. \<exists>r'. load_rule env db c = Inr (if keep r then (g r, False) else (r', True))) rs cs"
  shows "accepted env db (map (\<lambda>c. (None, c)) cs) = map g (filter keep rs)"
  using assms by (induction rule: list_all2_induct) (auto simp: accepted_def)

lemma save_policy_back:
  assumes ok: "cfg_ok (ce_lib env)" and db: "db_named db" and root: "is_group (ce_lib env) root secs" "''policy'' \<notin> fst ` set secs"
    and rules: "\<forall>r\<in>set (db_policy_list db). \<exists>cur. load_rule env db cur = Inr (r, False)"
  shows "\<exists>root' db' b. save_policy (ce_lib env) db root = Inr (root', length (db_policy_list db))
    \<and> reload_policy env root' db = (db', Inr b) \<and> db_policy_list db' = map forget_script (filter survives (db_policy_list db))"
proof -
  let ?L = "ce_lib env" and ?rs = "db_policy_list db"
  let ?P = "\<lambda>r c. \<exists>r'. load_rule env db c = Inr (if survives r then (forget_script r, False) else (r', True))"
  have "\<forall>r\<in>set ?rs. \<exists>c. policy_item ?L r = Inr c \<and> ?P r c"
    using saved_rule_back[OF ok db] rules by blast
  from item_list_ok[OF this] obtain cs where cs: "item_list (policy_item ?L) ?rs = Inr cs" "list_all2 ?P ?rs cs" by blast
  obtain l where l: "append_all ?L cs (cl_new ?L TypeList) = Inr l" "cl_entries ?L l = map (\<lambda>c. (None, c)) cs"
    using append_all_list[OF ok, of "cl_new ?L TypeList" cs] cfg_okD(1,2)[OF ok] by auto
  have new: "Some ''policy'' \<notin> fst ` set (cl_entries ?L root)" using root by (force simp: is_group_def)
  obtain root' where r: "cl_add ?L root ''policy'' l = Inr root'" "cl_type ?L root' = TypeGroup"
      "cl_entries ?L root' = cl_entries ?L root @ [(Some ''policy'', l)]"
    using cfg_ok_add[OF ok _ _ new, of l] root(1) by (auto simp: is_group_def)
  then have "is_group ?L root' (secs @ [(''policy'', l)])" using root(1) by (simp add: is_group_def)
  then have get: "cl_get ?L root' ''policy'' = Inr l" using root(2)
    by (simp add: get_member[OF ok] map_of_append map_add_def map_of_eq_None_iff[THEN iffD2])
  have "is_ok (load_rule env db c)" if "c \<in> set cs" for c
    using cs(2) that by (auto simp: list_all2_conv_all_nth in_set_conv_nth)
  then obtain db' b where db': "reload_policy env root' db = (db', Inr b)"
    using reload_policy_total[OF get, of db] l(2) by auto
  have "db_policy_list db' = map forget_script (filter survives ?rs)"
    using reload_policy_list(1)[OF db'] get l(2) accepted_filter[OF cs(2)] by simp
  moreover have "save_policy ?L db root = Inr (root', length ?rs)"
    using cs l(1) r(1) by (simp add: save_policy_def list_all2_lengthD)
  ultimately show ?thesis using db' by blast
qed

section \<open>The order of the rules after a move\<close>

text \<open>The loop copies what it does not have to move.\<close>

lemma move_loop_copy:
  assumes "\<And>j. i \<le> j \<Longrightarrow> j < i + int (length xs) \<Longrightarrow> j \<noteq> what \<and> j \<noteq> wh"
  shows "move_loop e all what wh op i (xs @ ys) acc = move_loop e all what wh op (i + int (length xs)) ys (acc @ xs)"
  using assms
proof (induction xs arbitrary: i acc)
  case (Cons x xs)
  have "i \<noteq> what \<and> i \<noteq> wh" using Cons.prems[of i] by simp
  moreover have "move_loop e all what wh op (i + 1) (xs @ ys) (acc @ [x])
      = move_loop e all what wh op (i + 1 + int (length xs)) ys ((acc @ [x]) @ xs)"
    by (rule Cons.IH) (use Cons.prems in simp)
  ultimately show ?case by (simp add: algebra_simps)
qed simp

lemma move_loop_rest:
  assumes "\<And>j. i \<le> j \<Longrightarrow> j < i + int (length xs) \<Longrightarrow> j \<noteq> what \<and> j \<noteq> wh"
  shows "move_loop e all what wh op i xs acc = (acc @ xs, True)"
  using move_loop_copy[OF assms, of i xs e all op "[]" acc] by simp

lemma at_index_append: "at_index (xs @ x # ys) (int (length xs)) = Some x"
  by (simp add: at_index_def)

text \<open>C28: A rule that is moved before or after another one ends up next to it, and the other rules
  keep their order; nothing is lost or added.\<close>

theorem move_policy_places:
  "move_policy L (Some (xs @ w # ys @ t # zs)) (int (length xs)) (int (length xs + 1 + length ys)) OP_MOVE_BEFORE = (Some (xs @ ys @ w # t # zs), True)
   \<and> move_policy L (Some (xs @ w # ys @ t # zs)) (int (length xs)) (int (length xs + 1 + length ys)) OP_MOVE_AFTER = (Some (xs @ ys @ t # w # zs), True)
   \<and> move_policy L (Some (xs @ t # ys @ w # zs)) (int (length xs + 1 + length ys)) (int (length xs)) OP_MOVE_BEFORE = (Some (xs @ w # t # ys @ zs), True)
   \<and> move_policy L (Some (xs @ t # ys @ w # zs)) (int (length xs + 1 + length ys)) (int (length xs)) OP_MOVE_AFTER = (Some (xs @ t # w # ys @ zs), True)"
proof -
  have "at_index (xs @ t # ys @ w # zs) (int (length xs + 1 + length ys)) = Some w"
    using at_index_append[of "xs @ t # ys" w zs] by (simp add: algebra_simps)
  moreover have "at_index (xs @ w # ys @ t # zs) (int (length xs)) = Some w" by (rule at_index_append)
  ultimately show ?thesis
    by (simp add: move_policy_def move_loop_copy[of 0 xs] move_loop_copy[of _ ys] move_loop_rest)
qed

text \<open>Moving a rule before or after itself, or next to a rule that does not exist, removes it
  and reports success; moving a rule that does not exist removes all rules behind the target and
  leaves an empty rule.\<close>

theorem move_policy_loses_rules:
  "move_policy L (Some (xs @ w # zs)) (int (length xs)) (int (length xs)) op = (Some (xs @ zs), True)
   \<and> move_policy L (Some (xs @ w # zs)) (int (length xs)) (int (length (xs @ w # zs) + k)) op = (Some (xs @ zs), True)
   \<and> move_policy L (Some (xs @ t # zs)) (int (length (xs @ t # zs) + k)) (int (length xs)) OP_MOVE_BEFORE = (Some (xs @ [cl_new L TypeGroup]), False)
   \<and> move_policy L (Some (xs @ t # zs)) (int (length (xs @ t # zs) + k)) (int (length xs)) OP_MOVE_AFTER = (Some (xs @ [t, cl_new L TypeGroup]), False)"
proof -
  have "at_index (xs @ t # zs) (int (length (xs @ t # zs) + k)) = None" by (simp add: at_index_def)
  then show ?thesis by (simp add: move_policy_def move_loop_copy[of 0 xs] move_loop_rest)
qed

text \<open>C7: When the rules of a configuration, all of them accepted by the loader, are saved and loaded again over the same
  objects, exactly the rules come back, in their order, that have no features and a NAT mode
  with a name; the others, all valid, are dropped.  The rules that come back are unchanged except that they have lost their
  script profile, which is not written.  The objects carry the names they are stored under, as \<open>db_named\<close> says.\<close>

theorem saved_policy_reload:
  assumes "cfg_ok (ce_lib env)" "db_named db"
    and "\<forall>r\<in>set (db_policy_list db). \<exists>cur. load_rule env db cur = Inr (r, False)"
  shows "\<exists>root db' b. save_policy (ce_lib env) db (cl_new (ce_lib env) TypeGroup) = Inr (root, length (db_policy_list db))
    \<and> reload_policy env root db = (db', Inr b)
    \<and> db_policy_list db' = map forget_script (filter (\<lambda>r. cr_features r = [] \<and> cr_nat_name r \<noteq> []) (db_policy_list db))"
proof -
  have "is_group (ce_lib env) (cl_new (ce_lib env) TypeGroup) []" using cfg_okD(1,2)[OF assms(1)] by (simp add: is_group_def)
  from save_policy_back[OF assms(1,2) this _ assms(3)] show ?thesis by (simp add: survives_def[abs_def])
qed

section \<open>Witnesses\<close>

lemma empty_db_named: "db_named empty_db"
  by (simp add: db_named_def empty_db_def named_def keys_of_def)

definition plain_rule_node :: node where
  "plain_rule_node = NAgg TypeGroup [(Some ''src'', NAgg TypeArray []), (Some ''sport'', NAgg TypeArray []),
     (Some ''dst'', NAgg TypeArray []), (Some ''dport'', NAgg TypeArray []), (Some ''action'', NStr ''accept'')]"

definition plain_rule :: cfg_rule where
  "plain_rule = fresh_rule\<lparr>cr_action := 1, cr_action_name := ''accept''\<rparr>"

lemma plain_rule_loads: "load_rule node_env empty_db plain_rule_node = Inr (plain_rule, False)"
  by (simp add: load_rule_def rule_steps_def Let_def node_env_def node_lib_def plain_rule_node_def load_field_def load_if_exists_def
      cfg_exists_def load_proto_ref_def load_group_def is_scalar_def load_features_refs_def load_action_def load_nat_def
      load_profiles_def profile_steps_def load_profile_def load_routing_ref_def plain_rule_def fresh_rule_def
      POLICY_ACTION_PASS_def POLICY_NAT_NONE_def)

theorem saved_policy_reload_witness:
  "\<exists>root db' b. save_policy node_lib (empty_db\<lparr>db_policy_list := [plain_rule, any_rule], db_policy := []\<rparr>) (NAgg TypeGroup []) = Inr (root, 2)
    \<and> reload_policy node_env root (empty_db\<lparr>db_policy_list := [plain_rule, any_rule], db_policy := []\<rparr>) = (db', Inr b)
    \<and> db_policy_list db' = [any_rule]"
proof -
  let ?db = "empty_db\<lparr>db_policy_list := [plain_rule, any_rule], db_policy := []\<rparr>"
  have "db_named ?db" using empty_db_named by (simp add: db_named_def)
  moreover have "\<forall>r\<in>set (db_policy_list ?db). \<exists>cur. load_rule node_env ?db cur = Inr (r, False)"
    using plain_rule_loads any_rule_loads by (auto simp: plain_rule_def any_rule_def fresh_rule_def no_profiles_def)
  moreover have "ce_lib node_env = node_lib" "cl_new node_lib TypeGroup = NAgg TypeGroup []" by (simp_all add: node_env_def node_lib_def node_new_def)
  ultimately obtain root db' b where "save_policy node_lib ?db (NAgg TypeGroup []) = Inr (root, length (db_policy_list ?db))"
      "reload_policy node_env root ?db = (db', Inr b)"
      "db_policy_list db' = map forget_script (filter (\<lambda>r. cr_features r = [] \<and> cr_nat_name r \<noteq> []) (db_policy_list ?db))"
    using saved_policy_reload[of node_env ?db] node_lib_ok by auto
  then show ?thesis by (intro exI[of _ root] exI[of _ db'] exI[of _ b]) (simp add: plain_rule_def any_rule_def fresh_rule_def forget_script_def no_profiles_def)
qed

end
