(* ===== verification/CfgTables.thy ===== *)
theory CfgTables
  imports CfgSave
begin

text \<open>The object tables after a save and a load: every section of the saved configuration is there
  and gives its table back.\<close>

section \<open>Sections one after the other\<close>

text \<open>A saver adds one section with a property \<open>Q\<close> to a root that does not have it.\<close>

definition adds :: "'s cfg_lib \<Rightarrow> ('s \<Rightarrow> cfg_exn + 's) \<Rightarrow> string \<Rightarrow> ('s \<Rightarrow> bool) \<Rightarrow> bool" where
  "adds L f sec Q \<longleftrightarrow> (\<forall>root secs. is_group L root secs \<longrightarrow> sec \<notin> fst ` set secs \<longrightarrow>
     (\<exists>s root'. f root = Inr root' \<and> is_group L root' (secs @ [(sec, s)]) \<and> Q s))"

lemma addsD:
  assumes "adds L f sec Q" "is_group L root secs" "sec \<notin> fst ` set secs"
  obtains s root' where "f root = Inr root'" "is_group L root' (secs @ [(sec, s)])" "Q s"
  using assms unfolding adds_def by blast

lemma adds_all:
  assumes "list_all (\<lambda>x. adds L (fst x) (fst (snd x)) (snd (snd x))) fs" "is_group L root secs"
    and "distinct (map fst secs @ map (\<lambda>x. fst (snd x)) fs)"
  shows "\<exists>root' ss. run_fields (map fst fs) root = Inr root' \<and> is_group L root' (secs @ ss)
    \<and> map fst ss = map (\<lambda>x. fst (snd x)) fs \<and> list_all2 (\<lambda>x s. snd (snd x) (snd s)) fs ss"
  using assms
proof (induction fs arbitrary: root secs)
  case Nil
  then show ?case by simp
next
  case (Cons x fs)
  obtain f sec Q where x: "x = (f, sec, Q)" by (cases x) auto
  have "adds L f sec Q" "sec \<notin> fst ` set secs" using Cons.prems(1,3) x by auto
  then obtain s root1 where s: "f root = Inr root1" "is_group L root1 (secs @ [(sec, s)])" "Q s"
    using addsD[OF _ Cons.prems(2)] by blast
  have "list_all (\<lambda>x. adds L (fst x) (fst (snd x)) (snd (snd x))) fs"
    "distinct (map fst (secs @ [(sec, s)]) @ map (\<lambda>x. fst (snd x)) fs)" using Cons.prems(1,3) x by auto
  from Cons.IH[OF this(1) s(2) this(2)] obtain root' ss where
    "run_fields (map fst fs) root1 = Inr root'" "is_group L root' ((secs @ [(sec, s)]) @ ss)"
    "map fst ss = map (\<lambda>x. fst (snd x)) fs" "list_all2 (\<lambda>x s. snd (snd x) (snd s)) fs ss" by blast
  then show ?case using x s by (intro exI[of _ root'] exI[of _ "(sec, s) # ss"]) simp
qed

lemma adds_all_get:
  assumes ok: "cfg_ok L" and fs: "list_all (\<lambda>x. adds L (fst x) (fst (snd x)) (snd (snd x))) fs" "distinct (map (\<lambda>x. fst (snd x)) fs)"
  shows "\<exists>root. run_fields (map fst fs) (cl_new L TypeGroup) = Inr root
    \<and> (\<forall>x\<in>set fs. \<exists>s. cl_get L root (fst (snd x)) = Inr s \<and> snd (snd x) s)"
proof -
  have "is_group L (cl_new L TypeGroup) []" using cfg_okD(1,2)[OF ok] by (simp add: is_group_def)
  then obtain root ss where r: "run_fields (map fst fs) (cl_new L TypeGroup) = Inr root" "is_group L root ss"
      "map fst ss = map (\<lambda>x. fst (snd x)) fs" "list_all2 (\<lambda>x s. snd (snd x) (snd s)) fs ss"
    using adds_all[OF fs(1), of "cl_new L TypeGroup" "[]"] fs(2) by auto
  have "\<exists>s. cl_get L root (fst (snd x)) = Inr s \<and> snd (snd x) s" if "x \<in> set fs" for x
  proof -
    obtain i where i: "i < length fs" "fs ! i = x" using \<open>x \<in> set fs\<close> by (auto simp: in_set_conv_nth)
    have len: "length ss = length fs" using list_all2_lengthD[OF r(4)] by simp
    have "fst (ss ! i) = fst (snd x)" using arg_cong[OF r(3), of "\<lambda>l. l ! i"] i len by simp
    moreover have "snd (snd x) (snd (ss ! i))" using list_all2_nthD[OF r(4) i(1)] i(2) by simp
    moreover have "ss ! i \<in> set ss" using i len by simp
    moreover have "distinct (map fst ss)" using fs(2) r(3) by simp
    ultimately have "map_of ss (fst (snd x)) = Some (snd (ss ! i))" by (metis map_of_is_SomeI prod.collapse)
    then show ?thesis using \<open>snd (snd x) (snd (ss ! i))\<close> by (simp add: get_member[OF ok r(2)])
  qed
  then show ?thesis using r(1) by blast
qed

lemma adds_section:
  assumes "cfg_ok L" "cfg_name sec" "tab_ok t" "\<forall>(n, v)\<in>set t. cfg_name n \<and> is_ok (item v)"
  shows "adds L (\<lambda>root. result_bind (save_section L sec item t root) (\<lambda>(root, _). Inr root)) sec
    (\<lambda>s. cl_entries L s = map (\<lambda>(n, v). (Some n, projr (item v))) t)"
  unfolding adds_def
proof (intro allI impI)
  fix root secs assume "is_group L root secs" "sec \<notin> fst ` set secs"
  moreover have "list_all cfg_name (map fst t)" "distinct (map fst t)" "\<forall>(n, v)\<in>set t. is_ok (item v)"
    using assms(3,4) by (auto simp: list_all_iff tab_ok_def)
  ultimately obtain s root' where "save_section L sec item t root = Inr (root', length t)"
      "is_group L root' (secs @ [(sec, s)])" "cl_entries L s = map (\<lambda>(n, v). (Some n, projr (item v))) t"
    using save_section_ok[OF assms(1) _ assms(2), of root secs t item] by blast
  then show "\<exists>s root'. result_bind (save_section L sec item t root) (\<lambda>(root, _). Inr root) = Inr root'
      \<and> is_group L root' (secs @ [(sec, s)]) \<and> cl_entries L s = map (\<lambda>(n, v). (Some n, projr (item v))) t"
    by (intro exI[of _ s] exI[of _ root']) simp
qed

lemma add_last:
  assumes "cfg_ok L" "is_group L root secs" "cfg_name sec" "sec \<notin> fst ` set secs"
  shows "\<exists>root'. cl_add L root sec s = Inr root' \<and> is_group L root' (secs @ [(sec, s)])"
proof -
  have "Some sec \<notin> fst ` set (cl_entries L root)" using assms(2,4) by (force simp: is_group_def)
  moreover have "cl_type L root = TypeGroup" using assms(2) by (simp add: is_group_def)
  ultimately obtain root' where "cl_add L root sec s = Inr root'" "cl_type L root' = TypeGroup"
      "cl_entries L root' = cl_entries L root @ [(Some sec, s)]"
    using cfg_ok_add[OF assms(1) _ assms(3), of root s] by blast
  then show ?thesis using assms(2) by (simp add: is_group_def)
qed

lemma adds_tls_ca:
  assumes "cfg_ok L"
  shows "adds L (\<lambda>root. result_bind (save_tls_ca L root) (\<lambda>(root, _). Inr root)) ''tls_ca'' (\<lambda>_. True)"
  unfolding adds_def save_tls_ca_def using add_last[OF assms, of _ _ "''tls_ca''" "cl_new L TypeGroup"] by fastforce

lemma item_list_total: "\<forall>x\<in>set xs. is_ok (f x) \<Longrightarrow> is_ok (item_list f xs)"
proof (induction xs)
  case (Cons x xs)
  then show ?case by (cases "f x"; cases "item_list f xs") simp_all
qed simp

section \<open>Content profiles\<close>

text \<open>What a saved content rule is read back as: \<open>fill_length\<close> is not among its members.\<close>

definition forget_fill :: "ProfileContent \<Rightarrow> ProfileContent" where
  "forget_fill p = p\<lparr>cont_rules := map (\<lambda>r. r\<lparr>pcr_fill_length := False, pcr_replace_each_counter := 0\<rparr>) (cont_rules p)\<rparr>"

definition content_saveable :: "ProfileContent \<Rightarrow> bool" where
  "content_saveable p \<longleftrightarrow> list_all (\<lambda>r. pcr_match r \<noteq> [] \<and> int32 (pcr_replace_each_nth r)) (cont_rules p)"

definition lower_formats :: "(string \<Rightarrow> string) \<Rightarrow> bool" where
  "lower_formats lower \<longleftrightarrow> (\<forall>f. lower (format_to_str f) = format_to_str f)"

lemma format_back: "format_from_str (format_to_str t) = t"
  by (cases t) (simp_all add: format_from_str_def format_to_str_def format_map_def)

lemma load_into_member:
  assumes "cfg_ok L" "is_group L s ms" "key \<noteq> []"
  shows "load_into L conv s key d = (case map_of ms key of
     None \<Rightarrow> Inr d
   | Some c \<Rightarrow> (case conv c of Inr v \<Rightarrow> Inr v | Inl SettingTypeException \<Rightarrow> Inr d | Inl e \<Rightarrow> Inl e))"
  unfolding load_into_def load_member[OF assms] by (auto split: option.splits sum.splits cfg_exn.splits)

lemma subrule_back:
  assumes "cfg_ok L" "pcr_match r \<noteq> []" "int32 (pcr_replace_each_nth r)"
  shows "\<exists>c. content_rule_item L r = Inr c
    \<and> load_subrule L c = Inr (Some (r\<lparr>pcr_fill_length := False, pcr_replace_each_counter := 0\<rparr>))"
proof -
  let ?ms = "[(''match'', cl_of_str L (pcr_match r)), (''replace'', cl_of_str L (pcr_replace r)),
     (''replace_each_nth'', cl_of_int L (pcr_replace_each_nth r))]"
  obtain c where c: "content_rule_item L r = Inr c" "is_group L c ?ms"
    using make_group_ok[OF assms(1), of ?ms] by (auto simp: content_rule_item_def)
  then show ?thesis using assms(2,3)
    by (simp add: load_subrule_def load_into_member[OF assms(1) c(2)] load_member[OF assms(1) c(2)] cfg_okD[OF assms(1)])
qed

lemma subrules_back:
  assumes "cfg_ok L" "list_all (\<lambda>r. pcr_match r \<noteq> [] \<and> int32 (pcr_replace_each_nth r)) rs"
  shows "\<exists>cs. item_list (content_rule_item L) rs = Inr cs \<and> (\<forall>p. load_db_prof_content_subrules L (map (\<lambda>c. (None, c)) cs) p
     = (p\<lparr>cont_rules := cont_rules p @ map (\<lambda>r. r\<lparr>pcr_fill_length := False, pcr_replace_each_counter := 0\<rparr>) rs\<rparr>, None))"
  using assms(2)
proof (induction rs)
  case (Cons r rs)
  then obtain cs where cs: "item_list (content_rule_item L) rs = Inr cs"
    "\<forall>p. load_db_prof_content_subrules L (map (\<lambda>c. (None, c)) cs) p
     = (p\<lparr>cont_rules := cont_rules p @ map (\<lambda>r. r\<lparr>pcr_fill_length := False, pcr_replace_each_counter := 0\<rparr>) rs\<rparr>, None)" by auto
  obtain c where c: "content_rule_item L r = Inr c"
    "load_subrule L c = Inr (Some (r\<lparr>pcr_fill_length := False, pcr_replace_each_counter := 0\<rparr>))"
    using subrule_back[OF assms(1), of r] Cons.prems by auto
  show ?case using cs c by (intro exI[of _ "c # cs"]) simp
qed simp

lemma content_back:
  assumes ok: "cfg_ok (ce_lib env)" and lower: "lower_formats (ce_tolower env)" and p: "content_saveable p" "cont_name p = n"
  shows "\<exists>c. content_item (ce_lib env) p = Inr c \<and> content_entry env n c = (Some (n, forget_fill p), None)"
proof -
  let ?L = "ce_lib env"
  obtain cs where cs: "item_list (content_rule_item ?L) (cont_rules p) = Inr cs"
    "\<And>q. load_db_prof_content_subrules ?L (map (\<lambda>c. (None, c)) cs) q
     = (q\<lparr>cont_rules := cont_rules q @ map (\<lambda>r. r\<lparr>pcr_fill_length := False, pcr_replace_each_counter := 0\<rparr>) (cont_rules p)\<rparr>, None)"
    using subrules_back[OF ok, of "cont_rules p"] p(1) by (auto simp: content_saveable_def)
  obtain l where l: "append_all ?L cs (cl_new ?L TypeList) = Inr l" "cl_entries ?L l = map (\<lambda>c. (None, c)) cs"
    using append_all_list[OF ok, of "cl_new ?L TypeList" cs] cfg_okD(1,2)[OF ok] by auto
  let ?ms = "[(''write_payload'', cl_of_bool ?L (cont_write_payload p)),
       (''write_format'', cl_of_str ?L (format_to_str (cont_write_format p)))] @ (if cont_rules p = [] then [] else [(''content_rules'', l)])"
  obtain c where c: "content_item ?L p = Inr c" "is_group ?L c ?ms"
    using make_group_ok[OF ok, of ?ms] cs(1) l(1) by (cases "cont_rules p = []") (auto simp: content_item_def)
  have rules: "(case cl_get ?L c ''content_rules'' of Inl _ \<Rightarrow> (q, None)
      | Inr rules \<Rightarrow> load_db_prof_content_subrules ?L (cl_entries ?L rules) q)
    = (q\<lparr>cont_rules := cont_rules q @ map (\<lambda>r. r\<lparr>pcr_fill_length := False, pcr_replace_each_counter := 0\<rparr>) (cont_rules p)\<rparr>, None)" for q
    by (simp add: get_member[OF ok c(2)] l(2) cs(2))
  have "content_entry env n c = (Some (n, forget_fill p), None)"
    unfolding content_entry_def Let_def rules
    using p(2) lower by (cases p) (simp add: load_member[OF ok c(2)] load_into_member[OF ok c(2)] cfg_okD[OF ok] forget_fill_def
        load_db_prof_content_write_format_def format_back lower_formats_def)
  then show ?thesis using c(1) by blast
qed

section \<open>All tables\<close>

definition table_of :: "('v \<Rightarrow> bool) \<Rightarrow> 'v table \<Rightarrow> bool" where
  "table_of P t \<longleftrightarrow> tab_ok t \<and> (\<forall>e\<in>set t. cfg_name (fst e) \<and> \<not> reserved_name (fst e) \<and> P (snd e))"

text \<open>Tables that can be written: names the library allows, elements under their own names,
  numbers a setting can hold, targets that exist, and as CIDR addresses only the IPv4 blocks the parser can return.\<close>

definition routing_saveable :: "cfg_db \<Rightarrow> ProfileRouting \<Rightarrow> bool" where
  "routing_saveable db p \<longleftrightarrow>
     list_all (\<lambda>a. tab_get (db_address db) a \<noteq> None) (dnat_addresses p)
     \<and> list_all (\<lambda>a. tab_get (db_port db) a \<noteq> None) (dnat_ports p)"

definition auth_saveable :: "ProfileAuth \<Rightarrow> bool" where
  "auth_saveable p \<longleftrightarrow> distinct (map sub_name (sub_policies p)) \<and> list_all cfg_name (map sub_name (sub_policies p))"

definition own_names :: "('v \<Rightarrow> string) \<Rightarrow> 'v table \<Rightarrow> bool" where
  "own_names nm t \<longleftrightarrow> (\<forall>e\<in>set t. nm (snd e) = fst e)"

definition address_saveable :: "addr_obj elem \<Rightarrow> bool" where
  "address_saveable x \<longleftrightarrow> (case snd x of FqdnAddress _ \<Rightarrow> True | CidrAddress None \<Rightarrow> False
     | CidrAddress (Some b) \<Rightarrow> valid_block b \<and> c_proto b = CIDR_IPV4 \<and> c_version b = 0)"

definition saveable :: "cfg_db \<Rightarrow> bool" where
  "saveable db \<longleftrightarrow>
     table_of address_saveable (db_address db) \<and> own_names fst (db_address db)
   \<and> table_of (\<lambda>x. fst (snd x) \<le> snd (snd x) \<and> int32 (fst (snd x)) \<and> int32 (snd (snd x))) (db_port db) \<and> own_names fst (db_port db)
   \<and> table_of (\<lambda>_. True) (db_proto db) \<and> own_names fst (db_proto db)
   \<and> table_of (\<lambda>p. int32 (det_mode p)) (db_prof_detection db) \<and> own_names det_name (db_prof_detection db)
   \<and> table_of content_saveable (db_prof_content db) \<and> own_names cont_name (db_prof_content db)
   \<and> table_of tls_saveable (db_prof_tls db) \<and> own_names tls_name (db_prof_tls db)
   \<and> table_of (\<lambda>_. True) (db_prof_alg_dns db) \<and> own_names alg_name (db_prof_alg_dns db)
   \<and> table_of auth_saveable (db_prof_auth db)
   \<and> table_of (routing_saveable db) (db_routing db) \<and> own_names rt_name (db_routing db)"

text \<open>The address functions of the loader are those of the CIDR library; \<open>pre\<close> is the memory in front of a text.\<close>

definition reads_cidr :: "cmem \<Rightarrow> 's cfg_env \<Rightarrow> bool" where
  "reads_cidr pre env \<longleftrightarrow>
     ae_from_str (ce_addr env) = (\<lambda>s. case cidr_from_str pre (c_str s) of Inr c \<Rightarrow> Some c | Inl _ \<Rightarrow> None)"

lemma cidr_address_back:
  assumes "reads_cidr pre env" "address_saveable (m, CidrAddress c)"
  shows "ae_from_str (ce_addr env) (cidr_text c) = c"
proof -
  obtain b where b: "c = Some b" "valid_block b" "c_proto b = CIDR_IPV4" "c_version b = 0"
    using assms(2) by (auto simp: address_saveable_def split: option.splits)
  have "b\<lparr>c_version := 0\<rparr> = b" using b(4) by (cases b) simp
  then obtain t where "cidr_to_str (Some b) 0 = Inr t" "c_str t = t" "cidr_from_str pre t = Inr b"
    using v4_print_parse[OF b(2,3), of pre] by auto
  then show ?thesis using assms(1) b(1) by (simp add: reads_cidr_def cidr_text_def)
qed

definition reset_lb :: "ProfileRouting \<Rightarrow> ProfileRouting" where
  "reset_lb p = p\<lparr>lb_state := fresh_lb\<rparr>"

lemma table_of_D:
  assumes "table_of P t"
  shows "tab_ok t" "(n, v) \<in> set t \<Longrightarrow> cfg_name n" "(n, v) \<in> set t \<Longrightarrow> \<not> reserved_name n" "(n, v) \<in> set t \<Longrightarrow> P v"
  using assms by (force simp: table_of_def)+

text \<open>From items that are read back to tables that are read back, up to a change \<open>g\<close> of the elements.\<close>

lemma load_saved_as:
  assumes "cl_get L root sec = Inr s" "cl_entries L s = map (\<lambda>(n, v). (Some n, projr (item v))) t"
    and t: "table_of P t" and "\<And>n v. (n, v) \<in> set t \<Longrightarrow> \<exists>c. item v = Inr c \<and> entry n c = (Some (n, g v), None)"
  shows "load_section L root sec entry [] = (map (\<lambda>(n, v). (n, g v)) t, Inr (length t))"
proof -
  have "named_entry entry (Some n, projr (item v)) = (Some (n, g v), None)" if "(n, v) \<in> set t" for n v
    using assms(4)[OF that] table_of_D(3)[OF t that] by (auto simp: named_entry_def)
  then have "map (named_entry entry) (cl_entries L s) = map (\<lambda>e. (Some e, None)) (map (\<lambda>(n, v). (n, g v)) t)"
    by (auto simp: assms(2))
  moreover have "tab_ok (map (\<lambda>(n, v). (n, g v)) t)" using table_of_D(1)[OF t] by (simp add: tab_ok_def comp_def case_prod_unfold)
  ultimately have "load_each (named_entry entry) (cl_entries L s) [] = (map (\<lambda>(n, v). (n, g v)) t, None)"
    using load_each_roundtrip[of "[]" "map (\<lambda>(n, v). (n, g v)) t" "named_entry entry" "cl_entries L s"] by simp
  then show ?thesis using assms(1,2) by (simp add: load_section_def)
qed

lemma load_saved:
  assumes "cl_get L root sec = Inr s" "cl_entries L s = map (\<lambda>(n, v). (Some n, projr (item v))) t"
    and "table_of P t" "\<And>n v. (n, v) \<in> set t \<Longrightarrow> \<exists>c. item v = Inr c \<and> entry n c = (Some (n, v), None)"
  shows "load_section L root sec entry [] = (t, Inr (length t))"
  using load_saved_as[OF assms(1-3), of entry "\<lambda>v. v"] assms(4) by simp

lemma adds_table:
  assumes "cfg_ok L" "cfg_name sec" "table_of P t" "\<And>n v. (n, v) \<in> set t \<Longrightarrow> \<exists>c. item v = Inr c"
  shows "adds L (\<lambda>root. result_bind (save_section L sec item t root) (\<lambda>(root, _). Inr root)) sec
    (\<lambda>s. cl_entries L s = map (\<lambda>(n, v). (Some n, projr (item v))) t)"
  by (rule adds_section[OF assms(1,2) table_of_D(1)[OF assms(3)]]) (use table_of_D(2)[OF assms(3)] assms(4) in fastforce)

lemma name_members_ok:
  assumes "cfg_ok L"
  shows "is_ok (identity_item L x) \<and> fst (projr (identity_item L x)) = sub_name x"
proof -
  let ?ms = "name_member L ''detection_profile'' det_name (profile_detection (sub_profiles x))
          @ name_member L ''tls_profile'' tls_name (profile_tls (sub_profiles x))
          @ name_member L ''content_profile'' cont_name (profile_content (sub_profiles x))
          @ name_member L ''alg_dns_profile'' alg_name (profile_alg_dns (sub_profiles x))"
  have "list_all cfg_name (map fst ?ms)" "distinct (map fst ?ms)"
    by (auto simp: name_member_def split: option.splits)
  from make_group_ok[OF assms this] show ?thesis by (auto simp: identity_item_def Let_def)
qed

lemma identities_ok:
  assumes "cfg_ok L"
  shows "\<exists>ids. item_list (identity_item L) xs = Inr ids \<and> map fst ids = map sub_name xs"
proof (induction xs)
  case (Cons x xs)
  obtain ids where "item_list (identity_item L) xs = Inr ids" "map fst ids = map sub_name xs" using Cons.IH by blast
  moreover obtain y where "identity_item L x = Inr y" "fst y = sub_name x"
    using name_members_ok[OF assms, of x] by (cases "identity_item L x") auto
  ultimately show ?case by (intro exI[of _ "y # ids"]) simp
qed simp

lemma auth_item_ok:
  assumes "cfg_ok L" "auth_saveable p"
  shows "\<exists>c. auth_item L p = Inr c"
proof -
  obtain ids where ids: "item_list (identity_item L) (sub_policies p) = Inr ids" "map fst ids = map sub_name (sub_policies p)"
    using identities_ok[OF assms(1)] by blast
  obtain g where "make_group L ids = Inr g"
    using make_group_ok[OF assms(1), of ids] ids(2) assms(2) by (auto simp: auth_saveable_def)
  moreover have "\<exists>c. make_group L ([(''authenticate'', cl_of_bool L (auth_authenticate (pa_flags p))),
       (''resolve'', cl_of_bool L (auth_resolve (pa_flags p)))] @ ms) = Inr c" if "ms = [] \<or> ms = [(''identities'', g)]" for ms
    using make_group_ok[OF assms(1), of "[(''authenticate'', cl_of_bool L (auth_authenticate (pa_flags p))),
       (''resolve'', cl_of_bool L (auth_resolve (pa_flags p)))] @ ms"] that by auto
  ultimately show ?thesis using ids(1) by (simp add: auth_item_def)
qed

lemmas save_defs = save_address_objects_def save_port_objects_def save_proto_objects_def save_detection_profiles_def
  save_content_profiles_def save_tls_profiles_def save_alg_dns_profiles_def save_auth_profiles_def save_routing_def

lemma own_name: "own_names nm t \<Longrightarrow> (k, v) \<in> set t \<Longrightarrow> nm v = k"
  by (force simp: own_names_def)

text \<open>Every element of such tables is written and read back.\<close>

lemma saveable_items:
  assumes ok: "cfg_ok (ce_lib env)" and lower: "lower_formats (ce_tolower env)" and cidr: "reads_cidr pre env" and db: "saveable db"
  shows "(k, a) \<in> set (db_address db) \<Longrightarrow> \<exists>c. address_item (ce_lib env) a = Inr c \<and> address_entry env k c = (Some (k, a), None)"
    and "(k, b) \<in> set (db_port db) \<Longrightarrow> \<exists>c. port_item (ce_lib env) b = Inr c \<and> port_entry env k c = (Some (k, b), None)"
    and "(k, p) \<in> set (db_proto db) \<Longrightarrow> \<exists>c. proto_item (ce_lib env) p = Inr c \<and> proto_entry env k c = (Some (k, p), None)"
    and "(k, e) \<in> set (db_prof_detection db) \<Longrightarrow> \<exists>c. detection_item (ce_lib env) e = Inr c \<and> detection_entry env k c = (Some (k, e), None)"
    and "(k, f) \<in> set (db_prof_content db) \<Longrightarrow> \<exists>c. content_item (ce_lib env) f = Inr c \<and> content_entry env k c = (Some (k, forget_fill f), None)"
    and "(k, t) \<in> set (db_prof_tls db) \<Longrightarrow> \<exists>c. tls_item (ce_lib env) t = Inr c \<and> tls_entry env k c = (Some (k, t), None)"
    and "(k, d) \<in> set (db_prof_alg_dns db) \<Longrightarrow> \<exists>c. alg_dns_item (ce_lib env) d = Inr c \<and> alg_dns_entry env k c = (Some (k, d), None)"
    and "(k, r) \<in> set (db_routing db) \<Longrightarrow> \<exists>c. routing_item (ce_lib env) r = Inr c \<and> routing_entry env db k c = (Some (k, reset_lb r), None)"
proof -
  have t: "table_of address_saveable (db_address db)"
    "table_of (\<lambda>x. fst (snd x) \<le> snd (snd x) \<and> int32 (fst (snd x)) \<and> int32 (snd (snd x))) (db_port db)"
    "table_of (\<lambda>p. int32 (det_mode p)) (db_prof_detection db)" "table_of content_saveable (db_prof_content db)"
    "table_of tls_saveable (db_prof_tls db)" "table_of (routing_saveable db) (db_routing db)"
    and o: "own_names fst (db_address db)" "own_names fst (db_port db)" "own_names fst (db_proto db)"
    "own_names det_name (db_prof_detection db)" "own_names cont_name (db_prof_content db)" "own_names tls_name (db_prof_tls db)"
    "own_names alg_name (db_prof_alg_dns db)" "own_names rt_name (db_routing db)"
    using db by (simp_all only: saveable_def)
  show "\<exists>c. address_item (ce_lib env) a = Inr c \<and> address_entry env k c = (Some (k, a), None)" if "(k, a) \<in> set (db_address db)"
  proof -
    obtain m o' where a: "a = (m, o')" by (cases a)
    have "\<forall>c. o' = CidrAddress c \<longrightarrow> ae_from_str (ce_addr env) (cidr_text c) = c"
      using cidr_address_back[OF cidr] table_of_D(4)[OF t(1) that] a by blast
    then show ?thesis using address_back[OF ok, of o' k k] own_name[OF o(1) that] a by auto
  qed
  show "\<exists>c. port_item (ce_lib env) b = Inr c \<and> port_entry env k c = (Some (k, b), None)" if "(k, b) \<in> set (db_port db)"
    using port_back[OF ok, of "fst (snd b)" "snd (snd b)" k k] table_of_D(4)[OF t(2) that] own_name[OF o(2) that] by (cases b) auto
  show "\<exists>c. proto_item (ce_lib env) p = Inr c \<and> proto_entry env k c = (Some (k, p), None)" if "(k, p) \<in> set (db_proto db)"
    using proto_back[OF ok, of k "snd p" k] own_name[OF o(3) that] by (cases p) auto
  show "\<exists>c. detection_item (ce_lib env) e = Inr c \<and> detection_entry env k c = (Some (k, e), None)" if "(k, e) \<in> set (db_prof_detection db)"
    by (rule detection_back[OF ok table_of_D(4)[OF t(3) that] own_name[OF o(4) that]])
  show "\<exists>c. content_item (ce_lib env) f = Inr c \<and> content_entry env k c = (Some (k, forget_fill f), None)" if "(k, f) \<in> set (db_prof_content db)"
    by (rule content_back[OF ok lower table_of_D(4)[OF t(4) that] own_name[OF o(5) that]])
  show "\<exists>c. tls_item (ce_lib env) t = Inr c \<and> tls_entry env k c = (Some (k, t), None)" if "(k, t) \<in> set (db_prof_tls db)"
    by (rule tls_back[OF ok own_name[OF o(6) that] table_of_D(4)[OF t(5) that]])
  show "\<exists>c. alg_dns_item (ce_lib env) d = Inr c \<and> alg_dns_entry env k c = (Some (k, d), None)" if "(k, d) \<in> set (db_prof_alg_dns db)"
    by (rule alg_dns_back[OF ok own_name[OF o(7) that]])
  show "\<exists>c. routing_item (ce_lib env) r = Inr c \<and> routing_entry env db k c = (Some (k, reset_lb r), None)" if "(k, r) \<in> set (db_routing db)"
  proof -
    have "routing_item (ce_lib env) (reset_lb r) = routing_item (ce_lib env) r" by (simp add: routing_item_def reset_lb_def)
    moreover have "\<exists>c. routing_item (ce_lib env) (reset_lb r) = Inr c \<and> routing_entry env db k c = (Some (k, reset_lb r), None)"
      using table_of_D(4)[OF t(6) that] own_name[OF o(8) that]
      by (intro routing_back[OF ok]) (simp_all add: routing_saveable_def reset_lb_def)
    ultimately show ?thesis by simp
  qed
qed

text \<open>What the sections of the saved root hold, in the order of \<open>save_config\<close>.\<close>

definition section_of :: "'s cfg_lib \<Rightarrow> 's \<Rightarrow> string \<Rightarrow> ('v \<Rightarrow> cfg_exn + 's) \<Rightarrow> 'v table \<Rightarrow> bool" where
  "section_of L root sec item t \<longleftrightarrow> (\<exists>s. cl_get L root sec = Inr s \<and> cl_entries L s = map (\<lambda>(n, v). (Some n, projr (item v))) t)"

lemma policy_adds:
  assumes "cfg_ok L" "is_ok (item_list (policy_item L) (db_policy_list db))"
  shows "adds L (\<lambda>root. result_bind (save_policy L db root) (\<lambda>(root, _). Inr root)) ''policy'' (\<lambda>_. True)"
proof -
  obtain rs where rs: "item_list (policy_item L) (db_policy_list db) = Inr rs"
    using assms(2) by (cases "item_list (policy_item L) (db_policy_list db)") simp_all
  obtain l where "append_all L rs (cl_new L TypeList) = Inr l"
    using append_all_list[OF assms(1), of "cl_new L TypeList" rs] cfg_okD(1,2)[OF assms(1)] by auto
  then show ?thesis using rs add_last[OF assms(1), of _ _ "''policy''" l] unfolding adds_def save_policy_def by fastforce
qed

lemma saveable_tables:
  assumes "saveable db"
  shows "\<exists>P. table_of P (db_address db)" "\<exists>P. table_of P (db_port db)" "\<exists>P. table_of P (db_proto db)"
    "\<exists>P. table_of P (db_prof_detection db)" "\<exists>P. table_of P (db_prof_content db)" "\<exists>P. table_of P (db_prof_tls db)"
    "\<exists>P. table_of P (db_prof_alg_dns db)" "table_of auth_saveable (db_prof_auth db)" "\<exists>P. table_of P (db_routing db)"
  using assms unfolding saveable_def by blast+

lemma adds_table':
  assumes "cfg_ok L" "cfg_name sec" "\<exists>P. table_of P t" "\<And>n v. (n, v) \<in> set t \<Longrightarrow> \<exists>c. item v = Inr c"
  shows "adds L (\<lambda>root. result_bind (save_section L sec item t root) (\<lambda>(root, _). Inr root)) sec
    (\<lambda>s. cl_entries L s = map (\<lambda>(n, v). (Some n, projr (item v))) t)"
proof -
  obtain P where "table_of P t" using assms(3) by blast
  then show ?thesis using adds_table[of L sec P t item] assms by blast
qed

lemma saved_sections:
  assumes ok: "cfg_ok (ce_lib env)" and lower: "lower_formats (ce_tolower env)" and cidr: "reads_cidr pre env" and db: "saveable db"
    and pol: "is_ok (item_list (policy_item (ce_lib env)) (db_policy_list db))"
  shows "\<exists>root. save_tables (ce_lib env) db (cl_new (ce_lib env) TypeGroup) = Inr root
    \<and> section_of (ce_lib env) root ''address_objects'' (address_item (ce_lib env)) (db_address db)
    \<and> section_of (ce_lib env) root ''port_objects'' (port_item (ce_lib env)) (db_port db)
    \<and> section_of (ce_lib env) root ''proto_objects'' (proto_item (ce_lib env)) (db_proto db)
    \<and> section_of (ce_lib env) root ''detection_profiles'' (detection_item (ce_lib env)) (db_prof_detection db)
    \<and> section_of (ce_lib env) root ''content_profiles'' (content_item (ce_lib env)) (db_prof_content db)
    \<and> section_of (ce_lib env) root ''tls_profiles'' (tls_item (ce_lib env)) (db_prof_tls db)
    \<and> section_of (ce_lib env) root ''alg_dns_profiles'' (alg_dns_item (ce_lib env)) (db_prof_alg_dns db)
    \<and> section_of (ce_lib env) root ''routing'' (routing_item (ce_lib env)) (db_routing db)"
proof -
  let ?L = "ce_lib env"
  let ?w = "\<lambda>f root. result_bind (f root) (\<lambda>(root, _). Inr root)"
  define fs where "fs = [(?w (save_address_objects ?L db), ''address_objects'', \<lambda>s. cl_entries ?L s = map (\<lambda>(n, v). (Some n, projr (address_item ?L v))) (db_address db)),
    (?w (save_port_objects ?L db), ''port_objects'', \<lambda>s. cl_entries ?L s = map (\<lambda>(n, v). (Some n, projr (port_item ?L v))) (db_port db)),
    (?w (save_proto_objects ?L db), ''proto_objects'', \<lambda>s. cl_entries ?L s = map (\<lambda>(n, v). (Some n, projr (proto_item ?L v))) (db_proto db)),
    (?w (save_detection_profiles ?L db), ''detection_profiles'', \<lambda>s. cl_entries ?L s = map (\<lambda>(n, v). (Some n, projr (detection_item ?L v))) (db_prof_detection db)),
    (?w (save_content_profiles ?L db), ''content_profiles'', \<lambda>s. cl_entries ?L s = map (\<lambda>(n, v). (Some n, projr (content_item ?L v))) (db_prof_content db)),
    (?w (save_tls_ca ?L), ''tls_ca'', \<lambda>_. True),
    (?w (save_tls_profiles ?L db), ''tls_profiles'', \<lambda>s. cl_entries ?L s = map (\<lambda>(n, v). (Some n, projr (tls_item ?L v))) (db_prof_tls db)),
    (?w (save_alg_dns_profiles ?L db), ''alg_dns_profiles'', \<lambda>s. cl_entries ?L s = map (\<lambda>(n, v). (Some n, projr (alg_dns_item ?L v))) (db_prof_alg_dns db)),
    (?w (save_auth_profiles ?L db), ''auth_profiles'', \<lambda>s. cl_entries ?L s = map (\<lambda>(n, v). (Some n, projr (auth_item ?L v))) (db_prof_auth db)),
    (?w (save_routing ?L db), ''routing'', \<lambda>s. cl_entries ?L s = map (\<lambda>(n, v). (Some n, projr (routing_item ?L v))) (db_routing db)),
    (?w (save_policy ?L db), ''policy'', \<lambda>_. True)]"
  note items = saveable_items[OF ok lower cidr db] and tables = saveable_tables[OF db]
  have a: "(k, p) \<in> set (db_prof_auth db) \<Longrightarrow> \<exists>c. auth_item ?L p = Inr c" for k p
    using auth_item_ok[OF ok] table_of_D(4)[OF tables(8)] by blast
  have ex: "(\<exists>c. f c \<and> g c) \<Longrightarrow> (\<exists>c. f c)" for f g :: "'a \<Rightarrow> bool" by blast
  note add = adds_table'[OF ok _ tables(1) ex[OF items(1)]] adds_table'[OF ok _ tables(2) ex[OF items(2)]]
    adds_table'[OF ok _ tables(3) ex[OF items(3)]] adds_table'[OF ok _ tables(4) ex[OF items(4)]]
    adds_table'[OF ok _ tables(5) ex[OF items(5)]] adds_table'[OF ok _ tables(6) ex[OF items(6)]]
    adds_table'[OF ok _ tables(7) ex[OF items(7)]] adds_table[OF ok _ tables(8) a] adds_table'[OF ok _ tables(9) ex[OF items(8)]]
  have "list_all (\<lambda>x. adds ?L (fst x) (fst (snd x)) (snd (snd x))) fs"
    unfolding fs_def list.pred_inject fst_conv snd_conv save_defs
    by (intro conjI TrueI add adds_tls_ca[OF ok] policy_adds[OF ok pol]) simp_all
  moreover have "distinct (map (\<lambda>x. fst (snd x)) fs)" by (simp add: fs_def)
  ultimately obtain root where r: "run_fields (map fst fs) (cl_new ?L TypeGroup) = Inr root"
      "\<forall>x\<in>set fs. \<exists>s. cl_get ?L root (fst (snd x)) = Inr s \<and> snd (snd x) s"
    using adds_all_get[OF ok, of fs] by blast
  have "save_tables ?L db (cl_new ?L TypeGroup) = Inr root"
    using r(1) unfolding save_tables_def fs_def by (simp only: list.map fst_conv)
  then show ?thesis using r(2) by (intro exI[of _ root]) (simp add: fs_def section_of_def)
qed

lemma load_section_as:
  assumes "\<exists>P. table_of P t" "section_of L root sec item t"
    and "\<And>n v. (n, v) \<in> set t \<Longrightarrow> \<exists>c. item v = Inr c \<and> entry n c = (Some (n, g v), None)"
  shows "load_section L root sec entry [] = (map (\<lambda>(n, v). (n, g v)) t, Inr (length t))"
  using assms(1,2) load_saved_as[of L root sec _ item t _ entry g] assms(3) unfolding section_of_def by blast

lemma load_section_back:
  assumes "\<exists>P. table_of P t" "section_of L root sec item t"
    and "\<And>n v. (n, v) \<in> set t \<Longrightarrow> \<exists>c. item v = Inr c \<and> entry n c = (Some (n, v), None)"
  shows "load_section L root sec entry [] = (t, Inr (length t))"
  using load_section_as[OF assms(1,2), of entry "\<lambda>v. v"] assms(3) by simp

lemma routing_count:
  assumes "\<exists>P. table_of P t" "section_of L root sec item t"
  shows "(case cl_get L root sec of Inl _ \<Rightarrow> 0
      | Inr s \<Rightarrow> length (filter (\<lambda>(n, _). case n of None \<Rightarrow> False | Some n \<Rightarrow> \<not> reserved_name n) (cl_entries L s))) = length t"
proof -
  obtain P s where "table_of P t" and s: "cl_get L root sec = Inr s" "cl_entries L s = map (\<lambda>(n, v). (Some n, projr (item v))) t"
    using assms by (auto simp: section_of_def)
  then have "filter (\<lambda>(n, _). case n of None \<Rightarrow> False | Some n \<Rightarrow> \<not> reserved_name n) (cl_entries L s) = cl_entries L s"
    by (auto simp: filter_id_conv table_of_def)
  then show ?thesis using s by simp
qed

lemmas loader_defs = load_db_address_def load_db_port_def load_db_proto_def load_db_prof_detection_def load_db_prof_tls_def
  load_db_prof_alg_dns_def load_db_routing_def load_db_prof_content_def

lemmas cleanup_defs = cleanup_db_address_def cleanup_db_port_def cleanup_db_proto_def cleanup_db_prof_detection_def
  cleanup_db_prof_tls_def cleanup_db_prof_alg_dns_def cleanup_db_routing_def cleanup_db_prof_content_def

section \<open>Properties\<close>

text \<open>C6: Saving the tables and loading each section again over the emptied table, with the CIDR parser of the program, restores the
  addresses, ports, protocols, detection, TLS and DNS profiles exactly.  Routing profiles come back with a fresh
  load balancing state; content profiles come back with \<open>fill_length\<close> of all their rules off, because it is not written, and
  with their replacement counters at zero.  The tables are such as \<open>saveable\<close> says: CIDR addresses are valid IPv4 blocks (IPv6 blocks are not
  covered), names are allowed as setting names and agree with the elements, numbers fit into a setting, the targets of
  routing exist; and the rules can be written.\<close>

theorem saved_tables_reload:
  assumes "cfg_ok (ce_lib env)" "lower_formats (ce_tolower env)" "reads_cidr pre env" "saveable db"
    and "is_ok (item_list (policy_item (ce_lib env)) (db_policy_list db))"
  shows "\<exists>root. save_tables (ce_lib env) db (cl_new (ce_lib env) TypeGroup) = Inr root
    \<and> load_db_address env root (fst (cleanup_db_address db)) = (db, Inr (length (db_address db)))
    \<and> load_db_port env root (fst (cleanup_db_port db)) = (db, Inr (length (db_port db)))
    \<and> load_db_proto env root (fst (cleanup_db_proto db)) = (db, Inr (length (db_proto db)))
    \<and> load_db_prof_detection env root (fst (cleanup_db_prof_detection db)) = (db, Inr (length (db_prof_detection db)))
    \<and> load_db_prof_tls env root (fst (cleanup_db_prof_tls db)) = (db, Inr (length (db_prof_tls db)))
    \<and> load_db_prof_alg_dns env root (fst (cleanup_db_prof_alg_dns db)) = (db, Inr (length (db_prof_alg_dns db)))
    \<and> load_db_routing env root (fst (cleanup_db_routing db))
        = (db\<lparr>db_routing := map (\<lambda>(n, p). (n, reset_lb p)) (db_routing db)\<rparr>, Inr (length (db_routing db)))
    \<and> load_db_prof_content env root (fst (cleanup_db_prof_content db))
        = (db\<lparr>db_prof_content := map (\<lambda>(n, p). (n, forget_fill p)) (db_prof_content db)\<rparr>, Inr (length (db_prof_content db)))"
proof -
  let ?L = "ce_lib env"
  note items = saveable_items[OF assms(1-4)] and tables = saveable_tables[OF assms(4)]
  obtain root where r: "save_tables ?L db (cl_new ?L TypeGroup) = Inr root"
    "section_of ?L root ''address_objects'' (address_item ?L) (db_address db)"
    "section_of ?L root ''port_objects'' (port_item ?L) (db_port db)"
    "section_of ?L root ''proto_objects'' (proto_item ?L) (db_proto db)"
    "section_of ?L root ''detection_profiles'' (detection_item ?L) (db_prof_detection db)"
    "section_of ?L root ''content_profiles'' (content_item ?L) (db_prof_content db)"
    "section_of ?L root ''tls_profiles'' (tls_item ?L) (db_prof_tls db)"
    "section_of ?L root ''alg_dns_profiles'' (alg_dns_item ?L) (db_prof_alg_dns db)"
    "section_of ?L root ''routing'' (routing_item ?L) (db_routing db)"
    using saved_sections[OF assms] by blast
  have rt: "routing_entry env (db\<lparr>db_routing := x\<rparr>) = routing_entry env db" for x
    by (simp add: routing_entry_def fun_eq_iff)
  show ?thesis
    using r(1) load_section_back[OF tables(1) r(2) items(1)] load_section_back[OF tables(2) r(3) items(2)]
      load_section_back[OF tables(3) r(4) items(3)] load_section_back[OF tables(4) r(5) items(4)]
      load_section_back[OF tables(6) r(7) items(6)] load_section_back[OF tables(7) r(8) items(7)]
      load_section_as[OF tables(9) r(9) items(8)] load_section_as[OF tables(5) r(6) items(5)]
      routing_count[OF tables(9) r(9)]
    by (simp add: loader_defs rt cleanup_defs)
qed

section \<open>Witnesses\<close>

definition fill_rule :: ProfileContentRule where
  "fill_rule = \<lparr>pcr_match = ''secret'', pcr_replace = ''x'', pcr_fill_length = True, pcr_replace_each_nth = 2, pcr_replace_each_counter = 0\<rparr>"

definition saved_db :: cfg_db where
  "saved_db = empty_db\<lparr>db_address := [(''lan'', ''lan'', CidrAddress (Some (v4_block 192 168 7 0 [0xff, 0xff, 0xff, 0]))),
       (''www'', ''www'', FqdnAddress ''example.com'')],
     db_port := [(''web'', ''web'', 80, 443)], db_proto := [(''tcp'', ''tcp'', 6)],
     db_prof_content := [(''hide'', \<lparr>cont_name = ''hide'', cont_write_payload = True, cont_write_format = PCAP, cont_rules = [fill_rule]\<rparr>)],
     db_routing := [(''lb'', \<lparr>rt_name = ''lb'', dnat_addresses = [''www''], dnat_ports = [''web''], dnat_lb_method = LB_L3, lb_state = fresh_lb\<rparr>)]\<rparr>"

text \<open>The environment of the examples with the address functions of the CIDR library.\<close>

definition cidr_env :: "node cfg_env" where
  "cidr_env = node_env\<lparr>ce_addr := \<lparr>ae_from_str = (\<lambda>s. case cidr_from_str (\<lambda>_. CHR 0x00) (c_str s) of Inr c \<Rightarrow> Some c | Inl _ \<Rightarrow> None),
     ae_to_str = (\<lambda>c. case cidr_to_str c CIDR_ONLYADDR of Inr t \<Rightarrow> t | Inl _ \<Rightarrow> []), ae_dns_cache = (\<lambda>_. None)\<rparr>\<rparr>"

lemma saved_db_saveable: "saveable saved_db" "lower_formats (ce_tolower cidr_env)" "reads_cidr (\<lambda>_. CHR 0x00) cidr_env" "ce_lib cidr_env = node_lib"
proof -
  have "valid_block (v4_block 192 168 7 0 [0xff, 0xff, 0xff, 0])" by code_simp
  then show "saveable saved_db"
    by (simp add: saveable_def table_of_def own_names_def saved_db_def empty_db_def tab_ok_def cfg_name_def name_char_def
        reserved_name_def int32_def content_saveable_def fill_rule_def routing_saveable_def tab_get_def address_saveable_def v4_block_def less_char_def)
  have "map tolower (format_to_str f) = format_to_str f" for f
    by (cases f) (simp_all add: format_to_str_def format_map_def tolower_def)
  then show "lower_formats (ce_tolower cidr_env)" by (simp add: lower_formats_def cidr_env_def node_env_def)
  show "reads_cidr (\<lambda>_. CHR 0x00) cidr_env" "ce_lib cidr_env = node_lib" by (simp_all add: reads_cidr_def cidr_env_def node_env_def)
qed

theorem saved_tables_reload_witness:
  "\<exists>root. save_tables node_lib saved_db (NAgg TypeGroup []) = Inr root
    \<and> load_db_address cidr_env root (saved_db\<lparr>db_address := []\<rparr>) = (saved_db, Inr 2)
    \<and> load_db_prof_content cidr_env root (saved_db\<lparr>db_prof_content := []\<rparr>)
      = (saved_db\<lparr>db_prof_content := [(''hide'', \<lparr>cont_name = ''hide'', cont_write_payload = True, cont_write_format = PCAP,
          cont_rules = [fill_rule\<lparr>pcr_fill_length := False\<rparr>]\<rparr>)]\<rparr>, Inr 1)"
proof -
  note e = saved_db_saveable(4)
  have "is_ok (item_list (policy_item (ce_lib cidr_env)) (db_policy_list saved_db))" by (simp add: saved_db_def empty_db_def)
  from saved_tables_reload[OF _ saved_db_saveable(2,3,1) this] obtain root where
    "save_tables (ce_lib cidr_env) saved_db (cl_new (ce_lib cidr_env) TypeGroup) = Inr root"
    "load_db_address cidr_env root (fst (cleanup_db_address saved_db)) = (saved_db, Inr (length (db_address saved_db)))"
    "load_db_prof_content cidr_env root (fst (cleanup_db_prof_content saved_db))
      = (saved_db\<lparr>db_prof_content := map (\<lambda>(n, p). (n, forget_fill p)) (db_prof_content saved_db)\<rparr>, Inr (length (db_prof_content saved_db)))"
    using node_lib_ok by (auto simp: e)
  moreover have "cl_new node_lib TypeGroup = NAgg TypeGroup []" by (simp add: node_lib_def node_new_def)
  moreover have "length (db_address saved_db) = 2" "length (db_prof_content saved_db) = 1"
    "map (\<lambda>(n, p). (n, forget_fill p)) (db_prof_content saved_db) = [(''hide'', \<lparr>cont_name = ''hide'', cont_write_payload = True,
        cont_write_format = PCAP, cont_rules = [fill_rule\<lparr>pcr_fill_length := False\<rparr>]\<rparr>)]"
    by (simp_all add: saved_db_def forget_fill_def fill_rule_def)
  ultimately show ?thesis unfolding e by (intro exI[of _ root]) (simp add: cleanup_db_address_def cleanup_db_prof_content_def)
qed

end
