(* ===== verification/CfgValue.thy ===== *)
theory CfgValue
  imports CfgSave
begin

text \<open>
  Checks of values that an administrator enters (\<open>src/src/service/cfgapi/cfgvalue.cpp\<close> and
  \<open>cfgvalue.hpp\<close>) with the text helpers they use (\<open>src/src/utils/str.cpp\<close>, \<open>fs.cpp\<close>).  The help
  texts and suggestions of the table are left out.
\<close>

section \<open>Text\<close>

text \<open>\<open>std::string::find\<close> from a position on.\<close>

definition str_find :: "string \<Rightarrow> string \<Rightarrow> nat \<Rightarrow> nat option" where
  "str_find what s pos = List.find (\<lambda>p. take (length what) (drop p s) = what) [pos..<length s + 1 - length what]"

lemma str_find_Some: "str_find what s pos = Some p \<Longrightarrow> pos \<le> p \<and> p + length what \<le> length s \<and> take (length what) (drop p s) = what"
  unfolding str_find_def find_Some_iff by (auto simp del: upt_Suc)

function replace_loop :: "string \<Rightarrow> string \<Rightarrow> string \<Rightarrow> nat \<Rightarrow> string" where
  "replace_loop what rep t pos =
     (if what = [] then t
      else case str_find what t pos of
        None \<Rightarrow> t
      | Some p \<Rightarrow> replace_loop what rep (take p t @ rep @ drop (p + length what) t) (p + length rep))"
  by pat_completeness auto
termination
proof (relation "measure (\<lambda>(what, rep, t, pos). length t - pos)"; simp)
  fix what t :: string and pos p
  assume "what \<noteq> []" "str_find what t pos = Some p"
  then have "pos \<le> p" "p + length what \<le> length t" "0 < length what" using str_find_Some by auto
  then have "length t - (length what + p) < length t - pos" by linarith
  then show "min (length t) p + (length t - (p + length what)) - p < length t - pos" using \<open>p + length what \<le> length t\<close> by (simp add: add.commute)
qed

declare replace_loop.simps [simp del]

definition string_replace_all :: "string \<Rightarrow> string \<Rightarrow> string \<Rightarrow> string" where
  "string_replace_all t what rep = (if what = [] \<or> t = [] then t else replace_loop what rep t 0)"

definition cfg_specials :: string where
  "cfg_specials = [CHR 0x27, CHR 0x5C, CHR ''%'', CHR '';'', CHR '','', CHR 0x22, CHR ''{'', CHR ''}'', CHR ''['', CHR '']'', CHR ''('', CHR '')'']"

definition string_cfg_escape :: "string \<Rightarrow> string" where
  "string_cfg_escape t = fold (\<lambda>c t. string_replace_all t [c] ''_'') cfg_specials t"

text \<open>Indices in brackets are masked; the pattern is a bracket, at least one digit, a bracket.\<close>

function mask_array_index :: "string \<Rightarrow> string" where
  "mask_array_index [] = []"
| "mask_array_index (c # s) =
     (let ds = takeWhile isdigit s; rest = dropWhile isdigit s in
      if c = CHR ''['' \<and> ds \<noteq> [] \<and> rest \<noteq> [] \<and> hd rest = CHR '']'' then ''[x]'' @ mask_array_index (tl rest)
      else c # mask_array_index s)"
  by pat_completeness auto
termination
proof (relation "measure length"; simp)
  fix s :: string
  have "length (dropWhile isdigit s) \<le> length s" by (rule length_dropWhile_le)
  then show "length (dropWhile isdigit s) - Suc 0 < Suc (length s)" by linarith
qed

text \<open>The element \<open>back_pos\<close> from the end is masked, the first element never is.  An empty path has
  no first element.\<close>

fun mask_elems :: "nat \<Rightarrow> nat \<Rightarrow> string list \<Rightarrow> string" where
  "mask_elems i n [] = []"
| "mask_elems i n (e # es) = (if i = n then ''.[x]'' else CHR ''.'' # e) @ mask_elems (i + 1) n es"

definition mask_tail_index :: "string list \<Rightarrow> nat \<Rightarrow> string option" where
  "mask_tail_index path back_pos = (case path of
     [] \<Rightarrow> None
   | e # es \<Rightarrow> Some (e @ mask_elems 2 (length path - back_pos) es))"

definition mask_parent :: "string list \<Rightarrow> string option" where
  "mask_parent path = mask_tail_index path 1"

definition mask_this :: "string list \<Rightarrow> string option" where
  "mask_this path = mask_tail_index path 0"

section \<open>What the checks ask outside of the program\<close>

text \<open>Numbers and paths of text are functions of the socle and the C library; the octets behind a
  copy that is not terminated are arbitrary.\<close>

record val_env =
  ve_addr :: addr_env
  ve_safe_val :: "string \<Rightarrow> int"
  ve_split :: "string \<Rightarrow> char \<Rightarrow> string list"
  ve_is_file :: "string \<Rightarrow> bool"
  ve_is_dir :: "string \<Rightarrow> bool"
  ve_dirname :: "string \<Rightarrow> string"
  ve_basename :: "string \<Rightarrow> string"
  ve_behind :: string
  ve_threads :: int

definition mask_all :: "val_env \<Rightarrow> string \<Rightarrow> string option" where
  "mask_all env v =
     (let m = mask_array_index v; path = ve_split env v (CHR ''.'') in
      if m \<noteq> v then Some m
      else case mask_parent path of
        None \<Rightarrow> None
      | Some p \<Rightarrow> if p \<noteq> v then Some p else mask_this path)"

text \<open>The loop that should remove trailing slashes compares in the wrong direction: it looks at
  most at the only character of a text.\<close>

definition is_basedir :: "val_env \<Rightarrow> string \<Rightarrow> bool" where
  "is_basedir env v =
     (if ve_is_dir env v \<or> v = [] then False
      else let path = (if v = ''/'' then [CHR 0x00] else v);
               dir = ve_dirname env (takeWhile (\<lambda>c. c \<noteq> CHR 0x00) (path @ ve_behind env))
           in if dir = ''/'' then False else ve_is_dir env dir)"

section \<open>Filters\<close>

datatype key_source = Keys_proto | Keys_address | Keys_port | Keys_features | Keys_tls | Keys_detection | Keys_content
  | Keys_auth | Keys_alg_dns | Keys_routing_or_none | Keys_fixed "string list"

datatype cfg_filter = VALUE_NONE | VALUE_ANY | VALUE_UINT | VALUE_UINT_NZ | VALUE_FILE | VALUE_DIR | VALUE_BASEDIR | VALUE_BOOL
  | VALUE_IPHOST | VALUE_IPADDRESS | VALUE_UINT_RANGE int int | HW_FILTER | Is_in_vector key_source string
  | Log_file | Syslog_family | Magic_ip

definition container :: "cfg_db \<Rightarrow> key_source \<Rightarrow> string list" where
  "container db k = (case k of
     Keys_proto \<Rightarrow> keys_of (db_proto db) | Keys_address \<Rightarrow> keys_of (db_address db) | Keys_port \<Rightarrow> keys_of (db_port db)
   | Keys_features \<Rightarrow> keys_of (db_features db) | Keys_tls \<Rightarrow> keys_of (db_prof_tls db)
   | Keys_detection \<Rightarrow> keys_of (db_prof_detection db) | Keys_content \<Rightarrow> keys_of (db_prof_content db)
   | Keys_auth \<Rightarrow> keys_of (db_prof_auth db) | Keys_alg_dns \<Rightarrow> keys_of (db_prof_alg_dns db)
   | Keys_routing_or_none \<Rightarrow> keys_of_or_none (db_routing db) | Keys_fixed xs \<Rightarrow> xs)"

text \<open>A filter gives the value to store or the reason of the refusal.\<close>

definition uint_range :: "val_env \<Rightarrow> int \<Rightarrow> int \<Rightarrow> string \<Rightarrow> string + string" where
  "uint_range env a b v =
     (let n = ve_safe_val env v in
      if 0 \<le> n \<and> a \<le> n \<and> n \<le> b then Inr v
      else Inl (''value must be a non-negative number in range <'' @ dec_int a @ '','' @ dec_int b @ ''>''))"

definition is_host :: "val_env \<Rightarrow> string \<Rightarrow> bool" where
  "is_host env v = (case ae_from_str (ve_addr env) v of None \<Rightarrow> False | Some c \<Rightarrow> cidr_numhost (Some c) = Inr ''1'')"

definition toupper :: "char \<Rightarrow> char" where
  "toupper c = (if of_char c \<ge> (97 :: nat) \<and> of_char c \<le> (122 :: nat) then char_of (of_char c - 32 :: nat) else c)"

definition value_bool :: "string \<Rightarrow> string + string" where
  "value_bool v =
     (let u = map toupper v in
      if u \<in> {''TRUE'', ''1'', ''YES'', ''T''} then Inr ''true''
      else if u \<in> {''FALSE'', ''0'', ''NO'', ''F''} then Inr ''false''
      else Inl ''must be boolean: case insensitive value: [true|yes|1] | [false|no|0]'')"

definition value_filter :: "val_env \<Rightarrow> cfg_db \<Rightarrow> cfg_filter \<Rightarrow> string \<Rightarrow> string + string" where
  "value_filter env db f v = (case f of
     VALUE_NONE \<Rightarrow> Inl ''cannot be changed''
   | VALUE_ANY \<Rightarrow> Inr v
   | VALUE_UINT \<Rightarrow> if 0 \<le> ve_safe_val env v then Inr v else Inl ''value must be non-negative integer''
   | VALUE_UINT_NZ \<Rightarrow> if 0 < ve_safe_val env v then Inr v else Inl ''value must be greater than zero''
   | VALUE_FILE \<Rightarrow> if ve_is_file env v then Inr v else Inl ''value must be existing filename''
   | VALUE_DIR \<Rightarrow> if ve_is_dir env v then Inr v else Inl ''value must be existing directory name''
   | VALUE_BASEDIR \<Rightarrow> if is_basedir env v then Inr v else Inl ''directory for the file must exist and must not be /''
   | VALUE_BOOL \<Rightarrow> value_bool v
   | VALUE_IPHOST \<Rightarrow> (case ae_from_str (ve_addr env) v of
        None \<Rightarrow> Inl ''must be an IP address''
      | Some c \<Rightarrow> if is_host env v then Inr v else Inl ''must be single IP address'')
   | VALUE_IPADDRESS \<Rightarrow> if ae_from_str (ve_addr env) v \<noteq> None then Inr v else Inl ''must be an IP address''
   | VALUE_UINT_RANGE a b \<Rightarrow> uint_range env a b v
   | HW_FILTER \<Rightarrow> uint_range env 0 (ve_threads env) v
   | Is_in_vector k name \<Rightarrow> if v \<in> set (container db k) then Inr v else Inl name
   | Log_file \<Rightarrow> if str_find ''^s'' (ve_basename env v) 0 = None then Inl ''filename must contain '^s' for tenant name expansion.''
                else Inr (string_replace_all v ''^s'' ''%s'')
   | Syslog_family \<Rightarrow> if v = ''4'' \<or> v = ''6'' then Inr v else Inl ''must be empty to set default, 4, or 6.''
   | Magic_ip \<Rightarrow> if is_host env v then Inr v else Inl ''must me a valid host IP address'')"

section \<open>The table\<close>

text \<open>Every attribute starts with the filter that takes any value.\<close>

record help_entry =
  he_may_be_empty :: bool
  he_filters :: "cfg_filter list"

definition help_settings_paths :: "(string \<times> help_entry) list" where
  "help_settings_paths =
     [(''default'', \<lparr>he_may_be_empty = True, he_filters = [VALUE_ANY]\<rparr>),
      (''settings.certs_path'', \<lparr>he_may_be_empty = False, he_filters = [VALUE_ANY, VALUE_DIR]\<rparr>),
      (''settings.certs_ctlog'', \<lparr>he_may_be_empty = True, he_filters = [VALUE_ANY, VALUE_FILE]\<rparr>),
      (''settings.certs_ca_key_password'', \<lparr>he_may_be_empty = True, he_filters = [VALUE_ANY]\<rparr>),
      (''settings.ca_bundle_path'', \<lparr>he_may_be_empty = False, he_filters = [VALUE_ANY, VALUE_DIR]\<rparr>),
      (''settings.ca_bundle_file'', \<lparr>he_may_be_empty = True, he_filters = [VALUE_ANY, VALUE_FILE]\<rparr>)]"

definition help_settings_ports :: "(string \<times> help_entry) list" where
  "help_settings_ports =
     [(''settings.plaintext_port'', \<lparr>he_may_be_empty = False, he_filters = [VALUE_ANY, VALUE_UINT_RANGE 1024 65535]\<rparr>),
      (''settings.ssl_port'', \<lparr>he_may_be_empty = False, he_filters = [VALUE_ANY, VALUE_UINT_RANGE 1024 65535]\<rparr>),
      (''settings.udp_port'', \<lparr>he_may_be_empty = False, he_filters = [VALUE_ANY, VALUE_UINT_RANGE 1024 65535]\<rparr>),
      (''settings.dtls_port'', \<lparr>he_may_be_empty = False, he_filters = [VALUE_ANY, VALUE_UINT_RANGE 1024 65535]\<rparr>),
      (''settings.socks_port'', \<lparr>he_may_be_empty = False, he_filters = [VALUE_ANY, VALUE_UINT_RANGE 1024 65535]\<rparr>),
      (''settings.accept_tproxy'', \<lparr>he_may_be_empty = False, he_filters = [VALUE_ANY, VALUE_BOOL]\<rparr>),
      (''settings.accept_redirect'', \<lparr>he_may_be_empty = False, he_filters = [VALUE_ANY, VALUE_BOOL]\<rparr>),
      (''settings.accept_socks'', \<lparr>he_may_be_empty = False, he_filters = [VALUE_ANY, VALUE_BOOL]\<rparr>),
      (''settings.plaintext_workers'', \<lparr>he_may_be_empty = False, he_filters = [VALUE_ANY, HW_FILTER]\<rparr>),
      (''settings.ssl_workers'', \<lparr>he_may_be_empty = False, he_filters = [VALUE_ANY, HW_FILTER]\<rparr>),
      (''settings.udp_workers'', \<lparr>he_may_be_empty = False, he_filters = [VALUE_ANY, HW_FILTER]\<rparr>),
      (''settings.dtls_workers'', \<lparr>he_may_be_empty = False, he_filters = [VALUE_ANY, HW_FILTER]\<rparr>),
      (''settings.socks_workers'', \<lparr>he_may_be_empty = False, he_filters = [VALUE_ANY, HW_FILTER]\<rparr>),
      (''settings.ssl_autodetect'', \<lparr>he_may_be_empty = False, he_filters = [VALUE_ANY, VALUE_BOOL]\<rparr>),
      (''settings.ssl_autodetect_harder'', \<lparr>he_may_be_empty = False, he_filters = [VALUE_ANY, VALUE_BOOL]\<rparr>),
      (''settings.ssl_ocsp_status_ttl'', \<lparr>he_may_be_empty = False, he_filters = [VALUE_ANY, VALUE_NONE]\<rparr>),
      (''settings.ssl_crl_status_ttl'', \<lparr>he_may_be_empty = False, he_filters = [VALUE_ANY, VALUE_NONE]\<rparr>)]"

definition help_settings_log :: "(string \<times> help_entry) list" where
  "help_settings_log =
     [(''settings.log_level'', \<lparr>he_may_be_empty = False, he_filters = [VALUE_ANY, VALUE_UINT_RANGE 0 8]\<rparr>),
      (''settings.log_file'', \<lparr>he_may_be_empty = False, he_filters = [VALUE_ANY, VALUE_BASEDIR, Log_file]\<rparr>),
      (''settings.log_console'', \<lparr>he_may_be_empty = False, he_filters = [VALUE_ANY, VALUE_BOOL]\<rparr>),
      (''settings.syslog_server'', \<lparr>he_may_be_empty = True, he_filters = [VALUE_ANY, VALUE_IPHOST]\<rparr>),
      (''settings.syslog_port'', \<lparr>he_may_be_empty = True, he_filters = [VALUE_ANY, VALUE_UINT_RANGE 0 65535]\<rparr>),
      (''settings.syslog_facility'', \<lparr>he_may_be_empty = True, he_filters = [VALUE_ANY, VALUE_UINT_RANGE 0 32]\<rparr>),
      (''settings.syslog_level'', \<lparr>he_may_be_empty = True, he_filters = [VALUE_ANY, VALUE_UINT_RANGE 0 8]\<rparr>),
      (''settings.syslog_family'', \<lparr>he_may_be_empty = True, he_filters = [VALUE_ANY, Syslog_family]\<rparr>),
      (''settings.sslkeylog_file'', \<lparr>he_may_be_empty = True, he_filters = [VALUE_ANY, VALUE_BASEDIR]\<rparr>),
      (''settings.messages_dir'', \<lparr>he_may_be_empty = False, he_filters = [VALUE_ANY, VALUE_DIR]\<rparr>),
      (''settings.write_payload_dir'', \<lparr>he_may_be_empty = False, he_filters = [VALUE_ANY, VALUE_DIR]\<rparr>),
      (''settings.write_payload_file_prefix'', \<lparr>he_may_be_empty = True, he_filters = [VALUE_ANY]\<rparr>),
      (''settings.write_payload_file_suffix'', \<lparr>he_may_be_empty = True, he_filters = [VALUE_ANY]\<rparr>),
      (''settings.write_pcap_single_quota'', \<lparr>he_may_be_empty = False, he_filters = [VALUE_ANY, VALUE_UINT_RANGE 0 (2 ^ 63 - 1)]\<rparr>)]"

definition help_settings_portal :: "(string \<times> help_entry) list" where
  "help_settings_portal =
     [(''settings.auth_portal'', \<lparr>he_may_be_empty = True, he_filters = [VALUE_ANY]\<rparr>),
      (''settings.auth_portal.address'', \<lparr>he_may_be_empty = False, he_filters = [VALUE_ANY]\<rparr>),
      (''settings.auth_portal.http_port'', \<lparr>he_may_be_empty = False, he_filters = [VALUE_ANY, VALUE_UINT_RANGE 1024 65535]\<rparr>),
      (''settings.auth_portal.https_port'', \<lparr>he_may_be_empty = False, he_filters = [VALUE_ANY, VALUE_UINT_RANGE 1024 65535]\<rparr>),
      (''settings.auth_portal.ssl_key'', \<lparr>he_may_be_empty = False, he_filters = [VALUE_ANY, VALUE_FILE]\<rparr>),
      (''settings.auth_portal.ssl_cert'', \<lparr>he_may_be_empty = False, he_filters = [VALUE_ANY, VALUE_FILE]\<rparr>),
      (''settings.auth_portal.magic_ip'', \<lparr>he_may_be_empty = False, he_filters = [VALUE_ANY, Magic_ip]\<rparr>),
      (''settings.tuning'', \<lparr>he_may_be_empty = True, he_filters = [VALUE_ANY]\<rparr>),
      (''settings.tuning.proxy_thread_spray_min'', \<lparr>he_may_be_empty = False, he_filters = [VALUE_ANY, VALUE_UINT_RANGE 0 65535]\<rparr>),
      (''settings.tuning.host_bufsz_min'', \<lparr>he_may_be_empty = False, he_filters = [VALUE_ANY, VALUE_UINT_RANGE 1500 10000000]\<rparr>),
      (''settings.tuning.host_bufsz_max_multiplier'', \<lparr>he_may_be_empty = False, he_filters = [VALUE_ANY, VALUE_UINT_RANGE 1 1024000000]\<rparr>),
      (''settings.tuning.host_write_full'', \<lparr>he_may_be_empty = False, he_filters = [VALUE_ANY, VALUE_UINT_RANGE 1024 1024000000]\<rparr>),
      (''settings.cli'', \<lparr>he_may_be_empty = True, he_filters = [VALUE_ANY]\<rparr>),
      (''settings.cli.port'', \<lparr>he_may_be_empty = False, he_filters = [VALUE_ANY, VALUE_UINT_RANGE 1024 65535]\<rparr>),
      (''settings.cli.enable_password'', \<lparr>he_may_be_empty = True, he_filters = [VALUE_ANY]\<rparr>),
      (''settings.socks'', \<lparr>he_may_be_empty = True, he_filters = [VALUE_ANY]\<rparr>),
      (''settings.socks.async_dns'', \<lparr>he_may_be_empty = False, he_filters = [VALUE_ANY, VALUE_BOOL]\<rparr>)]"

definition help_settings_api :: "(string \<times> help_entry) list" where
  "help_settings_api =
     [(''settings.accept_api'', \<lparr>he_may_be_empty = False, he_filters = [VALUE_ANY, VALUE_BOOL]\<rparr>),
      (''settings.http_api'', \<lparr>he_may_be_empty = True, he_filters = [VALUE_ANY]\<rparr>),
      (''settings.http_api.keys'', \<lparr>he_may_be_empty = True, he_filters = [VALUE_ANY]\<rparr>),
      (''settings.http_api.key_timeout'', \<lparr>he_may_be_empty = False, he_filters = [VALUE_ANY, VALUE_UINT_NZ]\<rparr>),
      (''settings.http_api.port'', \<lparr>he_may_be_empty = True, he_filters = [VALUE_ANY, VALUE_UINT_RANGE 1024 65535]\<rparr>),
      (''settings.http_api.pam_login'', \<lparr>he_may_be_empty = False, he_filters = [VALUE_ANY, VALUE_BOOL]\<rparr>),
      (''settings.admin'', \<lparr>he_may_be_empty = True, he_filters = [VALUE_ANY]\<rparr>),
      (''settings.admin.group'', \<lparr>he_may_be_empty = True, he_filters = [VALUE_ANY]\<rparr>),
      (''settings.http_api.key_extend_on_access'', \<lparr>he_may_be_empty = False, he_filters = [VALUE_ANY, VALUE_BOOL]\<rparr>),
      (''settings.http_api.loopback_only'', \<lparr>he_may_be_empty = False, he_filters = [VALUE_ANY, VALUE_BOOL]\<rparr>),
      (''debug.log_data_crc'', \<lparr>he_may_be_empty = True, he_filters = [VALUE_ANY]\<rparr>)]"

definition help_objects :: "(string \<times> help_entry) list" where
  "help_objects =
     [(''proto_objects'', \<lparr>he_may_be_empty = True, he_filters = [VALUE_ANY]\<rparr>),
      (''proto_objects.[x].id'', \<lparr>he_may_be_empty = False, he_filters = [VALUE_ANY, VALUE_UINT_RANGE 1 255]\<rparr>),
      (''port_objects'', \<lparr>he_may_be_empty = True, he_filters = [VALUE_ANY]\<rparr>),
      (''port_objects.[x].start'', \<lparr>he_may_be_empty = False, he_filters = [VALUE_ANY, VALUE_UINT_RANGE 0 65535]\<rparr>),
      (''port_objects.[x].end'', \<lparr>he_may_be_empty = False, he_filters = [VALUE_ANY, VALUE_UINT_RANGE 0 65535]\<rparr>),
      (''address_objects'', \<lparr>he_may_be_empty = True, he_filters = [VALUE_ANY]\<rparr>),
      (''address_objects.[x].type'', \<lparr>he_may_be_empty = False, he_filters = [VALUE_ANY, Is_in_vector (Keys_fixed [''cidr'', ''fqdn'']) ''only allowed options'']\<rparr>),
      (''address_objects.[x].value'', \<lparr>he_may_be_empty = False, he_filters = [VALUE_ANY]\<rparr>)]"

definition help_policy :: "(string \<times> help_entry) list" where
  "help_policy =
     [(''policy.[x].proto'', \<lparr>he_may_be_empty = False, he_filters = [VALUE_ANY, Is_in_vector Keys_proto ''must be in proto_objects'']\<rparr>),
      (''policy.[x].src'', \<lparr>he_may_be_empty = True, he_filters = [VALUE_ANY, Is_in_vector Keys_address ''must be in address_objects'']\<rparr>),
      (''policy.[x].dst'', \<lparr>he_may_be_empty = True, he_filters = [VALUE_ANY, Is_in_vector Keys_address ''must be in address_objects'']\<rparr>),
      (''policy.[x].dport'', \<lparr>he_may_be_empty = True, he_filters = [VALUE_ANY, Is_in_vector Keys_port ''must be in port_objects'']\<rparr>),
      (''policy.[x].sport'', \<lparr>he_may_be_empty = True, he_filters = [VALUE_ANY, Is_in_vector Keys_port ''must be in port_objects'']\<rparr>),
      (''policy.[x].features'', \<lparr>he_may_be_empty = True, he_filters = [VALUE_ANY, Is_in_vector Keys_features ''must a valid feature tag '']\<rparr>),
      (''policy.[x].action'', \<lparr>he_may_be_empty = False, he_filters = [VALUE_ANY, Is_in_vector (Keys_fixed [''accept'', ''reject'']) ''accept, or reject'']\<rparr>),
      (''policy.[x].nat'', \<lparr>he_may_be_empty = False, he_filters = [VALUE_ANY, Is_in_vector (Keys_fixed [''auto'', ''none'']) ''auto, or none'']\<rparr>),
      (''policy.[x].tls_profile'', \<lparr>he_may_be_empty = True, he_filters = [VALUE_ANY, Is_in_vector Keys_tls ''must be in tls_profiles'']\<rparr>),
      (''policy.[x].detection_profile'', \<lparr>he_may_be_empty = True, he_filters = [VALUE_ANY, Is_in_vector Keys_detection ''must be in detection_profiles'']\<rparr>),
      (''policy.[x].content_profile'', \<lparr>he_may_be_empty = True, he_filters = [VALUE_ANY, Is_in_vector Keys_content ''must be in content_profiles'']\<rparr>),
      (''policy.[x].auth_profile'', \<lparr>he_may_be_empty = True, he_filters = [VALUE_ANY, Is_in_vector Keys_auth ''must be in auth_profiles'']\<rparr>),
      (''policy.[x].alg_dns_profile'', \<lparr>he_may_be_empty = True, he_filters = [VALUE_ANY, Is_in_vector Keys_alg_dns ''must be in alg_dns_profile'']\<rparr>),
      (''policy.[x].routing'', \<lparr>he_may_be_empty = True, he_filters = [VALUE_ANY, Is_in_vector Keys_routing_or_none (''must be in routing, or '' @ CHR 0x27 # ''none'' @ [CHR 0x27])]\<rparr>)]"

definition help_profiles :: "(string \<times> help_entry) list" where
  "help_profiles =
     [(''content_profiles.[x].write_format'', \<lparr>he_may_be_empty = False, he_filters = [VALUE_ANY, Is_in_vector (Keys_fixed [''smcap'', ''pcap'', ''pcap_single'']) ''smcap, pcap or pcap_single'']\<rparr>),
      (''detection_profiles.[x].mode'', \<lparr>he_may_be_empty = False, he_filters = [VALUE_ANY, VALUE_UINT_RANGE 0 1]\<rparr>),
      (''detection_profiles.[x].engines_enabled'', \<lparr>he_may_be_empty = False, he_filters = [VALUE_ANY, VALUE_BOOL]\<rparr>),
      (''detection_profiles.[x].kb_enabled'', \<lparr>he_may_be_empty = False, he_filters = [VALUE_ANY, VALUE_BOOL]\<rparr>),
      (''tls_profiles.[x].sni_based_cert'', \<lparr>he_may_be_empty = False, he_filters = [VALUE_ANY, VALUE_BOOL]\<rparr>),
      (''tls_profiles.[x].ip_based_cert'', \<lparr>he_may_be_empty = False, he_filters = [VALUE_ANY, VALUE_BOOL]\<rparr>)]"

definition init_routing :: "(string \<times> help_entry) list" where
  "init_routing =
     [(''routing.[x].dnat_address'', \<lparr>he_may_be_empty = True, he_filters = [VALUE_ANY, Is_in_vector Keys_address ''must be in address_objects'']\<rparr>),
      (''routing.[x].dnat_port'', \<lparr>he_may_be_empty = True, he_filters = [VALUE_ANY, Is_in_vector Keys_port ''must be in port_objects'']\<rparr>),
      (''routing.[x].dnat_lb_method'', \<lparr>he_may_be_empty = True, he_filters = [VALUE_ANY, Is_in_vector (Keys_fixed [''round-robin'', ''sticky-l3'', ''sticky-l4'']) ''must be in port_objects'']\<rparr>)]"

definition init_captures :: "(string \<times> help_entry) list" where
  "init_captures =
     [(''captures.local.enabled'', \<lparr>he_may_be_empty = False, he_filters = [VALUE_ANY, VALUE_BOOL]\<rparr>),
      (''captures.local.pcap_quota'', \<lparr>he_may_be_empty = False, he_filters = [VALUE_ANY, VALUE_UINT]\<rparr>),
      (''captures.local.dir'', \<lparr>he_may_be_empty = False, he_filters = [VALUE_ANY, VALUE_DIR]\<rparr>),
      (''captures.local.format'', \<lparr>he_may_be_empty = False, he_filters = [VALUE_ANY, Is_in_vector (Keys_fixed [''pcap_single'', ''pcap'', ''smcap'']) ''write into single pcap, per-connection pcap, or per connection smcap'']\<rparr>),
      (''captures.remote.enabled'', \<lparr>he_may_be_empty = False, he_filters = [VALUE_ANY, VALUE_BOOL]\<rparr>),
      (''captures.remote.tun_type'', \<lparr>he_may_be_empty = False, he_filters = [VALUE_ANY, Is_in_vector (Keys_fixed [''gre'']) ''tunnel type'']\<rparr>),
      (''captures.remote.tun_dst'', \<lparr>he_may_be_empty = False, he_filters = [VALUE_ANY, VALUE_IPHOST]\<rparr>),
      (''captures.remote.tun_ttl'', \<lparr>he_may_be_empty = False, he_filters = [VALUE_ANY, VALUE_UINT_RANGE 0 255]\<rparr>)]"

definition element_help :: "(string \<times> help_entry) list" where
  "element_help = help_settings_paths @ help_settings_ports @ help_settings_log @ help_settings_portal @ help_settings_api @ help_objects @ help_policy @ help_profiles @ init_routing @ init_captures"

text \<open>A later entry of the same name replaces an earlier one.\<close>

definition find_help :: "string \<Rightarrow> help_entry option" where
  "find_help k = map_of (rev element_help) k"

section \<open>Checking a value\<close>

text \<open>An access behind the end of a vector is undefined.\<close>

datatype check_fault = vector_overrun

fun run_filters :: "val_env \<Rightarrow> cfg_db \<Rightarrow> cfg_filter list \<Rightarrow> string \<Rightarrow> string + string" where
  "run_filters env db [] v = Inr v"
| "run_filters env db (f # fs) v = (case value_filter env db f v of Inl c \<Rightarrow> Inl c | Inr v \<Rightarrow> run_filters env db fs v)"

definition find_entry :: "val_env \<Rightarrow> string \<Rightarrow> check_fault + help_entry option" where
  "find_entry env varname = (case find_help (mask_array_index varname) of
     Some e \<Rightarrow> Inr (Some e)
   | None \<Rightarrow> (case mask_parent (ve_split env varname (CHR ''.'')) of
       None \<Rightarrow> Inl vector_overrun
     | Some p \<Rightarrow> Inr (find_help p)))"

definition policy_address_check :: "val_env \<Rightarrow> cfg_db \<Rightarrow> string \<Rightarrow> string \<Rightarrow> check_fault + (string option \<times> string)" where
  "policy_address_check env db masked v =
     (let path = ve_split env masked (CHR ''.'') in
      if \<not> starts_with ''policy.[x]'' masked then Inr (Some v, [])
      else if length path < 3 then Inl vector_overrun
      else if path ! 2 \<in> {''src'', ''dst''} \<and> v \<notin> set (keys_of (db_address db))
        then Inr (None, ''policy values for '' @ path ! 2 @ '': '' @ v @ '' not found address db'')
      else Inr (Some v, []))"

definition value_check :: "val_env \<Rightarrow> cfg_db \<Rightarrow> string \<Rightarrow> string \<Rightarrow> check_fault + (string option \<times> string)" where
  "value_check env db varname v = result_bind (find_entry env varname) (\<lambda>e.
     let may_be_empty = (case e of None \<Rightarrow> True | Some e \<Rightarrow> he_may_be_empty e);
         filtered = (case e of None \<Rightarrow> Inr v | Some e \<Rightarrow> if v = [] then Inr v else run_filters env db (he_filters e) v)
     in if v = [] \<and> \<not> may_be_empty then Inr (None, ''this attribute cannot be empty'')
        else case filtered of
          Inl c \<Rightarrow> Inr (None, ''Value check failed: '' @ c)
        | Inr v \<Rightarrow> policy_address_check env db (mask_array_index varname) v)"

section \<open>Arguments of commands\<close>

fun dedup_loop :: "string list \<Rightarrow> string list \<Rightarrow> string list" where
  "dedup_loop acc [] = acc"
| "dedup_loop acc (a # as) = dedup_loop (if a \<in> set acc then acc else acc @ [a]) as"

definition dedup :: "string list \<Rightarrow> string list" where
  "dedup xs = dedup_loop [] xs"

definition toggle :: "string list \<Rightarrow> string list \<Rightarrow> string list" where
  "toggle orig togs = filter (\<lambda>a. a \<notin> set togs) orig @ filter (\<lambda>a. a \<notin> set orig) togs"

record arg_opts =
  ao_is_question :: bool
  ao_is_plain :: bool
  ao_varname :: string
  ao_args :: "string list"

definition split_args :: "val_env \<Rightarrow> string list \<Rightarrow> string list" where
  "split_args env as = concat (map (\<lambda>a. map string_cfg_escape (ve_split env a (CHR '',''))) as)"

text \<open>The command words and the arguments; the last word of an empty command does not exist.\<close>

definition normalize :: "val_env \<Rightarrow> string \<Rightarrow> string list \<Rightarrow> check_fault + arg_opts" where
  "normalize env command argv =
     (let cmd = ve_split env command (CHR '' '') in
      if argv \<noteq> [] \<and> cmd = [] then Inl vector_overrun
      else let varname = (if argv \<noteq> [] then last cmd else if length cmd \<ge> 2 then cmd ! 1 else []);
               args = (if varname = ''name'' then argv else split_args env (if argv \<noteq> [] then argv else drop 2 cmd))
           in Inr (if varname = ''name'' then \<lparr>ao_is_question = False, ao_is_plain = True, ao_varname = varname, ao_args = args\<rparr>
                   else \<lparr>ao_is_question = (args \<noteq> [] \<and> hd args = ''?''), ao_is_plain = False, ao_varname = varname, ao_args = dedup args\<rparr>))"

section \<open>Facts\<close>

subsection \<open>Text\<close>

text \<open>The reference: replacement from the left to the right without overlaps.\<close>

function subst_all :: "string \<Rightarrow> string \<Rightarrow> string \<Rightarrow> string" where
  "subst_all what rep [] = []"
| "subst_all what rep (c # s) =
     (if what \<noteq> [] \<and> take (length what) (c # s) = what then rep @ subst_all what rep (drop (length what) (c # s))
      else c # subst_all what rep s)"
  by pat_completeness auto
termination by (relation "measure (\<lambda>(what, rep, s). length s)") auto

lemma str_find_None:
  assumes "str_find what t pos = None" "pos \<le> p" "what \<noteq> []"
  shows "take (length what) (drop p t) \<noteq> what"
proof
  assume *: "take (length what) (drop p t) = what"
  then have "length what \<le> length t - p" by (metis length_drop length_take min.absorb_iff1 min.commute)
  then have "p \<in> set [pos..<length t + 1 - length what]" using assms(2,3) by (cases what) auto
  then show False using assms(1) * by (auto simp: str_find_def find_None_iff)
qed

lemma str_find_first:
  assumes "str_find what t pos = Some p" "pos \<le> q" "q < p"
  shows "take (length what) (drop q t) \<noteq> what"
proof -
  obtain i where i: "i < length [pos..<length t + 1 - length what]" "p = [pos..<length t + 1 - length what] ! i"
    "\<forall>j<i. take (length what) (drop ([pos..<length t + 1 - length what] ! j) t) \<noteq> what"
    using assms(1) unfolding str_find_def find_Some_iff by blast
  then have "p = pos + i" by simp
  then have "q - pos < i" using assms(2,3) by simp
  then show ?thesis using i(1) i(3)[rule_format, of "q - pos"] assms(2) by simp
qed

lemma subst_all_skip:
  assumes "\<And>q. pos \<le> q \<Longrightarrow> q < p \<Longrightarrow> take (length what) (drop q t) \<noteq> what" "pos \<le> p" "p \<le> length t"
  shows "subst_all what rep (drop pos t) = take (p - pos) (drop pos t) @ subst_all what rep (drop p t)"
  using assms
proof (induction "p - pos" arbitrary: pos)
  case (Suc n)
  then have lt: "pos < p" "pos < length t" by simp_all
  then have d: "drop pos t = t ! pos # drop (Suc pos) t" by (simp add: Cons_nth_drop_Suc)
  have IH: "subst_all what rep (drop (Suc pos) t) = take (p - Suc pos) (drop (Suc pos) t) @ subst_all what rep (drop p t)"
    by (rule Suc.hyps(1)) (use Suc.prems lt Suc.hyps(2) in auto)
  have "take (length what) (t ! pos # drop (Suc pos) t) \<noteq> what" using Suc.prems(1)[of pos] lt(1) d by simp
  then show ?case using IH lt Suc.hyps(2) by (simp add: d take_Cons' Suc_diff_Suc[symmetric])
qed simp

lemma replace_loop_subst:
  assumes "what \<noteq> []" "pos \<le> length t"
  shows "replace_loop what rep t pos = take pos t @ subst_all what rep (drop pos t)"
  using assms
proof (induction what rep t pos rule: replace_loop.induct)
  case (1 what rep t pos)
  show ?case
  proof (cases "str_find what t pos")
    case None
    have "subst_all what rep (drop pos t) = take (length t - pos) (drop pos t) @ subst_all what rep (drop (length t) t)"
      by (rule subst_all_skip) (use str_find_None[OF None] "1.prems" in auto)
    then show ?thesis using None "1.prems" by (subst replace_loop.simps) simp
  next
    case (Some p)
    let ?t = "take p t @ rep @ drop (p + length what) t"
    have p: "pos \<le> p" "p + length what \<le> length t" "take (length what) (drop p t) = what" using str_find_Some[OF Some] by auto
    have "subst_all what rep (drop pos t) = take (p - pos) (drop pos t) @ subst_all what rep (drop p t)"
      by (rule subst_all_skip) (use str_find_first[OF Some] p in auto)
    moreover have "subst_all what rep (drop p t) = rep @ subst_all what rep (drop (p + length what) t)"
    proof -
      have "drop p t \<noteq> []" using p(2) "1.prems"(1) by (cases what) auto
      then obtain c s where "drop p t = c # s" by (cases "drop p t") auto
      then show ?thesis using p(3) "1.prems"(1) by (simp add: add.commute[of p] flip: drop_drop)
    qed
    moreover have "replace_loop what rep t pos = replace_loop what rep ?t (p + length rep)"
      using Some "1.prems"(1) by (subst replace_loop.simps) simp
    moreover have "replace_loop what rep ?t (p + length rep) = take (p + length rep) ?t @ subst_all what rep (drop (p + length rep) ?t)"
      by (rule "1.IH"[OF _ Some]) (use "1.prems" p in auto)
    moreover have "take (p + length rep) ?t = take p t @ rep" "drop (p + length rep) ?t = drop (p + length what) t" using p(2) by simp_all
    moreover have "take p t = take pos t @ take (p - pos) (drop pos t)"
      using p(1) take_add[of pos "p - pos" t] by simp
    ultimately show ?thesis by simp
  qed
qed

lemma replace_all_subst: "what \<noteq> [] \<Longrightarrow> string_replace_all t what rep = subst_all what rep t"
  by (simp add: string_replace_all_def replace_loop_subst)

lemma replace_char: "string_replace_all t [c] [d] = map (\<lambda>x. if x = c then d else x) t"
proof -
  have "subst_all [c] [d] t = map (\<lambda>x. if x = c then d else x) t" by (induction t) auto
  then show ?thesis by (simp add: replace_all_subst)
qed

lemma fold_replace:
  assumes "d \<notin> set cs"
  shows "fold (\<lambda>c t. string_replace_all t [c] [d]) cs t = map (\<lambda>x. if x \<in> set cs then d else x) t"
  using assms by (induction cs arbitrary: t) (auto simp: replace_char)

text \<open>Escaped text has none of the characters that have a meaning in the configuration language.\<close>

lemma cfg_escape_map: "string_cfg_escape t = map (\<lambda>x. if x \<in> set cfg_specials then CHR ''_'' else x) t"
  unfolding string_cfg_escape_def by (rule fold_replace) (simp add: cfg_specials_def)

subsection \<open>Lists of arguments\<close>

lemma dedup_loop_first: "dedup_loop acc xs = acc @ rev (remdups (rev (filter (\<lambda>x. x \<notin> set acc) xs)))"
proof (induction xs arbitrary: acc)
  case (Cons x xs)
  have r: "rev (remdups (ys @ [y])) = y # rev (remdups (filter (\<lambda>z. z \<noteq> y) ys))" for y :: string and ys
    by (induction ys) (auto simp: filter_empty_conv)
  show ?case by (simp add: Cons.IH r filter_filter rev_filter conj_commute)
qed simp

lemma toggle_set: "set (toggle xs ys) = (set xs - set ys) \<union> (set ys - set xs)"
  by (auto simp: toggle_def)

subsection \<open>Attributes of a rule\<close>

lemma mask_index:
  assumes "ds \<noteq> []" "list_all isdigit ds"
  shows "mask_array_index (CHR ''['' # ds @ CHR '']'' # s) = ''[x]'' @ mask_array_index s"
proof -
  have n: "\<not> isdigit (CHR '']'')" by (simp add: isdigit_def)
  have "takeWhile isdigit (ds @ CHR '']'' # s) = ds" "dropWhile isdigit (ds @ CHR '']'' # s) = CHR '']'' # s"
    using assms(2) n by (simp_all add: list_all_iff takeWhile_append dropWhile_append)
  then show ?thesis using assms(1) by simp
qed

lemma mask_plain: "CHR ''['' \<notin> set s \<Longrightarrow> mask_array_index (s @ t) = s @ mask_array_index t"
  by (induction s) (auto simp: Let_def)

declare mask_array_index.simps [simp del]

definition policy_path :: "string \<Rightarrow> string \<Rightarrow> string" where
  "policy_path ds attr = ''policy.['' @ ds @ ''].'' @ attr"

lemma mask_policy_path:
  assumes "ds \<noteq> []" "list_all isdigit ds" "CHR ''['' \<notin> set attr"
  shows "mask_array_index (policy_path ds attr) = ''policy.[x].'' @ attr"
proof -
  have "mask_array_index (policy_path ds attr) = mask_array_index (''policy.'' @ CHR ''['' # ds @ CHR '']'' # ''.'' @ attr)"
    by (simp add: policy_path_def)
  also have "\<dots> = ''policy.'' @ ''[x]'' @ mask_array_index (''.'' @ attr @ [])"
    using mask_plain[of "''policy.''"] mask_index[OF assms(1,2)] by simp
  also have "mask_array_index (''.'' @ attr @ []) = ''.'' @ attr"
    using mask_plain[of "''.'' @ attr" "[]"] assms(3) by (simp add: mask_array_index.simps(1))
  finally show ?thesis by simp
qed

text \<open>A path is split at its dots.\<close>

definition splits_attr :: "val_env \<Rightarrow> string \<Rightarrow> bool" where
  "splits_attr env attr \<longleftrightarrow> ve_split env (''policy.[x].'' @ attr) (CHR ''.'') = [''policy'', ''[x]'', attr]"

definition in_help :: "bool \<Rightarrow> key_source \<Rightarrow> string \<Rightarrow> help_entry" where
  "in_help mbe k name = \<lparr>he_may_be_empty = mbe, he_filters = [VALUE_ANY, Is_in_vector k name]\<rparr>"

lemma policy_help:
  "find_help ''policy.[x].proto'' = Some (in_help False Keys_proto ''must be in proto_objects'')"
  "find_help ''policy.[x].src'' = Some (in_help True Keys_address ''must be in address_objects'')"
  "find_help ''policy.[x].dst'' = Some (in_help True Keys_address ''must be in address_objects'')"
  "find_help ''policy.[x].sport'' = Some (in_help True Keys_port ''must be in port_objects'')"
  "find_help ''policy.[x].dport'' = Some (in_help True Keys_port ''must be in port_objects'')"
  "find_help ''policy.[x].features'' = Some (in_help True Keys_features ''must a valid feature tag '')"
  "find_help ''policy.[x].tls_profile'' = Some (in_help True Keys_tls ''must be in tls_profiles'')"
  "find_help ''policy.[x].detection_profile'' = Some (in_help True Keys_detection ''must be in detection_profiles'')"
  "find_help ''policy.[x].content_profile'' = Some (in_help True Keys_content ''must be in content_profiles'')"
  "find_help ''policy.[x].auth_profile'' = Some (in_help True Keys_auth ''must be in auth_profiles'')"
  "find_help ''policy.[x].alg_dns_profile'' = Some (in_help True Keys_alg_dns ''must be in alg_dns_profile'')"
  "find_help ''policy.[x].action'' = Some (in_help False (Keys_fixed [''accept'', ''reject'']) ''accept, or reject'')"
  "find_help ''policy.[x].routing'' = Some (in_help True Keys_routing_or_none (''must be in routing, or '' @ CHR 0x27 # ''none'' @ [CHR 0x27]))"
  by (simp_all add: find_help_def element_help_def help_policy_def init_captures_def init_routing_def help_profiles_def in_help_def)

lemma starts_with_append: "starts_with p (p @ s)"
  by (simp add: starts_with_def)

lemma value_check_policy:
  assumes ds: "ds \<noteq> []" "list_all isdigit ds" "CHR ''['' \<notin> set attr" and split: "splits_attr env attr"
    and h: "find_help (''policy.[x].'' @ attr) = Some (in_help e k name)" and v: "v \<noteq> []"
  shows "value_check env db (policy_path ds attr) v =
    (if v \<notin> set (container db k) then Inr (None, ''Value check failed: '' @ name)
     else if attr \<in> {''src'', ''dst''} \<and> v \<notin> set (keys_of (db_address db))
       then Inr (None, ''policy values for '' @ attr @ '': '' @ v @ '' not found address db'')
     else Inr (Some v, []))"
proof -
  note m = mask_policy_path[OF ds]
  have p: "starts_with ''policy.[x]'' (''policy.[x].'' @ attr)" by (simp add: starts_with_def)
  show ?thesis using v h split p
    unfolding value_check_def find_entry_def m splits_attr_def
    by (simp add: in_help_def value_filter_def Let_def policy_address_check_def)
qed

text \<open>An empty value is only tested for being allowed and, for an address, for being the name of one.\<close>

lemma value_check_empty:
  assumes ds: "ds \<noteq> []" "list_all isdigit ds" "CHR ''['' \<notin> set attr" and split: "splits_attr env attr"
    and h: "find_help (''policy.[x].'' @ attr) = Some (in_help e k name)"
  shows "value_check env db (policy_path ds attr) [] =
    (if \<not> e then Inr (None, ''this attribute cannot be empty'')
     else if attr \<in> {''src'', ''dst''} \<and> [] \<notin> set (keys_of (db_address db))
       then Inr (None, ''policy values for '' @ attr @ '':  not found address db'')
     else Inr (Some [], []))"
proof -
  note m = mask_policy_path[OF ds]
  have p: "starts_with ''policy.[x]'' (''policy.[x].'' @ attr)" by (simp add: starts_with_def)
  show ?thesis using h split p
    unfolding value_check_def find_entry_def m splits_attr_def
    by (simp add: in_help_def Let_def policy_address_check_def)
qed

lemma key_found: "v \<in> set (keys_of t) \<Longrightarrow> \<exists>x. tab_get t v = Some x"
  using map_of_eq_None_iff[of t v] by (cases "map_of t v") (auto simp: tab_get_def keys_of_def)

lemma routing_path: "''policy.[x].'' @ ''routing'' = ''policy.[x].routing''"
  by simp

text \<open>The action of a rule that was loaded is the one stored.\<close>

lemma load_rule_stored_action:
  assumes "load_rule cenv db cur = Inr (r, False)" "load_if_exists (ce_lib cenv) (cl_str (ce_lib cenv)) cur ''action'' = Inr (Some w)"
  shows "w = ''accept'' \<and> cr_action r = POLICY_ACTION_PASS \<or> w = ''deny'' \<and> cr_action r = POLICY_ACTION_DENY"
proof -
  obtain d1 d2 d3 where d: "load_action (ce_lib cenv) cur d1 = Inr d2" "load_nat (ce_lib cenv) cur d2 = Inr d3"
    "load_profiles (ce_lib cenv) db cur d3 = Inr (r, False)" using load_rule_stages[OF assms(1)] by metis
  have "\<not> snd d3" using keepsD[OF keeps_error d(3)] by auto
  then have "\<not> snd d2" "cr_action (fst d3) = cr_action (fst d2)" using load_nat_cases[OF d(2)] by auto
  moreover have "cr_action r = cr_action (fst d3)" using keepsD[OF keeps_action_fields d(3)] by simp
  ultimately show ?thesis using d(1) assms(2) by (auto simp: load_action_def split: if_splits)
qed

section \<open>Properties\<close>

text \<open>C17: Replacing text in place gives the text with every occurrence replaced from the left to the
  right without overlaps, whatever the lengths are; the loop ends.\<close>

theorem string_replace_all_is_subst:
  assumes "what \<noteq> []"
  shows "string_replace_all t what rep = subst_all what rep t"
  by (rule replace_all_subst[OF assms])

text \<open>C18: A value that is accepted for one of the attributes below of a rule is stored as it was entered and, unless it is empty, names
  an element of the table the rule loader looks it up in; a routing may also be \<open>none\<close>.  An empty value is accepted where the attribute
  may be left out; a protocol is never empty, and an empty address name is accepted only when there is an address of this name.
  The script profile, the only other reference of a rule, is not among the attributes: it is not checked.\<close>

theorem accepted_reference_resolves:
  assumes "ds \<noteq> []" "list_all isdigit ds" "splits_attr env attr"
    and "value_check env db (policy_path ds attr) v = Inr (Some w, m)"
  shows "(attr \<in> {''src'', ''dst''} \<longrightarrow> w = v \<and> find_address db v \<noteq> None)
    \<and> (attr \<in> {''sport'', ''dport''} \<longrightarrow> w = v \<and> (v = [] \<or> tab_get (db_port db) v \<noteq> None))
    \<and> (attr = ''proto'' \<longrightarrow> w = v \<and> v \<noteq> [] \<and> tab_get (db_proto db) v \<noteq> None)
    \<and> (attr = ''features'' \<longrightarrow> w = v \<and> (v = [] \<or> lookup_features db v \<noteq> None))
    \<and> (attr = ''tls_profile'' \<longrightarrow> w = v \<and> (v = [] \<or> lookup_prof_tls db v \<noteq> None))
    \<and> (attr = ''detection_profile'' \<longrightarrow> w = v \<and> (v = [] \<or> lookup_prof_detection db v \<noteq> None))
    \<and> (attr = ''content_profile'' \<longrightarrow> w = v \<and> (v = [] \<or> lookup_prof_content db v \<noteq> None))
    \<and> (attr = ''auth_profile'' \<longrightarrow> w = v \<and> (v = [] \<or> lookup_prof_auth db v \<noteq> None))
    \<and> (attr = ''alg_dns_profile'' \<longrightarrow> w = v \<and> (v = [] \<or> lookup_prof_alg_dns db v \<noteq> None))
    \<and> (attr = ''routing'' \<longrightarrow> w = v \<and> (v = [] \<or> v = ''none'' \<or> lookup_prof_routing db v \<noteq> None))"
proof -
  have ref: "w = v \<and> (v \<noteq> [] \<longrightarrow> v \<in> set (container db k)) \<and> (v = [] \<longrightarrow> e) \<and> (v = [] \<and> x \<in> {''src'', ''dst''} \<longrightarrow> v \<in> set (keys_of (db_address db)))"
    if "attr = x" "find_help (''policy.[x].'' @ x) = Some (in_help e k name)" "CHR ''['' \<notin> set x" for x e k name
    using assms(4) value_check_policy[OF assms(1,2) that(3) _ that(2), of env v db] value_check_empty[OF assms(1,2) that(3) _ that(2), of env db] assms(3) that(1)
    by (cases "v = []") (auto split: if_splits)
  have r1: "attr \<in> {''src'', ''dst''} \<Longrightarrow> w = v \<and> find_address db v \<noteq> None"
    unfolding find_address_def using ref[of "''src''" True Keys_address "''must be in address_objects''"] ref[of "''dst''" True Keys_address "''must be in address_objects''"] policy_help(2,3) key_found[of v "db_address db"] by (cases "v = []") (auto simp: container_def)
  have r2: "attr \<in> {''sport'', ''dport''} \<Longrightarrow> w = v \<and> (v = [] \<or> tab_get (db_port db) v \<noteq> None)"
    using ref[of "''sport''" True Keys_port "''must be in port_objects''"] ref[of "''dport''" True Keys_port "''must be in port_objects''"] policy_help(4,5) key_found[of v "db_port db"] by (auto simp: container_def)
  have r3: "attr = ''proto'' \<Longrightarrow> w = v \<and> v \<noteq> [] \<and> tab_get (db_proto db) v \<noteq> None"
    using ref[of "''proto''" False Keys_proto "''must be in proto_objects''"] policy_help(1) key_found[of v "db_proto db"] by (auto simp: container_def)
  have r4: "attr = ''features'' \<Longrightarrow> w = v \<and> (v = [] \<or> lookup_features db v \<noteq> None)"
    unfolding lookup_features_def using ref[of "''features''" True Keys_features "''must a valid feature tag ''"] policy_help(6) key_found[of v "db_features db"] by (auto simp: container_def)
  have r5: "attr = ''tls_profile'' \<Longrightarrow> w = v \<and> (v = [] \<or> lookup_prof_tls db v \<noteq> None)"
    unfolding lookup_prof_tls_def using ref[of "''tls_profile''" True Keys_tls "''must be in tls_profiles''"] policy_help(7) key_found[of v "db_prof_tls db"] by (auto simp: container_def)
  have r6: "attr = ''detection_profile'' \<Longrightarrow> w = v \<and> (v = [] \<or> lookup_prof_detection db v \<noteq> None)"
    unfolding lookup_prof_detection_def using ref[of "''detection_profile''" True Keys_detection "''must be in detection_profiles''"] policy_help(8) key_found[of v "db_prof_detection db"] by (auto simp: container_def)
  have r7: "attr = ''content_profile'' \<Longrightarrow> w = v \<and> (v = [] \<or> lookup_prof_content db v \<noteq> None)"
    unfolding lookup_prof_content_def using ref[of "''content_profile''" True Keys_content "''must be in content_profiles''"] policy_help(9) key_found[of v "db_prof_content db"] by (auto simp: container_def)
  have r8: "attr = ''auth_profile'' \<Longrightarrow> w = v \<and> (v = [] \<or> lookup_prof_auth db v \<noteq> None)"
    unfolding lookup_prof_auth_def using ref[of "''auth_profile''" True Keys_auth "''must be in auth_profiles''"] policy_help(10) key_found[of v "db_prof_auth db"] by (auto simp: container_def)
  have r9: "attr = ''alg_dns_profile'' \<Longrightarrow> w = v \<and> (v = [] \<or> lookup_prof_alg_dns db v \<noteq> None)"
    unfolding lookup_prof_alg_dns_def using ref[of "''alg_dns_profile''" True Keys_alg_dns "''must be in alg_dns_profile''"] policy_help(11) key_found[of v "db_prof_alg_dns db"] by (auto simp: container_def)
  have r10: "attr = ''routing'' \<Longrightarrow> w = v \<and> (v = [] \<or> v = ''none'' \<or> lookup_prof_routing db v \<noteq> None)"
    unfolding lookup_prof_routing_def using ref[OF _ policy_help(13)[folded routing_path]] key_found[of v "db_routing db"] by (auto simp: container_def keys_of_or_none_def keys_of_def)
  show ?thesis by (rule conjI[OF impI[OF r1] conjI[OF impI[OF r2] conjI[OF impI[OF r3] conjI[OF impI[OF r4] conjI[OF impI[OF r5] conjI[OF impI[OF r6] conjI[OF impI[OF r7] conjI[OF impI[OF r8] conjI[OF impI[OF r9] impI[OF r10]]]]]]]]]])
qed

text \<open>There is no check for the script profile of a rule: any text is accepted and stored.\<close>

theorem script_reference_unchecked:
  assumes "ds \<noteq> []" "list_all isdigit ds" "splits_attr env ''script_profile''"
    and "ve_split env (policy_path ds ''script_profile'') (CHR ''.'') = [''policy'', ''['' @ ds @ '']'', ''script_profile'']"
  shows "value_check env db (policy_path ds ''script_profile'') v = Inr (Some v, [])"
proof -
  have n: "find_help ''policy.[x].script_profile'' = None"
    by (simp add: find_help_def element_help_def help_policy_def init_captures_def init_routing_def help_profiles_def help_objects_def
        help_settings_paths_def help_settings_ports_def help_settings_log_def help_settings_portal_def help_settings_api_def)
  show ?thesis using assms n mask_policy_path[OF assms(1,2), of "''script_profile''"]
    by (simp add: value_check_def find_entry_def splits_attr_def mask_parent_def mask_tail_index_def policy_address_check_def starts_with_def)
qed

text \<open>C21: The check accepts exactly \<open>accept\<close> and \<open>reject\<close> as the action of a rule.  With \<open>reject\<close> the loader drops the rule, so
  a rule whose stored action has passed the check and that is loaded at all passes connections: a denying rule cannot be
  entered, and entering the offered value \<open>reject\<close> removes the rule.  (A rule with no action at all denies.)\<close>

theorem deny_rule_not_enterable:
  assumes "ds \<noteq> []" "list_all isdigit ds" "splits_attr env ''action''"
  shows "value_check env db (policy_path ds ''action'') ''deny'' = Inr (None, ''Value check failed: accept, or reject'')
    \<and> value_check env db (policy_path ds ''action'') ''reject'' = Inr (Some ''reject'', [])
    \<and> (\<forall>v w m. value_check env db (policy_path ds ''action'') v = Inr (Some w, m) \<longleftrightarrow> v \<in> {''accept'', ''reject''} \<and> w = v \<and> m = [])
    \<and> (load_if_exists (ce_lib cenv) (cl_str (ce_lib cenv)) cur ''action'' = Inr (Some ''reject'') \<longrightarrow> load_rule cenv db cur \<noteq> Inr (r, False))
    \<and> (\<forall>v w m. value_check env db (policy_path ds ''action'') v = Inr (Some w, m)
        \<and> load_if_exists (ce_lib cenv) (cl_str (ce_lib cenv)) cur ''action'' = Inr (Some w) \<and> load_rule cenv db cur = Inr (r, False)
        \<longrightarrow> w = ''accept'' \<and> cr_action r = POLICY_ACTION_PASS)"
proof -
  have a: "find_help (''policy.[x].'' @ ''action'') = Some (in_help False (Keys_fixed [''accept'', ''reject'']) ''accept, or reject'')"
    using policy_help(12) by simp
  have n: "CHR ''['' \<notin> set ''action''" by simp
  have chk: "value_check env db (policy_path ds ''action'') v = (if v = [] then Inr (None, ''this attribute cannot be empty'')
      else if v \<in> {''accept'', ''reject''} then Inr (Some v, []) else Inr (None, ''Value check failed: accept, or reject''))" for v
    using value_check_policy[OF assms(1,2) n assms(3) a, of v db] value_check_empty[OF assms(1,2) n assms(3) a, of db]
    by (simp add: container_def)
  have load: "w = ''accept'' \<and> cr_action r = POLICY_ACTION_PASS"
    if "w \<in> {''accept'', ''reject''}" "load_if_exists (ce_lib cenv) (cl_str (ce_lib cenv)) cur ''action'' = Inr (Some w)" "load_rule cenv db cur = Inr (r, False)" for w
    using load_rule_stored_action[OF that(3,2)] that(1) by auto
  show ?thesis using load[of "''reject''"] load by (auto simp: chk)
qed

section \<open>Witnesses\<close>

fun plain_split :: "char \<Rightarrow> string \<Rightarrow> string list" where
  "plain_split c [] = [[]]"
| "plain_split c (x # xs) = (if x = c then [] # plain_split c xs else (case plain_split c xs of [] \<Rightarrow> [[x]] | y # ys \<Rightarrow> (x # y) # ys))"

definition plain_val :: val_env where
  "plain_val = \<lparr>ve_addr = ce_addr node_env, ve_safe_val = (\<lambda>s. case stoi s of Inr i \<Rightarrow> i | Inl _ \<Rightarrow> - 1), ve_split = (\<lambda>s c. plain_split c s),
     ve_is_file = (\<lambda>_. False), ve_is_dir = (\<lambda>_. True), ve_dirname = (\<lambda>s. s), ve_basename = (\<lambda>s. s), ve_behind = [CHR 0x00], ve_threads = 4\<rparr>"

lemma plain_splits: "splits_attr plain_val ''action''" "splits_attr plain_val ''src''"
  by (simp_all add: splits_attr_def plain_val_def)

definition lan_db :: cfg_db where
  "lan_db = empty_db\<lparr>db_address := [(''lan'', ''lan'', FqdnAddress ''lan.example'')]\<rparr>"

lemma zero_digit: "list_all isdigit ''0''"
  by (simp add: isdigit_def)

theorem string_replace_all_is_subst_witness: "string_replace_all ''a,b,c'' '','' '', '' = ''a, b, c''"
  using string_replace_all_is_subst[of "'',''" "''a,b,c''" "'', ''"] by simp

lemma lan_checked: "value_check plain_val lan_db (policy_path ''0'' ''src'') ''lan'' = Inr (Some ''lan'', [])"
proof -
  have h: "find_help (''policy.[x].'' @ ''src'') = Some (in_help True Keys_address ''must be in address_objects'')"
    using policy_help(2) by simp
  show ?thesis
    by (subst value_check_policy[OF _ zero_digit _ plain_splits(2) h]) (simp_all add: container_def lan_db_def keys_of_def)
qed

theorem accepted_reference_resolves_witness:
  "value_check plain_val lan_db (policy_path ''0'' ''src'') ''lan'' = Inr (Some ''lan'', []) \<and> find_address lan_db ''lan'' \<noteq> None"
  using accepted_reference_resolves[OF _ zero_digit plain_splits(2) lan_checked] lan_checked by simp

definition accept_node :: node where
  "accept_node = NAgg TypeGroup [(Some ''src'', NAgg TypeArray []), (Some ''sport'', NAgg TypeArray []),
     (Some ''dst'', NAgg TypeArray []), (Some ''dport'', NAgg TypeArray []), (Some ''action'', NStr ''accept'')]"

lemma accept_node_loads: "\<exists>r. load_rule node_env empty_db accept_node = Inr (r, False)"
  by (simp add: load_rule_def rule_steps_def Let_def node_env_def node_lib_def accept_node_def load_field_def load_if_exists_def
      cfg_exists_def load_proto_ref_def load_group_def is_scalar_def load_features_refs_def load_action_def load_nat_def
      load_profiles_def profile_steps_def load_profile_def load_routing_ref_def fresh_rule_def
      POLICY_ACTION_PASS_def POLICY_NAT_NONE_def)

theorem deny_rule_not_enterable_witness:
  "value_check plain_val empty_db (policy_path ''0'' ''action'') ''accept'' = Inr (Some ''accept'', [])
   \<and> value_check plain_val empty_db (policy_path ''0'' ''action'') ''reject'' = Inr (Some ''reject'', [])
   \<and> (\<exists>r. load_rule node_env empty_db accept_node = Inr (r, False) \<and> cr_action r = POLICY_ACTION_PASS)
   \<and> load_rule node_env empty_db (NAgg TypeGroup [(Some ''action'', NStr ''reject'')]) \<noteq> Inr (any_rule, False)"
proof -
  obtain r where r: "load_rule node_env empty_db accept_node = Inr (r, False)" using accept_node_loads by blast
  have l: "load_if_exists (ce_lib node_env) (cl_str (ce_lib node_env)) (NAgg TypeGroup [(Some ''action'', NStr ''reject'')]) ''action'' = Inr (Some ''reject'')"
    "load_if_exists (ce_lib node_env) (cl_str (ce_lib node_env)) accept_node ''action'' = Inr (Some ''accept'')"
    by (simp_all add: node_env_def node_lib_def load_if_exists_def cfg_exists_def accept_node_def)
  note all = deny_rule_not_enterable[OF _ zero_digit plain_splits(1), of empty_db node_env]
  have "value_check plain_val empty_db (policy_path ''0'' ''action'') ''accept'' = Inr (Some ''accept'', [])" using all by blast
  moreover have "cr_action r = POLICY_ACTION_PASS" using all[of accept_node r] l(2) r calculation by blast
  ultimately show ?thesis using all[of "NAgg TypeGroup [(Some ''action'', NStr ''reject'')]" any_rule] l(1) r by blast
qed

end
