(* ===== verification/CfgEdit.thy ===== *)
theory CfgEdit
  imports CfgRound CfgTables CfgValue
begin

text \<open>
  Editing of the configuration: writing a value into the tree, new entries, and moving a rule from the
  command line (\<open>write_value\<close>, \<open>cfg_write_value\<close>, \<open>_apply_new_entry\<close>, \<open>cfg_add_entry\<close> in
  \<open>src/src/service/cfgapi/cfgapi.cpp\<close>, \<open>cli_policy_move_cb\<close> in \<open>src/src/service/cmd/cmdserver.cpp\<close>).
\<close>

section \<open>Environment\<close>

text \<open>Besides the checks and the tree: 64-bit and floating-point settings, the texts of exceptions, the
  escape of names (socle), and the change of a section in place.\<close>

datatype write_exn = Conversion std_error | Library cfg_exn | Logic_error

record 's edit_env =
  ed_cfg :: "'s cfg_env"
  ed_val :: val_env
  ed_of_int64 :: "int \<Rightarrow> 's"
  ed_float :: "string \<Rightarrow> std_error + 's"
  ed_zero :: 's
  ed_what :: "write_exn \<Rightarrow> string"
  ed_escape :: "string \<Rightarrow> string"
  ed_put :: "'s \<Rightarrow> string \<Rightarrow> 's \<Rightarrow> 's"

section \<open>Conversions\<close>

definition conversion :: "std_error + 'a \<Rightarrow> write_exn + 'a option" where
  "conversion r = (case r of Inl e \<Rightarrow> Inl (Conversion e) | Inr x \<Rightarrow> Inr (Some x))"

definition make_int :: "string \<Rightarrow> std_error + int" where
  "make_int v = (if v = [] then Inr 0 else stoi v)"

text \<open>\<open>std::stoll\<close>.\<close>

definition stoll :: "string \<Rightarrow> std_error + int" where
  "stoll s =
     (let s = dropWhile isspace s;
          neg = (s \<noteq> [] \<and> hd s = CHR ''-'');
          s = (if s \<noteq> [] \<and> (hd s = CHR ''-'' \<or> hd s = CHR ''+'') then tl s else s);
          ds = takeWhile isdigit s
      in if ds = [] then Inl invalid_argument
         else let v = (if neg then - digits_value 0 ds else digits_value 0 ds)
              in if v < - (2 ^ 63) \<or> v > 2 ^ 63 - 1 then Inl out_of_range else Inr v)"

definition make_lli :: "string \<Rightarrow> std_error + int" where
  "make_lli v = (if v = [] then Inr 0 else stoll v)"

definition make_bool :: "(string \<Rightarrow> string) \<Rightarrow> string \<Rightarrow> bool option" where
  "make_bool lower v =
     (if v = [] then Some True
      else let uv = lower v in
        if uv \<in> {''true'', ''1'', ''yes'', ''y'', ''t''} then Some True
        else if uv \<in> {''false'', ''0'', ''no'', ''n'', ''f''} then Some False
        else None)"

definition make_float :: "'s edit_env \<Rightarrow> string \<Rightarrow> std_error + 's" where
  "make_float E v = (if v = [] then Inr (ed_zero E) else ed_float E v)"

section \<open>Writing a value\<close>

text \<open>The scalar setting a value becomes; no value when it cannot be converted.\<close>

definition converted_value :: "'s edit_env \<Rightarrow> cfg_type \<Rightarrow> string \<Rightarrow> write_exn + 's option" where
  "converted_value E t v =
     (let L = ce_lib (ed_cfg E) in
      if t = TypeInt then conversion (result_bind (make_int v) (\<lambda>i. Inr (cl_of_int L i)))
      else if t = TypeInt64 then conversion (result_bind (make_lli v) (\<lambda>i. Inr (ed_of_int64 E i)))
      else if t = TypeBoolean then Inr (map_option (cl_of_bool L) (make_bool (ce_tolower (ed_cfg E)) v))
      else if t = TypeFloat then conversion (make_float E v)
      else if t = TypeString then Inr (Some (cl_of_str L v))
      else Inl Logic_error)"

definition write_value :: "'s edit_env \<Rightarrow> cfg_db \<Rightarrow> string \<Rightarrow> cfg_type \<Rightarrow> string option \<Rightarrow> check_fault + (write_exn + 's option)" where
  "write_value E db path t v =
     result_bind (value_check (ed_val E) db path (case v of None \<Rightarrow> [] | Some v \<Rightarrow> v)) (\<lambda>(verdict, msg).
       Inr (case verdict of None \<Rightarrow> Inr None | Some v \<Rightarrow> converted_value E t v))"

text \<open>The exceptions that are caught.\<close>

definition caught :: "'s edit_env \<Rightarrow> write_exn \<Rightarrow> string" where
  "caught E e = (if e = Conversion invalid_argument then ''invalid argument!''
     else ''error writing config variable: '' @ ed_what E e)"

text \<open>The array has been emptied; the verdict is that of the last value.\<close>

fun write_items :: "'s edit_env \<Rightarrow> cfg_db \<Rightarrow> string \<Rightarrow> cfg_type \<Rightarrow> string list \<Rightarrow> 's \<Rightarrow> bool \<Rightarrow> check_fault + ('s \<times> bool \<times> string)" where
  "write_items E db path t [] a ok = Inr (a, ok, [])"
| "write_items E db path t (v # vs) a ok = result_bind (write_value E db path t (Some v)) (\<lambda>r. case r of
     Inl e \<Rightarrow> Inr (a, False, caught E e)
   | Inr None \<Rightarrow> write_items E db path t vs a False
   | Inr (Some s) \<Rightarrow> (case cl_append (ce_lib (ed_cfg E)) a s of
       Inl x \<Rightarrow> Inr (a, False, caught E (Library x))
     | Inr a' \<Rightarrow> write_items E db path t vs a' True))"

fun first_refusal :: "'s edit_env \<Rightarrow> cfg_db \<Rightarrow> string \<Rightarrow> string list \<Rightarrow> check_fault + string option" where
  "first_refusal E db path [] = Inr None"
| "first_refusal E db path (v # vs) = result_bind (value_check (ed_val E) db path v) (\<lambda>(verdict, msg).
     if verdict = None then Inr (Some msg) else first_refusal E db path vs)"

definition write_array :: "'s edit_env \<Rightarrow> cfg_db \<Rightarrow> string \<Rightarrow> 's \<Rightarrow> string list \<Rightarrow> check_fault + ('s \<times> bool \<times> string)" where
  "write_array E db path setting values =
     (let L = ce_lib (ed_cfg E);
          t = (case cl_entries L setting of [] \<Rightarrow> TypeString | e # _ \<Rightarrow> cl_type L (snd e));
          vs = concat (map (\<lambda>v. ve_split (ed_val E) v (CHR '','')) values)
      in result_bind (first_refusal E db path vs) (\<lambda>bad. case bad of
           Some msg \<Rightarrow> Inr (setting, False, msg)
         | None \<Rightarrow> write_items E db path t vs (cl_new L TypeArray) True))"

text \<open>The setting \<open>varname\<close> of \<open>parent\<close>, whose path is \<open>path\<close>: its new value, the verdict and a message.\<close>

definition cfg_write_value :: "'s edit_env \<Rightarrow> cfg_db \<Rightarrow> 's \<Rightarrow> string \<Rightarrow> string \<Rightarrow> string list \<Rightarrow> check_fault + ('s option \<times> bool \<times> string)" where
  "cfg_write_value E db parent path varname values =
     (let L = ce_lib (ed_cfg E) in
      case cl_get L parent varname of
        Inl _ \<Rightarrow> Inr (None, False, [])
      | Inr setting \<Rightarrow>
          if is_scalar (cl_type L setting) then
            result_bind (write_value E db path (cl_type L setting) (if values = [] then None else Some (hd values))) (\<lambda>r. Inr (case r of
              Inl e \<Rightarrow> (Some setting, False, caught E e)
            | Inr None \<Rightarrow> (Some setting, False, [])
            | Inr (Some s) \<Rightarrow> (Some s, True, [])))
          else if cl_type L setting = TypeArray then
            result_bind (write_array E db path setting values) (\<lambda>(s, ok, msg). Inr (Some s, ok, msg))
          else Inr (Some setting, True, []))"

section \<open>New entries\<close>

definition section_list_size :: "cfg_db \<Rightarrow> string \<Rightarrow> nat" where
  "section_list_size db sec = (if sec = ''policy'' then length (db_policy_list db) else 0)"

definition cfg_add_prepare_params :: "'s edit_env \<Rightarrow> cfg_db \<Rightarrow> string \<Rightarrow> string list \<Rightarrow> string list \<times> bool \<times> string" where
  "cfg_add_prepare_params E db sec args =
     (let is_list = (sec = ''policy''); args = map (ed_escape E) args; index = [''['' @ dec (section_list_size db sec) @ '']''] in
      if args \<noteq> [] then
        (if hd args = ''?'' then (args, False, ''Note: add <object_name> (name must not start with reserved __)'')
         else if starts_with ''__'' (hd args) then (args, False, ''Error: name must not start with reserved '' @ CHR 0x27 # ''__'' @ [CHR 0x27])
         else if is_list then (index, True, ''Note: suggested name is ignored in unnamed lists'')
         else (args, True, []))
      else if is_list then (index, True, [])
      else (args, False, ''Error: new entry in this section must have an unique name.''))"

text \<open>A new entry is added to its section, which is then loaded over the table.\<close>

definition add_and_load :: "'s edit_env \<Rightarrow> 's \<Rightarrow> string \<Rightarrow> ('s \<Rightarrow> cfg_exn + ('s \<times> bool)) \<Rightarrow> ('s \<Rightarrow> cfg_db \<Rightarrow> loaded) \<Rightarrow> cfg_db
    \<Rightarrow> 's \<times> cfg_db \<times> (cfg_exn + bool)" where
  "add_and_load E root sec new ld db = (case result_bind (cl_get (ce_lib (ed_cfg E)) root sec) new of
     Inl x \<Rightarrow> (root, db, Inl x)
   | Inr (s, False) \<Rightarrow> (root, db, Inr False)
   | Inr (s, True) \<Rightarrow> (let root = ed_put E root sec s in
       case ld root db of (db, r) \<Rightarrow> (root, db, result_bind r (\<lambda>_. Inr True))))"

definition apply_new_entry :: "'s edit_env \<Rightarrow> 's \<Rightarrow> string \<Rightarrow> string \<Rightarrow> cfg_db \<Rightarrow> 's \<times> cfg_db \<times> (cfg_exn + bool)" where
  "apply_new_entry E root sec name db =
     (let env = ed_cfg E; L = ce_lib env in
      if sec = ''proto_objects'' then add_and_load E root sec (\<lambda>s. new_proto_object L s name) (load_db_proto env) db
      else if sec = ''port_objects'' then add_and_load E root sec (\<lambda>s. new_port_object L s name) (load_db_port env) db
      else if sec = ''address_objects'' then add_and_load E root sec (\<lambda>s. new_address_object L s name) (load_db_address env) db
      else if sec = ''detection_profiles'' then add_and_load E root sec (\<lambda>s. new_detection_profile L s name) (load_db_prof_detection env) db
      else if sec = ''content_profiles'' then add_and_load E root sec (\<lambda>s. new_content_profile L s name) (load_db_prof_content env) db
      else if sec = ''tls_ca'' then add_and_load E root sec (\<lambda>s. new_tls_ca L s name) (\<lambda>_ db. (db, Inr 0)) db
      else if sec = ''tls_profiles'' then add_and_load E root sec (\<lambda>s. new_tls_profile L s name) (load_db_prof_tls env) db
      else if sec = ''alg_dns_profiles'' then add_and_load E root sec (\<lambda>s. new_alg_dns_profile L s name) (load_db_prof_alg_dns env) db
      else if sec = ''auth_profiles'' then add_and_load E root sec (\<lambda>s. new_auth_profile L s name) (load_db_prof_auth env) db
      else if sec = ''policy'' then
        add_and_load E root sec (new_policy L) (\<lambda>root db. load_db_policy env root (fst (cleanup_db_policy db))) db
      else if sec = ''routing'' then add_and_load E root sec (\<lambda>s. new_routing L s name) (load_db_routing env) db
      else (root, db, Inr False))"

definition cfg_add_entry :: "'s edit_env \<Rightarrow> 's \<Rightarrow> string \<Rightarrow> string \<Rightarrow> cfg_db \<Rightarrow> 's \<times> cfg_db \<times> (cfg_exn + (bool \<times> string))" where
  "cfg_add_entry E root sec name db =
     (if cfg_exists (ce_lib (ed_cfg E)) root sec then
        (case apply_new_entry E root sec name db of (root, db, r) \<Rightarrow>
           (root, db, result_bind r (\<lambda>added. Inr (if added then (True, ''Note: '' @ sec @ ''.'' @ name @ '' has been created.'')
              else (False, ''Error: entry not created'')))))
      else (root, db, Inr (False, ''Error: section does not exist'')))"

section \<open>Moving a rule from the command line\<close>

definition strip_index :: "string \<Rightarrow> string" where
  "strip_index x = string_replace_all (string_replace_all (string_replace_all x ''['' []) '']'' []) '' '' []"

datatype move_request = Hint | Parse_error | Unknown_direction | Invalid_arguments | Invalid_command | Move int int op_move

definition move_target :: "cfg_db \<Rightarrow> int \<Rightarrow> string \<Rightarrow> int option" where
  "move_target db i word =
     (let n = int (length (db_policy_list db)) in
      if word = ''up'' then Some (i - 1)
      else if word = ''top'' then Some 0
      else if word = ''down'' then Some (if i + 1 < n then i + 1 else - 1)
      else if word = ''bottom'' then Some (if 0 < n then n - 1 else - 1)
      else None)"

text \<open>What the words of the command ask for; \<open>args\<close> are the arguments of the callback.\<close>

definition move_indices :: "val_env \<Rightarrow> cfg_db \<Rightarrow> string list \<Rightarrow> move_request + (int \<times> int)" where
  "move_indices env db ws =
     (if length ws = 4 then Inr (ve_safe_val env (strip_index (ws ! 1)), ve_safe_val env (strip_index (ws ! 3)))
      else if length ws = 3 then
        (let i = ve_safe_val env (strip_index (ws ! 1)) in
         if i \<ge> 0 then (case move_target db i (ws ! 2) of None \<Rightarrow> Inl Unknown_direction | Some j \<Rightarrow> Inr (i, j))
         else Inr (i, - 1))
      else Inl Parse_error)"

definition policy_move_request :: "val_env \<Rightarrow> cfg_db \<Rightarrow> string list \<Rightarrow> string list \<Rightarrow> move_request" where
  "policy_move_request env db args ws =
     (if args \<noteq> [] \<and> hd args = ''?'' then Hint
      else case move_indices env db ws of
        Inl r \<Rightarrow> r
      | Inr (i, j) \<Rightarrow>
          if i < 0 \<or> j < 0 then Invalid_arguments
          else if ws ! 2 \<in> {''after'', ''down'', ''bottom''} then Move i j OP_MOVE_AFTER
          else if ws ! 2 \<in> {''before'', ''up'', ''top''} then Move i j OP_MOVE_BEFORE
          else Invalid_command)"

text \<open>The settings of the policy section and the tables after the command.\<close>

definition cli_policy_move :: "'s edit_env \<Rightarrow> string list \<Rightarrow> string list \<Rightarrow> 's list option \<Rightarrow> cfg_db \<Rightarrow> 's list option \<times> cfg_db \<times> cfg_exn option" where
  "cli_policy_move E args ws policy db = (case policy_move_request (ed_val E) db args ws of
     Move i j op \<Rightarrow> (case move_policy (ce_lib (ed_cfg E)) policy i j op of
         (policy', False) \<Rightarrow> (policy', db, None)
       | (policy', True) \<Rightarrow> (case load_rules (ed_cfg E) 0 (map (\<lambda>s. (None, s)) (case policy' of None \<Rightarrow> [] | Some ps \<Rightarrow> ps)) (fst (cleanup_db_policy db)) of
           (db', x) \<Rightarrow> (policy', db', x)))
   | _ \<Rightarrow> (policy, db, None))"

section \<open>Facts\<close>

subsection \<open>Lists of references\<close>

lemma check_address:
  assumes "ds \<noteq> []" "list_all isdigit ds" "splits_attr env attr" "attr \<in> {''src'', ''dst''}"
    and "value_check env db (policy_path ds attr) v = Inr (Some w, m)"
  shows "w = v \<and> v \<in> set (keys_of (db_address db))"
proof -
  have h: "find_help (''policy.[x].'' @ attr) = Some (in_help True Keys_address ''must be in address_objects'')" "CHR ''['' \<notin> set attr"
    using assms(4) policy_help(2,3) by auto
  show ?thesis
  proof (cases "v = []")
    case True
    have "starts_with ''policy.[x]'' (''policy.[x].'' @ attr)" by (simp add: starts_with_def)
    then show ?thesis using assms(3-5) h(1) True
      unfolding value_check_def find_entry_def mask_policy_path[OF assms(1,2) h(2)] splits_attr_def
      by (auto simp: in_help_def Let_def policy_address_check_def split: if_splits)
  next
    case False
    then show ?thesis using value_check_policy[OF assms(1,2) h(2) assms(3) h(1) False, of db] assms(4,5) by (auto split: if_splits)
  qed
qed

lemma first_refusal_None:
  "first_refusal E db path vs = Inr None \<Longrightarrow> v \<in> set vs \<Longrightarrow> \<exists>w m. value_check (ed_val E) db path v = Inr (Some w, m)"
  by (induction vs) (auto simp: result_bind_Inr_iff split: if_splits)

text \<open>Values that are accepted as they are become the elements of a text array.\<close>

lemma write_items_strings:
  assumes "cfg_ok (ce_lib (ed_cfg E))" "\<forall>v\<in>set vs. \<exists>m. value_check (ed_val E) db path v = Inr (Some v, m)"
    and "cl_type (ce_lib (ed_cfg E)) a = TypeArray" "\<forall>e\<in>set (cl_entries (ce_lib (ed_cfg E)) a). cl_type (ce_lib (ed_cfg E)) (snd e) = TypeString"
  shows "\<exists>a'. write_items E db path TypeString vs a True = Inr (a', True, []) \<and> cl_type (ce_lib (ed_cfg E)) a' = TypeArray
    \<and> cl_entries (ce_lib (ed_cfg E)) a' = cl_entries (ce_lib (ed_cfg E)) a @ map (\<lambda>v. (None, cl_of_str (ce_lib (ed_cfg E)) v)) vs"
  using assms(2-)
proof (induction vs arbitrary: a)
  case (Cons v vs)
  let ?L = "ce_lib (ed_cfg E)"
  obtain m where v: "value_check (ed_val E) db path v = Inr (Some v, m)" using Cons.prems(1) by auto
  then have w: "write_value E db path TypeString (Some v) = Inr (Inr (Some (cl_of_str ?L v)))"
    by (simp add: write_value_def converted_value_def)
  have t: "cl_type ?L (cl_of_str ?L v) = TypeString" by (rule cfg_okD(5)[OF assms(1)])
  then have "cl_type ?L a = TypeList \<or> cl_type ?L a = TypeArray \<and> is_scalar (cl_type ?L (cl_of_str ?L v))
      \<and> (\<forall>e\<in>set (cl_entries ?L a). cl_type ?L (snd e) = cl_type ?L (cl_of_str ?L v))"
    using Cons.prems(2,3) by (simp add: is_scalar_def)
  then obtain a1 where a1: "cl_append ?L a (cl_of_str ?L v) = Inr a1" "cl_type ?L a1 = TypeArray"
      "cl_entries ?L a1 = cl_entries ?L a @ [(None, cl_of_str ?L v)]"
    using cfg_ok_append[OF assms(1), of a "cl_of_str ?L v"] Cons.prems(2) by metis
  have "\<exists>a'. write_items E db path TypeString vs a1 True = Inr (a', True, []) \<and> cl_type ?L a' = TypeArray
      \<and> cl_entries ?L a' = cl_entries ?L a1 @ map (\<lambda>v. (None, cl_of_str ?L v)) vs"
    by (rule Cons.IH) (use Cons.prems a1 t in auto)
  then show ?case using w a1 by simp
qed simp

lemma text_array_written:
  assumes ok: "cfg_ok (ce_lib (ed_cfg E))" and s: "cl_type (ce_lib (ed_cfg E)) s = TypeArray"
    "\<forall>e\<in>set (cl_entries (ce_lib (ed_cfg E)) s). cl_type (ce_lib (ed_cfg E)) (snd e) = TypeString"
    and acc: "\<And>v w m. value_check (ed_val E) db path v = Inr (Some w, m) \<Longrightarrow> w = v"
    and get: "cl_get (ce_lib (ed_cfg E)) parent key = Inr s"
    and wr: "cfg_write_value E db parent path key values = Inr (a, True, msg)"
  shows "\<exists>a'. a = Some a' \<and> name_array (ce_lib (ed_cfg E)) a' (concat (map (\<lambda>v. ve_split (ed_val E) v (CHR '','')) values))
    \<and> (\<forall>v\<in>set (concat (map (\<lambda>v. ve_split (ed_val E) v (CHR '','')) values)). \<exists>m. value_check (ed_val E) db path v = Inr (Some v, m))"
proof -
  let ?L = "ce_lib (ed_cfg E)" and ?vs = "concat (map (\<lambda>v. ve_split (ed_val E) v (CHR '','')) values)"
  have t: "(case cl_entries ?L s of [] \<Rightarrow> TypeString | e # _ \<Rightarrow> cl_type ?L (snd e)) = TypeString"
    using s(2) by (cases "cl_entries ?L s") auto
  have "write_array E db path s values = Inr (the a, True, msg) \<and> a \<noteq> None"
    using wr get s(1) by (auto simp: cfg_write_value_def Let_def is_scalar_def result_bind_Inr_iff)
  then have none: "first_refusal E db path ?vs = Inr None"
    and w: "write_items E db path TypeString ?vs (cl_new ?L TypeArray) True = Inr (the a, True, msg)" and a: "a \<noteq> None"
    unfolding write_array_def Let_def t by (auto simp: result_bind_Inr_iff split: option.splits)
  have checked: "\<forall>v\<in>set ?vs. \<exists>m. value_check (ed_val E) db path v = Inr (Some v, m)"
  proof
    fix v assume "v \<in> set ?vs"
    from first_refusal_None[OF none this] obtain w m where "value_check (ed_val E) db path v = Inr (Some w, m)" by blast
    with acc[OF this] show "\<exists>m. value_check (ed_val E) db path v = Inr (Some v, m)" by blast
  qed
  from write_items_strings[OF ok checked, of "cl_new ?L TypeArray"] w cfg_okD(1,2)[OF ok]
  have "name_array ?L (the a) ?vs" by (auto simp: name_array_def)
  then show ?thesis using a checked by (auto intro!: exI[of _ "the a"])
qed

lemma add_refs_found:
  assumes "cfg_ok L" "map Some xs = map lookup vs"
  shows "add_refs L lookup push (map (\<lambda>v. (None, cl_of_str L v)) vs) d = Inr (fold push xs (fst d), snd d)"
  using assms(2)
proof (induction vs arbitrary: xs d)
  case (Cons v vs)
  then obtain y ys where "xs = y # ys" "lookup v = Some y" "map Some ys = map lookup vs" by (cases xs) auto
  then show ?case using Cons.IH[of ys] by (simp add: cfg_okD[OF assms(1)] add_ref_def)
qed simp

lemma group_of_names:
  assumes "cfg_ok L" "name_array L a vs" "map Some xs = map lookup vs" "cl_get L cur key = Inr a"
  shows "load_group L cur key lookup push d = Inr (fold push xs (fst d), snd d)"
  using assms add_refs_found[OF assms(1,3)] by (simp add: load_group_def name_array_def is_scalar_def)

subsection \<open>Attributes without a filter\<close>

lemma tls_list_no_help:
  assumes "take 13 k = ''tls_profiles.''" "last k = CHR ''s''"
  shows "find_help k = None"
proof -
  have "list_all (\<lambda>e. \<not> (take 13 (fst e) = ''tls_profiles.'' \<and> last (fst e) = CHR ''s'')) element_help"
    by (simp add: element_help_def help_settings_paths_def help_settings_ports_def help_settings_log_def help_settings_portal_def
        help_settings_api_def help_objects_def help_policy_def help_profiles_def init_routing_def init_captures_def)
  then have "k \<notin> fst ` set element_help" using assms by (auto simp: list_all_iff)
  then show ?thesis by (simp add: find_help_def map_of_eq_None_iff)
qed

definition ports_path :: "string \<Rightarrow> string" where
  "ports_path n = ''tls_profiles.'' @ n @ ''.redirect_warning_ports''"

lemma ports_unchecked:
  assumes "CHR ''['' \<notin> set n" "ve_split env (ports_path n) (CHR ''.'') = [''tls_profiles'', n, ''redirect_warning_ports'']"
  shows "value_check env db (ports_path n) v = Inr (Some v, [])"
proof -
  have m: "mask_array_index (ports_path n) = ports_path n"
    using mask_plain[of "ports_path n" "[]"] assms(1) by (simp add: ports_path_def mask_array_index.simps(1))
  have h: "find_help (ports_path n) = None" by (rule tls_list_no_help) (simp_all add: ports_path_def)
  have p: "find_help ''tls_profiles.[x].redirect_warning_ports'' = None" by (rule tls_list_no_help) simp_all
  have s: "\<not> starts_with ''policy.[x]'' (ports_path n)" by (simp add: starts_with_def ports_path_def)
  have "find_entry env (ports_path n) = Inr None"
    unfolding find_entry_def m h assms(2) by (simp add: mask_parent_def mask_tail_index_def p)
  then show ?thesis by (simp add: value_check_def m policy_address_check_def s)
qed

subsection \<open>A new rule\<close>

definition blank_rule :: "cfg_db \<Rightarrow> cfg_rule" where
  "blank_rule db = fresh_rule\<lparr>cr_disabled := True, cr_proto := (case tab_get (db_proto db) ''tcp'' of Some x \<Rightarrow> x | None \<Rightarrow> ([], 0)),
     cr_action := POLICY_ACTION_PASS, cr_action_name := ''accept'', cr_nat := POLICY_NAT_AUTO, cr_nat_name := ''auto''\<rparr>"

definition no_empty_name :: "cfg_db \<Rightarrow> bool" where
  "no_empty_name db \<longleftrightarrow> tab_get (db_prof_detection db) [] = None \<and> tab_get (db_prof_content db) [] = None
     \<and> tab_get (db_prof_tls db) [] = None \<and> tab_get (db_prof_auth db) [] = None \<and> tab_get (db_prof_alg_dns db) [] = None"

definition new_members :: "'s cfg_lib \<Rightarrow> (string \<times> 's) list" where
  "new_members L = [(''disabled'', cl_of_bool L True), (''name'', cl_new L TypeString), (''proto'', cl_of_str L ''tcp''),
        (''src'', cl_new L TypeArray), (''sport'', cl_new L TypeArray), (''dst'', cl_new L TypeArray),
        (''dport'', cl_new L TypeArray), (''features'', cl_new L TypeArray), (''action'', cl_of_str L ''accept''),
        (''nat'', cl_of_str L ''auto''), (''tls_profile'', cl_new L TypeString), (''detection_profile'', cl_new L TypeString),
        (''content_profile'', cl_new L TypeString), (''auth_profile'', cl_new L TypeString),
        (''alg_dns_profile'', cl_new L TypeString), (''routing'', cl_new L TypeString)]"

lemma blank_rule_loads:
  assumes ok: "cfg_ok (ce_lib env)" and e: "cl_str (ce_lib env) (cl_new (ce_lib env) TypeString) = Inr []"
    and db: "no_empty_name db" and c: "is_group (ce_lib env) c (new_members (ce_lib env))"
  shows "load_rule env db c = Inr (blank_rule db, False)"
proof -
  let ?L = "ce_lib env"
  have group: "load_group ?L c key lookup push d = Inr d" if "map_of (new_members ?L) key = Some (cl_new ?L TypeArray)"
    for key and lookup :: "string \<Rightarrow> 'v option" and push d
    using that by (simp add: load_group_def get_member[OF ok c] cfg_okD[OF ok] is_scalar_def)
  have prof: "load_profile ?L c key lookup put d = Inr d"
    if "key \<noteq> []" "map_of (new_members ?L) key \<in> {None, Some (cl_new ?L TypeString)}" "lookup [] = None" for key and lookup :: "string \<Rightarrow> 'p option" and put d
    using that by (auto simp: load_profile_def load_member[OF ok c] e)
  have names: "lookup_prof_detection db [] = None" "lookup_prof_content db [] = None" "lookup_prof_tls db [] = None"
    "lookup_prof_auth db [] = None" "lookup_prof_alg_dns db [] = None"
    using db by (simp_all add: no_empty_name_def lookup_prof_detection_def lookup_prof_content_def lookup_prof_tls_def
        lookup_prof_auth_def lookup_prof_alg_dns_def)
  have script: "load_profile ?L c ''script_profile'' lookup put d = Inr d" for lookup :: "string \<Rightarrow> 'q option" and put d
    by (simp add: load_profile_def load_member[OF ok c] new_members_def)
  have fields: "load_field ?L (cl_bool ?L) c ''disabled'' upd d = Inr (upd True d)" "load_field ?L (cl_str ?L) c ''name'' upd' d = Inr (upd' [] d)" for upd upd' d
    by (simp_all add: load_field_member[OF ok c] new_members_def cfg_okD[OF ok] e)
  have "load_features_refs env db c d = Inr d" for d
    by (simp add: load_features_refs_def Let_def get_member[OF ok c] new_members_def cfg_okD[OF ok] is_scalar_def)
  moreover have "load_routing_ref ?L db c d = Inr d" for d
    by (simp add: load_routing_ref_def load_member[OF ok c] new_members_def e)
  moreover have "load_proto_ref env db c d = Inr ((fst d)\<lparr>cr_proto := (case tab_get (db_proto db) ''tcp'' of Some x \<Rightarrow> x | None \<Rightarrow> ([], 0))\<rparr>, snd d)" for d
    by (simp add: load_proto_ref_def Let_def load_member[OF ok c] new_members_def cfg_okD[OF ok] add_ref_def lookup_proto_def split: option.splits)
  moreover have "load_action ?L c d = Inr ((fst d)\<lparr>cr_action_name := ''accept'', cr_action := POLICY_ACTION_PASS\<rparr>, snd d)"
      "load_nat ?L c d = Inr ((fst d)\<lparr>cr_nat_name := ''auto'', cr_nat := POLICY_NAT_AUTO\<rparr>, snd d)" for d
    by (simp_all add: load_action_def load_nat_def load_member[OF ok c] new_members_def cfg_okD[OF ok])
  moreover have "run_fields (profile_steps ?L db c) d = run_fields [load_routing_ref ?L db c] d" for d
    unfolding profile_steps_def by (simp add: prof new_members_def names script)
  moreover have "map_of (new_members ?L) ''src'' = Some (cl_new ?L TypeArray)" "map_of (new_members ?L) ''dst'' = Some (cl_new ?L TypeArray)"
    "map_of (new_members ?L) ''sport'' = Some (cl_new ?L TypeArray)" "map_of (new_members ?L) ''dport'' = Some (cl_new ?L TypeArray)"
    by (simp_all add: new_members_def)
  ultimately show ?thesis
    by (simp add: load_rule_def rule_steps_def Let_def group fields load_profiles_def blank_rule_def fresh_rule_def POLICY_ACTION_PASS_def)
qed

lemma new_policy_appends:
  assumes ok: "cfg_ok L" and s: "cl_type L s = TypeList"
  shows "\<exists>s' c. new_policy L s = Inr (s', True) \<and> cl_entries L s' = cl_entries L s @ [(None, c)] \<and> is_group L c (new_members L)"
proof -
  obtain c where c: "make_group L (new_members L) = Inr c" "is_group L c (new_members L)"
    using make_group_ok[OF ok, of "new_members L"] by (auto simp: new_members_def)
  obtain s' where "cl_append L s c = Inr s'" "cl_entries L s' = cl_entries L s @ [(None, c)]"
    using cfg_ok_append[OF ok, of s c] s by auto
  then show ?thesis using c by (auto simp: new_policy_def new_members_def)
qed

section \<open>Properties\<close>

text \<open>C16: When an edit of the sources or destinations of a rule is reported as successful, the setting
  holds exactly the entered names, in their order, each is an address object, and the rule loader
  reads the setting as these objects without an error.\<close>

theorem edited_addresses_load:
  assumes "cfg_ok (ce_lib (ed_cfg E))" "ds \<noteq> []" "list_all isdigit ds" "splits_attr (ed_val E) attr" "attr \<in> {''src'', ''dst''}"
    and "cl_get (ce_lib (ed_cfg E)) parent attr = Inr s" "cl_type (ce_lib (ed_cfg E)) s = TypeArray"
    and "\<forall>e\<in>set (cl_entries (ce_lib (ed_cfg E)) s). cl_type (ce_lib (ed_cfg E)) (snd e) = TypeString"
    and "cfg_write_value E db parent (policy_path ds attr) attr values = Inr (a, True, msg)"
  shows "\<exists>a' xs. a = Some a'
    \<and> cl_entries (ce_lib (ed_cfg E)) a' = map (\<lambda>v. (None, cl_of_str (ce_lib (ed_cfg E)) v)) (concat (map (\<lambda>v. ve_split (ed_val E) v (CHR '','')) values))
    \<and> map Some xs = map (find_address db) (concat (map (\<lambda>v. ve_split (ed_val E) v (CHR '','')) values))
    \<and> (\<forall>cur push d. cl_get (ce_lib (ed_cfg E)) cur attr = Inr a'
        \<longrightarrow> load_group (ce_lib (ed_cfg E)) cur attr (find_address db) push d = Inr (fold push xs (fst d), snd d))"
proof -
  let ?L = "ce_lib (ed_cfg E)" and ?vs = "concat (map (\<lambda>v. ve_split (ed_val E) v (CHR '','')) values)"
  note key = check_address[OF assms(2-5)]
  obtain a' where a': "a = Some a'" "name_array ?L a' ?vs"
    and ok: "\<forall>v\<in>set ?vs. \<exists>m. value_check (ed_val E) db (policy_path ds attr) v = Inr (Some v, m)"
    using text_array_written[OF assms(1,7,8) _ assms(6,9)] key by blast
  have "\<exists>x. find_address db v = Some x" if "v \<in> set ?vs" for v
    using ok that key[of db v v] key_found[of v "db_address db"] unfolding find_address_def by blast
  then have m: "map Some (map (\<lambda>v. the (find_address db v)) ?vs) = map (find_address db) ?vs" by force
  show ?thesis
  proof (intro exI conjI allI impI)
    show "a = Some a'" by (rule a'(1))
    show "cl_entries ?L a' = map (\<lambda>v. (None, cl_of_str ?L v)) ?vs" using a'(2) by (simp add: name_array_def)
    show "map Some (map (\<lambda>v. the (find_address db v)) ?vs) = map (find_address db) ?vs" by (rule m)
  qed (rule group_of_names[OF assms(1) a'(2) m])
qed

text \<open>A new rule is appended behind the rules that were loaded before; it accepts all TCP traffic
  with address translation, but is disabled.\<close>

theorem new_rule_is_disabled:
  assumes "cfg_ok (ce_lib (ed_cfg E))" "cl_str (ce_lib (ed_cfg E)) (cl_new (ce_lib (ed_cfg E)) TypeString) = Inr []" "no_empty_name db"
    and "\<And>root n s. cl_get (ce_lib (ed_cfg E)) (ed_put E root n s) n = Inr s"
    and "cl_get (ce_lib (ed_cfg E)) root ''policy'' = Inr s" "cl_type (ce_lib (ed_cfg E)) s = TypeList"
    and "\<forall>e\<in>set (cl_entries (ce_lib (ed_cfg E)) s). is_ok (load_rule (ed_cfg E) db (snd e))"
  shows "\<exists>root' db'. apply_new_entry E root ''policy'' name db = (root', db', Inr True)
    \<and> db_policy_list db' = accepted (ed_cfg E) db (cl_entries (ce_lib (ed_cfg E)) s) @ [blank_rule db] \<and> cr_disabled (blank_rule db)"
proof -
  let ?env = "ed_cfg E" and ?L = "ce_lib (ed_cfg E)"
  obtain s' c where s': "new_policy ?L s = Inr (s', True)" "cl_entries ?L s' = cl_entries ?L s @ [(None, c)]" "is_group ?L c (new_members ?L)"
    using new_policy_appends[OF assms(1,6)] by blast
  have c: "load_rule ?env db c = Inr (blank_rule db, False)" by (rule blank_rule_loads[OF assms(1-3) s'(3)])
  let ?root = "ed_put E root ''policy'' s'" and ?db = "fst (cleanup_db_policy db)"
  have get: "cl_get ?L ?root ''policy'' = Inr s'" by (rule assms(4))
  have "\<forall>e\<in>set (cl_entries ?L s'). is_ok (load_rule ?env db (snd e))" using assms(7) s'(2) c by auto
  from reload_policy_total[OF get this] obtain db' b where r: "reload_policy ?env ?root db = (db', Inr b)" by blast
  have list: "db_policy_list db' = accepted ?env db (cl_entries ?L s) @ [blank_rule db]"
    using reload_policy_list(1)[OF r] get s'(2) c by (simp add: accepted_def)
  obtain n where "load_db_policy ?env ?root ?db = (db', Inr n)"
    using r by (auto simp: reload_policy_def result_bind_Inr_iff split: prod.splits)
  then have "apply_new_entry E root ''policy'' name db = (?root, db', Inr True)"
    using assms(5) s'(1) by (simp add: apply_new_entry_def Let_def add_and_load_def)
  then show ?thesis using list by (simp add: blank_rule_def)
qed

text \<open>The commands that move the first rule to the top and the last rule to the bottom delete the
  rule.\<close>

theorem move_to_end_deletes:
  assumes "args = [] \<or> hd args \<noteq> ''?''"
  shows "(ve_safe_val (ed_val E) (strip_index x) = 0 \<longrightarrow> fst (cli_policy_move E args [cmd, x, ''top''] (Some (p # ps)) db) = Some ps)
    \<and> (ve_safe_val (ed_val E) (strip_index x) = int (length ps) \<longrightarrow> length (db_policy_list db) = Suc (length ps)
        \<longrightarrow> fst (cli_policy_move E args [cmd, x, ''bottom''] (Some (ps @ [p])) db) = Some ps)"
proof -
  have m: "move_policy L (Some (ps @ [p])) (int (length ps)) (int (length ps)) op = (Some ps, True)"
      "move_policy L (Some (p # ps)) 0 0 op = (Some ps, True)" for L :: "'a cfg_lib" and op
    using move_loop_copy[of 0 ps "int (length ps)" "int (length ps)" "cl_new L TypeGroup" "ps @ [p]" op "[p]" "[]"]
      move_loop_rest[of 1 ps 0 0 "cl_new L TypeGroup" "p # ps" op "[]"]
    by (simp_all add: move_policy_def)
  show ?thesis using assms
    by (auto simp: cli_policy_move_def policy_move_request_def move_indices_def move_target_def Let_def m split: prod.splits)
qed

text \<open>Port numbers that are entered for an empty list of warning ports are stored as text; loading
  the profile then ends with an exception.\<close>

theorem ports_written_as_text:
  assumes "cfg_ok (ce_lib (ed_cfg E))" "CHR ''['' \<notin> set n"
    and "ve_split (ed_val E) (ports_path n) (CHR ''.'') = [''tls_profiles'', n, ''redirect_warning_ports'']" "ve_split (ed_val E) v (CHR '','') = [v]"
    and "cl_get (ce_lib (ed_cfg E)) parent ''redirect_warning_ports'' = Inr s" "cl_type (ce_lib (ed_cfg E)) s = TypeArray"
    and "cl_entries (ce_lib (ed_cfg E)) s = []" "cl_int (ce_lib (ed_cfg E)) (cl_of_str (ce_lib (ed_cfg E)) v) = Inl SettingTypeException"
  shows "\<exists>a. cfg_write_value E db parent (ports_path n) ''redirect_warning_ports'' [v] = Inr (Some a, True, [])
    \<and> (\<forall>cur p. cl_get (ce_lib (ed_cfg E)) cur ''redirect_warning_ports'' = Inr a \<longrightarrow> load_warning_ports (ce_lib (ed_cfg E)) cur p = Inl SettingTypeException)"
proof -
  let ?L = "ce_lib (ed_cfg E)"
  have chk: "value_check (ed_val E) db (ports_path n) w = Inr (Some w, [])" for w by (rule ports_unchecked[OF assms(2,3)])
  obtain a where a: "write_items E db (ports_path n) TypeString [v] (cl_new ?L TypeArray) True = Inr (a, True, [])"
      "cl_entries ?L a = [(None, cl_of_str ?L v)]"
    using write_items_strings[OF assms(1), of "[v]" db "ports_path n" "cl_new ?L TypeArray"] chk cfg_okD(1,2)[OF assms(1)] by auto
  have t: "(case cl_entries ?L s of [] \<Rightarrow> TypeString | e # _ \<Rightarrow> cl_type ?L (snd e)) = TypeString" using assms(7) by simp
  have "first_refusal E db (ports_path n) [v] = Inr None" by (simp add: chk)
  then have "write_array E db (ports_path n) s [v] = Inr (a, True, [])"
    using a(1) unfolding write_array_def Let_def t by (simp add: assms(4) del: write_items.simps first_refusal.simps)
  then have "cfg_write_value E db parent (ports_path n) ''redirect_warning_ports'' [v] = Inr (Some a, True, [])"
    by (simp add: cfg_write_value_def Let_def assms(5,6) is_scalar_def)
  then show ?thesis using a(2) assms(8) by (auto simp: load_warning_ports_def)
qed

section \<open>Witnesses\<close>

definition node_put :: "node \<Rightarrow> string \<Rightarrow> node \<Rightarrow> node" where
  "node_put root n s = NAgg TypeGroup ((Some n, s) # filter (\<lambda>e. fst e \<noteq> Some n) (node_entries root))"

definition node_edit :: "node edit_env" where
  "node_edit = \<lparr>ed_cfg = node_env, ed_val = plain_val, ed_of_int64 = NInt, ed_float = (\<lambda>_. Inl invalid_argument), ed_zero = NInt 0,
     ed_what = (\<lambda>_. []), ed_escape = (\<lambda>s. s), ed_put = node_put\<rparr>"

lemma node_edit_sel: "ed_cfg node_edit = node_env" "ce_lib node_env = node_lib" "ed_val node_edit = plain_val" "ed_put node_edit = node_put"
  by (simp_all add: node_edit_def node_env_def)

lemma plain_comma: "ve_split plain_val ''lan'' (CHR '','') = [''lan'']" "ve_split plain_val ''443'' (CHR '','') = [''443'']"
  by (simp_all add: plain_val_def)

definition src_parent :: node where
  "src_parent = NAgg TypeGroup [(Some ''src'', NAgg TypeArray [])]"

lemma lan_written: "cfg_write_value node_edit lan_db src_parent (policy_path ''0'' ''src'') ''src'' [''lan'']
    = Inr (Some (NAgg TypeArray [(None, NStr ''lan'')]), True, [])"
proof -
  have w: "write_value node_edit lan_db (policy_path ''0'' ''src'') TypeString (Some ''lan'') = Inr (Inr (Some (NStr ''lan'')))"
    by (simp add: write_value_def node_edit_sel lan_checked converted_value_def) (simp add: node_lib_def)
  have "write_array node_edit lan_db (policy_path ''0'' ''src'') (NAgg TypeArray []) [''lan''] = Inr (NAgg TypeArray [(None, NStr ''lan'')], True, [])"
    by (simp add: write_array_def Let_def node_edit_sel lan_checked plain_comma) (simp add: node_lib_def node_new_def w node_edit_sel)
  then show ?thesis by (simp add: cfg_write_value_def Let_def node_edit_sel src_parent_def) (simp add: node_lib_def is_scalar_def)
qed

theorem edited_addresses_load_witness:
  "\<exists>a' y. cfg_write_value node_edit lan_db src_parent (policy_path ''0'' ''src'') ''src'' [''lan''] = Inr (Some a', True, [])
    \<and> find_address lan_db ''lan'' = Some y"
proof -
  have "cl_get node_lib src_parent ''src'' = Inr (NAgg TypeArray [])" "cl_type node_lib (NAgg TypeArray []) = TypeArray"
    "cl_entries node_lib (NAgg TypeArray []) = []" by (simp_all add: src_parent_def node_lib_def)
  then have "\<exists>y. Some y = find_address lan_db ''lan''"
    using edited_addresses_load[of node_edit "''0''" "''src''" src_parent "NAgg TypeArray []" lan_db "[''lan'']"]
      node_lib_ok zero_digit plain_splits(2) lan_written by (auto simp: node_edit_sel plain_comma)
  then show ?thesis using lan_written by (metis (no_types))
qed

theorem new_rule_is_disabled_witness:
  "\<exists>root' db'. apply_new_entry node_edit (NAgg TypeGroup [(Some ''policy'', NAgg TypeList [])]) ''policy'' [] empty_db = (root', db', Inr True)
    \<and> db_policy_list db' = [blank_rule empty_db]"
proof -
  have "cl_get node_lib (node_put root n s) n = Inr s" for root n s by (simp add: node_lib_def node_put_def)
  moreover have "cl_get node_lib (NAgg TypeGroup [(Some ''policy'', NAgg TypeList [])]) ''policy'' = Inr (NAgg TypeList [])"
    "cl_type node_lib (NAgg TypeList []) = TypeList" "cl_entries node_lib (NAgg TypeList []) = []"
    "cl_str node_lib (cl_new node_lib TypeString) = Inr []" by (simp_all add: node_lib_def node_new_def)
  moreover have "no_empty_name empty_db" by (simp add: no_empty_name_def empty_db_def tab_get_def)
  ultimately show ?thesis
    using new_rule_is_disabled[of node_edit empty_db "NAgg TypeGroup [(Some ''policy'', NAgg TypeList [])]" "NAgg TypeList []" "[]"] node_lib_ok
    by (auto simp: node_edit_sel accepted_def)
qed

theorem move_to_end_deletes_witness:
  "fst (cli_policy_move node_edit [] [''move'', ''[0]'', ''top''] (Some [any_rule_node ''tcp'', plain_rule_node]) empty_db) = Some [plain_rule_node]"
proof -
  have "strip_index ''[0]'' = ''0''" by (simp add: strip_index_def replace_all_subst)
  then have "ve_safe_val (ed_val node_edit) (strip_index ''[0]'') = 0"
    by (simp add: node_edit_sel plain_val_def stoi_def isspace_def isdigit_def)
  then show ?thesis
    using move_to_end_deletes[of "[]" node_edit "''[0]''" "''move''" "any_rule_node ''tcp''" "[plain_rule_node]" empty_db] by simp
qed

theorem ports_written_as_text_witness:
  "\<exists>a. cfg_write_value node_edit empty_db (NAgg TypeGroup [(Some ''redirect_warning_ports'', NAgg TypeArray [])]) (ports_path ''web'')
      ''redirect_warning_ports'' [''443''] = Inr (Some a, True, [])
    \<and> load_warning_ports node_lib (NAgg TypeGroup [(Some ''redirect_warning_ports'', a)]) (default_tls ''web'') = Inl SettingTypeException"
proof -
  let ?p = "NAgg TypeGroup [(Some ''redirect_warning_ports'', NAgg TypeArray [])]"
  have "ve_split plain_val (ports_path ''web'') (CHR ''.'') = [''tls_profiles'', ''web'', ''redirect_warning_ports'']"
    by (simp add: plain_val_def ports_path_def)
  moreover have "cl_get node_lib ?p ''redirect_warning_ports'' = Inr (NAgg TypeArray [])" "cl_type node_lib (NAgg TypeArray []) = TypeArray"
    "cl_entries node_lib (NAgg TypeArray []) = []" "cl_int node_lib (cl_of_str node_lib ''443'') = Inl SettingTypeException"
    "cl_get node_lib (NAgg TypeGroup [(Some ''redirect_warning_ports'', a)]) ''redirect_warning_ports'' = Inr a" for a
    by (simp_all add: node_lib_def)
  ultimately show ?thesis
    using ports_written_as_text[of node_edit "''web''" "''443''" ?p "NAgg TypeArray []" empty_db] node_lib_ok
    by (auto simp: node_edit_sel plain_comma)
qed

end
