(* ===== verification/Huffman.thy ===== *)
theory Huffman
  imports SocleBuffer CfgTree
begin

text \<open>
  The Huffman code of header compression, \<open>src/src/ext/hpack/hpack.hpp\<close>: the table of codes, the tree
  the decoder walks and the bit-wise encoder.  The table is prefix-free and complete, hence decoding
  never meets a missing branch and undoes encoding, padding included.
\<close>

type_synonym bit_string = "bool list"

datatype hpack_exn = invalid_argument | runtime_error | out_of_range | hpack_error | Undefined

section \<open>The table\<close>

text \<open>A code is written with its length and its value, most significant bit first.\<close>

fun bits :: "nat \<Rightarrow> int \<Rightarrow> bit_string" where
  "bits 0 v = []"
| "bits (Suc n) v = bits n (v div 2) @ [odd v]"

definition huffman_low :: "bit_string list" where
  "huffman_low = [
    bits 13 0x1ff8, bits 23 0x7fffd8, bits 28 0xfffffe2, bits 28 0xfffffe3, bits 28 0xfffffe4, bits 28 0xfffffe5,
    bits 28 0xfffffe6, bits 28 0xfffffe7, bits 28 0xfffffe8, bits 24 0xffffea, bits 30 0x3ffffffc, bits 28 0xfffffe9,
    bits 28 0xfffffea, bits 30 0x3ffffffd, bits 28 0xfffffeb, bits 28 0xfffffec, bits 28 0xfffffed, bits 28 0xfffffee,
    bits 28 0xfffffef, bits 28 0xffffff0, bits 28 0xffffff1, bits 28 0xffffff2, bits 30 0x3ffffffe, bits 28 0xffffff3,
    bits 28 0xffffff4, bits 28 0xffffff5, bits 28 0xffffff6, bits 28 0xffffff7, bits 28 0xffffff8, bits 28 0xffffff9,
    bits 28 0xffffffa, bits 28 0xffffffb, bits 6 0x14, bits 10 0x3f8, bits 10 0x3f9, bits 12 0xffa,
    bits 13 0x1ff9, bits 6 0x15, bits 8 0xf8, bits 11 0x7fa, bits 10 0x3fa, bits 10 0x3fb,
    bits 8 0xf9, bits 11 0x7fb, bits 8 0xfa, bits 6 0x16, bits 6 0x17, bits 6 0x18,
    bits 5 0x0, bits 5 0x1, bits 5 0x2, bits 6 0x19, bits 6 0x1a, bits 6 0x1b,
    bits 6 0x1c, bits 6 0x1d, bits 6 0x1e, bits 6 0x1f, bits 7 0x5c, bits 8 0xfb,
    bits 15 0x7ffc, bits 6 0x20, bits 12 0xffb, bits 10 0x3fc, bits 13 0x1ffa, bits 6 0x21,
    bits 7 0x5d, bits 7 0x5e, bits 7 0x5f, bits 7 0x60, bits 7 0x61, bits 7 0x62,
    bits 7 0x63, bits 7 0x64, bits 7 0x65, bits 7 0x66, bits 7 0x67, bits 7 0x68,
    bits 7 0x69, bits 7 0x6a, bits 7 0x6b, bits 7 0x6c, bits 7 0x6d, bits 7 0x6e,
    bits 7 0x6f, bits 7 0x70, bits 7 0x71, bits 7 0x72, bits 8 0xfc, bits 7 0x73,
    bits 8 0xfd, bits 13 0x1ffb, bits 19 0x7fff0, bits 13 0x1ffc, bits 14 0x3ffc, bits 6 0x22,
    bits 15 0x7ffd, bits 5 0x3, bits 6 0x23, bits 5 0x4, bits 6 0x24, bits 5 0x5,
    bits 6 0x25, bits 6 0x26, bits 6 0x27, bits 5 0x6, bits 7 0x74, bits 7 0x75,
    bits 6 0x28, bits 6 0x29, bits 6 0x2a, bits 5 0x7, bits 6 0x2b, bits 7 0x76,
    bits 6 0x2c, bits 5 0x8, bits 5 0x9, bits 6 0x2d, bits 7 0x77, bits 7 0x78,
    bits 7 0x79, bits 7 0x7a, bits 7 0x7b, bits 15 0x7ffe, bits 11 0x7fc, bits 14 0x3ffd,
    bits 13 0x1ffd, bits 28 0xffffffc]"

definition huffman_high :: "bit_string list" where
  "huffman_high = [
    bits 20 0xfffe6, bits 22 0x3fffd2, bits 20 0xfffe7, bits 20 0xfffe8, bits 22 0x3fffd3, bits 22 0x3fffd4,
    bits 22 0x3fffd5, bits 23 0x7fffd9, bits 22 0x3fffd6, bits 23 0x7fffda, bits 23 0x7fffdb, bits 23 0x7fffdc,
    bits 23 0x7fffdd, bits 23 0x7fffde, bits 24 0xffffeb, bits 23 0x7fffdf, bits 24 0xffffec, bits 24 0xffffed,
    bits 22 0x3fffd7, bits 23 0x7fffe0, bits 24 0xffffee, bits 23 0x7fffe1, bits 23 0x7fffe2, bits 23 0x7fffe3,
    bits 23 0x7fffe4, bits 21 0x1fffdc, bits 22 0x3fffd8, bits 23 0x7fffe5, bits 22 0x3fffd9, bits 23 0x7fffe6,
    bits 23 0x7fffe7, bits 24 0xffffef, bits 22 0x3fffda, bits 21 0x1fffdd, bits 20 0xfffe9, bits 22 0x3fffdb,
    bits 22 0x3fffdc, bits 23 0x7fffe8, bits 23 0x7fffe9, bits 21 0x1fffde, bits 23 0x7fffea, bits 22 0x3fffdd,
    bits 22 0x3fffde, bits 24 0xfffff0, bits 21 0x1fffdf, bits 22 0x3fffdf, bits 23 0x7fffeb, bits 23 0x7fffec,
    bits 21 0x1fffe0, bits 21 0x1fffe1, bits 22 0x3fffe0, bits 21 0x1fffe2, bits 23 0x7fffed, bits 22 0x3fffe1,
    bits 23 0x7fffee, bits 23 0x7fffef, bits 20 0xfffea, bits 22 0x3fffe2, bits 22 0x3fffe3, bits 22 0x3fffe4,
    bits 23 0x7ffff0, bits 22 0x3fffe5, bits 22 0x3fffe6, bits 23 0x7ffff1, bits 26 0x3ffffe0, bits 26 0x3ffffe1,
    bits 20 0xfffeb, bits 19 0x7fff1, bits 22 0x3fffe7, bits 23 0x7ffff2, bits 22 0x3fffe8, bits 25 0x1ffffec,
    bits 26 0x3ffffe2, bits 26 0x3ffffe3, bits 26 0x3ffffe4, bits 27 0x7ffffde, bits 27 0x7ffffdf, bits 26 0x3ffffe5,
    bits 24 0xfffff1, bits 25 0x1ffffed, bits 19 0x7fff2, bits 21 0x1fffe3, bits 26 0x3ffffe6, bits 27 0x7ffffe0,
    bits 27 0x7ffffe1, bits 26 0x3ffffe7, bits 27 0x7ffffe2, bits 24 0xfffff2, bits 21 0x1fffe4, bits 21 0x1fffe5,
    bits 26 0x3ffffe8, bits 26 0x3ffffe9, bits 28 0xffffffd, bits 27 0x7ffffe3, bits 27 0x7ffffe4, bits 27 0x7ffffe5,
    bits 20 0xfffec, bits 24 0xfffff3, bits 20 0xfffed, bits 21 0x1fffe6, bits 22 0x3fffe9, bits 21 0x1fffe7,
    bits 21 0x1fffe8, bits 23 0x7ffff3, bits 22 0x3fffea, bits 22 0x3fffeb, bits 25 0x1ffffee, bits 25 0x1ffffef,
    bits 24 0xfffff4, bits 24 0xfffff5, bits 26 0x3ffffea, bits 23 0x7ffff4, bits 26 0x3ffffeb, bits 27 0x7ffffe6,
    bits 26 0x3ffffec, bits 26 0x3ffffed, bits 27 0x7ffffe7, bits 27 0x7ffffe8, bits 27 0x7ffffe9, bits 27 0x7ffffea,
    bits 27 0x7ffffeb, bits 28 0xffffffe, bits 27 0x7ffffec, bits 27 0x7ffffed, bits 27 0x7ffffee, bits 27 0x7ffffef,
    bits 27 0x7fffff0, bits 26 0x3ffffee, bits 30 0x3fffffff]"

definition huffman_table :: "bit_string list" where
  "huffman_table = huffman_low @ huffman_high"

section \<open>The Huffman tree\<close>

text \<open>\<open>Null\<close> is the null pointer.\<close>

datatype huffman_node = Null | Node (m_left: huffman_node) (m_right: huffman_node) (m_code: int)

definition new_node :: huffman_node where
  "new_node = Node Null Null (-1)"

fun add_code :: "bit_string \<Rightarrow> int \<Rightarrow> huffman_node \<Rightarrow> huffman_node" where
  "add_code [] c t = (case t of Null \<Rightarrow> Null | Node l r _ \<Rightarrow> Node l r c)"
| "add_code (b # bs) c t =
     (case t of Null \<Rightarrow> Null
      | Node l r k \<Rightarrow> if b then Node l (add_code bs c (if r = Null then new_node else r)) k
                      else Node (add_code bs c (if l = Null then new_node else l)) r k)"

fun add_codes :: "int \<Rightarrow> bit_string list \<Rightarrow> huffman_node \<Rightarrow> huffman_node" where
  "add_codes idx [] t = t"
| "add_codes idx (c # cs) t = add_codes (idx + 1) cs (add_code c idx t)"

definition huffman_tree :: huffman_node where
  "huffman_tree = add_codes 0 huffman_table new_node"

text \<open>What a finished code appends to the output.\<close>

definition code_octets :: "int \<Rightarrow> bytes" where
  "code_octets code = (let c = word_of_int code :: 16 word
     in (if c = 257 then [ucast (drop_bit 8 (c AND 0xFF00))] else []) @ [ucast (c AND 0xFF)])"

definition tree_step :: "huffman_node \<Rightarrow> bool \<Rightarrow> huffman_node \<times> bytes \<Rightarrow> hpack_exn + huffman_node \<times> bytes" where
  "tree_step root b s = (case s of (current, dst) \<Rightarrow>
     let n = (if b then m_right current else m_left current)
     in if n = Null then Inl hpack_error
        else if m_code n \<ge> 0 then Inr (root, dst @ code_octets (m_code n)) else Inr (n, dst))"

fun tree_bits :: "huffman_node \<Rightarrow> bit_string \<Rightarrow> huffman_node \<times> bytes \<Rightarrow> hpack_exn + huffman_node \<times> bytes" where
  "tree_bits root [] s = Inr s"
| "tree_bits root (b # bs) s = result_bind (tree_step root b s) (tree_bits root bs)"

definition octet_bits :: "byte \<Rightarrow> bit_string" where
  "octet_bits w = map (bit w) [7, 6, 5, 4, 3, 2, 1, 0]"

definition huffman_decode :: "bytes \<Rightarrow> hpack_exn + bytes" where
  "huffman_decode src = (if length src > 2 ^ 32 - 1 then Inl invalid_argument
     else map_sum id snd (tree_bits huffman_tree (concat (map octet_bits src)) (huffman_tree, [])))"

section \<open>The Huffman encoder\<close>

text \<open>The Huffman encoder holds the octet under construction and the number of its missing bits.\<close>

type_synonym huff_state = "byte \<times> nat"

definition write_bit :: "bool \<Rightarrow> huff_state \<Rightarrow> huff_state \<times> bool" where
  "write_bit b s = (case s of (byte, count) \<Rightarrow>
     let byte' = byte OR (if b then 1 else 0)
     in if count - 1 = 0 then ((byte', 8), True) else ((push_bit 1 byte', count - 1), False))"

fun encode_bits :: "bit_string \<Rightarrow> huff_state \<times> bytes \<Rightarrow> huff_state \<times> bytes" where
  "encode_bits [] s = s"
| "encode_bits (b # bs) (st, ret) = (case write_bit b st of
     ((byte, count), True) \<Rightarrow> encode_bits bs ((0, 8), ret @ [byte])
   | (st', False) \<Rightarrow> encode_bits bs (st', ret))"

fun encode_octets :: "bytes \<Rightarrow> huff_state \<times> bytes \<Rightarrow> huff_state \<times> bytes" where
  "encode_octets [] s = s"
| "encode_octets (x # src) s = encode_octets src (encode_bits (huffman_table ! unat x) s)"

definition huffman_encode :: "bytes \<Rightarrow> huff_state \<Rightarrow> huff_state \<times> bytes" where
  "huffman_encode src st = (case encode_octets src (st, []) of ((byte, count), ret) \<Rightarrow>
     if count \<noteq> 8 \<and> count \<noteq> 0
     then ((0, 8), ret @ [push_bit (count - 1) byte OR drop_bit (8 - count) 0xFF])
     else ((byte, count), ret))"

section \<open>The tree and the table\<close>

lemma add_code_pattern [code]:
  "add_code bs c Null = Null"
  "add_code [] c (Node l r k) = Node l r c"
  "add_code (True # bs) c (Node l Null k) = Node l (add_code bs c new_node) k"
  "add_code (True # bs) c (Node l (Node a b d) k) = Node l (add_code bs c (Node a b d)) k"
  "add_code (False # bs) c (Node Null r k) = Node (add_code bs c new_node) r k"
  "add_code (False # bs) c (Node (Node a b d) r k) = Node (add_code bs c (Node a b d)) r k"
  by (cases bs; simp; fail) simp_all

fun walk :: "huffman_node \<Rightarrow> bit_string \<Rightarrow> int option" where
  "walk Null bs = None"
| "walk (Node l r c) [] = Some c"
| "walk (Node l r c) (True # bs) = (if c \<ge> 0 then None else walk r bs)"
| "walk (Node l r c) (False # bs) = (if c \<ge> 0 then None else walk l bs)"

fun full :: "huffman_node \<Rightarrow> bool" where
  "full Null = False"
| "full (Node Null Null c) = (c \<ge> 0)"
| "full (Node l r c) = (c < 0 \<and> full l \<and> full r)"

fun codes_from :: "int \<Rightarrow> bit_string list \<Rightarrow> huffman_node \<Rightarrow> bool" where
  "codes_from i [] t = True"
| "codes_from i (c # cs) t = (walk t c = Some i \<and> codes_from (i + 1) cs t)"

lemma tree_facts: "(\<lambda>t. full t \<and> codes_from 0 huffman_table t
    \<and> list_all (\<lambda>k. walk t (replicate k True) = Some (- 1)) [0, 1, 2, 3, 4, 5, 6, 7]) huffman_tree"
  by code_simp

lemmas tree_full = tree_facts[THEN conjunct1]
lemmas tree_codes = tree_facts[THEN conjunct2, THEN conjunct1]
lemmas tree_ones = tree_facts[THEN conjunct2, THEN conjunct2]

lemma walk_code:
  "walk t c = Some i \<Longrightarrow> 0 \<le> i \<Longrightarrow> c \<noteq> [] \<Longrightarrow> tree_bits root c (t, dst) = Inr (root, dst @ code_octets i)"
proof (induction c arbitrary: t)
  case (Cons b bs)
  let ?n = "if b then m_right t else m_left t"
  have w: "walk ?n bs = Some i" using Cons.prems(1) by (cases t; cases b) (simp_all split: if_splits)
  then obtain l r k where n: "?n = Node l r k" by (cases ?n) simp_all
  show ?case
  proof (cases bs)
    case Nil
    then show ?thesis using w n Cons.prems(2) by (simp add: tree_step_def Let_def)
  next
    case (Cons b' bs')
    then have "k < 0" using w n by (cases b') (simp_all split: if_splits)
    then show ?thesis using Cons.IH[OF w Cons.prems(2)] n Cons by (simp add: tree_step_def Let_def)
  qed
qed simp

lemma walk_inner:
  "walk t c = Some i \<Longrightarrow> i < 0 \<Longrightarrow> \<exists>n. tree_bits root c (t, dst) = Inr (n, dst)"
proof (induction c arbitrary: t)
  case (Cons b bs)
  let ?n = "if b then m_right t else m_left t"
  have w: "walk ?n bs = Some i" using Cons.prems(1) by (cases t; cases b) (simp_all split: if_splits)
  then obtain l r k where n: "?n = Node l r k" by (cases ?n) simp_all
  have "k < 0"
  proof (cases bs)
    case Nil
    then show ?thesis using w n Cons.prems(2) by simp
  next
    case (Cons b' bs')
    then show ?thesis using w n by (cases b') (simp_all split: if_splits)
  qed
  then show ?case using Cons.IH[OF w Cons.prems(2)] n by (simp add: tree_step_def Let_def)
qed simp

lemma tree_bits_append: "tree_bits root (xs @ ys) s = result_bind (tree_bits root xs s) (tree_bits root ys)"
proof (induction xs arbitrary: s)
  case (Cons x xs)
  then show ?case by (cases "tree_step root x s") simp_all
qed simp

lemma codes_from_nth: "codes_from i cs t \<Longrightarrow> k < length cs \<Longrightarrow> walk t (cs ! k) = Some (i + int k)"
proof (induction cs arbitrary: i k)
  case (Cons c cs)
  then show ?case by (cases k) (auto simp: algebra_simps)
qed simp

lemma table_length_257: "length huffman_table = 257"
  by (simp add: huffman_table_def huffman_low_def huffman_high_def del: bits.simps)

lemma walk_table: "k < 257 \<Longrightarrow> walk huffman_tree (huffman_table ! k) = Some (int k)"
  using codes_from_nth[OF tree_codes, of k] table_length_257 by simp

lemma walk_ones: "k < 8 \<Longrightarrow> walk huffman_tree (replicate k True) = Some (- 1)"
proof -
  assume "k < 8"
  then have "k \<in> set [0, 1, 2, 3, 4, 5, 6, 7]" by auto
  with tree_ones show ?thesis unfolding list_all_iff by (rule bspec)
qed

text \<open>A node the decoder can stand on: every path from it goes on to a code.\<close>

definition inner :: "huffman_node \<Rightarrow> bool" where
  "inner t \<longleftrightarrow> full t \<and> t \<noteq> Null \<and> m_code t < 0"

lemma inner_step:
  assumes "inner t" "inner root"
  shows "\<exists>n dst'. tree_step root b (t, dst) = Inr (n, dst') \<and> inner n"
proof -
  obtain l r c where t: "t = Node l r c" using assms(1) by (cases t) (simp_all add: inner_def)
  then have c: "full (Node l r c)" "c < 0" using assms(1) by (simp_all add: inner_def)
  then have "full l \<and> full r" by (cases l; cases r) simp_all
  then have "full (if b then r else l)" "(if b then r else l) \<noteq> Null" by auto
  then show ?thesis using assms(2) t by (auto simp: tree_step_def Let_def inner_def)
qed

lemma inner_bits:
  assumes "inner t" "inner root"
  shows "\<exists>n dst'. tree_bits root bs (t, dst) = Inr (n, dst')"
  using assms(1)
proof (induction bs arbitrary: t dst)
  case (Cons b bs)
  obtain n dst' where "tree_step root b (t, dst) = Inr (n, dst')" "inner n" using inner_step[OF Cons.prems assms(2)] by blast
  then show ?case using Cons.IH by simp
qed simp

lemma inner_root: "inner huffman_tree"
proof -
  have "walk huffman_tree [] = Some (- 1)" using walk_ones[of 0] by simp
  moreover obtain l r c where t: "huffman_tree = Node l r c" using tree_full by (cases huffman_tree) simp_all
  ultimately show ?thesis using tree_full unfolding inner_def t by simp
qed

section \<open>The bits of an encoding\<close>

definition pending :: "huff_state \<Rightarrow> bit_string" where
  "pending s = map (bit (fst s)) (rev [1..<9 - snd s])"

definition huff_ok :: "huff_state \<Rightarrow> bool" where
  "huff_ok s \<longleftrightarrow> \<not> bit (fst s) 0 \<and> 1 \<le> snd s \<and> snd s \<le> 8"

lemma octet_bits_rev: "octet_bits w = map (bit w) (rev [0..<8])"
  by (simp add: octet_bits_def upt_rec numeral_eq_Suc)

lemma upto_zero: "0 < k \<Longrightarrow> rev [0..<k] = rev [1..<k] @ [0 :: nat]"
  by (simp add: upt_conv_Cons)

lemma append_bit:
  assumes "\<not> bit byte 0" "0 < k"
  shows "map (bit (byte OR (if b then 1 else 0 :: byte))) (rev [0..<k]) = map (bit byte) (rev [1..<k]) @ [b]"
proof -
  have "bit (byte OR (if b then 1 else 0 :: byte)) j \<longleftrightarrow> (if j = 0 then b else bit byte j)" for j
    using assms(1) by (auto simp: bit_or_iff bit_1_iff)
  then show ?thesis unfolding upto_zero[OF assms(2)] by (simp add: rev_map[symmetric])
qed

lemma write_bit_full:
  assumes "huff_ok s" "write_bit b s = (s', True)"
  shows "octet_bits (fst s') = pending s @ [b]"
proof -
  obtain byte count where s: "s = (byte, count)" by (cases s)
  have "count = 1" "fst s' = byte OR (if b then 1 else 0)" "\<not> bit byte 0"
    using assms by (auto simp: s huff_ok_def write_bit_def Let_def split: if_splits)
  then show ?thesis using append_bit[of byte 8 b] by (simp add: octet_bits_rev pending_def s)
qed

lemma write_bit_part:
  assumes "huff_ok s" "write_bit b s = (s', False)"
  shows "huff_ok s' \<and> pending s' = pending s @ [b]"
proof -
  obtain byte count where s: "s = (byte, count)" by (cases s)
  let ?w = "byte OR (if b then 1 else 0)" and ?k = "9 - count"
  have c: "2 \<le> count" "count \<le> 8" "\<not> bit byte 0" "s' = (push_bit 1 ?w, count - 1)"
    using assms by (auto simp: s huff_ok_def write_bit_def Let_def split: if_splits)
  have sh: "bit (push_bit 1 w) (Suc j) \<longleftrightarrow> bit w j" if "j < ?k" for j and w :: byte
    using that c(1) unfolding bit_push_bit_iff by auto
  have "9 - (count - 1) = Suc ?k" using c(1,2) by simp
  then have "[1..<9 - (count - 1)] = map Suc [0..<?k]" by (simp only: map_Suc_upt One_nat_def)
  then have "pending s' = map (bit ?w) (rev [0..<?k])" by (simp add: pending_def c(4) rev_map[symmetric] sh del: push_bit_or push_bit_of_Suc_0 One_nat_def)
  then have "pending s' = pending s @ [b]" using append_bit[OF c(3), of ?k b] c(2) by (simp add: pending_def s)
  moreover have "\<not> bit (push_bit 1 w) 0" for w :: byte unfolding bit_push_bit_iff by simp
  then have "huff_ok s'" using c(1,2) unfolding c(4) huff_ok_def fst_conv snd_conv by (intro conjI) (blast, linarith+)
  ultimately show ?thesis by simp
qed

lemma pad_octet:
  assumes "huff_ok (byte, count)" "count \<noteq> 8"
  shows "octet_bits (push_bit (count - 1) byte OR drop_bit (8 - count) 0xFF) = pending (byte, count) @ replicate count True"
proof -
  let ?w = "push_bit (count - 1) byte OR drop_bit (8 - count) (mask 8)"
  have e: "(0xFF :: byte) = mask 8" by (simp add: mask_eq_exp_minus_1)
  have c: "1 \<le> count" "count < 8" "\<not> bit byte 0" using assms by (simp_all add: huff_ok_def)
  have "[0..<8] = [0..<count] @ map (\<lambda>j. j + (count - 1)) [1..<9 - count]"
    using c by (intro nth_equalityI) (auto simp: nth_append)
  moreover have ones: "bit ?w j" if "j < count" for j using that c by (auto simp: bit_or_iff bit_drop_bit_eq bit_mask_iff)
  moreover have "bit ?w (j + (count - 1)) \<longleftrightarrow> bit byte j" if "1 \<le> j" "j < 9 - count" for j
    using that c by (auto simp: bit_or_iff bit_drop_bit_eq bit_mask_iff bit_push_bit_iff)
  moreover have "map (bit ?w) (rev [0..<count]) = replicate count True" by (rule nth_equalityI) (use ones in \<open>simp_all add: rev_nth\<close>)
  ultimately show ?thesis unfolding e by (simp add: octet_bits_rev pending_def rev_map[symmetric] comp_def)
qed

lemma encode_bits_spec:
  assumes "huff_ok s" "encode_bits bs (s, ret) = (s', ret')"
  shows "huff_ok s' \<and> concat (map octet_bits ret') @ pending s' = concat (map octet_bits ret) @ pending s @ bs"
  using assms
proof (induction bs arbitrary: s ret)
  case (Cons b bs)
  obtain w full where w: "write_bit b s = (w, full)" by (metis prod.collapse)
  show ?case
  proof (cases full)
    case True
    have "huff_ok (0, 8)" "pending (0, 8) = []" by (simp_all add: huff_ok_def pending_def)
    moreover have "encode_bits bs ((0, 8), ret @ [fst w]) = (s', ret')" using Cons.prems(2) w True by (cases w) simp
    ultimately show ?thesis using Cons.IH[of "(0, 8)" "ret @ [fst w]"] write_bit_full[OF Cons.prems(1)] w True by simp
  next
    case False
    then have "encode_bits bs (w, ret) = (s', ret')" using Cons.prems(2) w by (cases w) simp
    then show ?thesis using Cons.IH[of w ret] write_bit_part[OF Cons.prems(1)] w False by simp
  qed
qed simp

definition code_of :: "bytes \<Rightarrow> bit_string" where
  "code_of src = concat (map (\<lambda>x. huffman_table ! unat x) src)"

lemma encode_octets_spec:
  assumes "huff_ok s" "encode_octets src (s, ret) = (s', ret')"
  shows "huff_ok s' \<and> concat (map octet_bits ret') @ pending s' = concat (map octet_bits ret) @ pending s @ code_of src"
  using assms
proof (induction src arbitrary: s ret)
  case (Cons x src)
  obtain t r where r: "encode_bits (huffman_table ! unat x) (s, ret) = (t, r)" by (metis prod.collapse)
  have "encode_octets src (t, r) = (s', ret')" using Cons.prems(2) r by simp
  then show ?case using Cons.IH[of t r] encode_bits_spec[OF Cons.prems(1) r] by (simp add: code_of_def)
qed (simp add: code_of_def)

lemma huffman_encode_bits:
  assumes "huff_ok s" "huffman_encode src s = (s', e)"
  shows "huff_ok s' \<and> pending s' = [] \<and> (\<exists>k<8. concat (map octet_bits e) = pending s @ code_of src @ replicate k True)"
proof -
  obtain byte count ret where r: "encode_octets src (s, []) = ((byte, count), ret)" by (metis prod.collapse)
  have ok: "huff_ok (byte, count)" "concat (map octet_bits ret) @ pending (byte, count) = pending s @ code_of src"
    using encode_octets_spec[OF assms(1) r] by simp_all
  have z: "huff_ok (0, 8)" "pending (0, 8) = []" "pending (byte, 8) = []" by (simp_all add: huff_ok_def pending_def)
  show ?thesis
  proof (cases "count = 8")
    case True
    then show ?thesis using assms(2) r ok z by (auto simp: huffman_encode_def intro!: exI[of _ 0])
  next
    case False
    then have "s' = (0, 8)" "e = ret @ [push_bit (count - 1) byte OR drop_bit (8 - count) 0xFF]" "count < 8"
      using assms(2) r ok(1) by (auto simp: huffman_encode_def huff_ok_def)
    then show ?thesis using z ok(2) pad_octet[OF ok(1) False] by auto
  qed
qed

lemma octet_below: "unat (x :: byte) < 256"
proof -
  have "unat x < 2 ^ LENGTH(8)" by (rule unsigned_less)
  then show ?thesis by simp
qed

lemma code_octets_byte: "code_octets (uint x) = [x]"
proof -
  let ?c = "ucast x :: 16 word"
  have "unat ?c = unat x" using octet_below[of x] by (simp add: unsigned_ucast_eq take_bit_nat_eq_self)
  then have "?c \<noteq> 257" using octet_below[of x] by auto
  moreover have "(ucast (?c AND 0xFF) :: byte) = x"
  proof (rule bit_word_eqI)
    fix n assume n: "n < LENGTH(8)"
    have m: "(0xFF :: 16 word) = mask 8" by (simp add: mask_eq_exp_minus_1)
    show "bit (ucast (?c AND 0xFF) :: byte) n = bit x n" using n unfolding m by (simp add: bit_unsigned_iff bit_and_iff bit_mask_iff)
  qed
  ultimately show ?thesis by (simp add: code_octets_def Let_def)
qed

lemma code_nonempty:
  assumes "k < 257"
  shows "huffman_table ! k \<noteq> []"
proof
  assume "huffman_table ! k = []"
  then show False using walk_table[OF assms] walk_ones[of 0] by simp
qed

lemma decode_code: "tree_bits huffman_tree (code_of src) (huffman_tree, dst) = Inr (huffman_tree, dst @ src)"
proof (induction src arbitrary: dst)
  case (Cons x src)
  have k: "unat x < 257" using octet_below[of x] by simp
  have "tree_bits huffman_tree (huffman_table ! unat x) (huffman_tree, dst) = Inr (huffman_tree, dst @ [x])"
    using walk_code[OF walk_table[OF k] _ code_nonempty[OF k]] by (simp add: code_octets_byte)
  then show ?case using Cons.IH[of "dst @ [x]"] by (simp add: code_of_def tree_bits_append)
qed (simp add: code_of_def)

lemma huffman_roundtrip:
  assumes "huff_ok s" "pending s = []" "huffman_encode src s = (s', e)" "length e < 2 ^ 32"
  shows "huffman_decode e = Inr src"
proof -
  obtain k where k: "k < 8" "concat (map octet_bits e) = code_of src @ replicate k True"
    using huffman_encode_bits[OF assms(1,3)] assms(2) by auto
  obtain n where "tree_bits huffman_tree (replicate k True) (huffman_tree, src) = Inr (n, src)"
    using walk_inner[OF walk_ones[OF k(1)], of huffman_tree src] by auto
  then show ?thesis using assms(4) k(2) decode_code[of src "[]"] by (simp add: huffman_decode_def tree_bits_append)
qed

section \<open>Properties\<close>

text \<open>C15: Huffman coding loses nothing: what the encoder makes of any octets, the decoder turns back into
  them, and the padding of the last octet adds none.\<close>

theorem huffman_decode_encode:
  assumes "length (snd (huffman_encode src (0, 8))) < 2 ^ 32"
  shows "huffman_decode (snd (huffman_encode src (0, 8))) = Inr src"
  using huffman_roundtrip[of "(0, 8)" src _ "snd (huffman_encode src (0, 8))"] assms
  by (simp add: huff_ok_def pending_def) (metis prod.collapse)

text \<open>C19: Decoding never meets a missing branch of the tree: every octet string that is not longer than
  the limit of the sources decodes, so the internal errors of the decoder cannot occur.\<close>

theorem huffman_decode_total:
  "(\<exists>dst. huffman_decode src = Inr dst) \<longleftrightarrow> length src < 2 ^ 32"
  using inner_bits[OF inner_root inner_root, of "concat (map octet_bits src)" "[]"]
  by (auto simp: huffman_decode_def)

text \<open>The code for the end of a string is decoded into a zero octet.\<close>

lemma end_of_string_is_zero: "tree_bits huffman_tree (huffman_table ! 256) (huffman_tree, dst) = Inr (huffman_tree, dst @ [0])"
proof -
  have "code_octets 256 = [0]" by (simp add: code_octets_def Let_def)
  then show ?thesis using walk_code[OF walk_table[of 256] _ code_nonempty[of 256]] by simp
qed

theorem huffman_decode_encode_witness: "huffman_decode (snd (huffman_encode [0x30, 0x61] (0, 8))) = Inr [0x30, 0x61]"
proof (rule huffman_decode_encode)
  obtain s' e where e: "huffman_encode [0x30, 0x61] (0, 8) = (s', e)" by (metis prod.collapse)
  have "huffman_table ! 0x30 = bits 5 0x0" "huffman_table ! 0x61 = bits 5 0x3"
    by (simp_all add: huffman_table_def huffman_low_def del: bits.simps)
  moreover have "length (bits n v) = n" for n v by (induction n arbitrary: v) simp_all
  ultimately have c: "length (code_of [0x30, 0x61]) = 10" by (simp add: code_of_def del: bits.simps)
  have l: "length (concat (map octet_bits e)) = 8 * length e" by (induction e) (simp_all add: octet_bits_def)
  obtain k where "k < 8" "concat (map octet_bits e) = code_of [0x30, 0x61] @ replicate k True"
    using huffman_encode_bits[OF _ e] by (auto simp: huff_ok_def pending_def)
  then have "length (concat (map octet_bits e)) = 10 + k" by (simp only: c length_append length_replicate)
  then have "length e < 3" using l \<open>k < 8\<close> by linarith
  then show "length (snd (huffman_encode [0x30, 0x61] (0, 8))) < 2 ^ 32" using e by simp
qed

end
