(* ===== verification/Hpack.thy ===== *)
theory Hpack
  imports Huffman
begin

text \<open>
  Header compression of HTTP/2, \<open>src/src/ext/hpack/hpack.hpp\<close>: the static table, the Huffman code and
  its tree, the dynamic table, and the decoder and encoder of header blocks.

  An octet vector is a list and an iterator a position in it.  The sources read through iterators
  without comparing them with the end and convert floating point sums to integers; where such a read or
  conversion is undefined the model returns \<open>Undefined\<close>.  The other errors are the exceptions of
  the sources.
\<close>

type_synonym header = "string \<times> string"

section \<open>Tables\<close>

definition predefined_headers :: "header list" where
  "predefined_headers = [
    (''INVALIDINDEX'', ''INVALIDINDEX''), ('':authority'', []),
    ('':method'', ''GET''), ('':method'', ''POST''),
    ('':path'', ''/''), ('':path'', ''/index.html''),
    ('':scheme'', ''http''), ('':scheme'', ''https''),
    ('':status'', ''200''), ('':status'', ''204''),
    ('':status'', ''206''), ('':status'', ''304''),
    ('':status'', ''400''), ('':status'', ''404''),
    ('':status'', ''500''), (''accept-charset'', []),
    (''accept-encoding'', ''gzip, deflate''), (''accept-language'', []),
    (''accept-ranges'', []), (''accept'', []),
    (''access-control-allow-origin'', []), (''age'', []),
    (''allow'', []), (''authorization'', []),
    (''cache-control'', []), (''content-disposition'', []),
    (''content-encoding'', []), (''content-language'', []),
    (''content-length'', []), (''content-location'', []),
    (''content-range'', []), (''content-type'', []),
    (''cookie'', []), (''date'', []),
    (''etag'', []), (''expect'', []),
    (''expires'', []), (''from'', []),
    (''host'', []), (''if-match'', []),
    (''if-modified-since'', []), (''if-none-match'', []),
    (''if-range'', []), (''if-unmodified-since'', []),
    (''last-modified'', []), (''link'', []),
    (''location'', []), (''max-forwards'', []),
    (''proxy-authenticate'', []), (''proxy-authorization'', []),
    (''range'', []), (''referer'', []),
    (''refresh'', []), (''retry-after'', []),
    (''server'', []), (''set-cookie'', []),
    (''strict-transport-security'', []), (''transfer-encoding'', []),
    (''user-agent'', []), (''vary'', []),
    (''via'', []), (''www-authenticate'', [])]"

section \<open>The dynamic table\<close>

record ringtable =
  rt_max :: nat
  rt_queue :: "header list"

abbreviation u64_max :: nat where
  "u64_max \<equiv> 2 ^ 64 - 1"

definition new_ringtable :: "nat \<Rightarrow> ringtable" where
  "new_ringtable m = \<lparr>rt_max = m, rt_queue = []\<rparr>"

fun table_length :: "nat \<Rightarrow> header list \<Rightarrow> hpack_exn + nat" where
  "table_length sz [] = Inr sz"
| "table_length sz (h # hs) =
     (let nl = length (fst h); vl = length (snd h)
      in if vl > u64_max \<or> nl > u64_max - vl then Inl runtime_error
         else if nl + vl > u64_max - sz then Inl runtime_error
         else table_length (sz + (nl + vl)) hs)"

definition ring_length :: "ringtable \<Rightarrow> hpack_exn + nat" where
  "ring_length t = table_length 0 (rt_queue t)"

definition entries_count :: "ringtable \<Rightarrow> nat" where
  "entries_count t = length (rt_queue t)"

text \<open>Entries leave the table at its end until the rest is shorter than the limit.\<close>

function evict :: "nat \<Rightarrow> header list \<Rightarrow> hpack_exn + header list" where
  "evict m q = (case table_length 0 q of
     Inl e \<Rightarrow> Inl e
   | Inr n \<Rightarrow> if n < m then Inr q else if q = [] then Inl Undefined else evict m (butlast q))"
  by pat_completeness auto
termination by (relation "measure (\<lambda>(m, q). length q)") (auto simp: neq_Nil_conv)

definition trim :: "ringtable \<Rightarrow> hpack_exn + ringtable" where
  "trim t = (if rt_max t = 0 then Inr (t\<lparr>rt_queue := []\<rparr>)
     else map_sum id (\<lambda>q. t\<lparr>rt_queue := q\<rparr>) (evict (rt_max t) (rt_queue t)))"

definition ring_max :: "nat \<Rightarrow> ringtable \<Rightarrow> hpack_exn + ringtable" where
  "ring_max m t = trim (t\<lparr>rt_max := m\<rparr>)"

definition ring_add :: "header \<Rightarrow> ringtable \<Rightarrow> hpack_exn + ringtable" where
  "ring_add h t = (if length (fst h) > u64_max - length (snd h) then Inl runtime_error
     else map_sum id (\<lambda>t. t\<lparr>rt_queue := h # rt_queue t\<rparr>) (trim t))"

definition ring_at :: "nat \<Rightarrow> ringtable \<Rightarrow> hpack_exn + header" where
  "ring_at idx t = (let q = rt_queue t; at = (\<lambda>i. if i < length q then Inr (q ! i) else Inl out_of_range)
     in if idx > length q
        then if idx < length predefined_headers then Inl invalid_argument
             else let i = idx - length predefined_headers
                  in if i > length q then Inl invalid_argument else at i
        else at idx)"

fun find_loop :: "header \<Rightarrow> nat \<Rightarrow> header list \<Rightarrow> bool \<times> int" where
  "find_loop h idx [] = (False, -1)"
| "find_loop h idx (e # q) =
     (if fst h = fst e \<and> snd h = snd e then (True, int (length predefined_headers + idx))
      else if fst h = fst e then (False, int (length predefined_headers + idx))
      else find_loop h (idx + 1) q)"

definition ring_find :: "header \<Rightarrow> ringtable \<Rightarrow> bool \<times> int" where
  "ring_find h t = find_loop h 0 (rt_queue t)"

definition get_header :: "nat \<Rightarrow> ringtable \<Rightarrow> header option" where
  "get_header index t = (if index < length predefined_headers then Some (predefined_headers ! index)
     else if index < length predefined_headers + length (rt_queue t)
     then Some (rt_queue t ! (index - length predefined_headers)) else None)"

section \<open>The decoder\<close>

record decoder =
  dc_headers :: "string list table"
  dc_dynamic :: ringtable

definition new_decoder :: "nat \<Rightarrow> decoder" where
  "new_decoder m = \<lparr>dc_headers = [], dc_dynamic = new_ringtable m\<rparr>"

definition push_header :: "string \<Rightarrow> string \<Rightarrow> string list table \<Rightarrow> string list table" where
  "push_header n v t = tab_put n ((case tab_get t n of None \<Rightarrow> [] | Some vs \<Rightarrow> vs) @ [v]) t"

text \<open>The continuation octets of an integer.  The sum is computed in floating point, where it is
  exact, and converted to a signed 32 bit integer; the shift counter is an octet.\<close>

function integer_rest :: "bytes \<Rightarrow> nat \<Rightarrow> nat \<Rightarrow> nat \<Rightarrow> hpack_exn + nat \<times> nat" where
  "integer_rest data current I M =
     (if length data \<le> current + 1 then Inl Undefined
      else let B = data ! (current + 1); I' = I + unat (B AND 0x7F) * 2 ^ M
           in if I' \<ge> 2 ^ 31 then Inl Undefined
              else if B AND 0x80 = 0x80 then integer_rest data (current + 1) I' ((M + 7) mod 256)
              else Inr (I', current + 2))"
  by pat_completeness auto
termination by (relation "measure (\<lambda>(data, current, I, M). length data - current)") auto

definition decode_integer :: "bytes \<Rightarrow> nat \<Rightarrow> nat \<Rightarrow> hpack_exn + nat \<times> nat" where
  "decode_integer data beg N = (if length data \<le> beg then Inl Undefined
     else let I = unat (data ! beg) AND (2 ^ N - 1)
          in if I < 2 ^ N - 1 then Inr (I, beg + 1) else integer_rest data beg I 0)"

definition parse_string :: "bytes \<Rightarrow> nat \<Rightarrow> hpack_exn + string \<times> nat" where
  "parse_string data itr = result_bind (decode_integer data itr 7) (\<lambda>(len, p).
     if length data \<le> p then Inl invalid_argument
     else if length data < p + len then Inl Undefined
     else let dst = take len (drop p data)
          in if data ! itr AND 0x80 = 0x80 then map_sum id (\<lambda>d. (chars d, p + len)) (huffman_decode dst)
             else Inr (chars dst, p + len))"

text \<open>One representation of the block.  The result is the position behind it, or \<open>None\<close> where the
  sources return false.\<close>

definition decode_literal :: "bytes \<Rightarrow> nat \<Rightarrow> decoder \<Rightarrow> hpack_exn + decoder \<times> nat option" where
  "decode_literal data itr d =
     result_bind (decode_integer data itr (if data ! itr AND 0xC0 = 0x40 then 6 else 4)) (\<lambda>(index, p).
     result_bind (if index \<noteq> 0 then Inr ((case get_header index (dc_dynamic d) of Some h \<Rightarrow> fst h | None \<Rightarrow> []), p)
                  else parse_string data p) (\<lambda>(n, p).
     result_bind (parse_string data p) (\<lambda>(val, p).
     Inr (d\<lparr>dc_headers := push_header n val (dc_headers d)\<rparr>, Some p))))"

definition decode_item :: "bytes \<Rightarrow> nat \<Rightarrow> decoder \<Rightarrow> hpack_exn + decoder \<times> nat option" where
  "decode_item data itr d = (let byte_value = data ! itr
     in if byte_value AND 0xE0 = 0x20
        then result_bind (decode_integer data itr 5) (\<lambda>(sz, p).
             result_bind (ring_max sz (dc_dynamic d)) (\<lambda>t. Inr (d\<lparr>dc_dynamic := t\<rparr>, Some p)))
        else if byte_value AND 0x80 \<noteq> 0
        then result_bind (decode_integer data itr 7) (\<lambda>(index, p).
             if index = 0 then Inr (d, None)
             else case get_header index (dc_dynamic d) of
               Some h \<Rightarrow> Inr (d\<lparr>dc_headers := push_header (fst h) (snd h) (dc_headers d)\<rparr>, Some p)
             | None \<Rightarrow> Inr (d, Some p))
        else decode_literal data itr d)"

text \<open>The loop makes at most \<open>n\<close> further rounds.  The headers of the completed rounds stay in
  the decoder when a round throws.\<close>

fun decode_loop :: "nat \<Rightarrow> bytes \<Rightarrow> nat \<Rightarrow> decoder \<Rightarrow> decoder \<times> (hpack_exn + bool)" where
  "decode_loop 0 data itr d = (d, Inr True)"
| "decode_loop (Suc n) data itr d =
     (if length data \<le> itr then (d, Inr True)
      else case decode_item data itr d of
        Inl e \<Rightarrow> (d, Inl e)
      | Inr (d', None) \<Rightarrow> (d', Inr False)
      | Inr (d', Some p) \<Rightarrow> decode_loop n data p d')"

definition hpack_decode :: "bytes \<Rightarrow> decoder \<Rightarrow> decoder \<times> (hpack_exn + bool)" where
  "hpack_decode data d = (if data = [] then (d, Inr False) else decode_loop 100 data 0 d)"

section \<open>The encoder\<close>

function integer_tail :: "nat \<Rightarrow> bytes" where
  "integer_tail I = (if I \<ge> 128 then of_nat ((I AND 0x7F) OR 0x80) # integer_tail (drop_bit 7 I) else [of_nat I])"
  by pat_completeness auto
termination by (relation "measure id") (auto simp: drop_bit_eq_div)

definition encode_integer :: "bytes \<Rightarrow> nat \<Rightarrow> nat \<Rightarrow> bytes \<times> nat" where
  "encode_integer dst I N = (let two_N = 2 ^ N - 1
     in if I < two_N then (dst @ [of_nat I], 1)
        else let dst' = dst @ of_nat two_N # integer_tail (I - two_N) in (dst', length dst'))"

definition or_front :: "byte \<Rightarrow> bytes \<Rightarrow> bytes" where
  "or_front m buf = (case buf of [] \<Rightarrow> [] | b # bs \<Rightarrow> (b OR m) # bs)"

abbreviation HUFFMAN_ENCODED :: byte where "HUFFMAN_ENCODED \<equiv> 0x80"
abbreviation LITERAL_NEVER_INDEXED_BIT_PATTERN :: byte where "LITERAL_NEVER_INDEXED_BIT_PATTERN \<equiv> 0x10"
abbreviation LITERAL_INDEXED_BIT_PATTERN :: byte where "LITERAL_INDEXED_BIT_PATTERN \<equiv> 0x40"
abbreviation INDEXED_BIT_PATTERN :: byte where "INDEXED_BIT_PATTERN \<equiv> 0x80"

record encoder =
  en_buf :: bytes
  en_dynamic :: ringtable
  en_huffman :: huff_state

definition new_encoder :: "nat \<Rightarrow> encoder" where
  "new_encoder m = \<lparr>en_buf = [], en_dynamic = new_ringtable m, en_huffman = (0, 8)\<rparr>"

definition emit :: "bytes \<Rightarrow> encoder \<Rightarrow> encoder" where
  "emit bs e = e\<lparr>en_buf := en_buf e @ bs\<rparr>"

definition huff_encode :: "string \<Rightarrow> encoder \<Rightarrow> encoder" where
  "huff_encode str e = (case huffman_encode (map ord str) (en_huffman e) of (st, huffbuff) \<Rightarrow>
     let e = e\<lparr>en_huffman := st\<rparr>
     in if 128 > length huffbuff then emit ((HUFFMAN_ENCODED OR of_nat (length huffbuff)) # huffbuff) e
        else emit (or_front HUFFMAN_ENCODED (fst (encode_integer [] (length huffbuff) 7)) @ huffbuff) e)"

fun static_find :: "header \<Rightarrow> nat \<Rightarrow> header list \<Rightarrow> int \<Rightarrow> bool \<times> int" where
  "static_find h idx [] index = (False, index)"
| "static_find h idx (e # t) index =
     (if fst h = fst e \<and> snd h = snd e then (True, int idx)
      else static_find h (idx + 1) t (if fst h = fst e then int idx else index))"

definition encoder_find :: "header \<Rightarrow> ringtable \<Rightarrow> bool \<times> int" where
  "encoder_find h t = (case static_find h 1 (tl predefined_headers) (-1) of
     (True, index) \<Rightarrow> (True, index)
   | (False, saved_index) \<Rightarrow> case ring_find h t of
       (True, index) \<Rightarrow> (True, index)
     | (False, index) \<Rightarrow> (False, if index \<noteq> -1 then index else saved_index))"

definition plain_string :: "string \<Rightarrow> bytes" where
  "plain_string s = fst (encode_integer [] (length s) 7) @ map ord s"

definition remember :: "header \<Rightarrow> encoder \<Rightarrow> hpack_exn + encoder" where
  "remember h e = map_sum id (\<lambda>t. e\<lparr>en_dynamic := t\<rparr>) (ring_add h (en_dynamic e))"

definition encoder_add :: "header \<Rightarrow> bool \<Rightarrow> bool \<Rightarrow> encoder \<Rightarrow> hpack_exn + encoder" where
  "encoder_add h huffman never_indexed e =
     (case (if never_indexed then (False, 0) else encoder_find h (en_dynamic e)) of (found, index) \<Rightarrow>
      if \<not> never_indexed \<and> found
      then Inr (emit (or_front INDEXED_BIT_PATTERN (fst (encode_integer [] (nat index) 7))) e)
      else if \<not> never_indexed \<and> index \<noteq> -1
      then result_bind (remember h e) (\<lambda>e.
           let e = emit (or_front LITERAL_INDEXED_BIT_PATTERN (fst (encode_integer [] (nat index) 6))) e
           in Inr (if huffman then huff_encode (snd h) e else emit (map ord (snd h)) e))
      else result_bind (if \<not> never_indexed then map_sum id (emit [LITERAL_INDEXED_BIT_PATTERN]) (remember h e)
                        else Inr (emit [LITERAL_NEVER_INDEXED_BIT_PATTERN] e)) (\<lambda>e.
           Inr (if huffman \<and> \<not> never_indexed then huff_encode (snd h) (huff_encode (fst h) e)
                else emit (plain_string (snd h)) (emit (plain_string (fst h)) e))))"

definition max_table_size :: "nat \<Rightarrow> encoder \<Rightarrow> hpack_exn + encoder" where
  "max_table_size m e = map_sum id (\<lambda>t. e\<lparr>en_dynamic := t\<rparr>) (ring_max m (en_dynamic e))"

fun encoder_adds :: "header list \<Rightarrow> bool \<Rightarrow> bool \<Rightarrow> encoder \<Rightarrow> hpack_exn + encoder" where
  "encoder_adds [] huffman never_indexed e = Inr e"
| "encoder_adds (h # hs) huffman never_indexed e =
     result_bind (encoder_add h huffman never_indexed e) (encoder_adds hs huffman never_indexed)"

declare evict.simps [simp del] integer_rest.simps [simp del] integer_tail.simps [simp del]

section \<open>Integers\<close>

lemma bit_flags: "bit (128 :: int) n \<longleftrightarrow> n = 7" "bit (127 :: int) n \<longleftrightarrow> n < 7"
proof -
  show "bit (128 :: int) n \<longleftrightarrow> n = 7" using bit_exp_iff[of 7 n, where 'a = int] by auto
  have m: "(127 :: int) = mask 7" by (simp add: mask_eq_exp_minus_1)
  show "bit (127 :: int) n \<longleftrightarrow> n < 7" unfolding m by (simp add: bit_mask_iff)
qed

lemma flag_octet: "(x OR 0x80) AND 0x7F = x AND (0x7F :: byte)" "(x OR 0x80) AND 0x80 = (0x80 :: byte)"
  by (rule bit_word_eqI; auto simp: bit_or_iff bit_and_iff bit_flags)+

lemma low_bits_byte:
  assumes "v < 128"
  shows "unat (of_nat v AND (0x7F :: byte)) = v" "of_nat v AND (0x80 :: byte) = 0"
proof -
  have t: "take_bit 7 v = v" "take_bit 8 v = v" using assms by (simp_all add: take_bit_nat_eq_self)
  then have b: "n < 7" if "bit v n" for n using that by (metis bit_take_bit_iff)
  have "of_nat v AND (0x7F :: byte) = of_nat v" by (intro bit_word_eqI) (auto simp: bit_simps bit_flags dest: b)
  then show "unat (of_nat v AND (0x7F :: byte)) = v" by (simp add: unsigned_of_nat t)
  show "of_nat v AND (0x80 :: byte) = 0" by (intro bit_word_eqI) (auto simp: bit_simps bit_flags dest: b)
qed

lemma continued_byte:
  shows "unat (of_nat ((v AND 0x7F) OR 0x80) AND (0x7F :: byte)) = v mod 128"
    and "of_nat ((v AND 0x7F) OR 0x80) AND (0x80 :: byte) = 0x80"
proof -
  have r: "v AND 0x7F = v mod 128" using take_bit_eq_mask[of 7 v] by (simp add: take_bit_eq_mod mask_eq_exp_minus_1)
  have o: "(of_nat (v mod 128 OR 0x80) :: byte) = of_nat (v mod 128) OR 0x80" by (simp add: of_nat_or_eq)
  show "unat (of_nat ((v AND 0x7F) OR 0x80) AND (0x7F :: byte)) = v mod 128"
    unfolding r o flag_octet by (rule low_bits_byte(1)) simp
  show "of_nat ((v AND 0x7F) OR 0x80) AND (0x80 :: byte) = 0x80"
    unfolding r o flag_octet by (rule refl)
qed

lemma integer_rest_tail:
  assumes "I + v * 2 ^ M < 2 ^ 31" "Suc current = length pre"
  shows "integer_rest (pre @ integer_tail v @ post) current I M = Inr (I + v * 2 ^ M, length pre + length (integer_tail v))"
  using assms
proof (induction v arbitrary: I M current pre rule: integer_tail.induct)
  case (1 v)
  let ?data = "pre @ integer_tail v @ post"
  show ?case
  proof (cases "128 \<le> v")
    case True
    let ?B = "of_nat ((v AND 0x7F) OR 0x80) :: byte"
    have t: "integer_tail v = ?B # integer_tail (drop_bit 7 v)" using True by (subst integer_tail.simps) simp
    have v: "v = v mod 128 + drop_bit 7 v * 128" by (simp add: drop_bit_eq_div)
    have e: "I + v mod 128 * 2 ^ M + drop_bit 7 v * 2 ^ (M + 7) = I + v * 2 ^ M"
      by (subst (3) v) (simp add: algebra_simps power_add)
    have "(2 :: nat) ^ (M + 7) \<le> v * 2 ^ M" using mult_le_mono1[OF True, of "2 ^ M"] by (simp add: power_add)
    then have "(2 :: nat) ^ (M + 7) < 2 ^ 31" using 1(2) by linarith
    then have M: "M + 7 < 31" by (rule power_less_imp_less_exp[rotated]) simp
    have d: "?data ! (current + 1) = ?B" "current + 1 < length ?data" using 1(3) by (simp_all add: t nth_append)
    have b: "I + v mod 128 * 2 ^ M < 2 ^ 31" using e 1(2) by linarith
    have "integer_rest ?data (current + 1) (I + v mod 128 * 2 ^ M) (M + 7)
        = Inr (I + v * 2 ^ M, length pre + length (integer_tail v))"
      using 1(1)[OF True, of "I + v mod 128 * 2 ^ M" "M + 7" "current + 1" "pre @ [?B]"] e 1(2,3) by (simp add: t)
    then show ?thesis using d b M
      by (subst integer_rest.simps) (simp only: Let_def continued_byte not_le[symmetric] mod_less if_True if_False, simp)
  next
    case False
    then have t: "integer_tail v = [of_nat v]" by (subst integer_tail.simps) simp
    have d: "?data ! (current + 1) = of_nat v" "current + 1 < length ?data" using 1(3) by (simp_all add: t nth_append)
    show ?thesis using d False 1(2,3) low_bits_byte[of v] by (subst integer_rest.simps) (simp add: Let_def t)
  qed
qed

lemma first_octet:
  assumes "x < 2 ^ N" "N \<le> 7" "take_bit N (flag :: byte) = 0"
  shows "unat ((of_nat x :: byte) OR flag) AND (2 ^ N - 1) = x"
proof -
  have x: "take_bit N x = x" using assms(1) by (simp add: take_bit_nat_eq_self)
  have "take_bit N (unat ((of_nat x :: byte) OR flag)) = unat (take_bit N ((of_nat x :: byte) OR flag))"
    by (rule unsigned_take_bit_eq[symmetric])
  also have "take_bit N ((of_nat x :: byte) OR flag) = of_nat x" by (simp add: assms(3) take_bit_of_nat x)
  also have "unat (of_nat x :: byte) = x" using assms(1,2) power_increasing[of N 7 "2 :: nat"]
    by (simp add: unsigned_of_nat take_bit_nat_eq_self)
  finally show ?thesis by (simp add: take_bit_eq_mask mask_eq_exp_minus_1)
qed

lemma encode_integer_cases:
  "fst (encode_integer [] I N) = (if I < 2 ^ N - 1 then [of_nat I] else of_nat (2 ^ N - 1) # integer_tail (I - (2 ^ N - 1)))"
  by (simp add: encode_integer_def Let_def)

lemma decode_encoded:
  assumes "1 \<le> N" "N \<le> 7" "I < 2 ^ 31" "take_bit N flag = 0"
  shows "decode_integer (pre @ or_front flag (fst (encode_integer [] I N)) @ post) (length pre) N
    = Inr (I, length pre + length (fst (encode_integer [] I N)))"
proof (cases "I < 2 ^ N - 1")
  case True
  then have "unat (of_nat I OR flag) AND (2 ^ N - 1) = I" by (intro first_octet) (use assms in simp_all)
  then show ?thesis using True by (simp add: encode_integer_cases or_front_def decode_integer_def Let_def)
next
  case False
  let ?m = "2 ^ N - 1 :: nat" and ?f = "of_nat (2 ^ N - 1) OR flag"
  have f: "unat ?f AND ?m = ?m" by (rule first_octet) (use assms in simp_all)
  have "integer_rest ((pre @ [?f]) @ integer_tail (I - ?m) @ post) (length pre) ?m 0
      = Inr (?m + (I - ?m) * 2 ^ 0, length (pre @ [?f]) + length (integer_tail (I - ?m)))"
    by (rule integer_rest_tail) (use False assms(3) in simp_all)
  then show ?thesis using False f by (simp add: encode_integer_cases or_front_def decode_integer_def Let_def)
qed

section \<open>The dynamic table as a bounded queue\<close>

lemma evict_result:
  "evict m q = Inr q' \<Longrightarrow> (\<exists>n. table_length 0 q' = Inr n \<and> n < m) \<and> (\<exists>k. q' = take k q)"
proof (induction m q rule: evict.induct)
  case (1 m q)
  show ?case
  proof (cases "table_length 0 q")
    case (Inl e)
    then show ?thesis using 1(2) by (subst (asm) evict.simps) simp
  next
    case (Inr n)
    then show ?thesis
    proof (cases "n < m")
      case True
      then have "q' = q" using 1(2) Inr by (subst (asm) evict.simps) simp
      then show ?thesis using True Inr by (auto intro: exI[of _ "length q"])
    next
      case False
      then have q: "q \<noteq> []" "evict m (butlast q) = Inr q'" using 1(2) Inr by (subst (asm) evict.simps, auto split: if_splits)+
      then show ?thesis using 1(1)[OF Inr False] by (auto simp: butlast_conv_take)
    qed
  qed
qed

lemma trim_result:
  assumes "trim t = Inr t'"
  shows "rt_max t' = rt_max t \<and> (\<exists>k. rt_queue t' = take k (rt_queue t)) \<and> (\<exists>n. ring_length t' = Inr n \<and> (n < rt_max t \<or> rt_queue t' = []))"
proof (cases "rt_max t = 0")
  case True
  then show ?thesis using assms by (auto simp: trim_def ring_length_def intro: exI[of _ 0])
next
  case False
  then obtain q where q: "evict (rt_max t) (rt_queue t) = Inr q" "t' = t\<lparr>rt_queue := q\<rparr>"
    using assms by (cases "evict (rt_max t) (rt_queue t)") (auto simp: trim_def)
  then show ?thesis using evict_result[OF q(1)] by (auto simp: ring_length_def)
qed

lemma table_length_less:
  "table_length sz q = Inr n \<Longrightarrow> \<exists>n'\<le>n. table_length sz (butlast q) = Inr n'"
proof (induction q arbitrary: sz)
  case (Cons h q)
  have "sz \<le> n" if "table_length sz q = Inr n" for sz q n
    using that by (induction q arbitrary: sz) (auto simp: Let_def split: if_splits, fastforce)
  then show ?case using Cons by (auto simp: Let_def split: if_splits)
qed simp

lemma evict_total: "0 < m \<Longrightarrow> table_length 0 q = Inr n \<Longrightarrow> \<exists>q'. evict m q = Inr q'"
proof (induction q arbitrary: n rule: length_induct)
  case (1 q)
  show ?case
  proof (cases "n < m \<or> q = []")
    case True
    then show ?thesis using 1(2,3) by (subst evict.simps) auto
  next
    case False
    obtain n' where "table_length 0 (butlast q) = Inr n'" using table_length_less[OF 1(3)] by blast
    then show ?thesis using 1(1,2,3) False by (subst evict.simps) simp
  qed
qed
section \<open>Strings\<close>

lemma parse_at:
  assumes "decode_integer (pre @ hdr @ body @ post) (length pre) 7 = Inr (length body, length pre + length hdr)"
    and "hdr \<noteq> []" "body \<noteq> [] \<or> post \<noteq> []"
  shows "parse_string (pre @ hdr @ body @ post) (length pre)
    = (if hd hdr AND 0x80 = 0x80 then map_sum id (\<lambda>d. (chars d, length pre + length hdr + length body)) (huffman_decode body)
       else Inr (chars body, length pre + length hdr + length body))"
proof -
  obtain x xs where "hdr = x # xs" using assms(2) by (cases hdr) simp_all
  then show ?thesis using assms(1,3) by (cases "body = []") (simp_all add: parse_string_def Let_def)
qed

lemma integer_front: "fst (encode_integer [] I 7) \<noteq> [] \<and> hd (fst (encode_integer [] I 7)) AND 0x80 = 0"
  using low_bits_byte(2)[of I] low_bits_byte(2)[of 127] by (auto simp: encode_integer_cases)

lemma or_front_hd: "xs \<noteq> [] \<Longrightarrow> hd (or_front m xs) = hd xs OR m \<and> or_front m xs \<noteq> [] \<and> length (or_front m xs) = length xs"
  by (cases xs) (simp_all add: or_front_def)

lemma or_front_zero [simp]: "or_front 0 xs = xs"
  by (cases xs) (simp_all add: or_front_def)

lemma parse_plain:
  assumes "length s < 2 ^ 31" "s \<noteq> [] \<or> post \<noteq> []"
  shows "parse_string (pre @ plain_string s @ post) (length pre) = Inr (s, length pre + length (plain_string s))"
proof -
  let ?h = "fst (encode_integer [] (length s) 7)"
  have "decode_integer (pre @ ?h @ map ord s @ post) (length pre) 7 = Inr (length (map ord s), length pre + length ?h)"
    using decode_encoded[of 7 "length s" 0 pre "map ord s @ post"] assms(1) by simp
  from parse_at[OF this] show ?thesis using integer_front[of "length s"] assms(2) by (simp add: plain_string_def)
qed

text \<open>The code of a string and the octets the encoder makes of it.\<close>

definition huff_code :: "string \<Rightarrow> bytes" where
  "huff_code str = snd (huffman_encode (map ord str) (0, 8))"

definition coded_string :: "string \<Rightarrow> bytes" where
  "coded_string str = or_front HUFFMAN_ENCODED (fst (encode_integer [] (length (huff_code str)) 7)) @ huff_code str"

text \<open>The lengths that are written as the decoder reads them.\<close>

definition codable :: "string \<Rightarrow> bool" where
  "codable str \<longleftrightarrow> length (huff_code str) \<noteq> 127 \<and> length (huff_code str) < 2 ^ 31"

definition rested :: "huff_state \<Rightarrow> bool" where
  "rested s \<longleftrightarrow> snd s \<le> 8 \<and> (snd s = 8 \<longrightarrow> fst s = 0)"

lemma rested_bits: "rested s \<Longrightarrow> rested (fst (encode_bits bs (s, ret)))"
proof (induction bs arbitrary: s ret)
  case (Cons b bs)
  obtain w full where w: "write_bit b s = (w, full)" by (metis prod.collapse)
  have "rested (0, 8)" by (simp add: rested_def)
  moreover have "rested w" if "\<not> full" using that w Cons.prems
    by (cases s) (auto simp: write_bit_def rested_def Let_def split: if_splits)
  ultimately show ?case using Cons.IH w by (cases full; cases w) simp_all
qed simp

lemma rested_octets: "rested s \<Longrightarrow> rested (fst (encode_octets src (s, ret)))"
proof (induction src arbitrary: s ret)
  case (Cons x src)
  obtain t r where r: "encode_bits (huffman_table ! unat x) (s, ret) = (t, r)" by (metis prod.collapse)
  then show ?case using Cons.IH[of t r] rested_bits[OF Cons.prems, of "huffman_table ! unat x" ret] by simp
qed simp

lemma encoder_at_rest: "huffman_encode src (0, 8) = ((0, 8), snd (huffman_encode src (0, 8)))"
proof -
  obtain byte count ret where r: "encode_octets src ((0, 8), []) = ((byte, count), ret)" by (metis prod.collapse)
  have "huff_ok (byte, count)" using encode_octets_spec[OF _ r] by (simp add: huff_ok_def)
  moreover have "rested (byte, count)" using rested_octets[of "(0, 8)" src "[]"] r by (simp add: rested_def)
  ultimately show ?thesis using r by (simp add: huffman_encode_def huff_ok_def rested_def)
qed

lemma huff_encode_eq:
  assumes "en_huffman e = (0, 8)" "codable str"
  shows "huff_encode str e = emit (coded_string str) e"
proof -
  have "huffman_encode (map ord str) (0, 8) = ((0, 8), huff_code str)" unfolding huff_code_def by (rule encoder_at_rest)
  then show ?thesis using assms
    by (auto simp: huff_encode_def Let_def coded_string_def codable_def encode_integer_cases or_front_def or.commute emit_def)
qed

lemma huff_code_empty: "huff_code str = [] \<Longrightarrow> str = []"
proof (cases str)
  case (Cons c cs)
  assume "huff_code str = []"
  then have "code_of (map ord str) = []"
    using huffman_encode_bits[OF _ encoder_at_rest[of "map ord str"]] by (auto simp: huff_code_def huff_ok_def pending_def)
  then show ?thesis using Cons code_nonempty[of "unat (ord c)"] octet_below[of "ord c"] by (simp add: code_of_def)
qed

lemma parse_coded:
  assumes "codable str" "str \<noteq> [] \<or> post \<noteq> []"
  shows "parse_string (pre @ coded_string str @ post) (length pre) = Inr (str, length pre + length (coded_string str))"
proof -
  let ?i = "fst (encode_integer [] (length (huff_code str)) 7)" let ?h = "or_front HUFFMAN_ENCODED ?i"
  have i: "?i \<noteq> []" using integer_front by blast
  have "take_bit 7 (0x80 :: byte) = 0" by simp
  then have d: "decode_integer (pre @ ?h @ huff_code str @ post) (length pre) 7 = Inr (length (huff_code str), length pre + length ?h)"
    using decode_encoded[of 7 "length (huff_code str)" "0x80" pre "huff_code str @ post"] assms(1) or_front_hd[OF i, of "0x80"]
    by (simp add: codable_def)
  have "huffman_decode (huff_code str) = Inr (map ord str)"
    using huffman_roundtrip[OF _ _ encoder_at_rest[of "map ord str"]] assms(1)
    by (simp add: huff_code_def codable_def huff_ok_def pending_def)
  then show ?thesis using parse_at[OF d] or_front_hd[OF i, of "0x80"] assms(2) huff_code_empty[of str]
    by (auto simp: coded_string_def flag_octet)
qed
section \<open>Blocks\<close>

lemma bit_tops: "bit (0xE0 :: int) n \<longleftrightarrow> n \<in> {5, 6, 7}" "bit (0xC0 :: int) n \<longleftrightarrow> n \<in> {6, 7}" "bit (0x40 :: int) n \<longleftrightarrow> n = 6" "bit (0x20 :: int) n \<longleftrightarrow> n = 5"
proof -
  have s: "(0xE0 :: int) = push_bit 5 (mask 3)" "(0xC0 :: int) = push_bit 6 (mask 2)" "(0x40 :: int) = 2 ^ 6" "(0x20 :: int) = 2 ^ 5"
    by (simp_all add: push_bit_eq_mult mask_eq_exp_minus_1)
  show "bit (0xE0 :: int) n \<longleftrightarrow> n \<in> {5, 6, 7}" unfolding s(1) by (auto simp: bit_push_bit_iff bit_mask_iff)
  show "bit (0xC0 :: int) n \<longleftrightarrow> n \<in> {6, 7}" unfolding s(2) by (auto simp: bit_push_bit_iff bit_mask_iff)
  show "bit (0x40 :: int) n \<longleftrightarrow> n = 6" using bit_exp_iff[of 6 n, where 'a = int] by auto
  show "bit (0x20 :: int) n \<longleftrightarrow> n = 5" using bit_exp_iff[of 5 n, where 'a = int] by auto
qed

lemma indexed_octet:
  "(x OR 0x80) AND 0xE0 \<noteq> (0x20 :: byte)" "(x OR 0x80) AND 0x80 \<noteq> (0 :: byte)"
proof -
  have "bit ((x OR 0x80) AND 0xE0 :: byte) 7" "\<not> bit (0x20 :: byte) 7"
    by (simp_all add: bit_and_iff bit_or_iff bit_tops bit_flags)
  then show "(x OR 0x80) AND 0xE0 \<noteq> (0x20 :: byte)" by metis
  show "(x OR 0x80) AND 0x80 \<noteq> (0 :: byte)" unfolding flag_octet by simp
qed

lemma literal_octet:
  assumes "i < 64"
  shows "(of_nat i OR 0x40) AND 0xE0 \<noteq> (0x20 :: byte)" "(of_nat i OR 0x40) AND 0x80 = (0 :: byte)"
    "(of_nat i OR 0x40) AND 0xC0 = (0x40 :: byte)"
proof -
  have b: "n < 6" if "bit i n" for n using that assms bit_take_bit_iff[of 6 i n] by (simp add: take_bit_nat_eq_self)
  have "bit ((of_nat i OR 0x40) AND 0xE0 :: byte) 6" "\<not> bit (0x20 :: byte) 6"
    by (simp_all add: bit_and_iff bit_or_iff bit_tops bit_flags)
  then show "(of_nat i OR 0x40) AND 0xE0 \<noteq> (0x20 :: byte)" by metis
  show "(of_nat i OR 0x40) AND 0x80 = (0 :: byte)" "(of_nat i OR 0x40) AND 0xC0 = (0x40 :: byte)"
    by (rule bit_word_eqI; auto simp: bit_simps bit_tops bit_flags dest: b)+
qed

lemma static_find_spec:
  "static_find h idx t index = (f, i) \<Longrightarrow> (i = index \<and> \<not> f)
    \<or> (\<exists>k<length t. i = int (idx + k) \<and> fst (t ! k) = fst h \<and> (f \<longrightarrow> t ! k = h))"
proof (induction t arbitrary: idx index)
  case (Cons e t)
  show ?case
  proof (cases "e = h")
    case True
    then show ?thesis using Cons.prems by (auto intro!: exI[of _ 0])
  next
    case False
    then have "static_find h (idx + 1) t (if fst h = fst e then int idx else index) = (f, i)"
      using Cons.prems by (auto simp: prod_eq_iff split: if_splits)
    from Cons.IH[OF this] consider "i = (if fst h = fst e then int idx else index)" "\<not> f"
      | k where "k < length t" "i = int (idx + Suc k)" "fst (t ! k) = fst h" "f \<longrightarrow> t ! k = h" by auto
    then show ?thesis
    proof cases
      case 1
      then show ?thesis by (cases "fst h = fst e") (auto intro: exI[of _ 0])
    next
      case (2 k)
      then show ?thesis by (auto intro!: exI[of _ "Suc k"])
    qed
  qed
qed simp

lemma find_loop_absent: "fst h \<notin> fst ` set q \<Longrightarrow> find_loop h idx q = (False, -1)"
  by (induction q arbitrary: idx) auto

lemma static_size: "length predefined_headers = 62"
  by (simp add: predefined_headers_def)

text \<open>A header whose name is not in the dynamic table gets an index of the static table, if any.\<close>

lemma encoder_find_static:
  assumes "encoder_find h t = (f, i)" "fst h \<notin> fst ` set (rt_queue t)"
  shows "(i = -1 \<and> \<not> f) \<or> (1 \<le> i \<and> i < 62 \<and> fst (predefined_headers ! nat i) = fst h \<and> (f \<longrightarrow> predefined_headers ! nat i = h))"
proof -
  have "static_find h 1 (tl predefined_headers) (-1) = (f, i)"
    using assms find_loop_absent[OF assms(2)] by (auto simp: encoder_find_def ring_find_def split: prod.splits bool.splits)
  from static_find_spec[OF this] show ?thesis by (auto simp: static_size nth_tl nat_add_distrib)
qed

lemma add_queue:
  assumes "remember h e = Inr e'"
  shows "en_buf e' = en_buf e \<and> en_huffman e' = en_huffman e \<and> set (rt_queue (en_dynamic e')) \<subseteq> insert h (set (rt_queue (en_dynamic e)))"
proof -
  obtain t where t: "ring_add h (en_dynamic e) = Inr t" "e' = e\<lparr>en_dynamic := t\<rparr>"
    using assms by (cases "ring_add h (en_dynamic e)") (simp_all add: remember_def)
  then obtain t' where "trim (en_dynamic e) = Inr t'" "t = t'\<lparr>rt_queue := h # rt_queue t'\<rparr>"
    by (cases "trim (en_dynamic e)") (auto simp: ring_add_def split: if_splits)
  then show ?thesis using trim_result[of "en_dynamic e" t'] t(2) by (auto dest: in_set_takeD)
qed

abbreviation received :: "header \<Rightarrow> decoder \<Rightarrow> decoder" where
  "received h d \<equiv> d\<lparr>dc_headers := push_header (fst h) (snd h) (dc_headers d)\<rparr>"

lemma indexed_item:
  assumes "0 < i" "i < 62" "predefined_headers ! i = h"
  shows "decode_item (pre @ or_front INDEXED_BIT_PATTERN (fst (encode_integer [] i 7)) @ post) (length pre) d
    = Inr (received h d, Some (length pre + 1))"
proof -
  have e: "fst (encode_integer [] i 7) = [of_nat i]" using assms(2) by (simp add: encode_integer_cases)
  have "decode_integer (pre @ or_front 0x80 (fst (encode_integer [] i 7)) @ post) (length pre) 7 = Inr (i, length pre + 1)"
    using decode_encoded[of 7 i "0x80" pre post] assms(2) e by simp
  then show ?thesis using assms indexed_octet[of "of_nat i"]
    by (simp add: decode_item_def Let_def e or_front_def get_header_def static_size)
qed

lemma literal_item:
  assumes "i < 62" "if i = 0 then codable (fst h) else nm = [] \<and> fst (predefined_headers ! i) = fst h" "codable (snd h)"
    and "i = 0 \<Longrightarrow> nm = coded_string (fst h)" "snd h \<noteq> [] \<or> post \<noteq> []"
  shows "decode_item (pre @ (or_front LITERAL_INDEXED_BIT_PATTERN (fst (encode_integer [] i 6)) @ nm @ coded_string (snd h)) @ post) (length pre) d
    = Inr (received h d, Some (length pre + 1 + length nm + length (coded_string (snd h))))"
proof -
  let ?v = "coded_string (snd h)" and ?o = "of_nat i OR 0x40 :: byte"
  let ?data = "pre @ ([?o] @ nm @ ?v) @ post"
  have e: "fst (encode_integer [] i 6) = [of_nat i]" using assms(1) by (simp add: encode_integer_cases)
  have ne: "?v \<noteq> []" using or_front_hd integer_front by (simp add: coded_string_def)
  have d: "decode_integer ?data (length pre) 6 = Inr (i, length pre + 1)"
    using decode_encoded[of 6 i "0x40" pre "nm @ ?v @ post"] assms(1) e by (simp add: or_front_def)
  have v: "parse_string ?data (length pre + 1 + length nm) = Inr (snd h, length pre + 1 + length nm + length ?v)"
    using parse_coded[OF assms(3,5), of "pre @ [?o] @ nm"] by (simp add: add.assoc)
  have n: "i = 0 \<Longrightarrow> parse_string ?data (length pre + 1) = Inr (fst h, length pre + 1 + length nm)"
    using parse_coded[of "fst h" "?v @ post" "pre @ [?o]"] assms(2,4) ne by simp
  have "decode_literal ?data (length pre) d = Inr (received h d, Some (length pre + 1 + length nm + length ?v))"
    using d v n assms(1,2) literal_octet(3)[of i]
    by (cases "i = 0") (simp_all add: decode_literal_def nth_append get_header_def static_size)
  then show ?thesis using literal_octet[of i] assms(1) by (simp add: decode_item_def Let_def e or_front_def)
qed

lemma emit_sel [simp]: "en_buf (emit bs e) = en_buf e @ bs" "en_huffman (emit bs e) = en_huffman e" "en_dynamic (emit bs e) = en_dynamic e"
  by (simp_all add: emit_def)

text \<open>What the octets \<open>b\<close> added by one header are to the decoder.\<close>

definition reads_back :: "header \<Rightarrow> bytes \<Rightarrow> bool" where
  "reads_back h b \<longleftrightarrow> b \<noteq> [] \<and> (\<forall>pre post d. snd h \<noteq> [] \<or> post \<noteq> [] \<longrightarrow>
     decode_item (pre @ b @ post) (length pre) d = Inr (received h d, Some (length pre + length b)))"

lemma literal_reads_back:
  assumes "i < 62" "if i = 0 then codable (fst h) else nm = [] \<and> fst (predefined_headers ! i) = fst h" "codable (snd h)"
    and "i = 0 \<Longrightarrow> nm = coded_string (fst h)"
  shows "reads_back h (or_front LITERAL_INDEXED_BIT_PATTERN (fst (encode_integer [] i 6)) @ nm @ coded_string (snd h))"
proof -
  have "fst (encode_integer [] i 6) = [of_nat i]" using assms(1) by (simp add: encode_integer_cases)
  then show ?thesis using literal_item[OF assms] by (simp add: reads_back_def or_front_def add.assoc)
qed

lemma add_reads_back:
  assumes "encoder_add h True False e = Inr e'" "en_huffman e = (0, 8)" "fst h \<notin> fst ` set (rt_queue (en_dynamic e))"
    and "codable (fst h)" "codable (snd h)"
  shows "en_huffman e' = (0, 8) \<and> set (rt_queue (en_dynamic e')) \<subseteq> insert h (set (rt_queue (en_dynamic e)))
    \<and> (\<exists>b. en_buf e' = en_buf e @ b \<and> reads_back h b)"
proof -
  obtain f i where f: "encoder_find h (en_dynamic e) = (f, i)" by (metis prod.collapse)
  consider (new) "i = -1" "\<not> f" | (indexed) "1 \<le> i" "i < 62" "f" "predefined_headers ! nat i = h"
    | (named) "1 \<le> i" "i < 62" "\<not> f" "fst (predefined_headers ! nat i) = fst h"
    using encoder_find_static[OF f assms(3)] by blast
  then show ?thesis
  proof cases
    case indexed
    then have "nat i < 127" by linarith
    then have n: "fst (encode_integer [] (nat i) 7) = [of_nat (nat i)]" by (simp add: encode_integer_cases)
    have "reads_back h (or_front INDEXED_BIT_PATTERN (fst (encode_integer [] (nat i) 7)))"
      using indexed_item[of "nat i" h] indexed n by (simp add: reads_back_def or_front_def)
    then show ?thesis using assms(1,2) f indexed by (auto simp: encoder_add_def)
  next
    case named
    then obtain e1 where e1: "remember h e = Inr e1"
      "e' = huff_encode (snd h) (emit (or_front LITERAL_INDEXED_BIT_PATTERN (fst (encode_integer [] (nat i) 6))) e1)"
      using assms(1) f by (cases "remember h e") (auto simp: encoder_add_def Let_def)
    have "reads_back h (or_front LITERAL_INDEXED_BIT_PATTERN (fst (encode_integer [] (nat i) 6)) @ [] @ coded_string (snd h))"
      by (rule literal_reads_back) (use named assms(5) in auto)
    then show ?thesis using e1 add_queue[OF e1(1)] assms(2,5) by (auto simp: huff_encode_eq)
  next
    case new
    then obtain e1 where e1: "remember h e = Inr e1"
      "e' = huff_encode (snd h) (huff_encode (fst h) (emit [LITERAL_INDEXED_BIT_PATTERN] e1))"
      using assms(1) f by (cases "remember h e") (auto simp: encoder_add_def Let_def)
    have "reads_back h (or_front LITERAL_INDEXED_BIT_PATTERN (fst (encode_integer [] 0 6)) @ coded_string (fst h) @ coded_string (snd h))"
      by (rule literal_reads_back) (use assms(4,5) in auto)
    then have "reads_back h (LITERAL_INDEXED_BIT_PATTERN # coded_string (fst h) @ coded_string (snd h))"
      by (simp add: encode_integer_cases or_front_def)
    then show ?thesis using e1 add_queue[OF e1(1)] assms(2,4,5) by (auto simp: huff_encode_eq)
  qed
qed

definition receives :: "header list \<Rightarrow> decoder \<Rightarrow> decoder" where
  "receives hs d = fold received hs d"

lemma disjoint_insert: "S \<subseteq> insert x T \<Longrightarrow> x \<notin> U \<Longrightarrow> U \<inter> T = {} \<Longrightarrow> U \<inter> S = {}"
  by blast

lemma adds_read_back:
  assumes "encoder_adds hs True False e = Inr e'" "en_huffman e = (0, 8)" "distinct (map fst hs)"
    and "fst ` set hs \<inter> fst ` set (rt_queue (en_dynamic e)) = {}" "\<forall>h\<in>set hs. codable (fst h) \<and> codable (snd h)"
    and "hs = [] \<or> snd (last hs) \<noteq> []"
  shows "\<exists>b. en_buf e' = en_buf e @ b \<and> (hs \<noteq> [] \<longrightarrow> b \<noteq> []) \<and> (\<forall>pre n d. length hs \<le> n \<longrightarrow>
    decode_loop n (pre @ b) (length pre) d = (receives hs d, Inr True))"
  using assms
proof (induction hs arbitrary: e)
  case Nil
  have "decode_loop n pre (length pre) d = (d, Inr True)" for n and pre :: bytes and d by (cases n) simp_all
  then show ?case using Nil by (auto simp: receives_def)
next
  case (Cons h hs)
  obtain e1 where e1: "encoder_add h True False e = Inr e1" "encoder_adds hs True False e1 = Inr e'"
    using Cons.prems(1) by (auto simp: result_bind_Inr_iff)
  obtain b1 where b1: "en_huffman e1 = (0, 8)" "set (rt_queue (en_dynamic e1)) \<subseteq> insert h (set (rt_queue (en_dynamic e)))"
    "en_buf e1 = en_buf e @ b1" "reads_back h b1" using add_reads_back[OF e1(1) Cons.prems(2)] Cons.prems(4,5) by auto
  have "fst ` set (rt_queue (en_dynamic e1)) \<subseteq> insert (fst h) (fst ` set (rt_queue (en_dynamic e)))"
    using image_mono[OF b1(2), of fst] by simp
  moreover have "fst h \<notin> fst ` set hs" "fst ` set hs \<inter> fst ` set (rt_queue (en_dynamic e)) = {}" using Cons.prems(3,4) by auto
  ultimately have dj: "fst ` set hs \<inter> fst ` set (rt_queue (en_dynamic e1)) = {}" by (rule disjoint_insert)
  have rest: "distinct (map fst hs)" "\<forall>h\<in>set hs. codable (fst h) \<and> codable (snd h)" "hs = [] \<or> snd (last hs) \<noteq> []"
    using Cons.prems(3,5,6) by (simp_all split: if_splits)
  from Cons.IH[OF e1(2) b1(1) rest(1) dj rest(2,3)] obtain b2 where b2: "en_buf e' = en_buf e1 @ b2" "hs \<noteq> [] \<longrightarrow> b2 \<noteq> []"
    "\<And>pre n d. length hs \<le> n \<Longrightarrow> decode_loop n (pre @ b2) (length pre) d = (receives hs d, Inr True)"
    by blast
  have "decode_loop n (pre @ b1 @ b2) (length pre) d = (receives (h # hs) d, Inr True)" if len: "length (h # hs) \<le> n" for pre n d
  proof -
    obtain m where m: "n = Suc m" "length hs \<le> m" using len by (cases n) auto
    have "snd h \<noteq> [] \<or> b2 \<noteq> []" using Cons.prems(6) b2(2) by (auto split: if_splits)
    then have "decode_item (pre @ b1 @ b2) (length pre) d = Inr (received h d, Some (length pre + length b1))" "b1 \<noteq> []"
      using b1(4) by (auto simp: reads_back_def)
    then show ?thesis using m b2(3)[OF m(2), of "pre @ b1" "received h d"] by (simp add: receives_def)
  qed
  then show ?case using b1(3,4) b2(1) by (auto simp: reads_back_def intro!: exI[of _ "b1 @ b2"])
qed

lemma receives_headers: "dc_headers (receives hs d) = fold (\<lambda>h. push_header (fst h) (snd h)) hs (dc_headers d)"
  unfolding receives_def by (induction hs arbitrary: d) simp_all

lemma ring_add_result:
  assumes "ring_length t = Inr n" "length (fst h) + length (snd h) \<le> u64_max"
  shows "\<exists>t' k n'. ring_add h t = Inr t' \<and> rt_max t' = rt_max t \<and> rt_queue t' = h # take k (rt_queue t)
    \<and> table_length 0 (take k (rt_queue t)) = Inr n' \<and> (n' < rt_max t \<or> take k (rt_queue t) = [])"
proof -
  obtain t1 where t1: "trim t = Inr t1"
    using evict_total[of "rt_max t" "rt_queue t" n] assms(1) by (cases "rt_max t = 0") (auto simp: trim_def ring_length_def)
  obtain k n' where k: "rt_max t1 = rt_max t" "rt_queue t1 = take k (rt_queue t)" "table_length 0 (rt_queue t1) = Inr n'"
    "n' < rt_max t \<or> rt_queue t1 = []" using trim_result[OF t1] unfolding ring_length_def by blast
  have "ring_add h t = Inr (t1\<lparr>rt_queue := h # rt_queue t1\<rparr>)" using t1 assms(2) by (auto simp: ring_add_def)
  then show ?thesis using k by (intro exI[of _ "t1\<lparr>rt_queue := h # rt_queue t1\<rparr>"] exI[of _ k] exI[of _ n']) simp
qed

lemma block_decodes:
  assumes "encoder_adds hs True False (new_encoder m) = Inr e" "hs \<noteq> []" "length hs \<le> 100" "distinct (map fst hs)"
    and "\<forall>h\<in>set hs. codable (fst h) \<and> codable (snd h)" "snd (last hs) \<noteq> []"
  shows "\<exists>d. hpack_decode (en_buf e) (new_decoder m') = (d, Inr True)
    \<and> dc_headers d = fold (\<lambda>h. push_header (fst h) (snd h)) hs []"
proof -
  obtain b where b: "en_buf e = b" "b \<noteq> []"
    "\<And>pre n d. length hs \<le> n \<Longrightarrow> decode_loop n (pre @ b) (length pre) d = (receives hs d, Inr True)"
    using adds_read_back[OF assms(1)] assms(2-) by (auto simp: new_encoder_def new_ringtable_def)
  have "hpack_decode b (new_decoder m') = (receives hs (new_decoder m'), Inr True)"
    using b(2) b(3)[OF assms(3), of "[]" "new_decoder m'"] by (simp add: hpack_decode_def del: decode_loop.simps)
  then show ?thesis using b(1) by (simp add: receives_headers new_decoder_def)
qed

section \<open>Properties\<close>

text \<open>The integers of a header block round trip: with every prefix length of the format and
  whatever flags stand in front of the prefix, the decoder reads the encoded number, below \<open>2^31\<close>, and
  stops behind it.\<close>

theorem integer_round_trip:
  assumes "1 \<le> N" "N \<le> 7" "I < 2 ^ 31" "take_bit N flag = 0"
  shows "decode_integer (pre @ or_front flag (fst (encode_integer [] I N)) @ post) (length pre) N
    = Inr (I, length pre + length (fst (encode_integer [] I N)))"
  by (rule decode_encoded[OF assms])

text \<open>C14: A header block of at most a hundred headers with different names, written by the encoder as it is
  used by default, decodes into exactly these headers, provided that no Huffman code has
  127 octets or more than a signed integer holds and that the last value is not empty.\<close>

theorem header_block_round_trip:
  assumes "encoder_adds hs True False (new_encoder m) = Inr e" "hs \<noteq> []" "length hs \<le> 100" "distinct (map fst hs)"
    and "\<forall>h\<in>set hs. codable (fst h) \<and> codable (snd h)" "snd (last hs) \<noteq> []"
  shows "\<exists>d. hpack_decode (en_buf e) (new_decoder m') = (d, Inr True)
    \<and> dc_headers d = fold (\<lambda>h. push_header (fst h) (snd h)) hs []"
  by (rule block_decodes[OF assms])

text \<open>C20: Adding to the dynamic table always succeeds and evicts old entries first: the new header is
  in front of a part of the old queue that is shorter than the limit or empty.\<close>

theorem dynamic_table_bounded:
  assumes "ring_length t = Inr n" "length (fst h) + length (snd h) \<le> u64_max"
  shows "\<exists>t' k n'. ring_add h t = Inr t' \<and> rt_max t' = rt_max t \<and> rt_queue t' = h # take k (rt_queue t)
    \<and> table_length 0 (take k (rt_queue t)) = Inr n' \<and> (n' < rt_max t \<or> take k (rt_queue t) = [])"
  by (rule ring_add_result[OF assms])

lemma integer_rest_bounds: "integer_rest data current I M = Inr (v, p) \<Longrightarrow> I \<le> v \<and> current + 2 \<le> p"
proof (induction data current I M rule: integer_rest.induct)
  case (1 data current I M)
  let ?B = "data ! (current + 1)" let ?I = "I + unat (?B AND 0x7F) * 2 ^ M"
  from 1(2) have c: "\<not> length data \<le> current + 1" "\<not> 2 ^ 31 \<le> ?I"
    and r: "(if ?B AND 0x80 = 0x80 then integer_rest data (current + 1) ?I ((M + 7) mod 256) else Inr (?I, current + 2)) = Inr (v, p)"
    by (subst (asm) integer_rest.simps, simp add: Let_def split: if_splits)+
  show ?case
  proof (cases "?B AND 0x80 = 0x80")
    case True
    then have "?I \<le> v" "current + 1 + 2 \<le> p" using 1(1)[OF c(1) refl refl c(2) True] r by simp_all
    then show ?thesis by linarith
  next
    case False
    then show ?thesis using r by auto
  qed
qed

lemma length_bits: "length (bits n v) = n"
  by (induction n arbitrary: v) simp_all

lemma code_length: "k < 257 \<Longrightarrow> length (huffman_table ! k) \<le> 30"
proof -
  have "list_all (\<lambda>c. length c \<le> 30) huffman_table"
    by (simp add: huffman_table_def huffman_low_def huffman_high_def length_bits del: bits.simps)
  then show "k < 257 \<Longrightarrow> length (huffman_table ! k) \<le> 30" by (simp add: list_all_length table_length_257)
qed

lemma huff_code_length:
  "\<exists>k<8. 8 * length (huff_code str) = length (code_of (map ord str)) + k"
proof -
  have "length (concat (map octet_bits e)) = 8 * length e" for e by (induction e) (simp_all add: octet_bits_def)
  moreover obtain k where "k < 8" "concat (map octet_bits (huff_code str)) = code_of (map ord str) @ replicate k True"
    using huffman_encode_bits[OF _ encoder_at_rest[of "map ord str"]] by (auto simp: huff_code_def huff_ok_def pending_def)
  ultimately show ?thesis by (metis length_append length_replicate)
qed

lemma codable_short: "length str \<le> 30 \<Longrightarrow> codable str"
proof -
  assume s: "length str \<le> 30"
  have "length (code_of xs) \<le> 30 * length xs" for xs
  proof (induction xs)
    case (Cons x xs)
    have "length (huffman_table ! unat x) \<le> 30" using code_length octet_below[of x] by simp
    then show ?case using Cons by (simp add: code_of_def)
  qed (simp add: code_of_def)
  from this[of "map ord str"] have "length (code_of (map ord str)) \<le> 900" using s by simp
  moreover obtain k where "k < 8" "8 * length (huff_code str) = length (code_of (map ord str)) + k" using huff_code_length by blast
  ultimately have "length (huff_code str) < 127" by linarith
  then show ?thesis by (simp add: codable_def)
qed

text \<open>A string whose Huffman code has 127 octets is written with a length the decoder takes for the start of
  a longer number: the string at the end of a block can not be read back.\<close>

theorem code_of_127_octets_misread:
  assumes "length (huff_code str) = 127" "en_huffman e = (0, 8)"
  shows "parse_string (en_buf (huff_encode str e)) (length (en_buf e)) \<noteq> Inr r"
proof
  let ?pre = "en_buf e" let ?data = "?pre @ 0xFF # huff_code str"
  assume p: "parse_string (en_buf (huff_encode str e)) (length ?pre) = Inr r"
  have "huffman_encode (map ord str) (0, 8) = ((0, 8), huff_code str)" unfolding huff_code_def by (rule encoder_at_rest)
  then have d: "en_buf (huff_encode str e) = ?data" using assms by (simp add: huff_encode_def Let_def emit_def)
  obtain len q where i: "decode_integer ?data (length ?pre) 7 = Inr (len, q)" "q + len \<le> length ?data"
    using p unfolding d by (auto simp: parse_string_def result_bind_Inr_iff Let_def split: if_splits)
  have "unat (0xFF :: byte) AND (2 ^ 7 - 1) = 2 ^ 7 - 1" by simp
  then have "integer_rest ?data (length ?pre) 127 0 = Inr (len, q)" using i(1) by (simp add: decode_integer_def Let_def)
  from integer_rest_bounds[OF this] show False using i(2) assms(1) by simp
qed

text \<open>The decoder never fills its dynamic table, which the encoder relies on: of a header that is
  added twice, the second is lost without an error.\<close>

theorem repeated_header_lost:
  assumes "encoder_adds [h, h] True False (new_encoder m) = Inr e" "fst h \<notin> fst ` set predefined_headers"
    and "codable (fst h)" "codable (snd h)"
  shows "\<exists>d. hpack_decode (en_buf e) (new_decoder m') = (d, Inr True) \<and> dc_headers d = [(fst h, [snd h])]"
proof -
  obtain e1 where e1: "encoder_add h True False (new_encoder m) = Inr e1" "encoder_add h True False e1 = Inr e"
    using assms(1) by (auto simp: result_bind_Inr_iff)
  have new: "en_huffman (new_encoder m) = (0, 8)" "rt_queue (en_dynamic (new_encoder m)) = []" "en_buf (new_encoder m) = []"
    by (simp_all add: new_encoder_def new_ringtable_def)
  obtain b where b: "en_buf e1 = b" "reads_back h b" using add_reads_back[OF e1(1) new(1) _ assms(3,4)] new(2,3) by auto
  have st: "static_find h 1 (tl predefined_headers) (-1) = (False, -1)"
  proof -
    obtain f i where s: "static_find h 1 (tl predefined_headers) (-1) = (f, i)" by (metis prod.collapse)
    have "fst (tl predefined_headers ! k) \<noteq> fst h" if "k < length (tl predefined_headers)" for k
    proof -
      have "tl predefined_headers ! k \<in> set predefined_headers"
        using list.set_sel(2)[OF _ nth_mem[OF that]] static_size by fastforce
      then show ?thesis using assms(2) by (metis imageI)
    qed
    then show ?thesis using s static_find_spec[OF s] by auto
  qed
  have "encoder_find h (en_dynamic (new_encoder m)) = (False, -1)" using st new(2) by (simp add: encoder_find_def ring_find_def)
  then obtain e0 where e0: "remember h (new_encoder m) = Inr e0" "en_dynamic e1 = en_dynamic e0"
    using e1(1) by (cases "remember h (new_encoder m)")
      (auto simp: encoder_add_def Let_def huff_encode_def split: prod.splits)
  obtain t where t: "trim (en_dynamic (new_encoder m)) = Inr t" "en_dynamic e0 = t\<lparr>rt_queue := h # rt_queue t\<rparr>"
    using e0(1) by (cases "trim (en_dynamic (new_encoder m))") (auto simp: remember_def ring_add_def split: if_splits)
  have "rt_queue t = []" using trim_result[OF t(1)] new(2) by auto
  then have "encoder_find h (en_dynamic e1) = (True, 62)" using st t(2) e0(2) by (simp add: encoder_find_def ring_find_def static_size)
  then have buf: "en_buf e = b @ [0xBE]" using e1(2) b(1) by (auto simp: encoder_add_def encode_integer_cases or_front_def)
  let ?d = "received h (new_decoder m')"
  have i1: "decode_item (b @ [0xBE]) 0 (new_decoder m') = Inr (?d, Some (length b))"
  proof -
    have "decode_item ([] @ b @ [0xBE]) (length ([] :: bytes)) (new_decoder m') = Inr (?d, Some (length ([] :: bytes) + length b))"
      using b(2) unfolding reads_back_def by blast
    then show ?thesis by simp
  qed
  have "decode_integer (b @ [0xBE]) (length b) 7 = Inr (62, length b + 1)" by (simp add: decode_integer_def Let_def)
  moreover have "get_header 62 (dc_dynamic ?d) = None" by (simp add: get_header_def static_size new_decoder_def new_ringtable_def)
  ultimately have i2: "decode_item (b @ [0xBE]) (length b) ?d = Inr (?d, Some (length b + 1))" by (simp add: decode_item_def Let_def)
  have "decode_loop (Suc (Suc (Suc n))) (b @ [0xBE]) 0 (new_decoder m') = (?d, Inr True)" for n using i1 i2 by simp
  from this[of 97] have "hpack_decode (en_buf e) (new_decoder m') = (?d, Inr True)"
    by (simp add: hpack_decode_def buf numeral_eq_Suc del: decode_loop.simps)
  then show ?thesis by (simp add: new_decoder_def push_header_def tab_get_def)
qed

section \<open>Witnesses\<close>

theorem integer_round_trip_witness:
  "decode_integer ([0x01] @ or_front 0x80 (fst (encode_integer [] 1337 7)) @ [0x02]) 1 7
    = Inr (1337, 1 + length (fst (encode_integer [] 1337 7)))"
  using integer_round_trip[of 7 1337 "0x80" "[0x01]" "[0x02]"] by simp

definition sample_headers :: "header list" where
  "sample_headers = [('':method'', ''GET''), ('':authority'', ''example.com''), (''x-test'', ''1'')]"

lemma sample_facts:
  "sample_headers \<noteq> []" "length sample_headers \<le> 100" "distinct (map fst sample_headers)" "snd (last sample_headers) \<noteq> []"
  "\<forall>h\<in>set sample_headers. codable (fst h) \<and> codable (snd h)"
  by (simp_all add: sample_headers_def codable_short)

definition headers_size :: "header list \<Rightarrow> nat" where
  "headers_size q = sum_list (map (\<lambda>h. length (fst h) + length (snd h)) q)"

lemma table_length_sum:
  "sz \<le> u64_max \<Longrightarrow> table_length sz q = (if sz + headers_size q \<le> u64_max then Inr (sz + headers_size q) else Inl runtime_error)"
proof (induction q arbitrary: sz)
  case (Cons h q)
  let ?l = "length (fst h) + length (snd h)"
  have "headers_size (h # q) = ?l + headers_size q" by (simp add: headers_size_def)
  then show ?case using Cons.IH[of "sz + ?l"] Cons.prems by (auto simp: Let_def add.assoc)
qed (simp add: headers_size_def)

lemma remember_total:
  assumes "headers_size (h # rt_queue (en_dynamic e)) \<le> u64_max"
  shows "\<exists>e'. remember h e = Inr e' \<and> headers_size (rt_queue (en_dynamic e')) \<le> headers_size (h # rt_queue (en_dynamic e))"
proof -
  let ?t = "en_dynamic e"
  have "ring_length ?t = Inr (headers_size (rt_queue ?t))"
    using assms table_length_sum[of 0 "rt_queue ?t"] by (simp add: ring_length_def headers_size_def)
  then obtain t' k where t': "ring_add h ?t = Inr t'" "rt_queue t' = h # take k (rt_queue ?t)"
    using ring_add_result[of ?t _ h] assms by (auto simp: headers_size_def)
  have "headers_size (take k q) + headers_size (drop k q) = headers_size q" for q
    using arg_cong[OF append_take_drop_id[of k q], of headers_size] by (simp add: headers_size_def del: append_take_drop_id)
  from this[of "rt_queue ?t"] show ?thesis using t' by (simp add: remember_def headers_size_def)
qed

lemma add_total:
  assumes "headers_size (h # rt_queue (en_dynamic e)) \<le> u64_max"
  shows "\<exists>e'. encoder_add h True False e = Inr e' \<and> headers_size (rt_queue (en_dynamic e')) \<le> headers_size (h # rt_queue (en_dynamic e))"
proof -
  have h: "en_dynamic (huff_encode s x) = en_dynamic x" for s x by (simp add: huff_encode_def Let_def split: prod.splits)
  obtain e1 where "remember h e = Inr e1" "headers_size (rt_queue (en_dynamic e1)) \<le> headers_size (h # rt_queue (en_dynamic e))"
    using remember_total[OF assms] by blast
  moreover have "headers_size (rt_queue (en_dynamic e)) \<le> headers_size (h # rt_queue (en_dynamic e))" by (simp add: headers_size_def)
  ultimately show ?thesis by (auto simp: encoder_add_def Let_def h split: prod.splits)
qed

lemma adds_total:
  "headers_size hs + headers_size (rt_queue (en_dynamic e)) \<le> u64_max \<Longrightarrow> \<exists>e'. encoder_adds hs True False e = Inr e'"
proof (induction hs arbitrary: e)
  case (Cons h hs)
  have s: "headers_size (h # q) = length (fst h) + length (snd h) + headers_size q" for q by (simp add: headers_size_def)
  obtain e1 where "encoder_add h True False e = Inr e1" "headers_size (rt_queue (en_dynamic e1)) \<le> headers_size (h # rt_queue (en_dynamic e))"
    using add_total[of h e] Cons.prems by (auto simp: s)
  then show ?case using Cons.IH[of e1] Cons.prems by (simp add: s)
qed simp

lemma new_queue [simp]: "rt_queue (en_dynamic (new_encoder m)) = []"
  by (simp add: new_encoder_def new_ringtable_def)

theorem header_block_round_trip_witness:
  "\<exists>e d. encoder_adds sample_headers True False (new_encoder 4096) = Inr e
    \<and> hpack_decode (en_buf e) (new_decoder 4096) = (d, Inr True)
    \<and> dc_headers d = [('':authority'', [''example.com'']), ('':method'', [''GET'']), (''x-test'', [''1''])]"
proof -
  obtain e where e: "encoder_adds sample_headers True False (new_encoder 4096) = Inr e"
    using adds_total[of sample_headers "new_encoder 4096"] by (auto simp: sample_headers_def headers_size_def)
  have "fold (\<lambda>h. push_header (fst h) (snd h)) sample_headers []
      = [('':authority'', [''example.com'']), ('':method'', [''GET'']), (''x-test'', [''1''])]"
    by (simp add: sample_headers_def push_header_def tab_get_def less_char_def)
  then show ?thesis using header_block_round_trip[OF e sample_facts(1,2,3,5,4), of 4096] e by simp
qed

theorem dynamic_table_bounded_witness:
  "\<exists>t' k n'. ring_add (''c'', ''d'') \<lparr>rt_max = 5, rt_queue = [(''ab'', ''cd''), (''e'', ''f'')]\<rparr> = Inr t' \<and> rt_max t' = 5
    \<and> rt_queue t' = (''c'', ''d'') # take k [(''ab'', ''cd''), (''e'', ''f'')]
    \<and> table_length 0 (take k [(''ab'', ''cd''), (''e'', ''f'')]) = Inr n' \<and> (n' < 5 \<or> take k [(''ab'', ''cd''), (''e'', ''f'')] = [])"
proof -
  let ?t = "\<lparr>rt_max = 5, rt_queue = [(''ab'', ''cd''), (''e'', ''f'')]\<rparr>"
  have "ring_length ?t = Inr 6" by (simp add: ring_length_def Let_def)
  from dynamic_table_bounded[OF this, of "(''c'', ''d'')"] show ?thesis by simp
qed

theorem code_of_127_octets_misread_witness:
  "\<nexists>r. parse_string (en_buf (huff_encode (replicate 203 (CHR ''0'')) (new_encoder 4096))) 0 = Inr r"
proof -
  let ?s = "replicate 203 (CHR ''0'')"
  have "huffman_table ! 0x30 = bits 5 0x0" by (simp add: huffman_table_def huffman_low_def del: bits.simps)
  moreover have "unat (ord (CHR ''0'')) = 0x30" by (simp add: ord_def)
  ultimately have "length (huffman_table ! unat (ord (CHR ''0''))) = 5" by (simp add: length_bits)
  then have "length (code_of (map ord ?s)) = 1015" by (simp add: code_of_def length_concat sum_list_replicate)
  moreover obtain k where "k < 8" "8 * length (huff_code ?s) = length (code_of (map ord ?s)) + k" using huff_code_length by blast
  ultimately have "length (huff_code ?s) = 127" by linarith
  then show ?thesis using code_of_127_octets_misread[of ?s "new_encoder 4096"] by (simp add: new_encoder_def)
qed

theorem repeated_header_lost_witness:
  "\<exists>e d. encoder_adds [(''x-test'', ''1''), (''x-test'', ''1'')] True False (new_encoder 4096) = Inr e
    \<and> hpack_decode (en_buf e) (new_decoder 4096) = (d, Inr True) \<and> dc_headers d = [(''x-test'', [''1''])]"
proof -
  obtain e where e: "encoder_adds [(''x-test'', ''1''), (''x-test'', ''1'')] True False (new_encoder 4096) = Inr e"
    using adds_total[of "[(''x-test'', ''1''), (''x-test'', ''1'')]" "new_encoder 4096"] by (auto simp: headers_size_def)
  have "fst (''x-test'', ''1'') \<notin> fst ` set predefined_headers" by (simp add: predefined_headers_def)
  from repeated_header_lost[OF e this, of 4096] show ?thesis using e by (simp add: codable_short)
qed

end
