(* ===== verification/Kb.thy ===== *)
theory Kb
  imports Prelude
begin

text \<open>
  The knowledge base the HTTP engine collects observations in, \<open>src/src/inspect/kb\<close>.  Nodes are owned by one
  queue shared by all trees and refer to their elements weakly: a node whose owner has left the queue
  is gone although its name is still in the element table of its parent.  Nodes are numbered; \<open>held\<close>
  are the nodes the calling function owns at the moment.
\<close>

section \<open>State\<close>

datatype kb_value = KB_String string | KB_Int int

record kb_node =
  kn_data :: "kb_value option"
  kn_elements :: "string \<Rightarrow> nat option"
  kn_elements_queue :: "(string \<times> nat) list"

record kb =
  kb_nodes :: "nat \<Rightarrow> kb_node"
  kb_fresh :: nat
  kb_queue :: "nat list"
  kb_max_elements :: nat

definition cleanup_divisor :: nat where
  "cleanup_divisor = 10"

definition new_kb_node :: "kb_value option \<Rightarrow> kb_node" where
  "new_kb_node d = \<lparr>kn_data = d, kn_elements = (\<lambda>_. None), kn_elements_queue = []\<rparr>"

text \<open>The root is node 0 and is owned by the program.\<close>

definition new_kb :: kb where
  "new_kb = \<lparr>kb_nodes = (\<lambda>_. new_kb_node None), kb_fresh = 1, kb_queue = [], kb_max_elements = 1000\<rparr>"

definition alive :: "kb \<Rightarrow> nat list \<Rightarrow> nat \<Rightarrow> bool" where
  "alive k held n \<longleftrightarrow> n \<in> set (kb_queue k) \<or> n \<in> set held"

definition upd_node :: "nat \<Rightarrow> (kb_node \<Rightarrow> kb_node) \<Rightarrow> kb \<Rightarrow> kb" where
  "upd_node n f k = k\<lparr>kb_nodes := (kb_nodes k)(n := f (kb_nodes k n))\<rparr>"

section \<open>Operations\<close>

text \<open>The loop looks at the front of the element queue without testing that there is one; \<open>None\<close>
  stands for the access to an empty queue.\<close>

fun purge :: "(nat \<Rightarrow> bool) \<Rightarrow> (string \<times> nat) list \<Rightarrow> (string \<Rightarrow> nat option) \<Rightarrow> ((string \<Rightarrow> nat option) \<times> (string \<times> nat) list) option" where
  "purge live [] els = None"
| "purge live ((key, n) # q) els = (if \<not> live n then purge live q (els(key := None)) else Some (els, (key, n) # q))"

definition apply_quota :: "nat list \<Rightarrow> nat \<Rightarrow> kb \<Rightarrow> kb option" where
  "apply_quota held this k =
     (if kb_max_elements k > 0
      then let k = k\<lparr>kb_queue := (if length (kb_queue k) > kb_max_elements k then tl (kb_queue k) else kb_queue k)\<rparr>;
               node = kb_nodes k this
           in if length (kn_elements_queue node) > kb_max_elements k div cleanup_divisor
              then map_option (\<lambda>(els, q). upd_node this (\<lambda>x. x\<lparr>kn_elements := els, kn_elements_queue := q\<rparr>) k)
                     (purge (alive k held) (kn_elements_queue node) (kn_elements node))
              else Some k
      else Some k)"

definition kb_replace :: "nat list \<Rightarrow> nat \<Rightarrow> string \<Rightarrow> kb_value \<Rightarrow> kb \<Rightarrow> (kb \<times> nat) option" where
  "kb_replace held this key v k = map_option (\<lambda>k.
     let nel = kb_fresh k;
         k = k\<lparr>kb_nodes := (kb_nodes k)(nel := new_kb_node (Some v)), kb_fresh := nel + 1, kb_queue := kb_queue k @ [nel]\<rparr>
     in (upd_node this (\<lambda>x. x\<lparr>kn_elements := (kn_elements x)(key := Some nel),
           kn_elements_queue := kn_elements_queue x @ [(key, nel)]\<rparr>) k, nel)) (apply_quota held this k)"

definition kb_at :: "nat list \<Rightarrow> nat \<Rightarrow> string \<Rightarrow> kb_value \<Rightarrow> kb \<Rightarrow> (kb \<times> nat) option" where
  "kb_at held this key v k = (case kn_elements (kb_nodes k this) key of
     Some n \<Rightarrow> if alive k held n then Some (k, n)
               else kb_replace held this key v (upd_node this (\<lambda>x. x\<lparr>kn_elements := (kn_elements x)(key := None)\<rparr>) k)
   | None \<Rightarrow> kb_replace held this key v k)"

text \<open>The counters the engine increments.\<close>

definition kb_increment :: "nat \<Rightarrow> kb \<Rightarrow> kb" where
  "kb_increment n = upd_node n (\<lambda>x. x\<lparr>kn_data := (case kn_data x of Some (KB_Int i) \<Rightarrow> Some (KB_Int (i + 1)) | d \<Rightarrow> d)\<rparr>)"

section \<open>Facts\<close>

lemma upd_node_sel [simp]:
  "kb_fresh (upd_node n f k) = kb_fresh k" "kb_queue (upd_node n f k) = kb_queue k" "kb_max_elements (upd_node n f k) = kb_max_elements k"
  "kb_nodes (upd_node n f k) m = (if m = n then f (kb_nodes k n) else kb_nodes k m)"
  by (simp_all add: upd_node_def)

lemma alive_upd [simp]: "alive (upd_node m f k) held n = alive k held n"
  by (simp add: alive_def)

lemma apply_quota_keeps:
  assumes "apply_quota held this k = Some k'"
  shows "kb_fresh k' = kb_fresh k \<and> kb_max_elements k' = kb_max_elements k
    \<and> (kb_max_elements k > 0 \<and> length (kb_queue k) \<le> Suc (kb_max_elements k) \<longrightarrow> length (kb_queue k') \<le> kb_max_elements k)"
  using assms by (auto simp: apply_quota_def Let_def split: if_splits)

lemma replace_result:
  assumes "kb_replace held this key v k = Some (k', n)" "this < kb_fresh k"
  shows "kn_elements (kb_nodes k' this) key = Some n" "n \<in> set (kb_queue k')" "kn_data (kb_nodes k' n) = Some v" "this < kb_fresh k'"
proof -
  obtain q where q: "apply_quota held this k = Some q" "k' = upd_node this (\<lambda>x. x\<lparr>kn_elements := (kn_elements x)(key := Some n),
       kn_elements_queue := kn_elements_queue x @ [(key, n)]\<rparr>)
      (q\<lparr>kb_nodes := (kb_nodes q)(n := new_kb_node (Some v)), kb_fresh := n + 1, kb_queue := kb_queue q @ [n]\<rparr>)" "n = kb_fresh q"
    using assms(1) by (auto simp: kb_replace_def Let_def)
  have "this \<noteq> n" using assms(2) q(3) apply_quota_keeps[OF q(1)] by simp
  then show "kn_elements (kb_nodes k' this) key = Some n" "n \<in> set (kb_queue k')" "kn_data (kb_nodes k' n) = Some v" "this < kb_fresh k'"
    using q(2,3) assms(2) apply_quota_keeps[OF q(1)] by (simp_all add: new_kb_node_def)
qed

lemma replace_queue:
  assumes "kb_replace held this key v k = Some (k', n)" "kb_max_elements k > 0" "length (kb_queue k) \<le> Suc (kb_max_elements k)"
  shows "length (kb_queue k') \<le> Suc (kb_max_elements k) \<and> kb_max_elements k' = kb_max_elements k"
proof -
  obtain q where q: "apply_quota held this k = Some q" "length (kb_queue k') = Suc (length (kb_queue q))" "kb_max_elements k' = kb_max_elements q"
    using assms(1) by (auto simp: kb_replace_def Let_def)
  then show ?thesis using apply_quota_keeps[OF q(1)] assms(2,3) by simp
qed

section \<open>Room for more\<close>

text \<open>The clean-up of a node fails only when all its elements are gone.  A knowledge base has room for \<open>s\<close> more elements when every
  node stays below the length at which its queue is cleaned up, or has an element that is not among the \<open>s\<close> nodes next to
  leave the queue of owners.\<close>

definition node_room :: "nat \<Rightarrow> nat list \<Rightarrow> nat \<Rightarrow> (string \<times> nat) list \<Rightarrow> bool" where
  "node_room s owners m q \<longleftrightarrow> length q + s \<le> m \<or> snd ` set q \<inter> set owners \<noteq> {}"

definition kb_room :: "nat \<Rightarrow> kb \<Rightarrow> bool" where
  "kb_room s k \<longleftrightarrow> kb_max_elements k = 0 \<or> s \<le> kb_max_elements k div cleanup_divisor
     \<and> (\<forall>n. node_room s (drop s (kb_queue k)) (kb_max_elements k div cleanup_divisor) (kn_elements_queue (kb_nodes k n)))"

lemma new_kb_room: "s \<le> 100 \<Longrightarrow> kb_room s new_kb"
  by (simp add: kb_room_def node_room_def new_kb_def new_kb_node_def cleanup_divisor_def)

lemma node_room_mono: "node_room s owners m x \<Longrightarrow> set owners \<subseteq> set owners' \<Longrightarrow> s' \<le> s \<Longrightarrow> node_room s' owners' m x"
  by (auto simp: node_room_def)

lemma node_room_more: "node_room (Suc s) owners m q \<Longrightarrow> node_room s owners m (q @ [e])"
  by (auto simp: node_room_def)

lemma node_room_live: "e \<in> set q \<Longrightarrow> snd e \<in> set owners \<Longrightarrow> node_room s owners m q"
  by (auto simp: node_room_def)

lemma purge_live:
  assumes "live (snd e)" "e \<in> set q"
  shows "\<exists>els' q'. purge live q els = Some (els', q') \<and> e \<in> set q'"
  using assms by (induction live q els rule: purge.induct) auto

lemma drop_popped: "set (drop (Suc s) q) \<subseteq> set (drop s (if b then tl q else q))"
  by (auto simp: drop_Suc) (metis drop_Suc set_drop_subset_set_drop le_SucI order_refl subsetD)

text \<open>The quota leaves the room, counted from one step later on.\<close>

lemma quota_room:
  assumes "kb_room (Suc s) k" "kb_max_elements k \<noteq> 0"
  shows "\<exists>k'. apply_quota held this k = Some k'
    \<and> (\<forall>n. node_room (Suc s) (drop s (kb_queue k')) (kb_max_elements k div cleanup_divisor) (kn_elements_queue (kb_nodes k' n)))"
proof -
  define q where "q = (if length (kb_queue k) > kb_max_elements k then tl (kb_queue k) else kb_queue k)"
  let ?k = "k\<lparr>kb_queue := q\<rparr>" and ?node = "kb_nodes k this" and ?m = "kb_max_elements k div cleanup_divisor"
  have room: "node_room (Suc s) (drop s q) ?m (kn_elements_queue (kb_nodes k n))" for n
    unfolding q_def by (rule node_room_mono[OF _ drop_popped order_refl]) (use assms in \<open>simp add: kb_room_def\<close>)
  have quota: "apply_quota held this k = (if length (kn_elements_queue ?node) > ?m
      then map_option (\<lambda>(els, q). upd_node this (\<lambda>x. x\<lparr>kn_elements := els, kn_elements_queue := q\<rparr>) ?k)
             (purge (alive ?k held) (kn_elements_queue ?node) (kn_elements ?node)) else Some ?k)"
    using assms(2) by (simp add: apply_quota_def Let_def flip: q_def)
  show ?thesis
  proof (cases "length (kn_elements_queue ?node) > ?m")
    case True
    then obtain e where e: "e \<in> set (kn_elements_queue ?node)" "snd e \<in> set (drop s q)"
      using room[of this] by (auto simp: node_room_def)
    then have "alive ?k held (snd e)" using set_drop_subset[of s q] by (auto simp: alive_def)
    from purge_live[of "alive ?k held", OF this e(1)] obtain els q' where
      p: "purge (alive ?k held) (kn_elements_queue ?node) (kn_elements ?node) = Some (els, q')" "e \<in> set q'" by blast
    then show ?thesis using True room node_room_live[OF p(2) e(2)] by (simp add: quota)
  next
    case False
    then show ?thesis using room by (simp add: quota)
  qed
qed

lemma replace_room:
  assumes "kb_room (Suc s) k"
  shows "\<exists>k' n. kb_replace held this key v k = Some (k', n) \<and> kb_room s k'"
proof (cases "kb_max_elements k = 0")
  case True
  then show ?thesis by (simp add: kb_replace_def apply_quota_def Let_def kb_room_def)
next
  case False
  let ?m = "kb_max_elements k div cleanup_divisor"
  obtain q where q: "apply_quota held this k = Some q" "\<And>n. node_room (Suc s) (drop s (kb_queue q)) ?m (kn_elements_queue (kb_nodes q n))"
    using quota_room[OF assms False, of held this] by blast
  have m: "kb_max_elements q = kb_max_elements k" using apply_quota_keeps[OF q(1)] by simp
  have s: "Suc s \<le> ?m" using assms False by (simp add: kb_room_def)
  let ?k = "q\<lparr>kb_nodes := (kb_nodes q)(kb_fresh q := new_kb_node (Some v)), kb_fresh := kb_fresh q + 1, kb_queue := kb_queue q @ [kb_fresh q]\<rparr>"
  let ?k' = "upd_node this (\<lambda>x. x\<lparr>kn_elements := (kn_elements x)(key := Some (kb_fresh q)),
    kn_elements_queue := kn_elements_queue x @ [(key, kb_fresh q)]\<rparr>) ?k"
  have k: "kb_replace held this key v k = Some (?k', kb_fresh q)" using q(1) by (simp add: kb_replace_def Let_def)
  have r: "node_room (Suc s) (drop s (kb_queue ?k)) ?m (kn_elements_queue (kb_nodes ?k n))" for n
  proof (cases "n = kb_fresh q")
    case True
    then show ?thesis using s by (simp add: node_room_def new_kb_node_def)
  next
    case False
    then show ?thesis using node_room_mono[OF q(2)[of n], of "drop s (kb_queue ?k)" "Suc s"] by simp
  qed
  have "node_room s (drop s (kb_queue ?k')) ?m (kn_elements_queue (kb_nodes ?k' n))" for n
    using node_room_more[OF r[of this]] node_room_mono[OF r[of n] subset_refl, of s] by (cases "n = this") simp_all
  then show ?thesis using k s m by (simp add: kb_room_def)
qed

lemma room_less: "kb_room (Suc s) k \<Longrightarrow> kb_room s k"
  using node_room_mono[OF _ drop_popped[of s "kb_queue k" False], of "Suc s" _ _ s] by (auto simp: kb_room_def)

text \<open>With room for one more element, an element is found or made.\<close>

lemma kb_at_room:
  assumes "kb_room (Suc s) k"
  shows "\<exists>k' n. kb_at held this key v k = Some (k', n) \<and> kb_room s k'"
proof -
  let ?k = "upd_node this (\<lambda>x. x\<lparr>kn_elements := (kn_elements x)(key := None)\<rparr>) k"
  have "kn_elements_queue (kb_nodes ?k n) = kn_elements_queue (kb_nodes k n)" for n by simp
  then have "kb_room (Suc s) ?k" using assms unfolding kb_room_def by simp
  from replace_room[OF this] replace_room[OF assms] room_less[OF assms] show ?thesis
    by (simp add: kb_at_def split: option.split)
qed

section \<open>Properties\<close>

text \<open>Finding a node creates it at most once: asking again for the same name gives the same node and changes
  nothing, whatever the quota has removed in between.\<close>

theorem kb_at_again:
  assumes "kb_at held this key v k = Some (k', n)" "this < kb_fresh k"
  shows "kb_at held this key w k' = Some (k', n)"
proof (cases "\<exists>m. kn_elements (kb_nodes k this) key = Some m \<and> alive k held m")
  case True
  then show ?thesis using assms(1) by (auto simp: kb_at_def)
next
  case False
  then obtain k0 where "kb_replace held this key v k0 = Some (k', n)" "this < kb_fresh k0"
    using assms by (auto simp: kb_at_def split: option.splits if_splits)
  from replace_result[OF this] show ?thesis by (simp add: kb_at_def alive_def)
qed

text \<open>C13: The knowledge base stays within its quota: no look-up makes the queue of owned nodes longer than
  one above the limit.\<close>

theorem kb_bounded:
  assumes "kb_at held this key v k = Some (k', n)" "kb_max_elements k > 0" "length (kb_queue k) \<le> Suc (kb_max_elements k)"
  shows "length (kb_queue k') \<le> Suc (kb_max_elements k') \<and> kb_max_elements k' = kb_max_elements k"
proof (cases "\<exists>m. kn_elements (kb_nodes k this) key = Some m \<and> alive k held m")
  case True
  then show ?thesis using assms by (auto simp: kb_at_def)
next
  case False
  then obtain k0 where "kb_replace held this key v k0 = Some (k', n)" "kb_max_elements k0 = kb_max_elements k" "kb_queue k0 = kb_queue k"
    using assms(1) by (auto simp: kb_at_def split: option.splits if_splits)
  then show ?thesis using replace_queue[of held this key v k0 k' n] assms(2,3) by simp
qed

text \<open>A parent all of whose many elements are gone can not take a new one: the clean-up runs past the end of its
  queue.\<close>

lemma purge_all_dead: "\<forall>e\<in>set q. \<not> live (snd e) \<Longrightarrow> purge live q els = None"
  by (induction q arbitrary: els) auto

theorem quota_overrun:
  assumes "kb_max_elements k > 0" "length (kb_queue k) \<le> kb_max_elements k"
    and "length (kn_elements_queue (kb_nodes k this)) > kb_max_elements k div 10"
    and "\<forall>e\<in>set (kn_elements_queue (kb_nodes k this)). \<not> alive k held (snd e)" "kn_elements (kb_nodes k this) key = None"
  shows "kb_at held this key v k = None"
  using assms purge_all_dead[OF assms(4), of "kn_elements (kb_nodes k this)"]
  by (simp add: kb_at_def kb_replace_def apply_quota_def Let_def cleanup_divisor_def)

text \<open>The clean-up removes names, not nodes: when an element was created again under the name of one that
  is gone, the stale entry of the queue removes the name of the new element.\<close>

theorem purge_forgets_live:
  assumes "\<not> live old" "live new"
  shows "purge live [(key, old), (key, new)] (els(key := Some new)) = Some (els(key := None), [(key, new)])"
  using assms by auto

theorem kb_bounded_witness:
  "\<exists>k' n. kb_at [0] 0 ''a'' (KB_String []) new_kb = Some (k', n) \<and> length (kb_queue k') \<le> Suc (kb_max_elements k') \<and> kb_max_elements k' = 1000"
proof -
  have m: "kb_max_elements new_kb = 1000" "kb_queue new_kb = []" "kb_nodes new_kb 0 = new_kb_node None" by (simp_all add: new_kb_def)
  obtain k' n where "kb_at [0] 0 ''a'' (KB_String []) new_kb = Some (k', n)"
    by (cases "kb_at [0] 0 ''a'' (KB_String []) new_kb") (auto simp: kb_at_def kb_replace_def apply_quota_def m new_kb_node_def Let_def)
  with kb_bounded[OF this] show ?thesis by (simp add: m)
qed

end
