(* ===== verification/HttpEngine.thy ===== *)
theory HttpEngine
  imports Hpack Kb CfgValue CText DnsInspector
begin

text \<open>
  The HTTP engines, \<open>src/src/inspect/engine\<close>: recognition of HTTP/1 requests and the HTTP/2 engine, which cuts the data
  of a flow into frames, decompresses headers, keeps the state of streams and reads DNS answers carried
  over HTTP.

  \<open>engine_ctx\<close> is \<open>EngineCtx\<close> together with what the engine uses of the connection it points to: the TLS and
  knowledge base options, the kind of replacement page, the acknowledged amount of continuous data, and the
  DNS caches and the knowledge base of the program.  The flow of the connection, a list of sides and data, and the
  member \<open>state_info\<close>, which only \<open>start\<close> uses, are passed beside it.  Buffers belong to socle; they are given by the octets they hold and
  accessed through the buffers of the environment.  The regular expressions of the HTTP/1 engine are searched from left to right; their
  repetitions are greedy and none of them needs to give octets back.
\<close>

section \<open>State\<close>

datatype http_ver = HTTP_1 | HTTP1_0 | HTTP1_1 | HTTP2

text \<open>An absent property reads as the empty string.\<close>

record app_request =
  ar_is_ssl :: bool
  ar_properties :: "string \<Rightarrow> string"
  ar_host :: string
  ar_uri :: string
  ar_method :: string
  ar_params :: string
  ar_referer :: string
  ar_proto :: string
  ar_sub_proto :: string
  ar_version :: http_ver

definition new_request :: app_request where
  "new_request = \<lparr>ar_is_ssl = False, ar_properties = (\<lambda>_. []), ar_host = [], ar_uri = [], ar_method = [], ar_params = [],
     ar_referer = [], ar_proto = [], ar_sub_proto = [], ar_version = HTTP_1\<rparr>"

definition http_str :: "http_ver \<Rightarrow> string" where
  "http_str v = (case v of HTTP_1 \<Rightarrow> ''http1'' | HTTP1_0 \<Rightarrow> ''http1.0'' | HTTP1_1 \<Rightarrow> ''http1.1'' | HTTP2 \<Rightarrow> ''http2'')"

definition protocol :: "app_request \<Rightarrow> string" where
  "protocol r = http_str (ar_version r) @ (if ar_sub_proto r \<noteq> [] then ''/'' @ ar_sub_proto r else [])"

definition app_request_text :: "app_request \<Rightarrow> string" where
  "app_request_text r = (if ar_uri r = ''/favicon.ico'' then ar_host r else ar_proto r @ ar_host r @ ar_uri r @ ar_params r)"

definition original_request :: "app_request \<Rightarrow> string" where
  "original_request r = (if ar_referer r \<noteq> [] then ar_referer r else app_request_text r)"

text \<open>The application data of a connection: none, a request, or data of another kind with its properties.\<close>

datatype app_data = NoData | HttpRequest app_request | OtherData "string \<Rightarrow> string"

datatype content_type = PLAIN | GZIP
datatype sub_app = UNKNOWN | DNS_app

record http2_stream =
  hs_content_encoding :: content_type
  hs_sub_app :: sub_app
  hs_request_headers :: "string list table"
  hs_response_headers :: "string list table"
  hs_domain :: string
  hs_hostname :: string

definition new_stream :: http2_stream where
  "new_stream = \<lparr>hs_content_encoding = PLAIN, hs_sub_app = UNKNOWN, hs_request_headers = [], hs_response_headers = [], hs_domain = [], hs_hostname = []\<rparr>"

datatype engine_status = START | MAGIC | OK_status | ERROR
datatype side = LEFT | RIGHT

text \<open>Exceptions that leave a function of the engine; one of the header decoder leaves behind the application data that were
  made before.\<close>

datatype engine_exn = Out_of_range | Decoder_out_of_range app_data | Uncaught hpack_exn | Bad_optional_access | Crash

record ('c, 'd) engine_ctx =
  ec_origin :: bool
  ec_ssl :: bool
  ec_kb_enabled :: bool
  ec_replacement_http :: bool
  ec_continuous :: "nat option"
  ec_caches :: "'c \<times> 'd"
  ec_kb :: kb
  ec_flow_pos :: nat
  ec_app :: app_data
  ec_streams :: "(int \<Rightarrow> http2_stream) option"
  ec_status :: engine_status

type_synonym flow = "(char \<times> bytes) list"
type_synonym state_data = "nat \<times> nat"

record ('c, 'd, 's) http_env =
  hv_dns :: "('c, 'd, 's) dns_env"
  hv_split :: "string \<Rightarrow> char \<Rightarrow> string list"
  hv_safe_val :: "string \<Rightarrow> int"
  hv_time_text :: string

abbreviation hv_buf :: "('c, 'd, 's) http_env \<Rightarrow> bytes \<Rightarrow> sbuf" where
  "hv_buf env \<equiv> de_buf (hv_dns env)"

definition get_or_throw :: "'a option \<Rightarrow> ('a \<Rightarrow> engine_exn + 'b) \<Rightarrow> engine_exn + 'b" where
  "get_or_throw r f = (case r of None \<Rightarrow> Inl Out_of_range | Some x \<Rightarrow> f x)"

section \<open>HTTP/1\<close>

definition ends_token :: "char \<Rightarrow> bool" where
  "ends_token c \<longleftrightarrow> c \<in> {CHR '' '', CHR 0x0D, CHR 0x0A}"

fun regex_search :: "(string \<Rightarrow> 'a option) \<Rightarrow> string \<Rightarrow> 'a option" where
  "regex_search m [] = m []"
| "regex_search m (c # s) = (case m (c # s) of Some r \<Rightarrow> Some r | None \<Rightarrow> regex_search m s)"

definition http_methods :: "string list" where
  "http_methods = [''GET'', ''POST'', ''HEAD'', ''PUT'', ''DELETE'', ''CONNECT'', ''OPTIONS'', ''TRACE'', ''PATCH'']"

definition http_req_get :: "string \<Rightarrow> (string \<times> string \<times> string) option" where
  "http_req_get s = (case List.find (\<lambda>m. take (length m) s = m) http_methods of
     None \<Rightarrow> None
   | Some m \<Rightarrow>
      let rest = dropWhile (\<lambda>c. c = CHR '' '') (drop (length m) s);
          inner = (\<lambda>c. \<not> ends_token c \<and> c \<noteq> CHR ''?''); uri = takeWhile inner rest; rest = dropWhile inner rest
      in if uri = [] then None
         else let rest = (case rest of c # cs \<Rightarrow> if c = CHR ''?'' then cs else rest | [] \<Rightarrow> [])
              in Some (m, uri, takeWhile (\<lambda>c. \<not> ends_token c) rest))"

definition http_req_field :: "string \<Rightarrow> string \<Rightarrow> string option" where
  "http_req_field name s = (if take (length name) s = name
     then let v = takeWhile (\<lambda>c. \<not> ends_token c) (dropWhile (\<lambda>c. c = CHR '' '') (drop (length name) s))
          in if v = [] then None else Some v
     else None)"

definition field_value :: "string \<Rightarrow> string \<Rightarrow> string option" where
  "field_value name data = (case str_find (name @ '' '') data 0 of
     None \<Rightarrow> None
   | Some ix \<Rightarrow> regex_search (http_req_field name) (take 128 (drop ix data)))"

definition ensure_request :: "app_data \<Rightarrow> app_data" where
  "ensure_request a = (case a of NoData \<Rightarrow> HttpRequest new_request | _ \<Rightarrow> a)"

definition on_request :: "(app_request \<Rightarrow> app_request) \<Rightarrow> app_data \<Rightarrow> app_data" where
  "on_request f a = (case a of HttpRequest r \<Rightarrow> HttpRequest (f r) | _ \<Rightarrow> a)"

definition find_referrer :: "string \<Rightarrow> app_data \<Rightarrow> app_data" where
  "find_referrer data a = (case field_value ''Referer:'' data of
     None \<Rightarrow> a | Some v \<Rightarrow> on_request (\<lambda>r. r\<lparr>ar_referer := v\<rparr>) (ensure_request a))"

definition find_host :: "string \<Rightarrow> app_data \<Rightarrow> app_data" where
  "find_host data a = (case field_value ''Host:'' data of
     None \<Rightarrow> a | Some v \<Rightarrow> on_request (\<lambda>r. r\<lparr>ar_host := v\<rparr>) (ensure_request a))"

definition find_method :: "string \<Rightarrow> app_data \<Rightarrow> app_data" where
  "find_method data a = (case regex_search http_req_get (take 128 data) of
     None \<Rightarrow> a
   | Some (m, uri, params) \<Rightarrow> on_request (\<lambda>r. r\<lparr>ar_method := m, ar_version := HTTP_1, ar_uri := uri, ar_params := params\<rparr>) (ensure_request a))"

definition parse_request :: "string \<Rightarrow> ('c, 'd) engine_ctx \<Rightarrow> ('c, 'd) engine_ctx" where
  "parse_request data ctx =
     (let a = find_referrer data (find_host data (find_method data (ec_app ctx)))
      in ctx\<lparr>ec_app := on_request (\<lambda>r. if ec_ssl ctx then r\<lparr>ar_proto := ''https://'', ar_is_ssl := True\<rparr> else r\<lparr>ar_proto := ''http://''\<rparr>) a,
             ec_replacement_http := True\<rparr>)"

definition v1_start :: "flow \<Rightarrow> ('c, 'd) engine_ctx \<Rightarrow> engine_exn + ('c, 'd) engine_ctx" where
  "v1_start fl ctx = (if \<not> ec_origin ctx then Inr ctx
     else if fl = [] then Inl Crash
     else let (sd, data) = last fl
          in if sd = CHR ''r'' then Inr (parse_request (chars data) ctx) else Inr ctx)"

section \<open>Streams of HTTP/2\<close>

definition find_header :: "string list table \<Rightarrow> string \<Rightarrow> string option" where
  "find_header t hdr = (case tab_get t hdr of Some vs \<Rightarrow> if vs \<noteq> [] then Some (last vs) else None | None \<Rightarrow> None)"

definition h2_request_header :: "string \<Rightarrow> http2_stream \<Rightarrow> string option" where
  "h2_request_header hdr s = find_header (hs_request_headers s) hdr"

definition h2_response_header :: "string \<Rightarrow> http2_stream \<Rightarrow> string option" where
  "h2_response_header hdr s = find_header (hs_response_headers s) hdr"

text \<open>The last two labels of the name, in reverse order and each but the first label of the name followed by a dot.\<close>

fun domain_text :: "nat \<Rightarrow> string list \<Rightarrow> string" where
  "domain_text tld_counter [] = []"
| "domain_text tld_counter (l # ls) = (if tld_counter + 1 > 2 then []
     else l @ (if ls \<noteq> [] then ''.'' else []) @ domain_text (tld_counter + 1) ls)"

definition stream_domain :: "(string \<Rightarrow> char \<Rightarrow> string list) \<Rightarrow> http2_stream \<Rightarrow> http2_stream \<times> string option" where
  "stream_domain split s = (if hs_domain s \<noteq> [] then (s, Some (hs_domain s))
     else case h2_request_header '':authority'' s of
       Some host \<Rightarrow> let d = domain_text 0 (rev (split host (CHR ''.''))) in (s\<lparr>hs_domain := d, hs_hostname := host\<rparr>, Some d)
     | None \<Rightarrow> (s, None))"

definition stream_hostname :: "(string \<Rightarrow> char \<Rightarrow> string list) \<Rightarrow> http2_stream \<Rightarrow> http2_stream \<times> string option" where
  "stream_hostname split s = (case stream_domain split s of
     (s, Some _) \<Rightarrow> (s, Some (hs_hostname s)) | (s, None) \<Rightarrow> (s, None))"

definition upd_stream :: "int \<Rightarrow> (http2_stream \<Rightarrow> http2_stream) \<Rightarrow> ('c, 'd) engine_ctx \<Rightarrow> ('c, 'd) engine_ctx" where
  "upd_stream i f ctx = ctx\<lparr>ec_streams := map_option (\<lambda>st. st(i := f (st i))) (ec_streams ctx)\<rparr>"

section \<open>Headers\<close>

text \<open>An observation for the knowledge base; the clean-up of a node may run past its queue.\<close>

definition kb_child :: "nat list \<Rightarrow> string \<Rightarrow> kb_value \<Rightarrow> kb \<Rightarrow> engine_exn + kb \<times> nat" where
  "kb_child held key v k = (case kb_at held (last held) key v k of None \<Rightarrow> Inl Crash | Some r \<Rightarrow> Inr r)"

definition kb_request :: "string \<Rightarrow> nat \<Rightarrow> nat list \<Rightarrow> http2_stream \<Rightarrow> kb \<Rightarrow> engine_exn + kb" where
  "kb_request time_text host_entry held s k = (case h2_request_header ''cookie'' s of
     None \<Rightarrow> Inr k
   | Some ck \<Rightarrow> result_bind (kb_child (held @ [host_entry]) ''cookie'' (KB_String []) k) (\<lambda>(k, cookies).
       map_sum id fst (kb_child (held @ [cookies]) (''@'' @ time_text) (KB_String ck) k)))"

definition kb_response :: "string \<Rightarrow> (string \<Rightarrow> int) \<Rightarrow> nat list \<Rightarrow> http2_stream \<Rightarrow> kb \<Rightarrow> engine_exn + kb" where
  "kb_response time_text safe_val held s k =
     result_bind (case h2_response_header '':status'' s of
       None \<Rightarrow> Inr k
     | Some code \<Rightarrow> result_bind (kb_child held '':status'' (KB_Int (safe_val code)) k) (\<lambda>(k, status).
         result_bind (kb_child (held @ [status]) ''counter'' (KB_Int 0) k) (\<lambda>(k, cnt). Inr (kb_increment cnt k)))) (\<lambda>k.
     case h2_response_header ''set-cookie'' s of
       None \<Rightarrow> Inr k
     | Some set_cookie \<Rightarrow> result_bind (kb_child held ''set-cookie'' (KB_String []) k) (\<lambda>(k, sc).
         map_sum id fst (kb_child (held @ [sc]) (''@'' @ time_text) (KB_String set_cookie) k)))"

text \<open>The nodes in hand are the root, the domain, the host and the path, in this order.  The path is read
  although only the host name is known to be there.\<close>

definition fill_kb :: "('c, 'd, 's) http_env \<Rightarrow> side \<Rightarrow> int \<Rightarrow> ('c, 'd) engine_ctx \<Rightarrow> engine_exn + ('c, 'd) engine_ctx" where
  "fill_kb env sd i ctx = (case ec_streams ctx of
     None \<Rightarrow> Inr ctx
   | Some st \<Rightarrow>
      let (s, domain) = stream_domain (hv_split env) (st i); (s, hostname) = stream_hostname (hv_split env) s;
          ctx = upd_stream i (\<lambda>_. s) ctx
      in case (domain, hostname) of
           (Some d, Some h) \<Rightarrow>
             result_bind (kb_child [0] d (KB_String []) (ec_kb ctx)) (\<lambda>(k, domain_entry).
             result_bind (kb_child [0, domain_entry] h (KB_String []) k) (\<lambda>(k, host_entry).
             case h2_request_header '':path'' s of
               None \<Rightarrow> Inl Bad_optional_access
             | Some path \<Rightarrow>
                result_bind (kb_child [0, domain_entry, host_entry] path (KB_String []) k) (\<lambda>(k, path_entry).
                let held = [0, domain_entry, host_entry, path_entry]
                in map_sum id (\<lambda>k. ctx\<lparr>ec_kb := k\<rparr>)
                     (if sd = LEFT then kb_request (hv_time_text env) host_entry held s k
                      else kb_response (hv_time_text env) (hv_safe_val env) held s k))))
         | _ \<Rightarrow> Inr ctx)"

definition detect_app :: "side \<Rightarrow> int \<Rightarrow> ('c, 'd) engine_ctx \<Rightarrow> engine_exn + ('c, 'd) engine_ctx" where
  "detect_app sd i ctx = (case ec_streams ctx of
     None \<Rightarrow> Inr ctx
   | Some st \<Rightarrow>
      if sd \<noteq> LEFT then Inr ctx
      else if h2_request_header '':path'' (st i) = Some ''/dns-query'' then Inr (upd_stream i (\<lambda>s. s\<lparr>hs_sub_app := DNS_app\<rparr>) ctx)
      else case ec_app ctx of
        HttpRequest r \<Rightarrow> Inr (if ar_properties r ''accept'' = ''application/dns-message''
                              then upd_stream i (\<lambda>s. s\<lparr>hs_sub_app := DNS_app\<rparr>) ctx else ctx)
      | _ \<Rightarrow> Inl Crash)"

definition touch_header :: "side \<Rightarrow> string \<Rightarrow> string \<Rightarrow> bool \<Rightarrow> http2_stream \<Rightarrow> http2_stream" where
  "touch_header sd hdr_name elem clear s =
     (let upd = (\<lambda>t. push_header hdr_name elem (if clear then tab_put hdr_name [] t else t))
      in if sd = LEFT then s\<lparr>hs_request_headers := upd (hs_request_headers s)\<rparr>
         else s\<lparr>hs_response_headers := upd (hs_response_headers s)\<rparr>)"

definition request_field :: "string \<Rightarrow> string \<Rightarrow> app_request \<Rightarrow> app_request" where
  "request_field hdr elem r =
     (if hdr = '':authority'' then r\<lparr>ar_host := elem, ar_method := [], ar_uri := [], ar_params := [], ar_referer := [], ar_proto := []\<rparr>
      else if hdr = '':scheme'' then r\<lparr>ar_proto := elem @ ''://''\<rparr>
      else if hdr = '':path'' then r\<lparr>ar_uri := elem\<rparr>
      else if hdr = '':method'' then r\<lparr>ar_method := elem\<rparr> else r)"

definition process_header_entry :: "side \<Rightarrow> int \<Rightarrow> string \<Rightarrow> string \<Rightarrow> ('c, 'd) engine_ctx \<Rightarrow> engine_exn + ('c, 'd) engine_ctx" where
  "process_header_entry sd i hdr elem ctx = (case ec_streams ctx of
     None \<Rightarrow> Inr ctx
   | Some _ \<Rightarrow>
      if sd = LEFT
      then let ctx = (if hdr = '':authority'' then upd_stream i (touch_header LEFT '':authority'' elem True) ctx else ctx)
           in case ec_app ctx of
             HttpRequest r \<Rightarrow>
               let r = request_field hdr elem r; r = r\<lparr>ar_properties := (ar_properties r)(hdr := elem)\<rparr>
               in Inr (upd_stream i (touch_header LEFT (c_str hdr) elem False) (ctx\<lparr>ec_app := HttpRequest r\<rparr>))
           | _ \<Rightarrow> Inl Crash
      else let ctx = (if hdr = ''content-encoding'' \<and> elem = ''gzip'' then upd_stream i (\<lambda>s. s\<lparr>hs_content_encoding := GZIP\<rparr>) ctx else ctx)
           in Inr (upd_stream i (touch_header RIGHT (c_str hdr) elem False) ctx))"

fun process_entries :: "side \<Rightarrow> int \<Rightarrow> (string \<times> string) list \<Rightarrow> ('c, 'd) engine_ctx \<Rightarrow> engine_exn + ('c, 'd) engine_ctx" where
  "process_entries sd i [] ctx = Inr ctx"
| "process_entries sd i ((hdr, elem) # es) ctx = result_bind (process_header_entry sd i hdr elem ctx) (process_entries sd i es)"

definition entries_of :: "string list table \<Rightarrow> (string \<times> string) list" where
  "entries_of t = concat (map (\<lambda>(hdr, vlist). map (Pair hdr) vlist) t)"

text \<open>Only one kind of exception of the decoder is caught; its headers are used all the same.\<close>

definition decode_fault :: "app_data \<Rightarrow> hpack_exn + bool \<Rightarrow> engine_exn + unit" where
  "decode_fault a r = (case r of Inr _ \<Rightarrow> Inr ()
     | Inl e \<Rightarrow> if e = hpack_exn.invalid_argument then Inr () else if e = hpack_exn.out_of_range then Inl (Decoder_out_of_range a)
               else if e = Undefined then Inl Crash else Inl (Uncaught e))"

definition process_headers :: "('c, 'd, 's) http_env \<Rightarrow> side \<Rightarrow> int \<Rightarrow> bytes \<Rightarrow> ('c, 'd) engine_ctx \<Rightarrow> engine_exn + ('c, 'd) engine_ctx" where
  "process_headers env sd i data ctx =
     (if data = [] then Inr ctx
      else let ctx = ctx\<lparr>ec_app := on_request (\<lambda>r. r\<lparr>ar_version := HTTP2\<rparr>) (ensure_request (ec_app ctx))\<rparr>;
               (dec, r) = hpack_decode data (new_decoder 4096)
           in result_bind (decode_fault (ec_app ctx) r) (\<lambda>_.
              result_bind (process_entries sd i (entries_of (dc_headers dec)) ctx) (\<lambda>ctx.
                   result_bind (detect_app sd i ctx) (\<lambda>ctx.
                   if ec_kb_enabled ctx then fill_kb env sd i ctx else Inr ctx))))"

section \<open>Data\<close>

definition app_property :: "string \<Rightarrow> app_data \<Rightarrow> engine_exn + string" where
  "app_property k a = (case a of NoData \<Rightarrow> Inl Crash | HttpRequest r \<Rightarrow> Inr (ar_properties r k) | OtherData ps \<Rightarrow> Inr (ps k))"

definition process_dns :: "('c, 'd, 's) http_env \<Rightarrow> int \<Rightarrow> bytes \<Rightarrow> ('c, 'd) engine_ctx \<Rightarrow> engine_exn + ('c, 'd) engine_ctx" where
  "process_dns env i data ctx = (case ec_streams ctx of
     None \<Rightarrow> Inr ctx
   | Some st \<Rightarrow>
      result_bind (case tab_get (hs_response_headers (st i)) ''content-type'' of
          Some vs \<Rightarrow> if vs = [] then Inl Crash else Inr (last vs) | None \<Rightarrow> Inr []) (\<lambda>content_type.
      result_bind (if content_type = [] then app_property ''accept'' (ec_app ctx) else Inr content_type) (\<lambda>content_type.
         if content_type = ''application/dns-message''
         then let ctx = ctx\<lparr>ec_continuous := Some 5000\<rparr>
              in case load (de_now (hv_dns env)) (hv_buf env data) empty_packet of
                   (p, None) \<Rightarrow> Inr ctx
                 | (p, Some n) \<Rightarrow>
                    Inr (ctx\<lparr>ec_caches := snd (dns_store (hv_dns env) \<lparr>rs_packet = p, rs_cached = None\<rparr> (ec_caches ctx)),
                             ec_app := on_request (\<lambda>r. r\<lparr>ar_sub_proto := ''dns''\<rparr>) (ec_app ctx)\<rparr>)
         else Inr ctx)))"

definition process_data :: "('c, 'd, 's) http_env \<Rightarrow> side \<Rightarrow> int \<Rightarrow> bytes \<Rightarrow> ('c, 'd) engine_ctx \<Rightarrow> engine_exn + ('c, 'd) engine_ctx" where
  "process_data env sd i data ctx = (if data = [] then Inr ctx
     else case ec_streams ctx of
       None \<Rightarrow> Inr ctx
     | Some st \<Rightarrow> if hs_sub_app (st i) = DNS_app \<and> sd = RIGHT then process_dns env i data ctx else Inr ctx)"

section \<open>Frames\<close>

definition frame_type_str :: "byte \<Rightarrow> string" where
  "frame_type_str t = (if t = 16 then ''priority-update'' else if t = 12 then ''origin'' else if t = 10 then ''altsvc''
     else if t = 9 then ''continuation'' else if t = 8 then ''window-update'' else if t = 7 then ''goaway'' else if t = 6 then ''ping''
     else if t = 5 then ''push-promise'' else if t = 4 then ''settings'' else if t = 3 then ''rst-stream'' else if t = 2 then ''priority''
     else if t = 1 then ''headers'' else if t = 0 then ''data'' else ''unknown'')"

definition magic :: string where
  "magic = ''PRI * HTTP/2.0'' @ [CHR 0x0D, CHR 0x0A, CHR 0x0D, CHR 0x0A] @ ''SM'' @ [CHR 0x0D, CHR 0x0A, CHR 0x0D, CHR 0x0A]"

definition magic_sz :: nat where
  "magic_sz = 24"

definition find_magic :: "('c, 'd, 's) http_env \<Rightarrow> bytes \<Rightarrow> engine_exn + nat" where
  "find_magic env frame = get_or_throw (sb_view (hv_buf env frame) 0 magic_sz) (\<lambda>v.
     Inr (if str_find magic (chars v) 0 \<noteq> None then magic_sz else 0))"

definition find_frame_sz :: "('c, 'd, 's) http_env \<Rightarrow> bytes \<Rightarrow> engine_exn + nat" where
  "find_frame_sz env frame = (let b = hv_buf env frame
     in if sb_size b < 4 then Inr 0
        else get_or_throw (sb_get8 b 0) (\<lambda>x. get_or_throw (sb_get8 b 1) (\<lambda>y. get_or_throw (sb_get8 b 2) (\<lambda>z.
             Inr (unat (join4 0 x y z))))))"

definition process_payload :: "('c, 'd, 's) http_env \<Rightarrow> side \<Rightarrow> byte \<Rightarrow> int \<Rightarrow> bytes \<Rightarrow> ('c, 'd) engine_ctx \<Rightarrow> engine_exn + ('c, 'd) engine_ctx" where
  "process_payload env sd typ i data ctx =
     (if typ = 0 then process_data env sd i data ctx
      else if typ = 1 then process_headers env sd i data ctx
      else Inr ctx)"

definition process_frame :: "('c, 'd, 's) http_env \<Rightarrow> side \<Rightarrow> bytes \<Rightarrow> ('c, 'd) engine_ctx \<Rightarrow> engine_exn + nat \<times> ('c, 'd) engine_ctx" where
  "process_frame env sd frame ctx = (let b = hv_buf env frame
     in if sb_size b < 9 then Inr (0, ctx)
        else result_bind (find_frame_sz env frame) (\<lambda>frame_sz.
          if frame_sz + 9 \<le> sb_size b
          then get_or_throw (sb_get8 b 3) (\<lambda>typ. get_or_throw (sb_get8 b 4) (\<lambda>flg. get_or_throw (sb_get32 b 5) (\<lambda>sid.
               get_or_throw (if flg AND 0x20 \<noteq> 0 then if sb_get32 b 9 = None \<or> sb_get8 b 13 = None then None else Some 5 else Some 0) (\<lambda>add_hdr.
               if frame_sz > 0
               then get_or_throw (sb_view b (9 + add_hdr) (nat ((int frame_sz - int add_hdr) mod 2 ^ 64))) (\<lambda>data.
                    map_sum id (Pair (9 + frame_sz)) (process_payload env sd typ (uint (ntohl sid)) data ctx))
               else Inr (9 + frame_sz, ctx)))))
          else Inr (0, ctx)))"

text \<open>The loop over the frames of a buffer.  The result is the context and the number of octets read; an access outside a
  frame or outside the tables of the decoder is caught and ends the loop.\<close>

definition range_caught :: "engine_exn \<Rightarrow> ('c, 'd) engine_ctx \<Rightarrow> ('c, 'd) engine_ctx option" where
  "range_caught e ctx = (case e of Out_of_range \<Rightarrow> Some ctx | Decoder_out_of_range a \<Rightarrow> Some (ctx\<lparr>ec_app := a\<rparr>) | _ \<Rightarrow> None)"

function run_frames :: "('c, 'd, 's) http_env \<Rightarrow> side \<Rightarrow> nat \<Rightarrow> bytes \<Rightarrow> nat \<Rightarrow> ('c, 'd) engine_ctx \<Rightarrow> engine_exn + nat \<times> ('c, 'd) engine_ctx" where
  "run_frames env sd limit frame tot ctx = (case process_frame env sd frame ctx of
     Inl e \<Rightarrow> (case range_caught e ctx of Some ctx \<Rightarrow> Inr (tot, ctx) | None \<Rightarrow> Inl e)
   | Inr (cur_off, ctx) \<Rightarrow>
      if cur_off = 0 then Inr (tot, ctx)
      else if cur_off > sb_size (hv_buf env frame) then Inr (tot + cur_off, ctx)
      else if tot + cur_off < limit
      then get_or_throw (sb_view (hv_buf env frame) cur_off (sb_size (hv_buf env frame) - cur_off)) (\<lambda>rest.
           run_frames env sd limit rest (tot + cur_off) ctx)
      else Inr (tot + cur_off, ctx))"
  by pat_completeness auto
termination by (relation "measure (\<lambda>(env, sd, limit, frame, tot, ctx). limit - tot)") auto

section \<open>The engine\<close>

definition load_prev_state :: "flow \<Rightarrow> state_data option \<Rightarrow> ('c, 'd) engine_ctx \<Rightarrow> nat" where
  "load_prev_state fl info ctx = (if \<not> ec_origin ctx \<or> ec_streams ctx = None then 0
     else case info of
       None \<Rightarrow> 0
     | Some (flow_size, processed) \<Rightarrow> if flow_size \<noteq> length fl then 0 else processed)"

definition save_state :: "flow \<Rightarrow> nat \<Rightarrow> state_data option" where
  "save_state fl processed = Some (length fl, processed)"

definition enter_magic :: "('c, 'd) engine_ctx \<Rightarrow> ('c, 'd) engine_ctx" where
  "enter_magic ctx = ctx\<lparr>ec_status := MAGIC,
     ec_streams := (case ec_streams ctx of None \<Rightarrow> Some (\<lambda>_. new_stream) | s \<Rightarrow> s)\<rparr>"

text \<open>The search for the connection preface: the octets to skip, and whether the engine returns at once.\<close>

definition magic_step :: "('c, 'd, 's) http_env \<Rightarrow> char \<Rightarrow> bytes \<Rightarrow> bytes \<Rightarrow> ('c, 'd) engine_ctx \<Rightarrow> engine_exn + nat \<times> bool \<times> ('c, 'd) engine_ctx" where
  "magic_step env sd h2_buffer starting_buffer ctx =
     (if sd = CHR ''r'' \<and> ec_status ctx = START
      then if ec_flow_pos ctx < 5 \<and> length h2_buffer \<ge> magic_sz
           then result_bind (find_magic env starting_buffer) (\<lambda>if_magic.
                Inr (if_magic, if_magic + 4 > length h2_buffer, if if_magic > 0 then enter_magic ctx else ctx))
           else Inr (0, False, ctx\<lparr>ec_status := MAGIC\<rparr>)
      else Inr (0, False, ctx))"

definition v2_start :: "('c, 'd, 's) http_env \<Rightarrow> flow \<Rightarrow> state_data option \<times> ('c, 'd) engine_ctx
    \<Rightarrow> engine_exn + state_data option \<times> ('c, 'd) engine_ctx" where
  "v2_start env fl st = (case st of (info, ctx) \<Rightarrow>
     if \<not> ec_origin ctx then Inr st
     else if fl = [] then Inl Crash
     else let (sd, h2_buffer) = last fl; starting_index = load_prev_state fl info ctx; b = hv_buf env h2_buffer
          in if starting_index \<ge> sb_size b then Inr st
             else get_or_throw (sb_view b starting_index (sb_size b - starting_index)) (\<lambda>starting_buffer.
                  result_bind (magic_step env sd h2_buffer starting_buffer ctx) (\<lambda>(if_magic, stop, ctx).
                  let info = (if if_magic > 0 then save_state fl (starting_index + if_magic) else info)
                  in if stop then Inr (info, ctx)
                     else get_or_throw (sb_view (hv_buf env starting_buffer) if_magic (sb_size (hv_buf env starting_buffer) - if_magic)) (\<lambda>frame.
                          map_sum id (\<lambda>(tot, ctx). (save_state fl (starting_index + if_magic + tot), ctx))
                            (run_frames env (if sd = CHR ''r'' then LEFT else RIGHT) (length starting_buffer - if_magic) frame 0 ctx)))))"

definition engine_run :: "('c, 'd, 's) http_env \<Rightarrow> string \<Rightarrow> flow \<Rightarrow> state_data option \<times> ('c, 'd) engine_ctx
    \<Rightarrow> engine_exn + state_data option \<times> ('c, 'd) engine_ctx" where
  "engine_run env name fl st = (if name = ''http1'' then map_sum id (Pair (fst st)) (v1_start fl (snd st))
     else if name = ''http2'' then v2_start env fl st else Inr st)"

declare run_frames.simps [simp del]

section \<open>Request lines\<close>

lemma method_at_front: "m \<in> set http_methods \<Longrightarrow> List.find (\<lambda>k. take (length k) (m @ s) = k) http_methods = Some m"
proof -
  assume m: "m \<in> set http_methods"
  have "list_all (\<lambda>m. list_all (\<lambda>k. take (length k) m = take (length m) k \<longrightarrow> k = m) http_methods) http_methods" by code_simp
  then have uniq: "k = m" if "k \<in> set http_methods" "take (length k) (m @ s) = k" for k
  proof -
    have "take (length m) (take (length k) (m @ s)) = take (length m) k" using that(2) by simp
    then have "take (length k) m = take (length m) k" by (simp add: min.commute) (simp add: take_append min_def split: if_splits)
    then show ?thesis using \<open>list_all _ http_methods\<close> m that(1) by (simp add: list_all_iff)
  qed
  have "List.find (\<lambda>k. take (length k) (m @ s) = k) http_methods \<noteq> None" using m by (auto simp: find_None_iff)
  then obtain k where k: "List.find (\<lambda>k. take (length k) (m @ s) = k) http_methods = Some k" by blast
  then have "k \<in> set http_methods" "take (length k) (m @ s) = k" by (auto simp: find_Some_iff)
  then show ?thesis using k uniq by simp
qed

lemma get_request_line:
  assumes "m \<in> set http_methods" "uri \<noteq> []" "\<forall>c\<in>set uri. \<not> ends_token c \<and> c \<noteq> CHR ''?''" "\<forall>c\<in>set params. \<not> ends_token c"
  shows "http_req_get (m @ '' '' @ uri @ ''?'' @ params @ '' '' @ rest) = Some (m, uri, params)"
proof -
  let ?in = "\<lambda>c. \<not> ends_token c \<and> c \<noteq> CHR ''?''"
  let ?tail = "CHR ''?'' # params @ CHR '' '' # rest"
  obtain u us where u: "uri = u # us" using assms(2) by (cases uri) auto
  have "u \<noteq> CHR '' ''" using assms(3) u by (auto simp: ends_token_def)
  then have d: "dropWhile (\<lambda>c. c = CHR '' '') (CHR '' '' # uri @ ?tail) = uri @ ?tail" using u by simp
  have t: "takeWhile ?in (uri @ ?tail) = uri" "dropWhile ?in (uri @ ?tail) = ?tail"
    using assms(3) by (simp_all add: takeWhile_append2 dropWhile_append2)
  have p: "takeWhile (\<lambda>c. \<not> ends_token c) (params @ CHR '' '' # rest) = params"
    using assms(4) by (simp add: takeWhile_append2 ends_token_def)
  show ?thesis using method_at_front[OF assms(1), of "CHR '' '' # uri @ ?tail"] d t p assms(2)
    by (simp add: http_req_get_def Let_def)
qed

text \<open>C12: A request line that fits into the first 128 octets gives its method, address and parameters.  The text of the request is
  then the address followed by the parameters, without the question mark between them.\<close>

theorem http1_request_line:
  assumes "m \<in> set http_methods" "uri \<noteq> []" "\<forall>c\<in>set uri. \<not> ends_token c \<and> c \<noteq> CHR ''?''" "\<forall>c\<in>set params. \<not> ends_token c"
    and "length m + length uri + length params + 3 \<le> 128"
  shows "\<exists>r. find_method (m @ '' '' @ uri @ ''?'' @ params @ '' '' @ rest) NoData = HttpRequest r
    \<and> ar_method r = m \<and> ar_uri r = uri \<and> ar_params r = params \<and> (uri \<noteq> ''/favicon.ico'' \<longrightarrow> app_request_text r = uri @ params)"
proof -
  define s where "s = m @ '' '' @ uri @ ''?'' @ params @ '' ''"
  have "take 128 (s @ rest) = s @ take (128 - length s) rest" using assms(5) by (subst take_append) (simp add: s_def)
  moreover have "http_req_get (s @ t) = Some (m, uri, params)" for t using get_request_line[OF assms(1-4), of t] by (simp add: s_def)
  moreover have "regex_search f t = Some x" if "f t = Some x" for f :: "string \<Rightarrow> (string \<times> string \<times> string) option" and t x
    using that by (cases t) simp_all
  ultimately have "regex_search http_req_get (take 128 (s @ rest)) = Some (m, uri, params)" by simp
  then have "find_method (s @ rest) NoData = HttpRequest (new_request\<lparr>ar_method := m, ar_version := HTTP_1, ar_uri := uri, ar_params := params\<rparr>)"
    by (simp add: find_method_def on_request_def ensure_request_def)
  then show ?thesis by (simp add: s_def app_request_text_def new_request_def)
qed

section \<open>Frames in a buffer\<close>

lemma buf_sel:
  assumes "env_buffers_ok (hv_dns env)"
  shows "sb_size (hv_buf env bs) = length bs"
    and "sb_get8 (hv_buf env bs) i = (if i < length bs then Some (bs ! i) else None)"
    and "sb_get32 (hv_buf env bs) i = (if i + 4 \<le> length bs then Some (join4 (bs ! (i + 3)) (bs ! (i + 2)) (bs ! (i + 1)) (bs ! i)) else None)"
    and "sb_view (hv_buf env bs) i n = (if i + n \<le> length bs then Some (take n (drop i bs)) else None)"
proof -
  have h: "holds (hv_buf env bs) bs" using assms by (simp add: env_buffers_ok_def)
  then have b: "buffer_ok (hv_buf env bs)" and s: "sb_size (hv_buf env bs) = length bs" by (simp_all add: holds_def)
  show "sb_size (hv_buf env bs) = length bs" by (rule s)
  show "sb_get8 (hv_buf env bs) i = (if i < length bs then Some (bs ! i) else None)"
    using buffer_ok_get(1)[OF b, of i] h by (simp add: s holds_def)
  show "sb_get32 (hv_buf env bs) i = (if i + 4 \<le> length bs then Some (join4 (bs ! (i + 3)) (bs ! (i + 2)) (bs ! (i + 1)) (bs ! i)) else None)"
    using buffer_ok_get(3)[OF b, of i] h by (simp add: s holds_def)
  show "sb_view (hv_buf env bs) i n = (if i + n \<le> length bs then Some (take n (drop i bs)) else None)"
    using buffer_ok_get(4)[OF b, of i n] holds_range[OF h, of i n] by (simp add: s)
qed

definition wire_size :: "bytes \<Rightarrow> nat" where
  "wire_size f = unat (join4 0 (f ! 0) (f ! 1) (f ! 2))"

definition wire_pad :: "bytes \<Rightarrow> nat" where
  "wire_pad f = (if f ! 4 AND 0x20 \<noteq> 0 then 5 else 0)"

definition wire_span :: "bytes \<Rightarrow> nat" where
  "wire_span f = nat ((int (wire_size f) - int (wire_pad f)) mod 2 ^ 64)"

lemma frame_cases:
  assumes "env_buffers_ok (hv_dns env)"
  shows "process_frame env sd f ctx =
    (if length f < 9 \<or> length f < wire_size f + 9 then Inr (0, ctx)
     else if wire_pad f = 5 \<and> length f < 14 then Inl Out_of_range
     else if wire_size f = 0 then Inr (9, ctx)
     else if length f < 9 + wire_pad f + wire_span f then Inl Out_of_range
     else map_sum id (Pair (9 + wire_size f))
       (process_payload env sd (f ! 3) (uint (join4 (f ! 5) (f ! 6) (f ! 7) (f ! 8))) (take (wire_span f) (drop (9 + wire_pad f) f)) ctx))"
proof (cases "length f < 9")
  case True
  then show ?thesis by (simp add: process_frame_def Let_def buf_sel[OF assms])
next
  case False
  have "find_frame_sz env f = Inr (wire_size f)"
    using False by (auto simp: find_frame_sz_def Let_def buf_sel[OF assms] get_or_throw_def wire_size_def)
  moreover have "wire_size f < 2 ^ LENGTH(32)" unfolding wire_size_def by (rule unsigned_less)
  then have "int (wire_size f) mod 18446744073709551616 = int (wire_size f)" by simp
  ultimately show ?thesis using False
    by (simp add: process_frame_def Let_def buf_sel[OF assms] get_or_throw_def wire_pad_def wire_span_def)
qed

lemma frame_zero:
  assumes "env_buffers_ok (hv_dns env)" "process_frame env sd f ctx = Inr (0, c)"
  shows "c = ctx"
  using assms(2) unfolding frame_cases[OF assms(1)]
  by (cases "process_payload env sd (f ! 3) (uint (join4 (f ! 5) (f ! 6) (f ! 7) (f ! 8))) (take (wire_span f) (drop (9 + wire_pad f) f)) ctx")
    (auto split: if_splits)

text \<open>What a complete frame does is not changed by the octets behind it.\<close>

lemma frame_append:
  assumes "env_buffers_ok (hv_dns env)" "process_frame env sd f ctx = r" "r \<noteq> Inl Out_of_range" "\<And>c. r \<noteq> Inr (0, c)"
  shows "process_frame env sd (f @ g) ctx = r" and "\<And>n c. r = Inr (n, c) \<Longrightarrow> n \<le> length f"
proof -
  have l: "9 \<le> length f" "wire_size f + 9 \<le> length f" using assms(2,4) unfolding frame_cases[OF assms(1)] by (auto split: if_splits)
  then have "f \<noteq> []" by auto
  then have w: "wire_size (f @ g) = wire_size f" "wire_pad (f @ g) = wire_pad f" "wire_span (f @ g) = wire_span f"
    using l by (simp_all add: wire_size_def wire_pad_def wire_span_def nth_append)
  have i: "(f @ g) ! 3 = f ! 3" "(f @ g) ! 5 = f ! 5" "(f @ g) ! 6 = f ! 6" "(f @ g) ! 7 = f ! 7" "(f @ g) ! 8 = f ! 8"
    using l by (simp_all add: nth_append)
  let ?p = "process_payload env sd (f ! 3) (uint (join4 (f ! 5) (f ! 6) (f ! 7) (f ! 8))) (take (wire_span f) (drop (9 + wire_pad f) f)) ctx"
  have c: "\<not> (wire_pad f = 5 \<and> length f < 14)"
    "if wire_size f = 0 then r = Inr (9, ctx) else 9 + wire_pad f + wire_span f \<le> length f \<and> map_sum id (Pair (9 + wire_size f)) ?p = r"
    using assms(2,3) l unfolding frame_cases[OF assms(1)] by (auto split: if_splits)
  then show "process_frame env sd (f @ g) ctx = r" using l unfolding frame_cases[OF assms(1)] w i by (auto split: if_splits)
  show "n \<le> length f" if "r = Inr (n, c)" for n c using c(2) l that by (cases ?p) (auto split: if_splits)
qed

lemma frame_prefix:
  assumes "env_buffers_ok (hv_dns env)" "process_frame env sd f ctx = Inr (n, c)" "0 < n"
  shows "n \<le> length f \<and> process_frame env sd (f @ g) ctx = Inr (n, c)"
  using frame_append[OF assms(1,2)] assms(3) by auto

text \<open>A block the decoder cannot read leaves the same application data when it is read again.\<close>

definition no_throw :: "engine_exn + 'x \<Rightarrow> bool" where
  "no_throw r \<longleftrightarrow> (\<forall>a. r \<noteq> Inl (Decoder_out_of_range a))"

lemma no_throw_simps [simp]: "no_throw (Inr x)" "no_throw (map_sum id g r) \<longleftrightarrow> no_throw r" "no_throw (Inl Crash)" "no_throw (Inl Bad_optional_access)"
  by (cases r; simp add: no_throw_def)+

lemma no_throw_bind [intro]: "no_throw r \<Longrightarrow> (\<And>x. no_throw (f x)) \<Longrightarrow> no_throw (result_bind r f)"
  by (cases r) (simp_all add: no_throw_def)

lemma no_throw_kb [simp]: "no_throw (kb_child held key v k)" "no_throw (kb_request t h held s k)" "no_throw (kb_response t g held s k)"
proof -
  show c: "no_throw (kb_child held key v k)" for held key v k by (simp add: kb_child_def split: option.splits)
  show "no_throw (kb_request t h held s k)"
    unfolding kb_request_def by (auto simp: c split: option.splits intro!: no_throw_bind)
  show "no_throw (kb_response t g held s k)"
    unfolding kb_response_def by (rule no_throw_bind) (auto simp: c split: option.splits intro!: no_throw_bind)
qed

lemma fill_kb_no_throw: "no_throw (fill_kb env sd i c)"
  unfolding fill_kb_def Let_def by (auto split: option.splits prod.splits intro!: no_throw_bind)

lemma entries_no_throw: "no_throw (process_entries sd i es c)"
proof (induction es arbitrary: c)
  case (Cons e es)
  have "no_throw (process_header_entry sd i h v c)" for h v
    by (auto simp: process_header_entry_def Let_def split: option.splits app_data.splits)
  then show ?case using Cons by (cases e) auto
qed simp

lemma detect_no_throw: "no_throw (detect_app sd i c)"
  by (auto simp: detect_app_def split: option.splits app_data.splits)

lemma data_no_throw: "no_throw (process_data env sd i data c)"
  by (auto simp: process_data_def process_dns_def app_property_def Let_def split: option.splits prod.splits app_data.splits intro!: no_throw_bind)

lemma headers_throw:
  assumes "process_headers env sd i data ctx = Inl (Decoder_out_of_range a)"
  shows "process_headers env sd i data (ctx\<lparr>ec_app := a\<rparr>) = Inl (Decoder_out_of_range a)"
proof -
  let ?a = "on_request (\<lambda>r. r\<lparr>ar_version := HTTP2\<rparr>) (ensure_request (ec_app ctx))"
  obtain d r where d: "hpack_decode data (new_decoder 4096) = (d, r)" by (cases "hpack_decode data (new_decoder 4096)")
  have ne: "data \<noteq> []" using assms by (auto simp: process_headers_def)
  have "no_throw (result_bind (process_entries sd i es c) (\<lambda>ctx. result_bind (detect_app sd i ctx) (\<lambda>ctx.
      if ec_kb_enabled ctx then fill_kb env sd i ctx else Inr ctx)))" for es c
    using entries_no_throw detect_no_throw fill_kb_no_throw by (auto intro!: no_throw_bind)
  then have "decode_fault ?a r = Inl (Decoder_out_of_range a)"
    using assms ne d by (cases "decode_fault ?a r") (simp_all add: process_headers_def Let_def no_throw_def)
  moreover from this have "a = ?a" by (auto simp: decode_fault_def split: sum.splits if_splits)
  moreover have "on_request (\<lambda>r. r\<lparr>ar_version := HTTP2\<rparr>) (ensure_request ?a) = ?a"
    by (auto simp: on_request_def ensure_request_def split: app_data.splits)
  ultimately show ?thesis using ne d by (simp add: process_headers_def Let_def)
qed

lemma frame_throw:
  assumes "env_buffers_ok (hv_dns env)" "process_frame env sd f ctx = Inl (Decoder_out_of_range a)"
  shows "process_frame env sd (f @ g) (ctx\<lparr>ec_app := a\<rparr>) = Inl (Decoder_out_of_range a)"
proof -
  let ?i = "uint (join4 (f ! 5) (f ! 6) (f ! 7) (f ! 8))" let ?d = "take (wire_span f) (drop (9 + wire_pad f) f)"
  have p: "process_payload env sd (f ! 3) ?i ?d ctx = Inl (Decoder_out_of_range a)"
    using assms(2) unfolding frame_cases[OF assms(1)]
    by (cases "process_payload env sd (f ! 3) ?i ?d ctx") (auto split: if_splits)
  then have "process_payload env sd (f ! 3) ?i ?d (ctx\<lparr>ec_app := a\<rparr>) = Inl (Decoder_out_of_range a)"
    using headers_throw[of env sd ?i ?d ctx a] data_no_throw[of env sd ?i ?d ctx]
    by (auto simp: process_payload_def no_throw_def split: if_splits)
  then have "process_frame env sd f (ctx\<lparr>ec_app := a\<rparr>) = Inl (Decoder_out_of_range a)"
    using assms(2) unfolding frame_cases[OF assms(1)] by (auto split: if_splits)
  then show ?thesis by (rule frame_append(1)[OF assms(1)]) simp_all
qed

text \<open>All frames of a buffer, counted from its start.\<close>

definition consume :: "('c, 'd, 's) http_env \<Rightarrow> side \<Rightarrow> bytes \<Rightarrow> ('c, 'd) engine_ctx \<Rightarrow> engine_exn + nat \<times> ('c, 'd) engine_ctx" where
  "consume env sd f ctx = run_frames env sd (length f) f 0 ctx"

abbreviation advance :: "nat \<Rightarrow> engine_exn + nat \<times> 'x \<Rightarrow> engine_exn + nat \<times> 'x" where
  "advance n r \<equiv> map_sum id (\<lambda>(m, c). (n + m, c)) r"

lemma map_sum_id [simp]: "map_sum id id r = r"
  by (cases r) simp_all

lemma advance_simps [simp]: "advance 0 r = r" "advance n (advance m r) = advance (n + m) r"
  by (cases r; auto)+

lemma run_step:
  assumes "env_buffers_ok (hv_dns env)" "length f + tot = limit"
  shows "run_frames env sd limit f tot ctx = (case process_frame env sd f ctx of
     Inl e \<Rightarrow> (case range_caught e ctx of Some c \<Rightarrow> Inr (tot, c) | None \<Rightarrow> Inl e)
   | Inr (n, c) \<Rightarrow> if n = 0 then Inr (tot, c)
       else if n < length f then run_frames env sd limit (drop n f) (tot + n) c else Inr (tot + n, c))"
proof -
  have "n \<le> length f" if "process_frame env sd f ctx = Inr (n, c)" for n c
    using frame_prefix[OF assms(1) that, of "[]"] by (cases n) auto
  then show ?thesis using assms(2)
    by (subst run_frames.simps) (auto simp: buf_sel[OF assms(1)] get_or_throw_def split: sum.splits prod.splits option.splits)
qed

lemma run_shift:
  assumes "env_buffers_ok (hv_dns env)"
  shows "length f + tot = limit \<Longrightarrow> run_frames env sd limit f tot ctx = advance tot (consume env sd f ctx)"
proof (induction "length f" arbitrary: f tot limit ctx rule: less_induct)
  case less
  have r: "n < length f \<Longrightarrow> 0 < n \<Longrightarrow> run_frames env sd limit (drop n f) (tot + n) c = advance (tot + n) (consume env sd (drop n f) c)"
    "n < length f \<Longrightarrow> 0 < n \<Longrightarrow> run_frames env sd (length f) (drop n f) n c = advance n (consume env sd (drop n f) c)" for n c
    using less by auto
  show ?case unfolding consume_def[of _ _ f] run_step[OF assms less.prems] run_step[OF assms, of f 0 "length f", simplified]
    using r by (auto split: sum.splits prod.splits option.splits)
qed

lemma consume_step:
  assumes "env_buffers_ok (hv_dns env)"
  shows "consume env sd f ctx = (case process_frame env sd f ctx of
     Inl e \<Rightarrow> (case range_caught e ctx of Some c \<Rightarrow> Inr (0, c) | None \<Rightarrow> Inl e)
   | Inr (n, c) \<Rightarrow> if n = 0 then Inr (0, c) else if n < length f then advance n (consume env sd (drop n f) c) else Inr (n, c))"
proof -
  have "run_frames env sd (length f) (drop n f) n c = advance n (consume env sd (drop n f) c)" if "n < length f" for n c
    using run_shift[OF assms, of "drop n f" n "length f"] that by simp
  then show ?thesis unfolding consume_def[of _ _ f] run_step[OF assms, of f 0 "length f", simplified]
    by (auto split: sum.splits prod.splits option.splits)
qed

text \<open>Reading a longer buffer is reading its first part and going on where that stopped.\<close>

lemma consume_append:
  assumes "env_buffers_ok (hv_dns env)"
  shows "consume env sd f ctx = Inr (n, c) \<Longrightarrow> n \<le> length f \<and> consume env sd (f @ g) ctx = advance n (consume env sd (drop n f @ g) c)"
proof (induction "length f" arbitrary: f n ctx c rule: less_induct)
  case less
  show ?case
  proof (cases "process_frame env sd f ctx")
    case (Inl e)
    then have c: "n = 0" "range_caught e ctx = Some c" using less.prems by (auto simp: consume_step[OF assms, of sd f] split: option.splits)
    then consider "c = ctx" | a where "e = Decoder_out_of_range a" "c = ctx\<lparr>ec_app := a\<rparr>" by (auto simp: range_caught_def split: engine_exn.splits)
    then show ?thesis
    proof cases
      case 1
      then show ?thesis using c(1) by simp
    next
      case (2 a)
      then have "process_frame env sd (f @ g) ctx = Inl e" "process_frame env sd (f @ g) c = Inl e"
        using Inl frame_append(1)[OF assms Inl] frame_throw[OF assms, of sd f ctx a g] by auto
      then show ?thesis using c(1) 2 by (simp add: consume_step[OF assms, of sd "f @ g"] range_caught_def)
    qed
  next
    case (Inr r)
    obtain m c1 where m: "r = (m, c1)" by (cases r)
    show ?thesis
    proof (cases "m = 0")
      case True
      then have "n = 0" "c = ctx" using less.prems Inr m frame_zero[OF assms] by (simp_all add: consume_step[OF assms, of sd f])
      then show ?thesis by simp
    next
      case False
      then have p: "m \<le> length f" "process_frame env sd (f @ g) ctx = Inr (m, c1)" using frame_prefix[OF assms, of sd f ctx m c1 g] Inr m by auto
      have empty: "consume env sd [] c1 = Inr (0, c1)" by (simp add: consume_step[OF assms, of sd "[]"] frame_cases[OF assms])
      have whole: "consume env sd (f @ g) ctx = advance m (consume env sd (drop m f @ g) c1)"
      proof (cases "m < length (f @ g)")
        case True
        then show ?thesis using False p by (simp add: consume_step[OF assms, of sd "f @ g"])
      next
        case whole: False
        then have "length g = 0" "m = length f" using p(1) unfolding length_append by linarith+
        then show ?thesis using False p empty by (simp add: consume_step[OF assms, of sd f])
      qed
      show ?thesis
      proof (cases "m < length f")
        case True
        then obtain k where k: "consume env sd (drop m f) c1 = Inr (k, c)" "n = m + k"
          using less.prems Inr m False by (cases "consume env sd (drop m f) c1") (auto simp: consume_step[OF assms, of sd f])
        have "k \<le> length (drop m f)" "consume env sd (drop m f @ g) c1 = advance k (consume env sd (drop k (drop m f) @ g) c)"
          using less.hyps[of "drop m f" c1 k c] True False k(1) by auto
        moreover have "drop k (drop m f) = drop (m + k) f" by (simp add: add.commute)
        ultimately have "consume env sd (f @ g) ctx = advance n (consume env sd (drop n f @ g) c)"
          unfolding whole k(2) by (simp only: advance_simps)
        then show ?thesis using \<open>k \<le> length (drop m f)\<close> k(2) True by simp
      next
        case False
        then have "n = m" "c = c1" using less.prems Inr m p(1) \<open>m \<noteq> 0\<close> by (simp_all add: consume_step[OF assms, of sd f])
        then show ?thesis using whole p(1) by simp
      qed
    qed
  qed
qed

section \<open>What the engine keeps\<close>

definition kept :: "('c, 'd) engine_ctx \<Rightarrow> ('c, 'd) engine_ctx \<Rightarrow> bool" where
  "kept c c' \<longleftrightarrow> ec_origin c' = ec_origin c \<and> ec_status c' = ec_status c \<and> (ec_streams c' = None \<longleftrightarrow> ec_streams c = None)"

lemma kept_refl [simp]: "kept c c"
  by (simp add: kept_def)

lemma kept_trans: "kept a b \<Longrightarrow> kept b c \<Longrightarrow> kept a c"
  by (simp add: kept_def)

lemma kept_updates [simp]:
  "kept c (upd_stream i f c') = kept c c'" "kept c (c'\<lparr>ec_app := a\<rparr>) = kept c c'" "kept c (c'\<lparr>ec_kb := k\<rparr>) = kept c c'"
  "kept c (c'\<lparr>ec_caches := cs\<rparr>) = kept c c'" "kept c (c'\<lparr>ec_continuous := n\<rparr>) = kept c c'"
  by (simp_all add: kept_def upd_stream_def)

lemma entry_keeps: "process_header_entry sd i hdr elem c = Inr c' \<Longrightarrow> kept c c'"
  by (auto simp: process_header_entry_def Let_def split: option.splits if_splits app_data.splits)

lemma entries_keep: "process_entries sd i es c = Inr c' \<Longrightarrow> kept c c'"
proof (induction es arbitrary: c)
  case (Cons e es)
  then show ?case by (cases e) (auto simp: result_bind_Inr_iff dest!: entry_keeps intro: kept_trans)
qed simp

lemma detect_keeps: "detect_app sd i c = Inr c' \<Longrightarrow> kept c c'"
  by (auto simp: detect_app_def split: option.splits if_splits app_data.splits)

lemma map_sum_Inr_iff: "map_sum id f r = Inr y \<longleftrightarrow> (\<exists>x. r = Inr x \<and> y = f x)"
  by (cases r) auto

lemma kb_keeps: "fill_kb env sd i c = Inr c' \<Longrightarrow> kept c c'"
  by (auto simp: fill_kb_def Let_def result_bind_Inr_iff map_sum_Inr_iff split: option.splits if_splits prod.splits)

lemma headers_keep: "process_headers env sd i data c = Inr c' \<Longrightarrow> kept c c'"
proof -
  assume p: "process_headers env sd i data c = Inr c'"
  let ?c = "c\<lparr>ec_app := on_request (\<lambda>r. r\<lparr>ar_version := HTTP2\<rparr>) (ensure_request (ec_app c))\<rparr>"
  have k: "kept c ?c" by simp
  show ?thesis
  proof (cases "data = []")
    case True
    then show ?thesis using p by (simp add: process_headers_def)
  next
    case False
    then obtain es c1 c2 where "process_entries sd i es ?c = Inr c1" "detect_app sd i c1 = Inr c2"
      "(if ec_kb_enabled c2 then fill_kb env sd i c2 else Inr c2) = Inr c'"
      using p by (auto simp: process_headers_def Let_def result_bind_Inr_iff split: prod.splits)
    then have "kept ?c c1" "kept c1 c2" "kept c2 c'" using kb_keeps[of env sd i c2 c'] by (auto dest: entries_keep detect_keeps split: if_splits)
    then show ?thesis using k kept_trans by blast
  qed
qed

lemma data_keeps: "process_data env sd i data c = Inr c' \<Longrightarrow> kept c c'"
  by (auto simp: process_data_def process_dns_def Let_def result_bind_Inr_iff split: option.splits if_splits prod.splits)

lemma payload_keeps: "process_payload env sd typ i data c = Inr c' \<Longrightarrow> kept c c'"
  using data_keeps[of env sd i data c c'] headers_keep[of env sd i data c c'] by (auto simp: process_payload_def split: if_splits)

lemma frame_keeps:
  assumes "env_buffers_ok (hv_dns env)"
  shows "process_frame env sd f c = Inr (n, c') \<Longrightarrow> kept c c'"
  unfolding frame_cases[OF assms] by (auto simp: map_sum_Inr_iff split: if_splits dest: payload_keeps)

lemma consume_keeps:
  assumes "env_buffers_ok (hv_dns env)"
  shows "consume env sd f c = Inr (n, c') \<Longrightarrow> kept c c'"
proof (induction "length f" arbitrary: f n c rule: less_induct)
  case less
  show ?case
  proof (cases "process_frame env sd f c")
    case (Inl e)
    then have "range_caught e c = Some c'" using less.prems by (auto simp: consume_step[OF assms, of sd f] split: option.splits)
    then show ?thesis by (auto simp: range_caught_def split: engine_exn.splits)
  next
    case (Inr r)
    obtain m c1 where m: "r = (m, c1)" by (cases r)
    then have k: "kept c c1" using frame_keeps[OF assms, of sd f c m c1] Inr by simp
    consider "c' = c1" | k where "0 < m" "m < length f" "consume env sd (drop m f) c1 = Inr (k, c')"
      using less.prems Inr m by (auto simp: consume_step[OF assms, of sd f] map_sum_Inr_iff split: if_splits)
    then show ?thesis
    proof cases
      case 1
      then show ?thesis using k by simp
    next
      case (2 j)
      then have "kept c1 c'" using less.hyps[of "drop m f" c1 j] by simp
      then show ?thesis using k kept_trans by blast
    qed
  qed
qed

section \<open>Growing data\<close>

text \<open>Past the preface a run of the engine reads the frames behind the saved position.\<close>

definition started :: "char \<Rightarrow> ('c, 'd) engine_ctx \<Rightarrow> bool" where
  "started sd ctx \<longleftrightarrow> ec_origin ctx \<and> ec_streams ctx \<noteq> None \<and> (sd \<noteq> CHR ''r'' \<or> ec_status ctx \<noteq> START)"

lemma kept_started: "kept c c' \<Longrightarrow> started sd c' = started sd c"
  by (simp add: kept_def started_def)

abbreviation side_of :: "char \<Rightarrow> side" where
  "side_of sd \<equiv> (if sd = CHR ''r'' then LEFT else RIGHT)"

definition position :: "nat \<Rightarrow> state_data option \<Rightarrow> nat" where
  "position len info = (case info of None \<Rightarrow> 0 | Some (flow_size, processed) \<Rightarrow> if flow_size \<noteq> len then 0 else processed)"

lemma start_started:
  assumes "env_buffers_ok (hv_dns env)" "started sd ctx"
  shows "v2_start env (fl @ [(sd, D)]) (info, ctx) =
    (let p = position (length fl + 1) info
     in if length D \<le> p then Inr (info, ctx)
        else map_sum id (\<lambda>(n, c). (Some (length fl + 1, p + n), c)) (consume env (side_of sd) (drop p D) ctx))"
proof -
  let ?p = "position (length fl + 1) info"
  have p: "load_prev_state (fl @ [(sd, D)]) info ctx = ?p"
    using assms(2) by (auto simp: load_prev_state_def position_def started_def split: option.splits)
  have m: "magic_step env sd D x ctx = Inr (0, False, ctx)" for x using assms(2) by (auto simp: magic_step_def started_def)
  show ?thesis
  proof (cases "length D \<le> ?p")
    case True
    then show ?thesis using assms(2) by (simp add: v2_start_def p buf_sel[OF assms(1)] started_def Let_def)
  next
    case False
    then show ?thesis using assms(2)
      by (simp add: v2_start_def p buf_sel[OF assms(1)] started_def Let_def get_or_throw_def m consume_def save_state_def)
  qed
qed

text \<open>C9: It does not matter how the data of a flow arrive: past the connection preface, running the HTTP/2 engine on a part
  of the data and again when more has been appended leads to the same streams, request, caches and position
  as one run on all of the data, wherever the cut falls.\<close>

theorem http2_chunks_equal_whole:
  assumes "env_buffers_ok (hv_dns env)" "started sd ctx" "v2_start env (fl @ [(sd, D1)]) (info, ctx) = Inr (info1, ctx1)"
  shows "v2_start env (fl @ [(sd, D1 @ D2)]) (info1, ctx1) = v2_start env (fl @ [(sd, D1 @ D2)]) (info, ctx)"
proof -
  let ?len = "length fl + 1" and ?s = "side_of sd" let ?p = "position ?len info"
  show ?thesis
  proof (cases "length D1 \<le> ?p")
    case True
    then show ?thesis using assms(3) start_started[OF assms(1,2), of fl D1 info] by (simp add: Let_def)
  next
    case False
    then obtain n where n: "consume env ?s (drop ?p D1) ctx = Inr (n, ctx1)" "info1 = Some (?len, ?p + n)"
      using assms(3) start_started[OF assms(1,2), of fl D1 info] by (auto simp: Let_def map_sum_Inr_iff)
    have st: "started sd ctx1" using kept_started[OF consume_keeps[OF assms(1) n(1)]] assms(2) by simp
    have q: "position ?len info1 = ?p + n" by (simp add: n(2) position_def)
    have l: "n \<le> length (drop ?p D1)"
      and c: "consume env ?s (drop ?p D1 @ D2) ctx = advance n (consume env ?s (drop n (drop ?p D1) @ D2) ctx1)"
      using consume_append[OF assms(1) n(1), of D2] by auto
    have d: "drop ?p (D1 @ D2) = drop ?p D1 @ D2" "drop (?p + n) (D1 @ D2) = drop n (drop ?p D1) @ D2"
      using False l by (simp_all add: add.commute)
    have empty: "consume env ?s [] c = Inr (0, c)" for c by (simp add: consume_step[OF assms(1), of ?s "[]"] frame_cases[OF assms(1)])
    have whole: "v2_start env (fl @ [(sd, D1 @ D2)]) (info, ctx)
        = map_sum id (\<lambda>(k, c). (Some (?len, ?p + n + k), c)) (consume env ?s (drop n (drop ?p D1) @ D2) ctx1)"
      unfolding start_started[OF assms(1,2)] Let_def d(1) c using False
      by (cases "consume env ?s (drop n (drop ?p D1) @ D2) ctx1") (auto simp: add.assoc)
    show ?thesis
    proof (cases "length (D1 @ D2) \<le> ?p + n")
      case True
      then have "drop (?p + n) (D1 @ D2) = []" by (rule drop_all)
      then have "drop n (drop ?p D1) @ D2 = []" unfolding d(2) .
      then show ?thesis unfolding whole start_started[OF assms(1) st] Let_def q using True by (simp add: empty n(2))
    next
      case more: False
      then show ?thesis unfolding whole start_started[OF assms(1) st] Let_def q d(2) by (auto simp: add.assoc)
    qed
  qed
qed

section \<open>Requests from header blocks\<close>

lemma received_table:
  "distinct (map fst hs) \<Longrightarrow> \<forall>h\<in>set hs. tab_get t (fst h) = None \<Longrightarrow>
    tab_get (fold (\<lambda>h. push_header (fst h) (snd h)) hs t) n = (case map_of hs n of Some v \<Rightarrow> Some [v] | None \<Rightarrow> tab_get t n)"
proof (induction hs arbitrary: t)
  case (Cons h hs)
  have p: "tab_get (push_header (fst h) (snd h) t) k = (if k = fst h then Some [snd h] else tab_get t k)" for k
    using Cons.prems(2) by (simp add: push_header_def)
  have new: "fst h \<notin> fst ` set hs" using Cons.prems(1) by simp
  have "tab_get (push_header (fst h) (snd h) t) (fst g) = None" if "g \<in> set hs" for g
  proof -
    have "fst g \<noteq> fst h" using new imageI[OF that, of fst] by metis
    then show ?thesis using Cons.prems(2) that by (simp add: p)
  qed
  then have "tab_get (fold (\<lambda>h. push_header (fst h) (snd h)) hs (push_header (fst h) (snd h) t)) n
      = (case map_of hs n of Some v \<Rightarrow> Some [v] | None \<Rightarrow> tab_get (push_header (fst h) (snd h) t) n)"
    using Cons.prems(1) by (intro Cons.IH) auto
  moreover have "map_of hs (fst h) = None" using new by (simp add: map_of_eq_None_iff)
  ultimately show ?case using p[of n] by (cases h) (auto split: option.splits)
qed simp

lemma received_ok: "tab_ok t \<Longrightarrow> tab_ok (fold (\<lambda>h. push_header (fst h) (snd h)) hs t)"
  by (induction hs arbitrary: t) (auto simp: push_header_def tab_ok_put)

lemma entries_single:
  "\<forall>e\<in>set t. \<exists>v. snd e = [v] \<Longrightarrow> map fst (entries_of t) = map fst t \<and> (\<forall>n. map_of (entries_of t) n = map_option hd (map_of t n))"
proof (induction t)
  case (Cons e t)
  then obtain n v where "e = (n, [v])" by (cases e) auto
  then show ?case using Cons by (auto simp: entries_of_def)
qed (simp add: entries_of_def)

text \<open>The entries of a block with different names, in the order the engine looks at them.\<close>

lemma block_entries:
  assumes "distinct (map fst hs)"
  shows "sorted (map fst (entries_of (fold (\<lambda>h. push_header (fst h) (snd h)) hs [])))"
    and "distinct (map fst (entries_of (fold (\<lambda>h. push_header (fst h) (snd h)) hs [])))"
    and "map_of (entries_of (fold (\<lambda>h. push_header (fst h) (snd h)) hs [])) n = map_of hs n"
proof -
  let ?t = "fold (\<lambda>h. push_header (fst h) (snd h)) hs []"
  have g: "tab_get ?t n = (case map_of hs n of Some v \<Rightarrow> Some [v] | None \<Rightarrow> None)" for n
    using received_table[OF assms, of "[]" n] by (simp add: tab_get_def split: option.splits)
  have ok: "tab_ok ?t" by (rule received_ok) simp
  have "\<exists>v. snd e = [v]" if "e \<in> set ?t" for e
  proof -
    have "map_of ?t (fst e) = Some (snd e)" using that ok by (simp add: tab_ok_def)
    then show ?thesis using g[of "fst e"] by (auto simp: tab_get_def split: option.splits)
  qed
  then have e: "map fst (entries_of ?t) = map fst ?t" "map_of (entries_of ?t) n = map_option hd (map_of ?t n)" for n
    using entries_single[of ?t] by auto
  show "sorted (map fst (entries_of ?t))" "distinct (map fst (entries_of ?t))" using ok by (simp_all add: e(1) tab_ok_def)
  show "map_of (entries_of ?t) n = map_of hs n" using g[of n] by (simp add: e(2) tab_get_def split: option.splits)
qed

definition request_entry :: "string \<times> string \<Rightarrow> app_request \<Rightarrow> app_request" where
  "request_entry e r = (let r = request_field (fst e) (snd e) r in r\<lparr>ar_properties := (ar_properties r)(fst e := snd e)\<rparr>)"

lemma upd_stream_sel [simp]:
  "ec_app (upd_stream i f c) = ec_app c" "ec_kb_enabled (upd_stream i f c) = ec_kb_enabled c" "ec_streams (upd_stream i f c) = None \<longleftrightarrow> ec_streams c = None"
  "ec_kb (upd_stream i f c) = ec_kb c"
  by (simp_all add: upd_stream_def)

text \<open>The stream knows the path of its request.\<close>

definition path_known :: "int \<Rightarrow> ('c, 'd) engine_ctx \<Rightarrow> bool" where
  "path_known i c \<longleftrightarrow> (case ec_streams c of None \<Rightarrow> False | Some st \<Rightarrow> h2_request_header '':path'' (st i) \<noteq> None)"

lemma path_touched:
  "h2_request_header '':path'' (touch_header LEFT n v b s) = None \<longleftrightarrow> n \<noteq> '':path'' \<and> h2_request_header '':path'' s = None"
  by (auto simp: touch_header_def Let_def h2_request_header_def find_header_def push_header_def split: option.splits)

lemma path_known_upd:
  "path_known i (c\<lparr>ec_app := a\<rparr>) = path_known i c"
  "path_known i (upd_stream i (touch_header LEFT n v b) c) \<longleftrightarrow> ec_streams c \<noteq> None \<and> (n = '':path'' \<or> path_known i c)"
  "path_known i (upd_stream i (\<lambda>s. s\<lparr>hs_sub_app := x\<rparr>) c) = path_known i c"
proof -
  show "path_known i (upd_stream i (touch_header LEFT n v b) c) \<longleftrightarrow> ec_streams c \<noteq> None \<and> (n = '':path'' \<or> path_known i c)"
    using path_touched[of n v b] by (cases "ec_streams c") (simp_all add: path_known_def upd_stream_def del: not_None_eq)
qed (simp_all add: path_known_def upd_stream_def h2_request_header_def split: option.split)

lemma entries_request:
  "ec_streams c \<noteq> None \<Longrightarrow> ec_app c = HttpRequest r \<Longrightarrow>
    \<exists>c'. process_entries LEFT i es c = Inr c' \<and> ec_streams c' \<noteq> None \<and> ec_app c' = HttpRequest (fold request_entry es r) \<and> ec_kb_enabled c' = ec_kb_enabled c
      \<and> ec_kb c' = ec_kb c \<and> ('':path'' \<in> fst ` set es \<or> path_known i c \<longrightarrow> path_known i c')"
proof (induction es arbitrary: c r)
  case (Cons e es)
  let ?c = "if fst e = '':authority'' then upd_stream i (touch_header LEFT '':authority'' (snd e) True) c else c"
  let ?c1 = "upd_stream i (touch_header LEFT (c_str (fst e)) (snd e) False) (?c\<lparr>ec_app := HttpRequest (request_entry e r)\<rparr>)"
  have a: "ec_app ?c = HttpRequest r" "ec_streams ?c \<noteq> None" "ec_kb_enabled ?c = ec_kb_enabled c" "ec_kb ?c = ec_kb c"
    using Cons.prems by (simp_all add: upd_stream_def)
  obtain st where st: "ec_streams c = Some st" using Cons.prems(1) by auto
  have p: "process_header_entry LEFT i (fst e) (snd e) c = Inr ?c1"
    unfolding process_header_entry_def Let_def st option.case a(1) request_entry_def by simp
  have "ec_streams ?c1 \<noteq> None" "ec_app ?c1 = HttpRequest (request_entry e r)" "ec_kb_enabled ?c1 = ec_kb_enabled c" "ec_kb ?c1 = ec_kb c"
    using a by (simp_all add: upd_stream_def)
  moreover have "path_known i ?c1" if "fst e = '':path'' \<or> path_known i c"
    using that Cons.prems(1) by (cases "fst e = '':authority''") (auto simp: path_known_upd c_str_def simp del: not_None_eq)
  ultimately show ?case using Cons.IH[of ?c1 "request_entry e r"] p by (cases e) auto
qed simp

lemma request_entry_sel:
  "ar_host (request_entry e r) = (if fst e = '':authority'' then snd e else ar_host r)"
  "ar_params (request_entry e r) = (if fst e = '':authority'' then [] else ar_params r)"
  "ar_referer (request_entry e r) = (if fst e = '':authority'' then [] else ar_referer r)"
  "ar_method (request_entry e r) = (if fst e = '':authority'' then [] else if fst e = '':method'' then snd e else ar_method r)"
  "ar_uri (request_entry e r) = (if fst e = '':authority'' then [] else if fst e = '':path'' then snd e else ar_uri r)"
  "ar_proto (request_entry e r) = (if fst e = '':authority'' then [] else if fst e = '':scheme'' then snd e @ ''://'' else ar_proto r)"
  "ar_version (request_entry e r) = ar_version r"
  "ar_sub_proto (request_entry e r) = ar_sub_proto r"
  by (simp_all add: request_entry_def request_field_def)

lemma version_kept: "ar_version (fold request_entry es r) = ar_version r" "ar_sub_proto (fold request_entry es r) = ar_sub_proto r"
  by (induction es arbitrary: r) (simp_all add: request_entry_sel)

text \<open>What the entries behind the authority set: a field that no later entry names again.\<close>

lemma field_kept:
  assumes "\<And>e r. fst e \<noteq> '':authority'' \<Longrightarrow> f (request_entry e r) = f r"
  shows "'':authority'' \<notin> fst ` set es \<Longrightarrow> f (fold request_entry es r) = f r"
proof (induction es arbitrary: r)
  case (Cons e es)
  then have "fst e \<noteq> '':authority''" by auto
  then show ?case using Cons by (simp add: assms)
qed simp

lemma field_set:
  assumes "\<And>e r. fst e \<noteq> '':authority'' \<Longrightarrow> f (request_entry e r) = (if fst e = n then g (snd e) else f r)"
  shows "'':authority'' \<notin> fst ` set es \<Longrightarrow> distinct (map fst es) \<Longrightarrow>
    f (fold request_entry es r) = (case map_of es n of Some v \<Rightarrow> g v | None \<Rightarrow> f r)"
proof (induction es arbitrary: r)
  case (Cons e es)
  have "map_of es (fst e) = None" using Cons.prems(2) by (simp add: map_of_eq_None_iff)
  then show ?case using Cons assms[of e r] by (cases e) (auto split: option.splits)
qed simp

lemma authority_first: "('':authority'' :: string) < '':method''" "('':authority'' :: string) < '':path''" "('':authority'' :: string) < '':scheme''"
  by (simp_all add: less_char_def)

lemma pseudo_headers:
  assumes "sorted (map fst es)" "distinct (map fst es)" "map_of es '':authority'' = Some a"
    and "map_of es '':method'' = Some m" "map_of es '':path'' = Some p" "map_of es '':scheme'' = Some s"
  shows "ar_host (fold request_entry es r) = a" "ar_params (fold request_entry es r) = []" "ar_referer (fold request_entry es r) = []"
    "ar_method (fold request_entry es r) = m" "ar_uri (fold request_entry es r) = p" "ar_proto (fold request_entry es r) = s @ ''://''"
proof -
  obtain xs ys where es: "es = xs @ ('':authority'', a) # ys" using map_of_SomeD[OF assms(3)] by (auto dest: split_list)
  have later: "map_of ys n = map_of es n" if "'':authority'' < n" for n
  proof -
    have "n \<notin> fst ` set xs" using assms(1) that by (auto simp: es sorted_append)
    then have "map_of xs n = None" by (simp add: map_of_eq_None_iff)
    moreover have "n \<noteq> '':authority''" using that by auto
    ultimately show ?thesis by (simp add: es map_add_def split: option.splits)
  qed
  have y: "'':authority'' \<notin> fst ` set ys" "distinct (map fst ys)" using assms(2) by (auto simp: es)
  let ?r = "request_entry ('':authority'', a) (fold request_entry xs r)"
  have f: "fold request_entry es r = fold request_entry ys ?r" by (simp add: es)
  have "ar_host ?r = a" "ar_params ?r = []" "ar_referer ?r = []" by (simp_all add: request_entry_sel)
  then show "ar_host (fold request_entry es r) = a" "ar_params (fold request_entry es r) = []" "ar_referer (fold request_entry es r) = []"
    unfolding f using field_kept[OF _ y(1), of ar_host ?r] field_kept[OF _ y(1), of ar_params ?r] field_kept[OF _ y(1), of ar_referer ?r]
    by (simp_all add: request_entry_sel)
  show "ar_method (fold request_entry es r) = m"
    unfolding f using field_set[OF _ y, of ar_method "'':method''" "\<lambda>v. v" ?r] later[OF authority_first(1)] assms(4) by (simp add: request_entry_sel)
  show "ar_uri (fold request_entry es r) = p"
    unfolding f using field_set[OF _ y, of ar_uri "'':path''" "\<lambda>v. v" ?r] later[OF authority_first(2)] assms(5) by (simp add: request_entry_sel)
  show "ar_proto (fold request_entry es r) = s @ ''://''"
    unfolding f using field_set[OF _ y, of ar_proto "'':scheme''" "\<lambda>v. v @ ''://''" ?r] later[OF authority_first(3)] assms(6)
    by (simp add: request_entry_sel)
qed

lemma detect_request:
  assumes "ec_streams c \<noteq> None" "ec_app c = HttpRequest r"
  shows "\<exists>c'. detect_app LEFT i c = Inr c' \<and> (c' = c \<or> c' = upd_stream i (\<lambda>s. s\<lparr>hs_sub_app := DNS_app\<rparr>) c)"
  using assms by (auto simp: detect_app_def)

text \<open>The observations of a request need room for at most five more elements in the knowledge base.\<close>

lemma kb_child_room: "kb_room (Suc s) k \<Longrightarrow> \<exists>k' n. kb_child held key v k = Inr (k', n) \<and> kb_room s k'"
  using kb_at_room[of s k held "last held" key v] by (auto simp: kb_child_def)

lemma kb_request_room:
  assumes "kb_room 2 k"
  shows "\<exists>k'. kb_request tt h held s k = Inr k'"
proof (cases "h2_request_header ''cookie'' s")
  case (Some ck)
  obtain k1 n where k1: "kb_child (held @ [h]) ''cookie'' (KB_String []) k = Inr (k1, n)" "kb_room (Suc 0) k1"
    using kb_child_room[of "Suc 0" k "held @ [h]" "''cookie''" "KB_String []"] assms by (auto simp: numeral_2_eq_2)
  then show ?thesis using kb_child_room[OF k1(2), of "held @ [n]" "''@'' @ tt" "KB_String ck"] Some by (auto simp: kb_request_def)
qed (simp add: kb_request_def)

lemma stream_domain_headers: "hs_request_headers (fst (stream_domain split s)) = hs_request_headers s"
  by (simp add: stream_domain_def Let_def split: option.split)

lemma stream_hostname_split: "stream_hostname split s = (fst (stream_domain split s), map_option (\<lambda>_. hs_hostname (fst (stream_domain split s))) (snd (stream_domain split s)))"
  by (cases "stream_domain split s") (simp add: stream_hostname_def split: option.split)

lemma fill_kb_request:
  assumes "path_known i ctx" "kb_room 5 (ec_kb ctx)"
  shows "\<exists>ctx'. fill_kb env LEFT i ctx = Inr ctx' \<and> ec_app ctx' = ec_app ctx"
proof -
  obtain st where st: "ec_streams ctx = Some st" "h2_request_header '':path'' (st i) \<noteq> None" using assms(1) by (auto simp: path_known_def split: option.splits)
  obtain s1 d where s1: "stream_domain (hv_split env) (st i) = (s1, d)" by fastforce
  obtain s2 h where s2: "stream_hostname (hv_split env) s1 = (s2, h)" by fastforce
  have "hs_request_headers s2 = hs_request_headers (st i)"
    using s1 s2 stream_domain_headers[of "hv_split env" "st i"] stream_domain_headers[of "hv_split env" s1] by (simp add: stream_hostname_split)
  then obtain p where p: "h2_request_header '':path'' s2 = Some p" using st(2) by (auto simp: h2_request_header_def)
  show ?thesis
  proof (cases "\<exists>d' h'. d = Some d' \<and> h = Some h'")
    case True
    then obtain d' h' where dh: "d = Some d'" "h = Some h'" by blast
    obtain k1 n1 where k1: "kb_child [0] d' (KB_String []) (ec_kb ctx) = Inr (k1, n1)" "kb_room 4 k1"
      using kb_child_room[of 4 "ec_kb ctx"] assms(2) by fastforce
    obtain k2 n2 where k2: "kb_child [0, n1] h' (KB_String []) k1 = Inr (k2, n2)" "kb_room 3 k2"
      using kb_child_room[of 3 k1] k1(2) by fastforce
    obtain k3 n3 where k3: "kb_child [0, n1, n2] p (KB_String []) k2 = Inr (k3, n3)" "kb_room 2 k3"
      using kb_child_room[of 2 k2] k2(2) by fastforce
    obtain k4 where "kb_request (hv_time_text env) n2 [0, n1, n2, n3] s2 k3 = Inr k4" using kb_request_room[OF k3(2)] by blast
    then show ?thesis using st(1) s1 s2 dh p k1(1) k2(1) k3(1) by (simp add: fill_kb_def)
  next
    case False
    then show ?thesis using st(1) s1 s2 by (cases d; cases h) (simp_all add: fill_kb_def Let_def)
  qed
qed

text \<open>C10: The header frame of a request is recognised for what it is: when a block that the encoder made of at most 100 headers with
  different names, the last of them with a value, arrives from the client, the connection has the request with the method, scheme,
  host and path of its pseudo headers, whether it had a request before or not.  No name and no value may have a Huffman code of
  127 octets, which the encoder writes wrongly; the application data must not belong to another inspector, where the engine dereferences
  a null pointer; and when the knowledge base is in use it must have room for five more elements, as a new one has, since its
  clean-up may run past the end of a queue.\<close>

theorem http2_request_recognised:
  assumes "encoder_adds hs True False (new_encoder m) = Inr e" "length hs \<le> 100" "distinct (map fst hs)"
    and "\<forall>h\<in>set hs. codable (fst h) \<and> codable (snd h)" "snd (last hs) \<noteq> []"
    and "{('':authority'', a), ('':method'', mt), ('':path'', p), ('':scheme'', s)} \<subseteq> set hs"
    and "ec_streams ctx \<noteq> None" "\<forall>ps. ec_app ctx \<noteq> OtherData ps" "ec_kb_enabled ctx \<longrightarrow> kb_room 5 (ec_kb ctx)"
  shows "\<exists>ctx' r. process_headers env LEFT i (en_buf e) ctx = Inr ctx' \<and> ec_app ctx' = HttpRequest r \<and> ar_method r = mt
    \<and> ar_version r = HTTP2 \<and> (ec_app ctx = NoData \<longrightarrow> protocol r = ''http2'')
    \<and> original_request r = (if p = ''/favicon.ico'' then a else s @ ''://'' @ a @ p)"
proof -
  let ?t = "fold (\<lambda>h. push_header (fst h) (snd h)) hs []" let ?es = "entries_of ?t"
  obtain d where d: "hpack_decode (en_buf e) (new_decoder 4096) = (d, Inr True)" "dc_headers d = ?t"
    using block_decodes[OF assms(1) _ assms(2-5)] assms(6) by fastforce
  have data: "en_buf e \<noteq> []" using d(1) by (auto simp: hpack_decode_def)
  have es: "sorted (map fst ?es)" "distinct (map fst ?es)" "\<And>n. map_of ?es n = map_of hs n" using block_entries[OF assms(3)] by auto
  have m: "map_of hs '':authority'' = Some a" "map_of hs '':method'' = Some mt" "map_of hs '':path'' = Some p" "map_of hs '':scheme'' = Some s"
    using assms(3,6) by simp_all
  define r0 where "r0 = (case ec_app ctx of HttpRequest r \<Rightarrow> r | _ \<Rightarrow> new_request)\<lparr>ar_version := HTTP2\<rparr>"
  have r0: "on_request (\<lambda>r. r\<lparr>ar_version := HTTP2\<rparr>) (ensure_request (ec_app ctx)) = HttpRequest r0"
    using assms(8) by (simp add: r0_def on_request_def ensure_request_def split: app_data.split)
  let ?r = "fold request_entry ?es r0" let ?c = "ctx\<lparr>ec_app := HttpRequest r0\<rparr>"
  have path: "'':path'' \<in> fst ` set ?es" 
    using imageI[OF map_of_SomeD[OF trans[OF es(3) m(3)]], of fst] by (simp only: fst_conv)
  obtain c1 where c1: "process_entries LEFT i ?es ?c = Inr c1" "ec_streams c1 \<noteq> None" "ec_app c1 = HttpRequest ?r"
      "ec_kb_enabled c1 = ec_kb_enabled ctx" "ec_kb c1 = ec_kb ctx" "path_known i c1"
    using entries_request[of ?c r0 i ?es] assms(7) path by auto
  obtain c2 where c2: "detect_app LEFT i c1 = Inr c2" "c2 = c1 \<or> c2 = upd_stream i (\<lambda>s. s\<lparr>hs_sub_app := DNS_app\<rparr>) c1"
    using detect_request[OF c1(2,3), of i] by blast
  then have k2: "ec_app c2 = HttpRequest ?r" "ec_kb_enabled c2 = ec_kb_enabled ctx" "ec_kb c2 = ec_kb ctx" "path_known i c2"
    using c1 by (auto simp: path_known_upd)
  obtain c3 where c3: "(if ec_kb_enabled c2 then fill_kb env LEFT i c2 else Inr c2) = Inr c3" "ec_app c3 = HttpRequest ?r"
    using fill_kb_request[OF k2(4), of env] k2 assms(9) by auto
  have "process_headers env LEFT i (en_buf e) ctx = Inr c3"
    using data d c1(1) c2(1) c3(1) r0 by (simp add: process_headers_def decode_fault_def)
  moreover have "ar_version ?r = HTTP2" "ec_app ctx = NoData \<longrightarrow> ar_sub_proto ?r = []" using version_kept by (simp_all add: r0_def new_request_def)
  ultimately show ?thesis using c3(2) pseudo_headers[OF es(1,2), unfolded es(3), OF m(1-4), of r0]
    by (intro exI[of _ c3] exI[of _ ?r]) (simp add: original_request_def app_request_text_def protocol_def http_str_def)
qed

section \<open>Where the engine fails\<close>

text \<open>Header entries of a client end the program when the application data belong to another inspector.\<close>

theorem foreign_data_crashes:
  assumes "ec_streams ctx \<noteq> None" "ec_app ctx = OtherData ps"
  shows "process_header_entry LEFT i hdr elem ctx = Inl Crash"
  using assms by (auto simp: process_header_entry_def Let_def)

text \<open>Observing a stream that has a host but no path reads an empty optional, unless the quota of the knowledge base is exceeded
  before.\<close>

theorem missing_path_throws:
  assumes "ec_streams ctx = Some st" "h2_request_header '':authority'' (st i) \<noteq> None" "h2_request_header '':path'' (st i) = None"
  shows "fill_kb env sd i ctx \<in> {Inl Bad_optional_access, Inl Crash}"
proof -
  have known: "\<exists>s' d. stream_domain (hv_split env) s = (s', Some d) \<and> hs_request_headers s' = hs_request_headers s"
    if "h2_request_header '':authority'' s \<noteq> None" for s
    using that by (cases "hs_domain s = []") (auto simp: stream_domain_def Let_def)
  obtain s d where s: "stream_domain (hv_split env) (st i) = (s, Some d)" "hs_request_headers s = hs_request_headers (st i)"
    using known[OF assms(2)] by blast
  then obtain s' d' where s': "stream_domain (hv_split env) s = (s', Some d')" "hs_request_headers s' = hs_request_headers s"
    using known[of s] assms(2) by (auto simp: h2_request_header_def)
  then have "h2_request_header '':path'' s' = None" using assms(3) s(2) by (simp add: h2_request_header_def)
  then show ?thesis using assms(1) s(1) s'(1)
    by (auto simp: fill_kb_def stream_hostname_def Let_def upd_stream_def kb_child_def split: option.splits)
qed

section \<open>Concrete cases\<close>

definition plain_http_env :: "(string \<Rightarrow> dns_response option, string \<Rightarrow> (string \<Rightarrow> int option) option, string \<Rightarrow> int option) http_env" where
  "plain_http_env = \<lparr>hv_dns = plain_dns_env 100, hv_split = (\<lambda>s d. pieces d s), hv_safe_val = (\<lambda>_. 0), hv_time_text = ''100''\<rparr>"

definition plain_engine_ctx :: "app_data \<Rightarrow> (string \<Rightarrow> dns_response option, string \<Rightarrow> (string \<Rightarrow> int option) option) engine_ctx" where
  "plain_engine_ctx a = \<lparr>ec_origin = True, ec_ssl = True, ec_kb_enabled = False, ec_replacement_http = False, ec_continuous = None,
     ec_caches = (\<lambda>_. None, \<lambda>_. None), ec_kb = new_kb, ec_flow_pos = 0, ec_app = a, ec_streams = Some (\<lambda>_. new_stream), ec_status = MAGIC\<rparr>"

lemma plain_http_facts: "env_buffers_ok (hv_dns plain_http_env)" "started sd (plain_engine_ctx a)"
  by (simp_all add: plain_http_env_def plain_engine_ctx_def started_def)

text \<open>An empty frame of settings and the first three octets of the next frame; then the rest of that.\<close>

definition first_part :: bytes where
  "first_part = [0, 0, 0, 4, 0, 0, 0, 0, 0, 0, 0, 1]"

definition second_part :: bytes where
  "second_part = [1, 4, 0, 0, 0, 1, 0x82]"

lemma first_part_consumed: "consume plain_http_env LEFT first_part c = Inr (9, c)"
proof -
  have w: "wire_size first_part = 0" "wire_pad first_part = 0" by code_simp+
  have "process_frame plain_http_env LEFT first_part c = Inr (9, c)"
    unfolding frame_cases[OF plain_http_facts(1)] w by (simp add: first_part_def)
  moreover have "consume plain_http_env LEFT [0, 0, 1] c = Inr (0, c)"
    by (simp add: consume_step[OF plain_http_facts(1), of LEFT "[0, 0, 1]"] frame_cases[OF plain_http_facts(1)])
  moreover have "length first_part = 12" "drop 9 first_part = [0, 0, 1]" by (simp_all add: first_part_def)
  ultimately show ?thesis by (simp add: consume_step[OF plain_http_facts(1), of LEFT first_part])
qed

theorem http2_chunks_equal_whole_witness:
  "\<exists>ctx1. v2_start plain_http_env [(CHR ''r'', first_part)] (None, plain_engine_ctx NoData) = Inr (Some (1, 9), ctx1)
    \<and> v2_start plain_http_env [(CHR ''r'', first_part @ second_part)] (Some (1, 9), ctx1)
      = v2_start plain_http_env [(CHR ''r'', first_part @ second_part)] (None, plain_engine_ctx NoData)"
proof -
  have "v2_start plain_http_env ([] @ [(CHR ''r'', first_part)]) (None, plain_engine_ctx NoData) = Inr (Some (1, 9), plain_engine_ctx NoData)"
    unfolding start_started[OF plain_http_facts] by (simp add: position_def first_part_consumed Let_def) (simp add: first_part_def)
  from http2_chunks_equal_whole[OF plain_http_facts this, of second_part] this show ?thesis by simp
qed

definition request_headers :: "(string \<times> string) list" where
  "request_headers = [('':method'', ''GET''), ('':scheme'', ''https''), ('':authority'', ''a.b''), ('':path'', ''/c'')]"

theorem http2_request_recognised_witness:
  "\<exists>e ctx' r. encoder_adds request_headers True False (new_encoder 4096) = Inr e
    \<and> process_headers plain_http_env LEFT 1 (en_buf e) ((plain_engine_ctx NoData)\<lparr>ec_kb_enabled := True\<rparr>) = Inr ctx' \<and> ec_app ctx' = HttpRequest r
    \<and> ar_method r = ''GET'' \<and> protocol r = ''http2'' \<and> original_request r = ''https://a.b/c''"
proof -
  obtain e where e: "encoder_adds request_headers True False (new_encoder 4096) = Inr e"
    using adds_total[of request_headers "new_encoder 4096"] by (auto simp: request_headers_def headers_size_def)
  have c: "\<forall>h\<in>set request_headers. codable (fst h) \<and> codable (snd h)" by (simp add: request_headers_def codable_short)
  show ?thesis using http2_request_recognised[OF e _ _ c, of "''a.b''" "''GET''" "''/c''" "''https''"
      "(plain_engine_ctx NoData)\<lparr>ec_kb_enabled := True\<rparr>" plain_http_env 1] e new_kb_room[of 5]
    by (auto simp: request_headers_def plain_engine_ctx_def)
qed

theorem http1_request_line_witness:
  "\<exists>r. find_method (''GET /a?b=c HTTP/1.1'') NoData = HttpRequest r \<and> ar_method r = ''GET'' \<and> ar_uri r = ''/a'' \<and> ar_params r = ''b=c''
    \<and> app_request_text r = ''/ab=c''"
  using http1_request_line[of "''GET''" "''/a''" "''b=c''" "''HTTP/1.1''"] by (simp add: http_methods_def ends_token_def)

end
