(* ===== verification/Spec2Isabelle.thy ===== *)
theory Spec2Isabelle
  imports SocksProxy CfgRound CfgTables CfgEdit HttpEngine
begin

text \<open>
  A verification development of smithproxy, a transparent and SOCKS proxy that
  decrypts, inspects and filters connections.

  \<^bold>\<open>The program.\<close>  A connection arrives at a listener (\<open>src/src/proxy/proxymaker.cpp\<close>, or
  \<open>src/src/proxy/socks5\<close> for SOCKS clients).  The address of the client and of the target are
  matched against the rule list of the configuration (\<open>src/src/policy/policy.cpp\<close>), whose
  address objects are CIDR blocks (\<open>src/src/ext/libcidr\<close>) or domain names that stand for
  the answers the DNS inspector has seen (\<open>src/src/inspect\<close>).  The rule found attaches profiles
  for TLS, content, detection, authentication and routing to the session
  (\<open>src/src/service/cfgapi/cfgapi.cpp\<close>, \<open>policy_apply\<close>).  The client is identified by the tables
  shared with the authentication back end (\<open>src/src/shm\<close>, \<open>src/src/policy/authfactory\<close>), and
  \<open>MitmProxy\<close> (\<open>src/src/proxy/mitmproxy.cpp\<close>) then copies data between the two sides, after the
  certificate and authentication checks, which may answer the client with a replacement page.

  \<^bold>\<open>Conventions.\<close>  Operations are functions on explicit state: records hold the fields of
  the classes, an update returns the new record.  An exception or an error code is the left value of
  a sum; a null pointer is \<^term>\<open>None\<close>.  Octets and the counters whose width matters are words.
  The connections of a session are held in a store indexed by numbers, since both sides of a
  proxy, the proxy and its peers refer to the same object.  Code of the socle library and of the
  operating system is not part of the repository: it is a record of functions, a parameter of each
  definition that calls it (\<open>SocleBuffer\<close>: octet buffers; \<open>Conn\<close>: transports and TLS options;
  \<open>DnsInspector\<close>: the time-out cache; \<open>Socks\<close>: sockets and the name server; \<open>CfgTree\<close>: the
  setting trees of libconfig), and what the code relies on is a named hypothesis about the record
  (\<open>buffer_ok\<close>, \<open>cache_ok\<close>, \<open>cfg_ok\<close>), shown satisfiable by a concrete record in the witnesses.

  \<^bold>\<open>Theories.\<close>

  \<^item> \<open>Prelude\<close>, \<open>SocleBuffer\<close>, \<open>CText\<close>: octets, bit numbering, results, big endian reads
    and writes, the buffer of socle, decimal and hexadecimal numbers of the C library.
  \<^item> \<open>Cidr\<close>: \<open>src/src/ext/libcidr/cidr.cpp\<close>, blocks and their arithmetic.  Containment is
    inclusion of address sets, subnets split a block in two halves, the network and broadcast
    addresses are its extremes, counts are cardinalities.  The locale \<open>block_inclusion\<close> is what
    address objects need of a block type.
  \<^item> \<open>CidrText\<close>: \<open>cidr_from_str\<close> and \<open>cidr_to_str\<close> of the same file, written as its loops over
    positions of the text from the end to the front.  Print and parse round trip for IPv4,
    every parsed block but those of IPv4 reverse lookup names is well-formed, and the behaviour on decimal netmasks and on
    over-long IPv6 texts.  The octets in front of the text, which the comparison of the PTR suffix
    may read, are a parameter.
  \<^item> \<open>Dns\<close>, \<open>DnsTtl\<close>: \<open>src/src/inspect/dns.cpp\<close>, the packet parser with its name readers, the
    request generator and the accessors of answers.  A generated request parses back, a parsed
    packet has the questions, answers and authorities its header announces and at most the announced
    additionals, name reads are bounded, TTL positions do not overlap and hold the TTLs of the records.
  \<^item> \<open>DnsInspector\<close>: \<open>src/src/inspect/dnsinspector.cpp\<close> and the name helpers of
    \<open>src/src/policy/inspectors.cpp\<close>.  What enters the cache answers a request that was seen;
    inspection keeps each cached packet the parse of its octets, with the TTLs at the
    recorded positions; a cached answer is sent with its age subtracted.
  \<^item> \<open>AddrObj\<close>, \<open>Policy\<close>: \<open>src/src/policy/addrobj.cpp\<close>, \<open>policy.cpp\<close> and the rule search of
    \<open>cfgapi.cpp\<close>.  The search returns the first rule that matches (locale \<open>first_match\<close>,
    interpreted for both kinds of search), and a rule matches as its abstract specification
    says.
  \<^item> \<open>Profiles\<close>: \<open>src/src/policy/profiles.cpp\<close>, with the load balancing indices (locale
    \<open>index_chooser\<close>).
  \<^item> \<open>Auth\<close>: \<open>src/src/shm/shmauth.hpp\<close>, \<open>src/src/policy/authfactory4.cpp\<close> and
    \<open>authfactory6.cpp\<close>.  The locale \<open>identity_table\<close> is interpreted for one table and for both
    tables of the factory.
  \<^item> \<open>Conn\<close>, \<open>PolicyApply\<close>, \<open>Identity\<close>: the state of connections and proxies, the application of
    the profiles of a rule, and identity resolution of \<open>MitmProxy\<close>.
  \<^item> \<open>ProxyMaker\<close>: \<open>src/src/proxy/proxymaker.cpp\<close> and the handlers of new connections.  No
    connection without a rule of the table; authorization needs a live identity in an allowed
    group; routing goes to a candidate.
  \<^item> \<open>Replacement\<close>, \<open>Traffic\<close>: the certificate and authentication checks, the pages they
    answer with, the copying of data, errors and half-closed sessions.
  \<^item> \<open>Socks\<close>, \<open>SocksRun\<close>, \<open>SocksProxy\<close>: \<open>src/src/proxy/socks5\<close>.  \<open>Socks\<close> has the
    operations of \<open>socksServerCX\<close>; \<open>SocksRun\<close> makes a step relation of the events of a connection
    and shows by rule induction that nothing is answered before the policy decides and that a
    connection starts at most two asynchronous name queries; \<open>SocksProxy\<close> has the decision and the
    hand-off.
  \<^item> \<open>CfgTree\<close>, \<open>CfgDb\<close>, \<open>CfgPolicy\<close>: the object and profile tables of \<open>CfgFactory\<close> and their
    loaders, the rule loader and the reload of sections.  Every rule that is loaded refers only to objects
    of the tables; the reload orders the sections as the code does, and the cases in which old rules or
    profiles survive a reload are stated.
  \<^item> \<open>CfgSave\<close>, \<open>CfgTables\<close>, \<open>CfgRound\<close>: the functions that write the tables back, create entries and
    move rules.  Saved tables load back as they were, but for the state of load balancing; saved rules
    load back without their script profile, and those with features or without a NAT name are lost.
  \<^item> \<open>CfgValue\<close>, \<open>CfgEdit\<close>: \<open>src/src/service/cfgapi/cfgvalue.cpp\<close> and the editing functions of
    \<open>cfgapi.cpp\<close> with the move command of \<open>cmdserver.cpp\<close>.  Accepted references resolve, script profiles apart, which are not checked; an edit
    that is reported as successful is read by the loader.
  \<^item> \<open>Huffman\<close>, \<open>Hpack\<close>: \<open>src/src/ext/hpack/hpack.hpp\<close>.  The Huffman code is prefix-free and complete,
    hence decoding is total and undoes encoding; header blocks round trip under the conditions
    their theorem names, and the remaining cases are shown to fail.
  \<^item> \<open>Kb\<close>, \<open>HttpEngine\<close>: \<open>src/src/inspect/kb\<close> and \<open>src/src/inspect/engine\<close>, the store of observations and the
    HTTP/1 and HTTP/2 engines.  It does not matter in which pieces the frames of a flow arrive; request lines
    and header blocks give the request that was sent, with a knowledge base in use as long as it has room; the store stays
    within its quota.
  \<^item> This theory: properties that span DNS inspection, DNS over HTTP, address text, rule matching
    and SOCKS requests by name.

  \<^bold>\<open>Bounds.\<close>  No definition runs on fuel that the program does not have.  The loops over
  packets recurse on the remaining count or on the distance to the end of the data; the DNS
  inspector reads at most ten messages per segment, as its own loops do; the text parsers recurse on the
  position.  Where the program can fail to end or reads outside an array the
  model returns an error value and a property states for which inputs.

  \<^bold>\<open>Not modelled.\<close>  The interactive command line (\<open>src/src/service/cmd\<close>) apart from its move command, process
  start-up and threads (\<open>src/src/service/core\<close>, \<open>src/src/main.cpp\<close>), logging, the formatting of pages and of
  diagnostic text: they call the operating system, libcli or socle and keep no state of their own
  that a rule or a session depends on.  Of the configuration, the settings, captures, debug and
  signature sections, the upgrade of old files, help texts and suggestions are left out.  The matching of
  traffic signatures, which selects the HTTP engine of a connection, rests on the flow matching of socle.  Races between
  threads on the shared tables are not represented: each operation runs under the lock its code takes.
  TLS itself, the event loop and the shared memory segments belong to libraries.  Text forms are
  modelled where the program reads them back.
\<close>

section \<open>Names in rules\<close>

text \<open>The address functions rule matching uses, given by the CIDR library and a view of the DNS cache.\<close>

definition text_env :: "cmem \<Rightarrow> (string \<Rightarrow> dns_packet option) \<Rightarrow> addr_env" where
  "text_env pre dns = \<lparr>ae_from_str = (\<lambda>s. case cidr_from_str pre (c_str s) of Inr c \<Rightarrow> Some c | Inl _ \<Rightarrow> None),
     ae_to_str = (\<lambda>c. case cidr_to_str c CIDR_ONLYADDR of Inr t \<Rightarrow> t | Inl _ \<Rightarrow> []), ae_dns_cache = dns\<rparr>"

definition cached_packets :: "('c, 'd, 's) dns_env \<Rightarrow> 'c \<Rightarrow> string \<Rightarrow> dns_packet option" where
  "cached_packets env c k = map_option rs_packet (pc_get (de_dns env) c k)"

lemma text_env_quad: "ae_from_str (text_env pre dns) (quad_text a b c d) = Some (v4_text_block a b c d 32)"
  by (simp add: text_env_def c_str_plain[OF quad_text_no_zero] from_str_host)

lemma host_text_block: "host_block (v4_text_block a b c d 32)"
proof -
  have "v4_mask 32 = replicate 12 0xff @ [0xff, 0xff, 0xff, 0xff]" by code_simp
  then have "v4_text_block a b c d 32 = v4_block a b c d [0xff, 0xff, 0xff, 0xff]"
    by (simp add: v4_text_block_def v4_block_def)
  then show ?thesis using v4_host_block by simp
qed

lemma fqdn_address_match_total: "\<exists>b. fqdn_address_match env f (Some h) = Inr b"
  by (auto simp: fqdn_address_match_def split: option.splits)

lemma A_payload:
  "addr_payload a = Some (v4_mapped_head @ [x1, x2, x3, x4]) \<and> da_type a = record_code A
    \<longleftrightarrow> da_type a = record_code A \<and> da_data a = [x1, x2, x3, x4]"
  by (auto simp: addr_payload_def)

lemma named_host_match:
  assumes "cx_host cx = quad_text x1 x2 x3 x4" "pe_addr pe = text_env pre dns" "dns (''A:'' @ f) = Some p"
  shows "match_addrgrp_cx pe [FqdnAddress f] cx
    = Inr (\<exists>a\<in>set (dp_answers_list p). da_type a = record_code A \<and> da_data a = [x1, x2, x3, x4])"
proof -
  let ?h = "v4_text_block x1 x2 x3 x4 32"
  have h: "c_addr ?h = v4_mapped_head @ [x1, x2, x3, x4]" "c_proto ?h = CIDR_IPV4" by (simp_all add: v4_text_block_def)
  obtain b where b: "fqdn_address_match (pe_addr pe) f (Some ?h) = Inr b" using fqdn_address_match_total by blast
  have f: "find_dns_response (pe_addr pe) f CIDR_IPV4 = Some p" using assms(2,3) by (simp add: find_dns_response_def text_env_def)
  have "fqdn_address_match (pe_addr pe) f (Some ?h) = Inr True \<longleftrightarrow>
      (\<exists>a\<in>set (dp_answers_list p). addr_payload a = Some (v4_mapped_head @ [x1, x2, x3, x4]) \<and> da_type a = record_code A)"
    using fqdn_match_by_answers[OF host_text_block, of "pe_addr pe" f x1 x2 x3 x4] f h
    by (auto simp: cidr_proto_defs split: if_splits)
  then have "b \<longleftrightarrow> (\<exists>a\<in>set (dp_answers_list p). da_type a = record_code A \<and> da_data a = [x1, x2, x3, x4])"
    unfolding A_payload using b by simp
  then show ?thesis
    using b assms(1,2) text_env_quad[of pre dns x1 x2 x3 x4] by (simp add: match_addrgrp_cx_def)
qed

lemma dns_store_cached:
  assumes "cache_ok (de_dns env)" "dns_store env resp (c, ds) = (True, (c', ds'))"
  shows "cached_packets env c' (question_str_0 (rs_packet resp)) = Some (rs_packet resp)"
  using assms cache_okD(1)[OF assms(1)]
  by (auto simp: dns_store_def Let_def cached_packets_def split: if_splits option.splits prod.splits)

text \<open>A response the DNS inspector has stored opens the rules that name its question: after the store, a rule
  address that is the name matches a host, given as dotted text, exactly when the response has an address record
  with the four octets of the text.\<close>

theorem learned_name_matches:
  assumes "cache_ok (de_dns env)" "dns_store env resp (c, ds) = (True, (c', ds'))" "question_str_0 (rs_packet resp) = ''A:'' @ f"
    and "cx_host cx = quad_text x1 x2 x3 x4" "pe_addr pe = text_env pre (cached_packets env c')"
  shows "match_addrgrp_cx pe [FqdnAddress f] cx
    = Inr (\<exists>a\<in>set (dp_answers_list (rs_packet resp)). da_type a = record_code A \<and> da_data a = [x1, x2, x3, x4])"
  by (rule named_host_match[OF assms(4,5)]) (use dns_store_cached[OF assms(1,2)] assms(3) in simp)

text \<open>C11: A server that answers DNS queries over HTTP decides what the rules that name a host match: the body of a response on such
  a stream is stored in the cache without regard to any query, and from then on a rule for the name of its question
  matches the addresses of its answers.\<close>

theorem doh_answer_opens_rule:
  assumes "cache_ok (de_dns (hv_dns env))" "ec_streams ctx = Some st" "hs_sub_app (st i) = DNS_app" "data \<noteq> []"
    and "h2_response_header ''content-type'' (st i) = Some ''application/dns-message''"
    and "load (de_now (hv_dns env)) (hv_buf env data) empty_packet = (p, Some n)" "question_str_0 p = ''A:'' @ f"
    and "a \<in> set (dp_answers_list p)" "da_type a = record_code A" "da_data a = [x1, x2, x3, x4]" "cx_host cx = quad_text x1 x2 x3 x4"
  shows "\<exists>ctx'. process_data env RIGHT i data ctx = Inr ctx'
    \<and> (\<forall>pe pre. pe_addr pe = text_env pre (cached_packets (hv_dns env) (fst (ec_caches ctx')))
        \<longrightarrow> match_addrgrp_cx pe [FqdnAddress f] cx = Inr True)"
proof -
  let ?r = "\<lparr>rs_packet = p, rs_cached = None\<rparr>"
  obtain b c d where s: "dns_store (hv_dns env) ?r (ec_caches ctx) = (b, (c, d))" by (metis prod.collapse)
  have "answer_str_A (hv_dns env) p \<noteq> []" using assms(8,9) answer_str_A_empty_iff by blast
  then have b using s by (cases "ec_caches ctx") (auto simp: dns_store_def Let_def split: option.splits prod.splits)
  then have q: "cached_packets (hv_dns env) c (''A:'' @ f) = Some p"
    using dns_store_cached[OF assms(1), of ?r "fst (ec_caches ctx)" "snd (ec_caches ctx)" c d] s assms(7) by simp
  let ?c = "ctx\<lparr>ec_continuous := Some 5000, ec_caches := (c, d), ec_app := on_request (\<lambda>r. r\<lparr>ar_sub_proto := ''dns''\<rparr>) (ec_app ctx)\<rparr>"
  obtain vs where "tab_get (hs_response_headers (st i)) ''content-type'' = Some vs" "vs \<noteq> []" "last vs = ''application/dns-message''"
    using assms(5) by (auto simp: h2_response_header_def find_header_def split: option.splits if_splits)
  then have "process_data env RIGHT i data ctx = Inr ?c"
    using assms(2-4,6) s by (simp add: process_data_def process_dns_def)
  moreover have "match_addrgrp_cx pe [FqdnAddress f] cx = Inr True"
    if "pe_addr pe = text_env pre (cached_packets (hv_dns env) c)" for pe pre
    using named_host_match[OF assms(11) that q] assms(8-10) by auto
  ultimately show ?thesis by auto
qed

section \<open>Names in SOCKS requests\<close>

lemma setup_target_right:
  assumes "setup_target env i w = (w', Inr b)"
  shows "\<exists>r. sx_right (sw_cx w' i) = Some r \<and> sh_dst_host r = sx_dst_host (sw_cx w i) \<and> sw_cache w' = sw_cache w"
  using assms by (auto simp: setup_target_def Let_def wait_policy_def split: sum.splits prod.splits)

lemma resolved_target:
  assumes "process_dns_response env i (Some r) w = (w', Inr True)"
  shows "\<exists>t c ds. sx_right (sw_cx w' i) = Some t \<and> sh_dst_host t \<in> set (answer_ips env (rs_packet r))
    \<and> dns_store (se_dns env) r (sw_cache w, sw_domains w) = (c, ds) \<and> sw_cache w' = fst ds"
proof -
  let ?ips = "answer_ips env (rs_packet r)"
  have ne: "?ips \<noteq> []" using assms by (auto simp: process_dns_response_def Let_def)
  obtain b c d where st: "dns_store (se_dns env) r (sw_cache w, sw_domains w) = (b, (c, d))" by (metis prod.collapse)
  let ?w = "w\<lparr>sw_cache := c, sw_domains := d\<rparr>"
  define k where "k = (if length ?ips > 1 then se_random env i mod length ?ips else 0)"
  have k: "k < length ?ips" using ne by (auto simp: k_def)
  have "setup_target env i (upd_s i (\<lambda>c. c\<lparr>sx_dst_host := ?ips ! k, sx_dst_resolved := True\<rparr>) ?w) = (w', Inr True)"
    using assms ne st by (simp add: process_dns_response_def Let_def choose_server_ip_def k_def)
  from setup_target_right[OF this] k show ?thesis using st by auto
qed

text \<open>C27: When a name server response with a question for IPv4 addresses and no IPv6 address record resolves a SOCKS request by
  name, the prepared target is the dotted text of one of its IPv4 address records, and since the response is stored in the cache before
  the target is prepared, a rule for the name in the question of the response matches the target that the policy is asked
  about.  This is the name in the response: nothing compares it with the name the client has requested, so a rule for the requested
  name matches when the response is for that name.\<close>

theorem resolved_name_matches_rule:
  assumes "process_dns_response env i (Some r) w = (w', Inr True)" "cache_ok (de_dns (se_dns env))"
    and "question_str_0 (rs_packet r) = ''A:'' @ f"
    and "\<forall>a\<in>set (dp_answers_list (rs_packet r)). da_type a \<noteq> record_code AAAA"
    and "\<forall>x1 x2 x3 x4. de_inet_ntoa (se_dns env) [x1, x2, x3, x4] = quad_text x1 x2 x3 x4"
    and "pe_addr pe = text_env pre (cached_packets (se_dns env) (sw_cache w'))"
  shows "\<exists>t a x1 x2 x3 x4. sx_right (sw_cx w' i) = Some t
    \<and> a \<in> set (dp_answers_list (rs_packet r)) \<and> da_type a = record_code A \<and> da_data a = [x1, x2, x3, x4] \<and> sh_dst_host t = quad_text x1 x2 x3 x4
    \<and> match_addrgrp_cx pe [FqdnAddress f] (target_view (sw_cx w' i) t) = Inr True"
proof -
  obtain t b c d where t: "sx_right (sw_cx w' i) = Some t" "sh_dst_host t \<in> set (answer_ips env (rs_packet r))"
    "dns_store (se_dns env) r (sw_cache w, sw_domains w) = (b, (c, d))" "sw_cache w' = c"
    using resolved_target[OF assms(1)] by force
  obtain a where a: "a \<in> set (dp_answers_list (rs_packet r))" "sh_dst_host t = answer_ip (se_dns env) False a" "sh_dst_host t \<noteq> []"
    using t(2) by (auto simp: answer_ips_def)
  have A: "da_type a = record_code A" "length (da_data a) = 4"
    using a assms(4) by (auto simp: answer_ip_def split: if_splits)
  obtain x1 x2 x3 x4 where x: "da_data a = [x1, x2, x3, x4]"
    using A(2) by (auto simp: numeral_eq_Suc length_Suc_conv)
  have host: "cx_host (target_view (sw_cx w' i) t) = quad_text x1 x2 x3 x4"
    using a(2) A x assms(5) by (simp add: target_view_def answer_ip_def)
  have "answer_str_A (se_dns env) (rs_packet r) \<noteq> []" using a(1) A(1) answer_str_A_empty_iff by blast
  then have b: "b" using t(3) by (auto simp: dns_store_def Let_def split: option.splits prod.splits)
  have "cached_packets (se_dns env) c (''A:'' @ f) = Some (rs_packet r)"
    using dns_store_cached[OF assms(2)] t(3) b assms(3) by fastforce
  from named_host_match[where dns = "cached_packets (se_dns env) c", OF host _ this] have "match_addrgrp_cx pe [FqdnAddress f] (target_view (sw_cx w' i) t)
      = Inr (\<exists>a\<in>set (dp_answers_list (rs_packet r)). da_type a = record_code A \<and> da_data a = [x1, x2, x3, x4])"
    using assms(6) t(4) by simp
  then have "match_addrgrp_cx pe [FqdnAddress f] (target_view (sw_cx w' i) t) = Inr True" using a(1) A(1) x by auto
  moreover have "sh_dst_host t = quad_text x1 x2 x3 x4" using host by (simp add: target_view_def)
  ultimately show ?thesis using t(1) a(1) A(1) x by blast
qed

section \<open>Concrete cases\<close>

definition www_response :: dns_response where
  "www_response = \<lparr>rs_packet = empty_packet\<lparr>dp_questions := 1,
       dp_questions_list := [\<lparr>rec_str = ''w.x'', rec_type = record_code A, rec_class = 1\<rparr>], dp_answers_list := [www_answer]\<rparr>, rs_cached = None\<rparr>"

text \<open>The dotted text of four octets.\<close>

definition ntoa :: "bytes \<Rightarrow> string" where
  "ntoa bs = quad_text (bs ! 0) (bs ! 1) (bs ! 2) (bs ! 3)"

definition text_dns_env :: "(string \<Rightarrow> dns_response option, string \<Rightarrow> (string \<Rightarrow> int option) option, string \<Rightarrow> int option) dns_env" where
  "text_dns_env = (plain_dns_env 100)\<lparr>de_inet_ntoa := ntoa\<rparr>"

definition text_policy :: "(string \<Rightarrow> dns_response option) \<Rightarrow> policy_env" where
  "text_policy c = \<lparr>pe_addr = text_env (\<lambda>_. CHR 0x00) (cached_packets text_dns_env c), pe_safe_val = (\<lambda>_. 80)\<rparr>"

lemma www_facts:
  "question_str_0 (rs_packet www_response) = ''A:'' @ ''w.x''" "cache_ok (de_dns text_dns_env)"
  "dp_answers_list (rs_packet www_response) = [www_answer]" "da_type www_answer = record_code A" "da_data www_answer = [93, 184, 216, 34]"
  by (code_simp, simp add: text_dns_env_def, simp add: www_response_def, simp_all add: www_answer_def)

theorem learned_name_matches_witness:
  "\<exists>c ds. dns_store text_dns_env www_response ((\<lambda>_. None), (\<lambda>_. None)) = (True, (c, ds))
    \<and> match_addrgrp_cx (text_policy c) [FqdnAddress ''w.x''] \<lparr>cx_host = quad_text 93 184 216 34, cx_port = ''80'', cx_l4 = None\<rparr> = Inr True
    \<and> match_addrgrp_cx (text_policy c) [FqdnAddress ''w.x''] \<lparr>cx_host = quad_text 93 184 216 35, cx_port = ''80'', cx_l4 = None\<rparr> = Inr False"
proof -
  have "fst (dns_store text_dns_env www_response ((\<lambda>_. None), (\<lambda>_. None)))" by code_simp
  then obtain c ds where s: "dns_store text_dns_env www_response ((\<lambda>_. None), (\<lambda>_. None)) = (True, (c, ds))"
    by (cases "dns_store text_dns_env www_response ((\<lambda>_. None), (\<lambda>_. None))") auto
  have "pe_addr (text_policy c) = text_env (\<lambda>_. CHR 0x00) (cached_packets text_dns_env c)" by (simp add: text_policy_def)
  from learned_name_matches[OF www_facts(2) s www_facts(1) _ this] show ?thesis using s www_facts(3-5) by simp
qed

definition doh_ctx :: "(string \<Rightarrow> dns_response option, string \<Rightarrow> (string \<Rightarrow> int option) option) engine_ctx" where
  "doh_ctx = (plain_engine_ctx NoData)\<lparr>ec_streams := Some (\<lambda>_. new_stream\<lparr>hs_sub_app := DNS_app,
     hs_response_headers := [(''content-type'', [''application/dns-message''])]\<rparr>)\<rparr>"

theorem doh_answer_opens_rule_witness:
  "\<exists>ctx'. process_data plain_http_env RIGHT 1 sample_response doh_ctx = Inr ctx'
    \<and> match_addrgrp_cx \<lparr>pe_addr = text_env (\<lambda>_. CHR 0x00) (cached_packets (plain_dns_env 100) (fst (ec_caches ctx'))), pe_safe_val = (\<lambda>_. 80)\<rparr>
        [FqdnAddress ''a.b''] \<lparr>cx_host = quad_text 93 184 216 34, cx_port = ''80'', cx_l4 = None\<rparr> = Inr True"
proof -
  let ?l = "load 100 (buffer_of sample_response) empty_packet"
  have e: "snd ?l = Some 37" "question_str_0 (fst ?l) = ''A:a.b''" "map (\<lambda>a. (da_type a, da_data a)) (dp_answers_list (fst ?l)) = [(record_code A, [93, 184, 216, 34])]"
    by code_simp+
  then obtain p where p: "?l = (p, Some 37)" "question_str_0 p = ''A:'' @ ''a.b''"
    "map (\<lambda>a. (da_type a, da_data a)) (dp_answers_list p) = [(record_code A, [93, 184, 216, 34])]" by (cases ?l) auto
  then obtain a where a: "a \<in> set (dp_answers_list p)" "da_type a = record_code A" "da_data a = [93, 184, 216, 34]" by auto
  let ?st = "\<lambda>_ :: int. new_stream\<lparr>hs_sub_app := DNS_app, hs_response_headers := [(''content-type'', [''application/dns-message''])]\<rparr>"
  have s: "ec_streams doh_ctx = Some ?st" by (simp add: doh_ctx_def)
  have h: "hv_dns plain_http_env = plain_dns_env 100" "de_now (plain_dns_env 100) = 100" "de_buf (plain_dns_env 100) = buffer_of"
    by (simp_all add: plain_http_env_def plain_dns_env_def)
  have t: "h2_response_header ''content-type'' (?st i) = Some ''application/dns-message''" for i
    by (simp add: h2_response_header_def find_header_def tab_get_def)
  have d: "sample_response \<noteq> []" by (simp add: sample_response_def)
  obtain ctx' where "process_data plain_http_env RIGHT 1 sample_response doh_ctx = Inr ctx'"
    "\<forall>pe pre. pe_addr pe = text_env pre (cached_packets (hv_dns plain_http_env) (fst (ec_caches ctx')))
      \<longrightarrow> match_addrgrp_cx pe [FqdnAddress ''a.b''] \<lparr>cx_host = quad_text 93 184 216 34, cx_port = ''80'', cx_l4 = None\<rparr> = Inr True"
    using doh_answer_opens_rule[of plain_http_env doh_ctx ?st 1 sample_response p 37 "''a.b''" a 93 184 216 34
        "\<lparr>cx_host = quad_text 93 184 216 34, cx_port = ''80'', cx_l4 = None\<rparr>", OF _ s _ d t _ p(2) a] p(1) by (auto simp: h)
  then show ?thesis unfolding h(1) by (metis policy_env.select_convs(1))
qed

definition text_socks_env :: "(string \<Rightarrow> dns_response option, string \<Rightarrow> (string \<Rightarrow> int option) option, string \<Rightarrow> int option) socks_env" where
  "text_socks_env = plain_socks_env\<lparr>se_dns := text_dns_env\<rparr>"

theorem resolved_name_matches_rule_witness:
  "\<exists>w' t. process_dns_response text_socks_env 0 (Some www_response) (plain_socks_world plain_socks_cx) = (w', Inr True)
    \<and> sx_right (sw_cx w' 0) = Some t \<and> sh_dst_host t = quad_text 93 184 216 34
    \<and> match_addrgrp_cx (text_policy (sw_cache w')) [FqdnAddress ''w.x''] (target_view (sw_cx w' 0) t) = Inr True"
proof -
  let ?r = "process_dns_response text_socks_env 0 (Some www_response) (plain_socks_world plain_socks_cx)"
  have "is_ok (snd ?r) \<and> projr (snd ?r)" by code_simp
  then obtain w' where w: "?r = (w', Inr True)" by (cases ?r) (auto simp: is_ok_iff)
  have e: "se_dns text_socks_env = text_dns_env" by (simp add: text_socks_env_def)
  have n: "record_code A \<noteq> record_code AAAA" by code_simp
  have q: "de_inet_ntoa text_dns_env [x1, x2, x3, x4] = quad_text x1 x2 x3 x4" for x1 x2 x3 x4
    by (simp add: text_dns_env_def ntoa_def)
  have p: "pe_addr (text_policy c) = text_env (\<lambda>_. CHR 0x00) (cached_packets text_dns_env c)" for c by (simp add: text_policy_def)
  have "\<exists>t. sx_right (sw_cx w' 0) = Some t \<and> sh_dst_host t = quad_text 93 184 216 34
    \<and> match_addrgrp_cx (text_policy (sw_cache w')) [FqdnAddress ''w.x''] (target_view (sw_cx w' 0) t) = Inr True"
    using resolved_name_matches_rule[OF w, of "''w.x''" "text_policy (sw_cache w')" "\<lambda>_. CHR 0x00"] www_facts q p n
    unfolding e by simp
  then show ?thesis using w by blast
qed

end
